(* ===== verification/Prelude.thy ===== *)
theory Prelude
  imports Complex_Main "HOL-Library.List_Lexorder" "HOL-Library.Char_ord"
begin

text \<open>
  Shared vocabulary of the development: the Python values every component uses (text, results
  that may raise, clocks, identifiers) and the generic lemmas about them.

  A Python \<open>str\<close> is a \<open>string\<close> whose characters are the code points below 256, and the text
  predicates below are those of CPython on that range (so \<open>isdigit\<close> holds of the superscript
  digits, which \<open>int\<close> rejects). A \<open>float\<close> of seconds is a real number: rounding is not modelled.
  An exception is the left injection of a sum.
\<close>

named_theorems text_simps
named_theorems res_simps

type_synonym pystr = string
type_synonym seconds = real
type_synonym uuid = nat

section \<open>Text\<close>

abbreviation code_point :: "char \<Rightarrow> nat" where
  "code_point c \<equiv> of_char c"

definition py_isspace_char :: "char \<Rightarrow> bool" where
  "py_isspace_char c \<longleftrightarrow>
     (let n = code_point c
      in (9 \<le> n \<and> n \<le> 13) \<or> (28 \<le> n \<and> n \<le> 32) \<or> n = 133 \<or> n = 160)"

text \<open>The class \<open>\d\<close> of a \<open>str\<close> pattern, and the character test of \<open>str.isdigit\<close>.\<close>

definition is_decimal_char :: "char \<Rightarrow> bool" where
  "is_decimal_char c \<longleftrightarrow> 48 \<le> code_point c \<and> code_point c \<le> 57"

definition is_digit_char :: "char \<Rightarrow> bool" where
  "is_digit_char c \<longleftrightarrow>
     is_decimal_char c \<or> code_point c = 178 \<or> code_point c = 179 \<or> code_point c = 185"

definition is_alpha_char :: "char \<Rightarrow> bool" where
  "is_alpha_char c \<longleftrightarrow>
     (let n = code_point c
      in (65 \<le> n \<and> n \<le> 90) \<or> (97 \<le> n \<and> n \<le> 122) \<or> n = 170 \<or> n = 181 \<or> n = 186
         \<or> (192 \<le> n \<and> n \<le> 214) \<or> (216 \<le> n \<and> n \<le> 246) \<or> 248 \<le> n)"

definition py_lstrip :: "pystr \<Rightarrow> pystr" where
  "py_lstrip s = dropWhile py_isspace_char s"

definition py_strip :: "pystr \<Rightarrow> pystr" where
  "py_strip s = rev (py_lstrip (rev (py_lstrip s)))"

definition py_isdigit :: "pystr \<Rightarrow> bool" where
  "py_isdigit s \<longleftrightarrow> s \<noteq> [] \<and> list_all is_digit_char s"

definition py_isalpha :: "pystr \<Rightarrow> bool" where
  "py_isalpha s \<longleftrightarrow> s \<noteq> [] \<and> list_all is_alpha_char s"

definition lower_char :: "char \<Rightarrow> char" where
  "lower_char c =
     (let n = code_point c
      in if (65 \<le> n \<and> n \<le> 90) \<or> (192 \<le> n \<and> n \<le> 222 \<and> n \<noteq> 215) then char_of (n + 32) else c)"

text \<open>
  The upper case of the sharp s (223) is two letters. Those of 181 and 255 lie outside the
  modelled range and are left as they are.
\<close>

definition upper_char :: "char \<Rightarrow> pystr" where
  "upper_char c =
     (let n = code_point c
      in if (97 \<le> n \<and> n \<le> 122) \<or> (224 \<le> n \<and> n \<le> 254 \<and> n \<noteq> 247) then [char_of (n - 32)]
         else if n = 223 then ''SS'' else [c])"

definition py_lower :: "pystr \<Rightarrow> pystr" where
  "py_lower s = map lower_char s"

definition py_upper :: "pystr \<Rightarrow> pystr" where
  "py_upper s = concat (map upper_char s)"

definition py_zfill :: "nat \<Rightarrow> pystr \<Rightarrow> pystr" where
  "py_zfill w s =
     (let pad = replicate (w - length s) CHR ''0''
      in case s of
           [] \<Rightarrow> pad
         | c # r \<Rightarrow> if c = CHR ''+'' \<or> c = CHR ''-'' then c # pad @ r else pad @ s)"

fun py_split :: "char \<Rightarrow> pystr \<Rightarrow> pystr list" where
  "py_split d [] = [[]]"
| "py_split d (c # s) =
     (if c = d then [] # py_split d s
      else case py_split d s of [] \<Rightarrow> [[c]] | w # ws \<Rightarrow> (c # w) # ws)"

fun py_join :: "pystr \<Rightarrow> pystr list \<Rightarrow> pystr" where
  "py_join sep [] = []"
| "py_join sep [w] = w"
| "py_join sep (w # v # ws) = w @ sep @ py_join sep (v # ws)"

text \<open>\<open>str.partition\<close> with a one-character separator.\<close>

definition py_partition :: "char \<Rightarrow> pystr \<Rightarrow> pystr \<times> bool \<times> pystr" where
  "py_partition d s =
     (let a = takeWhile (\<lambda>c. c \<noteq> d) s; r = dropWhile (\<lambda>c. c \<noteq> d) s
      in case r of [] \<Rightarrow> (a, False, []) | _ # b \<Rightarrow> (a, True, b))"

definition py_startswith :: "pystr \<Rightarrow> pystr \<Rightarrow> bool" where
  "py_startswith s p \<longleftrightarrow> take (length p) s = p"

fun py_in :: "pystr \<Rightarrow> pystr \<Rightarrow> bool" where
  "py_in p [] \<longleftrightarrow> p = []"
| "py_in p (c # s) \<longleftrightarrow> py_startswith (c # s) p \<or> py_in p s"

definition py_replace_char :: "char \<Rightarrow> char \<Rightarrow> pystr \<Rightarrow> pystr" where
  "py_replace_char a b s = map (\<lambda>c. if c = a then b else c) s"

text \<open>\<open>repr\<close> of a text: the quote is a double one when only the single one occurs.\<close>

definition hex_digit :: "nat \<Rightarrow> char" where
  "hex_digit d = ''0123456789abcdef'' ! d"

definition repr_char :: "char \<Rightarrow> char \<Rightarrow> pystr" where
  "repr_char q c =
     (let n = code_point c
      in if n = 92 \<or> c = q then [char_of (92 :: nat), c]
         else if n = 9 then [char_of (92 :: nat), CHR ''t'']
         else if n = 10 then [char_of (92 :: nat), CHR ''n'']
         else if n = 13 then [char_of (92 :: nat), CHR ''r'']
         else if n < 32 \<or> (127 \<le> n \<and> n \<le> 160) \<or> n = 173
           then [char_of (92 :: nat), CHR ''x'', hex_digit (n div 16), hex_digit (n mod 16)]
         else [c])"

definition py_repr :: "pystr \<Rightarrow> pystr" where
  "py_repr s =
     (let sq = char_of (39 :: nat); dq = char_of (34 :: nat);
          q = (if sq \<in> set s \<and> dq \<notin> set s then dq else sq)
      in q # concat (map (repr_char q) s) @ [q])"

section \<open>Decimal numbers\<close>

definition digit_char :: "nat \<Rightarrow> char" where
  "digit_char d = ''0123456789'' ! d"

definition digit_value :: "char \<Rightarrow> nat" where
  "digit_value c = code_point c - 48"

fun nat_str :: "nat \<Rightarrow> pystr" where
  "nat_str n = (if n < 10 then [digit_char n] else nat_str (n div 10) @ [digit_char (n mod 10)])"

declare nat_str.simps [simp del]

definition int_str :: "int \<Rightarrow> pystr" where
  "int_str i = (if i < 0 then CHR ''-'' # nat_str (nat (- i)) else nat_str (nat i))"

definition digits_value :: "pystr \<Rightarrow> nat" where
  "digits_value s = foldl (\<lambda>a c. 10 * a + digit_value c) 0 s"

text \<open>
  The digits of an integer literal as \<open>int\<close> reads them: decimal digits, with single underscores
  allowed between two of them. The flag says whether the previous character was a digit.
\<close>

fun int_digits :: "bool \<Rightarrow> pystr \<Rightarrow> pystr option" where
  "int_digits prev [] = (if prev then Some [] else None)"
| "int_digits prev (c # s) =
     (if is_decimal_char c then map_option (Cons c) (int_digits True s)
      else if c = CHR ''_'' \<and> prev then int_digits False s
      else None)"

text \<open>\<open>int(text)\<close>: None is the ValueError.\<close>

definition py_int :: "pystr \<Rightarrow> int option" where
  "py_int s =
     (case py_strip s of
        [] \<Rightarrow> None
      | c # r \<Rightarrow>
          if c = CHR ''-'' then map_option (\<lambda>ds. - int (digits_value ds)) (int_digits False r)
          else if c = CHR ''+'' then map_option (\<lambda>ds. int (digits_value ds)) (int_digits False r)
          else map_option (\<lambda>ds. int (digits_value ds)) (int_digits False (c # r)))"

text \<open>No double holds a magnitude of \<open>2 ^ 1024\<close> or more.\<close>

definition float_overflows :: "real \<Rightarrow> bool" where
  "float_overflows x \<longleftrightarrow> 2 ^ 1024 \<le> \<bar>x\<bar>"

text \<open>The two clocks a component reads: \<open>time.monotonic()\<close> and \<open>datetime.now(UTC)\<close>.\<close>

record clock =
  cl_mono :: seconds
  cl_utc :: seconds

section \<open>Lemmas\<close>

lemma digit_char_cases:
  assumes "d < 10"
  shows "is_decimal_char (digit_char d) \<and> digit_value (digit_char d) = d"
proof -
  have "d \<in> {0, 1, 2, 3, 4, 5, 6, 7, 8, 9}"
    using assms by auto
  then show ?thesis
    by (auto simp: digit_char_def is_decimal_char_def digit_value_def)
qed

lemma nat_str_decimal [text_simps]: "list_all is_decimal_char (nat_str n)"
proof (induction n rule: nat_str.induct)
  case (1 n)
  then show ?case
    by (cases "n < 10") (auto simp: nat_str.simps [of n] digit_char_cases)
qed

lemma nat_str_nonempty [text_simps]: "nat_str n \<noteq> []"
  by (subst nat_str.simps) simp

lemma digits_value_snoc: "digits_value (s @ [c]) = 10 * digits_value s + digit_value c"
  by (simp add: digits_value_def)

lemma digits_value_nat_str [text_simps]: "digits_value (nat_str n) = n"
proof (induction n rule: nat_str.induct)
  case (1 n)
  then show ?case
    by (cases "n < 10")
      (auto simp: nat_str.simps [of n] digits_value_snoc digit_char_cases digits_value_def)
qed

lemma int_digits_decimal [text_simps]:
  "list_all is_decimal_char s \<Longrightarrow> int_digits prev s = (if s = [] \<and> \<not> prev then None else Some s)"
  by (induction s arbitrary: prev) auto

lemma decimal_not_space: "is_decimal_char c \<Longrightarrow> \<not> py_isspace_char c"
  by (auto simp: is_decimal_char_def py_isspace_char_def Let_def)

lemma py_lstrip_id: "(\<And>c. c \<in> set s \<Longrightarrow> \<not> py_isspace_char c) \<Longrightarrow> py_lstrip s = s"
  by (cases s) (auto simp: py_lstrip_def)

lemma py_strip_id: "(\<And>c. c \<in> set s \<Longrightarrow> \<not> py_isspace_char c) \<Longrightarrow> py_strip s = s"
  by (metis py_lstrip_id py_strip_def rev_rev_ident set_rev)

lemma py_strip_decimal: "list_all is_decimal_char s \<Longrightarrow> py_strip s = s"
  by (rule py_strip_id) (auto simp: list_all_iff decimal_not_space)

lemma dropWhile_not_head: "dropWhile P s = [] \<or> \<not> P (hd (dropWhile P s))"
  by (induction s) auto

lemma py_strip_idem [text_simps]: "py_strip (py_strip s) = py_strip s"
proof -
  let ?u = "py_lstrip s"
  let ?v = "py_lstrip (rev ?u)"
  have last: "?v = [] \<or> \<not> py_isspace_char (hd ?v)"
    unfolding py_lstrip_def by (rule dropWhile_not_head)
  obtain pre where pre: "rev ?u = pre @ ?v"
    unfolding py_lstrip_def by (metis takeWhile_dropWhile_id)
  then have u: "?u = rev ?v @ rev pre"
    by (metis rev_append rev_rev_ident)
  have "py_lstrip (rev ?v) = rev ?v"
  proof (cases "?v = []")
    case False
    then have "?u \<noteq> [] \<and> hd ?u = hd (rev ?v)"
      using u by (metis Nil_is_append_conv hd_append2 rev_is_Nil_conv)
    moreover have "?u = [] \<or> \<not> py_isspace_char (hd ?u)"
      unfolding py_lstrip_def by (rule dropWhile_not_head)
    ultimately have "\<not> py_isspace_char (hd (rev ?v))"
      by auto
    then show ?thesis
      using False by (cases "rev ?v") (auto simp: py_lstrip_def)
  next
    case True
    then show ?thesis
      by (metis dropWhile.simps(1) py_lstrip_def rev.simps(1))
  qed
  moreover have "py_lstrip ?v = ?v"
    using last by (metis dropWhile_eq_self_iff py_lstrip_def)
  ultimately show ?thesis
    by (simp add: py_strip_def)
qed

lemma decimal_hd_not_sign:
  "is_decimal_char c \<Longrightarrow> c \<noteq> CHR ''-'' \<and> c \<noteq> CHR ''+''"
  by (auto simp: is_decimal_char_def)

lemma py_int_nat_str [text_simps]: "py_int (nat_str n) = Some (int n)"
proof -
  obtain c r where cr: "nat_str n = c # r"
    using nat_str_nonempty by (cases "nat_str n") auto
  have "py_strip (nat_str n) = nat_str n"
    by (rule py_strip_decimal) (rule nat_str_decimal)
  moreover have "c \<noteq> CHR ''-'' \<and> c \<noteq> CHR ''+''"
    using nat_str_decimal [of n] cr decimal_hd_not_sign by simp
  moreover have "int_digits False (c # r) = Some (c # r)"
    using nat_str_decimal [of n] cr by (subst int_digits_decimal) auto
  moreover have "digits_value (c # r) = n"
    using cr digits_value_nat_str by metis
  ultimately show ?thesis
    using cr by (simp add: py_int_def)
qed

lemma nat_str_inject [text_simps]: "nat_str m = nat_str n \<longleftrightarrow> m = n"
  using digits_value_nat_str by metis

definition py_trunc :: "real \<Rightarrow> int" where
  "py_trunc x = (if 0 \<le> x then \<lfloor>x\<rfloor> else \<lceil>x\<rceil>)"

section \<open>Results\<close>

definition bind_res :: "'e + 'a \<Rightarrow> ('a \<Rightarrow> 'e + 'b) \<Rightarrow> 'e + 'b" where
  "bind_res m f = (case m of Inl e \<Rightarrow> Inl e | Inr x \<Rightarrow> f x)"

lemma bind_res_simps [simp, res_simps]:
  "bind_res (Inl e) f = Inl e" "bind_res (Inr x) f = f x"
  by (simp_all add: bind_res_def)

lemma bind_res_Inr_iff [res_simps]:
  "bind_res m f = Inr y \<longleftrightarrow> (\<exists>x. m = Inr x \<and> f x = Inr y)"
  by (cases m) auto

fun map_res :: "('a \<Rightarrow> 'e + 'b) \<Rightarrow> 'a list \<Rightarrow> 'e + 'b list" where
  "map_res f [] = Inr []"
| "map_res f (x # xs) = bind_res (f x) (\<lambda>y. bind_res (map_res f xs) (\<lambda>ys. Inr (y # ys)))"

lemma map_res_Inr_iff: "map_res f xs = Inr ys \<longleftrightarrow> list_all2 (\<lambda>x y. f x = Inr y) xs ys"
proof (induction xs arbitrary: ys)
  case Nil
  then show ?case by auto
next
  case (Cons x xs)
  show ?case by (cases ys) (auto simp: bind_res_Inr_iff Cons.IH)
qed

lemma map_res_all: "(\<And>x. x \<in> set xs \<Longrightarrow> f x = Inr (g x)) \<Longrightarrow> map_res f xs = Inr (map g xs)"
  by (induction xs) auto

lemma foldl_invariant: "(\<And>s x. P s \<Longrightarrow> P (f s x)) \<Longrightarrow> P s \<Longrightarrow> P (foldl f s xs)"
  by (induction xs arbitrary: s) auto

end
