(* ===== verification/Domain.thy ===== *)
theory Domain
  imports Prelude
begin

text \<open>
  The values every package shares: \<open>core/domain\<close>. Exceptions with their class hierarchy
  (\<open>errors.py\<close>), the retry classification (\<open>policy.py\<close>), the meaning of an HTTP status
  (\<open>transport.py\<close>), and documents, sites, attempts and results (\<open>types.py\<close>).
\<close>

section \<open>Exceptions\<close>

datatype exn_class =
    FetchError
  | TransientTransportError
  | BanSignalError
  | ParseError
  | UpstreamNotReadyError
  | ProviderSchemaError
  | ProxyConfigurationError
  | RucNotFoundError
  | BuiltinError pystr

text \<open>The direct base class, None for a class outside the \<open>FetchError\<close> tree.\<close>

fun base_class :: "exn_class \<Rightarrow> exn_class option" where
  "base_class FetchError = None"
| "base_class TransientTransportError = Some FetchError"
| "base_class BanSignalError = Some TransientTransportError"
| "base_class ParseError = Some TransientTransportError"
| "base_class UpstreamNotReadyError = Some TransientTransportError"
| "base_class ProviderSchemaError = Some FetchError"
| "base_class ProxyConfigurationError = Some FetchError"
| "base_class RucNotFoundError = Some FetchError"
| "base_class (BuiltinError n) = None"

fun class_depth :: "exn_class \<Rightarrow> nat" where
  "class_depth FetchError = 0"
| "class_depth (BuiltinError n) = 0"
| "class_depth BanSignalError = 2"
| "class_depth ParseError = 2"
| "class_depth UpstreamNotReadyError = 2"
| "class_depth c = 1"

function is_subclass :: "exn_class \<Rightarrow> exn_class \<Rightarrow> bool" where
  "is_subclass c d \<longleftrightarrow>
     c = d \<or> (case base_class c of None \<Rightarrow> False | Some b \<Rightarrow> is_subclass b d)"
  by pat_completeness auto
termination
proof (relation "measure (\<lambda>(c, d). class_depth c)")
  fix c d b
  assume "base_class c = Some b"
  then show "((b, d), c, d) \<in> measure (\<lambda>(c, d). class_depth c)"
    by (cases c) auto
qed simp

declare is_subclass.simps [simp del]

record exn =
  exn_class :: exn_class
  exn_text :: pystr

definition raise_exn :: "exn_class \<Rightarrow> pystr \<Rightarrow> exn" where
  "raise_exn c msg = \<lparr>exn_class = c, exn_text = msg\<rparr>"

definition isinstance :: "exn \<Rightarrow> exn_class \<Rightarrow> bool" where
  "isinstance e c \<longleftrightarrow> is_subclass (exn_class e) c"

abbreviation ValueError :: exn_class where
  "ValueError \<equiv> BuiltinError ''ValueError''"

abbreviation OverflowError :: exn_class where
  "OverflowError \<equiv> BuiltinError ''OverflowError''"

section \<open>Retry policy\<close>

definition MAX_ATTEMPTS :: nat where
  "MAX_ATTEMPTS = 4"

definition MAX_TOTAL_ATTEMPTS :: nat where
  "MAX_TOTAL_ATTEMPTS = 12"

record retry_decision =
  rd_error_code :: pystr
  rd_cooldown_s :: seconds

definition classify :: "exn \<Rightarrow> seconds \<Rightarrow> retry_decision" where
  "classify e ban_cooldown_s =
     (if isinstance e BanSignalError
        then \<lparr>rd_error_code = ''ban_signal'', rd_cooldown_s = ban_cooldown_s\<rparr>
      else if isinstance e UpstreamNotReadyError
        then \<lparr>rd_error_code = ''upstream_not_ready'', rd_cooldown_s = 0\<rparr>
      else if isinstance e ParseError
        then \<lparr>rd_error_code = ''parse_error'', rd_cooldown_s = 0\<rparr>
      else if isinstance e ProviderSchemaError
        then \<lparr>rd_error_code = ''provider_schema_error'', rd_cooldown_s = 0\<rparr>
      else if isinstance e TransientTransportError
        then \<lparr>rd_error_code = ''transport_error'', rd_cooldown_s = 0\<rparr>
      else \<lparr>rd_error_code = ''provider_error'', rd_cooldown_s = 0\<rparr>)"

definition classify_exception :: "exn \<Rightarrow> seconds \<Rightarrow> retry_decision" where
  "classify_exception e ban_cooldown_s =
     (if isinstance e FetchError then classify e ban_cooldown_s
      else \<lparr>rd_error_code = ''unknown_error'', rd_cooldown_s = 0\<rparr>)"

section \<open>HTTP status\<close>

definition TRANSIENT_STATUSES :: "int list" where
  "TRANSIENT_STATUSES = [502, 503, 504]"

definition BAN_STATUSES :: "int list" where
  "BAN_STATUSES = [403, 429]"

definition classify_status :: "int \<Rightarrow> exn_class option" where
  "classify_status status =
     (if status \<in> set TRANSIENT_STATUSES then Some TransientTransportError
      else if 500 \<le> status \<or> status \<in> set BAN_STATUSES then Some BanSignalError
      else if status \<noteq> 200 then Some TransientTransportError
      else None)"

section \<open>Documents\<close>

datatype doc_kind = DNI | RUC

record doc =
  doc_text :: pystr
  doc_kind :: doc_kind

text \<open>
  The patterns \<open>^\d{7,8}$\<close> and \<open>^\d{11}$\<close>. The dollar sign also matches before one final
  newline.
\<close>

definition matches_digits :: "nat \<Rightarrow> nat \<Rightarrow> pystr \<Rightarrow> bool" where
  "matches_digits lo hi s \<longleftrightarrow>
     (let ok = (\<lambda>t. lo \<le> length t \<and> length t \<le> hi \<and> list_all is_decimal_char t)
      in ok s \<or> (s \<noteq> [] \<and> last s = char_of (10 :: nat) \<and> ok (butlast s)))"

definition parse_doc :: "pystr \<Rightarrow> exn + doc" where
  "parse_doc value =
     (let normalized = py_strip value
      in if matches_digits 11 11 normalized
           then Inr \<lparr>doc_text = normalized, doc_kind = RUC\<rparr>
         else if matches_digits 7 8 normalized
           then Inr \<lparr>doc_text = py_zfill 8 normalized, doc_kind = DNI\<rparr>
         else Inl (raise_exn ValueError
                (''invalid document '' @ py_repr value @
                 '': expected a 7-8 digit DNI or 11-digit RUC'')))"

section \<open>Sites, attempts and results\<close>

datatype status = OK | FAILED | NOT_FOUND

fun status_value :: "status \<Rightarrow> pystr" where
  "status_value OK = ''ok''"
| "status_value FAILED = ''failed''"
| "status_value NOT_FOUND = ''not_found''"

text \<open>\<open>Status(text)\<close>: a text that is no member's value raises.\<close>

definition status_of :: "pystr \<Rightarrow> status option" where
  "status_of s =
     (if s = ''ok'' then Some OK
      else if s = ''failed'' then Some FAILED
      else if s = ''not_found'' then Some NOT_FOUND
      else None)"

datatype cell = CStr pystr | CInt int | CBool bool

type_synonym row = "cell list"

record endpoint =
  ep_name :: pystr
  ep_url :: pystr

record projection =
  pj_name :: pystr
  pj_columns :: "pystr list"
  pj_project :: "row list \<Rightarrow> exn + row list"

text \<open>
  The \<open>ready\<close> and \<open>lookup\<close> coroutines of a site talk to the network. They are definitions of
  the site's own theory over a script of responses, and parameters of the fetch loop.
\<close>

record site =
  site_name :: pystr
  site_columns :: "pystr list"
  site_accepts :: "doc \<Rightarrow> bool"
  site_allows_empty :: bool
  site_session_budget :: int
  site_endpoints :: "endpoint list"
  site_projections :: "projection list"
  site_stable :: bool

record attempt_outcome =
  ao_attempt :: nat
  ao_status :: status
  ao_elapsed_ms :: int
  ao_error_code :: pystr

record result =
  res_doc :: doc
  res_site :: pystr
  res_status :: status
  res_rows :: "row list"
  res_error_code :: pystr
  res_error_detail :: pystr
  res_made_healthy_contact :: bool
  res_http_session_id :: pystr
  res_proxy_id :: pystr
  res_provider :: pystr
  res_attempt :: nat
  res_attempts :: "attempt_outcome list"

record run_totals =
  rt_processed :: nat
  rt_succeeded :: nat
  rt_not_found :: nat
  rt_failed :: nat

definition new_totals :: run_totals where
  "new_totals = \<lparr>rt_processed = 0, rt_succeeded = 0, rt_not_found = 0, rt_failed = 0\<rparr>"

section \<open>Lemmas\<close>

lemmas exn_simps = isinstance_def raise_exn_def is_subclass.simps

declare status_of_def [simp]

lemma status_of_value [simp]: "status_of (status_value s) = Some s"
  by (cases s) auto

lemma status_value_inject [simp]: "status_value a = status_value b \<longleftrightarrow> a = b"
  by (cases a; cases b) auto

lemma py_strip_last:
  assumes "py_strip s \<noteq> []"
  shows "\<not> py_isspace_char (last (py_strip s))"
proof -
  have "dropWhile py_isspace_char (rev (py_lstrip s)) \<noteq> []"
    using assms by (simp add: py_strip_def py_lstrip_def)
  then have "\<not> py_isspace_char (hd (py_lstrip (rev (py_lstrip s))))"
    unfolding py_lstrip_def using dropWhile_not_head by blast
  then show ?thesis
    unfolding py_strip_def using assms by (metis hd_rev py_strip_def rev_rev_ident)
qed

lemma newline_is_space: "py_isspace_char (char_of (10 :: nat))"
  by (simp add: py_isspace_char_def)

text \<open>On a stripped text the dollar sign can only match at the very end.\<close>

lemma matches_digits_strip:
  "matches_digits lo hi (py_strip s) \<longleftrightarrow>
     lo \<le> length (py_strip s) \<and> length (py_strip s) \<le> hi \<and> list_all is_decimal_char (py_strip s)"
  using py_strip_last [of s] newline_is_space by (auto simp: matches_digits_def Let_def)

lemma matches_digits_decimal:
  assumes "list_all is_decimal_char s"
  shows "matches_digits lo hi s \<longleftrightarrow> lo \<le> length s \<and> length s \<le> hi"
  using matches_digits_strip [of lo hi s] assms by (simp add: py_strip_decimal)

lemma zfill_decimal:
  assumes "list_all is_decimal_char s"
  shows "py_zfill w s = replicate (w - length s) CHR ''0'' @ s"
  using assms by (cases s) (auto simp: py_zfill_def Let_def dest: decimal_hd_not_sign)

lemma zero_decimal: "is_decimal_char CHR ''0''"
  by (simp add: is_decimal_char_def)

lemma list_all_zeros: "list_all is_decimal_char (replicate n CHR ''0'')"
  by (simp add: list_all_iff zero_decimal)

text \<open>What a parsed document looks like, whatever was typed.\<close>

lemma parse_doc_shape:
  assumes "parse_doc v = Inr d"
  shows "list_all is_decimal_char (doc_text d) \<and>
         length (doc_text d) = (case doc_kind d of DNI \<Rightarrow> 8 | RUC \<Rightarrow> 11)"
  using assms
  by (auto simp: parse_doc_def Let_def matches_digits_strip zfill_decimal list_all_zeros
        split: if_splits)

lemma parse_doc_text:
  assumes "list_all is_decimal_char s" and "length s = 8 \<or> length s = 11"
  shows "parse_doc s = Inr \<lparr>doc_text = s, doc_kind = if length s = 8 then DNI else RUC\<rparr>"
  using assms
  by (auto simp: parse_doc_def Let_def py_strip_decimal matches_digits_decimal zfill_decimal)

lemma parse_doc_error_class:
  "parse_doc v = Inl e \<Longrightarrow> exn_class e = ValueError"
  by (auto simp: parse_doc_def Let_def raise_exn_def split: if_splits)

lemma parse_doc_fixed:
  assumes "parse_doc v = Inr d"
  shows "parse_doc (doc_text d) = Inr d"
proof -
  note shape = parse_doc_shape [OF assms]
  then have "parse_doc (doc_text d)
      = Inr \<lparr>doc_text = doc_text d, doc_kind = if length (doc_text d) = 8 then DNI else RUC\<rparr>"
    by (intro parse_doc_text) (auto split: doc_kind.splits)
  with shape show ?thesis
    by (cases "doc_kind d") auto
qed

section \<open>Properties\<close>

text \<open>Parsing a document normalises it: the stored text is a fixed point of the parser with
  the same kind, and it is eight digits for a DNI and eleven for a RUC. So a document written
  to a store, a queue or a CSV is read back as itself.\<close>

theorem parse_doc_roundtrip:
  assumes "parse_doc v = Inr d"
  shows "parse_doc (doc_text d) = Inr d \<and>
         length (doc_text d) = (case doc_kind d of DNI \<Rightarrow> 8 | RUC \<Rightarrow> 11) \<and>
         list_all is_decimal_char (doc_text d)"
  using parse_doc_fixed [OF assms] parse_doc_shape [OF assms] by blast

theorem parse_doc_roundtrip_witness:
  "parse_doc ''1234567'' = Inr \<lparr>doc_text = ''01234567'', doc_kind = DNI\<rparr> \<and>
   parse_doc ''01234567'' = Inr \<lparr>doc_text = ''01234567'', doc_kind = DNI\<rparr>"
proof -
  have h: "parse_doc ''1234567'' = Inr \<lparr>doc_text = ''01234567'', doc_kind = DNI\<rparr>"
    by code_simp
  show ?thesis
    using h parse_doc_roundtrip [OF h] by simp
qed

text \<open>Every exception, of whatever class, gets one of seven error codes, and only a ban signal
  cools the lane down.\<close>

theorem classify_exception_codes:
  "rd_error_code (classify_exception e c) =
     (case exn_class e of
        BanSignalError \<Rightarrow> ''ban_signal''
      | UpstreamNotReadyError \<Rightarrow> ''upstream_not_ready''
      | ParseError \<Rightarrow> ''parse_error''
      | ProviderSchemaError \<Rightarrow> ''provider_schema_error''
      | TransientTransportError \<Rightarrow> ''transport_error''
      | FetchError \<Rightarrow> ''provider_error''
      | ProxyConfigurationError \<Rightarrow> ''provider_error''
      | RucNotFoundError \<Rightarrow> ''provider_error''
      | BuiltinError n \<Rightarrow> ''unknown_error'') \<and>
   rd_cooldown_s (classify_exception e c) = (if exn_class e = BanSignalError then c else 0)"
  by (cases "exn_class e")
    (simp_all add: classify_exception_def classify_def isinstance_def is_subclass.simps)

end
