(* ===== verification/Gate.thy ===== *)
theory Gate
  imports Prelude
begin

text \<open>
  The contract of a failure gate, the interface behind which the retry loops and the job claims
  see a circuit breaker. Two components provide it: the in-process breaker of
  \<open>core/pipeline/breaker.py\<close> and the fleet-wide row of \<open>portal/repository/breakers.py\<close>.
  A gate counts consecutive failures up to a threshold, then opens until a deadline that depends
  on its level. \<open>cap\<close> bounds the levels whose cooldown can be computed.
\<close>

text \<open>A run of outcomes, each with its instant and whether the contact was healthy.\<close>

definition gate_run ::
  "('b \<Rightarrow> 'b) \<Rightarrow> (clock \<Rightarrow> 'b \<Rightarrow> 'b) \<Rightarrow> (clock \<times> bool) list \<Rightarrow> 'b \<Rightarrow> 'b" where
  "gate_run succeed fail os b = fold (\<lambda>(t, healthy). if healthy then succeed else fail t) os b"

text \<open>No run of failures without a success between them reaches \<open>m\<close>, the first going on from \<open>n\<close> failures.\<close>

fun streaks_below :: "nat \<Rightarrow> nat \<Rightarrow> (clock \<times> bool) list \<Rightarrow> bool" where
  "streaks_below m n [] = (n < m)"
| "streaks_below m n (o' # os) = (n < m \<and> streaks_below m (if snd o' then 0 else n + 1) os)"

lemma streaks_below_start: "streaks_below m n os \<Longrightarrow> n < m"
  by (cases os) auto

locale failure_gate =
  fixes succeed :: "'b \<Rightarrow> 'b"
    and fail :: "clock \<Rightarrow> 'b \<Rightarrow> 'b"
    and failures :: "'b \<Rightarrow> nat"
    and level :: "'b \<Rightarrow> nat"
    and deadline :: "'b \<Rightarrow> seconds option"
    and invar :: "'b \<Rightarrow> bool"
    and threshold :: nat
    and cooldown :: "nat \<Rightarrow> seconds"
    and cap :: nat
  assumes invar_succeed: "invar b \<Longrightarrow> invar (succeed b)"
    and invar_fail: "invar b \<Longrightarrow> 0 < cl_mono now \<Longrightarrow> level b < cap \<Longrightarrow> invar (fail now b)"
    and invar_failures: "invar b \<Longrightarrow> failures b < threshold"
    and succeed_resets: "invar b \<Longrightarrow>
          failures (succeed b) = 0 \<and> level (succeed b) = 0 \<and> deadline (succeed b) = None"
    and fail_counts: "invar b \<Longrightarrow> failures b + 1 < threshold \<Longrightarrow>
          failures (fail now b) = failures b + 1 \<and> level (fail now b) = level b \<and>
          deadline (fail now b) = deadline b"
    and fail_opens: "invar b \<Longrightarrow> failures b + 1 = threshold \<Longrightarrow> level b < cap \<Longrightarrow>
          failures (fail now b) = 0 \<and> level (fail now b) = level b + 1 \<and>
          deadline (fail now b) = Some (cl_utc now + cooldown (level b))"
begin

lemma fail_level_mono: "invar b \<Longrightarrow> level b < cap \<Longrightarrow> level (fail now b) \<le> level b + 1"
  using invar_failures [of b] fail_counts [of b now] fail_opens [of b now]
  by (cases "failures b + 1 < threshold") auto

text \<open>Fewer failures than it takes only count.\<close>

lemma fails_below:
  assumes "invar b" and "level b < cap" and "\<forall>t \<in> set ts. 0 < cl_mono t"
    and "failures b + length ts < threshold"
  shows "invar (fold fail ts b) \<and> failures (fold fail ts b) = failures b + length ts \<and>
         level (fold fail ts b) = level b \<and> deadline (fold fail ts b) = deadline b"
  using assms
proof (induction ts arbitrary: b)
  case Nil
  then show ?case by simp
next
  case (Cons t ts)
  have "failures b + 1 < threshold"
    using Cons.prems by simp
  note one = fail_counts [OF Cons.prems(1) this, of t]
  have "invar (fail t b)"
    using Cons.prems by (intro invar_fail) auto
  with one Cons.prems Cons.IH [of "fail t b"] show ?case
    by auto
qed

text \<open>The failure that reaches the threshold opens the gate.\<close>

lemma fails_open:
  assumes "invar b" and "level b < cap" and "\<forall>t \<in> set ts. 0 < cl_mono t"
    and "failures b + length ts + 1 = threshold"
  shows "failures (fold fail (ts @ [t]) b) = 0 \<and>
         level (fold fail (ts @ [t]) b) = level b + 1 \<and>
         deadline (fold fail (ts @ [t]) b) = Some (cl_utc t + cooldown (level b))"
proof -
  have "invar (fold fail ts b) \<and> failures (fold fail ts b) = failures b + length ts \<and>
        level (fold fail ts b) = level b"
    using assms fails_below [of b ts] by simp
  then show ?thesis
    using fail_opens [of "fold fail ts b" t] assms(2,4) by simp
qed

text \<open>The failures a gate has seen since the last success pay for its level and its count.\<close>

lemma fail_pays:
  assumes "invar b" and "level b < cap"
  shows "threshold * level (fail t b) + failures (fail t b) = threshold * level b + failures b + 1"
proof (cases "failures b + 1 < threshold")
  case True
  then show ?thesis using fail_counts [OF assms(1)] by simp
next
  case False
  then have "failures b + 1 = threshold" using invar_failures [OF assms(1)] by simp
  then show ?thesis using fail_opens [OF assms(1) _ assms(2), of t] by simp
qed

lemma level_below_cap: "threshold * level b + failures b < threshold * cap \<Longrightarrow> level b < cap"
proof (rule ccontr)
  assume paid: "threshold * level b + failures b < threshold * cap" and "\<not> level b < cap"
  then have "threshold * cap \<le> threshold * level b" by simp
  then show False using paid by linarith
qed

end

text \<open>
  Two gates with one threshold and one cooldown law. Related states show the same counters and
  deadline, and the same outcome keeps them related.
\<close>

locale gate_pair =
  a: failure_gate succeed_a fail_a failures_a level_a deadline_a invar_a threshold cooldown cap +
  b: failure_gate succeed_b fail_b failures_b level_b deadline_b invar_b threshold cooldown cap
  for succeed_a :: "'a \<Rightarrow> 'a" and fail_a failures_a level_a deadline_a invar_a
    and succeed_b :: "'b \<Rightarrow> 'b" and fail_b failures_b level_b deadline_b invar_b
    and threshold cooldown cap
begin

lemma succeed_related:
  assumes "invar_a x" and "invar_b y"
  shows "failures_a (succeed_a x) = failures_b (succeed_b y) \<and>
         level_a (succeed_a x) = level_b (succeed_b y) \<and>
         deadline_a (succeed_a x) = deadline_b (succeed_b y)"
  using a.succeed_resets [OF assms(1)] b.succeed_resets [OF assms(2)] by simp

lemma fail_related:
  assumes "invar_a x" and "invar_b y" and "level_a x < cap"
    and "failures_a x = failures_b y" and "level_a x = level_b y" and "deadline_a x = deadline_b y"
  shows "failures_a (fail_a now x) = failures_b (fail_b now y) \<and>
         level_a (fail_a now x) = level_b (fail_b now y) \<and>
         deadline_a (fail_a now x) = deadline_b (fail_b now y)"
proof (cases "failures_a x + 1 < threshold")
  case True
  with assms a.fail_counts [of x now] b.fail_counts [of y now] show ?thesis
    by simp
next
  case False
  then have "failures_a x + 1 = threshold"
    using a.invar_failures [OF assms(1)] by simp
  with assms a.fail_opens [of x now] b.fail_opens [of y now] show ?thesis
    by simp
qed

lemma run_related:
  assumes "invar_a x" and "invar_b y" and "\<forall>o' \<in> set os. 0 < cl_mono (fst o')"
    and "failures_a x = failures_b y" and "level_a x = level_b y" and "deadline_a x = deadline_b y"
    and "streaks_below (threshold * cap) (threshold * level_a x + failures_a x) os"
  shows "failures_a (gate_run succeed_a fail_a os x) = failures_b (gate_run succeed_b fail_b os y) \<and>
         level_a (gate_run succeed_a fail_a os x) = level_b (gate_run succeed_b fail_b os y) \<and>
         deadline_a (gate_run succeed_a fail_a os x) = deadline_b (gate_run succeed_b fail_b os y) \<and>
         invar_a (gate_run succeed_a fail_a os x) \<and> invar_b (gate_run succeed_b fail_b os y)"
  using assms
proof (induction os arbitrary: x y)
  case Nil
  then show ?case by (simp add: gate_run_def)
next
  case (Cons o' os)
  obtain t healthy where o': "o' = (t, healthy)" by fastforce
  have t: "0 < cl_mono t" using Cons.prems(3) o' by simp
  show ?case
  proof (cases healthy)
    case True
    have "streaks_below (threshold * cap) (threshold * level_a (succeed_a x) + failures_a (succeed_a x)) os"
      using a.succeed_resets [OF Cons.prems(1)] Cons.prems(7) True o' by simp
    with Cons.IH [OF a.invar_succeed [OF Cons.prems(1)] b.invar_succeed [OF Cons.prems(2)]]
      succeed_related [OF Cons.prems(1,2)] Cons.prems(3) True o'
    show ?thesis by (simp add: gate_run_def)
  next
    case False
    have cap: "level_a x < cap" by (rule a.level_below_cap [OF streaks_below_start [OF Cons.prems(7)]])
    then have cap': "level_b y < cap" using Cons.prems(5) by simp
    have "streaks_below (threshold * cap) (threshold * level_a (fail_a t x) + failures_a (fail_a t x)) os"
      using Cons.prems(7) False o' unfolding a.fail_pays [OF Cons.prems(1) cap] by simp
    with Cons.IH [OF a.invar_fail [OF Cons.prems(1) t cap] b.invar_fail [OF Cons.prems(2) t cap']]
      fail_related [OF Cons.prems(1,2) cap Cons.prems(4-6), of t] Cons.prems(3) False o'
    show ?thesis by (simp add: gate_run_def)
  qed
qed

end

end
