(* ===== verification/Breaker.thy ===== *)
theory Breaker
  imports Domain Gate
begin

text \<open>
  The circuit breaker of one provider: \<open>core/pipeline/breaker.py\<close>. \<open>breaker_state\<close> is the
  snapshot that is persisted and restored, \<open>breaker\<close> the object the lanes share. An operation
  returns the new object and the snapshots it hands to \<open>on_change\<close>, which is taken not to raise: it
  writes the snapshot to the store of outcomes, and an error of that write is outside the model.
\<close>

definition DEFAULT_THRESHOLD :: nat where
  "DEFAULT_THRESHOLD = 10"

definition DEFAULT_BASE_COOLDOWN_S :: seconds where
  "DEFAULT_BASE_COOLDOWN_S = 5"

definition DEFAULT_MAX_COOLDOWN_S :: seconds where
  "DEFAULT_MAX_COOLDOWN_S = 300"

record breaker_state =
  bs_source :: pystr
  bs_provider :: pystr
  bs_consecutive_failures :: nat
  bs_level :: nat
  bs_open_until :: "seconds option"

record breaker =
  cb_provider :: pystr
  cb_source :: pystr
  cb_run_id :: pystr
  cb_threshold :: nat
  cb_base_cooldown_s :: seconds
  cb_max_cooldown_s :: seconds
  cb_consecutive :: nat
  cb_level :: nat
  cb_open_until :: seconds
  cb_open_until_at :: "seconds option"
  cb_on_change :: bool

definition monotonic_deadline :: "clock \<Rightarrow> seconds option \<Rightarrow> seconds" where
  "monotonic_deadline now open_until =
     (case open_until of
        None \<Rightarrow> 0
      | Some t \<Rightarrow> cl_mono now + max 0 (t - cl_utc now))"

definition new_breaker ::
  "clock \<Rightarrow> pystr \<Rightarrow> pystr \<Rightarrow> pystr \<Rightarrow> nat \<Rightarrow> seconds \<Rightarrow> seconds \<Rightarrow> breaker_state option \<Rightarrow> bool
     \<Rightarrow> breaker" where
  "new_breaker now provider run_id source threshold base_cooldown_s max_cooldown_s initial on_change =
     \<lparr>cb_provider = provider, cb_source = source, cb_run_id = run_id,
      cb_threshold = threshold, cb_base_cooldown_s = base_cooldown_s,
      cb_max_cooldown_s = max_cooldown_s,
      cb_consecutive = (case initial of None \<Rightarrow> 0 | Some i \<Rightarrow> bs_consecutive_failures i),
      cb_level = (case initial of None \<Rightarrow> 0 | Some i \<Rightarrow> bs_level i),
      cb_open_until =
        monotonic_deadline now (case initial of None \<Rightarrow> None | Some i \<Rightarrow> bs_open_until i),
      cb_open_until_at = (case initial of None \<Rightarrow> None | Some i \<Rightarrow> bs_open_until i),
      cb_on_change = on_change\<rparr>"

definition notify :: "breaker \<Rightarrow> breaker_state list" where
  "notify b =
     (if cb_on_change b
      then [\<lparr>bs_source = cb_source b, bs_provider = cb_provider b,
             bs_consecutive_failures = cb_consecutive b, bs_level = cb_level b,
             bs_open_until = cb_open_until_at b\<rparr>]
      else [])"

text \<open>
  One observation per turn of the loop: the shared object and the clock, as they are when the lane
  wakes up. None means the lane is still asleep after the given observations.
\<close>

fun acquire :: "(breaker \<times> seconds) list \<Rightarrow> (breaker \<times> seconds) option" where
  "acquire [] = None"
| "acquire ((b, now) # obs) =
     (let remaining = cb_open_until b - now
      in if remaining \<le> 0 then Some (b, now) else acquire obs)"

definition is_open :: "breaker \<Rightarrow> seconds \<Rightarrow> bool" where
  "is_open b now \<longleftrightarrow> now < cb_open_until b"

definition record_success :: "breaker \<Rightarrow> breaker \<times> breaker_state list" where
  "record_success b =
     (let b = b\<lparr>cb_consecutive := 0\<rparr>
      in if cb_open_until b = 0 then (b, notify b)
         else let b = b\<lparr>cb_open_until := 0, cb_level := 0, cb_open_until_at := None\<rparr>
              in (b, notify b))"

text \<open>
  \<open>min(max_cooldown, base * 2 ** (level - 1))\<close>: the integer power is converted to a float first,
  which raises when it is too large.
\<close>

definition cooldown_for :: "breaker \<Rightarrow> nat \<Rightarrow> exn + seconds" where
  "cooldown_for b level =
     (if float_overflows (2 ^ (level - 1))
      then Inl (raise_exn OverflowError ''int too large to convert to float'')
      else Inr (min (cb_max_cooldown_s b) (cb_base_cooldown_s b * 2 ^ (level - 1))))"

text \<open>The exception, if any, leaves the counters already changed.\<close>

definition record_failure ::
  "clock \<Rightarrow> breaker \<Rightarrow> breaker \<times> breaker_state list \<times> exn option" where
  "record_failure now b =
     (let b = b\<lparr>cb_consecutive := cb_consecutive b + 1\<rparr>
      in if cb_consecutive b < cb_threshold b then (b, notify b, None)
         else let b = b\<lparr>cb_consecutive := 0, cb_level := cb_level b + 1\<rparr>
              in case cooldown_for b (cb_level b) of
                   Inl e \<Rightarrow> (b, [], Some e)
                 | Inr cooldown \<Rightarrow>
                     let b = b\<lparr>cb_open_until := cl_mono now + cooldown,
                               cb_open_until_at := Some (cl_utc now + cooldown)\<rparr>
                     in (b, notify b, None))"

text \<open>A run of failures, at the given instants.\<close>

fun record_failures :: "clock list \<Rightarrow> breaker \<Rightarrow> breaker" where
  "record_failures [] b = b"
| "record_failures (t # ts) b = record_failures ts (fst (record_failure t b))"

section \<open>Well-formed breakers\<close>

text \<open>
  What the code keeps true between the fields: a breaker that never opened, or was closed by a
  success, is at level 0; the two deadlines are set together; the count is below the threshold;
  the exponent of the next cooldown still fits a float.
\<close>

definition breaker_wf :: "breaker \<Rightarrow> bool" where
  "breaker_wf b \<longleftrightarrow>
     cb_consecutive b < cb_threshold b \<and>
     0 < cb_base_cooldown_s b \<and> 0 < cb_max_cooldown_s b \<and>
     (cb_open_until b = 0 \<longleftrightarrow> cb_open_until_at b = None) \<and>
     (cb_open_until_at b = None \<longrightarrow> cb_level b = 0)"

lemma float_overflows_pow: "float_overflows (2 ^ n) \<longleftrightarrow> 1024 \<le> n"
proof -
  have "(2 :: real) ^ 1024 \<le> 2 ^ n \<longleftrightarrow> 1024 \<le> n"
    by (rule power_increasing_iff) simp
  then show ?thesis
    by (simp add: float_overflows_def)
qed

lemma cooldown_for_ok:
  "level \<le> 1024 \<Longrightarrow>
     cooldown_for b level = Inr (min (cb_max_cooldown_s b) (cb_base_cooldown_s b * 2 ^ (level - 1)))"
  by (simp add: cooldown_for_def float_overflows_pow)

lemma cooldown_for_overflow:
  "1025 \<le> level \<Longrightarrow>
     cooldown_for b level = Inl (raise_exn OverflowError ''int too large to convert to float'')"
  by (simp add: cooldown_for_def float_overflows_pow)

lemma record_failure_below:
  "cb_consecutive b + 1 < cb_threshold b \<Longrightarrow>
     record_failure now b
       = (let b' = b\<lparr>cb_consecutive := cb_consecutive b + 1\<rparr> in (b', notify b', None))"
  by (simp add: record_failure_def Let_def)

lemma record_failure_open:
  assumes "cb_threshold b \<le> cb_consecutive b + 1" and "cb_level b < 1024"
  shows "record_failure now b =
     (let c = min (cb_max_cooldown_s b) (cb_base_cooldown_s b * 2 ^ cb_level b);
          b' = b\<lparr>cb_consecutive := 0, cb_level := cb_level b + 1,
                 cb_open_until := cl_mono now + c, cb_open_until_at := Some (cl_utc now + c)\<rparr>
      in (b', notify b', None))"
  using assms by (simp add: record_failure_def Let_def cooldown_for_ok)

lemma record_failure_raises:
  assumes "cb_threshold b \<le> cb_consecutive b + 1" and "1024 \<le> cb_level b"
  shows "record_failure now b =
     (b\<lparr>cb_consecutive := 0, cb_level := cb_level b + 1\<rparr>, [],
      Some (raise_exn OverflowError ''int too large to convert to float''))"
  using assms by (simp add: record_failure_def Let_def cooldown_for_overflow)

lemma record_failure_no_raise:
  assumes "cb_level b < 1024"
  shows "snd (snd (record_failure now b)) = None"
  using assms
  by (cases "cb_consecutive b + 1 < cb_threshold b")
    (simp_all add: record_failure_below record_failure_open Let_def)

lemma breaker_wf_success: "breaker_wf b \<Longrightarrow> breaker_wf (fst (record_success b))"
  by (auto simp: breaker_wf_def record_success_def Let_def)

lemma breaker_wf_failure:
  assumes wf: "breaker_wf b" and clock: "0 < cl_mono now" and level: "cb_level b < 1024"
  shows "breaker_wf (fst (record_failure now b))"
proof (cases "cb_consecutive b + 1 < cb_threshold b")
  case True
  with wf show ?thesis
    by (simp add: record_failure_below Let_def breaker_wf_def)
next
  case False
  let ?c = "min (cb_max_cooldown_s b) (cb_base_cooldown_s b * 2 ^ cb_level b)"
  have "0 < ?c"
    using wf by (simp add: breaker_wf_def)
  then have "cl_mono now + ?c \<noteq> 0"
    using clock by linarith
  with False wf level show ?thesis
    by (simp add: record_failure_open Let_def breaker_wf_def)
qed

lemma new_breaker_wf:
  assumes "0 < threshold" and "0 < base" and "0 < mx" and "0 < cl_mono now"
    and "\<And>i. initial = Some i \<Longrightarrow>
           bs_consecutive_failures i < threshold \<and> (bs_open_until i = None \<longrightarrow> bs_level i = 0)"
  shows "breaker_wf (new_breaker now p r s threshold base mx initial oc)"
proof (cases initial)
  case None
  with assms show ?thesis
    by (simp add: breaker_wf_def new_breaker_def monotonic_deadline_def)
next
  case (Some i)
  have "\<And>t. cl_mono now + max 0 (t - cl_utc now) \<noteq> 0"
    using assms(4) by (smt (verit))
  with Some assms(1-3) assms(5) [OF Some] show ?thesis
    by (auto simp: breaker_wf_def new_breaker_def monotonic_deadline_def split: option.splits)
qed

text \<open>The breakers the program creates use the default tuning.\<close>

definition default_tuned :: "breaker \<Rightarrow> bool" where
  "default_tuned b \<longleftrightarrow>
     cb_threshold b = DEFAULT_THRESHOLD \<and> cb_base_cooldown_s b = DEFAULT_BASE_COOLDOWN_S \<and>
     cb_max_cooldown_s b = DEFAULT_MAX_COOLDOWN_S"

definition default_cooldown :: "nat \<Rightarrow> seconds" where
  "default_cooldown level =
     min DEFAULT_MAX_COOLDOWN_S (DEFAULT_BASE_COOLDOWN_S * 2 ^ level)"

definition core_invar :: "breaker \<Rightarrow> bool" where
  "core_invar b \<longleftrightarrow> breaker_wf b \<and> default_tuned b"

lemma success_fields:
  "breaker_wf b \<Longrightarrow>
     fst (record_success b)
       = b\<lparr>cb_consecutive := 0, cb_open_until := 0, cb_level := 0, cb_open_until_at := None\<rparr>"
  by (auto simp: record_success_def breaker_wf_def Let_def)

interpretation core_gate: failure_gate
  "\<lambda>b. fst (record_success b)" "\<lambda>now b. fst (record_failure now b)"
  cb_consecutive cb_level cb_open_until_at core_invar DEFAULT_THRESHOLD default_cooldown 1022
proof unfold_locales
  fix b now
  assume inv: "core_invar b"
  then have wf: "breaker_wf b" and d: "default_tuned b"
    by (simp_all add: core_invar_def)
  show "core_invar (fst (record_success b))"
    using breaker_wf_success [OF wf] success_fields [OF wf] d
    by (simp add: core_invar_def default_tuned_def)
  show "cb_consecutive b < DEFAULT_THRESHOLD"
    using wf d by (simp add: breaker_wf_def default_tuned_def)
  show "cb_consecutive (fst (record_success b)) = 0 \<and> cb_level (fst (record_success b)) = 0 \<and>
        cb_open_until_at (fst (record_success b)) = None"
    using wf by (simp add: success_fields)
  show "cb_consecutive (fst (record_failure now b)) = cb_consecutive b + 1 \<and>
        cb_level (fst (record_failure now b)) = cb_level b \<and>
        cb_open_until_at (fst (record_failure now b)) = cb_open_until_at b"
    if "cb_consecutive b + 1 < DEFAULT_THRESHOLD"
    using that d by (simp add: record_failure_below default_tuned_def Let_def)
  show "cb_consecutive (fst (record_failure now b)) = 0 \<and>
        cb_level (fst (record_failure now b)) = cb_level b + 1 \<and>
        cb_open_until_at (fst (record_failure now b))
          = Some (cl_utc now + default_cooldown (cb_level b))"
    if "cb_consecutive b + 1 = DEFAULT_THRESHOLD" "cb_level b < 1022"
    using that d by (simp add: record_failure_open default_tuned_def default_cooldown_def Let_def)
  show "core_invar (fst (record_failure now b))" if "0 < cl_mono now" "cb_level b < 1022"
  proof -
    have "default_tuned (fst (record_failure now b))"
      using that d
      by (cases "cb_consecutive b + 1 < cb_threshold b")
        (simp_all add: record_failure_below record_failure_open default_tuned_def Let_def)
    then show ?thesis
      using that wf by (simp add: core_invar_def breaker_wf_failure)
  qed
qed

lemma record_failures_fold: "record_failures ts b = fold (\<lambda>t b. fst (record_failure t b)) ts b"
  by (induction ts arbitrary: b) simp_all


section \<open>Properties\<close>

text \<open>A breaker trips at its threshold and not before. Below the threshold a failure only
  raises the count; the failure that reaches it opens the breaker for the base cooldown doubled
  once per earlier opening, at most the maximum, and starts the count again.\<close>

theorem breaker_trips_at_threshold:
  assumes inv: "core_invar b" and level: "cb_level b < 1022"
    and clocks: "\<forall>t \<in> set ts. 0 < cl_mono t"
    and count: "cb_consecutive b + length ts + 1 = DEFAULT_THRESHOLD"
  shows "cb_open_until_at (record_failures ts b) = cb_open_until_at b \<and>
         cb_consecutive (record_failures ts b) = cb_consecutive b + length ts \<and>
         cb_open_until_at (record_failures (ts @ [t]) b)
           = Some (cl_utc t + min 300 (5 * 2 ^ cb_level b)) \<and>
         cb_level (record_failures (ts @ [t]) b) = cb_level b + 1 \<and>
         cb_consecutive (record_failures (ts @ [t]) b) = 0"
  using core_gate.fails_below [OF inv level clocks] core_gate.fails_open [OF inv level clocks count]
    count
  by (simp add: record_failures_fold default_cooldown_def DEFAULT_MAX_COOLDOWN_S_def
        DEFAULT_BASE_COOLDOWN_S_def)

definition example_breaker :: breaker where
  "example_breaker = new_breaker \<lparr>cl_mono = 1, cl_utc = 1000\<rparr> ''geonode'' ''run'' ''osiptel''
     DEFAULT_THRESHOLD DEFAULT_BASE_COOLDOWN_S DEFAULT_MAX_COOLDOWN_S None True"

lemma example_breaker_invar: "core_invar example_breaker"
  unfolding core_invar_def example_breaker_def
  by (intro conjI new_breaker_wf)
    (simp_all add: DEFAULT_THRESHOLD_def DEFAULT_BASE_COOLDOWN_S_def DEFAULT_MAX_COOLDOWN_S_def
      default_tuned_def new_breaker_def)

lemma example_breaker_fields:
  "cb_level example_breaker = 0" "cb_consecutive example_breaker = 0"
  "cb_open_until_at example_breaker = None"
  by (simp_all add: example_breaker_def new_breaker_def)

theorem breaker_trips_at_threshold_witness:
  "cb_open_until_at (record_failures (replicate 9 \<lparr>cl_mono = 2, cl_utc = 1001\<rparr> @
     [\<lparr>cl_mono = 3, cl_utc = 1002\<rparr>]) example_breaker) = Some 1007"
proof -
  have "\<forall>t \<in> set (replicate 9 \<lparr>cl_mono = 2, cl_utc = 1001\<rparr>). 0 < cl_mono t"
    by simp
  from breaker_trips_at_threshold [OF example_breaker_invar _ this, of "\<lparr>cl_mono = 3, cl_utc = 1002\<rparr>"]
  show ?thesis
    by (simp add: example_breaker_fields DEFAULT_THRESHOLD_def)
qed

text \<open>The only exception a breaker operation raises is the float overflow of the cooldown, and
  it is raised exactly by the failure that would open the breaker for the 1025th time in a row.\<close>

theorem record_failure_raises_iff:
  "snd (snd (record_failure now b)) \<noteq> None \<longleftrightarrow>
     cb_threshold b \<le> cb_consecutive b + 1 \<and> 1024 \<le> cb_level b"
proof (cases "cb_consecutive b + 1 < cb_threshold b")
  case True
  then show ?thesis
    by (simp add: record_failure_below Let_def)
next
  case False
  then show ?thesis
    by (cases "cb_level b < 1024")
      (simp_all add: record_failure_open record_failure_raises Let_def)
qed

text \<open>The breaker survives a restart. The last snapshot handed to \<open>on_change\<close>, restored by a new
  process whose two clocks run in step, is open at exactly the instants the old deadline has not
  passed, with the same failure count and level.\<close>

theorem breaker_restore:
  assumes wf: "breaker_wf b" and snap: "notify b = [s]"
    and sync: "cl_mono now - cl_mono r = cl_utc now - cl_utc r"
    and later: "cl_mono r \<le> cl_mono now" and up: "0 < cl_mono now"
  shows "let b' = new_breaker r (cb_provider b) run (cb_source b) (cb_threshold b)
                    (cb_base_cooldown_s b) (cb_max_cooldown_s b) (Some s) True
         in (is_open b' (cl_mono now) \<longleftrightarrow>
               (\<exists>t. cb_open_until_at b = Some t \<and> cl_utc now < t)) \<and>
            cb_consecutive b' = cb_consecutive b \<and> cb_level b' = cb_level b"
proof -
  have s: "bs_open_until s = cb_open_until_at b" "bs_level s = cb_level b"
      "bs_consecutive_failures s = cb_consecutive b"
    using snap by (auto simp: notify_def split: if_splits)
  show ?thesis
    using s sync later up
    by (cases "cb_open_until_at b")
      (auto simp: new_breaker_def Let_def is_open_def monotonic_deadline_def max_def)
qed

theorem breaker_restore_witness:
  "let b' = new_breaker \<lparr>cl_mono = 5, cl_utc = 2000\<rparr> ''geonode'' ''next'' ''osiptel'' 10 5 300
              (Some \<lparr>bs_source = ''osiptel'', bs_provider = ''geonode'',
                     bs_consecutive_failures = 0, bs_level = 0, bs_open_until = None\<rparr>) True
   in \<not> is_open b' 7"
proof -
  have wf: "breaker_wf example_breaker"
    using example_breaker_invar by (simp add: core_invar_def)
  have snap: "notify example_breaker
      = [\<lparr>bs_source = ''osiptel'', bs_provider = ''geonode'', bs_consecutive_failures = 0,
          bs_level = 0, bs_open_until = None\<rparr>]"
    by (simp add: notify_def example_breaker_def new_breaker_def)
  show ?thesis
    using breaker_restore [OF wf snap,
        of "\<lparr>cl_mono = 7, cl_utc = 2002\<rparr>" "\<lparr>cl_mono = 5, cl_utc = 2000\<rparr>" "''next''"]
    by (simp add: Let_def example_breaker_def new_breaker_def DEFAULT_THRESHOLD_def
          DEFAULT_BASE_COOLDOWN_S_def DEFAULT_MAX_COOLDOWN_S_def)
qed

text \<open>Waiting for the breaker is fair. A lane is let through at the first wake-up at which the
  shared breaker is closed, never before, and it keeps waiting only while every wake-up finds
  the breaker open.\<close>

theorem acquire_first_closed:
  "acquire obs = find (\<lambda>(b, now). \<not> is_open b now) obs"
  by (induction obs rule: acquire.induct) (auto simp: is_open_def Let_def)

end
