(* ===== verification/Json.thy ===== *)
theory Json
  imports Prelude
begin

text \<open>
  The part of Python's \<open>json\<close> module the program uses: values, \<open>dumps\<close> with its default
  separators and \<open>ensure_ascii=False\<close>, and \<open>loads\<close>. A number with a fraction or an exponent is
  kept as its literal: the program only ever tells it apart from an integer. Escapes of code
  points above 255 are outside the modelled text and are refused.
\<close>

section \<open>Values\<close>

datatype json =
    JNull
  | JBool bool
  | JInt int
  | JFloat pystr
  | JStr pystr
  | JList "json list"
  | JObj "(pystr \<times> json) list"

text \<open>A repeated key of an object keeps its last value. Missing keys read as \<open>None\<close>.\<close>

definition json_get :: "(pystr \<times> json) list \<Rightarrow> pystr \<Rightarrow> json" where
  "json_get obj k = (case map_of (rev obj) k of None \<Rightarrow> JNull | Some v \<Rightarrow> v)"

text \<open>\<open>bool(value)\<close>. A float literal is false when all its digits are zeros.\<close>

fun json_truthy :: "json \<Rightarrow> bool" where
  "json_truthy JNull = False"
| "json_truthy (JBool b) = b"
| "json_truthy (JInt i) = (i \<noteq> 0)"
| "json_truthy (JFloat s) =
     (\<exists>c \<in> set (takeWhile (\<lambda>c. c \<noteq> CHR ''e'' \<and> c \<noteq> CHR ''E'') s). c \<noteq> CHR ''0'' \<and> c \<noteq> CHR ''.'' \<and> c \<noteq> CHR ''-'')"
| "json_truthy (JStr s) = (s \<noteq> [])"
| "json_truthy (JList xs) = (xs \<noteq> [])"
| "json_truthy (JObj kvs) = (kvs \<noteq> [])"

section \<open>dumps\<close>

abbreviation quote_char :: char where
  "quote_char \<equiv> CHR 0x22"

abbreviation escape_char :: char where
  "escape_char \<equiv> CHR 0x5C"

definition json_escape_char :: "char \<Rightarrow> pystr" where
  "json_escape_char c =
     (let n = code_point c
      in if c = quote_char then [escape_char, quote_char]
         else if c = escape_char then [escape_char, escape_char]
         else if n = 8 then [escape_char, CHR ''b'']
         else if n = 9 then [escape_char, CHR ''t'']
         else if n = 10 then [escape_char, CHR ''n'']
         else if n = 12 then [escape_char, CHR ''f'']
         else if n = 13 then [escape_char, CHR ''r'']
         else if n < 32
           then [escape_char, CHR ''u'', CHR ''0'', CHR ''0'', hex_digit (n div 16), hex_digit (n mod 16)]
         else [c])"

definition dumps_str :: "pystr \<Rightarrow> pystr" where
  "dumps_str s = quote_char # concat (map json_escape_char s) @ [quote_char]"

fun dumps :: "json \<Rightarrow> pystr" where
  "dumps JNull = ''null''"
| "dumps (JBool b) = (if b then ''true'' else ''false'')"
| "dumps (JInt i) = int_str i"
| "dumps (JFloat s) = s"
| "dumps (JStr s) = dumps_str s"
| "dumps (JList xs) = CHR ''['' # py_join '', '' (map dumps xs) @ [CHR '']'']"
| "dumps (JObj kvs) =
     CHR ''{'' # py_join '', '' (map (\<lambda>kv. dumps_str (fst kv) @ '': '' @ dumps (snd kv)) kvs) @ [CHR ''}'']"

section \<open>loads\<close>

definition is_json_ws :: "char \<Rightarrow> bool" where
  "is_json_ws c \<longleftrightarrow> code_point c \<in> {9, 10, 13, 32}"

definition skip_ws :: "pystr \<Rightarrow> pystr" where
  "skip_ws s = dropWhile is_json_ws s"

definition hex_value :: "char \<Rightarrow> nat option" where
  "hex_value c =
     (let n = code_point c
      in if 48 \<le> n \<and> n \<le> 57 then Some (n - 48)
         else if 97 \<le> n \<and> n \<le> 102 then Some (n - 87)
         else if 65 \<le> n \<and> n \<le> 70 then Some (n - 55)
         else None)"

text \<open>The rest of a string literal, after its opening quote.\<close>

fun parse_str :: "pystr \<Rightarrow> (pystr \<times> pystr) option" where
  "parse_str [] = None"
| "parse_str (c # s) =
     (if c = quote_char then Some ([], s)
      else if c = escape_char then
        (case s of
           [] \<Rightarrow> None
         | e # r \<Rightarrow>
             if e = CHR ''u'' then
               (case r of
                  h1 # h2 # h3 # h4 # r' \<Rightarrow>
                    (case (hex_value h1, hex_value h2, hex_value h3, hex_value h4) of
                       (Some 0, Some 0, Some a, Some b) \<Rightarrow>
                         map_option (\<lambda>(t, q). (char_of (16 * a + b) # t, q)) (parse_str r')
                     | _ \<Rightarrow> None)
                | _ \<Rightarrow> None)
             else
               (case map_of [(quote_char, quote_char), (escape_char, escape_char), (CHR ''/'', CHR ''/''),
                             (CHR ''b'', CHR 0x08), (CHR ''f'', CHR 0x0C), (CHR ''n'', CHR 0x0A),
                             (CHR ''r'', CHR 0x0D), (CHR ''t'', CHR 0x09)] e of
                  None \<Rightarrow> None
                | Some d \<Rightarrow> map_option (\<lambda>(t, q). (d # t, q)) (parse_str r)))
      else if code_point c < 32 then None
      else map_option (\<lambda>(t, q). (c # t, q)) (parse_str s))"

definition take_digits :: "pystr \<Rightarrow> pystr \<times> pystr" where
  "take_digits s = (takeWhile is_decimal_char s, dropWhile is_decimal_char s)"

text \<open>The optional fraction and exponent of a number: the matched text and the rest.\<close>

definition parse_frac :: "pystr \<Rightarrow> pystr \<times> pystr" where
  "parse_frac s =
     (case s of
        [] \<Rightarrow> ([], s)
      | c # r \<Rightarrow>
          if c = CHR ''.'' then
            (let (ds, q) = take_digits r in if ds = [] then ([], s) else (CHR ''.'' # ds, q))
          else ([], s))"

definition parse_exp :: "pystr \<Rightarrow> pystr \<times> pystr" where
  "parse_exp s =
     (case s of
        e # r \<Rightarrow>
          if e = CHR ''e'' \<or> e = CHR ''E'' then
            (let sg = (case r of c # _ \<Rightarrow> if c = CHR ''+'' \<or> c = CHR ''-'' then [c] else [] | [] \<Rightarrow> []);
                 r' = drop (length sg) r;
                 (ds, q) = take_digits r'
             in if ds = [] then ([], s) else (e # sg @ ds, q))
          else ([], s)
      | [] \<Rightarrow> ([], s))"

text \<open>The integer part: a single zero, or digits.\<close>

definition parse_int_part :: "pystr \<Rightarrow> pystr \<times> pystr" where
  "parse_int_part s =
     (case s of
        [] \<Rightarrow> ([], s)
      | c # r \<Rightarrow> if c = CHR ''0'' then (''0'', r) else take_digits s)"

definition parse_num :: "pystr \<Rightarrow> (json \<times> pystr) option" where
  "parse_num s =
     (let neg = (s \<noteq> [] \<and> hd s = CHR ''-'');
          s1 = (if neg then tl s else s);
          (ds, s2) = parse_int_part s1
      in if ds = [] then None
         else
           let (fr, s3) = parse_frac s2; (ex, s4) = parse_exp s3;
               i = (if neg then - int (digits_value ds) else int (digits_value ds))
           in if fr = [] \<and> ex = [] then Some (JInt i, s4)
              else Some (JFloat ((if neg then ''-'' else []) @ ds @ fr @ ex), s4))"

fun parse_value :: "nat \<Rightarrow> pystr \<Rightarrow> (json \<times> pystr) option"
and parse_items :: "nat \<Rightarrow> pystr \<Rightarrow> (json list \<times> pystr) option"
and parse_members :: "nat \<Rightarrow> pystr \<Rightarrow> ((pystr \<times> json) list \<times> pystr) option" where
  "parse_value 0 s = None"
| "parse_value (Suc n) s =
     (case s of
        [] \<Rightarrow> None
      | c # r \<Rightarrow>
          if c = quote_char then map_option (\<lambda>(t, q). (JStr t, q)) (parse_str r)
          else if c = CHR ''['' then
            (case skip_ws r of
               [] \<Rightarrow> None
             | d # q \<Rightarrow>
                 if d = CHR '']'' then Some (JList [], q)
                 else map_option (\<lambda>(xs, q). (JList xs, q)) (parse_items n (d # q)))
          else if c = CHR ''{'' then
            (case skip_ws r of
               [] \<Rightarrow> None
             | d # q \<Rightarrow>
                 if d = CHR ''}'' then Some (JObj [], q)
                 else map_option (\<lambda>(kvs, q). (JObj kvs, q)) (parse_members n (d # q)))
          else if py_startswith s ''null'' then Some (JNull, drop 4 s)
          else if py_startswith s ''true'' then Some (JBool True, drop 4 s)
          else if py_startswith s ''false'' then Some (JBool False, drop 5 s)
          else if py_startswith s ''NaN'' then Some (JFloat ''NaN'', drop 3 s)
          else if py_startswith s ''Infinity'' then Some (JFloat ''Infinity'', drop 8 s)
          else if py_startswith s ''-Infinity'' then Some (JFloat ''-Infinity'', drop 9 s)
          else parse_num s)"
| "parse_items 0 s = None"
| "parse_items (Suc n) s =
     (case parse_value n s of
        None \<Rightarrow> None
      | Some (x, r) \<Rightarrow>
          (case skip_ws r of
             [] \<Rightarrow> None
           | c # q \<Rightarrow>
               if c = CHR '']'' then Some ([x], q)
               else if c = CHR '','' then
                 map_option (\<lambda>(xs, q'). (x # xs, q')) (parse_items n (skip_ws q))
               else None))"
| "parse_members 0 s = None"
| "parse_members (Suc n) s =
     (case s of
        [] \<Rightarrow> None
      | c # r0 \<Rightarrow>
          if c \<noteq> quote_char then None
          else
            (case parse_str r0 of
               None \<Rightarrow> None
             | Some (k, r1) \<Rightarrow>
                 (case skip_ws r1 of
                    [] \<Rightarrow> None
                  | d # r2 \<Rightarrow>
                      if d \<noteq> CHR '':'' then None
                      else
                        (case parse_value n (skip_ws r2) of
                           None \<Rightarrow> None
                         | Some (v, r3) \<Rightarrow>
                             (case skip_ws r3 of
                                [] \<Rightarrow> None
                              | e # q \<Rightarrow>
                                  if e = CHR ''}'' then Some ([(k, v)], q)
                                  else if e = CHR '','' then
                                    map_option (\<lambda>(kvs, q'). ((k, v) # kvs, q')) (parse_members n (skip_ws q))
                                  else None)))))"

text \<open>
  \<open>loads\<close>: None is the \<open>JSONDecodeError\<close>. Every nested call consumes a character, so twice the
  length of the text is enough fuel.
\<close>

definition loads :: "pystr \<Rightarrow> json option" where
  "loads s =
     (case parse_value (2 * length s + 2) (skip_ws s) of
        None \<Rightarrow> None
      | Some (v, r) \<Rightarrow> if skip_ws r = [] then Some v else None)"

section \<open>Reading back what was written\<close>

fun float_free :: "json \<Rightarrow> bool" where
  "float_free (JFloat s) = False"
| "float_free (JList xs) = list_all float_free xs"
| "float_free (JObj kvs) = list_all (\<lambda>kv. float_free (snd kv)) kvs"
| "float_free v = True"

lemma hex_value_digit: "d < 16 \<Longrightarrow> hex_value (hex_digit d) = Some d"
proof -
  assume "d < 16"
  then have "d = 0 \<or> d = 1 \<or> d = 2 \<or> d = 3 \<or> d = 4 \<or> d = 5 \<or> d = 6 \<or> d = 7 \<or> d = 8 \<or> d = 9 \<or>
      d = 10 \<or> d = 11 \<or> d = 12 \<or> d = 13 \<or> d = 14 \<or> d = 15"
    by arith
  then show ?thesis
    by (auto simp: hex_digit_def hex_value_def Let_def)
qed

lemma char_of_hex: "char_of (16 * (code_point c div 16) + code_point c mod 16) = c"
  by simp

lemma code_point_eqD: "code_point c = n \<Longrightarrow> c = char_of n"
  by auto

lemma char_of_controls:
  "char_of (8 :: nat) = CHR 0x08" "char_of (9 :: nat) = CHR 0x09" "char_of (10 :: nat) = CHR 0x0A"
  "char_of (12 :: nat) = CHR 0x0C" "char_of (13 :: nat) = CHR 0x0D"
  by code_simp+

lemma parse_str_escape:
  "parse_str (json_escape_char c @ r) = map_option (\<lambda>(t, q). (c # t, q)) (parse_str r)"
proof (cases "c = quote_char \<or> c = escape_char \<or> 32 \<le> code_point c")
  case True
  then show ?thesis
    by (auto simp: json_escape_char_def Let_def)
next
  case False
  then have small: "code_point c < 32" and ne: "c \<noteq> quote_char" "c \<noteq> escape_char"
    by auto
  consider "code_point c \<in> {8, 9, 10, 12, 13}" | "code_point c \<notin> {8, 9, 10, 12, 13}"
    by blast
  then show ?thesis
  proof cases
    case 1
    then show ?thesis
      by (auto simp: json_escape_char_def Let_def char_of_controls dest!: code_point_eqD)
  next
    case 2
    have "code_point c div 16 < 16" "code_point c mod 16 < 16"
      using small by auto
    moreover have "json_escape_char c = [escape_char, CHR ''u'', CHR ''0'', CHR ''0'',
        hex_digit (code_point c div 16), hex_digit (code_point c mod 16)]"
      using 2 small ne by (auto simp: json_escape_char_def Let_def)
    moreover have "hex_value CHR ''0'' = Some 0"
      by (simp add: hex_value_def)
    ultimately show ?thesis
      by (simp add: hex_value_digit char_of_hex del: of_char_of)
  qed
qed

lemma parse_str_dumps:
  "parse_str (concat (map json_escape_char s) @ quote_char # rest) = Some (s, rest)"
  by (induction s) (simp_all add: parse_str_escape del: parse_str.simps(2), simp)

definition num_ends :: "pystr \<Rightarrow> bool" where
  "num_ends rest \<longleftrightarrow>
     (case rest of [] \<Rightarrow> True
      | c # _ \<Rightarrow> \<not> is_decimal_char c \<and> c \<noteq> CHR ''.'' \<and> c \<noteq> CHR ''e'' \<and> c \<noteq> CHR ''E'')"

lemma parse_frac_none: "num_ends rest \<Longrightarrow> parse_frac rest = ([], rest)"
  by (cases rest) (auto simp: parse_frac_def num_ends_def split: char.splits bool.splits)

lemma parse_exp_none: "num_ends rest \<Longrightarrow> parse_exp rest = ([], rest)"
  by (cases rest) (auto simp: parse_exp_def num_ends_def)

lemma take_digits_append:
  assumes "list_all is_decimal_char s" and "num_ends rest"
  shows "take_digits (s @ rest) = (s, rest)"
proof -
  have "takeWhile is_decimal_char rest = [] \<and> dropWhile is_decimal_char rest = rest"
    using assms(2) by (cases rest) (auto simp: num_ends_def)
  then show ?thesis
    using assms(1) by (simp add: take_digits_def list_all_iff takeWhile_append2 dropWhile_append2)
qed

lemma nat_str_hd: "0 < n \<Longrightarrow> hd (nat_str n) \<noteq> CHR ''0''"
proof (induction n rule: nat_str.induct)
  case (1 n)
  show ?case
  proof (cases "n < 10")
    case True
    then have "n \<in> {1, 2, 3, 4, 5, 6, 7, 8, 9}"
      using "1.prems" by auto
    then show ?thesis
      by (auto simp: nat_str.simps [of n] digit_char_def)
  next
    case False
    then have "hd (nat_str (n div 10)) \<noteq> CHR ''0''"
      using "1.IH" by simp
    with False show ?thesis
      by (simp add: nat_str.simps [of n] nat_str_nonempty)
  qed
qed

lemma nat_str_0: "nat_str 0 = ''0''"
  by (simp add: nat_str.simps digit_char_def)

lemma nat_str_head_decimal: "nat_str n = c # r \<Longrightarrow> is_decimal_char c"
  using nat_str_decimal [of n] by simp

text \<open>The integer part of a written number is read back whole.\<close>

lemma parse_int_part_nat_str:
  assumes "num_ends rest"
  shows "parse_int_part (nat_str n @ rest) = (nat_str n, rest)"
proof (cases "n = 0")
  case True
  then show ?thesis
    by (simp add: nat_str_0 parse_int_part_def)
next
  case False
  obtain c r where cr: "nat_str n = c # r"
    using nat_str_nonempty by (cases "nat_str n") auto
  have c0: "c \<noteq> CHR ''0''"
    using nat_str_hd [of n] False cr by simp
  have td: "take_digits (nat_str n @ rest) = (nat_str n, rest)"
    by (rule take_digits_append [OF nat_str_decimal assms])
  show ?thesis
    using td c0 cr by (simp add: parse_int_part_def)
qed

lemma parse_num_int:
  assumes "num_ends rest"
  shows "parse_num (int_str i @ rest) = Some (JInt i, rest)"
proof (cases "i < 0")
  case True
  then show ?thesis
    using assms
    by (simp add: parse_num_def int_str_def Let_def parse_int_part_nat_str parse_frac_none parse_exp_none
        nat_str_nonempty digits_value_nat_str)
next
  case False
  obtain c r where cr: "nat_str (nat i) = c # r"
    using nat_str_nonempty by (cases "nat_str (nat i)") auto
  have "c \<noteq> CHR ''-''"
    using nat_str_head_decimal [OF cr] decimal_hd_not_sign by blast
  then have hd: "hd (nat_str (nat i) @ rest) \<noteq> CHR ''-''"
    using cr by simp
  show ?thesis
    using False assms hd
    by (simp add: parse_num_def int_str_def Let_def parse_int_part_nat_str parse_frac_none parse_exp_none
        nat_str_nonempty digits_value_nat_str)
qed

lemma int_str_head:
  obtains c r where "int_str i = c # r" and "is_decimal_char c \<or> (c = CHR ''-'' \<and> (\<exists>d q. r = d # q \<and> is_decimal_char d))"
proof (cases "i < 0")
  case True
  then show ?thesis
    using that nat_str_nonempty nat_str_head_decimal
    by (cases "nat_str (nat (- i))") (auto simp: int_str_def)
next
  case False
  then show ?thesis
    using that nat_str_nonempty nat_str_head_decimal
    by (cases "nat_str (nat i)") (auto simp: int_str_def)
qed

lemma parse_value_int:
  assumes "num_ends rest"
  shows "parse_value (Suc n) (int_str i @ rest) = Some (JInt i, rest)"
proof -
  obtain c r where cr: "int_str i = c # r"
    and h: "is_decimal_char c \<or> (c = CHR ''-'' \<and> (\<exists>d q. r = d # q \<and> is_decimal_char d))"
    by (rule int_str_head)
  have "c \<noteq> quote_char \<and> c \<notin> {CHR ''['', CHR ''{'', CHR ''n'', CHR ''t'', CHR ''f'', CHR ''N'', CHR ''I''}"
    using h by (auto simp: is_decimal_char_def)
  moreover have "\<not> py_startswith (c # r @ rest) ''-Infinity''"
    using h by (auto simp: py_startswith_def is_decimal_char_def)
  ultimately have "parse_value (Suc n) (int_str i @ rest) = parse_num (int_str i @ rest)"
    by (auto simp: cr py_startswith_def)
  then show ?thesis
    using parse_num_int [OF assms] by simp
qed

text \<open>The first character of a written value.\<close>

definition value_head :: "char \<Rightarrow> bool" where
  "value_head c \<longleftrightarrow> \<not> is_json_ws c \<and> c \<noteq> CHR '']'' \<and> c \<noteq> CHR ''}''"

lemma decimal_value_head: "is_decimal_char c \<Longrightarrow> value_head c"
  by (auto simp: value_head_def is_json_ws_def is_decimal_char_def)

lemma dumps_head:
  assumes "float_free j"
  obtains c r where "dumps j = c # r" and "value_head c"
proof (cases j)
  case (JBool b)
  then show ?thesis
    using that by (cases b) (auto simp: value_head_def is_json_ws_def)
next
  case (JInt i)
  obtain c r where "int_str i = c # r" "is_decimal_char c \<or> (c = CHR ''-'' \<and> (\<exists>d q. r = d # q \<and> is_decimal_char d))"
    by (rule int_str_head)
  then show ?thesis
    using that JInt decimal_value_head by (auto simp: value_head_def is_json_ws_def)
qed (use assms that in \<open>auto simp: value_head_def is_json_ws_def dumps_str_def split: if_splits\<close>)

lemma skip_ws_head: "value_head c \<Longrightarrow> skip_ws (c # r) = c # r"
  by (simp add: skip_ws_def value_head_def)

lemma skip_ws_space: "value_head c \<Longrightarrow> skip_ws (CHR '' '' # c # r) = c # r"
  by (simp add: skip_ws_def value_head_def is_json_ws_def)

lemma skip_ws_mark:
  "skip_ws (CHR '']'' # r) = CHR '']'' # r" "skip_ws (CHR ''}'' # r) = CHR ''}'' # r"
  "skip_ws (CHR '','' # r) = CHR '','' # r" "skip_ws (CHR '':'' # r) = CHR '':'' # r"
  "skip_ws (quote_char # r) = quote_char # r" "skip_ws (CHR '' '' # quote_char # r) = quote_char # r"
  by (simp_all add: skip_ws_def is_json_ws_def)

lemma num_ends_mark [simp]:
  "num_ends (CHR '','' # r)" "num_ends (CHR '']'' # r)" "num_ends (CHR ''}'' # r)" "num_ends []"
  by (simp_all add: num_ends_def is_decimal_char_def)

lemma py_join_Cons: "ws \<noteq> [] \<Longrightarrow> py_join sep (w # ws) = w @ sep @ py_join sep ws"
  by (cases ws) simp_all

lemma parse_items_dumps:
  assumes IH: "\<And>x n rest. x \<in> set xs \<Longrightarrow> num_ends rest \<Longrightarrow> 2 * length (dumps x) \<le> n \<Longrightarrow>
                 parse_value n (dumps x @ rest) = Some (x, rest)"
    and free: "list_all float_free xs" and ne: "xs \<noteq> []"
    and fuel: "2 * length (py_join '', '' (map dumps xs)) + 1 \<le> n"
  shows "parse_items n (py_join '', '' (map dumps xs) @ CHR '']'' # rest) = Some (xs, rest)"
  using assms
proof (induction xs arbitrary: n)
  case Nil
  then show ?case by simp
next
  case (Cons x xs)
  obtain m where n: "n = Suc m"
    using Cons.prems(4) by (cases n) auto
  show ?case
  proof (cases xs)
    case Nil
    have "parse_value m (dumps x @ CHR '']'' # rest) = Some (x, CHR '']'' # rest)"
      using Cons.prems Nil n by (intro Cons.prems(1)) auto
    then show ?thesis
      by (simp add: Nil n skip_ws_mark)
  next
    case (Cons y ys)
    let ?J = "py_join '', '' (map dumps xs)"
    have j: "py_join '', '' (map dumps (x # xs)) = dumps x @ '', '' @ ?J"
      using Cons by simp
    have v: "parse_value m (dumps x @ CHR '','' # CHR '' '' # ?J @ CHR '']'' # rest)
        = Some (x, CHR '','' # CHR '' '' # ?J @ CHR '']'' # rest)"
      using Cons.prems j n by (intro Cons.prems(1)) auto
    obtain c r where cr: "dumps y = c # r" "value_head c"
      using Cons.prems(2) Cons by (auto elim: dumps_head)
    have sk: "skip_ws (CHR '' '' # ?J @ CHR '']'' # rest) = ?J @ CHR '']'' # rest"
      using cr Cons by (cases ys) (simp_all add: skip_ws_space)
    have "parse_items m (?J @ CHR '']'' # rest) = Some (xs, rest)"
      using Cons.prems Cons j n by (intro Cons.IH) auto
    then show ?thesis
      using v sk j by (simp add: n skip_ws_mark del: list.map)
  qed
qed

lemma parse_str_key:
  "parse_str (concat (map json_escape_char k) @ quote_char # r) = Some (k, r)"
  by (rule parse_str_dumps)

abbreviation dumps_member :: "pystr \<times> json \<Rightarrow> pystr" where
  "dumps_member kv \<equiv> dumps_str (fst kv) @ '': '' @ dumps (snd kv)"

lemma parse_members_dumps:
  assumes IH: "\<And>kv n rest. kv \<in> set kvs \<Longrightarrow> num_ends rest \<Longrightarrow> 2 * length (dumps (snd kv)) \<le> n \<Longrightarrow>
                 parse_value n (dumps (snd kv) @ rest) = Some (snd kv, rest)"
    and free: "list_all (\<lambda>kv. float_free (snd kv)) kvs" and ne: "kvs \<noteq> []"
    and fuel: "2 * length (py_join '', '' (map dumps_member kvs)) + 1 \<le> n"
  shows "parse_members n (py_join '', '' (map dumps_member kvs) @ CHR ''}'' # rest) = Some (kvs, rest)"
  using assms
proof (induction kvs arbitrary: n)
  case Nil
  then show ?case by simp
next
  case (Cons kv kvs)
  obtain m where n: "n = Suc m"
    using Cons.prems(4) by (cases n) auto
  obtain k v where kv: "kv = (k, v)"
    by (cases kv)
  obtain c r where cr: "dumps v = c # r" "value_head c"
    using Cons.prems(2) kv by (auto elim: dumps_head)
  have sp: "skip_ws (CHR '' '' # dumps v @ q) = dumps v @ q" for q
    using cr by (simp add: skip_ws_space)
  show ?case
  proof (cases kvs)
    case Nil
    have "parse_value m (dumps v @ CHR ''}'' # rest) = Some (v, CHR ''}'' # rest)"
      using Cons.prems(1) [of kv "CHR ''}'' # rest" m] Cons.prems(4) Nil n kv by simp
    then show ?thesis
      using sp by (simp add: Nil n kv dumps_str_def parse_str_key skip_ws_mark)
  next
    case (Cons lw ys)
    let ?J = "py_join '', '' (map dumps_member kvs)"
    have j: "py_join '', '' (map dumps_member (kv # kvs)) = dumps_member kv @ '', '' @ ?J"
      using Cons by simp
    have v: "parse_value m (dumps v @ CHR '','' # CHR '' '' # ?J @ CHR ''}'' # rest)
        = Some (v, CHR '','' # CHR '' '' # ?J @ CHR ''}'' # rest)"
      using Cons.prems(1) [of kv "CHR '','' # CHR '' '' # ?J @ CHR ''}'' # rest" m]
        Cons.prems(4) j n kv by simp
    have sk: "skip_ws (CHR '' '' # ?J @ CHR ''}'' # rest) = ?J @ CHR ''}'' # rest"
      using Cons by (cases ys) (simp_all add: dumps_str_def skip_ws_mark)
    have "parse_members m (?J @ CHR ''}'' # rest) = Some (kvs, rest)"
      using Cons.prems Cons j n by (intro Cons.IH) auto
    then show ?thesis
      using v sk sp j by (simp add: n kv dumps_str_def parse_str_key skip_ws_mark del: list.map)
  qed
qed

lemma parse_value_atoms:
  "parse_value (Suc n) (''null'' @ rest) = Some (JNull, rest)"
  "parse_value (Suc n) (''true'' @ rest) = Some (JBool True, rest)"
  "parse_value (Suc n) (''false'' @ rest) = Some (JBool False, rest)"
  "parse_value (Suc n) (dumps_str s @ rest) = Some (JStr s, rest)"
  "parse_value (Suc n) (''[]'' @ rest) = Some (JList [], rest)"
  "parse_value (Suc n) (''{}'' @ rest) = Some (JObj [], rest)"
  by (simp_all add: py_startswith_def dumps_str_def parse_str_key skip_ws_mark)

lemma parse_value_open:
  "value_head c \<Longrightarrow> parse_value (Suc n) (CHR ''['' # c # r)
     = map_option (\<lambda>(xs, q). (JList xs, q)) (parse_items n (c # r))"
  "value_head c \<Longrightarrow> parse_value (Suc n) (CHR ''{'' # c # r)
     = map_option (\<lambda>(kvs, q). (JObj kvs, q)) (parse_members n (c # r))"
  by (simp_all add: skip_ws_head del: parse_items.simps parse_members.simps)
    (simp_all add: value_head_def del: parse_items.simps parse_members.simps)

lemma value_head_quote: "value_head quote_char"
  by (simp add: value_head_def is_json_ws_def)

lemmas parse_simps_del = parse_value.simps parse_items.simps parse_members.simps

lemma parse_value_list:
  assumes IH: "\<And>x n rest. x \<in> set xs \<Longrightarrow> num_ends rest \<Longrightarrow> 2 * length (dumps x) \<le> n \<Longrightarrow>
                 parse_value n (dumps x @ rest) = Some (x, rest)"
    and free: "list_all float_free xs" and fuel: "2 * length (dumps (JList xs)) \<le> n"
  shows "parse_value n (dumps (JList xs) @ rest) = Some (JList xs, rest)"
proof -
  obtain m where n: "n = Suc m"
    using fuel by (cases n) auto
  show ?thesis
  proof (cases xs)
    case Nil
    then show ?thesis
      using parse_value_atoms(5) [of m rest] by (simp add: n del: parse_simps_del)
  next
    case (Cons y ys)
    let ?T = "py_join '', '' (map dumps xs) @ CHR '']'' # rest"
    have items: "parse_items m ?T = Some (xs, rest)"
      using IH free fuel Cons n by (intro parse_items_dumps) simp_all
    obtain c r where "dumps y = c # r" and c: "value_head c"
      using free Cons by (auto elim: dumps_head)
    then obtain q where T: "?T = c # q"
      using Cons by (cases ys) simp_all
    show ?thesis
      using parse_value_open(1) [OF c, of m q] items T by (simp add: n del: parse_simps_del)
  qed
qed

lemma parse_value_obj:
  assumes IH: "\<And>kv n rest. kv \<in> set kvs \<Longrightarrow> num_ends rest \<Longrightarrow> 2 * length (dumps (snd kv)) \<le> n \<Longrightarrow>
                 parse_value n (dumps (snd kv) @ rest) = Some (snd kv, rest)"
    and free: "list_all (\<lambda>kv. float_free (snd kv)) kvs"
    and fuel: "2 * length (dumps (JObj kvs)) \<le> n"
  shows "parse_value n (dumps (JObj kvs) @ rest) = Some (JObj kvs, rest)"
proof -
  obtain m where n: "n = Suc m"
    using fuel by (cases n) auto
  show ?thesis
  proof (cases kvs)
    case Nil
    then show ?thesis
      using parse_value_atoms(6) [of m rest] by (simp add: n del: parse_simps_del)
  next
    case (Cons kv ys)
    let ?T = "py_join '', '' (map dumps_member kvs) @ CHR ''}'' # rest"
    have items: "parse_members m ?T = Some (kvs, rest)"
      using IH free fuel Cons n by (intro parse_members_dumps) simp_all
    obtain q where T: "?T = quote_char # q"
      using Cons by (cases ys) (simp_all add: dumps_str_def)
    show ?thesis
      using parse_value_open(2) [OF value_head_quote, of m q] items T
      by (simp add: n del: parse_simps_del)
  qed
qed

lemma parse_value_dumps:
  "float_free j \<Longrightarrow> num_ends rest \<Longrightarrow> 2 * length (dumps j) \<le> n \<Longrightarrow>
     parse_value n (dumps j @ rest) = Some (j, rest)"
proof (induction j arbitrary: n rest)
  case JNull
  then obtain m where n: "n = Suc m"
    by (cases n) simp_all
  show ?case
    unfolding n dumps.simps by (rule parse_value_atoms(1))
next
  case (JBool b)
  then obtain m where n: "n = Suc m"
    by (cases n; cases b) simp_all
  show ?case
    using parse_value_atoms(2,3) [of m rest] by (cases b) (simp_all add: n del: parse_simps_del)
next
  case (JInt i)
  have "int_str i \<noteq> []"
    by (rule int_str_head [of i]) simp
  with JInt obtain m where n: "n = Suc m"
    by (cases n) simp_all
  show ?case
    unfolding n dumps.simps by (rule parse_value_int [OF JInt.prems(2)])
next
  case (JFloat s)
  then show ?case by simp
next
  case (JStr s)
  have "dumps_str s \<noteq> []"
    by (simp add: dumps_str_def)
  with JStr obtain m where n: "n = Suc m"
    by (cases n) simp_all
  show ?case
    unfolding n dumps.simps by (rule parse_value_atoms(4))
next
  case (JList xs)
  show ?case
  proof (rule parse_value_list)
    show "parse_value k (dumps x @ q) = Some (x, q)"
      if "x \<in> set xs" "num_ends q" "2 * length (dumps x) \<le> k" for x k q
      by (rule JList.IH [OF that(1) _ that(2,3)]) (use JList.prems(1) that(1) in \<open>simp add: list_all_iff\<close>)
    show "list_all float_free xs"
      using JList.prems(1) by simp
    show "2 * length (dumps (JList xs)) \<le> n"
      by (rule JList.prems(3))
  qed
next
  case (JObj kvs)
  show ?case
  proof (rule parse_value_obj)
    show "parse_value k (dumps (snd x) @ q) = Some (snd x, q)"
      if "x \<in> set kvs" "num_ends q" "2 * length (dumps (snd x)) \<le> k" for x k q
    proof (rule JObj.IH [OF that(1) _ _ that(2,3)])
      show "snd x \<in> Basic_BNFs.snds x"
        by (cases x) simp
      show "float_free (snd x)"
        using JObj.prems(1) that(1) by (simp add: list_all_iff)
    qed
    show "list_all (\<lambda>kv. float_free (snd kv)) kvs"
      using JObj.prems(1) by simp
    show "2 * length (dumps (JObj kvs)) \<le> n"
      by (rule JObj.prems(3))
  qed
qed

lemma loads_dumps_id:
  assumes "float_free j"
  shows "loads (dumps j) = Some j"
proof -
  obtain c r where "dumps j = c # r" "value_head c"
    using assms by (rule dumps_head)
  then have "skip_ws (dumps j) = dumps j"
    by (simp add: skip_ws_head)
  moreover have "parse_value (2 * length (dumps j) + 2) (dumps j @ []) = Some (j, [])"
    using assms by (intro parse_value_dumps) auto
  ultimately show ?thesis
    by (simp add: loads_def skip_ws_def)
qed

section \<open>Properties\<close>

end
