(* ===== verification/Proxy.thy ===== *)
theory Proxy
  imports Domain Json
begin

text \<open>
  Proxy providers: \<open>core/proxy\<close>. The schema helpers of \<open>base.py\<close>, the two providers
  (\<open>geonode.py\<close>, \<open>dataimpulse.py\<close>), the registry with its preflight, and the exit-address probe
  of \<open>egress.py\<close>. A dictionary a function builds is the list of its pairs in order; one it is
  given is a map. Replies of HTTP requests and random hexadecimal text are arguments.
\<close>

section \<open>Schema helpers\<close>

type_synonym py_dict = "(pystr \<times> pystr) list"
type_synonym raw_values = "pystr \<Rightarrow> pystr option"

definition get_text :: "raw_values \<Rightarrow> pystr \<Rightarrow> pystr" where
  "get_text raw name = (case raw name of None \<Rightarrow> [] | Some v \<Rightarrow> v)"

definition config_error :: "pystr \<Rightarrow> exn + 'a" where
  "config_error msg = Inl (raise_exn ProxyConfigurationError msg)"

record proxy_session =
  ps_proxy_id :: pystr
  ps_host :: pystr
  ps_port :: pystr
  ps_username :: pystr
  ps_password :: pystr
  ps_session_id :: pystr

definition as_http_proxy_url :: "proxy_session \<Rightarrow> pystr" where
  "as_http_proxy_url s =
     ''http://'' @ ps_username s @ '':'' @ ps_password s @ ''@'' @ ps_host s @ '':'' @ ps_port s"

record provider_tuning =
  pt_workers :: int
  pt_ban_cooldown_s :: seconds
  pt_slot_pool :: "int option"

record field =
  fd_name :: pystr
  fd_secret :: bool
  fd_required :: bool
  fd_default :: pystr
  fd_choices :: "pystr list"
  fd_advanced :: bool

definition plain_field :: "pystr \<Rightarrow> field" where
  "plain_field n = \<lparr>fd_name = n, fd_secret = False, fd_required = True, fd_default = [],
                    fd_choices = [], fd_advanced = False\<rparr>"

definition required :: "raw_values \<Rightarrow> pystr \<Rightarrow> exn + pystr" where
  "required raw name =
     (let value = py_strip (get_text raw name)
      in if value = [] then config_error (name @ '' is required'') else Inr value)"

definition optional :: "raw_values \<Rightarrow> pystr \<Rightarrow> pystr" where
  "optional raw name = py_strip (get_text raw name)"

definition one_of :: "raw_values \<Rightarrow> pystr \<Rightarrow> pystr list \<Rightarrow> exn + pystr" where
  "one_of raw name choices =
     bind_res (required raw name) (\<lambda>value.
       if value \<notin> set choices
       then config_error (name @ '' must be one of '' @ py_join ''|'' choices)
       else Inr value)"

definition whole_number :: "raw_values \<Rightarrow> pystr \<Rightarrow> int \<Rightarrow> int \<Rightarrow> exn + int" where
  "whole_number raw name minimum maximum =
     bind_res (required raw name) (\<lambda>text.
       case py_int text of
         None \<Rightarrow> config_error (name @ '' must be a whole number'')
       | Some value \<Rightarrow>
           if \<not> (minimum \<le> value \<and> value \<le> maximum)
           then config_error (name @ '' must be between '' @ int_str minimum @ '' and '' @ int_str maximum)
           else Inr value)"

definition country_code :: "raw_values \<Rightarrow> pystr \<Rightarrow> bool \<Rightarrow> exn + pystr" where
  "country_code raw name lowercase =
     bind_res (required raw name) (\<lambda>value.
       let code = (if lowercase then py_lower value else py_upper value)
       in if length code \<noteq> 2 \<or> \<not> py_isalpha code
          then config_error (name @ '' must be a two-letter country code'')
          else Inr code)"

definition flag :: "raw_values \<Rightarrow> pystr \<Rightarrow> pystr" where
  "flag raw name =
     (let value = py_lower (py_strip (get_text raw name))
      in if value \<in> {''1'', ''true'', ''yes''} then ''true'' else [])"

section \<open>GeoNode\<close>

definition PROXY_TYPES :: "pystr list" where
  "PROXY_TYPES = [''residential'', ''datacenter'', ''mix'']"

definition GATEWAY_HOST_BY_NAME :: py_dict where
  "GATEWAY_HOST_BY_NAME =
     [(''fr'', ''proxy.geonode.io''), (''fr_whitelist'', ''prod-proxy.geonode.io''),
      (''us'', ''us.proxy.geonode.io''), (''sg'', ''sg.proxy.geonode.io'')]"

definition HTTP_STICKY_PORT_MIN :: int where
  "HTTP_STICKY_PORT_MIN = 10000"

definition HTTP_STICKY_PORT_MAX :: int where
  "HTTP_STICKY_PORT_MAX = 10900"

definition HTTP_STICKY_SLOT_COUNT :: int where
  "HTTP_STICKY_SLOT_COUNT = HTTP_STICKY_PORT_MAX - HTTP_STICKY_PORT_MIN + 1"

definition RELEASE_RETRIES :: nat where
  "RELEASE_RETRIES = 3"

definition geonode_tuning :: provider_tuning where
  "geonode_tuning =
     \<lparr>pt_workers = 15, pt_ban_cooldown_s = 30, pt_slot_pool = Some HTTP_STICKY_SLOT_COUNT\<rparr>"

record geonode_config =
  gn_user :: pystr
  gn_password :: pystr
  gn_host :: pystr
  gn_proxy_type :: pystr
  gn_country :: pystr
  gn_state :: pystr
  gn_city :: pystr
  gn_asn :: pystr
  gn_strict_off :: bool
  gn_lifetime :: int

definition geonode_fields :: "field list" where
  "geonode_fields =
     [(plain_field ''username'')\<lparr>fd_secret := True\<rparr>,
      (plain_field ''password'')\<lparr>fd_secret := True\<rparr>,
      (plain_field ''gateway'')\<lparr>fd_default := ''fr'', fd_choices := sort (map fst GATEWAY_HOST_BY_NAME)\<rparr>,
      (plain_field ''proxy_type'')\<lparr>fd_default := ''residential'', fd_choices := PROXY_TYPES\<rparr>,
      (plain_field ''country'')\<lparr>fd_default := ''PE''\<rparr>,
      (plain_field ''state'')\<lparr>fd_required := False, fd_advanced := True\<rparr>,
      (plain_field ''city'')\<lparr>fd_required := False, fd_advanced := True\<rparr>,
      (plain_field ''asn'')\<lparr>fd_required := False, fd_advanced := True\<rparr>,
      (plain_field ''strict_off'')\<lparr>fd_required := False, fd_advanced := True\<rparr>,
      (plain_field ''lifetime_minutes'')\<lparr>fd_default := ''10'', fd_advanced := True\<rparr>]"

definition geonode_normalize :: "raw_values \<Rightarrow> exn + py_dict" where
  "geonode_normalize raw =
     bind_res (required raw ''username'') (\<lambda>username.
     bind_res (required raw ''password'') (\<lambda>password.
     bind_res (one_of raw ''gateway'' (sort (map fst GATEWAY_HOST_BY_NAME))) (\<lambda>gateway.
     bind_res (one_of raw ''proxy_type'' PROXY_TYPES) (\<lambda>proxy_type.
     bind_res (country_code raw ''country'' False) (\<lambda>country.
     bind_res (whole_number raw ''lifetime_minutes'' 3 1440) (\<lambda>lifetime.
       Inr [(''username'', username), (''password'', password), (''gateway'', gateway),
            (''proxy_type'', proxy_type), (''country'', country),
            (''state'', optional raw ''state''), (''city'', optional raw ''city''),
            (''asn'', optional raw ''asn''), (''strict_off'', flag raw ''strict_off''),
            (''lifetime_minutes'', int_str lifetime)]))))))"

definition key_error :: "pystr \<Rightarrow> exn" where
  "key_error k = raise_exn (BuiltinError ''KeyError'') (py_repr k)"

definition lookup_key :: "('k \<Rightarrow> 'v option) \<Rightarrow> ('k \<Rightarrow> pystr) \<Rightarrow> 'k \<Rightarrow> exn + 'v" where
  "lookup_key m show_key k =
     (case m k of None \<Rightarrow> Inl (raise_exn (BuiltinError ''KeyError'') (show_key k)) | Some v \<Rightarrow> Inr v)"

abbreviation at_key :: "raw_values \<Rightarrow> pystr \<Rightarrow> exn + pystr" where
  "at_key m k \<equiv> lookup_key m py_repr k"

definition to_int :: "pystr \<Rightarrow> exn + int" where
  "to_int s =
     (case py_int s of
        None \<Rightarrow> Inl (raise_exn ValueError (''invalid literal for int() with base 10: '' @ py_repr s))
      | Some i \<Rightarrow> Inr i)"

definition geonode_build :: "raw_values \<Rightarrow> exn + geonode_config" where
  "geonode_build values =
     bind_res (at_key values ''username'') (\<lambda>user.
     bind_res (at_key values ''password'') (\<lambda>password.
     bind_res (at_key values ''gateway'') (\<lambda>gateway.
     bind_res (at_key (map_of GATEWAY_HOST_BY_NAME) gateway) (\<lambda>host.
     bind_res (at_key values ''proxy_type'') (\<lambda>proxy_type.
     bind_res (at_key values ''country'') (\<lambda>country.
     bind_res (bind_res (at_key values ''lifetime_minutes'') to_int) (\<lambda>lifetime.
       Inr \<lparr>gn_user = user, gn_password = password, gn_host = host, gn_proxy_type = proxy_type,
            gn_country = country, gn_state = get_text values ''state'',
            gn_city = get_text values ''city'', gn_asn = get_text values ''asn'',
            gn_strict_off = (get_text values ''strict_off'' \<noteq> []), gn_lifetime = lifetime\<rparr>)))))))"

definition chunk_pair :: "pystr \<Rightarrow> pystr \<Rightarrow> pystr list" where
  "chunk_pair key value = (if value = [] then [] else [key, value])"

definition build_username :: "geonode_config \<Rightarrow> pystr \<Rightarrow> pystr" where
  "build_username config session_id =
     py_join ''-''
       ([gn_user config, ''session'', session_id]
        @ chunk_pair ''type'' (gn_proxy_type config)
        @ chunk_pair ''country'' (gn_country config)
        @ chunk_pair ''state'' (gn_state config)
        @ chunk_pair ''city'' (gn_city config)
        @ chunk_pair ''asn'' (gn_asn config)
        @ (if gn_strict_off config then [''strict'', ''off''] else [])
        @ (if gn_lifetime config \<noteq> 0 then [''lifetime'', int_str (gn_lifetime config)] else []))"

definition slot_port :: "int \<Rightarrow> exn + int" where
  "slot_port slot_id =
     (if slot_id < 1 \<or> HTTP_STICKY_SLOT_COUNT < slot_id
      then Inl (raise_exn ValueError (''slot_id must be between 1 and '' @ int_str HTTP_STICKY_SLOT_COUNT))
      else Inr (HTTP_STICKY_PORT_MIN + slot_id - 1))"

text \<open>\<open>hex8\<close> is the random part: the first eight hexadecimal digits of a fresh UUID.\<close>

definition geonode_session_id :: "int \<Rightarrow> pystr \<Rightarrow> pystr" where
  "geonode_session_id slot_id hex8 = ''s'' @ int_str slot_id @ ''_'' @ hex8"

definition geonode_new_session :: "geonode_config \<Rightarrow> int \<Rightarrow> pystr \<Rightarrow> exn + proxy_session" where
  "geonode_new_session config slot_id hex8 =
     bind_res (slot_port slot_id) (\<lambda>port.
       let session_id = geonode_session_id slot_id hex8;
           username = build_username config session_id
       in Inr \<lparr>ps_proxy_id = ''proxy-1-port-'' @ int_str port, ps_host = gn_host config,
               ps_port = int_str port, ps_username = username, ps_password = gn_password config,
               ps_session_id = session_id\<rparr>)"

datatype http_result = HttpRaise exn | HttpResponse int pystr

text \<open>The class of \<open>httpx.HTTPError\<close> and of its subclasses.\<close>

abbreviation HTTPError :: exn_class where
  "HTTPError \<equiv> BuiltinError ''HTTPError''"

fun class_name :: "exn_class \<Rightarrow> pystr" where
  "class_name FetchError = ''FetchError''"
| "class_name TransientTransportError = ''TransientTransportError''"
| "class_name BanSignalError = ''BanSignalError''"
| "class_name ParseError = ''ParseError''"
| "class_name UpstreamNotReadyError = ''UpstreamNotReadyError''"
| "class_name ProviderSchemaError = ''ProviderSchemaError''"
| "class_name ProxyConfigurationError = ''ProxyConfigurationError''"
| "class_name RucNotFoundError = ''RucNotFoundError''"
| "class_name (BuiltinError n) = n"

definition describe_exn :: "exn \<Rightarrow> pystr" where
  "describe_exn e = class_name (exn_class e) @ '': '' @ exn_text e"

text \<open>\<open>json.dumps\<close> with its default \<open>ensure_ascii=True\<close>.\<close>

definition dumps_ascii :: "json \<Rightarrow> pystr" where
  "dumps_ascii j =
     concat (map (\<lambda>c. if 127 \<le> code_point c
       then [escape_char, CHR ''u'', CHR ''0'', CHR ''0'', hex_digit (code_point c div 16),
             hex_digit (code_point c mod 16)]
       else [c]) (dumps j))"

definition JSON_DECODE_ERROR :: exn where
  "JSON_DECODE_ERROR = raise_exn (BuiltinError ''JSONDecodeError'') ''invalid JSON''"

definition release_sticky_session :: "http_result \<Rightarrow> exn + bool \<times> int \<times> pystr" where
  "release_sticky_session reply =
     (case reply of
        HttpRaise e \<Rightarrow>
          if exn_class e \<in> {HTTPError, ValueError} then Inr (False, 0, describe_exn e) else Inl e
      | HttpResponse status body \<Rightarrow>
          if status \<noteq> 200 then Inr (False, status, take 300 body)
          else
            (case loads body of
               None \<Rightarrow> Inr (False, 0, describe_exn JSON_DECODE_ERROR)
             | Some payload \<Rightarrow>
                 (case payload of
                    JObj kvs \<Rightarrow>
                      if json_truthy (json_get kvs ''success'') then Inr (True, status, [])
                      else Inr (False, status, take 300 (dumps_ascii payload))
                  | _ \<Rightarrow> Inr (False, status, take 300 (dumps_ascii payload)))))"

text \<open>
  The release loop: the requests it made, and the status and error it logs when all failed (None
  when one succeeded). \<open>reply i\<close> answers the i-th request.
\<close>

fun release_attempts ::
  "(nat \<Rightarrow> http_result) \<Rightarrow> nat \<Rightarrow> nat \<Rightarrow> int \<times> pystr \<Rightarrow> exn + nat \<times> (int \<times> pystr) option" where
  "release_attempts reply 0 attempt prev = Inr (attempt - 1, Some prev)"
| "release_attempts reply (Suc left) attempt prev =
     bind_res (release_sticky_session (reply attempt)) (\<lambda>(ok, status, error).
       if ok then Inr (attempt, None)
       else release_attempts reply left (attempt + 1) (status, error))"

definition geonode_release :: "(nat \<Rightarrow> http_result) \<Rightarrow> exn + nat \<times> (int \<times> pystr) option" where
  "geonode_release reply = release_attempts reply RELEASE_RETRIES 1 (0, [])"

section \<open>DataImpulse\<close>

definition GATEWAY_HOST :: pystr where
  "GATEWAY_HOST = ''gw.dataimpulse.com''"

definition HTTP_PORT :: pystr where
  "HTTP_PORT = ''823''"

record dataimpulse_config =
  di_user :: pystr
  di_password :: pystr
  di_country :: pystr
  di_sessttl :: int
  di_host :: pystr

definition dataimpulse_fields :: "field list" where
  "dataimpulse_fields =
     [(plain_field ''username'')\<lparr>fd_secret := True\<rparr>,
      (plain_field ''password'')\<lparr>fd_secret := True\<rparr>,
      (plain_field ''country'')\<lparr>fd_default := ''pe''\<rparr>,
      (plain_field ''session_minutes'')\<lparr>fd_default := ''3'', fd_advanced := True\<rparr>]"

definition dataimpulse_tuning :: provider_tuning where
  "dataimpulse_tuning = \<lparr>pt_workers = 18, pt_ban_cooldown_s = 30, pt_slot_pool = None\<rparr>"

definition dataimpulse_normalize :: "raw_values \<Rightarrow> exn + py_dict" where
  "dataimpulse_normalize raw =
     bind_res (required raw ''username'') (\<lambda>username.
     bind_res (required raw ''password'') (\<lambda>password.
     bind_res (country_code raw ''country'' True) (\<lambda>country.
     bind_res (whole_number raw ''session_minutes'' 1 1440) (\<lambda>minutes.
       Inr [(''username'', username), (''password'', password), (''country'', country),
            (''session_minutes'', int_str minutes)]))))"

definition dataimpulse_build :: "raw_values \<Rightarrow> exn + dataimpulse_config" where
  "dataimpulse_build values =
     bind_res (at_key values ''username'') (\<lambda>user.
     bind_res (at_key values ''password'') (\<lambda>password.
     bind_res (at_key values ''country'') (\<lambda>country.
     bind_res (bind_res (at_key values ''session_minutes'') to_int) (\<lambda>minutes.
       Inr \<lparr>di_user = user, di_password = password, di_country = country,
            di_sessttl = minutes, di_host = GATEWAY_HOST\<rparr>))))"

definition dataimpulse_new_session ::
  "dataimpulse_config \<Rightarrow> int \<Rightarrow> pystr \<Rightarrow> proxy_session" where
  "dataimpulse_new_session config slot_id hex8 =
     (let session_id = ''d'' @ int_str slot_id @ ''_'' @ hex8;
          username = di_user config @ ''__cr.'' @ di_country config
                     @ '';sessid.'' @ session_id @ '';sessttl.'' @ int_str (di_sessttl config)
      in \<lparr>ps_proxy_id = ''dataimpulse-slot-'' @ int_str slot_id, ps_host = di_host config,
          ps_port = HTTP_PORT, ps_username = username, ps_password = di_password config,
          ps_session_id = session_id\<rparr>)"

section \<open>Registry\<close>

datatype provider = GeoNodeProvider geonode_config | DataImpulseProvider dataimpulse_config

record provider_spec =
  sp_name :: pystr
  sp_fields :: "field list"
  sp_tuning :: provider_tuning
  sp_normalize :: "raw_values \<Rightarrow> exn + py_dict"
  sp_build :: "raw_values \<Rightarrow> exn + provider"

definition GEONODE :: provider_spec where
  "GEONODE = \<lparr>sp_name = ''geonode'', sp_fields = geonode_fields, sp_tuning = geonode_tuning,
              sp_normalize = geonode_normalize,
              sp_build = (\<lambda>v. bind_res (geonode_build v) (\<lambda>c. Inr (GeoNodeProvider c)))\<rparr>"

definition DATAIMPULSE :: provider_spec where
  "DATAIMPULSE = \<lparr>sp_name = ''dataimpulse'', sp_fields = dataimpulse_fields,
                  sp_tuning = dataimpulse_tuning, sp_normalize = dataimpulse_normalize,
                  sp_build = (\<lambda>v. bind_res (dataimpulse_build v) (\<lambda>c. Inr (DataImpulseProvider c)))\<rparr>"

definition PROVIDERS :: "(pystr \<times> provider_spec) list" where
  "PROVIDERS = [(sp_name GEONODE, GEONODE), (sp_name DATAIMPULSE, DATAIMPULSE)]"

definition spec_for :: "pystr \<Rightarrow> exn + provider_spec" where
  "spec_for name =
     (case map_of PROVIDERS name of
        Some spec \<Rightarrow> Inr spec
      | None \<Rightarrow> config_error (''unknown proxy provider '' @ py_repr name @ ''; choose from ''
                              @ py_join ''|'' (sort (map fst PROVIDERS))))"

definition provider_from_values :: "pystr \<Rightarrow> raw_values \<Rightarrow> exn + provider" where
  "provider_from_values name raw =
     bind_res (spec_for name) (\<lambda>spec.
     bind_res (sp_normalize spec raw) (\<lambda>vals. sp_build spec (map_of vals)))"

definition provider_name :: "provider \<Rightarrow> pystr" where
  "provider_name p = (case p of GeoNodeProvider _ \<Rightarrow> ''geonode'' | DataImpulseProvider _ \<Rightarrow> ''dataimpulse'')"

definition provider_tuning_of :: "provider \<Rightarrow> provider_tuning" where
  "provider_tuning_of p =
     (case p of GeoNodeProvider _ \<Rightarrow> geonode_tuning | DataImpulseProvider _ \<Rightarrow> dataimpulse_tuning)"

definition new_session :: "provider \<Rightarrow> int \<Rightarrow> pystr \<Rightarrow> exn + proxy_session" where
  "new_session p slot_id hex8 =
     (case p of
        GeoNodeProvider c \<Rightarrow> geonode_new_session c slot_id hex8
      | DataImpulseProvider c \<Rightarrow> Inr (dataimpulse_new_session c slot_id hex8))"

text \<open>Releasing a session: the requests made and the failure it logs, when it does.\<close>

definition release :: "provider \<Rightarrow> (nat \<Rightarrow> http_result) \<Rightarrow> exn + nat \<times> (int \<times> pystr) option" where
  "release p reply =
     (case p of GeoNodeProvider _ \<Rightarrow> geonode_release reply | DataImpulseProvider _ \<Rightarrow> Inr (0, None))"

definition values_from_environment :: "provider_spec \<Rightarrow> raw_values \<Rightarrow> exn + py_dict" where
  "values_from_environment spec env =
     sp_normalize spec (map_of (map (\<lambda>f.
       (fd_name f,
        case env (py_upper (sp_name spec @ ''_'' @ fd_name f)) of None \<Rightarrow> fd_default f | Some v \<Rightarrow> v))
       (sp_fields spec)))"

section \<open>Exit address\<close>

text \<open>The standard library's \<open>ipaddress\<close> parsers, as the predicate "does not raise".\<close>

definition valid_octet :: "pystr \<Rightarrow> bool" where
  "valid_octet s \<longleftrightarrow>
     s \<noteq> [] \<and> list_all is_decimal_char s \<and> length s \<le> 3
     \<and> (s = ''0'' \<or> hd s \<noteq> CHR ''0'') \<and> digits_value s \<le> 255"

definition valid_ipv4 :: "pystr \<Rightarrow> bool" where
  "valid_ipv4 s = (let parts = py_split CHR ''.'' s in length parts = 4 \<and> list_all valid_octet parts)"

definition valid_hextet :: "pystr \<Rightarrow> bool" where
  "valid_hextet s \<longleftrightarrow> s \<noteq> [] \<and> length s \<le> 4 \<and> list_all (\<lambda>c. hex_value c \<noteq> None) s"

definition strip_scope :: "pystr \<Rightarrow> pystr option" where
  "strip_scope s =
     (case py_partition CHR ''%'' s of (addr, found, scope) \<Rightarrow>
        if \<not> found then Some addr
        else if scope = [] \<or> CHR ''%'' \<in> set scope then None else Some addr)"

definition ipv6_parts :: "pystr \<Rightarrow> pystr list option" where
  "ipv6_parts addr =
     (let parts = py_split CHR '':'' addr
      in if length parts < 3 then None
         else if CHR ''.'' \<in> set (List.last parts)
              then if valid_ipv4 (List.last parts) then Some (butlast parts @ [''0'', ''0'']) else None
              else Some parts)"

definition empty_inside :: "pystr list \<Rightarrow> nat list" where
  "empty_inside parts = filter (\<lambda>i. parts ! i = []) [1..<length parts - 1]"

definition valid_groups :: "pystr list \<Rightarrow> bool" where
  "valid_groups parts =
     (case empty_inside parts of
        [] \<Rightarrow> length parts = 8 \<and> list_all valid_hextet parts
      | [skip] \<Rightarrow>
          let hi = (if hd parts = [] then skip - 1 else skip);
              lo = (if List.last parts = [] then length parts - skip - 2 else length parts - skip - 1)
          in (hd parts = [] \<longrightarrow> hi = 0) \<and> (List.last parts = [] \<longrightarrow> lo = 0) \<and> hi + lo \<le> 7
             \<and> list_all valid_hextet (take hi parts)
             \<and> list_all valid_hextet (drop (length parts - lo) parts)
      | _ \<Rightarrow> False)"

definition valid_ipv6 :: "pystr \<Rightarrow> bool" where
  "valid_ipv6 s \<longleftrightarrow>
     CHR ''/'' \<notin> set s \<and>
     (case strip_scope s of
        None \<Rightarrow> False
      | Some addr \<Rightarrow>
          (case ipv6_parts addr of
             None \<Rightarrow> False
           | Some parts \<Rightarrow> length parts \<le> 9 \<and> valid_groups parts))"

definition is_valid_ip :: "pystr \<Rightarrow> bool" where
  "is_valid_ip s \<longleftrightarrow> valid_ipv4 s \<or> valid_ipv6 s"

fun extract_from :: "(pystr \<times> json) list \<Rightarrow> pystr list \<Rightarrow> pystr" where
  "extract_from kvs [] = []"
| "extract_from kvs (key # keys) =
     (case json_get kvs key of
        JStr v \<Rightarrow>
          let candidate = py_strip (fst (py_partition CHR '','' v))
          in if is_valid_ip candidate then candidate else extract_from kvs keys
      | _ \<Rightarrow> extract_from kvs keys)"

definition extract_ip :: "json option \<Rightarrow> pystr" where
  "extract_ip payload =
     (case payload of
        Some (JObj kvs) \<Rightarrow> extract_from kvs [''query'', ''ip'', ''origin'']
      | _ \<Rightarrow> [])"

definition probe_ip :: "http_result \<Rightarrow> exn + pystr" where
  "probe_ip reply =
     (case reply of
        HttpRaise e \<Rightarrow> if isinstance e TransientTransportError then Inr [] else Inl e
      | HttpResponse status body \<Rightarrow>
          if status \<noteq> 200 then Inr [] else Inr (extract_ip (loads body)))"

text \<open>
  The probe loop over the remaining requests: the answers come in the order the requests are made,
  three rounds over the three addresses. The result carries the number of requests made.
\<close>

definition IP_PROBE_URLS :: "pystr list" where
  "IP_PROBE_URLS =
     [''http://ip-api.com/json'', ''https://api.ipify.org?format=json'', ''http://httpbin.org/ip'']"

fun probe_round :: "(nat \<Rightarrow> pystr \<Rightarrow> http_result) \<Rightarrow> nat \<Rightarrow> pystr list \<Rightarrow> exn + nat \<times> pystr" where
  "probe_round reply n [] = Inr (n, [])"
| "probe_round reply n (url # urls) =
     bind_res (probe_ip (reply n url)) (\<lambda>value.
       if value \<noteq> [] then Inr (n + 1, value) else probe_round reply (n + 1) urls)"

fun probe_rounds :: "(nat \<Rightarrow> pystr \<Rightarrow> http_result) \<Rightarrow> nat \<Rightarrow> nat \<Rightarrow> exn + nat \<times> pystr" where
  "probe_rounds reply n 0 = Inr (n, [])"
| "probe_rounds reply n (Suc rounds) =
     bind_res (probe_round reply n IP_PROBE_URLS) (\<lambda>(m, value).
       if value \<noteq> [] then Inr (m, value) else probe_rounds reply m rounds)"

definition resolve_egress_ip :: "(nat \<Rightarrow> pystr \<Rightarrow> http_result) \<Rightarrow> exn + nat \<times> pystr" where
  "resolve_egress_ip reply = probe_rounds reply 0 3"

text \<open>
  The error the normalising transport turns into a transient one: the arguments say whether the
  exception is of a class it catches.
\<close>

definition normalize_transport :: "(exn \<Rightarrow> bool) \<Rightarrow> http_result \<Rightarrow> http_result" where
  "normalize_transport caught reply =
     (case reply of
        HttpRaise e \<Rightarrow>
          if caught e
          then HttpRaise (raise_exn TransientTransportError (''proxy transport failed: '' @ describe_exn e))
          else HttpRaise e
      | r \<Rightarrow> r)"

text \<open>
  The preflight: the session is released whatever the probe did, and an exception of the release
  replaces the probe's.
\<close>

definition preflight ::
  "pystr \<Rightarrow> raw_values \<Rightarrow> pystr \<Rightarrow> (nat \<Rightarrow> pystr \<Rightarrow> http_result) \<Rightarrow> (nat \<Rightarrow> http_result) \<Rightarrow> exn + pystr" where
  "preflight name raw hex8 probe_reply release_reply =
     bind_res (provider_from_values name raw) (\<lambda>p.
     bind_res (new_session p 1 hex8) (\<lambda>session.
       let probed = resolve_egress_ip probe_reply
       in bind_res (release p release_reply) (\<lambda>_.
          bind_res probed (\<lambda>(n, egress_ip).
            if egress_ip = [] then config_error ''proxy configuration did not reach the internet''
            else Inr egress_ip))))"

section \<open>Facts\<close>

lemma of_char_below: "code_point c < (256 :: nat)"
  by simp

lemma of_char_of_nat: "n < 256 \<Longrightarrow> code_point (char_of (n :: nat) :: char) = n"
  by simp

lemma upper_S: "upper_char CHR ''S'' = ''S''"
  by (simp add: upper_char_def Let_def)

lemma upper_char_idem: "concat (map upper_char (upper_char c)) = upper_char c"
proof -
  define n where "n = (code_point c :: nat)"
  consider "(97 \<le> n \<and> n \<le> 122) \<or> (224 \<le> n \<and> n \<le> 254 \<and> n \<noteq> 247)" | "n = 223"
    | "\<not> ((97 \<le> n \<and> n \<le> 122) \<or> (224 \<le> n \<and> n \<le> 254 \<and> n \<noteq> 247))" "n \<noteq> 223" by blast
  then show ?thesis
  proof cases
    case 1
    then have u: "upper_char c = [char_of (n - 32)]" by (simp add: upper_char_def n_def)
    have "code_point (char_of (n - 32) :: char) = n - 32" using 1 by (intro of_char_of_nat) auto
    then have "upper_char (char_of (n - 32)) = [char_of (n - 32)]"
      using 1 by (auto simp: upper_char_def Let_def)
    then show ?thesis using u by simp
  next
    case 2
    then have "upper_char c = ''SS''" by (simp add: upper_char_def n_def)
    then show ?thesis by (simp add: upper_S)
  next
    case 3
    then have "upper_char c = [c]" unfolding upper_char_def Let_def n_def by auto
    then show ?thesis by simp
  qed
qed

lemma lower_char_idem: "lower_char (lower_char c) = lower_char c"
proof -
  define n where "n = (code_point c :: nat)"
  show ?thesis
  proof (cases "(65 \<le> n \<and> n \<le> 90) \<or> (192 \<le> n \<and> n \<le> 222 \<and> n \<noteq> 215)")
    case True
    then have u: "lower_char c = char_of (n + 32)" by (simp add: lower_char_def n_def)
    have "code_point (char_of (n + 32) :: char) = n + 32" using True by (intro of_char_of_nat) auto
    then show ?thesis using True u by (auto simp: lower_char_def [of "char_of (n + 32)"] Let_def)
  next
    case False
    then have "lower_char c = c" unfolding lower_char_def Let_def n_def by auto
    then show ?thesis by simp
  qed
qed

lemma alpha_not_space: "is_alpha_char c \<Longrightarrow> \<not> py_isspace_char c"
  by (auto simp: is_alpha_char_def py_isspace_char_def Let_def)

lemma py_upper_idem: "py_upper (py_upper s) = py_upper s"
proof (induction s)
  case Nil
  then show ?case by (simp add: py_upper_def)
next
  case (Cons c s)
  then show ?case using upper_char_idem [of c] by (simp add: py_upper_def)
qed

lemma py_lower_idem: "py_lower (py_lower s) = py_lower s"
  by (simp add: py_lower_def lower_char_idem)

lemma py_isalpha_strip: "py_isalpha s \<Longrightarrow> py_strip s = s"
  by (rule py_strip_id) (auto simp: py_isalpha_def list_all_iff alpha_not_space)

lemma required_Inr: "required raw name = Inr v \<Longrightarrow> py_strip v = v \<and> v \<noteq> []"
  by (auto simp: required_def Let_def config_error_def py_strip_idem split: if_splits)

lemma required_at: "m name = Some v \<Longrightarrow> py_strip v = v \<Longrightarrow> v \<noteq> [] \<Longrightarrow> required m name = Inr v"
  by (simp add: required_def get_text_def)

lemma one_of_Inr:
  "one_of raw name choices = Inr v \<Longrightarrow> py_strip v = v \<and> v \<noteq> [] \<and> v \<in> set choices"
  by (auto simp: one_of_def bind_res_Inr_iff config_error_def dest: required_Inr split: if_splits)

lemma country_Inr:
  assumes "country_code raw name low = Inr v"
  shows "py_strip v = v \<and> v \<noteq> [] \<and> length v = 2 \<and> py_isalpha v
    \<and> (if low then py_lower v else py_upper v) = v"
  using assms
  by (auto simp: country_code_def bind_res_Inr_iff config_error_def Let_def py_upper_idem py_lower_idem
      py_isalpha_strip split: if_splits)

lemma whole_number_Inr:
  "whole_number raw name lo hi = Inr i \<Longrightarrow> lo \<le> i \<and> i \<le> hi"
  by (auto simp: whole_number_def bind_res_Inr_iff config_error_def split: option.splits if_splits)

lemma int_str_strip: "0 \<le> i \<Longrightarrow> py_strip (int_str i) = int_str i \<and> int_str i \<noteq> []"
  by (simp add: int_str_def py_strip_decimal nat_str_decimal nat_str_nonempty)

lemma py_int_int_str: "0 \<le> i \<Longrightarrow> py_int (int_str i) = Some i"
  by (simp add: int_str_def py_int_nat_str)

lemma one_of_at:
  "m name = Some v \<Longrightarrow> py_strip v = v \<Longrightarrow> v \<noteq> [] \<Longrightarrow> v \<in> set choices \<Longrightarrow> one_of m name choices = Inr v"
  by (simp add: one_of_def required_at)

lemma country_at:
  "m name = Some v \<Longrightarrow> py_strip v = v \<Longrightarrow> v \<noteq> [] \<Longrightarrow> length v = 2 \<Longrightarrow> py_isalpha v
   \<Longrightarrow> (if low then py_lower v else py_upper v) = v \<Longrightarrow> country_code m name low = Inr v"
  by (simp add: country_code_def required_at)

lemma whole_number_at:
  "m name = Some (int_str i) \<Longrightarrow> 0 \<le> i \<Longrightarrow> lo \<le> i \<Longrightarrow> i \<le> hi \<Longrightarrow> whole_number m name lo hi = Inr i"
  by (simp add: whole_number_def required_at int_str_strip py_int_int_str)

lemma optional_at: "m name = Some (optional raw name) \<Longrightarrow> optional m name = optional raw name"
  by (simp add: optional_def get_text_def py_strip_idem)

lemma flag_true: "py_lower (py_strip ''true'') = ''true''" by code_simp
lemma flag_none: "py_lower (py_strip []) = []" by code_simp

lemma flag_range: "flag raw name = ''true'' \<or> flag raw name = []"
  by (simp add: flag_def Let_def)

lemma flag_at: "m name = Some (flag raw name) \<Longrightarrow> flag m name = flag raw name"
  using flag_range [of raw name]
  by (elim disjE) (simp_all add: flag_def [of m] get_text_def Let_def flag_true flag_none)

lemmas schema_at = required_at one_of_at country_at whole_number_at optional_at flag_at

lemma geonode_normalize_stable:
  assumes "geonode_normalize raw = Inr vals"
  shows "geonode_normalize (map_of vals) = Inr vals \<and> (\<exists>c. geonode_build (map_of vals) = Inr c)"
proof -
  from assms obtain u p g t c l where
    parts: "required raw ''username'' = Inr u" "required raw ''password'' = Inr p"
      "one_of raw ''gateway'' (sort (map fst GATEWAY_HOST_BY_NAME)) = Inr g"
      "one_of raw ''proxy_type'' PROXY_TYPES = Inr t" "country_code raw ''country'' False = Inr c"
      "whole_number raw ''lifetime_minutes'' 3 1440 = Inr l"
    and vals: "vals = [(''username'', u), (''password'', p), (''gateway'', g), (''proxy_type'', t),
      (''country'', c), (''state'', optional raw ''state''), (''city'', optional raw ''city''),
      (''asn'', optional raw ''asn''), (''strict_off'', flag raw ''strict_off''),
      (''lifetime_minutes'', int_str l)]"
    by (auto simp: geonode_normalize_def bind_res_Inr_iff)
  note facts = required_Inr [OF parts(1)] required_Inr [OF parts(2)] one_of_Inr [OF parts(3)]
    one_of_Inr [OF parts(4)] country_Inr [OF parts(5)] whole_number_Inr [OF parts(6)]
  have "g \<in> fst ` set GATEWAY_HOST_BY_NAME" using facts by simp
  then obtain host where "map_of GATEWAY_HOST_BY_NAME g = Some host"
    by (metis domD dom_map_of_conv_image_fst)
  then show ?thesis
    using facts unfolding geonode_normalize_def geonode_build_def vals
    by (simp add: schema_at lookup_key_def to_int_def py_int_int_str)
qed

lemma dataimpulse_normalize_stable:
  assumes "dataimpulse_normalize raw = Inr vals"
  shows "dataimpulse_normalize (map_of vals) = Inr vals \<and> (\<exists>c. dataimpulse_build (map_of vals) = Inr c)"
proof -
  from assms obtain u p c l where
    parts: "required raw ''username'' = Inr u" "required raw ''password'' = Inr p"
      "country_code raw ''country'' True = Inr c" "whole_number raw ''session_minutes'' 1 1440 = Inr l"
    and vals: "vals = [(''username'', u), (''password'', p), (''country'', c),
      (''session_minutes'', int_str l)]"
    by (auto simp: dataimpulse_normalize_def bind_res_Inr_iff)
  note facts = required_Inr [OF parts(1)] required_Inr [OF parts(2)] country_Inr [OF parts(3)]
    whole_number_Inr [OF parts(4)]
  then show ?thesis
    unfolding dataimpulse_normalize_def dataimpulse_build_def vals
    by (simp add: schema_at lookup_key_def to_int_def py_int_int_str)
qed

section \<open>Properties\<close>

lemma spec_for_cases: "spec_for name = Inr spec \<Longrightarrow> spec = GEONODE \<or> spec = DATAIMPULSE"
  by (auto simp: spec_for_def PROVIDERS_def config_error_def split: if_splits)

text \<open>A configuration a provider's schema accepted is a fixed point of the schema: stored and
  read back, it normalises to itself, and building the provider from it raises nothing.\<close>

theorem normalize_stable:
  assumes "spec_for name = Inr spec" "sp_normalize spec raw = Inr vals"
  shows "sp_normalize spec (map_of vals) = Inr vals \<and> (\<exists>p. sp_build spec (map_of vals) = Inr p)"
proof -
  from spec_for_cases [OF assms(1)] show ?thesis
  proof
    assume "spec = GEONODE"
    then show ?thesis using geonode_normalize_stable [of raw vals] assms(2)
      by (auto simp: GEONODE_def)
  next
    assume "spec = DATAIMPULSE"
    then show ?thesis using dataimpulse_normalize_stable [of raw vals] assms(2)
      by (auto simp: DATAIMPULSE_def)
  qed
qed

definition sample_raw :: raw_values where
  "sample_raw = [''username'' \<mapsto> '' ana '', ''password'' \<mapsto> ''pw'', ''country'' \<mapsto> ''PE'',
                 ''session_minutes'' \<mapsto> ''0_7'']"

definition sample_stored :: py_dict where
  "sample_stored = [(''username'', ''ana''), (''password'', ''pw''), (''country'', ''pe''),
                    (''session_minutes'', ''7'')]"

lemma sample_normalized: "sp_normalize DATAIMPULSE sample_raw = Inr sample_stored"
  by code_simp

lemma spec_for_dataimpulse: "spec_for ''dataimpulse'' = Inr DATAIMPULSE"
  by (simp add: spec_for_def PROVIDERS_def GEONODE_def DATAIMPULSE_def)

theorem normalize_stable_witness:
  "sp_normalize DATAIMPULSE (map_of sample_stored) = Inr sample_stored
   \<and> (\<exists>p. sp_build DATAIMPULSE (map_of sample_stored) = Inr p)"
  by (rule normalize_stable [OF spec_for_dataimpulse sample_normalized])

lemma int_str_inject: "0 \<le> i \<Longrightarrow> 0 \<le> j \<Longrightarrow> int_str i = int_str j \<longleftrightarrow> i = j"
  by (auto simp: int_str_def nat_str_inject)

text \<open>A GeoNode session opens exactly for the slots 1 to 901, on a port of the sticky range;
  two sessions share a port only when they hold the same slot.\<close>

theorem geonode_slots:
  "((\<exists>a. geonode_new_session c s h = Inr a) \<longleftrightarrow> 1 \<le> s \<and> s \<le> 901)
   \<and> (\<forall>a. geonode_new_session c s h = Inr a \<longrightarrow>
        (\<exists>port. ps_port a = int_str port \<and> 10000 \<le> port \<and> port \<le> 10900))
   \<and> (\<forall>a b. geonode_new_session c s h = Inr a \<longrightarrow> geonode_new_session d t g = Inr b
        \<longrightarrow> (ps_port a = ps_port b \<longleftrightarrow> s = t))"
proof -
  note defs = geonode_new_session_def slot_port_def HTTP_STICKY_SLOT_COUNT_def
    HTTP_STICKY_PORT_MIN_def HTTP_STICKY_PORT_MAX_def Let_def
  have one: "(\<exists>a. geonode_new_session c s h = Inr a) \<longleftrightarrow> 1 \<le> s \<and> s \<le> 901"
    by (auto simp: defs)
  have port: "1 \<le> s \<and> s \<le> 901 \<and> ps_port a = int_str (9999 + s)"
    if "geonode_new_session c s h = Inr a" for c s h a
    using that by (auto simp: defs split: if_splits)
  have two: "\<exists>port. ps_port a = int_str port \<and> 10000 \<le> port \<and> port \<le> 10900"
    if "geonode_new_session c s h = Inr a" for a
    using port [OF that] by (intro exI [of _ "9999 + s"]) auto
  have three: "ps_port a = ps_port b \<longleftrightarrow> s = t"
    if "geonode_new_session c s h = Inr a" "geonode_new_session d t g = Inr b" for a b
    using port [OF that(1)] port [OF that(2)] int_str_inject [of "9999 + s" "9999 + t"] by auto
  show ?thesis using one two three by blast
qed

theorem geonode_slots_witness:
  "\<exists>a b. geonode_new_session \<lparr>gn_user = ''u'', gn_password = ''p'', gn_host = ''h'',
           gn_proxy_type = ''mix'', gn_country = ''PE'', gn_state = [], gn_city = [], gn_asn = [],
           gn_strict_off = False, gn_lifetime = 10\<rparr> 1 ''0a0b0c0d'' = Inr a
       \<and> geonode_new_session \<lparr>gn_user = ''u'', gn_password = ''p'', gn_host = ''h'',
           gn_proxy_type = ''mix'', gn_country = ''PE'', gn_state = [], gn_city = [], gn_asn = [],
           gn_strict_off = False, gn_lifetime = 10\<rparr> 901 ''0a0b0c0e'' = Inr b
       \<and> ps_port a \<noteq> ps_port b"
proof -
  define c where "c = \<lparr>gn_user = ''u'', gn_password = ''p'', gn_host = ''h'',
           gn_proxy_type = ''mix'', gn_country = ''PE'', gn_state = [], gn_city = [], gn_asn = [],
           gn_strict_off = False, gn_lifetime = 10\<rparr>"
  obtain a b where ab: "geonode_new_session c 1 ''0a0b0c0d'' = Inr a"
    "geonode_new_session c 901 ''0a0b0c0e'' = Inr b"
    using geonode_slots [of c 1 "''0a0b0c0d''", THEN conjunct1]
      geonode_slots [of c 901 "''0a0b0c0e''", THEN conjunct1] by auto
  moreover have "ps_port a \<noteq> ps_port b"
    using geonode_slots [of c 1 "''0a0b0c0d''" c 901 "''0a0b0c0e''"] ab by auto
  ultimately show ?thesis unfolding c_def by blast
qed

lemma extract_from_valid: "extract_from kvs keys \<noteq> [] \<Longrightarrow> is_valid_ip (extract_from kvs keys)"
  by (induction keys) (auto simp: Let_def split: json.splits)

lemma probe_ip_valid: "probe_ip r = Inr v \<Longrightarrow> v \<noteq> [] \<Longrightarrow> is_valid_ip v"
  by (auto simp: probe_ip_def extract_ip_def extract_from_valid simp del: extract_from.simps
      split: http_result.splits if_splits option.splits json.splits)

lemma probe_round_result:
  "probe_round reply n urls = Inr (m, v) \<Longrightarrow>
     n \<le> m \<and> m \<le> n + length urls \<and> (v \<noteq> [] \<longrightarrow> is_valid_ip v) \<and> (v = [] \<longrightarrow> m = n + length urls)"
  by (induction urls arbitrary: n)
    (fastforce simp: bind_res_Inr_iff dest: probe_ip_valid split: if_splits)+

lemma probe_rounds_result:
  "probe_rounds reply n k = Inr (m, v) \<Longrightarrow>
     m \<le> n + 3 * k \<and> (v \<noteq> [] \<longrightarrow> is_valid_ip v) \<and> (v = [] \<longrightarrow> m = n + 3 * k)"
proof (induction k arbitrary: n)
  case 0
  then show ?case by simp
next
  case (Suc k)
  obtain m1 v1 where r: "probe_round reply n IP_PROBE_URLS = Inr (m1, v1)"
    and rest: "(if v1 \<noteq> [] then Inr (m1, v1) else probe_rounds reply m1 k) = Inr (m, v)"
    using Suc.prems by (auto simp: bind_res_Inr_iff)
  have "length IP_PROBE_URLS = 3" by (simp add: IP_PROBE_URLS_def)
  with probe_round_result [OF r] rest Suc.IH [of m1] show ?case
    by (cases "v1 = []") auto
qed

lemma release_attempts_bound:
  "release_attempts reply k n last_seen = Inr (m, failure) \<Longrightarrow> 1 \<le> n \<Longrightarrow> m \<le> n + k - 1"
proof (induction k arbitrary: n last_seen)
  case 0
  then show ?case by simp
next
  case (Suc k)
  obtain ok status err where "release_sticky_session (reply n) = Inr (ok, status, err)"
    and "(if ok then Inr (n, None) else release_attempts reply k (n + 1) (status, err)) = Inr (m, failure)"
    using Suc.prems(1) by (auto simp: bind_res_Inr_iff)
  then show ?case using Suc.IH [of "n + 1" "(status, err)"] Suc.prems(2)
    by (cases ok) auto
qed

lemma geonode_release_bound: "geonode_release reply = Inr (n, failure) \<Longrightarrow> n \<le> 3"
  using release_attempts_bound [of reply 3 1 "(0, [])" n failure]
  by (simp add: geonode_release_def RELEASE_RETRIES_def)

text \<open>The probe makes at most nine requests, all nine when it finds no address, and what it
  returns is an IPv4 or IPv6 address; so a preflight that succeeds returns one, never an empty text.
  A release makes at most three requests.\<close>

theorem egress_address:
  "(\<forall>n ip. resolve_egress_ip reply = Inr (n, ip) \<longrightarrow>
      n \<le> 9 \<and> (ip = [] \<longrightarrow> n = 9) \<and> (ip \<noteq> [] \<longrightarrow> is_valid_ip ip))
   \<and> (\<forall>ip. preflight name raw hex8 reply released = Inr ip \<longrightarrow> ip \<noteq> [] \<and> is_valid_ip ip)
   \<and> (\<forall>n failure. geonode_release released = Inr (n, failure) \<longrightarrow> n \<le> 3)"
proof -
  have one: "n \<le> 9 \<and> (ip = [] \<longrightarrow> n = 9) \<and> (ip \<noteq> [] \<longrightarrow> is_valid_ip ip)"
    if "resolve_egress_ip reply = Inr (n, ip)" for n ip
    using probe_rounds_result [of reply 0 3 n ip] that by (simp add: resolve_egress_ip_def)
  have two: "ip \<noteq> [] \<and> is_valid_ip ip"
    if "preflight name raw hex8 reply released = Inr ip" for ip
    using that one by (auto simp: preflight_def Let_def bind_res_Inr_iff config_error_def split: if_splits)
  show ?thesis using one two geonode_release_bound by blast
qed

definition ip_answer :: "nat \<Rightarrow> pystr \<Rightarrow> http_result" where
  "ip_answer n url =
     (if n < 4 then HttpRaise (raise_exn TransientTransportError ''down'')
      else HttpResponse 200 (char_of (123 :: nat) # dumps_str ''ip'' @ '':'' @ dumps_str ''2001:db8::7''
             @ [char_of (125 :: nat)]))"

lemma ip_answer_run: "resolve_egress_ip ip_answer = Inr (5, ''2001:db8::7'')"
  by code_simp

theorem egress_address_witness:
  "is_valid_ip ''2001:db8::7'' \<and> resolve_egress_ip ip_answer = Inr (5, ''2001:db8::7'')"
  using egress_address [of ip_answer] ip_answer_run by blast

end
