(* ===== verification/Fetch.thy ===== *)
theory Fetch
  imports Breaker Proxy
begin

text \<open>
  One lane looking one document up: \<open>core/pipeline/session.py\<close> and \<open>fetch.py\<close>. What the outside
  does during an attempt is its \<open>attempt_env\<close>: the times read from the clocks, the breaker calls
  other lanes make while this one is suspended, what the site's \<open>ready\<close> and \<open>lookup\<close> and the
  HTTP requests answer. \<open>trace\<close> lists the proxy sessions handed out and released. The observer of the
  breaker is taken not to raise, as in \<open>Breaker\<close>.
\<close>

section \<open>Sessions\<close>

record worker_config =
  wc_session_budget :: int
  wc_wait_min_s :: seconds
  wc_wait_max_s :: seconds
  wc_ban_cooldown_s :: seconds

record worker_session =
  ws_proxy :: proxy_session
  ws_session_id :: pystr
  ws_egress_ip :: pystr

record worker_state =
  st_session :: "worker_session option"
  st_cooldown_until :: seconds
  st_uses :: int
  st_last_proxy_id :: pystr

definition new_worker_state :: worker_state where
  "new_worker_state = \<lparr>st_session = None, st_cooldown_until = 0, st_uses = 0, st_last_proxy_id = []\<rparr>"

datatype session_event = Acquired proxy_session | Released proxy_session

text \<open>How closing the client and releasing the session go.\<close>

record close_env =
  ce_aclose :: "exn option"
  ce_release :: "nat \<Rightarrow> http_result"

text \<open>Closing the client, then releasing; the second is skipped when the first raises.\<close>

definition close_and_release ::
  "provider \<Rightarrow> proxy_session \<Rightarrow> close_env \<Rightarrow> session_event list \<times> exn option" where
  "close_and_release p proxy ce =
     (case ce_aclose ce of
        Some e \<Rightarrow> ([], Some e)
      | None \<Rightarrow>
          (case release p (ce_release ce) of
             Inl e \<Rightarrow> ([Released proxy], Some e)
           | Inr _ \<Rightarrow> ([Released proxy], None)))"

definition close_session ::
  "provider \<Rightarrow> close_env \<Rightarrow> worker_state \<Rightarrow> worker_state \<times> session_event list \<times> exn option" where
  "close_session p ce st =
     (case st_session st of
        None \<Rightarrow> (st, [], None)
      | Some session \<Rightarrow>
          let st = st\<lparr>st_session := None\<rparr>;
              (tr, err) = close_and_release p (ws_proxy session) ce
          in (st, tr, err))"

record open_env =
  oe_hex8 :: pystr
  oe_session_id :: pystr
  oe_build :: "exn option"
  oe_ready :: "exn option"
  oe_probe :: "nat \<Rightarrow> pystr \<Rightarrow> http_result"
  oe_close :: close_env

text \<open>
  The client is built outside the \<open>try\<close>: when that raises, the session just handed out is not released.
\<close>

definition open_session ::
  "provider \<Rightarrow> int \<Rightarrow> open_env \<Rightarrow> session_event list \<times> (exn + worker_session)" where
  "open_session p slot_id oe =
     (case new_session p slot_id (oe_hex8 oe) of
        Inl e \<Rightarrow> ([], Inl e)
      | Inr proxy \<Rightarrow>
          (case oe_build oe of
             Some e \<Rightarrow> ([Acquired proxy], Inl e)
           | None \<Rightarrow>
               let opened = (case oe_ready oe of Some e \<Rightarrow> Inl e | None \<Rightarrow> resolve_egress_ip (oe_probe oe))
               in case opened of
                    Inl e \<Rightarrow>
                      let (tr, err) = close_and_release p proxy (oe_close oe)
                      in (Acquired proxy # tr, Inl (case err of None \<Rightarrow> e | Some e' \<Rightarrow> e'))
                  | Inr (n, egress_ip) \<Rightarrow>
                      ([Acquired proxy],
                       Inr \<lparr>ws_proxy = proxy, ws_session_id = oe_session_id oe, ws_egress_ip = egress_ip\<rparr>)))"

text \<open>The first component is how long it sleeps before opening.\<close>

definition ensure_session ::
  "provider \<Rightarrow> int \<Rightarrow> seconds \<Rightarrow> open_env \<Rightarrow> worker_state
     \<Rightarrow> seconds \<times> worker_state \<times> session_event list \<times> (exn + worker_session)" where
  "ensure_session p slot_id now oe st =
     (case st_session st of
        Some session \<Rightarrow> (0, st, [], Inr session)
      | None \<Rightarrow>
          let remaining = st_cooldown_until st - now;
              slept = (if 0 < remaining then remaining else 0)
          in case open_session p slot_id oe of
               (tr, Inl e) \<Rightarrow> (slept, st, tr, Inl e)
             | (tr, Inr session) \<Rightarrow>
                 (slept, st\<lparr>st_session := Some session, st_uses := 0\<rparr>, tr, Inr session))"

text \<open>Its pause between two lookups of one session changes nothing and is not represented.\<close>

definition after_success ::
  "provider \<Rightarrow> worker_config \<Rightarrow> close_env \<Rightarrow> worker_state
     \<Rightarrow> worker_state \<times> session_event list \<times> exn option" where
  "after_success p cfg ce st =
     (case st_session st of
        None \<Rightarrow> (st, [], None)
      | Some _ \<Rightarrow>
          let st = st\<lparr>st_uses := st_uses st + 1\<rparr>
          in if wc_session_budget cfg \<le> st_uses st then close_session p ce st else (st, [], None))"

definition rotate_session ::
  "provider \<Rightarrow> seconds \<Rightarrow> close_env \<Rightarrow> seconds \<Rightarrow> worker_state
     \<Rightarrow> worker_state \<times> session_event list \<times> exn option" where
  "rotate_session p cooldown_s ce now st =
     (let st = (case st_session st of
                  None \<Rightarrow> st
                | Some session \<Rightarrow> st\<lparr>st_last_proxy_id := ps_proxy_id (ws_proxy session)\<rparr>)
      in case close_session p ce st of
           (st, tr, Some e) \<Rightarrow> (st, tr, Some e)
         | (st, tr, None) \<Rightarrow>
             if 0 < cooldown_s
             then (st\<lparr>st_cooldown_until := max (st_cooldown_until st) (now + cooldown_s)\<rparr>, tr, None)
             else (st, tr, None))"

definition session_ids :: "worker_state \<Rightarrow> pystr \<times> pystr" where
  "session_ids st =
     (case st_session st of
        None \<Rightarrow> ([], st_last_proxy_id st)
      | Some session \<Rightarrow> (ws_session_id session, ps_proxy_id (ws_proxy session)))"

section \<open>The fetch loop\<close>

text \<open>
  The breaker is one object shared by the lanes of a provider. Other lanes only call
  \<open>record_success\<close> and \<open>record_failure\<close> on it, while this lane is suspended.
\<close>

datatype lane_event = OtherSuccess | OtherFailure clock

fun other_lane :: "lane_event \<Rightarrow> breaker \<Rightarrow> breaker" where
  "other_lane OtherSuccess b = fst (record_success b)"
| "other_lane (OtherFailure now) b = fst (record_failure now b)"

fun other_lanes :: "lane_event list \<Rightarrow> breaker \<Rightarrow> breaker" where
  "other_lanes [] b = b"
| "other_lanes (ev # evs) b = other_lanes evs (other_lane ev b)"

record attempt_env =
  ae_first_check :: seconds
  ae_wakes :: "(lane_event list \<times> seconds) list"
  ae_ensure_now :: seconds
  ae_open :: open_env
  ae_lookup :: "exn + row list"
  ae_during :: "lane_event list"
  ae_elapsed_s :: real
  ae_record_now :: clock
  ae_close :: close_env
  ae_rotate_now :: seconds
  ae_rotating :: "lane_event list"
  ae_open_check :: seconds

text \<open>What \<open>acquire\<close> sees on each turn: the breaker as the others left it, and the clock.\<close>

fun observations :: "breaker \<Rightarrow> seconds \<Rightarrow> (lane_event list \<times> seconds) list \<Rightarrow> (breaker \<times> seconds) list" where
  "observations b now [] = [(b, now)]"
| "observations b now ((evs, wake) # wakes) = (b, now) # observations (other_lanes evs b) wake wakes"

record lane =
  ln_state :: worker_state
  ln_breaker :: breaker
  ln_snapshots :: "breaker_state list"
  ln_trace :: "session_event list"

datatype fetch_end = Waiting | Raised exn | Returned result

record fetch_params =
  fp_site :: site
  fp_provider :: provider
  fp_slot_id :: int
  fp_doc :: doc
  fp_cfg :: worker_config

definition enforce_allows_empty :: "site \<Rightarrow> row list \<Rightarrow> exn option" where
  "enforce_allows_empty s rows =
     (if rows \<noteq> [] \<or> site_allows_empty s then None
      else Some (raise_exn ProviderSchemaError
             (site_name s @ '' returned no rows but disallows empty results'')))"

definition elapsed_ms :: "attempt_env \<Rightarrow> int" where
  "elapsed_ms env = py_trunc (ae_elapsed_s env * 1000)"

text \<open>The suppressed cleanup: its state change and trace stay, its exception does not.\<close>

definition lane_cleanup :: "lane \<Rightarrow> worker_state \<times> session_event list \<times> exn option \<Rightarrow> lane" where
  "lane_cleanup la r =
     (case r of (st, tr, _) \<Rightarrow> la\<lparr>ln_state := st, ln_trace := ln_trace la @ tr\<rparr>)"

definition lane_record_success :: "lane \<Rightarrow> lane" where
  "lane_record_success la =
     (let (b, snaps) = record_success (ln_breaker la)
      in la\<lparr>ln_breaker := b, ln_snapshots := ln_snapshots la @ snaps\<rparr>)"

definition succeed_attempt ::
  "fetch_params \<Rightarrow> attempt_env \<Rightarrow> nat \<Rightarrow> attempt_outcome list \<Rightarrow> worker_session \<Rightarrow> row list \<Rightarrow> lane
     \<Rightarrow> fetch_end \<times> lane" where
  "succeed_attempt fp env attempt attempts session rows la =
     (let attempts = attempts @ [\<lparr>ao_attempt = attempt, ao_status = OK,
                                   ao_elapsed_ms = elapsed_ms env, ao_error_code = []\<rparr>];
          r = \<lparr>res_doc = fp_doc fp, res_site = site_name (fp_site fp), res_status = OK,
               res_rows = rows, res_error_code = [], res_error_detail = [],
               res_made_healthy_contact = True, res_http_session_id = ws_session_id session,
               res_proxy_id = ps_proxy_id (ws_proxy session),
               res_provider = provider_name (fp_provider fp), res_attempt = attempt,
               res_attempts = attempts\<rparr>;
          la = lane_record_success la;
          la = lane_cleanup la (after_success (fp_provider fp) (fp_cfg fp) (ae_close env) (ln_state la))
      in (Returned r, la))"

text \<open>
  The handler of \<open>RucNotFoundError\<close> uses the local \<open>session\<close>, which is unbound when the very
  first \<open>ensure_session\<close> raised that error, and stale when a later one did.
\<close>

definition not_found_attempt ::
  "fetch_params \<Rightarrow> attempt_env \<Rightarrow> nat \<Rightarrow> attempt_outcome list \<Rightarrow> worker_session option \<Rightarrow> lane
     \<Rightarrow> fetch_end \<times> lane" where
  "not_found_attempt fp env attempt attempts bound la =
     (case bound of
        None \<Rightarrow>
          (Raised (raise_exn (BuiltinError ''UnboundLocalError'')
             ''cannot access local variable 'session' where it is not associated with a value''), la)
      | Some session \<Rightarrow>
          let attempts = attempts @ [\<lparr>ao_attempt = attempt, ao_status = NOT_FOUND,
                                        ao_elapsed_ms = elapsed_ms env, ao_error_code = []\<rparr>];
              r = \<lparr>res_doc = fp_doc fp, res_site = site_name (fp_site fp), res_status = NOT_FOUND,
                   res_rows = [], res_error_code = [], res_error_detail = [],
                   res_made_healthy_contact = True, res_http_session_id = ws_session_id session,
                   res_proxy_id = ps_proxy_id (ws_proxy session),
                   res_provider = provider_name (fp_provider fp), res_attempt = attempt,
                   res_attempts = attempts\<rparr>;
              la = lane_record_success la;
              la = lane_cleanup la (after_success (fp_provider fp) (fp_cfg fp) (ae_close env) (ln_state la))
          in (Returned r, la))"

text \<open>The last component is the list of attempts when the loop goes on.\<close>

definition fail_attempt ::
  "fetch_params \<Rightarrow> attempt_env \<Rightarrow> nat \<Rightarrow> attempt_outcome list \<Rightarrow> exn \<Rightarrow> lane
     \<Rightarrow> fetch_end option \<times> lane \<times> attempt_outcome list" where
  "fail_attempt fp env attempt attempts e la =
     (let decision = classify_exception e (wc_ban_cooldown_s (fp_cfg fp));
          (session_id, proxy_id) = session_ids (ln_state la);
          attempts = attempts @ [\<lparr>ao_attempt = attempt, ao_status = FAILED,
                                    ao_elapsed_ms = elapsed_ms env,
                                    ao_error_code = rd_error_code decision\<rparr>];
          (b, snaps, err) = record_failure (ae_record_now env) (ln_breaker la);
          la = la\<lparr>ln_breaker := b, ln_snapshots := ln_snapshots la @ snaps\<rparr>
      in case err of
           Some overflow \<Rightarrow> (Some (Raised overflow), la, attempts)
         | None \<Rightarrow>
             let la = lane_cleanup la (rotate_session (fp_provider fp) (rd_cooldown_s decision)
                                         (ae_close env) (ae_rotate_now env) (ln_state la));
                 la = la\<lparr>ln_breaker := other_lanes (ae_rotating env) (ln_breaker la)\<rparr>
             in if MAX_ATTEMPTS \<le> attempt
                then (Some (Returned
                       \<lparr>res_doc = fp_doc fp, res_site = site_name (fp_site fp), res_status = FAILED,
                        res_rows = [], res_error_code = rd_error_code decision,
                        res_error_detail = exn_text e,
                        res_made_healthy_contact = (\<not> is_open (ln_breaker la) (ae_open_check env)),
                        res_http_session_id = session_id, res_proxy_id = proxy_id,
                        res_provider = provider_name (fp_provider fp), res_attempt = attempt,
                        res_attempts = attempts\<rparr>), la, attempts)
                else (None, la, attempts))"

text \<open>
  The body of the \<open>try\<close> up to the lookup: what was looked up or raised, and the local
  \<open>session\<close> after it.
\<close>

definition try_lookup ::
  "fetch_params \<Rightarrow> attempt_env \<Rightarrow> worker_session option \<Rightarrow> lane
     \<Rightarrow> (exn + worker_session \<times> row list) \<times> worker_session option \<times> lane" where
  "try_lookup fp env bound la =
     (case ensure_session (fp_provider fp) (fp_slot_id fp) (ae_ensure_now env) (ae_open env) (ln_state la) of
        (slept, st, tr, opened) \<Rightarrow>
          let la = la\<lparr>ln_state := st, ln_trace := ln_trace la @ tr,
                      ln_breaker := other_lanes (ae_during env) (ln_breaker la)\<rparr>
          in case opened of
               Inl e \<Rightarrow> (Inl e, bound, la)
             | Inr session \<Rightarrow>
                 (case ae_lookup env of
                    Inl e \<Rightarrow> (Inl e, Some session, la)
                  | Inr rows \<Rightarrow>
                      (case enforce_allows_empty (fp_site fp) rows of
                         Some e \<Rightarrow> (Inl e, Some session, la)
                       | None \<Rightarrow> (Inr (session, rows), Some session, la))))"

fun fetch_loop ::
  "fetch_params \<Rightarrow> attempt_env list \<Rightarrow> nat \<Rightarrow> attempt_outcome list \<Rightarrow> worker_session option \<Rightarrow> lane
     \<Rightarrow> fetch_end \<times> lane" where
  "fetch_loop fp [] attempt attempts bound la = (Waiting, la)"
| "fetch_loop fp (env # envs) attempt attempts bound la =
     (case acquire (observations (ln_breaker la) (ae_first_check env) (ae_wakes env)) of
        None \<Rightarrow> (Waiting, la)
      | Some (b, now) \<Rightarrow>
          (case try_lookup fp env bound (la\<lparr>ln_breaker := b\<rparr>) of
             (Inr (session, rows), bound, la) \<Rightarrow>
               succeed_attempt fp env attempt attempts session rows la
           | (Inl e, bound, la) \<Rightarrow>
               if isinstance e RucNotFoundError
               then not_found_attempt fp env attempt attempts bound la
               else
                 (case fail_attempt fp env attempt attempts e la of
                    (Some finished, la, _) \<Rightarrow> (finished, la)
                  | (None, la, attempts) \<Rightarrow> fetch_loop fp envs (attempt + 1) attempts bound la)))"

definition fetch_one :: "fetch_params \<Rightarrow> attempt_env list \<Rightarrow> lane \<Rightarrow> fetch_end \<times> lane" where
  "fetch_one fp envs la = fetch_loop fp envs 1 [] None la"

section \<open>Shape of the attempts\<close>

definition attempts_numbered :: "attempt_outcome list \<Rightarrow> bool" where
  "attempts_numbered ats \<longleftrightarrow> map ao_attempt ats = [1..<length ats + 1]"

lemma attempts_numbered_snoc:
  "attempts_numbered (ats @ [a]) \<longleftrightarrow> attempts_numbered ats \<and> ao_attempt a = length ats + 1"
  by (auto simp: attempts_numbered_def)

lemma attempts_numbered_Nil: "attempts_numbered []"
  by (simp add: attempts_numbered_def)

text \<open>What a finished lookup says of its attempts.\<close>

definition result_shape :: "fetch_params \<Rightarrow> result \<Rightarrow> bool" where
  "result_shape fp r \<longleftrightarrow>
     res_attempt r = length (res_attempts r) \<and> 1 \<le> res_attempt r \<and> res_attempt r \<le> MAX_ATTEMPTS \<and>
     attempts_numbered (res_attempts r) \<and>
     list_all (\<lambda>a. ao_status a = FAILED) (butlast (res_attempts r)) \<and>
     ao_status (last (res_attempts r)) = res_status r \<and>
     ao_error_code (last (res_attempts r)) = res_error_code r \<and>
     (res_status r = FAILED \<longrightarrow> res_attempt r = MAX_ATTEMPTS) \<and>
     (res_status r \<noteq> OK \<longrightarrow> res_rows r = []) \<and>
     (res_status r = OK \<longrightarrow> enforce_allows_empty (fp_site fp) (res_rows r) = None) \<and>
     res_doc r = fp_doc fp \<and> res_site r = site_name (fp_site fp) \<and>
     res_provider r = provider_name (fp_provider fp)"

definition attempts_so_far :: "nat \<Rightarrow> attempt_outcome list \<Rightarrow> bool" where
  "attempts_so_far n ats \<longleftrightarrow>
     length ats + 1 = n \<and> n \<le> MAX_ATTEMPTS \<and> attempts_numbered ats
     \<and> list_all (\<lambda>a. ao_status a = FAILED) ats"

lemma try_lookup_rows:
  "try_lookup fp env bound la = (Inr (session, rows), bound', la')
     \<Longrightarrow> enforce_allows_empty (fp_site fp) rows = None"
  by (auto simp: try_lookup_def Let_def split: prod.splits sum.splits option.splits)

lemma succeed_shape:
  assumes "succeed_attempt fp env n ats session rows la = (Returned r, la')"
    "attempts_so_far n ats" "enforce_allows_empty (fp_site fp) rows = None"
  shows "result_shape fp r"
  using assms
  by (auto simp: succeed_attempt_def Let_def result_shape_def attempts_so_far_def attempts_numbered_snoc)

lemma not_found_shape:
  assumes "not_found_attempt fp env n ats bound la = (Returned r, la')" "attempts_so_far n ats"
  shows "result_shape fp r"
  using assms
  by (auto simp: not_found_attempt_def Let_def result_shape_def attempts_so_far_def
      attempts_numbered_snoc split: option.splits)

lemma fail_shape:
  assumes "fail_attempt fp env n ats e la = (fin, la', ats')" "attempts_so_far n ats"
  shows "(\<forall>r. fin = Some (Returned r) \<longrightarrow> result_shape fp r) \<and> fin \<noteq> Some Waiting
     \<and> (fin = None \<longrightarrow> attempts_so_far (n + 1) ats')"
  using assms
  by (auto simp: fail_attempt_def Let_def result_shape_def attempts_so_far_def attempts_numbered_snoc
      split: option.splits prod.splits if_splits)

lemma fetch_loop_shape:
  assumes "fetch_loop fp envs n ats bound la = (Returned r, la')" "attempts_so_far n ats"
  shows "result_shape fp r"
  using assms
proof (induction envs arbitrary: n ats bound la)
  case Nil
  then show ?case by simp
next
  case (Cons env envs)
  obtain b now where acq:
    "acquire (observations (ln_breaker la) (ae_first_check env) (ae_wakes env)) = Some (b, now)"
    using Cons.prems(1) by (auto split: option.splits)
  obtain out bound1 la1 where tr: "try_lookup fp env bound (la\<lparr>ln_breaker := b\<rparr>) = (out, bound1, la1)"
    by (cases "try_lookup fp env bound (la\<lparr>ln_breaker := b\<rparr>)") auto
  show ?case
  proof (cases out)
    case (Inr sr)
    then show ?thesis
      using Cons.prems acq tr by (cases sr) (auto intro: succeed_shape try_lookup_rows)
  next
    case (Inl e)
    show ?thesis
    proof (cases "isinstance e RucNotFoundError")
      case True
      then show ?thesis
        using Cons.prems acq tr Inl by (auto intro: not_found_shape)
    next
      case False
      obtain fin la2 ats2 where f: "fail_attempt fp env n ats e la1 = (fin, la2, ats2)"
        by (cases "fail_attempt fp env n ats e la1") auto
      note sh = fail_shape [OF f Cons.prems(2)]
      show ?thesis
        using Cons.prems(1) acq tr Inl False f sh
        by (cases fin) (auto intro: Cons.IH)
    qed
  qed
qed

section \<open>Sessions are released before the next one opens\<close>

fun run_trace :: "proxy_session option \<Rightarrow> session_event list \<Rightarrow> proxy_session option option" where
  "run_trace cur [] = Some cur"
| "run_trace cur (Acquired p # tr) = (if cur = None then run_trace (Some p) tr else None)"
| "run_trace cur (Released p # tr) = (if cur = Some p then run_trace None tr else None)"

lemma run_trace_append:
  "run_trace cur (a @ b) = (case run_trace cur a of None \<Rightarrow> None | Some c \<Rightarrow> run_trace c b)"
  by (induction cur a rule: run_trace.induct) auto

definition trace_matches :: "lane \<Rightarrow> bool" where
  "trace_matches la \<longleftrightarrow> run_trace None (ln_trace la) = Some (map_option ws_proxy (st_session (ln_state la)))"

definition clients_clean :: "attempt_env \<Rightarrow> bool" where
  "clients_clean env \<longleftrightarrow>
     oe_build (ae_open env) = None \<and> ce_aclose (ae_close env) = None \<and> ce_aclose (oe_close (ae_open env)) = None"

lemma close_session_trace:
  "close_session p ce st = (st', tr, err) \<Longrightarrow> ce_aclose ce = None \<Longrightarrow>
     st_session st' = None \<and> run_trace (map_option ws_proxy (st_session st)) tr = Some None"
  by (auto simp: close_session_def close_and_release_def split: option.splits sum.splits prod.splits)

lemma after_success_trace:
  "after_success p cfg ce st = (st', tr, err) \<Longrightarrow> ce_aclose ce = None \<Longrightarrow>
     run_trace (map_option ws_proxy (st_session st)) tr = Some (map_option ws_proxy (st_session st'))"
  using close_session_trace [of p ce "st\<lparr>st_uses := st_uses st + 1\<rparr>" st' tr err]
  by (auto simp: after_success_def Let_def split: option.splits if_splits)

lemma rotate_session_trace:
  assumes "rotate_session p cooldown ce now st = (st', tr, err)" "ce_aclose ce = None"
  shows "st_session st' = None \<and> run_trace (map_option ws_proxy (st_session st)) tr = Some None"
proof -
  let ?st = "case st_session st of None \<Rightarrow> st
    | Some session \<Rightarrow> st\<lparr>st_last_proxy_id := ps_proxy_id (ws_proxy session)\<rparr>"
  have same: "st_session ?st = st_session st" by (auto split: option.splits)
  obtain st1 tr1 err1 where c: "close_session p ce ?st = (st1, tr1, err1)"
    by (cases "close_session p ce ?st") auto
  have "st_session st' = st_session st1 \<and> tr = tr1"
    using assms(1) c unfolding rotate_session_def Let_def
    by (auto split: option.splits if_splits)
  then show ?thesis using close_session_trace [OF c assms(2)] same by simp
qed

lemma ensure_session_trace:
  assumes "ensure_session p slot now oe st = (slept, st', tr, res)" "oe_build oe = None" "ce_aclose (oe_close oe) = None"
  shows "run_trace (map_option ws_proxy (st_session st)) tr = Some (map_option ws_proxy (st_session st'))"
  using assms
  by (auto simp: ensure_session_def open_session_def close_and_release_def Let_def
      split: option.splits sum.splits prod.splits)

lemma trace_matches_step:
  assumes "trace_matches la" "run_trace (map_option ws_proxy (st_session (ln_state la))) tr
     = Some (map_option ws_proxy (st_session st))" "ln_trace la' = ln_trace la @ tr" "ln_state la' = st"
  shows "trace_matches la'"
  using assms by (simp add: trace_matches_def run_trace_append)

lemma try_lookup_trace:
  assumes "try_lookup fp env bound la = (out, bound', la')" "trace_matches la" "clients_clean env"
  shows "trace_matches la'"
proof -
  obtain slept st tr opened where e: "ensure_session (fp_provider fp) (fp_slot_id fp)
      (ae_ensure_now env) (ae_open env) (ln_state la) = (slept, st, tr, opened)"
    by (metis prod_cases4)
  have "ln_trace la' = ln_trace la @ tr \<and> ln_state la' = st"
    using assms(1) e by (auto simp: try_lookup_def Let_def split: sum.splits option.splits)
  then show ?thesis
    using trace_matches_step [OF assms(2) ensure_session_trace [OF e]] assms(3)
    by (simp add: clients_clean_def)
qed

lemma lane_cleanup_trace:
  assumes "trace_matches la" "r = (st, tr, err)"
    "run_trace (map_option ws_proxy (st_session (ln_state la))) tr = Some (map_option ws_proxy (st_session st))"
  shows "trace_matches (lane_cleanup la r)"
  using assms by (simp add: lane_cleanup_def trace_matches_def run_trace_append)

lemma trace_matches_breaker [simp]:
  "trace_matches (la\<lparr>ln_breaker := b\<rparr>) = trace_matches la"
  "trace_matches (la\<lparr>ln_breaker := b, ln_snapshots := s\<rparr>) = trace_matches la"
  by (simp_all add: trace_matches_def)

lemma record_success_lane [simp]:
  "ln_state (lane_record_success la) = ln_state la"
  "ln_trace (lane_record_success la) = ln_trace la"
  by (simp_all add: lane_record_success_def split: prod.splits)

lemma trace_matches_success [simp]: "trace_matches (lane_record_success la) = trace_matches la"
  by (simp add: trace_matches_def)

lemma after_success_matches:
  assumes "trace_matches la" "ce_aclose ce = None"
  shows "trace_matches (lane_cleanup (lane_record_success la) (after_success p cfg ce (ln_state la)))"
proof -
  obtain st tr err where a: "after_success p cfg ce (ln_state la) = (st, tr, err)"
    by (metis prod_cases3)
  show ?thesis
    by (rule lane_cleanup_trace [OF _ a]) (use assms after_success_trace [OF a] in auto)
qed

lemma fail_attempt_trace:
  assumes "fail_attempt fp env n ats e la = (fin, la', ats')" "trace_matches la" "clients_clean env"
  shows "trace_matches la' \<and> (fin = None \<longrightarrow> st_session (ln_state la') = None)"
proof -
  obtain b snaps err where f: "record_failure (ae_record_now env) (ln_breaker la) = (b, snaps, err)"
    by (metis prod_cases3)
  let ?la = "la\<lparr>ln_breaker := b, ln_snapshots := ln_snapshots la @ snaps\<rparr>"
  let ?d = "classify_exception e (wc_ban_cooldown_s (fp_cfg fp))"
  obtain st tr err2 where r: "rotate_session (fp_provider fp) (rd_cooldown_s ?d) (ae_close env)
      (ae_rotate_now env) (ln_state ?la) = (st, tr, err2)"
    by (metis prod_cases3)
  have clean: "ce_aclose (ae_close env) = None" using assms(3) by (simp add: clients_clean_def)
  note rt = rotate_session_trace [OF r clean]
  have "trace_matches (lane_cleanup ?la (st, tr, err2))"
    by (rule lane_cleanup_trace [OF _ refl]) (use assms(2) rt in auto)
  then show ?thesis
    using assms(1,2) f r rt
    by (auto simp: fail_attempt_def Let_def lane_cleanup_def trace_matches_def
        split: option.splits prod.splits if_splits)
qed

lemma fetch_loop_trace:
  assumes "fetch_loop fp envs n ats bound la = (fin, la')" "trace_matches la"
    "list_all clients_clean envs"
  shows "trace_matches la'"
  using assms
proof (induction envs arbitrary: n ats bound la)
  case Nil
  then show ?case by simp
next
  case (Cons env envs)
  have clean: "clients_clean env" "ce_aclose (ae_close env) = None" "list_all clients_clean envs"
    using Cons.prems(3) by (simp_all add: clients_clean_def [of env])
  show ?case
  proof (cases "acquire (observations (ln_breaker la) (ae_first_check env) (ae_wakes env))")
    case None
    then show ?thesis using Cons.prems by auto
  next
    case (Some bn)
    obtain b now where bn: "bn = (b, now)" by (cases bn)
    obtain out bound1 la1 where tr: "try_lookup fp env bound (la\<lparr>ln_breaker := b\<rparr>) = (out, bound1, la1)"
      by (cases "try_lookup fp env bound (la\<lparr>ln_breaker := b\<rparr>)") auto
    have m1: "trace_matches la1" by (rule try_lookup_trace [OF tr]) (use Cons.prems clean in auto)
    show ?thesis
    proof (cases out)
      case (Inr sr)
      then show ?thesis
        using Cons.prems(1) Some bn tr after_success_matches [OF m1 clean(2)]
        by (cases sr) (auto simp: succeed_attempt_def Let_def)
    next
      case (Inl e)
      obtain fin2 la2 ats2 where f: "fail_attempt fp env n ats e la1 = (fin2, la2, ats2)"
        by (cases "fail_attempt fp env n ats e la1") auto
      note ft = fail_attempt_trace [OF f m1 clean(1)]
      show ?thesis
        using Cons.prems(1) Some bn tr Inl f ft m1 after_success_matches [OF m1 clean(2)]
        by (cases "isinstance e RucNotFoundError"; cases fin2)
          (auto simp: not_found_attempt_def Let_def split: option.splits intro: Cons.IH clean(3))
    qed
  qed
qed

section \<open>The breaker during a lookup\<close>

lemma other_lane_level: "cb_level (other_lane ev b) \<le> cb_level b + 1"
  by (cases ev) (auto simp: record_success_def record_failure_def Let_def split: sum.splits)

lemma other_lanes_level: "cb_level (other_lanes evs b) \<le> cb_level b + length evs"
proof (induction evs arbitrary: b)
  case Nil
  then show ?case by simp
next
  case (Cons ev evs)
  show ?case using Cons.IH [of "other_lane ev b"] other_lane_level [of ev b] by simp
qed

definition wake_events :: "attempt_env \<Rightarrow> lane_event list" where
  "wake_events env = concat (map fst (ae_wakes env))"

definition attempt_events :: "attempt_env \<Rightarrow> lane_event list" where
  "attempt_events env = wake_events env @ ae_during env @ ae_rotating env"

lemma acquire_level:
  "acquire (observations b now wakes) = Some (b', t)
     \<Longrightarrow> cb_level b' \<le> cb_level b + length (concat (map fst wakes))"
proof (induction wakes arbitrary: b now)
  case Nil
  then show ?case by (auto simp: Let_def split: if_splits)
next
  case (Cons w wakes)
  obtain evs wake where w: "w = (evs, wake)" by (cases w)
  show ?case
  proof (cases "cb_open_until b - now \<le> 0")
    case True
    then show ?thesis using Cons.prems w by simp
  next
    case False
    then have "acquire (observations (other_lanes evs b) wake wakes) = Some (b', t)"
      using Cons.prems w by simp
    from Cons.IH [OF this] show ?thesis using other_lanes_level [of evs b] w by simp
  qed
qed

lemma record_failure_level: "cb_level (fst (record_failure now b)) \<le> cb_level b + 1"
  by (auto simp: record_failure_def Let_def split: sum.splits)

lemma try_lookup_breaker:
  "try_lookup fp env bound la = (out, bound', la')
     \<Longrightarrow> ln_breaker la' = other_lanes (ae_during env) (ln_breaker la)"
  by (auto simp: try_lookup_def Let_def split: prod.splits sum.splits option.splits)

text \<open>Opening a session never raises the not-found error of a lookup.\<close>

definition opens_without_not_found :: "fetch_params \<Rightarrow> attempt_env \<Rightarrow> bool" where
  "opens_without_not_found fp env \<longleftrightarrow>
     (case open_session (fp_provider fp) (fp_slot_id fp) (ae_open env) of
        (_, Inl e) \<Rightarrow> \<not> isinstance e RucNotFoundError
      | (_, Inr _) \<Rightarrow> True)"

lemma try_lookup_bound:
  assumes "try_lookup fp env bound la = (Inl e, bound', la')" "isinstance e RucNotFoundError"
    "opens_without_not_found fp env"
  shows "bound' \<noteq> None"
  using assms
  by (auto simp: try_lookup_def ensure_session_def opens_without_not_found_def Let_def
      split: prod.splits sum.splits option.splits) metis+

lemma fail_attempt_no_raise:
  assumes "fail_attempt fp env n ats e la = (fin, la', ats')" "cb_level (ln_breaker la) < 1024"
  shows "(\<forall>x. fin \<noteq> Some (Raised x))
     \<and> cb_level (ln_breaker la') \<le> cb_level (ln_breaker la) + 1 + length (ae_rotating env)"
proof -
  obtain b snaps where f: "record_failure (ae_record_now env) (ln_breaker la) = (b, snaps, None)"
    using record_failure_no_raise [OF assms(2), of "ae_record_now env"]
    by (metis prod.collapse)
  have "cb_level b \<le> cb_level (ln_breaker la) + 1"
    using record_failure_level [of "ae_record_now env" "ln_breaker la"] f by simp
  moreover have "cb_level (other_lanes (ae_rotating env) b) \<le> cb_level b + length (ae_rotating env)"
    by (rule other_lanes_level)
  moreover have "ln_breaker (lane_cleanup (la\<lparr>ln_breaker := b, ln_snapshots := s\<rparr>) r) = b" for s r
    by (simp add: lane_cleanup_def split: prod.splits)
  ultimately show ?thesis
    using assms(1) f by (auto simp: fail_attempt_def Let_def split: prod.splits if_splits)
qed

lemma fetch_loop_no_raise:
  assumes "list_all (opens_without_not_found fp) envs"
    "cb_level (ln_breaker la) + sum_list (map (\<lambda>env. Suc (length (attempt_events env))) envs) \<le> 1024"
  shows "fst (fetch_loop fp envs n ats bound la) \<noteq> Raised x"
  using assms
proof (induction envs arbitrary: n ats bound la)
  case Nil
  then show ?case by simp
next
  case (Cons env envs)
  show ?case
  proof (cases "acquire (observations (ln_breaker la) (ae_first_check env) (ae_wakes env))")
    case None
    then show ?thesis by simp
  next
    case (Some bn)
    obtain b now where bn: "bn = (b, now)" by (cases bn)
    obtain out bound1 la1 where tr: "try_lookup fp env bound (la\<lparr>ln_breaker := b\<rparr>) = (out, bound1, la1)"
      by (cases "try_lookup fp env bound (la\<lparr>ln_breaker := b\<rparr>)") auto
    have "cb_level b \<le> cb_level (ln_breaker la) + length (wake_events env)"
      using acquire_level Some bn unfolding wake_events_def by blast
    moreover have "cb_level (ln_breaker la1) \<le> cb_level b + length (ae_during env)"
      using try_lookup_breaker [OF tr] other_lanes_level by simp
    ultimately have l1: "cb_level (ln_breaker la1) + length (ae_rotating env) + 1
        + sum_list (map (\<lambda>env. Suc (length (attempt_events env))) envs) \<le> 1024"
      using Cons.prems(2) by (simp add: attempt_events_def)
    show ?thesis
    proof (cases out)
      case (Inr sr)
      then show ?thesis
        using Some bn tr by (cases sr) (auto simp: succeed_attempt_def Let_def)
    next
      case (Inl e)
      obtain fin la2 ats2 where f: "fail_attempt fp env n ats e la1 = (fin, la2, ats2)"
        by (cases "fail_attempt fp env n ats e la1") auto
      show ?thesis
      proof (cases "isinstance e RucNotFoundError")
        case True
        then have "bound1 \<noteq> None" using try_lookup_bound [of fp env bound _ e] tr Inl Cons.prems(1) by simp
        then show ?thesis using Some bn tr Inl True by (auto simp: not_found_attempt_def Let_def)
      next
        case False
        have "cb_level (ln_breaker la1) < 1024" using l1 by simp
        note ff = fail_attempt_no_raise [OF f this]
        then have "cb_level (ln_breaker la2) + sum_list (map (\<lambda>env. Suc (length (attempt_events env))) envs) \<le> 1024"
          using l1 by simp
        then show ?thesis
          using Some bn tr Inl False f ff Cons.IH [of la2] Cons.prems(1) by (cases fin) auto
      qed
    qed
  qed
qed

section \<open>A parked lane wakes up\<close>

text \<open>
  \<open>deadline\<close> is past every cooldown the events can set: each failure happens at least one longest
  cooldown \<open>m\<close> before it. A lane's last look at the breaker comes at or after it.
\<close>

definition event_before :: "seconds \<Rightarrow> seconds \<Rightarrow> lane_event \<Rightarrow> bool" where
  "event_before deadline m ev = (case ev of OtherSuccess \<Rightarrow> True | OtherFailure now \<Rightarrow> cl_mono now + m \<le> deadline)"

definition timely :: "seconds \<Rightarrow> seconds \<Rightarrow> attempt_env \<Rightarrow> bool" where
  "timely deadline m env \<longleftrightarrow>
     list_all (event_before deadline m) (attempt_events env)
     \<and> cl_mono (ae_record_now env) + m \<le> deadline
     \<and> deadline \<le> last (ae_first_check env # map snd (ae_wakes env))"

definition cools_by :: "seconds \<Rightarrow> seconds \<Rightarrow> breaker \<Rightarrow> bool" where
  "cools_by deadline m b \<longleftrightarrow> 0 \<le> deadline \<and> cb_open_until b \<le> deadline \<and> cb_max_cooldown_s b \<le> m"

lemma record_failure_cools:
  assumes "cools_by deadline m b" "cl_mono now + m \<le> deadline"
  shows "cools_by deadline m (fst (record_failure now b))"
  using assms
  by (auto simp: cools_by_def record_failure_def cooldown_for_def Let_def split: sum.splits if_splits)

lemma record_success_cools: "cools_by deadline m b \<Longrightarrow> cools_by deadline m (fst (record_success b))"
  by (auto simp: cools_by_def record_success_def Let_def)

lemma other_lanes_cools:
  "cools_by deadline m b \<Longrightarrow> list_all (event_before deadline m) evs \<Longrightarrow> cools_by deadline m (other_lanes evs b)"
proof (induction evs arbitrary: b)
  case Nil
  then show ?case by simp
next
  case (Cons ev evs)
  then show ?case
    by (cases ev) (auto simp: event_before_def record_failure_cools record_success_cools)
qed

lemma acquire_cools:
  assumes "cools_by deadline m b" "list_all (event_before deadline m) (concat (map fst wakes))"
    "deadline \<le> last (now # map snd wakes)"
  shows "\<exists>b' t. acquire (observations b now wakes) = Some (b', t) \<and> cools_by deadline m b'"
  using assms
proof (induction wakes arbitrary: b now)
  case Nil
  then show ?case by (auto simp: cools_by_def Let_def)
next
  case (Cons w wakes)
  obtain evs wake where w: "w = (evs, wake)" by (cases w)
  show ?case
  proof (cases "cb_open_until b - now \<le> 0")
    case True
    then show ?thesis using Cons.prems w by simp
  next
    case False
    have "cools_by deadline m (other_lanes evs b)"
      using Cons.prems w by (intro other_lanes_cools) auto
    then show ?thesis using Cons.IH [of "other_lanes evs b" wake] Cons.prems(2,3) False w by simp
  qed
qed

lemma fail_attempt_cools:
  assumes "fail_attempt fp env n ats e la = (fin, la', ats')" "cools_by deadline m (ln_breaker la)"
    "timely deadline m env"
  shows "cools_by deadline m (ln_breaker la')"
proof -
  obtain b snaps err where f: "record_failure (ae_record_now env) (ln_breaker la) = (b, snaps, err)"
    by (metis prod_cases3)
  have b: "cools_by deadline m b"
    using record_failure_cools [OF assms(2), of "ae_record_now env"] f assms(3) by (simp add: timely_def)
  then have "cools_by deadline m (other_lanes (ae_rotating env) b)"
    using assms(3) by (intro other_lanes_cools) (auto simp: timely_def attempt_events_def)
  moreover have "ln_breaker (lane_cleanup (la\<lparr>ln_breaker := b, ln_snapshots := s\<rparr>) r) = b" for s r
    by (simp add: lane_cleanup_def split: prod.splits)
  ultimately show ?thesis
    using assms(1) f b by (auto simp: fail_attempt_def Let_def split: prod.splits option.splits if_splits)
qed

lemma fetch_loop_not_waiting:
  assumes "attempts_so_far n ats" "MAX_ATTEMPTS < n + length envs"
    "list_all (timely deadline m) envs" "cools_by deadline m (ln_breaker la)"
  shows "fst (fetch_loop fp envs n ats bound la) \<noteq> Waiting"
  using assms
proof (induction envs arbitrary: n ats bound la)
  case Nil
  then show ?case by (simp add: attempts_so_far_def)
next
  case (Cons env envs)
  have env: "timely deadline m env" using Cons.prems by simp
  then obtain b now where acq: "acquire (observations (ln_breaker la) (ae_first_check env) (ae_wakes env))
      = Some (b, now)" and b: "cools_by deadline m b"
    using acquire_cools [OF Cons.prems(4), of "ae_wakes env" "ae_first_check env"]
    by (auto simp: timely_def attempt_events_def wake_events_def)
  obtain out bound1 la1 where tr: "try_lookup fp env bound (la\<lparr>ln_breaker := b\<rparr>) = (out, bound1, la1)"
    by (cases "try_lookup fp env bound (la\<lparr>ln_breaker := b\<rparr>)") auto
  have b1: "cools_by deadline m (ln_breaker la1)"
    using try_lookup_breaker [OF tr] other_lanes_cools [OF b] env
    by (simp add: timely_def attempt_events_def)
  show ?case
  proof (cases out)
    case (Inr sr)
    then show ?thesis
      using acq tr by (cases sr) (auto simp: succeed_attempt_def Let_def)
  next
    case (Inl e)
    obtain fin la2 ats2 where f: "fail_attempt fp env n ats e la1 = (fin, la2, ats2)"
      by (cases "fail_attempt fp env n ats e la1") auto
    note sh = fail_shape [OF f Cons.prems(1)] and b2 = fail_attempt_cools [OF f b1 env]
    show ?thesis
      using acq tr Inl f sh b2 Cons.prems(2,3) Cons.IH [of "n + 1" ats2 la2]
      by (cases "isinstance e RucNotFoundError"; cases fin)
        (auto simp: not_found_attempt_def Let_def split: option.splits)
  qed
qed

section \<open>Properties\<close>

definition sample_site :: site where
  "sample_site = \<lparr>site_name = ''osiptel'', site_columns = [], site_accepts = (\<lambda>d. True),
     site_allows_empty = True, site_session_budget = 1, site_endpoints = [],
     site_projections = [], site_stable = True\<rparr>"

definition sample_params :: fetch_params where
  "sample_params = \<lparr>fp_site = sample_site,
     fp_provider = DataImpulseProvider \<lparr>di_user = ''u'', di_password = ''p'', di_country = ''pe'',
                     di_sessttl = 3, di_host = GATEWAY_HOST\<rparr>,
     fp_slot_id = 1, fp_doc = \<lparr>doc_text = ''12345678'', doc_kind = DNI\<rparr>,
     fp_cfg = \<lparr>wc_session_budget = 1, wc_wait_min_s = 0, wc_wait_max_s = 0, wc_ban_cooldown_s = 30\<rparr>\<rparr>"

definition clean_close :: close_env where
  "clean_close = \<lparr>ce_aclose = None, ce_release = (\<lambda>_. HttpResponse 500 [])\<rparr>"

text \<open>An attempt on which the lookup raises \<open>e\<close>, one other failure arriving meanwhile.\<close>

definition sample_env :: "exn \<Rightarrow> attempt_env" where
  "sample_env e = \<lparr>ae_first_check = 1, ae_wakes = [([], 400)], ae_ensure_now = 400,
     ae_open = \<lparr>oe_hex8 = ''00112233'', oe_session_id = ''s'', oe_build = None, oe_ready = None,
                oe_probe = (\<lambda>_ _. HttpResponse 500 []), oe_close = clean_close\<rparr>,
     ae_lookup = Inl e, ae_during = [OtherFailure \<lparr>cl_mono = 5, cl_utc = 5\<rparr>], ae_elapsed_s = 1,
     ae_record_now = \<lparr>cl_mono = 6, cl_utc = 6\<rparr>, ae_close = clean_close, ae_rotate_now = 7,
     ae_rotating = [], ae_open_check = 8\<rparr>"

definition sample_envs :: "attempt_env list" where
  "sample_envs = replicate 4 (sample_env (raise_exn BanSignalError ''blocked''))"

definition sample_lane :: lane where
  "sample_lane = \<lparr>ln_state = new_worker_state,
     ln_breaker = new_breaker \<lparr>cl_mono = 1, cl_utc = 1\<rparr> ''dataimpulse'' ''r'' ''cli''
       DEFAULT_THRESHOLD DEFAULT_BASE_COOLDOWN_S DEFAULT_MAX_COOLDOWN_S None True,
     ln_snapshots = [], ln_trace = []\<rparr>"

lemma attempts_so_far_start: "attempts_so_far 1 []"
  by (simp add: attempts_so_far_def MAX_ATTEMPTS_def attempts_numbered_Nil)

lemmas sample_defs = sample_envs_def sample_env_def sample_lane_def new_breaker_def
  monotonic_deadline_def DEFAULT_MAX_COOLDOWN_S_def

lemma sample_timely: "list_all (timely 310 300) sample_envs"
  by (simp add: sample_envs_def sample_env_def timely_def attempt_events_def wake_events_def
      event_before_def list_all_iff)

lemma sample_cools: "cools_by 310 300 (ln_breaker sample_lane)"
  by (simp add: sample_defs cools_by_def)

lemma sample_opens: "list_all (opens_without_not_found fp) sample_envs"
  if "fp = sample_params"
proof -
  have "resolve_egress_ip (\<lambda>_ _. HttpResponse 500 []) = Inr (9, [])" by code_simp
  then show ?thesis
    by (simp add: that sample_envs_def list_all_iff opens_without_not_found_def open_session_def
        sample_env_def sample_params_def new_session_def Let_def)
qed

lemma sample_level: "cb_level (ln_breaker sample_lane)
    + sum_list (map (\<lambda>env. Suc (length (attempt_events env))) sample_envs) \<le> 1024"
  by (simp add: sample_defs attempt_events_def wake_events_def numeral_eq_Suc)

lemma sample_returns: "\<exists>r la. fetch_one sample_params sample_envs sample_lane = (Returned r, la)"
proof -
  have "fst (fetch_one sample_params sample_envs sample_lane) \<noteq> Waiting"
    unfolding fetch_one_def
    by (rule fetch_loop_not_waiting [OF attempts_so_far_start _ sample_timely sample_cools])
      (simp add: MAX_ATTEMPTS_def sample_envs_def)
  moreover have "fst (fetch_one sample_params sample_envs sample_lane) \<noteq> Raised x" for x
    unfolding fetch_one_def by (rule fetch_loop_no_raise [OF sample_opens [OF refl] sample_level])
  ultimately show ?thesis
    by (cases "fetch_one sample_params sample_envs sample_lane"; cases "fst (fetch_one sample_params sample_envs sample_lane)") auto
qed

text \<open>C9: With a breaker whose observer does not raise, a lookup that returns made between one and four attempts, numbered from 1; every
  attempt before the last failed, the last one carries the status and error code of the result;
  a failed result used all four; rows come only with success, and empty ones only from a site that
  allows them.\<close>

theorem fetch_one_attempts:
  assumes "fetch_one fp envs la = (Returned r, la')"
  shows "res_attempt r = length (res_attempts r) \<and> 1 \<le> res_attempt r \<and> res_attempt r \<le> 4
    \<and> map ao_attempt (res_attempts r) = [1..<res_attempt r + 1]
    \<and> list_all (\<lambda>a. ao_status a = FAILED) (butlast (res_attempts r))
    \<and> ao_status (last (res_attempts r)) = res_status r
    \<and> ao_error_code (last (res_attempts r)) = res_error_code r
    \<and> (res_status r = FAILED \<longrightarrow> res_attempt r = 4)
    \<and> (res_status r \<noteq> OK \<longrightarrow> res_rows r = [])
    \<and> (res_status r = OK \<longrightarrow> res_rows r \<noteq> [] \<or> site_allows_empty (fp_site fp))
    \<and> res_doc r = fp_doc fp \<and> res_site r = site_name (fp_site fp)"
  using fetch_loop_shape [OF assms [unfolded fetch_one_def] attempts_so_far_start]
  by (auto simp: result_shape_def attempts_numbered_def MAX_ATTEMPTS_def enforce_allows_empty_def
      split: if_splits)

theorem fetch_one_attempts_witness:
  "\<exists>r la. fetch_one sample_params sample_envs sample_lane = (Returned r, la)
     \<and> 1 \<le> res_attempt r \<and> res_attempt r \<le> 4"
  using sample_returns fetch_one_attempts by blast

text \<open>C10: Provided that building and closing an HTTP client do not raise, the sessions a lane holds never overlap: each
  is released before the next is acquired, and after a lookup the lane holds exactly the session of
  its state, however opening a session, probing its address, releasing it and looking up end.\<close>

theorem fetch_one_sessions:
  assumes "trace_matches la" "list_all clients_clean envs"
  shows "run_trace None (ln_trace (snd (fetch_one fp envs la)))
    = Some (map_option ws_proxy (st_session (ln_state (snd (fetch_one fp envs la)))))"
  using fetch_loop_trace [of fp envs 1 "[]" None la "fst (fetch_one fp envs la)" "snd (fetch_one fp envs la)"] assms
  by (simp add: fetch_one_def trace_matches_def)

theorem fetch_one_sessions_witness:
  "run_trace None (ln_trace (snd (fetch_one sample_params sample_envs sample_lane)))
    = Some (map_option ws_proxy (st_session (ln_state (snd (fetch_one sample_params sample_envs sample_lane)))))"
  by (rule fetch_one_sessions)
    (simp_all add: trace_matches_def sample_lane_def new_worker_state_def list_all_iff clients_clean_def
      sample_envs_def sample_env_def clean_close_def)

text \<open>Without that proviso it fails: the session of a client that cannot be built is handed out and lost, and
  the next attempt acquires another one over it.\<close>

lemma client_failure_leaks:
  assumes "oe_build oe = Some e" "new_session p slot (oe_hex8 oe) = Inr proxy" "st_session st = None"
  shows "\<exists>slept. ensure_session p slot now oe st = (slept, st, [Acquired proxy], Inl e)"
    and "run_trace None ([Acquired proxy] @ Acquired later # tr) = None"
  using assms by (simp_all add: ensure_session_def open_session_def Let_def)

text \<open>No failure of a lookup escapes into the task group as long as the breaker's level, with
  every failure that may arrive meanwhile, stays within 1024; opening a session is assumed not to
  raise the lookup's not-found error.\<close>

theorem fetch_one_contains_failures:
  assumes "list_all (opens_without_not_found fp) envs"
    "cb_level (ln_breaker la) + sum_list (map (\<lambda>env. Suc (length (attempt_events env))) envs) \<le> 1024"
  shows "fst (fetch_one fp envs la) \<noteq> Raised x"
  unfolding fetch_one_def by (rule fetch_loop_no_raise [OF assms])

theorem fetch_one_contains_failures_witness:
  "\<forall>x. fst (fetch_one sample_params sample_envs sample_lane) \<noteq> Raised x"
  using fetch_one_contains_failures [OF sample_opens [OF refl] sample_level] by blast

text \<open>C19: With a breaker whose observer does not raise, a lookup always ends, with four attempts at most: given attempts whose breaker calls all
  happen at least one longest cooldown before some deadline, and whose waits last until then, the
  lane is not left waiting.\<close>

theorem fetch_one_ends:
  assumes "4 \<le> length envs" "list_all (timely deadline m) envs"
    "0 \<le> deadline" "cb_open_until (ln_breaker la) \<le> deadline" "cb_max_cooldown_s (ln_breaker la) \<le> m"
  shows "fst (fetch_one fp envs la) \<noteq> Waiting"
  unfolding fetch_one_def
  by (rule fetch_loop_not_waiting [OF attempts_so_far_start _ assms(2)])
    (use assms in \<open>simp_all add: MAX_ATTEMPTS_def cools_by_def\<close>)

theorem fetch_one_ends_witness:
  "fst (fetch_one sample_params sample_envs sample_lane) \<noteq> Waiting"
  by (rule fetch_one_ends [OF _ sample_timely])
    (use sample_cools in \<open>simp_all add: cools_by_def sample_envs_def\<close>)

text \<open>At level 1024 the failure that trips the breaker raises \<open>OverflowError\<close> out of the
  handler: the lookup ends with no result and the lane keeps its session, unreleased.\<close>

theorem fetch_overflow_escapes:
  assumes "cb_threshold (ln_breaker la) \<le> cb_consecutive (ln_breaker la) + 1"
    "1024 \<le> cb_level (ln_breaker la)"
  shows "\<exists>x la' ats'. fail_attempt fp env n ats e la = (Some (Raised x), la', ats')
    \<and> exn_class x = OverflowError \<and> ln_state la' = ln_state la"
  using record_failure_raises [OF assms, of "ae_record_now env"]
  by (auto simp: fail_attempt_def Let_def raise_exn_def split: prod.splits)

theorem fetch_overflow_escapes_witness:
  "\<exists>x la' ats'. fail_attempt sample_params (sample_env (raise_exn ParseError [])) 1 [] (raise_exn ParseError [])
       (sample_lane\<lparr>ln_breaker := (ln_breaker sample_lane)\<lparr>cb_consecutive := 9, cb_level := 1024\<rparr>\<rparr>)
       = (Some (Raised x), la', ats') \<and> exn_class x = OverflowError"
  using fetch_overflow_escapes [of
      "sample_lane\<lparr>ln_breaker := (ln_breaker sample_lane)\<lparr>cb_consecutive := 9, cb_level := 1024\<rparr>\<rparr>"
      sample_params "sample_env (raise_exn ParseError [])" 1 "[]" "raise_exn ParseError []"]
  by (auto simp: sample_lane_def new_breaker_def DEFAULT_THRESHOLD_def)

end
