(* ===== verification/Csv.thy ===== *)
theory Csv
  imports Prelude
begin

text \<open>
  The part of Python's \<open>csv\<close> module the command line uses: the default dialect's reader over a
  text opened with \<open>newline=""\<close>, and its writer with the line terminator \<open>"\n"\<close>. The reader is the
  module's state machine; a carriage return followed by a newline ends one record.
\<close>

abbreviation newline :: char where "newline \<equiv> CHR 0x0A"
abbreviation carriage :: char where "carriage \<equiv> CHR 0x0D"
abbreviation dquote :: char where "dquote \<equiv> CHR 0x22"

datatype csv_state = START_RECORD | START_FIELD | IN_FIELD | IN_QUOTED_FIELD | QUOTE_IN_QUOTED_FIELD

text \<open>
  \<open>fs\<close> are the fields of the current record already saved, \<open>f\<close> the field being read, both in
  order. Characters that end a record in an unquoted place start the next one.
\<close>

fun csv_parse :: "csv_state \<Rightarrow> pystr list \<Rightarrow> pystr \<Rightarrow> pystr \<Rightarrow> pystr list list" where
  "csv_parse st fs f [] = (case st of START_RECORD \<Rightarrow> [] | _ \<Rightarrow> [fs @ [f]])"
| "csv_parse st fs f (c # s) =
     (let rest = (if c = carriage \<and> s \<noteq> [] \<and> hd s = newline then tl s else s);
          ends = (c = newline \<or> c = carriage)
      in case st of
           START_RECORD \<Rightarrow>
             if ends then [] # csv_parse START_RECORD [] [] rest
             else if c = dquote then csv_parse IN_QUOTED_FIELD [] [] s
             else if c = CHR '','' then csv_parse START_FIELD [[]] [] s
             else csv_parse IN_FIELD [] [c] s
         | START_FIELD \<Rightarrow>
             if ends then (fs @ [[]]) # csv_parse START_RECORD [] [] rest
             else if c = dquote then csv_parse IN_QUOTED_FIELD fs [] s
             else if c = CHR '','' then csv_parse START_FIELD (fs @ [[]]) [] s
             else csv_parse IN_FIELD fs [c] s
         | IN_FIELD \<Rightarrow>
             if ends then (fs @ [f]) # csv_parse START_RECORD [] [] rest
             else if c = CHR '','' then csv_parse START_FIELD (fs @ [f]) [] s
             else csv_parse IN_FIELD fs (f @ [c]) s
         | IN_QUOTED_FIELD \<Rightarrow>
             if c = dquote then csv_parse QUOTE_IN_QUOTED_FIELD fs f s
             else csv_parse IN_QUOTED_FIELD fs (f @ [c]) s
         | QUOTE_IN_QUOTED_FIELD \<Rightarrow>
             if c = dquote then csv_parse IN_QUOTED_FIELD fs (f @ [c]) s
             else if c = CHR '','' then csv_parse START_FIELD (fs @ [f]) [] s
             else if ends then (fs @ [f]) # csv_parse START_RECORD [] [] rest
             else csv_parse IN_FIELD fs (f @ [c]) s)"

definition csv_reader :: "pystr \<Rightarrow> pystr list list" where
  "csv_reader text = csv_parse START_RECORD [] [] text"

definition needs_quotes :: "pystr \<Rightarrow> bool" where
  "needs_quotes f \<longleftrightarrow> list_ex (\<lambda>c. c = CHR '','' \<or> c = dquote \<or> c = newline \<or> c = carriage) f"

definition quote_field :: "pystr \<Rightarrow> pystr" where
  "quote_field f = dquote # concat (map (\<lambda>c. if c = dquote then [dquote, dquote] else [c]) f) @ [dquote]"

definition write_field :: "pystr \<Rightarrow> pystr" where
  "write_field f = (if needs_quotes f then quote_field f else f)"

definition csv_writerow :: "pystr list \<Rightarrow> pystr" where
  "csv_writerow r =
     (if r = [[]] then [dquote, dquote] else py_join '','' (map write_field r)) @ [newline]"

definition csv_writerows :: "pystr list list \<Rightarrow> pystr" where
  "csv_writerows rows = concat (map csv_writerow rows)"

section \<open>Reading back what was written\<close>

lemma csv_parse_plain:
  "\<not> needs_quotes g \<Longrightarrow> csv_parse IN_FIELD fs f (g @ s) = csv_parse IN_FIELD fs (f @ g) s"
  by (induction g arbitrary: f) (auto simp: needs_quotes_def Let_def)

lemma csv_parse_quoted_body:
  "csv_parse IN_QUOTED_FIELD fs f
     (concat (map (\<lambda>c. if c = dquote then [dquote, dquote] else [c]) g) @ dquote # s)
   = csv_parse QUOTE_IN_QUOTED_FIELD fs (f @ g) s"
  by (induction g arbitrary: f) (auto simp: Let_def)

text \<open>What a field leaves before the comma or newline that follows it.\<close>

lemma csv_parse_field_comma:
  assumes "st = START_FIELD \<or> (st = START_RECORD \<and> fs = [])"
  shows "csv_parse st fs [] (write_field g @ CHR '','' # s) = csv_parse START_FIELD (fs @ [g]) [] s"
proof (cases "needs_quotes g")
  case True
  have "csv_parse st fs [] (quote_field g @ CHR '','' # s)
      = csv_parse QUOTE_IN_QUOTED_FIELD fs g (CHR '','' # s)"
    using assms csv_parse_quoted_body [of fs "[]" g "CHR '','' # s"] by (auto simp: quote_field_def Let_def)
  then show ?thesis using True by (simp add: write_field_def Let_def)
next
  case False
  then show ?thesis
    using assms csv_parse_plain [of "tl g" fs "[hd g]" "CHR '','' # s"]
    by (cases g) (auto simp: write_field_def needs_quotes_def Let_def)
qed

lemma csv_parse_field_newline:
  assumes "st = START_FIELD \<or> (st = START_RECORD \<and> fs = [] \<and> g \<noteq> [])"
  shows "csv_parse st fs [] (write_field g @ newline # s) = (fs @ [g]) # csv_reader s"
proof (cases "needs_quotes g")
  case True
  have "csv_parse st fs [] (quote_field g @ newline # s)
      = csv_parse QUOTE_IN_QUOTED_FIELD fs g (newline # s)"
    using assms csv_parse_quoted_body [of fs "[]" g "newline # s"] by (auto simp: quote_field_def Let_def)
  then show ?thesis using True by (simp add: write_field_def csv_reader_def Let_def)
next
  case False
  then show ?thesis
    using assms csv_parse_plain [of "tl g" fs "[hd g]" "newline # s"]
    by (cases g) (auto simp: write_field_def needs_quotes_def csv_reader_def Let_def)
qed

lemma csv_parse_fields:
  assumes "r \<noteq> []" "st = START_FIELD \<or> (st = START_RECORD \<and> fs = [] \<and> r \<noteq> [[]])"
  shows "csv_parse st fs [] (py_join '','' (map write_field r) @ newline # s) = (fs @ r) # csv_reader s"
  using assms
proof (induction r arbitrary: st fs)
  case Nil
  then show ?case by simp
next
  case (Cons g r)
  show ?case
  proof (cases r)
    case Nil
    then show ?thesis using Cons.prems csv_parse_field_newline [of st fs g s] by auto
  next
    case (Cons h r')
    then show ?thesis
      using Cons.IH [of START_FIELD "fs @ [g]"] Cons.prems csv_parse_field_comma [of st fs g] by auto
  qed
qed

lemma csv_reader_writerow: "csv_reader (csv_writerow r @ s) = r # csv_reader s"
proof -
  consider "r = []" | "r = [[]]" | "r \<noteq> []" "r \<noteq> [[]]" by blast
  then show ?thesis
  proof cases
    case 3
    then show ?thesis
      using csv_parse_fields [of r START_RECORD "[]" s] by (simp add: csv_writerow_def csv_reader_def)
  qed (simp_all add: csv_writerow_def csv_reader_def Let_def)
qed

lemma csv_reader_writerows: "csv_reader (csv_writerows rows) = rows"
proof (induction rows)
  case Nil
  then show ?case by (simp add: csv_writerows_def csv_reader_def)
next
  case (Cons r rows)
  then show ?case using csv_reader_writerow [of r "csv_writerows rows"] by (simp add: csv_writerows_def)
qed

end
