(* ===== verification/Osiptel.thy ===== *)
theory Osiptel
  imports Proxy "HOL-Library.List_Lexorder" "HOL-Library.Char_ord"
begin

text \<open>
  The OSIPTEL site: \<open>core/sites/osiptel\<close> (\<open>payload.py\<close>, \<open>parser.py\<close>, \<open>site.py\<close>) and the
  site registry \<open>core/sites/registry.py\<close>. The server is a function from the request (its draw
  number and form fields) to a reply.
\<close>

section \<open>Payload\<close>

definition COLUMNS :: "pystr list" where
  "COLUMNS = [''indice'', ''modalidad'', ''numeroServicio'', ''operador'']"

record page_request =
  pr_numero :: pystr
  pr_id_tipo_doc :: pystr
  pr_draw :: nat
  pr_start :: nat
  pr_length :: nat

definition for_doc :: "doc \<Rightarrow> nat \<Rightarrow> nat \<Rightarrow> nat \<Rightarrow> page_request" where
  "for_doc d draw start len =
     \<lparr>pr_numero = doc_text d, pr_id_tipo_doc = (if doc_kind d = DNI then ''1'' else ''2''),
      pr_draw = draw, pr_start = start, pr_length = len\<rparr>"

definition column_fields :: "nat \<times> pystr \<Rightarrow> py_dict" where
  "column_fields ic =
     (case ic of (i, name) \<Rightarrow>
        let key = (\<lambda>k. ''columns['' @ nat_str i @ '']['' @ k @ '']'')
        in [(key ''data'', name), (key ''name'', name), (key ''searchable'', ''false''),
            (key ''orderable'', ''false''), (key ''search][value'', []),
            (key ''search][regex'', ''false'')])"

definition build_payload :: "page_request \<Rightarrow> py_dict" where
  "build_payload req =
     [(''order[0][column]'', ''0''), (''order[0][dir]'', ''asc''), (''draw'', nat_str (pr_draw req)),
      (''start'', nat_str (pr_start req)), (''length'', nat_str (pr_length req)),
      (''search[value]'', []), (''search[regex]'', ''false''),
      (''IdTipoDoc'', pr_id_tipo_doc req), (''NumeroDocumento'', pr_numero req),
      (''HCaptchaTokenCon'', []), (''BoolConsulta'', ''true'')]
     @ concat (map column_fields (enumerate 0 COLUMNS))"

section \<open>Parser\<close>

record parsed_page =
  pp_total_records :: nat
  pp_rows :: "row list"

definition schema_error :: "pystr \<Rightarrow> exn + 'a" where
  "schema_error msg = Inl (raise_exn ProviderSchemaError msg)"

text \<open>
  A boolean is an integer for \<open>isinstance\<close>. \<open>str.isdigit\<close> also holds for superscript digits, on
  which \<open>int\<close> raises.
\<close>

definition total_records :: "(pystr \<times> json) list \<Rightarrow> exn + nat" where
  "total_records payload =
     (case json_get payload ''iTotalRecords'' of
        JBool b \<Rightarrow> Inr (if b then 1 else 0)
      | JInt i \<Rightarrow> if 0 \<le> i then Inr (nat i) else schema_error ''osiptel response missing iTotalRecords''
      | JStr s \<Rightarrow>
          if py_isdigit s then bind_res (to_int s) (\<lambda>i. Inr (nat i))
          else schema_error ''osiptel response missing iTotalRecords''
      | _ \<Rightarrow> schema_error ''osiptel response missing iTotalRecords'')"

definition rows_of :: "(pystr \<times> json) list \<Rightarrow> exn + json list" where
  "rows_of payload =
     (case json_get payload ''data'' of
        JList rows \<Rightarrow> Inr rows
      | _ \<Rightarrow> schema_error ''osiptel response missing data rows'')"

definition required_text :: "json \<Rightarrow> pystr \<Rightarrow> exn + pystr" where
  "required_text v fld =
     (case v of
        JStr s \<Rightarrow>
          if py_strip s = [] then schema_error (''osiptel row field '' @ fld @ '' is empty'')
          else Inr (py_strip s)
      | _ \<Rightarrow> schema_error (''osiptel row field '' @ fld @ '' is empty''))"

definition line_from_row :: "json \<Rightarrow> exn + row" where
  "line_from_row r =
     (case r of
        JObj kvs \<Rightarrow>
          bind_res (required_text (json_get kvs ''modalidad'') ''modalidad'') (\<lambda>modalidad.
          bind_res (required_text (json_get kvs ''numeroServicio'') ''numeroServicio'') (\<lambda>numero.
          bind_res (required_text (json_get kvs ''operador'') ''operador'') (\<lambda>operador.
            Inr [CStr modalidad, CStr numero, CStr operador])))
      | _ \<Rightarrow> schema_error ''osiptel row has unsupported shape'')"

definition parse_page :: "json \<Rightarrow> exn + parsed_page" where
  "parse_page payload =
     (case payload of
        JObj kvs \<Rightarrow>
          if json_get kvs ''estado'' = JBool True then schema_error ''osiptel rejected request''
          else bind_res (total_records kvs) (\<lambda>total.
               bind_res (rows_of kvs) (\<lambda>raw.
               bind_res (map_res line_from_row raw) (\<lambda>rows.
                 Inr \<lparr>pp_total_records = total, pp_rows = rows\<rparr>)))
      | _ \<Rightarrow> schema_error ''osiptel response json is not an object'')"

section \<open>Requests\<close>

definition PAGE_SIZE :: nat where
  "PAGE_SIZE = 5000"

definition READY_TIMEOUT_S :: seconds where
  "READY_TIMEOUT_S = 25"

definition HOME_URL :: pystr where
  "HOME_URL = ''https://checatuslineas.osiptel.gob.pe/''"

definition API_URL :: pystr where
  "API_URL = ''https://checatuslineas.osiptel.gob.pe/Consultas/GetAllCabeceraConsulta/''"

definition one_line :: "nat \<Rightarrow> pystr \<Rightarrow> pystr" where
  "one_line n text = take n (py_strip (py_replace_char (char_of (10 :: nat)) CHR '' '' text))"

definition is_waf_block :: "pystr \<Rightarrow> bool" where
  "is_waf_block body =
     (let normalized = py_lower body
      in py_in ''the url you requested has been blocked'' normalized
         \<or> py_in ''web page blocked'' normalized \<or> py_in ''attack id:'' normalized)"

text \<open>
  The warm-up: per turn of the loop the time of its check and the reply of the home page. None
  means it is still polling after the given turns.
\<close>

fun ready_loop ::
  "seconds \<Rightarrow> (seconds \<times> http_result) list \<Rightarrow> int \<times> pystr \<times> pystr \<Rightarrow> exn option option" where
  "ready_loop deadline [] seen = None"
| "ready_loop deadline ((now, reply) # turns) seen =
     (case seen of (last_status, last_error, last_body) \<Rightarrow>
        if \<not> now < deadline
        then Some (Some (raise_exn UpstreamNotReadyError
               (''osiptel page not ready status='' @ int_str last_status @ '' error='' @ last_error
                @ '' body='' @ last_body)))
        else
          (case reply of
             HttpRaise e \<Rightarrow>
               if isinstance e TransientTransportError \<or> exn_class e = HTTPError
               then ready_loop deadline turns (last_status, describe_exn e, last_body)
               else Some (Some e)
           | HttpResponse status text \<Rightarrow>
               let body = one_line 240 text
               in if status = 200 \<and> py_in ''Checa tus l'' text then Some None
                  else if is_waf_block text
                  then Some (Some (raise_exn BanSignalError
                         (''osiptel page blocked status='' @ int_str status @ '' body='' @ body)))
                  else ready_loop deadline turns (status, last_error, body)))"

definition ready :: "seconds \<Rightarrow> (seconds \<times> http_result) list \<Rightarrow> exn option option" where
  "ready now turns = ready_loop (now + READY_TIMEOUT_S) turns (0, [], [])"

type_synonym api_server = "nat \<Rightarrow> py_dict \<Rightarrow> http_result"

definition fetch_page :: "api_server \<Rightarrow> doc \<Rightarrow> nat \<Rightarrow> nat \<Rightarrow> nat \<Rightarrow> exn + json" where
  "fetch_page server d draw start len =
     (case server draw (build_payload (for_doc d draw start len)) of
        HttpRaise e \<Rightarrow> Inl e
      | HttpResponse status text \<Rightarrow>
          (case classify_status status of
             Some fault \<Rightarrow>
               let body = one_line 160 text
               in Inl (raise_exn fault
                    (if fault = BanSignalError
                     then ''osiptel request failed status='' @ int_str status @ '' draw='' @ nat_str draw
                          @ '' start='' @ nat_str start @ '' length='' @ nat_str len
                          @ '' doc='' @ doc_text d @ '' body='' @ body
                     else ''osiptel request transient status='' @ int_str status))
           | None \<Rightarrow>
               (case loads text of
                  None \<Rightarrow> Inl (raise_exn ParseError ''osiptel response is not valid json'')
                | Some payload \<Rightarrow> Inr payload)))"

definition fetch_parsed :: "api_server \<Rightarrow> doc \<Rightarrow> nat \<Rightarrow> nat \<Rightarrow> exn + parsed_page" where
  "fetch_parsed server d draw start = bind_res (fetch_page server d draw start PAGE_SIZE) parse_page"

text \<open>The paging loop, with the number of requests it may make; None when they run out.\<close>

fun lookup_loop ::
  "api_server \<Rightarrow> doc \<Rightarrow> nat \<Rightarrow> nat \<Rightarrow> nat \<Rightarrow> row list \<Rightarrow> (exn + row list) option" where
  "lookup_loop server d 0 start draw rows = None"
| "lookup_loop server d (Suc fuel) start draw rows =
     (case fetch_parsed server d draw start of
        Inl e \<Rightarrow> Some (Inl e)
      | Inr page \<Rightarrow>
          let rows = rows @ pp_rows page
          in if pp_total_records page = 0 \<or> pp_rows page = [] then Some (Inr rows)
             else
               let start = start + length (pp_rows page); draw = draw + 1
               in if pp_total_records page \<le> start then Some (Inr rows)
                  else lookup_loop server d fuel start draw rows)"

definition lookup :: "api_server \<Rightarrow> nat \<Rightarrow> doc \<Rightarrow> (exn + row list) option" where
  "lookup server fuel d = lookup_loop server d fuel 0 1 []"

section \<open>Projection and site\<close>

fun cell_str :: "cell \<Rightarrow> pystr" where
  "cell_str (CStr s) = s"
| "cell_str (CInt i) = int_str i"
| "cell_str (CBool b) = (if b then ''True'' else ''False'')"

text \<open>Unpacking a row that has not exactly three cells raises.\<close>

definition carrier_of :: "row \<Rightarrow> exn + pystr" where
  "carrier_of r =
     (case r of
        [_, _, operador] \<Rightarrow> Inr (cell_str operador)
      | _ \<Rightarrow> Inl (raise_exn ValueError
               (if length r < 3 then ''not enough values to unpack'' else ''too many values to unpack'')))"

fun count_carriers :: "pystr list \<Rightarrow> (pystr \<rightharpoonup> nat) \<Rightarrow> (pystr \<rightharpoonup> nat)" where
  "count_carriers [] counts = counts"
| "count_carriers (c # cs) counts =
     count_carriers cs (counts(c \<mapsto> (case counts c of None \<Rightarrow> 0 | Some n \<Rightarrow> n) + 1))"

definition counts :: "row list \<Rightarrow> exn + row list" where
  "counts rows =
     bind_res (map_res carrier_of rows) (\<lambda>carriers.
       let table = count_carriers carriers Map.empty
       in Inr (map (\<lambda>c. [CStr c, CInt (int (the (table c))), CInt (int (length rows))])
                 (sort (remdups carriers))))"

definition COUNTS :: projection where
  "COUNTS = \<lparr>pj_name = ''counts'', pj_columns = [''carrier'', ''lines'', ''total_lines''],
             pj_project = counts\<rparr>"

definition OSIPTEL :: site where
  "OSIPTEL =
     \<lparr>site_name = ''osiptel'', site_columns = [''modalidad'', ''numero'', ''operador''],
      site_accepts = (\<lambda>_. True), site_allows_empty = True, site_session_budget = 1,
      site_endpoints = [\<lparr>ep_name = ''home'', ep_url = HOME_URL\<rparr>], site_projections = [COUNTS],
      site_stable = True\<rparr>"

definition SITES :: "(pystr \<times> site) list" where
  "SITES = [(site_name OSIPTEL, OSIPTEL)]"

definition STABLE_SITES :: "pystr list" where
  "STABLE_SITES = map fst (filter (\<lambda>ns. site_stable (snd ns)) SITES)"

definition duplicates_of :: "pystr list \<Rightarrow> pystr list" where
  "duplicates_of names = sort (remdups (filter (\<lambda>n. 1 < count_list names n) names))"

definition get_sites :: "pystr list \<Rightarrow> exn + site list" where
  "get_sites names =
     (if names = [] then Inl (raise_exn ValueError ''must list at least one site'')
      else if duplicates_of names \<noteq> []
        then Inl (raise_exn ValueError (''has duplicate site(s): '' @ py_join '','' (duplicates_of names)))
      else
        let unknown = filter (\<lambda>n. map_of SITES n = None) names
        in if unknown \<noteq> []
           then Inl (raise_exn ValueError (''has unknown site(s) '' @ py_join '','' unknown
                  @ ''; choose from '' @ py_join ''|'' (sort (map fst SITES))))
           else Inr (map (\<lambda>n. the (map_of SITES n)) names))"

section \<open>Facts\<close>

text \<open>A line of a page: three non-empty stripped texts.\<close>

definition is_line :: "row \<Rightarrow> bool" where
  "is_line r \<longleftrightarrow> (\<exists>m n c. r = [CStr m, CStr n, CStr c] \<and> m \<noteq> [] \<and> n \<noteq> [] \<and> c \<noteq> []
     \<and> py_strip m = m \<and> py_strip n = n \<and> py_strip c = c)"

lemma required_text_Inr: "required_text v f = Inr s \<Longrightarrow> s \<noteq> [] \<and> py_strip s = s"
  by (auto simp: required_text_def schema_error_def py_strip_idem split: json.splits if_splits)

lemma line_from_row_Inr: "line_from_row j = Inr r \<Longrightarrow> is_line r"
  by (auto simp: line_from_row_def bind_res_Inr_iff schema_error_def is_line_def
      dest!: required_text_Inr split: json.splits)

lemma parse_page_lines: "parse_page j = Inr page \<Longrightarrow> list_all is_line (pp_rows page)"
  by (auto simp: parse_page_def bind_res_Inr_iff schema_error_def map_res_Inr_iff list_all_iff
      list_all2_conv_all_nth in_set_conv_nth split: json.splits if_splits)
    (metis line_from_row_Inr)

lemma lookup_loop_lines:
  "lookup_loop server d fuel start draw rows = Some (Inr out) \<Longrightarrow> list_all is_line rows
     \<Longrightarrow> list_all is_line out"
proof (induction fuel arbitrary: start draw rows)
  case 0
  then show ?case by simp
next
  case (Suc fuel)
  obtain page where p: "fetch_parsed server d draw start = Inr page"
    using Suc.prems(1) by (auto split: sum.splits)
  have lines: "list_all is_line (rows @ pp_rows page)"
    using p Suc.prems(2) by (auto simp: fetch_parsed_def bind_res_Inr_iff dest: parse_page_lines)
  show ?case
    using Suc.prems(1) p lines Suc.IH [of "start + length (pp_rows page)" "draw + 1" "rows @ pp_rows page"]
    by (auto simp: Let_def split: if_splits)
qed

lemma lookup_loop_ends:
  assumes "\<And>draw start page. fetch_parsed server d draw start = Inr page \<Longrightarrow> pp_total_records page \<le> n"
    "0 < fuel" "n \<le> start + fuel"
  shows "lookup_loop server d fuel start draw rows \<noteq> None"
  using assms(2,3)
proof (induction fuel arbitrary: start draw rows)
  case 0
  then show ?case by simp
next
  case (Suc fuel)
  show ?case
  proof (cases "fetch_parsed server d draw start")
    case (Inl e)
    then show ?thesis by simp
  next
    case (Inr page)
    have total: "pp_total_records page \<le> n" using assms(1) Inr by blast
    show ?thesis
    proof (cases "pp_rows page = [] \<or> pp_total_records page = 0
        \<or> pp_total_records page \<le> start + length (pp_rows page)")
      case True
      then show ?thesis using Inr by (auto simp: Let_def)
    next
      case False
      then have "1 \<le> length (pp_rows page)" by (cases "pp_rows page") auto
      then show ?thesis
        using False Inr total Suc.prems Suc.IH [of "start + length (pp_rows page)" "draw + 1" "rows @ pp_rows page"]
        by (auto simp: Let_def)
    qed
  qed
qed

text \<open>A server that holds a list of lines and serves the slice a request asks for.\<close>

type_synonym phone_line = "pystr \<times> pystr \<times> pystr"

definition line_json :: "phone_line \<Rightarrow> json" where
  "line_json l = (case l of (m, n, c) \<Rightarrow>
     JObj [(''modalidad'', JStr m), (''numeroServicio'', JStr n), (''operador'', JStr c)])"

definition line_row :: "phone_line \<Rightarrow> row" where
  "line_row l = (case l of (m, n, c) \<Rightarrow> [CStr m, CStr n, CStr c])"

definition clean_line :: "phone_line \<Rightarrow> bool" where
  "clean_line l = (case l of (m, n, c) \<Rightarrow>
     list_all (\<lambda>s. s \<noteq> [] \<and> py_strip s = s) [m, n, c])"

definition page_json :: "phone_line list \<Rightarrow> nat \<Rightarrow> json" where
  "page_json lines start =
     JObj [(''estado'', JBool False), (''iTotalRecords'', JInt (int (length lines))),
           (''data'', JList (map line_json (take PAGE_SIZE (drop start lines))))]"

definition serves :: "api_server \<Rightarrow> doc \<Rightarrow> phone_line list \<Rightarrow> bool" where
  "serves server d lines \<longleftrightarrow>
     (\<forall>draw start. server draw (build_payload (for_doc d draw start PAGE_SIZE))
        = HttpResponse 200 (dumps (page_json lines start)))"

lemma page_json_float_free: "float_free (page_json lines start)"
  by (auto simp: page_json_def line_json_def list_all_iff split: prod.splits)

lemma line_from_json: "clean_line l \<Longrightarrow> line_from_row (line_json l) = Inr (line_row l)"
  by (cases l) (auto simp: clean_line_def line_json_def line_from_row_def line_row_def json_get_def
      required_text_def)

lemma serves_page:
  assumes "serves server d lines" "list_all clean_line lines"
  shows "fetch_parsed server d draw start
    = Inr \<lparr>pp_total_records = length lines, pp_rows = map line_row (take PAGE_SIZE (drop start lines))\<rparr>"
proof -
  have "fetch_page server d draw start PAGE_SIZE = Inr (page_json lines start)"
    using assms(1)
    by (simp add: serves_def fetch_page_def loads_dumps_id page_json_float_free classify_status_def
        TRANSIENT_STATUSES_def BAN_STATUSES_def)
  moreover have "map_res line_from_row (map line_json (take PAGE_SIZE (drop start lines)))
      = Inr (map line_row (take PAGE_SIZE (drop start lines)))"
  proof -
    have "map_res (line_from_row \<circ> line_json) ls = Inr (map line_row ls)" if "list_all clean_line ls" for ls
      using that by (induction ls) (auto simp: line_from_json)
    moreover have "map_res line_from_row (map line_json ls) = map_res (line_from_row \<circ> line_json) ls" for ls
      by (induction ls) auto
    moreover have "list_all clean_line (take PAGE_SIZE (drop start lines))"
      using assms(2) by (auto simp: list_all_iff dest: in_set_takeD in_set_dropD)
    ultimately show ?thesis by simp
  qed
  ultimately show ?thesis
    by (simp add: fetch_parsed_def parse_page_def page_json_def json_get_def total_records_def rows_of_def)
qed

lemma lookup_loop_pages:
  assumes "serves server d lines" "list_all clean_line lines" "start \<le> length lines"
  shows "lookup_loop server d fuel start draw rows =
    (if 1 \<le> fuel \<and> length lines \<le> start + fuel * PAGE_SIZE
     then Some (Inr (rows @ map line_row (drop start lines))) else None)"
  using assms(3)
proof (induction fuel arbitrary: start draw rows)
  case 0
  then show ?case by simp
next
  case (Suc fuel)
  note page = serves_page [OF assms(1,2), of draw start]
  let ?ls = "take PAGE_SIZE (drop start lines)"
  show ?case
  proof (cases "length lines \<le> start + PAGE_SIZE")
    case True
    then show ?thesis using page Suc.prems by (auto simp: Let_def)
  next
    case False
    then have len: "length ?ls = PAGE_SIZE" by simp
    have "0 < PAGE_SIZE" by (simp add: PAGE_SIZE_def)
    then have "?ls \<noteq> []" using len by (metis length_greater_0_conv)
    moreover have "map line_row ?ls @ map line_row (drop (start + PAGE_SIZE) lines) = map line_row (drop start lines)"
      by (metis add.commute append_take_drop_id drop_drop map_append)
    moreover have "1 \<le> fuel \<and> length lines \<le> start + PAGE_SIZE + fuel * PAGE_SIZE \<longleftrightarrow> length lines \<le> start + Suc fuel * PAGE_SIZE"
      using False by (cases fuel) auto
    moreover note Suc.IH [of "start + PAGE_SIZE" "draw + 1" "rows @ map line_row ?ls"]
    ultimately show ?thesis using page False len by (auto simp: Let_def)
  qed
qed

lemma count_carriers_eq:
  "count_carriers cs t c = (if c \<in> set cs then Some ((case t c of None \<Rightarrow> 0 | Some n \<Rightarrow> n) + count_list cs c) else t c)"
  by (induction cs arbitrary: t) (auto split: option.splits)

lemma map_res_carriers: "list_all is_line rows \<Longrightarrow> \<exists>cs. map_res carrier_of rows = Inr cs \<and> length cs = length rows"
  by (induction rows) (auto simp: is_line_def carrier_of_def)

lemma sum_count_list: "(\<Sum>c\<leftarrow>sort (remdups cs). count_list cs c) = length cs"
proof -
  have "(\<Sum>c\<leftarrow>sort (remdups cs). count_list cs c) = (\<Sum>c\<in>set cs. count_list cs c)"
    by (metis distinct_remdups distinct_sort set_remdups set_sort sum_list_distinct_conv_sum_set)
  also have "\<dots> = length cs" by (simp add: sum_count_set)
  finally show ?thesis .
qed

lemma counts_rows:
  assumes "list_all is_line rows"
  shows "\<exists>cs out. map_res carrier_of rows = Inr cs \<and> counts rows = Inr out \<and> length cs = length rows
    \<and> out = map (\<lambda>c. [CStr c, CInt (int (count_list cs c)), CInt (int (length rows))]) (sort (remdups cs))"
proof -
  obtain cs where cs: "map_res carrier_of rows = Inr cs" "length cs = length rows"
    using map_res_carriers [OF assms] by blast
  have "the (count_carriers cs Map.empty c) = count_list cs c" if "c \<in> set cs" for c
    using that by (simp add: count_carriers_eq)
  then show ?thesis using cs by (auto simp: counts_def Let_def)
qed

text \<open>The number of lines a row of the projection reports.\<close>

definition row_lines :: "row \<Rightarrow> int" where
  "row_lines r = (case r of [_, CInt n, _] \<Rightarrow> n | _ \<Rightarrow> 0)"

section \<open>Properties\<close>

text \<open>C11: against a server that serves the slices of a list of clean lines, the paging loop returns
  exactly that list, in order, each line once, and takes exactly one request for every page of 5000 lines
  begun, and one when there are no lines: with fewer it has not returned.\<close>

theorem lookup_complete:
  assumes "serves server d lines" "list_all clean_line lines"
  shows "lookup server requests d =
    (if max 1 ((length lines + 4999) div 5000) \<le> requests then Some (Inr (map line_row lines)) else None)"
proof -
  have "max 1 ((length lines + 4999) div 5000) \<le> requests \<longleftrightarrow> 1 \<le> requests \<and> length lines \<le> 0 + requests * PAGE_SIZE"
    by (auto simp: PAGE_SIZE_def)
  then show ?thesis
    using lookup_loop_pages [OF assms, of 0 requests 1 "[]"] by (simp add: lookup_def)
qed

definition two_lines :: "phone_line list" where
  "two_lines = [(''Prepago'', ''999111222'', ''CLARO''), (''Postpago'', ''999111223'', ''ENTEL'')]"

definition two_lines_server :: api_server where
  "two_lines_server draw form =
     (case map_of form ''start'' of
        None \<Rightarrow> HttpResponse 400 []
      | Some s \<Rightarrow> (case py_int s of None \<Rightarrow> HttpResponse 400 []
          | Some i \<Rightarrow> HttpResponse 200 (dumps (page_json two_lines (nat i)))))"

lemma build_payload_start: "map_of (build_payload (for_doc d draw start n)) ''start'' = Some (nat_str start)"
  by (simp add: build_payload_def for_doc_def)

lemma two_lines_served: "serves two_lines_server d two_lines"
  by (simp add: serves_def two_lines_server_def build_payload_start py_int_nat_str)

lemma two_lines_clean: "list_all clean_line two_lines"
  by code_simp

theorem lookup_complete_witness:
  "lookup two_lines_server 1 \<lparr>doc_text = ''12345678'', doc_kind = DNI\<rparr> = Some (Inr (map line_row two_lines))
   \<and> lookup two_lines_server 0 \<lparr>doc_text = ''12345678'', doc_kind = DNI\<rparr> = None"
  using lookup_complete [OF two_lines_served two_lines_clean, of _ "\<lparr>doc_text = ''12345678'', doc_kind = DNI\<rparr>"]
  by (simp add: two_lines_def)

text \<open>The loop ends against any server, honest or not, that never claims more than \<open>n\<close> records:
  \<open>n\<close> requests (one when \<open>n\<close> is 0) are enough, because a page without rows ends it.\<close>

theorem lookup_ends:
  assumes "\<And>draw start page. fetch_parsed server d draw start = Inr page \<Longrightarrow> pp_total_records page \<le> n"
  shows "lookup server (max 1 n) d \<noteq> None"
  unfolding lookup_def by (rule lookup_loop_ends [where n = n]) (use assms in auto)

theorem lookup_ends_witness:
  "lookup two_lines_server 2 \<lparr>doc_text = ''12345678'', doc_kind = DNI\<rparr> \<noteq> None"
proof -
  have "lookup two_lines_server (max 1 2) \<lparr>doc_text = ''12345678'', doc_kind = DNI\<rparr> \<noteq> None"
    by (rule lookup_ends) (simp add: serves_page [OF two_lines_served two_lines_clean] two_lines_def)
  then show ?thesis by (simp add: max_def)
qed

text \<open>The rows of a successful lookup always project: the projection raises nothing on them,
  lists every carrier once in order, and its line counts add up to the number of rows, which
  is also the total each of its rows carries.\<close>

theorem counts_of_lookup:
  assumes "lookup server fuel d = Some (Inr rows)"
  shows "\<exists>cs out. map_res carrier_of rows = Inr cs \<and> counts rows = Inr out
    \<and> out = map (\<lambda>c. [CStr c, CInt (int (count_list cs c)), CInt (int (length rows))]) (sort (remdups cs))
    \<and> (\<Sum>r\<leftarrow>out. row_lines r) = int (length rows)"
proof -
  have "list_all is_line rows"
    using lookup_loop_lines [of server d fuel 0 1 "[]" rows] assms by (simp add: lookup_def)
  then obtain cs out where cs: "map_res carrier_of rows = Inr cs" "counts rows = Inr out"
    "length cs = length rows"
    "out = map (\<lambda>c. [CStr c, CInt (int (count_list cs c)), CInt (int (length rows))]) (sort (remdups cs))"
    using counts_rows by blast
  have "(\<Sum>r\<leftarrow>out. row_lines r) = (\<Sum>c\<leftarrow>sort (remdups cs). int (count_list cs c))"
    by (simp add: cs(4) row_lines_def comp_def)
  also have "\<dots> = int (\<Sum>c\<leftarrow>sort (remdups cs). count_list cs c)"
    by (induction "sort (remdups cs)") (simp_all add: sum_list_of_nat [symmetric] comp_def)
  also have "\<dots> = int (length rows)" by (metis cs(3) sum_count_list)
  finally show ?thesis using cs(1,2,4) by blast
qed

theorem counts_of_lookup_witness:
  "\<exists>out. counts (map line_row two_lines) = Inr out \<and> (\<Sum>r\<leftarrow>out. row_lines r) = 2"
proof -
  have "lookup two_lines_server 1 \<lparr>doc_text = [], doc_kind = DNI\<rparr> = Some (Inr (map line_row two_lines))"
    using lookup_loop_pages [OF two_lines_served two_lines_clean, where start = 0 and fuel = 1 and draw = 1 and rows = "[]"]
    by (simp add: lookup_def two_lines_def PAGE_SIZE_def)
  from counts_of_lookup [OF this] show ?thesis by (auto simp: two_lines_def)
qed

lemma duplicates_of_Nil: "duplicates_of names = [] \<longleftrightarrow> distinct names"
proof -
  have "duplicates_of names = [] \<longleftrightarrow> (\<forall>n\<in>set names. count_list names n \<le> 1)"
    unfolding duplicates_of_def
    by (metis (no_types, lifting) filter_False filter_empty_conv not_le remdups.simps(1) remdups_eq_nil_iff
        set_empty set_sort sort_key_simps(1))
  also have "\<dots> \<longleftrightarrow> distinct names"
  proof (induction names)
    case Nil
    then show ?case by simp
  next
    case (Cons a names)
    then show ?case by (auto simp: count_list_0_iff)
  qed
  finally show ?thesis .
qed
text \<open>The site list of a command is accepted exactly when it is a non-empty list of different known
  sites, and then yields them in the order given; everything else is a \<open>ValueError\<close>.\<close>

theorem get_sites_accepts:
  "((\<exists>ss. get_sites names = Inr ss) \<longleftrightarrow>
      names \<noteq> [] \<and> distinct names \<and> set names \<subseteq> fst ` set SITES)
   \<and> (\<forall>ss. get_sites names = Inr ss \<longrightarrow> map site_name ss = names)
   \<and> (\<forall>e. get_sites names = Inl e \<longrightarrow> exn_class e = ValueError)"
proof -
  have known: "filter (\<lambda>n. map_of SITES n = None) names = [] \<longleftrightarrow> set names \<subseteq> fst ` set SITES"
    by (auto simp: filter_empty_conv map_of_eq_None_iff)
  have name: "site_name (the (map_of SITES n)) = n" if "n \<in> fst ` set SITES" for n
    using that by (auto simp: SITES_def)
  have ok: "get_sites names = Inr (map (\<lambda>n. the (map_of SITES n)) names)"
    if "names \<noteq> []" "distinct names" "set names \<subseteq> fst ` set SITES"
    using that known by (simp add: get_sites_def duplicates_of_Nil Let_def)
  have bad: "\<exists>e. get_sites names = Inl e \<and> exn_class e = ValueError"
    if "\<not> (names \<noteq> [] \<and> distinct names \<and> set names \<subseteq> fst ` set SITES)"
    using that known by (auto simp: get_sites_def duplicates_of_Nil Let_def raise_exn_def)
  show ?thesis
  proof (cases "names \<noteq> [] \<and> distinct names \<and> set names \<subseteq> fst ` set SITES")
    case True
    then have "\<forall>n\<in>set names. site_name (the (map_of SITES n)) = n" using name by blast
    then have "map site_name (map (\<lambda>n. the (map_of SITES n)) names) = names"
      unfolding map_map by (intro map_idI) simp
    then show ?thesis using True ok by auto
  next
    case False
    then show ?thesis using bad by auto
  qed
qed

theorem get_sites_accepts_witness:
  "map site_name [OSIPTEL] = [''osiptel''] \<and> get_sites [''osiptel''] = Inr [OSIPTEL]"
proof -
  have h: "get_sites [''osiptel''] = Inr [OSIPTEL]"
    by (simp add: get_sites_def duplicates_of_def SITES_def OSIPTEL_def)
  show ?thesis using h get_sites_accepts [of "[''osiptel'']"] by blast
qed

end
