(* ===== verification/Outcomes.thy ===== *)
theory Outcomes
  imports Breaker Csv Osiptel "HOL-Library.AList" "HOL-Library.Product_Lexorder"
begin

text \<open>
  The command line's store of outcomes: \<open>cli/store\<close>. A table is the list of its rows by primary
  key; \<open>finished_at\<close> and the other clock texts are arguments. \<open>plan.py\<close> and \<open>import_.py\<close> read the
  text of a CSV file, \<open>export.py\<close> produces the texts of the files it replaces.
\<close>

section \<open>Payload\<close>

fun cell_json :: "cell \<Rightarrow> json" where
  "cell_json (CStr s) = JStr s"
| "cell_json (CInt i) = JInt i"
| "cell_json (CBool b) = JBool b"

definition encode_rows :: "row list \<Rightarrow> pystr" where
  "encode_rows rows = dumps (JList (map (\<lambda>r. JList (map cell_json r)) rows))"

text \<open>A boolean is an \<open>int\<close> for the check.\<close>

definition json_cell :: "json \<Rightarrow> cell option" where
  "json_cell j =
     (case j of JStr s \<Rightarrow> Some (CStr s) | JInt i \<Rightarrow> Some (CInt i) | JBool b \<Rightarrow> Some (CBool b) | _ \<Rightarrow> None)"

definition MALFORMED :: exn where
  "MALFORMED = raise_exn ProviderSchemaError ''stored payload row is malformed''"

definition decode_row :: "json \<Rightarrow> exn + row" where
  "decode_row item =
     (case item of
        JList cells \<Rightarrow>
          map_res (\<lambda>c. case json_cell c of None \<Rightarrow> Inl MALFORMED | Some x \<Rightarrow> Inr x) cells
      | _ \<Rightarrow> Inl MALFORMED)"

definition decode_rows :: "pystr \<Rightarrow> exn + row list" where
  "decode_rows text =
     (case loads text of
        None \<Rightarrow> Inl JSON_DECODE_ERROR
      | Some (JList items) \<Rightarrow> map_res decode_row items
      | Some _ \<Rightarrow> schema_error ''stored payload is not a list'')"

section \<open>Tables\<close>

type_synonym pair_key = "pystr \<times> pystr"

record outcome =
  oc_status :: status
  oc_payload :: pystr
  oc_error_code :: pystr
  oc_error_detail :: pystr
  oc_attempt_count :: nat
  oc_session_id :: pystr
  oc_proxy_id :: pystr
  oc_provider :: pystr
  oc_finished_at :: pystr

record breaker_row =
  br_consecutive_failures :: nat
  br_level :: nat
  br_open_until :: "seconds option"
  br_updated_at :: pystr

record run_row =
  rn_run_id :: pystr
  rn_input_path :: pystr
  rn_input_sha256 :: pystr
  rn_output_path :: pystr
  rn_sites :: pystr
  rn_providers :: pystr
  rn_host :: pystr
  rn_started_at :: pystr
  rn_finished_at :: pystr

type_synonym outcome_table = "(pair_key \<times> outcome) list"

record store =
  os_outcomes :: outcome_table
  os_breakers :: "(pair_key \<times> breaker_row) list"
  os_runs :: "run_row list"

definition empty_store :: store where
  "empty_store = \<lparr>os_outcomes = [], os_breakers = [], os_runs = []\<rparr>"

text \<open>
  \<open>INSERT ... ON CONFLICT DO UPDATE ... WHERE\<close>: the update is None where its condition fails.
\<close>

definition upsert :: "'k \<Rightarrow> 'v \<Rightarrow> ('v \<Rightarrow> 'v option) \<Rightarrow> ('k \<times> 'v) list \<Rightarrow> ('k \<times> 'v) list" where
  "upsert k ins upd t =
     (case map_of t k of
        None \<Rightarrow> AList.update k ins t
      | Some old \<Rightarrow> (case upd old of None \<Rightarrow> t | Some new \<Rightarrow> AList.update k new t))"

definition upsert_success ::
  "pystr \<Rightarrow> pystr \<Rightarrow> pystr \<Rightarrow> pystr \<Rightarrow> pystr \<Rightarrow> pystr \<Rightarrow> pystr \<Rightarrow> outcome_table \<Rightarrow> outcome_table" where
  "upsert_success site doc payload session_id proxy_id provider now t =
     upsert (site, doc)
       \<lparr>oc_status = OK, oc_payload = payload, oc_error_code = [], oc_error_detail = [],
        oc_attempt_count = 0, oc_session_id = session_id, oc_proxy_id = proxy_id,
        oc_provider = provider, oc_finished_at = now\<rparr>
       (\<lambda>old. Some (old\<lparr>oc_status := OK, oc_payload := payload, oc_error_code := [],
          oc_error_detail := [], oc_session_id := session_id, oc_proxy_id := proxy_id,
          oc_provider := provider, oc_finished_at := now\<rparr>)) t"

definition upsert_failure ::
  "pystr \<Rightarrow> pystr \<Rightarrow> pystr \<Rightarrow> pystr \<Rightarrow> nat \<Rightarrow> pystr \<Rightarrow> pystr \<Rightarrow> pystr \<Rightarrow> pystr \<Rightarrow> outcome_table \<Rightarrow> outcome_table" where
  "upsert_failure site doc error_code error_detail attempt_count session_id proxy_id provider now t =
     upsert (site, doc)
       \<lparr>oc_status = FAILED, oc_payload = ''[]'', oc_error_code = error_code,
        oc_error_detail = error_detail, oc_attempt_count = attempt_count,
        oc_session_id = session_id, oc_proxy_id = proxy_id, oc_provider = provider,
        oc_finished_at = now\<rparr>
       (\<lambda>old. if oc_status old \<in> {OK, NOT_FOUND} then None
         else Some (old\<lparr>oc_status := FAILED, oc_error_code := error_code,
          oc_error_detail := error_detail,
          oc_attempt_count := oc_attempt_count old + attempt_count,
          oc_session_id := session_id, oc_proxy_id := proxy_id, oc_provider := provider,
          oc_finished_at := now\<rparr>)) t"

definition upsert_not_found ::
  "pystr \<Rightarrow> pystr \<Rightarrow> pystr \<Rightarrow> pystr \<Rightarrow> pystr \<Rightarrow> pystr \<Rightarrow> outcome_table \<Rightarrow> outcome_table" where
  "upsert_not_found site doc session_id proxy_id provider now t =
     upsert (site, doc)
       \<lparr>oc_status = NOT_FOUND, oc_payload = ''[]'', oc_error_code = [], oc_error_detail = [],
        oc_attempt_count = 0, oc_session_id = session_id, oc_proxy_id = proxy_id,
        oc_provider = provider, oc_finished_at = now\<rparr>
       (\<lambda>old. if oc_status old = OK then None
         else Some (old\<lparr>oc_status := NOT_FOUND, oc_payload := ''[]'', oc_error_code := [],
          oc_error_detail := [], oc_session_id := session_id, oc_proxy_id := proxy_id,
          oc_provider := provider, oc_finished_at := now\<rparr>)) t"

section \<open>Writing\<close>

definition write_success ::
  "pystr \<Rightarrow> pystr \<Rightarrow> row list \<Rightarrow> pystr \<Rightarrow> pystr \<Rightarrow> pystr \<Rightarrow> pystr \<Rightarrow> store \<Rightarrow> store" where
  "write_success site doc rows session_id proxy_id provider now s =
     s\<lparr>os_outcomes :=
        upsert_success site doc (encode_rows rows) session_id proxy_id provider now (os_outcomes s)\<rparr>"

definition store_success :: "result \<Rightarrow> pystr \<Rightarrow> store \<Rightarrow> store" where
  "store_success r now s =
     write_success (res_site r) (doc_text (res_doc r)) (res_rows r) (res_http_session_id r)
       (res_proxy_id r) (res_provider r) now s"

definition store_import :: "pystr \<Rightarrow> pystr \<Rightarrow> row list \<Rightarrow> pystr \<Rightarrow> store \<Rightarrow> store" where
  "store_import site doc rows now s = write_success site doc rows [] [] [] now s"

definition store_not_found :: "result \<Rightarrow> pystr \<Rightarrow> store \<Rightarrow> store" where
  "store_not_found r now s =
     s\<lparr>os_outcomes := upsert_not_found (res_site r) (doc_text (res_doc r)) (res_http_session_id r)
        (res_proxy_id r) (res_provider r) now (os_outcomes s)\<rparr>"

definition store_failure :: "result \<Rightarrow> pystr \<Rightarrow> store \<Rightarrow> store" where
  "store_failure r now s =
     (let increment = (if res_made_healthy_contact r then res_attempt r else 0)
      in s\<lparr>os_outcomes := upsert_failure (res_site r) (doc_text (res_doc r)) (res_error_code r)
            (res_error_detail r) increment (res_http_session_id r) (res_proxy_id r)
            (res_provider r) now (os_outcomes s)\<rparr>)"

definition INTEGRITY_ERROR :: exn where
  "INTEGRITY_ERROR = raise_exn (BuiltinError ''IntegrityError'') ''UNIQUE constraint failed''"

definition start_run ::
  "pystr \<Rightarrow> pystr \<Rightarrow> pystr \<Rightarrow> pystr \<Rightarrow> pystr list \<Rightarrow> pystr list \<Rightarrow> pystr \<Rightarrow> pystr \<Rightarrow> store \<Rightarrow> exn + store" where
  "start_run run_id input_path sha output_path sites providers host now s =
     (if run_id \<in> rn_run_id ` set (os_runs s) then Inl INTEGRITY_ERROR
      else Inr (s\<lparr>os_runs := os_runs s @
        [\<lparr>rn_run_id = run_id, rn_input_path = input_path, rn_input_sha256 = sha,
          rn_output_path = output_path, rn_sites = py_join '','' sites,
          rn_providers = py_join '','' providers, rn_host = host, rn_started_at = now,
          rn_finished_at = []\<rparr>]\<rparr>))"

definition finish_run :: "pystr \<Rightarrow> pystr \<Rightarrow> store \<Rightarrow> store" where
  "finish_run run_id now s =
     s\<lparr>os_runs := map (\<lambda>r. if rn_run_id r = run_id then r\<lparr>rn_finished_at := now\<rparr> else r) (os_runs s)\<rparr>"

definition stored_breaker :: "pystr \<Rightarrow> pystr \<Rightarrow> store \<Rightarrow> breaker_state option" where
  "stored_breaker source provider s =
     map_option (\<lambda>r. \<lparr>bs_source = source, bs_provider = provider,
         bs_consecutive_failures = br_consecutive_failures r, bs_level = br_level r,
         bs_open_until = br_open_until r\<rparr>)
       (map_of (os_breakers s) (source, provider))"

definition record_breaker :: "breaker_state \<Rightarrow> pystr \<Rightarrow> store \<Rightarrow> store" where
  "record_breaker st now s =
     (let r = \<lparr>br_consecutive_failures = bs_consecutive_failures st, br_level = bs_level st,
              br_open_until = bs_open_until st, br_updated_at = now\<rparr>
      in s\<lparr>os_breakers := upsert (bs_source st, bs_provider st) r (\<lambda>_. Some r) (os_breakers s)\<rparr>)"

section \<open>Reading\<close>

definition is_terminal :: "nat \<Rightarrow> outcome \<Rightarrow> bool" where
  "is_terminal cap r \<longleftrightarrow> oc_status r \<in> {OK, NOT_FOUND} \<or> cap \<le> oc_attempt_count r"

definition done_pairs :: "nat \<Rightarrow> store \<Rightarrow> pair_key list" where
  "done_pairs cap s = map fst (filter (\<lambda>kr. is_terminal cap (snd kr)) (os_outcomes s))"

record outcome_counts =
  ct_succeeded :: nat
  ct_not_found :: nat
  ct_terminal_failed :: nat
  ct_retryable :: nat

definition count_where :: "pystr \<Rightarrow> (outcome \<Rightarrow> bool) \<Rightarrow> store \<Rightarrow> nat" where
  "count_where site P s = length (filter (\<lambda>kr. fst (fst kr) = site \<and> P (snd kr)) (os_outcomes s))"

definition store_counts :: "pystr \<Rightarrow> nat \<Rightarrow> store \<Rightarrow> outcome_counts" where
  "store_counts site cap s =
     \<lparr>ct_succeeded = count_where site (\<lambda>r. oc_status r = OK) s,
      ct_not_found = count_where site (\<lambda>r. oc_status r = NOT_FOUND) s,
      ct_terminal_failed = count_where site (\<lambda>r. oc_status r = FAILED \<and> cap \<le> oc_attempt_count r) s,
      ct_retryable = count_where site (\<lambda>r. oc_status r = FAILED \<and> oc_attempt_count r < cap) s\<rparr>"

text \<open>The rows of a site with a status, by document.\<close>

definition select_rows :: "pystr \<Rightarrow> status \<Rightarrow> store \<Rightarrow> (pystr \<times> outcome) list" where
  "select_rows site st s =
     sort_key fst (map (\<lambda>kr. (snd (fst kr), snd kr))
       (filter (\<lambda>kr. fst (fst kr) = site \<and> oc_status (snd kr) = st) (os_outcomes s)))"

definition success_rows :: "pystr \<Rightarrow> store \<Rightarrow> exn + (pystr \<times> row list) list" where
  "success_rows site s =
     map_res (\<lambda>dr. bind_res (decode_rows (oc_payload (snd dr))) (\<lambda>rows. Inr (fst dr, rows)))
       (select_rows site OK s)"

definition not_found_rows :: "pystr \<Rightarrow> store \<Rightarrow> pystr list list" where
  "not_found_rows site s =
     map (\<lambda>dr. [fst dr, oc_finished_at (snd dr)]) (select_rows site NOT_FOUND s)"

definition error_rows :: "pystr \<Rightarrow> store \<Rightarrow> pystr list list" where
  "error_rows site s =
     map (\<lambda>(d, r). [d, oc_error_code r, oc_error_detail r, nat_str (oc_attempt_count r),
        oc_session_id r, oc_proxy_id r, oc_provider r, oc_finished_at r]) (select_rows site FAILED s)"

record outcome_record =
  or_site :: pystr
  or_doc :: pystr
  or_status :: status
  or_rows :: "row list"
  or_error_code :: pystr
  or_error_detail :: pystr
  or_attempt_count :: nat
  or_session_id :: pystr
  or_proxy_id :: pystr
  or_provider :: pystr
  or_finished_at :: pystr

definition to_record :: "pair_key \<times> outcome \<Rightarrow> exn + outcome_record" where
  "to_record kr =
     (case kr of ((site, doc), r) \<Rightarrow>
        bind_res (decode_rows (oc_payload r)) (\<lambda>rows.
          Inr \<lparr>or_site = site, or_doc = doc, or_status = oc_status r, or_rows = rows,
               or_error_code = oc_error_code r, or_error_detail = oc_error_detail r,
               or_attempt_count = oc_attempt_count r, or_session_id = oc_session_id r,
               or_proxy_id = oc_proxy_id r, or_provider = oc_provider r,
               or_finished_at = oc_finished_at r\<rparr>))"

definition outcomes :: "store \<Rightarrow> exn + outcome_record list" where
  "outcomes s = map_res to_record (sort_key fst (os_outcomes s))"

definition record_snapshot :: "outcome_record \<Rightarrow> store \<Rightarrow> exn + store" where
  "record_snapshot r s =
     (if (or_site r, or_doc r) \<in> fst ` set (os_outcomes s) then Inl INTEGRITY_ERROR
      else Inr (s\<lparr>os_outcomes := os_outcomes s @
        [((or_site r, or_doc r),
          \<lparr>oc_status = or_status r, oc_payload = encode_rows (or_rows r),
           oc_error_code = or_error_code r, oc_error_detail = or_error_detail r,
           oc_attempt_count = or_attempt_count r, oc_session_id = or_session_id r,
           oc_proxy_id = or_proxy_id r, oc_provider = or_provider r,
           oc_finished_at = or_finished_at r\<rparr>)]\<rparr>))"

section \<open>Planning\<close>

record plan_counts =
  pc_rows_read :: nat
  pc_valid :: nat
  pc_ignored :: nat
  pc_duplicates :: nat

text \<open>The text is that of the file after decoding, without its byte order mark.\<close>

fun read_rows :: "bool \<Rightarrow> pystr list list \<Rightarrow> pystr list \<Rightarrow> doc list \<Rightarrow> plan_counts \<Rightarrow> doc list \<times> plan_counts" where
  "read_rows dedupe [] seen docs c = (docs, c)"
| "read_rows dedupe (row # rows) seen docs c =
     (let c = c\<lparr>pc_rows_read := pc_rows_read c + 1\<rparr>
      in if row = [] \<or> py_strip (hd row) = []
         then read_rows dedupe rows seen docs (c\<lparr>pc_ignored := pc_ignored c + 1\<rparr>)
         else
           (case parse_doc (hd row) of
              Inl _ \<Rightarrow> read_rows dedupe rows seen docs (c\<lparr>pc_ignored := pc_ignored c + 1\<rparr>)
            | Inr d \<Rightarrow>
                if dedupe \<and> doc_text d \<in> set seen
                then read_rows dedupe rows seen docs (c\<lparr>pc_duplicates := pc_duplicates c + 1\<rparr>)
                else read_rows dedupe rows (doc_text d # seen) (docs @ [d])
                       (c\<lparr>pc_valid := pc_valid c + 1\<rparr>)))"

definition read_docs :: "pystr \<Rightarrow> bool \<Rightarrow> doc list \<times> plan_counts" where
  "read_docs text dedupe =
     read_rows dedupe (csv_reader text) [] []
       \<lparr>pc_rows_read = 0, pc_valid = 0, pc_ignored = 0, pc_duplicates = 0\<rparr>"

definition plan_pending :: "doc list \<Rightarrow> site list \<Rightarrow> pair_key list \<Rightarrow> (pystr \<times> doc list) list" where
  "plan_pending docs sites done =
     map (\<lambda>st. (site_name st,
       filter (\<lambda>d. site_accepts st d \<and> (site_name st, doc_text d) \<notin> set done) docs)) sites"

definition count_unrouted :: "doc list \<Rightarrow> site list \<Rightarrow> nat" where
  "count_unrouted docs sites = length (filter (\<lambda>d. \<not> list_ex (\<lambda>st. site_accepts st d) sites) docs)"

section \<open>Export and import\<close>

text \<open>A path is its directory and its final component; the suffix starts at the last dot after any
  leading ones.\<close>

type_synonym path = "pystr \<times> pystr"

definition split_suffix :: "pystr \<Rightarrow> pystr \<times> pystr" where
  "split_suffix name =
     (let body = dropWhile (\<lambda>c. c = CHR ''.'') name
      in if CHR ''.'' \<in> set body
         then let n = length (takeWhile (\<lambda>c. c \<noteq> CHR ''.'') (rev name)) + 1
              in (take (length name - n) name, drop (length name - n) name)
         else (name, []))"

definition with_suffix :: "path \<Rightarrow> pystr \<Rightarrow> path" where
  "with_suffix p suffix = (fst p, fst (split_suffix (snd p)) @ suffix)"

definition insert_stem :: "path \<Rightarrow> pystr \<Rightarrow> path" where
  "insert_stem p name =
     (fst p, fst (split_suffix (snd p)) @ ''.'' @ name @ snd (split_suffix (snd p)))"

definition state_path_for_output :: "path \<Rightarrow> path" where
  "state_path_for_output p = with_suffix p ''.state.sqlite3''"

definition site_csv_path :: "path \<Rightarrow> pystr \<Rightarrow> path" where
  "site_csv_path output_csv name = insert_stem output_csv name"

definition projection_path :: "path \<Rightarrow> pystr \<Rightarrow> path" where
  "projection_path success_path name = insert_stem success_path name"

definition ERROR_HEADERS :: "pystr list" where
  "ERROR_HEADERS = [''doc'', ''error_code'', ''error_detail'', ''attempt'', ''session_id'',
                    ''proxy_id'', ''provider'', ''timestamp'']"

definition NOT_FOUND_HEADERS :: "pystr list" where
  "NOT_FOUND_HEADERS = [''doc'', ''timestamp'']"

definition doc_lines :: "(pystr \<times> row list) list \<Rightarrow> pystr list list" where
  "doc_lines drs = concat (map (\<lambda>(d, rows). map (\<lambda>r. d # map cell_str r) rows) drs)"

definition success_lines :: "pystr \<Rightarrow> store \<Rightarrow> exn + pystr list list" where
  "success_lines site s = bind_res (success_rows site s) (\<lambda>drs. Inr (doc_lines drs))"

definition projection_lines :: "pystr \<Rightarrow> projection \<Rightarrow> store \<Rightarrow> exn + pystr list list" where
  "projection_lines site pj s =
     bind_res (success_rows site s) (\<lambda>drs.
       bind_res (map_res (\<lambda>(d, rows). bind_res (pj_project pj rows) (\<lambda>out. Inr (d, out))) drs)
         (\<lambda>drs. Inr (doc_lines drs)))"

text \<open>A file is replaced only once its whole text is written, so an error leaves it as it was.\<close>

type_synonym files = "path \<Rightarrow> pystr option"

definition write_atomic ::
  "path \<Rightarrow> pystr list \<Rightarrow> exn + pystr list list \<Rightarrow> files \<times> exn option \<Rightarrow> files \<times> exn option" where
  "write_atomic p headers rows state =
     (case state of
        (fs, Some e) \<Rightarrow> (fs, Some e)
      | (fs, None) \<Rightarrow>
          (case rows of
             Inl e \<Rightarrow> (fs, Some e)
           | Inr lines \<Rightarrow> (fs(p \<mapsto> csv_writerow headers @ csv_writerows lines), None)))"

definition export_site :: "store \<Rightarrow> path \<Rightarrow> site \<Rightarrow> files \<times> exn option \<Rightarrow> files \<times> exn option" where
  "export_site s output_csv st state =
     (let name = site_name st;
          success_path = site_csv_path output_csv name;
          state = write_atomic success_path (''doc'' # site_columns st) (success_lines name s) state;
          state = foldl (\<lambda>state pj. write_atomic (projection_path success_path (pj_name pj))
                    (''doc'' # pj_columns pj) (projection_lines name pj s) state)
                  state (site_projections st);
          state = write_atomic (with_suffix success_path ''.errors.csv'') ERROR_HEADERS
                    (Inr (error_rows name s)) state
      in write_atomic (with_suffix success_path ''.not_found.csv'') NOT_FOUND_HEADERS
           (Inr (not_found_rows name s)) state)"

definition export_all :: "store \<Rightarrow> path \<Rightarrow> site list \<Rightarrow> files \<Rightarrow> files \<times> exn option" where
  "export_all s output_csv sites fs =
     foldl (\<lambda>state st. export_site s output_csv st state) (fs, None) sites"

fun group_rows :: "nat \<Rightarrow> pystr list list \<Rightarrow> (pystr \<times> row list) list \<Rightarrow> (pystr \<times> row list) list" where
  "group_rows width [] grouped = grouped"
| "group_rows width (row # rows) grouped =
     (if length row \<noteq> width then group_rows width rows grouped
      else
        (case parse_doc (hd row) of
           Inl _ \<Rightarrow> group_rows width rows grouped
         | Inr d \<Rightarrow>
             let old = (case map_of grouped (doc_text d) of None \<Rightarrow> [] | Some rs \<Rightarrow> rs)
             in group_rows width rows
                  (AList.update (doc_text d) (old @ [map CStr (tl row)]) grouped)))"

definition import_site :: "files \<Rightarrow> path \<Rightarrow> site \<Rightarrow> pystr \<Rightarrow> store \<Rightarrow> store \<times> nat" where
  "import_site fs output_csv st now s =
     (case fs (site_csv_path output_csv (site_name st)) of
        None \<Rightarrow> (s, 0)
      | Some text \<Rightarrow>
          let rows = csv_reader text; expected = ''doc'' # site_columns st
          in if text = [] \<or> (case rows of [] \<Rightarrow> [] | h # _ \<Rightarrow> h) \<noteq> expected then (s, 0)
             else
               let grouped = group_rows (length expected) (tl rows) []
               in (foldl (\<lambda>s dr. store_import (site_name st) (fst dr) (snd dr) now s) s grouped,
                   length grouped))"


section \<open>Facts\<close>

lemma map_of_upsert:
  "map_of (upsert k ins upd t) j =
     (if j = k then (case map_of t k of None \<Rightarrow> Some ins
                     | Some old \<Rightarrow> (case upd old of None \<Rightarrow> Some old | Some new \<Rightarrow> Some new))
      else map_of t j)"
  by (auto simp: upsert_def update_conv' split: option.splits)

lemma distinct_upsert: "distinct (map fst t) \<Longrightarrow> distinct (map fst (upsert k ins upd t))"
  by (auto simp: upsert_def distinct_update split: option.splits)

lemma float_free_cell: "float_free (cell_json c)"
  by (cases c) auto

lemma json_cell_json: "json_cell (cell_json c) = Some c"
  by (cases c) (auto simp: json_cell_def)

lemma decode_row_encoded: "decode_row (JList (map cell_json r)) = Inr r"
proof -
  have "map_res (\<lambda>c. case json_cell c of None \<Rightarrow> Inl MALFORMED | Some x \<Rightarrow> Inr x) (map cell_json r) = Inr r"
    by (induction r) (auto simp: json_cell_json)
  then show ?thesis by (simp add: decode_row_def)
qed

lemma decode_encode: "decode_rows (encode_rows rows) = Inr rows"
proof -
  have "loads (encode_rows rows) = Some (JList (map (\<lambda>r. JList (map cell_json r)) rows))"
    unfolding encode_rows_def by (rule loads_dumps_id) (auto simp: list_all_iff float_free_cell)
  moreover have "map_res decode_row (map (\<lambda>r. JList (map cell_json r)) rows) = Inr rows"
    by (induction rows) (auto simp: decode_row_encoded)
  ultimately show ?thesis by (simp add: decode_rows_def)
qed

section \<open>Sequences of writes\<close>

datatype store_op =
    RecordSuccess result pystr
  | RecordNotFound result pystr
  | RecordFailure result pystr
  | RecordImport pystr pystr "row list" pystr

fun apply_op :: "store_op \<Rightarrow> store \<Rightarrow> store" where
  "apply_op (RecordSuccess r now) s = store_success r now s"
| "apply_op (RecordNotFound r now) s = store_not_found r now s"
| "apply_op (RecordFailure r now) s = store_failure r now s"
| "apply_op (RecordImport site doc rows now) s = store_import site doc rows now s"

fun apply_ops :: "store_op list \<Rightarrow> store \<Rightarrow> store" where
  "apply_ops [] s = s"
| "apply_ops (x # xs) s = apply_ops xs (apply_op x s)"

lemmas write_defs = store_success_def store_import_def write_success_def store_not_found_def
  store_failure_def upsert_success_def upsert_failure_def upsert_not_found_def Let_def

text \<open>What a write may do to a row: \<open>ok\<close> stays, \<open>not_found\<close> can only become \<open>ok\<close>, attempts only grow.\<close>

definition row_le :: "outcome \<Rightarrow> outcome \<Rightarrow> bool" where
  "row_le r r' \<longleftrightarrow>
     (oc_status r = OK \<longrightarrow> oc_status r' = OK) \<and>
     (oc_status r = NOT_FOUND \<longrightarrow> oc_status r' \<in> {OK, NOT_FOUND}) \<and>
     oc_attempt_count r \<le> oc_attempt_count r'"

lemma row_le_refl: "row_le r r"
  by (auto simp: row_le_def)

lemma row_le_trans: "row_le a b \<Longrightarrow> row_le b c \<Longrightarrow> row_le a c"
  by (cases "oc_status a"; cases "oc_status b") (auto simp: row_le_def)

lemma row_le_terminal: "row_le r r' \<Longrightarrow> is_terminal cap r \<Longrightarrow> is_terminal cap r'"
  by (auto simp: row_le_def is_terminal_def)

lemma apply_op_le:
  "map_of (os_outcomes s) k = Some r \<Longrightarrow>
     \<exists>r'. map_of (os_outcomes (apply_op x s)) k = Some r' \<and> row_le r r'"
  by (cases x) (auto simp: write_defs map_of_upsert row_le_def split: option.splits)

lemma apply_ops_le:
  "map_of (os_outcomes s) k = Some r \<Longrightarrow>
     \<exists>r'. map_of (os_outcomes (apply_ops xs s)) k = Some r' \<and> row_le r r'"
proof (induction xs arbitrary: s r)
  case Nil
  then show ?case by (auto simp: row_le_refl)
next
  case (Cons x xs)
  obtain r1 where "map_of (os_outcomes (apply_op x s)) k = Some r1" "row_le r r1"
    using apply_op_le [OF Cons.prems] by blast
  then show ?case using Cons.IH [of "apply_op x s" r1] row_le_trans by auto
qed

definition keys_distinct :: "store \<Rightarrow> bool" where
  "keys_distinct s \<longleftrightarrow> distinct (map fst (os_outcomes s))"

lemma keys_distinct_op: "keys_distinct s \<Longrightarrow> keys_distinct (apply_op x s)"
  by (cases x) (auto simp: keys_distinct_def write_defs distinct_upsert)

lemma keys_distinct_ops: "keys_distinct s \<Longrightarrow> keys_distinct (apply_ops xs s)"
  by (induction xs arbitrary: s) (auto simp: keys_distinct_op)

lemma done_pairs_iff:
  assumes "keys_distinct s"
  shows "k \<in> set (done_pairs cap s) \<longleftrightarrow> (\<exists>r. map_of (os_outcomes s) k = Some r \<and> is_terminal cap r)"
  using assms
  by (auto simp: done_pairs_def keys_distinct_def intro: rev_image_eqI dest: map_of_SomeD)

lemma done_pairs_mono:
  assumes "keys_distinct s"
  shows "set (done_pairs cap s) \<subseteq> set (done_pairs cap (apply_ops xs s))"
proof
  fix k
  assume "k \<in> set (done_pairs cap s)"
  then obtain r where r: "map_of (os_outcomes s) k = Some r" "is_terminal cap r"
    using done_pairs_iff [OF assms] by blast
  obtain r' where "map_of (os_outcomes (apply_ops xs s)) k = Some r'" "row_le r r'"
    using apply_ops_le [OF r(1)] by blast
  then show "k \<in> set (done_pairs cap (apply_ops xs s))"
    using row_le_terminal r(2) done_pairs_iff [OF keys_distinct_ops [OF assms]] by blast
qed

text \<open>Whether the last write settles a pair: the site answered for it.\<close>

definition settles :: "store_op \<Rightarrow> pair_key \<Rightarrow> bool" where
  "settles x k =
     (case x of
        RecordSuccess r _ \<Rightarrow> k = (res_site r, doc_text (res_doc r))
      | RecordNotFound r _ \<Rightarrow> k = (res_site r, doc_text (res_doc r))
      | RecordFailure _ _ \<Rightarrow> False
      | RecordImport site d _ _ \<Rightarrow> k = (site, d))"

lemma settles_done: "settles x k \<Longrightarrow> \<exists>r. map_of (os_outcomes (apply_op x s)) k = Some r \<and> is_terminal cap r"
  by (cases x)
    (auto simp: settles_def write_defs map_of_upsert is_terminal_def split: option.splits)

lemma settled_done:
  assumes "keys_distinct s" "x \<in> set xs" "settles x k"
  shows "k \<in> set (done_pairs cap (apply_ops xs s))"
  using assms
proof (induction xs arbitrary: s)
  case Nil
  then show ?case by simp
next
  case (Cons y ys)
  have kd: "keys_distinct (apply_op y s)" using Cons.prems(1) by (rule keys_distinct_op)
  show ?case
  proof (cases "x = y")
    case True
    then have "k \<in> set (done_pairs cap (apply_op y s))"
      using settles_done [OF Cons.prems(3)] done_pairs_iff [OF kd] by blast
    then show ?thesis using done_pairs_mono [OF kd] by auto
  next
    case False
    then show ?thesis using Cons.IH [OF kd] Cons.prems by auto
  qed
qed

section \<open>Retiring failures\<close>

definition failure_weight :: "result \<Rightarrow> nat" where
  "failure_weight r = (if res_made_healthy_contact r then res_attempt r else 0)"

definition fail_all :: "pystr \<Rightarrow> result list \<Rightarrow> store \<Rightarrow> store" where
  "fail_all now rs s = apply_ops (map (\<lambda>r. RecordFailure r now) rs) s"

lemma fail_all_count:
  assumes "list_all (\<lambda>r. (res_site r, doc_text (res_doc r)) = k) rs"
    "map_of (os_outcomes s) k = Some o'" "oc_status o' = FAILED"
  shows "\<exists>o''. map_of (os_outcomes (fail_all now rs s)) k = Some o'' \<and> oc_status o'' = FAILED
    \<and> oc_attempt_count o'' = oc_attempt_count o' + sum_list (map failure_weight rs)"
  using assms
proof (induction rs arbitrary: s o')
  case Nil
  then show ?case by (simp add: fail_all_def)
next
  case (Cons r rs)
  let ?s = "store_failure r now s"
  obtain o1 where o1: "map_of (os_outcomes ?s) k = Some o1" "oc_status o1 = FAILED"
    "oc_attempt_count o1 = oc_attempt_count o' + failure_weight r"
    using Cons.prems by (auto simp: write_defs map_of_upsert failure_weight_def)
  show ?case
    using Cons.IH [OF _ o1(1,2)] Cons.prems(1) o1(3) by (auto simp: fail_all_def)
qed

lemma fail_first_count:
  assumes "list_all (\<lambda>r. (res_site r, doc_text (res_doc r)) = k) (r # rs)"
    "map_of (os_outcomes s) k = None"
  shows "\<exists>o'. map_of (os_outcomes (fail_all now (r # rs) s)) k = Some o' \<and> oc_status o' = FAILED
    \<and> oc_attempt_count o' = sum_list (map failure_weight (r # rs))"
proof -
  let ?s = "store_failure r now s"
  obtain o1 where o1: "map_of (os_outcomes ?s) k = Some o1" "oc_status o1 = FAILED"
    "oc_attempt_count o1 = failure_weight r"
    using assms by (auto simp: write_defs map_of_upsert failure_weight_def)
  show ?thesis
    using fail_all_count [OF _ o1(1,2), of rs] assms(1) o1(3) by (auto simp: fail_all_def)
qed

section \<open>Reading back\<close>

lemma select_rows_mem:
  assumes "keys_distinct s"
  shows "(d, r) \<in> set (select_rows site st s)
    \<longleftrightarrow> map_of (os_outcomes s) (site, d) = Some r \<and> oc_status r = st"
  using assms by (force simp: select_rows_def keys_distinct_def dest: map_of_SomeD)

text \<open>Every success row holds rows some write encoded.\<close>

definition payloads_encoded :: "store \<Rightarrow> bool" where
  "payloads_encoded s \<longleftrightarrow> list_all (\<lambda>kr. \<exists>rows. oc_payload (snd kr) = encode_rows rows) (os_outcomes s)"

lemma empty_payload: "encode_rows [] = ''[]''"
  by (simp add: encode_rows_def)

lemma set_upsert:
  "set (upsert k ins upd t) \<subseteq> insert (k, ins) (set t \<union> {(k, new) | old new. map_of t k = Some old \<and> upd old = Some new})"
proof -
  have "set (AList.update k v t) \<subseteq> insert (k, v) (set t)" for v
    by (induction t) auto
  then show ?thesis by (force simp: upsert_def split: option.splits)
qed

lemma payloads_encoded_op:
  assumes "payloads_encoded s"
  shows "payloads_encoded (apply_op x s)"
proof -
  have enc: "\<exists>rows. oc_payload r = encode_rows rows" if "map_of (os_outcomes s) k = Some r" for k r
    using that assms by (force simp: payloads_encoded_def list_all_iff dest: map_of_SomeD)
  have emp: "\<exists>rows. ''[]'' = encode_rows rows" using empty_payload by metis
  have all: "\<exists>rows. oc_payload r = encode_rows rows" if "(k, r) \<in> set (os_outcomes s)" for k r
    using that assms by (force simp: payloads_encoded_def list_all_iff)
  show ?thesis
    unfolding payloads_encoded_def list_all_iff
    by (cases x) (use enc emp all in \<open>fastforce simp: write_defs dest!: set_mp [OF set_upsert] split: if_splits\<close>)+
qed

lemma success_rows_total:
  assumes "payloads_encoded s"
  shows "\<exists>out. success_rows site s = Inr out
    \<and> map fst out = map fst (select_rows site OK s)
    \<and> (\<forall>d rows. (d, rows) \<in> set out \<longrightarrow> (\<exists>r. (d, r) \<in> set (select_rows site OK s) \<and> oc_payload r = encode_rows rows))"
proof -
  have "\<exists>rows. oc_payload (snd dr) = encode_rows rows" if "dr \<in> set (select_rows site OK s)" for dr
    using that assms by (fastforce simp: select_rows_def payloads_encoded_def list_all_iff)
  then obtain f where f: "\<And>dr. dr \<in> set (select_rows site OK s) \<Longrightarrow> oc_payload (snd dr) = encode_rows (f dr)"
    by metis
  have "success_rows site s = Inr (map (\<lambda>dr. (fst dr, f dr)) (select_rows site OK s))"
    unfolding success_rows_def by (rule map_res_all) (simp add: f decode_encode)
  then show ?thesis using f by (force simp: comp_def)
qed

section \<open>Exporting and importing\<close>

lemma split_suffix_append: "fst (split_suffix n) @ snd (split_suffix n) = n"
  by (simp add: split_suffix_def Let_def)

lemma split_suffix_dots: "CHR ''.'' \<notin> set (tl (snd (split_suffix n)))"
proof (cases "CHR ''.'' \<in> set (dropWhile (\<lambda>c. c = CHR ''.'') n)")
  case True
  then have "CHR ''.'' \<in> set n" by (metis set_dropWhileD)
  let ?t = "takeWhile (\<lambda>c. c \<noteq> CHR ''.'') (rev n)"
  obtain a b where ab: "n = a @ CHR ''.'' # b" "CHR ''.'' \<notin> set b"
    using \<open>CHR ''.'' \<in> set n\<close> by (metis split_list_last)
  have "rev n = rev b @ CHR ''.'' # rev a" by (simp add: ab(1))
  moreover have "takeWhile (\<lambda>c. c \<noteq> CHR ''.'') (rev b @ CHR ''.'' # rev a)
      = rev b @ takeWhile (\<lambda>c. c \<noteq> CHR ''.'') (CHR ''.'' # rev a)"
    by (rule takeWhile_append2) (use ab(2) in auto)
  ultimately have t: "?t = rev b" by simp
  have "drop (length n - (length ?t + 1)) n = CHR ''.'' # b"
    unfolding t by (simp add: ab(1))
  then show ?thesis using True ab(2) by (simp add: split_suffix_def Let_def)
next
  case False
  then show ?thesis by (simp add: split_suffix_def)
qed

lemma insert_stem_differs: "insert_stem p name \<noteq> p"
proof -
  have "length (snd (insert_stem p name)) = Suc (length (snd p) + length name)"
    using split_suffix_append [of "snd p"]
    by (simp add: insert_stem_def) (metis length_append add.assoc add.commute)
  then show ?thesis by (metis add_Suc not_add_less1 lessI less_add_Suc1)
qed

lemma with_suffix_differs:
  assumes "CHR ''.'' \<in> set (tl x)"
  shows "with_suffix p x \<noteq> p"
proof
  assume "with_suffix p x = p"
  then have "fst (split_suffix (snd p)) @ x = snd p" by (metis snd_conv with_suffix_def)
  then have "x = snd (split_suffix (snd p))" by (metis split_suffix_append same_append_eq)
  then show False using assms split_suffix_dots by metis
qed

lemma write_atomic_other:
  "q \<noteq> p \<Longrightarrow> fst (write_atomic q hs ls state) p = fst state p"
  by (auto simp: write_atomic_def split: prod.splits option.splits sum.splits)

lemma write_projections_other:
  "fst (foldl (\<lambda>state pj. write_atomic (projection_path p (pj_name pj)) (hs pj) (ls pj) state) state pjs) p
     = fst state p"
proof (induction pjs arbitrary: state)
  case Nil
  then show ?case by simp
next
  case (Cons pj pjs)
  have "projection_path p (pj_name pj) \<noteq> p" by (simp add: projection_path_def insert_stem_differs)
  then show ?case using Cons.IH write_atomic_other [of _ p] by simp
qed

lemma export_site_success:
  assumes "success_lines (site_name st) s = Inr lines"
  shows "fst (export_site s p st (fs, None)) (site_csv_path p (site_name st))
    = Some (csv_writerow (''doc'' # site_columns st) @ csv_writerows lines)"
proof -
  let ?p = "site_csv_path p (site_name st)"
  have "with_suffix ?p ''.errors.csv'' \<noteq> ?p" "with_suffix ?p ''.not_found.csv'' \<noteq> ?p"
    by (simp_all add: with_suffix_differs)
  then show ?thesis
    using assms
    by (simp add: export_site_def Let_def write_atomic_other write_projections_other)
      (simp add: write_atomic_def)
qed

text \<open>A document a store holds under its normal form.\<close>

definition normal_doc :: "pystr \<Rightarrow> bool" where
  "normal_doc d \<longleftrightarrow> (case parse_doc d of Inr x \<Rightarrow> doc_text x = d | Inl _ \<Rightarrow> False)"

lemma group_rows_doc:
  assumes "normal_doc d" "list_all (\<lambda>r. length r + 1 = w) rs"
  shows "group_rows w (map (Cons d) rs @ rest) grouped =
    (if rs = [] then group_rows w rest grouped
     else group_rows w rest (AList.update d
        ((case map_of grouped d of None \<Rightarrow> [] | Some x \<Rightarrow> x) @ map (map CStr) rs) grouped))"
  using assms(2)
proof (induction rs arbitrary: grouped)
  case Nil
  then show ?case by simp
next
  case (Cons r rs)
  obtain x where "parse_doc d = Inr x" "doc_text x = d"
    using assms(1) by (auto simp: normal_doc_def split: sum.splits)
  then show ?case
    using Cons by (auto simp: Let_def update_conv')
qed

definition as_texts :: "row list \<Rightarrow> row list" where
  "as_texts rows = map (map (\<lambda>c. CStr (cell_str c))) rows"

lemma update_new: "d \<notin> fst ` set xs \<Longrightarrow> AList.update d v xs = xs @ [(d, v)]"
  by (induction xs) auto

lemma group_rows_doc_lines:
  assumes "list_all (\<lambda>(d, rows). normal_doc d \<and> list_all (\<lambda>r. length r + 1 = w) rows) drs"
    "distinct (map fst grouped @ map fst drs)"
  shows "group_rows w (doc_lines drs) grouped
    = grouped @ map (\<lambda>(d, rows). (d, as_texts rows)) (filter (\<lambda>dr. snd dr \<noteq> []) drs)"
  using assms
proof (induction drs arbitrary: grouped)
  case Nil
  then show ?case by (simp add: doc_lines_def)
next
  case (Cons dr drs)
  obtain d rows where dr: "dr = (d, rows)" by (cases dr)
  let ?cells = "map (map cell_str) rows"
  have lines: "doc_lines (dr # drs) = map (Cons d) ?cells @ doc_lines drs"
    by (simp add: doc_lines_def dr comp_def)
  have d: "normal_doc d" "list_all (\<lambda>r. length r + 1 = w) ?cells" "d \<notin> fst ` set grouped"
    using Cons.prems dr by (auto simp: list_all_iff)
  then have none: "map_of grouped d = None" by (simp add: map_of_eq_None_iff)
  have texts: "map (map CStr) ?cells = as_texts rows" by (simp add: as_texts_def comp_def)
  show ?case
  proof (cases "rows = []")
    case True
    then show ?thesis using group_rows_doc [OF d(1,2)] lines Cons dr by simp
  next
    case False
    then have "group_rows w (doc_lines (dr # drs)) grouped = group_rows w (doc_lines drs) (grouped @ [(d, as_texts rows)])"
      using group_rows_doc [OF d(1,2), of "doc_lines drs" grouped] lines none texts update_new [OF d(3)] by simp
    then show ?thesis using Cons.IH [of "grouped @ [(d, as_texts rows)]"] Cons.prems dr False by auto
  qed
qed

definition imported_row :: "pystr \<Rightarrow> row list \<Rightarrow> outcome" where
  "imported_row now rows =
     \<lparr>oc_status = OK, oc_payload = encode_rows rows, oc_error_code = [], oc_error_detail = [],
      oc_attempt_count = 0, oc_session_id = [], oc_proxy_id = [], oc_provider = [], oc_finished_at = now\<rparr>"

lemma import_all:
  assumes "distinct (map fst (os_outcomes s) @ map (\<lambda>dr. (site, fst dr)) drs)"
  shows "os_outcomes (foldl (\<lambda>s dr. store_import site (fst dr) (snd dr) now s) s drs)
    = os_outcomes s @ map (\<lambda>dr. ((site, fst dr), imported_row now (snd dr))) drs"
  using assms
proof (induction drs arbitrary: s)
  case Nil
  then show ?case by simp
next
  case (Cons dr drs)
  have new: "(site, fst dr) \<notin> fst ` set (os_outcomes s)" using Cons.prems by auto
  then have "map_of (os_outcomes s) (site, fst dr) = None" by (simp add: map_of_eq_None_iff)
  then have "os_outcomes (store_import site (fst dr) (snd dr) now s)
      = os_outcomes s @ [((site, fst dr), imported_row now (snd dr))]"
    by (simp add: write_defs upsert_def update_new [OF new] imported_row_def)
  then show ?case using Cons.IH [of "store_import site (fst dr) (snd dr) now s"] Cons.prems by simp
qed

lemma select_rows_sorted:
  "keys_distinct s \<Longrightarrow> sorted (map fst (select_rows site st s)) \<and> distinct (map fst (select_rows site st s))"
proof -
  assume kd: "keys_distinct s"
  let ?f = "filter (\<lambda>kr. fst (fst kr) = site \<and> oc_status (snd kr) = st) (os_outcomes s)"
  have "distinct (map (snd \<circ> fst) ?f)"
    unfolding distinct_map
  proof
    show "distinct ?f" using kd by (simp add: keys_distinct_def distinct_map)
    show "inj_on (snd \<circ> fst) (set ?f)"
      using kd by (auto simp: keys_distinct_def distinct_map inj_on_def) (metis Pair_inject fst_conv)
  qed
  then have "distinct (map fst (map (\<lambda>kr. (snd (fst kr), snd kr)) ?f))" by (simp add: comp_def)
  then have "distinct (map fst (select_rows site st s))"
    unfolding select_rows_def distinct_map [of fst] by simp
  then show ?thesis by (simp add: select_rows_def)
qed

lemma site_rows_imported:
  assumes "os_outcomes s = map (\<lambda>dr. ((site, fst dr), imported_row now (snd dr))) drs"
    "sorted (map fst drs)"
  shows "success_rows site s = Inr drs"
proof -
  have "filter (\<lambda>kr. fst (fst kr) = site \<and> oc_status (snd kr) = OK) (os_outcomes s) = os_outcomes s"
    using assms(1) by (auto simp: filter_id_conv imported_row_def)
  then have "select_rows site OK s = sort_key fst (map (\<lambda>dr. (fst dr, imported_row now (snd dr))) drs)"
    using assms(1) by (simp add: select_rows_def comp_def)
  also have "\<dots> = map (\<lambda>dr. (fst dr, imported_row now (snd dr))) drs"
    by (rule sort_key_id_if_sorted) (simp add: comp_def assms(2))
  finally have "success_rows site s = map_res (\<lambda>dr. bind_res (decode_rows (oc_payload (snd dr)))
      (\<lambda>rows. Inr (fst dr, rows))) (map (\<lambda>dr. (fst dr, imported_row now (snd dr))) drs)"
    by (simp add: success_rows_def)
  also have "\<dots> = Inr drs"
    by (induction drs) (auto simp: imported_row_def decode_encode)
  finally show ?thesis .
qed

text \<open>What is needed of a store for its export to be readable: documents in normal form and rows
  as wide as the site's columns.\<close>

definition exportable :: "site \<Rightarrow> store \<Rightarrow> bool" where
  "exportable st s \<longleftrightarrow> keys_distinct s \<and>
     (case success_rows (site_name st) s of
        Inl _ \<Rightarrow> False
      | Inr drs \<Rightarrow> list_all (\<lambda>(d, rows). normal_doc d \<and> list_all (\<lambda>r. length r = length (site_columns st)) rows) drs)"

lemma list_all2_fst: "list_all2 P xs ys \<Longrightarrow> (\<And>x y. P x y \<Longrightarrow> fst y = fst x) \<Longrightarrow> map fst ys = map fst xs"
  by (induction xs ys rule: list_all2_induct) auto

lemma success_rows_docs:
  "success_rows site s = Inr drs \<Longrightarrow> map fst drs = map fst (select_rows site OK s)"
  unfolding success_rows_def map_res_Inr_iff
  by (erule list_all2_fst) (auto simp: bind_res_Inr_iff)

lemma sorted_filter_map: "sorted (map fst drs) \<Longrightarrow> sorted (map fst (filter P drs))"
  by (induction drs) auto

lemma export_import:
  assumes "exportable st s" "success_rows (site_name st) s = Inr drs"
  shows "success_rows (site_name st)
      (fst (import_site (fst (export_site s p st (fs, None))) p st now empty_store))
    = Inr (map (\<lambda>(d, rows). (d, as_texts rows)) (filter (\<lambda>dr. snd dr \<noteq> []) drs))"
proof -
  let ?name = "site_name st" and ?hs = "''doc'' # site_columns st"
  let ?out = "map (\<lambda>(d, rows). (d, as_texts rows)) (filter (\<lambda>dr. snd dr \<noteq> []) drs)"
  have ok: "list_all (\<lambda>(d, rows). normal_doc d \<and> list_all (\<lambda>r. length r + 1 = length ?hs) rows) drs"
    using assms by (auto simp: exportable_def)
  have sd: "sorted (map fst drs) \<and> distinct (map fst drs)"
    using select_rows_sorted [of s ?name OK] success_rows_docs [OF assms(2)] assms(1)
    by (simp add: exportable_def)
  have exported: "fst (export_site s p st (fs, None)) (site_csv_path p ?name)
      = Some (csv_writerow ?hs @ csv_writerows (doc_lines drs))" (is "_ = Some ?text")
    by (rule export_site_success) (simp add: success_lines_def assms(2))
  have read: "csv_reader ?text = ?hs # doc_lines drs"
    using csv_reader_writerows [of "?hs # doc_lines drs"] by (simp add: csv_writerows_def)
  have "csv_writerow ?hs \<noteq> []" by (simp add: csv_writerow_def)
  moreover have grouped: "group_rows (length ?hs) (doc_lines drs) [] = ?out"
    using group_rows_doc_lines [OF ok, of "[]"] sd by simp
  ultimately have imp: "fst (import_site (fst (export_site s p st (fs, None))) p st now empty_store)
      = foldl (\<lambda>s dr. store_import ?name (fst dr) (snd dr) now s) empty_store ?out"
    using read by (simp add: import_site_def exported Let_def)
  have fsts: "map fst ?out = map fst (filter (\<lambda>dr. snd dr \<noteq> []) drs)"
    by (simp add: comp_def split_beta)
  have "sorted (map fst ?out)" unfolding fsts using sd sorted_filter_map by blast
  moreover have "distinct (map (\<lambda>dr. (?name, fst dr)) ?out)"
  proof -
    have "distinct (map fst ?out)" unfolding fsts using sd distinct_map_filter by blast
    then have "distinct (map (Pair ?name) (map fst ?out))" by (simp only: distinct_map) (simp add: inj_on_def)
    then show ?thesis by (simp add: comp_def)
  qed
  ultimately have "sorted (map fst ?out)" and
    "os_outcomes (foldl (\<lambda>s dr. store_import ?name (fst dr) (snd dr) now s) empty_store ?out)
      = map (\<lambda>dr. ((?name, fst dr), imported_row now (snd dr))) ?out"
    using import_all [of empty_store ?name ?out now] by (simp_all only: empty_store_def store.simps list.map append_Nil)
  then show ?thesis unfolding imp by (intro site_rows_imported)
qed

text \<open>The document of a CSV row; the check for a blank first cell is subsumed by the parser.\<close>

definition row_doc :: "pystr list \<Rightarrow> doc option" where
  "row_doc row = (case row of [] \<Rightarrow> None | v # _ \<Rightarrow> (case parse_doc v of Inl _ \<Rightarrow> None | Inr d \<Rightarrow> Some d))"

lemma parse_doc_blank: "py_strip v = [] \<Longrightarrow> \<exists>e. parse_doc v = Inl e"
  by (auto simp: parse_doc_def matches_digits_def)

lemma read_rows_Cons:
  "read_rows dedupe (row # rows) seen docs c =
     (let c = c\<lparr>pc_rows_read := pc_rows_read c + 1\<rparr>
      in case row_doc row of
           None \<Rightarrow> read_rows dedupe rows seen docs (c\<lparr>pc_ignored := pc_ignored c + 1\<rparr>)
         | Some d \<Rightarrow>
             if dedupe \<and> doc_text d \<in> set seen
             then read_rows dedupe rows seen docs (c\<lparr>pc_duplicates := pc_duplicates c + 1\<rparr>)
             else read_rows dedupe rows (doc_text d # seen) (docs @ [d]) (c\<lparr>pc_valid := pc_valid c + 1\<rparr>))"
  using parse_doc_blank [of "hd row"]
  by (cases row) (auto simp: row_doc_def Let_def split: sum.splits)

declare read_rows.simps(2) [simp del]

definition read_ok :: "bool \<Rightarrow> doc list \<Rightarrow> plan_counts \<Rightarrow> bool" where
  "read_ok dedupe docs c \<longleftrightarrow>
     pc_rows_read c = pc_valid c + pc_ignored c + pc_duplicates c \<and> length docs = pc_valid c
     \<and> list_all (\<lambda>d. parse_doc (doc_text d) = Inr d) docs \<and> (dedupe \<longrightarrow> distinct (map doc_text docs))"

lemma row_doc_fixed: "row_doc row = Some d \<Longrightarrow> parse_doc (doc_text d) = Inr d"
  by (auto simp: row_doc_def split: list.splits sum.splits dest: parse_doc_fixed)

lemma read_rows_ok:
  assumes "read_rows dedupe rows seen docs c = (docs', c')" "read_ok dedupe docs c"
    "set seen = doc_text ` set docs"
  shows "read_ok dedupe docs' c' \<and> pc_rows_read c' = pc_rows_read c + length rows
    \<and> (\<forall>t. t \<in> doc_text ` set docs' \<longleftrightarrow>
         t \<in> doc_text ` set docs \<or> (\<exists>row\<in>set rows. \<exists>d. row_doc row = Some d \<and> doc_text d = t))"
  using assms
proof (induction rows arbitrary: seen docs c)
  case Nil
  then show ?case by simp
next
  case (Cons row rows)
  let ?c = "c\<lparr>pc_rows_read := pc_rows_read c + 1\<rparr>"
  show ?case
  proof (cases "row_doc row")
    case None
    then have "read_rows dedupe rows seen docs (?c\<lparr>pc_ignored := pc_ignored c + 1\<rparr>) = (docs', c')"
      using Cons.prems(1) by (simp add: read_rows_Cons Let_def)
    from Cons.IH [OF this _ Cons.prems(3)] Cons.prems(2) None show ?thesis
      by (simp add: read_ok_def)
  next
    case (Some d)
    show ?thesis
    proof (cases "dedupe \<and> doc_text d \<in> set seen")
      case True
      then have "read_rows dedupe rows seen docs (?c\<lparr>pc_duplicates := pc_duplicates c + 1\<rparr>) = (docs', c')"
        using Cons.prems(1) Some by (simp add: read_rows_Cons Let_def)
      from Cons.IH [OF this _ Cons.prems(3)] Cons.prems(2,3) Some True show ?thesis
        by (auto simp: read_ok_def)
    next
      case False
      then have rr: "read_rows dedupe rows (doc_text d # seen) (docs @ [d]) (?c\<lparr>pc_valid := pc_valid c + 1\<rparr>)
          = (docs', c')"
        using Cons.prems(1) Some by (auto simp: read_rows_Cons Let_def split: if_splits)
      have ok: "read_ok dedupe (docs @ [d]) (?c\<lparr>pc_valid := pc_valid c + 1\<rparr>)"
        using Cons.prems(2,3) False row_doc_fixed [OF Some] by (auto simp: read_ok_def)
      have seen: "set (doc_text d # seen) = doc_text ` set (docs @ [d])"
        using Cons.prems(3) by auto
      from Cons.IH [OF rr ok seen] Some show ?thesis by auto
    qed
  qed
qed

section \<open>Properties\<close>

definition sample_result :: "pystr \<Rightarrow> status \<Rightarrow> row list \<Rightarrow> result" where
  "sample_result d st rows =
     \<lparr>res_doc = \<lparr>doc_text = d, doc_kind = DNI\<rparr>, res_site = ''osiptel'', res_status = st,
      res_rows = rows, res_error_code = [], res_error_detail = [], res_made_healthy_contact = True,
      res_http_session_id = [], res_proxy_id = [], res_provider = [], res_attempt = 4,
      res_attempts = []\<rparr>"

lemma empty_distinct: "keys_distinct empty_store"
  by (simp add: keys_distinct_def empty_store_def)

text \<open>C20: a run can be resumed. Whatever is written later, in any order, a pair that was settled or
  retired stays so, and a pair some write settled is never planned again: the plan of a
  later run is the earlier plan without some pairs.\<close>

theorem resume_plans_less:
  assumes "keys_distinct s"
  shows "set (done_pairs cap s) \<subseteq> set (done_pairs cap (apply_ops xs s))
    \<and> (\<forall>x k. x \<in> set xs \<longrightarrow> settles x k \<longrightarrow> k \<in> set (done_pairs cap (apply_ops xs s)))
    \<and> (\<forall>site ds. (site, ds) \<in> set (plan_pending docs sites (done_pairs cap (apply_ops xs s))) \<longrightarrow>
         (\<exists>ds'. (site, ds') \<in> set (plan_pending docs sites (done_pairs cap s)) \<and>
            ds = filter (\<lambda>d. (site, doc_text d) \<notin> set (done_pairs cap (apply_ops xs s))) ds'))"
proof -
  note mono = done_pairs_mono [OF assms, of cap xs]
  have "\<exists>ds'. (site, ds') \<in> set (plan_pending docs sites (done_pairs cap s)) \<and>
      ds = filter (\<lambda>d. (site, doc_text d) \<notin> set (done_pairs cap (apply_ops xs s))) ds'"
    if planned: "(site, ds) \<in> set (plan_pending docs sites (done_pairs cap (apply_ops xs s)))" for site ds
  proof -
    obtain st where st: "st \<in> set sites" "site = site_name st"
      "ds = filter (\<lambda>d. site_accepts st d \<and> (site, doc_text d) \<notin> set (done_pairs cap (apply_ops xs s))) docs"
      using planned by (auto simp: plan_pending_def)
    have "ds = filter (\<lambda>d. (site, doc_text d) \<notin> set (done_pairs cap (apply_ops xs s)))
        (filter (\<lambda>d. site_accepts st d \<and> (site, doc_text d) \<notin> set (done_pairs cap s)) docs)"
      unfolding st(3) filter_filter by (rule filter_cong) (use mono in auto)
    then show ?thesis using st by (auto simp: plan_pending_def)
  qed
  then show ?thesis using mono settled_done [OF assms] by blast
qed

theorem resume_plans_less_witness:
  "(''osiptel'', ''12345678'') \<in> set (done_pairs MAX_TOTAL_ATTEMPTS
     (apply_ops [RecordFailure (sample_result ''12345678'' FAILED []) ''t1'',
        RecordNotFound (sample_result ''12345678'' NOT_FOUND []) ''t2'',
        RecordFailure (sample_result ''12345678'' FAILED []) ''t3''] empty_store))"
proof -
  let ?xs = "[RecordFailure (sample_result ''12345678'' FAILED []) ''t1'',
        RecordNotFound (sample_result ''12345678'' NOT_FOUND []) ''t2'',
        RecordFailure (sample_result ''12345678'' FAILED []) ''t3'']"
  have "settles (RecordNotFound (sample_result ''12345678'' NOT_FOUND []) ''t2'') (''osiptel'', ''12345678'')"
    by (simp add: settles_def sample_result_def)
  then show ?thesis
    using resume_plans_less [OF empty_distinct, of MAX_TOTAL_ATTEMPTS ?xs "[]" "[]", THEN conjunct2, THEN conjunct1]
    by force
qed

text \<open>C21: a pair that only ever failed carries the sum of the attempts of the failures made while the
  breaker was closed, and is retired exactly when that sum reaches the cap of twelve; the failures made
  while the breaker was open count for nothing.\<close>

theorem failures_retire:
  assumes "list_all (\<lambda>r. (res_site r, doc_text (res_doc r)) = k) rs" "rs \<noteq> []"
    "keys_distinct s" "map_of (os_outcomes s) k = None"
  shows "let attempts = sum_list (map (\<lambda>r. if res_made_healthy_contact r then res_attempt r else 0) rs)
    in (\<exists>o'. map_of (os_outcomes (fail_all now rs s)) k = Some o' \<and> oc_status o' = FAILED \<and> oc_attempt_count o' = attempts)
     \<and> (k \<in> set (done_pairs MAX_TOTAL_ATTEMPTS (fail_all now rs s)) \<longleftrightarrow> 12 \<le> attempts)"
proof -
  obtain r rs' where rs: "rs = r # rs'" using assms(2) by (cases rs) auto
  obtain o' where o': "map_of (os_outcomes (fail_all now rs s)) k = Some o'" "oc_status o' = FAILED"
    "oc_attempt_count o' = sum_list (map failure_weight rs)"
    using fail_first_count [of k r rs' s now] assms(1,4) rs by auto
  have "keys_distinct (fail_all now rs s)"
    unfolding fail_all_def by (rule keys_distinct_ops [OF assms(3)])
  then show ?thesis
    using o' by (simp add: done_pairs_iff is_terminal_def MAX_TOTAL_ATTEMPTS_def failure_weight_def [abs_def] Let_def)
qed

theorem failures_retire_witness:
  "(''osiptel'', ''12345678'') \<in> set (done_pairs MAX_TOTAL_ATTEMPTS
      (fail_all ''t'' (replicate 3 (sample_result ''12345678'' FAILED [])) empty_store))"
proof -
  have "map_of (os_outcomes empty_store) (''osiptel'', ''12345678'') = None"
    by (simp add: empty_store_def)
  from failures_retire [OF _ _ empty_distinct this, of "replicate 3 (sample_result ''12345678'' FAILED [])" "''t''"]
  show ?thesis by (simp add: sample_result_def numeral_eq_Suc Let_def)
qed

text \<open>The writes that replace the rows of a pair.\<close>

definition overwrites :: "pair_key \<Rightarrow> store_op \<Rightarrow> bool" where
  "overwrites k x =
     (case x of
        RecordSuccess r _ \<Rightarrow> k = (res_site r, doc_text (res_doc r))
      | RecordImport site d _ _ \<Rightarrow> k = (site, d)
      | _ \<Rightarrow> False)"

lemma kept_by_op:
  assumes "map_of (os_outcomes s) k = Some r" "oc_status r = OK" "\<not> overwrites k x"
  shows "map_of (os_outcomes (apply_op x s)) k = Some r"
  using assms by (cases x) (auto simp: overwrites_def write_defs map_of_upsert)

lemma kept_by_ops:
  "map_of (os_outcomes s) k = Some r \<Longrightarrow> oc_status r = OK \<Longrightarrow> list_all (\<lambda>x. \<not> overwrites k x) xs
     \<Longrightarrow> map_of (os_outcomes (apply_ops xs s)) k = Some r"
  by (induction xs arbitrary: s) (auto simp: kept_by_op)

lemma payloads_encoded_ops: "payloads_encoded s \<Longrightarrow> payloads_encoded (apply_ops xs s)"
  by (induction xs arbitrary: s) (auto simp: payloads_encoded_op)

lemma encode_rows_inject: "encode_rows a = encode_rows b \<Longrightarrow> a = b"
  by (metis decode_encode sum.inject(2))

lemma success_rows_lookup:
  assumes "keys_distinct s" "payloads_encoded s" "map_of (os_outcomes s) (site, d) = Some r"
    "oc_status r = OK" "oc_payload r = encode_rows rows"
  shows "\<exists>out. success_rows site s = Inr out \<and> sorted (map fst out) \<and> distinct (map fst out)
    \<and> map_of out d = Some rows"
proof -
  obtain out where out: "success_rows site s = Inr out" "map fst out = map fst (select_rows site OK s)"
    "\<And>d rows. (d, rows) \<in> set out \<Longrightarrow> \<exists>r. (d, r) \<in> set (select_rows site OK s) \<and> oc_payload r = encode_rows rows"
    using success_rows_total [OF assms(2), of site] by blast
  have sd: "sorted (map fst out)" "distinct (map fst out)"
    using select_rows_sorted [OF assms(1), of site OK] out(2) by simp_all
  have "(d, r) \<in> set (select_rows site OK s)" using select_rows_mem [OF assms(1)] assms(3,4) by blast
  then have "d \<in> set (map fst out)" unfolding out(2) by force
  then obtain rows' where rows': "(d, rows') \<in> set out" by auto
  then obtain r' where "(d, r') \<in> set (select_rows site OK s)" "oc_payload r' = encode_rows rows'"
    using out(3) by blast
  then have "r' = r" using select_rows_mem [OF assms(1)] assms(3) by simp
  then have "encode_rows rows' = encode_rows rows" using \<open>oc_payload r' = encode_rows rows'\<close> assms(5) by simp
  then have "rows' = rows" by (rule encode_rows_inject)
  then have "map_of out d = Some rows" using map_of_is_SomeI [OF sd(2) rows'] by simp
  then show ?thesis using out(1) sd by blast
qed

lemma empty_encoded: "payloads_encoded empty_store"
  by (simp add: payloads_encoded_def empty_store_def)

text \<open>What a success wrote is what the export reads: on any store the writes built, the rows of
  a site decode, sorted by document and each document once, and a success supplies the rows of its
  document whatever failures, not-founds or writes of other documents follow it.\<close>

theorem success_read_back:
  assumes "list_all (\<lambda>x. \<not> overwrites (res_site r, doc_text (res_doc r)) x) later"
  shows "\<exists>out. success_rows (res_site r) (apply_ops (earlier @ RecordSuccess r now # later) empty_store) = Inr out
    \<and> sorted (map fst out) \<and> distinct (map fst out)
    \<and> map_of out (doc_text (res_doc r)) = Some (res_rows r)"
proof -
  let ?k = "(res_site r, doc_text (res_doc r))"
  let ?s = "apply_ops earlier empty_store"
  let ?t = "apply_ops later (store_success r now ?s)"
  have app: "apply_ops (xs @ ys) s = apply_ops ys (apply_ops xs s)" for xs ys s
    by (induction xs arbitrary: s) auto
  have t: "apply_ops (earlier @ RecordSuccess r now # later) empty_store = ?t" by (simp add: app)
  obtain q where q: "map_of (os_outcomes (store_success r now ?s)) ?k = Some q" "oc_status q = OK"
    "oc_payload q = encode_rows (res_rows r)"
    by (cases "map_of (os_outcomes ?s) ?k") (auto simp: write_defs map_of_upsert)
  have "map_of (os_outcomes ?t) ?k = Some q" by (rule kept_by_ops [OF q(1,2) assms])
  moreover have "keys_distinct ?t"
    using t keys_distinct_ops [OF empty_distinct] by metis
  moreover have "payloads_encoded ?t"
    using t payloads_encoded_ops [OF empty_encoded] by metis
  ultimately show ?thesis unfolding t using success_rows_lookup q(2,3) by blast
qed

theorem success_read_back_witness:
  "\<exists>out. success_rows ''osiptel''
      (apply_ops ([] @ RecordSuccess (sample_result ''12345678'' OK [[CStr ''a''], [CInt 5]]) ''t1''
         # [RecordFailure (sample_result ''12345678'' FAILED []) ''t2'']) empty_store) = Inr out
    \<and> map_of out ''12345678'' = Some [[CStr ''a''], [CInt 5]]"
proof -
  let ?r = "sample_result ''12345678'' OK [[CStr ''a''], [CInt 5]]"
  have "list_all (\<lambda>x. \<not> overwrites (res_site ?r, doc_text (res_doc ?r)) x)
      [RecordFailure (sample_result ''12345678'' FAILED []) ''t2'']"
    by (simp add: overwrites_def)
  from success_read_back [OF this, of "[]" "''t1''"] show ?thesis
    by (auto simp: sample_result_def)
qed

text \<open>C22: importing an exported site file into a fresh store restores every document that had rows,
  with its rows in order and their cells as texts, whatever commas, quotes or line breaks they
  hold; a document without rows is not restored.\<close>

theorem import_restores_export:
  assumes "exportable st s" "success_rows (site_name st) s = Inr drs"
  shows "success_rows (site_name st)
      (fst (import_site (fst (export_site s p st (fs, None))) p st now empty_store))
    = Inr (map (\<lambda>(d, rows). (d, map (map (\<lambda>c. CStr (cell_str c))) rows)) (filter (\<lambda>dr. snd dr \<noteq> []) drs))"
  using export_import [OF assms] by (simp add: as_texts_def [abs_def])

definition narrow_site :: site where
  "narrow_site = \<lparr>site_name = ''osiptel'', site_columns = [''modalidad''], site_accepts = (\<lambda>_. True),
     site_allows_empty = True, site_session_budget = 1, site_endpoints = [], site_projections = [],
     site_stable = True\<rparr>"

definition comma_store :: store where
  "comma_store = store_import ''osiptel'' ''12345678'' [[CStr ''a,b''], [CInt 5]] ''t''
     (store_import ''osiptel'' ''00000001'' [] ''t'' empty_store)"

lemma comma_rows: "success_rows ''osiptel'' comma_store
    = Inr [(''00000001'', []), (''12345678'', [[CStr ''a,b''], [CInt 5]])]"
proof -
  have le: "(''00000001'' :: pystr) \<le> ''12345678''" by code_simp
  show ?thesis
    by (rule site_rows_imported [where now = "''t''"])
      (simp_all add: comma_store_def write_defs upsert_def empty_store_def imported_row_def le)
qed

theorem import_restores_export_witness:
  "success_rows ''osiptel'' (fst (import_site
      (fst (export_site comma_store ([], ''out.csv'') narrow_site (\<lambda>_. None, None)))
      ([], ''out.csv'') narrow_site ''u'' empty_store))
    = Inr [(''12345678'', [[CStr ''a,b''], [CStr ''5'']])]"
proof -
  have five: "int_str 5 = ''5''" by code_simp
  have "normal_doc ''00000001''" "normal_doc ''12345678''" by code_simp+
  then have "exportable narrow_site comma_store"
    using comma_rows
    by (simp add: exportable_def narrow_site_def)
      (simp add: comma_store_def write_defs upsert_def empty_store_def keys_distinct_def)
  moreover have "success_rows (site_name narrow_site) comma_store
      = Inr [(''00000001'', []), (''12345678'', [[CStr ''a,b''], [CInt 5]])]"
    using comma_rows by (simp add: narrow_site_def)
  ultimately show ?thesis
    using import_restores_export by (fastforce simp: narrow_site_def five)
qed

text \<open>Reading an input file accounts for every row once (valid, ignored or duplicate), keeps one
  document per valid row, each in the normal form the stores use as key, without repeats when asked
  to deduplicate, and drops no document that some row names.\<close>

theorem read_docs_accounts:
  assumes "read_docs content dedupe = (docs, c)"
  shows "pc_rows_read c = length (csv_reader content)
    \<and> pc_rows_read c = pc_valid c + pc_ignored c + pc_duplicates c \<and> length docs = pc_valid c
    \<and> list_all (\<lambda>d. parse_doc (doc_text d) = Inr d) docs
    \<and> (dedupe \<longrightarrow> distinct (map doc_text docs))
    \<and> (\<forall>t. t \<in> doc_text ` set docs \<longleftrightarrow>
         (\<exists>row\<in>set (csv_reader content). \<exists>d. row_doc row = Some d \<and> doc_text d = t))"
proof -
  have "read_ok dedupe [] \<lparr>pc_rows_read = 0, pc_valid = 0, pc_ignored = 0, pc_duplicates = 0\<rparr>"
    by (simp add: read_ok_def)
  from read_rows_ok [OF assms [unfolded read_docs_def] this] show ?thesis
    by (simp add: read_ok_def)
qed

theorem read_docs_accounts_witness:
  "distinct (map doc_text (fst (read_docs ''1234567,x'' True)))
   \<and> length (fst (read_docs ''1234567,x'' True)) = pc_valid (snd (read_docs ''1234567,x'' True))"
  using read_docs_accounts [of "''1234567,x''" True "fst (read_docs ''1234567,x'' True)"
      "snd (read_docs ''1234567,x'' True)"] by simp

end
