(* ===== verification/CliRun.thy ===== *)
theory CliRun
  imports Fetch Outcomes "HOL-Library.Multiset"
begin

text \<open>
  One run of the command line: the provider list of \<open>cli/config.py\<close>, the argument checks of
  \<open>cli/main.py\<close>, the lanes of \<open>cli/pipeline/run.py\<close> and the worker loop of
  \<open>cli/pipeline/worker.py\<close>. Lanes of one site share its queue and the store; their interleaving is a
  list of events, each one uninterrupted stretch of a lane.
\<close>

section \<open>Provider list\<close>

definition EXAMPLE :: pystr where
  "EXAMPLE = ''geonode:30,dataimpulse:18''"

definition parse_chunk :: "pystr \<Rightarrow> exn + pystr \<times> int option" where
  "parse_chunk chunk =
     (case py_partition CHR '':'' (py_lower (py_strip chunk)) of (name, separator, raw_workers) \<Rightarrow>
        let name = py_strip name
        in bind_res (spec_for name) (\<lambda>_.
           if \<not> separator then Inr (name, None)
           else
             let raw_workers = py_strip raw_workers;
                 refused = config_error (''PROXY_PROVIDER lane count for '' @ py_repr name
                   @ '' must be a positive integer, got '' @ py_repr raw_workers
                   @ '' (syntax: '' @ EXAMPLE @ '')'')
             in if \<not> py_isdigit raw_workers then refused
                else bind_res (to_int raw_workers) (\<lambda>n. if n < 1 then refused else Inr (name, Some n))))"

definition with_workers :: "int option \<Rightarrow> provider_tuning \<Rightarrow> provider_tuning" where
  "with_workers workers t = (case workers of None \<Rightarrow> t | Some n \<Rightarrow> t\<lparr>pt_workers := n\<rparr>)"

fun build_providers ::
  "raw_values \<Rightarrow> (pystr \<times> int option) list \<Rightarrow> pystr list \<Rightarrow> (provider \<times> provider_tuning) list
     \<Rightarrow> exn + (provider \<times> provider_tuning) list" where
  "build_providers env [] seen providers = Inr providers"
| "build_providers env ((name, workers) # requests) seen providers =
     (if name \<in> set seen
      then config_error (''PROXY_PROVIDER lists '' @ py_repr name @ '' more than once'')
      else
        bind_res (spec_for name) (\<lambda>spec.
        bind_res (values_from_environment spec env) (\<lambda>vals.
        bind_res (sp_build spec (map_of vals)) (\<lambda>p.
          build_providers env requests (name # seen)
            (providers @ [(p, with_workers workers (provider_tuning_of p))])))))"

definition load_proxy_providers :: "raw_values \<Rightarrow> exn + (provider \<times> provider_tuning) list" where
  "load_proxy_providers env =
     (let raw = py_strip (get_text env ''PROXY_PROVIDER'')
      in if raw = []
         then config_error (''PROXY_PROVIDER must be set (comma-separated ''
                @ py_join ''|'' (sort (map fst PROVIDERS)) @ '', e.g. '' @ EXAMPLE @ '')'')
         else
           bind_res (map_res parse_chunk (filter (\<lambda>c. py_strip c \<noteq> []) (py_split CHR '','' raw)))
             (\<lambda>requests. build_providers env requests [] []))"

section \<open>Arguments\<close>

record cli_args =
  ca_input_exists :: bool
  ca_input :: pystr
  ca_sites :: pystr
  ca_session_budget :: "int option"
  ca_ban_cooldown_s :: "seconds option"
  ca_wait_min_s :: seconds
  ca_wait_max_s :: seconds

definition site_names_of :: "pystr \<Rightarrow> pystr list" where
  "site_names_of raw =
     map (\<lambda>c. py_lower (py_strip c)) (filter (\<lambda>c. py_strip c \<noteq> []) (py_split CHR '','' raw))"

text \<open>The complaints of \<open>parse_args\<close>, in order; the run starts when there are none.\<close>

definition argument_errors :: "cli_args \<Rightarrow> pystr list" where
  "argument_errors a =
     (if ca_input_exists a then [] else [''--input file not found: '' @ ca_input a])
     @ (case get_sites (site_names_of (ca_sites a)) of Inl e \<Rightarrow> [''--sites '' @ exn_text e] | Inr _ \<Rightarrow> [])
     @ (case ca_session_budget a of Some n \<Rightarrow> if n < 1 then [''--session-budget must be >= 1''] else [] | None \<Rightarrow> [])
     @ (case ca_ban_cooldown_s a of Some s \<Rightarrow> if s < 0 then [''--ban-cooldown-s must be >= 0''] else [] | None \<Rightarrow> [])
     @ (if ca_wait_min_s a < 0 then [''--wait-min-s must be >= 0''] else [])
     @ (if ca_wait_max_s a < ca_wait_min_s a then [''--wait-max-s must be >= --wait-min-s''] else [])"

definition budget :: "int option \<Rightarrow> site \<Rightarrow> int" where
  "budget session_budget st =
     (case session_budget of Some n \<Rightarrow> min n (site_session_budget st) | None \<Rightarrow> site_session_budget st)"

definition cooldown :: "seconds option \<Rightarrow> provider_tuning \<Rightarrow> seconds" where
  "cooldown ban_cooldown_s t = (case ban_cooldown_s of Some s \<Rightarrow> s | None \<Rightarrow> pt_ban_cooldown_s t)"

section \<open>Lanes\<close>

record lane_spec =
  ls_site :: pystr
  ls_provider :: pystr
  ls_slot_id :: nat
  ls_lane_id :: nat

type_synonym slot_counts = "pystr \<Rightarrow> nat"

fun provider_lanes ::
  "pystr \<Rightarrow> pystr \<Rightarrow> nat \<Rightarrow> slot_counts \<times> nat \<times> lane_spec list \<Rightarrow> slot_counts \<times> nat \<times> lane_spec list" where
  "provider_lanes site provider 0 state = state"
| "provider_lanes site provider (Suc workers) (next_slot, lane_id, lanes) =
     (let next_slot = next_slot(provider := next_slot provider + 1); lane_id = lane_id + 1
      in provider_lanes site provider workers (next_slot, lane_id,
           lanes @ [\<lparr>ls_site = site, ls_provider = provider, ls_slot_id = next_slot provider,
                     ls_lane_id = lane_id\<rparr>]))"

definition site_lanes ::
  "(pystr \<times> int) list \<Rightarrow> pystr \<Rightarrow> slot_counts \<times> nat \<times> lane_spec list \<Rightarrow> slot_counts \<times> nat \<times> lane_spec list" where
  "site_lanes providers site state =
     foldl (\<lambda>state p. provider_lanes site (fst p) (nat (snd p)) state) state providers"

text \<open>The lanes of a run, from its sites with their numbers of pending documents.\<close>

definition run_lanes :: "(pystr \<times> int) list \<Rightarrow> (pystr \<times> nat) list \<Rightarrow> lane_spec list" where
  "run_lanes providers pending =
     snd (snd (foldl (\<lambda>state sp. if snd sp = 0 then state else site_lanes providers (fst sp) state)
       (\<lambda>_. 0, 0, []) pending))"

section \<open>Workers\<close>

record work_state =
  wk_queue :: "doc list"
  wk_busy :: "(nat \<times> doc) list"
  wk_store :: store
  wk_totals :: run_totals
  wk_results :: "result list"

datatype work_event = Take nat | Finish nat result pystr

definition record_result :: "result \<Rightarrow> pystr \<Rightarrow> store \<times> run_totals \<Rightarrow> store \<times> run_totals" where
  "record_result r now st =
     (case st of (s, t) \<Rightarrow>
        let (s, t) =
          (case res_status r of
             OK \<Rightarrow> (store_success r now s, t\<lparr>rt_succeeded := rt_succeeded t + 1\<rparr>)
           | NOT_FOUND \<Rightarrow> (store_not_found r now s, t\<lparr>rt_not_found := rt_not_found t + 1\<rparr>)
           | FAILED \<Rightarrow> (store_failure r now s, t\<lparr>rt_failed := rt_failed t + 1\<rparr>))
        in (s, t\<lparr>rt_processed := rt_processed t + 1\<rparr>))"

text \<open>
  A lane takes a document when it holds none, and finishes with a result for the document it
  holds. None: the event cannot happen in this state.
\<close>

fun work_step :: "pystr \<Rightarrow> work_event \<Rightarrow> work_state \<Rightarrow> work_state option" where
  "work_step site (Take lane_id) w =
     (case map_of (wk_busy w) lane_id of
        Some _ \<Rightarrow> None
      | None \<Rightarrow>
          (case wk_queue w of
             [] \<Rightarrow> None
           | d # ds \<Rightarrow> Some (w\<lparr>wk_queue := ds, wk_busy := (lane_id, d) # wk_busy w\<rparr>)))"
| "work_step site (Finish lane_id r now) w =
     (case map_of (wk_busy w) lane_id of
        None \<Rightarrow> None
      | Some d \<Rightarrow>
          if res_doc r = d \<and> res_site r = site
          then
            let (s, t) = record_result r now (wk_store w, wk_totals w)
            in Some (w\<lparr>wk_busy := filter (\<lambda>b. fst b \<noteq> lane_id) (wk_busy w), wk_store := s,
                      wk_totals := t, wk_results := wk_results w @ [r]\<rparr>)
          else None)"

fun work_steps :: "pystr \<Rightarrow> work_event list \<Rightarrow> work_state \<Rightarrow> work_state option" where
  "work_steps site [] w = Some w"
| "work_steps site (ev # evs) w =
     (case work_step site ev w of None \<Rightarrow> None | Some w \<Rightarrow> work_steps site evs w)"

definition start_work :: "doc list \<Rightarrow> store \<Rightarrow> work_state" where
  "start_work docs s =
     \<lparr>wk_queue = docs, wk_busy = [], wk_store = s, wk_totals = new_totals, wk_results = []\<rparr>"

section \<open>Facts about lanes\<close>

text \<open>The lanes numbered so far: their ids run from 1, the slots of each provider too.\<close>

definition lanes_numbered :: "slot_counts \<times> nat \<times> lane_spec list \<Rightarrow> bool" where
  "lanes_numbered state \<longleftrightarrow>
     (case state of (next_slot, lane_id, lanes) \<Rightarrow>
        map ls_lane_id lanes = [1..<lane_id + 1] \<and>
        (\<forall>p. map ls_slot_id (filter (\<lambda>l. ls_provider l = p) lanes) = [1..<next_slot p + 1]))"

lemma provider_lanes_numbered: "lanes_numbered state \<Longrightarrow> lanes_numbered (provider_lanes site p n state)"
  by (induction site p n state rule: provider_lanes.induct) (auto simp: lanes_numbered_def Let_def)

lemma site_lanes_numbered: "lanes_numbered state \<Longrightarrow> lanes_numbered (site_lanes ps site state)"
  unfolding site_lanes_def by (rule foldl_invariant) (rule provider_lanes_numbered)

lemma run_lanes_numbered:
  "\<exists>next_slot lane_id. lanes_numbered (next_slot, lane_id, run_lanes ps pending)"
proof -
  have "lanes_numbered (foldl (\<lambda>state sp. if snd sp = 0 then state else site_lanes ps (fst sp) state) state pending)"
    if "lanes_numbered state" for state
    by (rule foldl_invariant [where P = lanes_numbered]) (use that in \<open>simp_all add: site_lanes_numbered\<close>)
  then have num: "lanes_numbered (foldl (\<lambda>state sp. if snd sp = 0 then state else site_lanes ps (fst sp) state)
      (\<lambda>_. 0, 0, []) pending)" (is "lanes_numbered ?final")
    by (simp add: lanes_numbered_def)
  obtain next_slot lane_id lanes where "?final = (next_slot, lane_id, lanes)" by (rule prod_cases3)
  then show ?thesis using num by (auto simp: run_lanes_def)
qed

section \<open>Facts about workers\<close>

definition work_ok :: "doc list \<Rightarrow> work_state \<Rightarrow> bool" where
  "work_ok docs w \<longleftrightarrow>
     distinct (map fst (wk_busy w)) \<and>
     mset (wk_queue w) + mset (map snd (wk_busy w)) + mset (map res_doc (wk_results w)) = mset docs \<and>
     rt_processed (wk_totals w) = length (wk_results w) \<and>
     rt_succeeded (wk_totals w) = length (filter (\<lambda>r. res_status r = OK) (wk_results w)) \<and>
     rt_not_found (wk_totals w) = length (filter (\<lambda>r. res_status r = NOT_FOUND) (wk_results w)) \<and>
     rt_failed (wk_totals w) = length (filter (\<lambda>r. res_status r = FAILED) (wk_results w))"

lemma remove_key:
  "map_of xs k = Some v \<Longrightarrow> distinct (map fst xs) \<Longrightarrow>
     mset (map snd xs) = add_mset v (mset (map snd (filter (\<lambda>b. fst b \<noteq> k) xs)))"
proof (induction xs)
  case Nil
  then show ?case by simp
next
  case (Cons x xs)
  show ?case
  proof (cases "fst x = k")
    case True
    then have "filter (\<lambda>b. fst b \<noteq> k) xs = xs"
      using Cons.prems(2) by (induction xs) auto
    then show ?thesis using True Cons.prems by auto
  next
    case False
    then show ?thesis using Cons by auto
  qed
qed

lemma record_result_totals:
  "record_result r now (s, t) = (s', t') \<Longrightarrow>
     rt_processed t' = rt_processed t + 1
   \<and> rt_succeeded t' = rt_succeeded t + (if res_status r = OK then 1 else 0)
   \<and> rt_not_found t' = rt_not_found t + (if res_status r = NOT_FOUND then 1 else 0)
   \<and> rt_failed t' = rt_failed t + (if res_status r = FAILED then 1 else 0)"
  by (cases "res_status r") (auto simp: record_result_def)

lemma work_step_ok:
  assumes "work_ok docs w" "work_step site ev w = Some w'"
  shows "work_ok docs w'"
proof (cases ev)
  case (Take l)
  then obtain d ds where "map_of (wk_busy w) l = None" "wk_queue w = d # ds"
    "w' = w\<lparr>wk_queue := ds, wk_busy := (l, d) # wk_busy w\<rparr>"
    using assms(2) by (auto split: option.splits list.splits)
  then show ?thesis using assms(1) by (auto simp: work_ok_def map_of_eq_None_iff)
next
  case (Finish l r now)
  obtain s t where st: "record_result r now (wk_store w, wk_totals w) = (s, t)" by (metis surj_pair)
  have d: "map_of (wk_busy w) l = Some (res_doc r)"
    and w': "w' = w\<lparr>wk_busy := filter (\<lambda>b. fst b \<noteq> l) (wk_busy w), wk_store := s,
                      wk_totals := t, wk_results := wk_results w @ [r]\<rparr>"
    using assms(2) Finish st by (auto split: option.splits if_splits)
  have "distinct (map fst (filter (\<lambda>b. fst b \<noteq> l) (wk_busy w)))"
    using assms(1) by (auto simp: work_ok_def distinct_map_filter)
  then show ?thesis
    using assms(1) remove_key [OF d] record_result_totals [OF st] w' by (auto simp: work_ok_def)
qed

lemma work_steps_ok: "work_ok docs w \<Longrightarrow> work_steps site evs w = Some w' \<Longrightarrow> work_ok docs w'"
  by (induction evs arbitrary: w) (auto intro: work_step_ok split: option.splits)

text \<open>Each result is in the store: the writes are those of the results, in order.\<close>

definition result_op :: "result \<Rightarrow> pystr \<Rightarrow> store_op" where
  "result_op r now =
     (case res_status r of OK \<Rightarrow> RecordSuccess r now | NOT_FOUND \<Rightarrow> RecordNotFound r now
      | FAILED \<Rightarrow> RecordFailure r now)"

lemma record_result_store: "fst (record_result r now (s, t)) = apply_op (result_op r now) s"
  by (cases "res_status r") (auto simp: record_result_def result_op_def)

lemma apply_ops_append: "apply_ops (xs @ ys) s = apply_ops ys (apply_ops xs s)"
  by (induction xs arbitrary: s) auto

lemma work_steps_store:
  "work_steps site evs w = Some w' \<Longrightarrow>
     \<exists>nows rs. length nows = length rs \<and> wk_results w' = wk_results w @ rs
       \<and> wk_store w' = apply_ops (map2 result_op rs nows) (wk_store w)"
proof (induction evs arbitrary: w)
  case Nil
  then show ?case by (auto intro: exI [of _ "[]"])
next
  case (Cons ev evs)
  obtain w1 where w1: "work_step site ev w = Some w1" "work_steps site evs w1 = Some w'"
    using Cons.prems by (auto split: option.splits)
  obtain nows rs where ih: "length nows = length rs" "wk_results w' = wk_results w1 @ rs"
    "wk_store w' = apply_ops (map2 result_op rs nows) (wk_store w1)"
    using Cons.IH [OF w1(2)] by blast
  show ?case
  proof (cases ev)
    case (Take l)
    then have "wk_results w1 = wk_results w \<and> wk_store w1 = wk_store w"
      using w1(1) by (auto split: option.splits list.splits)
    then show ?thesis using ih by auto
  next
    case (Finish l r now)
    then have "wk_results w1 = wk_results w @ [r] \<and> wk_store w1 = apply_op (result_op r now) (wk_store w)"
      using w1(1) record_result_store [of r now "wk_store w" "wk_totals w"]
      by (auto split: option.splits if_splits prod.splits)
    then show ?thesis using ih by (intro exI [of _ "now # nows"] exI [of _ "r # rs"]) auto
  qed
qed

lemma work_step_site:
  "work_step site ev w = Some w' \<Longrightarrow> list_all (\<lambda>r. res_site r = site) (wk_results w)
     \<Longrightarrow> list_all (\<lambda>r. res_site r = site) (wk_results w')"
  by (cases ev) (auto split: option.splits list.splits if_splits prod.splits)

lemma work_steps_site:
  "work_steps site evs w = Some w' \<Longrightarrow> list_all (\<lambda>r. res_site r = site) (wk_results w)
     \<Longrightarrow> list_all (\<lambda>r. res_site r = site) (wk_results w')"
  by (induction evs arbitrary: w) (auto intro: work_step_site split: option.splits)

section \<open>Properties\<close>

text \<open>However the lanes of a site interleave, no document is lost or done twice: each is queued,
  held by one lane, or has one result. The totals count the results by status, and the store is
  the initial one with exactly the writes of those results, all under the site's name; so once the
  queue is empty and the lanes idle, every document has its result recorded.\<close>

theorem workers_account:
  assumes "work_steps site evs (start_work docs s) = Some w"
  shows "mset (wk_queue w) + mset (map snd (wk_busy w)) + mset (map res_doc (wk_results w)) = mset docs
    \<and> rt_processed (wk_totals w) = length (wk_results w)
    \<and> rt_processed (wk_totals w)
        = rt_succeeded (wk_totals w) + rt_not_found (wk_totals w) + rt_failed (wk_totals w)
    \<and> (\<exists>nows. length nows = length (wk_results w)
         \<and> wk_store w = apply_ops (map2 result_op (wk_results w) nows) s)
    \<and> list_all (\<lambda>r. res_site r = site) (wk_results w)"
proof -
  have "work_ok docs (start_work docs s)" by (simp add: work_ok_def start_work_def new_totals_def)
  then have ok: "work_ok docs w" using assms by (rule work_steps_ok)
  have sum: "length rs = length (filter (\<lambda>r. res_status r = OK) rs)
      + length (filter (\<lambda>r. res_status r = NOT_FOUND) rs) + length (filter (\<lambda>r. res_status r = FAILED) rs)"
    for rs :: "result list"
  proof (induction rs)
    case (Cons r rs)
    then show ?case by (cases "res_status r") auto
  qed simp
  have "list_all (\<lambda>r. res_site r = site) (wk_results w)"
    by (rule work_steps_site [OF assms]) (simp add: start_work_def)
  moreover obtain nows rs where "length nows = length rs" "wk_results w = rs"
    "wk_store w = apply_ops (map2 result_op rs nows) s"
    using work_steps_store [OF assms] by (auto simp: start_work_def)
  ultimately show ?thesis using ok sum [of "wk_results w"] by (auto simp: work_ok_def)
qed

definition dni :: "pystr \<Rightarrow> doc" where
  "dni t = \<lparr>doc_text = t, doc_kind = DNI\<rparr>"

definition two_lane_run :: "work_state option" where
  "two_lane_run = work_steps ''osiptel''
     [Take 1, Take 2, Finish 2 (sample_result ''00000002'' NOT_FOUND []) ''t1'',
      Finish 1 (sample_result ''00000001'' OK []) ''t2'']
     (start_work [dni ''00000001'', dni ''00000002''] empty_store)"

theorem workers_account_witness:
  "\<exists>w. two_lane_run = Some w \<and> wk_queue w = [] \<and> wk_busy w = []
     \<and> mset (map res_doc (wk_results w)) = mset [dni ''00000001'', dni ''00000002'']"
proof -
  obtain w where w: "two_lane_run = Some w" "wk_queue w = []" "wk_busy w = []"
    by (simp add: two_lane_run_def start_work_def dni_def sample_result_def record_result_def)
  show ?thesis using workers_account [OF w(1) [unfolded two_lane_run_def]] w by auto
qed

text \<open>The lanes of a run are numbered from 1 without gaps across its sites, and the slots of each
  provider too; so no two lanes of a provider ever share a slot, whatever their sites.\<close>

theorem lanes_share_no_slot:
  "map ls_lane_id (run_lanes providers pending) = [1..<length (run_lanes providers pending) + 1]
   \<and> map ls_slot_id (filter (\<lambda>l. ls_provider l = p) (run_lanes providers pending))
       = [1..<length (filter (\<lambda>l. ls_provider l = p) (run_lanes providers pending)) + 1]
   \<and> distinct (map (\<lambda>l. (ls_provider l, ls_slot_id l)) (run_lanes providers pending))"
proof -
  let ?ls = "run_lanes providers pending"
  obtain next_slot lane_id where num: "lanes_numbered (next_slot, lane_id, ?ls)"
    using run_lanes_numbered by blast
  have lanes: "map ls_lane_id ?ls = [1..<lane_id + 1]"
    and slots: "map ls_slot_id (filter (\<lambda>l. ls_provider l = p) ?ls) = [1..<next_slot p + 1]" for p
    using num by (auto simp: lanes_numbered_def)
  have "length ?ls = lane_id" using arg_cong [OF lanes, of length] by simp
  moreover have "length (filter (\<lambda>l. ls_provider l = p) ?ls) = next_slot p" for p
    using arg_cong [OF slots [of p], of length] by simp
  moreover have pairs: "distinct (map (\<lambda>l. (ls_provider l, ls_slot_id l)) ls)"
    if "\<And>p. distinct (map ls_slot_id (filter (\<lambda>l. ls_provider l = p) ls))" for ls
    using that
  proof (induction ls)
    case Nil
    then show ?case by simp
  next
    case (Cons l ls)
    have "distinct (map ls_slot_id (filter (\<lambda>l. ls_provider l = p) ls))" for p
      using Cons.prems [of p] by (auto split: if_splits)
    moreover have "(ls_provider l, ls_slot_id l) \<notin> (\<lambda>l. (ls_provider l, ls_slot_id l)) ` set ls"
      using Cons.prems [of "ls_provider l"] by auto
    ultimately show ?case using Cons.IH by simp
  qed
  moreover have "distinct (map (\<lambda>l. (ls_provider l, ls_slot_id l)) ?ls)"
    by (rule pairs) (simp only: slots distinct_upt)
  ultimately show ?thesis using lanes slots by simp
qed

lemma build_providers_ok:
  "build_providers env reqs seen ps = Inr out \<Longrightarrow> distinct (map (provider_name \<circ> fst) ps)
     \<Longrightarrow> set (map (provider_name \<circ> fst) ps) = set seen
     \<Longrightarrow> distinct (map (provider_name \<circ> fst) out)"
proof (induction env reqs seen ps rule: build_providers.induct)
  case (1 env seen ps)
  then show ?case by simp
next
  case (2 env name workers reqs seen ps)
  obtain spec vals p where p: "name \<notin> set seen" "spec_for name = Inr spec"
    "values_from_environment spec env = Inr vals" "sp_build spec (map_of vals) = Inr p"
    "build_providers env reqs (name # seen)
      (ps @ [(p, with_workers workers (provider_tuning_of p))]) = Inr out"
    using "2.prems"(1) by (auto simp: bind_res_Inr_iff config_error_def split: if_splits)
  have "provider_name p = name"
    using p(2,4) spec_for_cases [OF p(2)]
    by (auto simp: spec_for_def PROVIDERS_def GEONODE_def DATAIMPULSE_def bind_res_Inr_iff provider_name_def
        config_error_def split: if_splits)
  then show ?case
    using "2.IH" [OF p(1) p(5)] p(1) "2.prems"(2,3) by auto
qed

text \<open>What the provider list accepts. An accepted list names each provider once, with a lane
  count of at least one where a count is given. A list of commas alone is accepted and yields no provider, so
  the run has no lane; a superscript digit as lane count raises a plain \<open>ValueError\<close> instead of the
  configuration error.\<close>

theorem provider_list:
  "(\<forall>ps. load_proxy_providers env = Inr ps \<longrightarrow> distinct (map (provider_name \<circ> fst) ps))
   \<and> load_proxy_providers [''PROXY_PROVIDER'' \<mapsto> '' , ''] = Inr []
   \<and> (\<exists>e. load_proxy_providers [''PROXY_PROVIDER'' \<mapsto> ''dataimpulse:'' @ [char_of (178 :: nat)]] = Inl e
        \<and> exn_class e = ValueError)"
proof (intro conjI allI impI)
  fix ps
  assume "load_proxy_providers env = Inr ps"
  then obtain reqs where "build_providers env reqs [] [] = Inr ps"
    by (auto simp: load_proxy_providers_def Let_def bind_res_Inr_iff config_error_def split: if_splits)
  then show "distinct (map (provider_name \<circ> fst) ps)" by (rule build_providers_ok) simp_all
next
  show "load_proxy_providers [''PROXY_PROVIDER'' \<mapsto> '' , ''] = Inr []" by code_simp
next
  have "(case load_proxy_providers [''PROXY_PROVIDER'' \<mapsto> ''dataimpulse:'' @ [char_of (178 :: nat)]] of
      Inl e \<Rightarrow> exn_class e = ValueError | Inr _ \<Rightarrow> False)"
    by code_simp
  then show "\<exists>e. load_proxy_providers [''PROXY_PROVIDER'' \<mapsto> ''dataimpulse:'' @ [char_of (178 :: nat)]] = Inl e
      \<and> exn_class e = ValueError"
    by (auto split: sum.splits)
qed

theorem provider_list_witness:
  "\<exists>ps. load_proxy_providers [''PROXY_PROVIDER'' \<mapsto> ''dataimpulse:4'',
      ''DATAIMPULSE_USERNAME'' \<mapsto> ''u'', ''DATAIMPULSE_PASSWORD'' \<mapsto> ''p''] = Inr ps
    \<and> distinct (map (provider_name \<circ> fst) ps)"
proof -
  have "(case load_proxy_providers [''PROXY_PROVIDER'' \<mapsto> ''dataimpulse:4'',
      ''DATAIMPULSE_USERNAME'' \<mapsto> ''u'', ''DATAIMPULSE_PASSWORD'' \<mapsto> ''p''] of
      Inl e \<Rightarrow> False | Inr _ \<Rightarrow> True)"
    by code_simp
  then show ?thesis
    using provider_list [of "[''PROXY_PROVIDER'' \<mapsto> ''dataimpulse:4'',
      ''DATAIMPULSE_USERNAME'' \<mapsto> ''u'', ''DATAIMPULSE_PASSWORD'' \<mapsto> ''p'']"]
    by (auto split: sum.splits)
qed

end
