(* ===== verification/Fleet.thy ===== *)
theory Fleet
  imports Outcomes
begin

text \<open>
  Jobs sharded over several hosts: \<open>cli/fleet.py\<close>. The input files and the state databases are
  looked up by the path the manifest gives; \<open>sha\<close> is the digest of a file's content.
\<close>

section \<open>Manifests\<close>

definition MANIFEST_VERSION :: nat where
  "MANIFEST_VERSION = 1"

record shard =
  sh_name :: pystr
  sh_host :: pystr
  sh_input_path :: pystr
  sh_input_sha256 :: pystr
  sh_output_path :: pystr
  sh_state_path :: pystr

record job_manifest =
  jm_version :: nat
  jm_revision :: pystr
  jm_sites :: "pystr list"
  jm_providers :: "pystr list"
  jm_shards :: "shard list"

definition value_error :: "pystr \<Rightarrow> exn + 'a" where
  "value_error msg = Inl (raise_exn ValueError msg)"

definition GEONODE_SHARDS :: pystr where
  "GEONODE_SHARDS =
     ''GeoNode cannot run across several standalone shards: each process '' @
     ''numbers its sticky ports from 1, so shards on different hosts '' @
     ''would share ports. Use one shard, a provider without sticky '' @
     ''ports such as dataimpulse, or submit the job to the portal.''"

definition validate_manifest :: "job_manifest \<Rightarrow> exn + unit" where
  "validate_manifest m =
     (if jm_revision m = [] then value_error ''manifest revision must not be empty''
      else if jm_sites m = [] then value_error ''manifest must select at least one site''
      else bind_res (get_sites (jm_sites m)) (\<lambda>_.
        if jm_providers m = [] then value_error ''manifest must list at least one provider''
        else
          let unknown = sort (remdups (filter (\<lambda>p. map_of PROVIDERS p = None) (jm_providers m)))
          in if unknown \<noteq> []
             then value_error (''manifest lists unknown provider(s): '' @ py_join '','' unknown)
             else if ''geonode'' \<in> set (jm_providers m) \<and> 1 < length (jm_shards m)
             then value_error GEONODE_SHARDS
             else if jm_shards m = [] then value_error ''manifest must list at least one shard''
             else if \<not> distinct (map sh_name (jm_shards m))
             then value_error ''manifest shard names must be unique''
             else if \<not> distinct (map sh_state_path (jm_shards m))
             then value_error ''manifest state paths must be unique''
             else Inr ()))"

section \<open>Reconciling\<close>

definition pair_text :: "pair_key \<Rightarrow> pystr" where
  "pair_text k = fst k @ '':'' @ snd k"

definition sample_pairs :: "pair_key list \<Rightarrow> pystr" where
  "sample_pairs ks = py_join '', '' (map pair_text (take 3 (sort (remdups ks))))"

definition shard_pairs :: "site list \<Rightarrow> pystr \<Rightarrow> pair_key list" where
  "shard_pairs sites content =
     concat (map (\<lambda>st. map (\<lambda>d. (site_name st, doc_text d))
        (filter (site_accepts st) (fst (read_docs content True)))) sites)"

fun expected_of ::
  "(pystr \<Rightarrow> pystr) \<Rightarrow> (pystr \<Rightarrow> pystr option) \<Rightarrow> site list \<Rightarrow> shard list \<Rightarrow> pair_key list
     \<Rightarrow> exn + pair_key list" where
  "expected_of sha inputs sites [] expected = Inr expected"
| "expected_of sha inputs sites (sh # shards) expected =
     (case inputs (sh_input_path sh) of
        None \<Rightarrow> value_error (''shard '' @ sh_name sh @ '' input is not available: '' @ sh_input_path sh)
      | Some content \<Rightarrow>
          if sha content \<noteq> sh_input_sha256 sh
          then value_error (''shard '' @ sh_name sh @ '' input no longer matches its recorded SHA-256'')
          else
            let pairs = shard_pairs sites content;
                duplicates = filter (\<lambda>k. k \<in> set expected) pairs
            in if duplicates \<noteq> []
               then value_error (''duplicate document ownership across shards: '' @ sample_pairs duplicates)
               else expected_of sha inputs sites shards (expected @ pairs))"

definition expected_pairs ::
  "(pystr \<Rightarrow> pystr) \<Rightarrow> (pystr \<Rightarrow> pystr option) \<Rightarrow> job_manifest \<Rightarrow> exn + pair_key list" where
  "expected_pairs sha inputs m =
     bind_res (get_sites (jm_sites m)) (\<lambda>sites. expected_of sha inputs sites (jm_shards m) [])"

definition record_key :: "outcome_record \<Rightarrow> pair_key" where
  "record_key r = (or_site r, or_doc r)"

fun add_records :: "outcome_record list \<Rightarrow> outcome_record list \<Rightarrow> exn + outcome_record list" where
  "add_records [] seen = Inr seen"
| "add_records (r # rs) seen =
     (if record_key r \<in> record_key ` set seen
      then value_error (''duplicate outcome ownership across state databases: '' @ pair_text (record_key r))
      else add_records rs (seen @ [r]))"

fun read_all_of ::
  "(pystr \<Rightarrow> store option) \<Rightarrow> pystr list \<Rightarrow> outcome_record list \<Rightarrow> exn + outcome_record list" where
  "read_all_of dbs [] seen = Inr seen"
| "read_all_of dbs (path # paths) seen =
     (case dbs path of
        None \<Rightarrow> value_error (''state database is not available: '' @ path)
      | Some s \<Rightarrow>
          bind_res (outcomes s) (\<lambda>rs.
          bind_res (add_records rs seen) (\<lambda>seen. read_all_of dbs paths seen)))"

definition read_all_outcomes ::
  "(pystr \<Rightarrow> store option) \<Rightarrow> job_manifest \<Rightarrow> exn + outcome_record list" where
  "read_all_outcomes dbs m = read_all_of dbs (map sh_state_path (jm_shards m)) []"

definition is_retryable :: "outcome_record \<Rightarrow> bool" where
  "is_retryable r \<longleftrightarrow> or_status r = FAILED \<and> or_attempt_count r < MAX_TOTAL_ATTEMPTS"

definition is_retired :: "outcome_record \<Rightarrow> bool" where
  "is_retired r \<longleftrightarrow> or_status r = FAILED \<and> MAX_TOTAL_ATTEMPTS \<le> or_attempt_count r"

definition count_by :: "('a \<Rightarrow> bool) \<Rightarrow> 'a list \<Rightarrow> nat" where
  "count_by P xs = length (filter P xs)"

definition fleet_status ::
  "(pystr \<Rightarrow> pystr) \<Rightarrow> (pystr \<Rightarrow> pystr option) \<Rightarrow> (pystr \<Rightarrow> store option) \<Rightarrow> job_manifest
     \<Rightarrow> exn + pystr list" where
  "fleet_status sha inputs dbs m =
     bind_res (expected_pairs sha inputs m) (\<lambda>expected.
     bind_res (read_all_outcomes dbs m) (\<lambda>observed.
       let keys = map record_key observed;
           unexpected = filter (\<lambda>k. k \<notin> set expected) keys
       in if unexpected \<noteq> []
          then value_error (''state database contains pair(s) outside the manifest: '' @ sample_pairs unexpected)
          else
            let uncovered = filter (\<lambda>k. k \<notin> set keys) (remdups expected);
                line = (\<lambda>label n. label @ '': '' @ nat_str n)
            in Inr [''Manifest revision: '' @ jm_revision m,
                 line ''Expected pairs'' (length (remdups expected)),
                 line ''Observed pairs'' (length observed),
                 line ''Uncovered pairs'' (length uncovered),
                 line ''ok'' (count_by (\<lambda>r. or_status r = OK) observed),
                 line ''not_found'' (count_by (\<lambda>r. or_status r = NOT_FOUND) observed),
                 line ''failed and retryable'' (count_by is_retryable observed),
                 line ''failed and terminal'' (count_by is_retired observed)]))"

fun snapshot_all :: "outcome_record list \<Rightarrow> store \<Rightarrow> exn + store" where
  "snapshot_all [] s = Inr s"
| "snapshot_all (r # rs) s = bind_res (record_snapshot r s) (snapshot_all rs)"

text \<open>
  \<open>state_exists\<close> and \<open>exports\<close> are what the destination directory already holds. The result is the
  new database and the files written, with the export's exception if it had one.
\<close>

definition fleet_merge ::
  "(pystr \<Rightarrow> pystr) \<Rightarrow> (pystr \<Rightarrow> pystr option) \<Rightarrow> (pystr \<Rightarrow> store option) \<Rightarrow> job_manifest \<Rightarrow> path
     \<Rightarrow> bool \<Rightarrow> pystr list \<Rightarrow> files \<Rightarrow> exn + store \<times> files \<times> exn option" where
  "fleet_merge sha inputs dbs m output state_exists exports fs =
     bind_res (expected_pairs sha inputs m) (\<lambda>expected.
     bind_res (read_all_outcomes dbs m) (\<lambda>found.
       let keys = map record_key found;
           missing = filter (\<lambda>k. k \<notin> set keys) (remdups expected);
           retryable = count_by is_retryable found
       in if missing \<noteq> []
          then value_error (''cannot merge with '' @ nat_str (length missing) @ '' uncovered pair(s)'')
          else if retryable \<noteq> 0
          then value_error (''cannot merge with '' @ nat_str retryable @ '' retryable failure(s)'')
          else if state_exists
          then value_error (''merge destination state database already exists: ''
                 @ snd (state_path_for_output output))
          else if exports \<noteq> []
          then value_error (''merge destination already has export(s): '' @ hd exports)
          else bind_res (get_sites (jm_sites m)) (\<lambda>sites.
               bind_res (snapshot_all found empty_store) (\<lambda>d.
                 let (fs, err) = export_all d output sites fs in Inr (d, fs, err)))))"

section \<open>Facts\<close>

lemma add_records_ok:
  "add_records rs seen = Inr out \<Longrightarrow> distinct (map record_key seen) \<Longrightarrow>
     out = seen @ rs \<and> distinct (map record_key out)"
proof (induction rs seen rule: add_records.induct)
  case (1 seen)
  then show ?case by simp
next
  case (2 r rs seen)
  then have new: "record_key r \<notin> record_key ` set seen" and rest: "add_records rs (seen @ [r]) = Inr out"
    by (simp_all add: value_error_def split: if_splits)
  have "distinct (map record_key (seen @ [r]))" using new 2(3) by simp
  from 2(1) [OF new rest this] show ?case by (metis append.assoc append_Cons append_Nil)
qed

lemma read_all_ok:
  "read_all_of dbs paths seen = Inr out \<Longrightarrow> distinct (map record_key seen) \<Longrightarrow>
     distinct (map record_key out)
     \<and> (\<exists>parts. out = seen @ concat parts
          \<and> list_all2 (\<lambda>path rs. \<exists>s. dbs path = Some s \<and> outcomes s = Inr rs) paths parts)"
proof (induction paths arbitrary: seen)
  case Nil
  then show ?case by (auto intro: exI [of _ "[]"])
next
  case (Cons path paths)
  obtain s rs seen1 where s: "dbs path = Some s" "outcomes s = Inr rs" "add_records rs seen = Inr seen1"
    "read_all_of dbs paths seen1 = Inr out"
    using Cons.prems(1) by (auto simp: bind_res_Inr_iff value_error_def split: option.splits)
  note ok = add_records_ok [OF s(3) Cons.prems(2)]
  then obtain parts where "out = seen1 @ concat parts" "distinct (map record_key out)"
    "list_all2 (\<lambda>path rs. \<exists>s. dbs path = Some s \<and> outcomes s = Inr rs) paths parts"
    using Cons.IH [OF s(4)] by blast
  then show ?case using ok s by (intro conjI exI [of _ "rs # parts"]) auto
qed

definition record_row :: "outcome_record \<Rightarrow> outcome" where
  "record_row r =
     \<lparr>oc_status = or_status r, oc_payload = encode_rows (or_rows r), oc_error_code = or_error_code r,
      oc_error_detail = or_error_detail r, oc_attempt_count = or_attempt_count r,
      oc_session_id = or_session_id r, oc_proxy_id = or_proxy_id r, oc_provider = or_provider r,
      oc_finished_at = or_finished_at r\<rparr>"

lemma snapshot_all_ok:
  "snapshot_all rs s = Inr d \<Longrightarrow>
     os_outcomes d = os_outcomes s @ map (\<lambda>r. (record_key r, record_row r)) rs"
  by (induction rs arbitrary: s)
    (auto simp: bind_res_Inr_iff record_snapshot_def record_key_def record_row_def split: if_splits)

lemma snapshot_all_total:
  assumes "distinct (map fst (os_outcomes s) @ map record_key rs)"
  shows "\<exists>d. snapshot_all rs s = Inr d"
  using assms
proof (induction rs arbitrary: s)
  case Nil
  then show ?case by simp
next
  case (Cons r rs)
  have fresh: "record_key r \<notin> fst ` set (os_outcomes s)" using Cons.prems by auto
  then obtain s1 where s1: "record_snapshot r s = Inr s1"
    "os_outcomes s1 = os_outcomes s @ [(record_key r, record_row r)]"
    by (auto simp: record_snapshot_def record_key_def record_row_def)
  then show ?case using Cons.IH [of s1] Cons.prems by simp
qed

lemma expected_of_prefix:
  "expected_of sha inputs sites shards expected = Inr out \<Longrightarrow>
     \<exists>parts. out = expected @ concat parts
       \<and> list_all2 (\<lambda>sh ks. \<exists>content. inputs (sh_input_path sh) = Some content
            \<and> sha content = sh_input_sha256 sh \<and> ks = shard_pairs sites content) shards parts"
proof (induction shards arbitrary: expected)
  case Nil
  then show ?case by (auto intro: exI [of _ "[]"])
next
  case (Cons sh shards)
  obtain content where c: "inputs (sh_input_path sh) = Some content" "sha content = sh_input_sha256 sh"
    "expected_of sha inputs sites shards (expected @ shard_pairs sites content) = Inr out"
    using Cons.prems by (auto simp: Let_def value_error_def split: option.splits if_splits)
  obtain parts where "out = (expected @ shard_pairs sites content) @ concat parts"
    "list_all2 (\<lambda>sh ks. \<exists>content. inputs (sh_input_path sh) = Some content
            \<and> sha content = sh_input_sha256 sh \<and> ks = shard_pairs sites content) shards parts"
    using Cons.IH [OF c(3)] by blast
  then show ?case using c by (intro exI [of _ "shard_pairs sites content # parts"]) auto
qed

section \<open>Properties\<close>

text \<open>C12: a merge that goes through leaves in the destination exactly the outcomes of the shards'
  databases, each pair once, and every pair the manifest's inputs expect is among them; every pair in the
  destination, expected or not, is settled or retired, so nothing retryable is merged.\<close>

theorem merge_complete:
  assumes "fleet_merge sha inputs dbs m output state_exists exports fs = Inr (d, fs', err)"
  shows "\<exists>expected found parts.
      expected_pairs sha inputs m = Inr expected
    \<and> found = concat parts
    \<and> list_all2 (\<lambda>sh rs. \<exists>s. dbs (sh_state_path sh) = Some s \<and> outcomes s = Inr rs) (jm_shards m) parts
    \<and> os_outcomes d = map (\<lambda>r. ((or_site r, or_doc r), record_row r)) found
    \<and> distinct (map fst (os_outcomes d))
    \<and> set expected \<subseteq> set (map fst (os_outcomes d))
    \<and> set (done_pairs MAX_TOTAL_ATTEMPTS d) = set (map fst (os_outcomes d))
    \<and> \<not> state_exists \<and> exports = []"
proof -
  obtain expected found where ef: "expected_pairs sha inputs m = Inr expected"
    "read_all_outcomes dbs m = Inr found"
    and covered: "filter (\<lambda>k. k \<notin> set (map record_key found)) (remdups expected) = []"
    and none: "count_by is_retryable found = 0" and dest: "\<not> state_exists" "exports = []"
    and snap: "snapshot_all found empty_store = Inr d"
    using assms
    by (auto simp: fleet_merge_def bind_res_Inr_iff value_error_def Let_def split: if_splits prod.splits)
  obtain parts where parts: "found = concat parts" "distinct (map record_key found)"
    "list_all2 (\<lambda>path rs. \<exists>s. dbs path = Some s \<and> outcomes s = Inr rs) (map sh_state_path (jm_shards m)) parts"
    using read_all_ok [OF ef(2) [unfolded read_all_outcomes_def]] by auto
  have d: "os_outcomes d = map (\<lambda>r. (record_key r, record_row r)) found"
    using snapshot_all_ok [OF snap] by (simp add: empty_store_def)
  have "is_terminal MAX_TOTAL_ATTEMPTS (record_row r)" if "r \<in> set found" for r
    using that none
    by (cases "or_status r")
      (auto simp: is_terminal_def record_row_def count_by_def is_retryable_def filter_empty_conv not_less)
  then have "set (done_pairs MAX_TOTAL_ATTEMPTS d) = set (map fst (os_outcomes d))"
    by (force simp: done_pairs_def d)
  moreover have "set expected \<subseteq> set (map fst (os_outcomes d))"
    using covered by (auto simp: filter_empty_conv d)
  moreover have "distinct (map fst (os_outcomes d))" using parts(2) by (simp add: d comp_def)
  ultimately show ?thesis
    using ef(1) parts d dest by (intro exI [of _ expected] exI [of _ found] exI [of _ parts])
      (simp add: list_all2_map1 record_key_def)
qed

definition one_shard :: job_manifest where
  "one_shard = \<lparr>jm_version = 1, jm_revision = ''r1'', jm_sites = [''osiptel''],
     jm_providers = [''dataimpulse''],
     jm_shards = [\<lparr>sh_name = ''a'', sh_host = ''h'', sh_input_path = ''in.csv'', sh_input_sha256 = ''x'',
        sh_output_path = ''out.csv'', sh_state_path = ''out.state.sqlite3''\<rparr>]\<rparr>"

definition shard_store :: store where
  "shard_store = store_import ''osiptel'' ''12345678'' [[CStr ''a'', CStr ''b'', CStr ''c'']] ''t'' empty_store"

definition one_shard_run :: "exn + store \<times> files \<times> exn option" where
  "one_shard_run = fleet_merge (\<lambda>_. ''x'') (\<lambda>_. Some ''12345678'') (\<lambda>_. Some shard_store) one_shard
     ([], ''all.csv'') False [] (\<lambda>_. None)"

lemma one_shard_merges: "\<exists>d fs err. one_shard_run = Inr (d, fs, err)"
proof -
  have sites: "get_sites [''osiptel''] = Inr [OSIPTEL]"
    by (simp add: get_sites_def duplicates_of_def SITES_def OSIPTEL_def)
  have pairs: "shard_pairs [OSIPTEL] ''12345678'' = [(''osiptel'', ''12345678'')]"
    by code_simp
  have recs: "\<exists>r. outcomes shard_store = Inr [r] \<and> or_status r = OK \<and> record_key r = (''osiptel'', ''12345678'')"
    by (simp add: outcomes_def shard_store_def write_defs upsert_def empty_store_def to_record_def
        decode_encode record_key_def)
  then obtain r where r: "outcomes shard_store = Inr [r]" "or_status r = OK"
    "record_key r = (''osiptel'', ''12345678'')" by blast
  have read: "read_all_outcomes (\<lambda>_. Some shard_store) one_shard = Inr [r]"
    by (simp add: read_all_outcomes_def one_shard_def r(1))
  have expected: "expected_pairs (\<lambda>_. ''x'') (\<lambda>_. Some ''12345678'') one_shard = Inr [(''osiptel'', ''12345678'')]"
    by (simp add: expected_pairs_def one_shard_def sites pairs)
  obtain d where d: "snapshot_all [r] empty_store = Inr d"
    using snapshot_all_total [of empty_store "[r]"] by (auto simp: empty_store_def)
  have "get_sites (jm_sites one_shard) = Inr [OSIPTEL]" using sites by (simp add: one_shard_def)
  then show ?thesis
    using read expected r d
    by (simp add: one_shard_run_def fleet_merge_def Let_def count_by_def is_retryable_def split: prod.splits)
qed

theorem merge_complete_witness:
  "\<exists>d fs err. one_shard_run = Inr (d, fs, err) \<and> distinct (map fst (os_outcomes d))"
proof -
  obtain d fs err where "one_shard_run = Inr (d, fs, err)" using one_shard_merges by blast
  with merge_complete [OF this [unfolded one_shard_run_def]] show ?thesis by blast
qed

end
