(* ===== verification/Planning.thy ===== *)
theory Planning
  imports Csv Osiptel
begin

text \<open>
  The portal's domain: the error reasons of \<open>portal/domain/errors.py\<close>, the values of
  \<open>models.py\<close> that the queue uses, uploads (\<open>portal/web/uploads.py\<close>), and the planning of a
  submission (\<open>planning.py\<close>).
\<close>

section \<open>Errors\<close>

datatype reason =
    NOT_A_MEMBER | LEADER_REQUIRED | SITE_ADMIN_REQUIRED | STEP_UP_REQUIRED | CSRF_INVALID
  | TEAM_NOT_FOUND | JOB_NOT_FOUND | USER_NOT_FOUND | ENTRY_NOT_FOUND | INPUT_NOT_FOUND
  | GLOBAL_SEARCH_REQUIRED
  | SOURCE_REQUIRED | SOURCE_DUPLICATED | SOURCE_NOT_ENABLED
  | SECRET_UNREADABLE | WORKER_NOT_AUTHORIZED | WORKER_ID_INVALID | WORKER_BOOTSTRAP_INVALID
  | CREDENTIAL_REQUIRED | CREDENTIAL_WRONG_TEAM | CREDENTIAL_NOT_PENDING
  | CREDENTIAL_STATE_INVALID | PROXY_UNAVAILABLE | PROXY_INVALID | PROXY_PREFLIGHT_FAILED
  | INITIAL_TEAM_EXISTS | INITIAL_TEAM_MISMATCH | TEAM_MISSING | TEAM_NAME_LENGTH | SLUG_INVALID
  | EMAIL_INVALID | LABEL_LENGTH | LABEL_TAKEN | PASSWORD_TOO_SHORT | ROLE_INVALID | LAST_LEADER
  | INVITE_INVALID
  | USER_LAST_LEADER | LAST_SITE_ADMIN | USER_CANNOT_DEACTIVATE_SELF | USER_HAS_HISTORY
  | LAST_SECOND_FACTOR | SETUP_EXPIRED | TOTP_CODE_INVALID | WEBAUTHN_VERIFICATION_FAILED
  | PASSKEY_NOT_FOUND
  | WORKER_SOURCE_REQUIRED
  | CSV_REQUIRED | CSV_EXTENSION | CSV_EMPTY | CSV_TOO_LARGE | CSV_ENCODING | CSV_UNREADABLE

datatype portal_class =
    PortalError
  | PermissionDenied
  | StepUpRequired
  | NotFound
  | SourceValidationError
  | FencedWrite
  | ProvisioningError
  | CredentialConfigurationError
  | InputValidationError

record portal_error =
  pe_class :: portal_class
  pe_reason :: reason
  pe_params :: "(pystr \<times> pystr) list"

definition raise_portal :: "portal_class \<Rightarrow> reason \<Rightarrow> (pystr \<times> pystr) list \<Rightarrow> portal_error + 'a" where
  "raise_portal c r params = Inl \<lparr>pe_class = c, pe_reason = r, pe_params = params\<rparr>"

section \<open>Uploads\<close>

definition MAX_CSV_UPLOAD_MB :: nat where
  "MAX_CSV_UPLOAD_MB = 15"

definition MAX_CSV_UPLOAD_BYTES :: nat where
  "MAX_CSV_UPLOAD_BYTES = MAX_CSV_UPLOAD_MB * 1024 * 1024"

record input_line =
  il_ordinal :: nat
  il_value :: pystr

text \<open>The decoded text without its byte order mark, None when the bytes are not UTF-8.\<close>

definition csv_input_lines :: "pystr option \<Rightarrow> portal_error + input_line list" where
  "csv_input_lines decoded =
     (case decoded of
        None \<Rightarrow> raise_portal InputValidationError CSV_ENCODING []
      | Some content \<Rightarrow>
          Inr (map (\<lambda>ir. \<lparr>il_ordinal = fst ir, il_value = py_strip (hd (snd ir))\<rparr>)
            (filter (\<lambda>ir. snd ir \<noteq> [] \<and> py_strip (hd (snd ir)) \<noteq> [])
              (enumerate 1 (csv_reader content)))))"

text \<open>The final component of a path, without trailing separators.\<close>

definition path_name :: "pystr \<Rightarrow> pystr" where
  "path_name p =
     (let parts = filter (\<lambda>w. w \<noteq> [] \<and> w \<noteq> ''.'') (py_split CHR ''/'' p)
      in if parts = [] then [] else List.last parts)"

definition py_endswith :: "pystr \<Rightarrow> pystr \<Rightarrow> bool" where
  "py_endswith s e \<longleftrightarrow> length e \<le> length s \<and> drop (length s - length e) s = e"

text \<open>An upload: its file name and content as bytes.\<close>

definition read_csv_upload :: "(pystr \<times> pystr) option \<Rightarrow> portal_error + pystr \<times> pystr" where
  "read_csv_upload upload =
     (case upload of
        None \<Rightarrow> raise_portal InputValidationError CSV_REQUIRED []
      | Some (raw_name, content) \<Rightarrow>
          if raw_name = [] then raise_portal InputValidationError CSV_REQUIRED []
          else
            let filename = path_name raw_name
            in if \<not> py_endswith (py_lower filename) ''.csv''
               then raise_portal InputValidationError CSV_EXTENSION []
               else if MAX_CSV_UPLOAD_BYTES < length content
               then raise_portal InputValidationError CSV_TOO_LARGE
                      [(''limit_mb'', nat_str MAX_CSV_UPLOAD_MB)]
               else if content = [] then raise_portal InputValidationError CSV_EMPTY []
               else Inr (filename, content))"

section \<open>Plans\<close>

record planned_item =
  pi_ordinal :: nat
  pi_document :: pystr
  pi_source :: pystr

record excluded_input =
  ei_ordinal :: nat
  ei_value :: pystr
  ei_reason :: pystr

record submission_plan =
  sp_items :: "planned_item list"
  sp_exclusions :: "excluded_input list"

record submission_review =
  sr_items :: "planned_item list"
  sr_exclusions :: "excluded_input list"
  sr_reusable :: "planned_item list"

definition to_fetch_count :: "submission_review \<Rightarrow> int" where
  "to_fetch_count r = int (length (sr_items r)) - int (length (sr_reusable r))"

text \<open>How long a stored answer of a source stays fresh, in seconds.\<close>

definition SOURCE_FRESHNESS :: "(pystr \<times> seconds) list" where
  "SOURCE_FRESHNESS = [(''osiptel'', 7 * 86400)]"

definition unknown_sources :: "pystr list \<Rightarrow> pystr list" where
  "unknown_sources sources = sort (remdups (filter (\<lambda>s. s \<notin> set STABLE_SITES) sources))"

definition source_not_enabled :: "pystr list \<Rightarrow> portal_error + 'a" where
  "source_not_enabled invalid =
     raise_portal SourceValidationError SOURCE_NOT_ENABLED
       [(''invalid'', py_join '', '' invalid), (''allowed'', py_join '', '' (sort STABLE_SITES))]"

definition validate_sources :: "pystr list \<Rightarrow> portal_error + unit" where
  "validate_sources sources =
     (if sources = [] then raise_portal SourceValidationError SOURCE_REQUIRED []
      else if \<not> distinct sources then raise_portal SourceValidationError SOURCE_DUPLICATED []
      else if unknown_sources sources \<noteq> [] then source_not_enabled (unknown_sources sources)
      else Inr ())"

definition accepted_sources :: "doc \<Rightarrow> pystr list \<Rightarrow> pystr list" where
  "accepted_sources d sources =
     filter (\<lambda>s. case map_of SITES s of None \<Rightarrow> False | Some st \<Rightarrow> site_accepts st d) sources"

fun plan_lines ::
  "pystr list \<Rightarrow> input_line list \<Rightarrow> pystr list \<Rightarrow> planned_item list \<Rightarrow> excluded_input list
     \<Rightarrow> submission_plan" where
  "plan_lines sources [] seen items exclusions = \<lparr>sp_items = items, sp_exclusions = exclusions\<rparr>"
| "plan_lines sources (line # lines) seen items exclusions =
     (case parse_doc (il_value line) of
        Inl _ \<Rightarrow>
          plan_lines sources lines seen items
            (exclusions @ [\<lparr>ei_ordinal = il_ordinal line, ei_value = il_value line,
                            ei_reason = ''invalid_document''\<rparr>])
      | Inr d \<Rightarrow>
          let document = doc_text d
          in if document \<in> set seen
             then plan_lines sources lines seen items
                    (exclusions @ [\<lparr>ei_ordinal = il_ordinal line, ei_value = document,
                                    ei_reason = ''duplicate_document''\<rparr>])
             else
               let seen = document # seen; accepted = accepted_sources d sources
               in if accepted = []
                  then plan_lines sources lines seen items
                         (exclusions @ [\<lparr>ei_ordinal = il_ordinal line, ei_value = document,
                                         ei_reason = ''no_compatible_source''\<rparr>])
                  else plan_lines sources lines seen
                         (items @ map (\<lambda>s. \<lparr>pi_ordinal = il_ordinal line, pi_document = document,
                                            pi_source = s\<rparr>) accepted)
                         exclusions)"

definition plan_submission :: "input_line list \<Rightarrow> pystr list \<Rightarrow> portal_error + submission_plan" where
  "plan_submission lines sources =
     bind_res (validate_sources sources) (\<lambda>_. Inr (plan_lines sources lines [] [] []))"

definition build_review :: "submission_plan \<Rightarrow> (pystr \<times> pystr) list \<Rightarrow> submission_review" where
  "build_review plan reusable_pairs =
     \<lparr>sr_items = sp_items plan, sr_exclusions = sp_exclusions plan,
      sr_reusable = filter (\<lambda>i. (pi_document i, pi_source i) \<in> set reusable_pairs) (sp_items plan)\<rparr>"

section \<open>Facts\<close>

definition item_pair :: "planned_item \<Rightarrow> pystr \<times> pystr" where
  "item_pair i = (pi_document i, pi_source i)"

text \<open>What holds of the plan built so far from some lines.\<close>

definition plan_ok ::
  "pystr list \<Rightarrow> nat set \<Rightarrow> pystr set \<Rightarrow> planned_item list \<Rightarrow> excluded_input list \<Rightarrow> bool" where
  "plan_ok sources ordinals seen items exclusions \<longleftrightarrow>
     distinct (map item_pair items) \<and> distinct (map ei_ordinal exclusions) \<and>
     pi_document ` set items \<subseteq> seen \<and> pi_source ` set items \<subseteq> set sources \<and>
     list_all (\<lambda>i. \<exists>d. parse_doc (pi_document i) = Inr d \<and> doc_text d = pi_document i) items \<and>
     pi_ordinal ` set items \<union> ei_ordinal ` set exclusions = ordinals \<and>
     pi_ordinal ` set items \<inter> ei_ordinal ` set exclusions = {}"

lemma accepted_subset: "set (accepted_sources d sources) \<subseteq> set sources \<and>
   (distinct sources \<longrightarrow> distinct (accepted_sources d sources))"
  by (auto simp: accepted_sources_def)

lemma plan_lines_ok:
  assumes "distinct sources" "distinct (map il_ordinal lines)"
    "plan_ok sources ords (set seen) items excl" "ords \<inter> il_ordinal ` set lines = {}"
    "plan_lines sources lines seen items excl = p"
  shows "\<exists>seen'. plan_ok sources (ords \<union> il_ordinal ` set lines) seen' (sp_items p) (sp_exclusions p)"
  using assms(2-5)
proof (induction lines arbitrary: seen items excl ords)
  case Nil
  then show ?case by auto
next
  case (Cons line lines)
  let ?o = "il_ordinal line"
  have new: "?o \<notin> ords" using Cons.prems(3) by auto
  have fresh: "?o \<notin> pi_ordinal ` set items" "?o \<notin> ei_ordinal ` set excl"
    using new Cons.prems(2) by (auto simp: plan_ok_def)
  have ords: "insert ?o ords \<inter> il_ordinal ` set lines = {}"
    "insert ?o ords \<union> il_ordinal ` set lines = ords \<union> il_ordinal ` set (line # lines)"
    using Cons.prems(1,3) by auto
  have excluded: "plan_ok sources (insert ?o ords) (set seen') items
      (excl @ [\<lparr>ei_ordinal = ?o, ei_value = v, ei_reason = r\<rparr>])" if "set seen \<subseteq> set seen'" for v r seen'
    using Cons.prems(2) fresh that by (auto simp: plan_ok_def)
  have step: "\<exists>seen'. plan_ok sources (ords \<union> il_ordinal ` set (line # lines)) seen' (sp_items p) (sp_exclusions p)"
    if "plan_ok sources (insert ?o ords) (set seen1) items1 excl1"
      "plan_lines sources lines seen1 items1 excl1 = p" for seen1 items1 excl1
    using Cons.IH [OF _ that(1) ords(1) that(2)] Cons.prems(1) ords(2) by simp
  show ?case
  proof (cases "parse_doc (il_value line)")
    case (Inl e)
    then show ?thesis using Cons.prems(4) step [OF excluded [OF subset_refl]] by simp
  next
    case (Inr d)
    show ?thesis
    proof (cases "doc_text d \<in> set seen")
      case True
      then show ?thesis using Inr Cons.prems(4) step [OF excluded [OF subset_refl]] by simp
    next
      case False
      let ?acc = "accepted_sources d sources"
      show ?thesis
      proof (cases "?acc = []")
        case True
        have "set seen \<subseteq> set (doc_text d # seen)" by auto
        from step [OF excluded [OF this]] True False Inr Cons.prems(4) show ?thesis by (simp add: Let_def)
      next
        case nonempty: False
        let ?new = "map (\<lambda>s. \<lparr>pi_ordinal = ?o, pi_document = doc_text d, pi_source = s\<rparr>) ?acc"
        have "plan_ok sources (insert ?o ords) (set (doc_text d # seen)) (items @ ?new) excl"
        proof -
          have d: "distinct (map item_pair ?new)"
            using accepted_subset [of d sources] assms(1) by (auto simp: item_pair_def distinct_map inj_on_def)
          have disj: "item_pair ` set items \<inter> item_pair ` set ?new = {}"
            using Cons.prems(2) False by (auto simp: plan_ok_def item_pair_def)
          have fixed: "parse_doc (doc_text d) = Inr d" using parse_doc_fixed [OF Inr] .
          have ords_new: "pi_ordinal ` set ?new = {?o}" using nonempty by (cases ?acc) auto
          have docs_new: "pi_document ` set ?new \<subseteq> {doc_text d}" by auto
          have src_new: "pi_source ` set ?new \<subseteq> set sources" using accepted_subset [of d sources] by auto
          have all_new: "list_all (\<lambda>i. \<exists>d. parse_doc (pi_document i) = Inr d \<and> doc_text d = pi_document i) ?new"
            using fixed by (simp add: list_all_iff)
          note old = Cons.prems(2) [unfolded plan_ok_def]
          show ?thesis
            unfolding plan_ok_def map_append set_append image_Un list_all_append distinct_append
            using old d disj docs_new src_new all_new fresh unfolding ords_new by auto
        qed
        from step [OF this] nonempty False Inr Cons.prems(4) show ?thesis by (simp add: Let_def)
      qed
    qed
  qed
qed

section \<open>Properties\<close>

text \<open>A plan over lines with different ordinals covers each line exactly once: a line is either
  planned or excluded with one reason. No (document, source) pair is planned twice, every planned
  document is in normal form, and only requested sources are planned.\<close>

theorem plan_covers_lines:
  assumes "plan_submission lines sources = Inr p" "distinct (map il_ordinal lines)"
  shows "pi_ordinal ` set (sp_items p) \<union> ei_ordinal ` set (sp_exclusions p) = il_ordinal ` set lines
    \<and> pi_ordinal ` set (sp_items p) \<inter> ei_ordinal ` set (sp_exclusions p) = {}
    \<and> distinct (map ei_ordinal (sp_exclusions p))
    \<and> distinct (map (\<lambda>i. (pi_document i, pi_source i)) (sp_items p))
    \<and> list_all (\<lambda>i. \<exists>d. parse_doc (pi_document i) = Inr d \<and> doc_text d = pi_document i) (sp_items p)
    \<and> pi_source ` set (sp_items p) \<subseteq> set sources"
proof -
  have "distinct sources" "plan_lines sources lines [] [] [] = p"
    using assms(1)
    by (auto simp: plan_submission_def bind_res_Inr_iff validate_sources_def raise_portal_def
        source_not_enabled_def split: if_splits)
  moreover have "plan_ok sources {} (set []) [] []" by (simp add: plan_ok_def)
  ultimately obtain seen where "plan_ok sources (il_ordinal ` set lines) seen (sp_items p) (sp_exclusions p)"
    using plan_lines_ok [of sources lines "{}" "[]" "[]" "[]" p] assms(2) by auto
  then show ?thesis by (auto simp: plan_ok_def item_pair_def [abs_def])
qed

definition sample_lines :: "input_line list" where
  "sample_lines = [\<lparr>il_ordinal = 1, il_value = ''1234567''\<rparr>, \<lparr>il_ordinal = 2, il_value = ''01234567''\<rparr>,
     \<lparr>il_ordinal = 3, il_value = ''x''\<rparr>]"

theorem plan_covers_lines_witness:
  "\<exists>p. plan_submission sample_lines [''osiptel''] = Inr p
     \<and> pi_ordinal ` set (sp_items p) \<union> ei_ordinal ` set (sp_exclusions p) = {1, 2, 3}"
proof -
  have "validate_sources [''osiptel''] = Inr ()"
    by (simp add: validate_sources_def unknown_sources_def STABLE_SITES_def SITES_def OSIPTEL_def)
  then obtain p where p: "plan_submission sample_lines [''osiptel''] = Inr p"
    by (simp add: plan_submission_def)
  have "distinct (map il_ordinal sample_lines)" by (simp add: sample_lines_def)
  from plan_covers_lines [OF p this] p show ?thesis by (auto simp: sample_lines_def)
qed

end
