(* ===== verification/JobQueue.thy ===== *)
theory JobQueue
  imports Planning Json
begin

text \<open>
  The portal's job queue: \<open>portal/repository/jobs.py\<close>, with the constraints of
  \<open>migrations/001_portal.sql\<close> it relies on. A table is the list of its rows. Each operation is one
  database transaction, run on the state it is given; \<open>now\<close> is the transaction's clock. Fresh
  identifiers and the two identity columns are counters of the database. Sites and object references are
  other components' tables: that an entry's source is a site is checked where a publication comes in
  (\<open>WorkerApi.worker_publish\<close>), whose handler has also just inserted the object reference an item points to.
\<close>

section \<open>Tables\<close>

datatype job_state = JQueued | JRunning | JCancelling | JCompleted | JFailed | JCancelled

fun job_state_value :: "job_state \<Rightarrow> pystr" where
  "job_state_value JQueued = ''queued''"
| "job_state_value JRunning = ''running''"
| "job_state_value JCancelling = ''cancelling''"
| "job_state_value JCompleted = ''completed''"
| "job_state_value JFailed = ''failed''"
| "job_state_value JCancelled = ''cancelled''"

datatype item_state = IPending | IRunning | IPublished | IExcluded | IFailed | ICancelled

definition MAX_ACTIVE_JOBS :: nat where
  "MAX_ACTIVE_JOBS = 5"

definition MAX_LEASE_ATTEMPTS :: nat where
  "MAX_LEASE_ATTEMPTS = 4"

definition LEASE_S :: seconds where
  "LEASE_S = 300"

record job =
  jb_id :: uuid
  jb_team :: uuid
  jb_submitted_by :: uuid
  jb_credential :: uuid
  jb_input_object :: uuid
  jb_filename :: pystr
  jb_sources :: "pystr list"
  jb_state :: job_state
  jb_seq :: nat
  jb_fence :: nat
  jb_reason :: "pystr option"
  jb_started_at :: "seconds option"
  jb_finished_at :: "seconds option"

record item =
  it_id :: uuid
  it_job :: uuid
  it_team :: uuid
  it_ordinal :: nat
  it_document :: pystr
  it_source :: "pystr option"
  it_state :: item_state
  it_reason :: "pystr option"
  it_attempts :: nat
  it_owner :: "pystr option"
  it_fence :: nat
  it_expires :: "seconds option"
  it_entry :: "uuid option"
  it_result_object :: "uuid option"
  it_published_at :: "seconds option"
  it_finished_at :: "seconds option"

record entry =
  en_id :: uuid
  en_document :: pystr
  en_source :: pystr
  en_status :: pystr
  en_columns :: "pystr list"
  en_rows :: pystr
  en_error_code :: "pystr option"
  en_first_seen :: seconds
  en_confirmed :: seconds
  en_last_job :: uuid

record attempt_record =
  ar_fetch_attempt :: nat
  ar_outcome :: pystr
  ar_elapsed_ms :: int
  ar_error_code :: "pystr option"

record lookup_attempt =
  la_id :: uuid
  la_item :: uuid
  la_source :: pystr
  la_provider :: pystr
  la_worker :: pystr
  la_lane :: nat
  la_attempt :: attempt_record

record job_event =
  ev_id :: uuid
  ev_job :: uuid
  ev_sequence :: nat
  ev_type :: pystr
  ev_actor :: "uuid option"
  ev_created_at :: seconds

record outbox_row =
  ob_id :: uuid
  ob_event :: uuid
  ob_channel :: pystr
  ob_job :: pystr
  ob_estado :: pystr

record queue_db =
  q_max_active :: nat
  q_jobs :: "job list"
  q_items :: "item list"
  q_entries :: "entry list"
  q_attempts :: "lookup_attempt list"
  q_events :: "job_event list"
  q_outbox :: "outbox_row list"
  q_versions :: "(uuid \<times> pystr) list"
  q_breakers :: "((pystr \<times> pystr) \<times> seconds option) list"
  q_next_id :: uuid
  q_next_seq :: nat
  q_next_event :: nat

section \<open>Shared steps\<close>

definition is_active :: "job \<Rightarrow> bool" where
  "is_active j \<longleftrightarrow> jb_state j \<in> {JRunning, JCancelling}"

definition active_count :: "queue_db \<Rightarrow> nat" where
  "active_count db = length (filter is_active (q_jobs db))"

definition map_jobs :: "(job \<Rightarrow> job) \<Rightarrow> queue_db \<Rightarrow> queue_db" where
  "map_jobs f db = db\<lparr>q_jobs := map f (q_jobs db)\<rparr>"

definition map_items :: "(item \<Rightarrow> item) \<Rightarrow> queue_db \<Rightarrow> queue_db" where
  "map_items f db = db\<lparr>q_items := map f (q_items db)\<rparr>"

definition find_job :: "uuid \<Rightarrow> queue_db \<Rightarrow> job option" where
  "find_job jid db = find (\<lambda>j. jb_id j = jid) (q_jobs db)"

definition find_item :: "uuid \<Rightarrow> queue_db \<Rightarrow> item option" where
  "find_item iid db = find (\<lambda>i. it_id i = iid) (q_items db)"

text \<open>The gate: a control row with any other limit stops the transaction.\<close>

definition RUNTIME_ERROR :: exn where
  "RUNTIME_ERROR = raise_exn (BuiltinError ''RuntimeError'')
     ''portal_queue_control must retain the fixed five-process limit''"

definition lock_queue_gate :: "queue_db \<Rightarrow> exn + nat" where
  "lock_queue_gate db =
     (if q_max_active db \<noteq> MAX_ACTIVE_JOBS then Inl RUNTIME_ERROR else Inr (q_max_active db))"

definition add_event :: "seconds \<Rightarrow> uuid \<Rightarrow> pystr \<Rightarrow> uuid option \<Rightarrow> queue_db \<Rightarrow> uuid \<times> queue_db" where
  "add_event now jid event_type actor db =
     (q_next_id db,
      db\<lparr>q_events := q_events db @
           [\<lparr>ev_id = q_next_id db, ev_job = jid, ev_sequence = q_next_event db, ev_type = event_type,
             ev_actor = actor, ev_created_at = now\<rparr>],
         q_next_id := q_next_id db + 1, q_next_event := q_next_event db + 1\<rparr>)"

fun add_outbox :: "uuid \<Rightarrow> uuid \<Rightarrow> job_state \<Rightarrow> pystr list \<Rightarrow> queue_db \<Rightarrow> queue_db" where
  "add_outbox event_id jid st [] db = db"
| "add_outbox event_id jid st (channel # channels) db =
     add_outbox event_id jid st channels
       (db\<lparr>q_outbox := q_outbox db @
             [\<lparr>ob_id = q_next_id db, ob_event = event_id, ob_channel = channel, ob_job = nat_str jid,
               ob_estado = job_state_value st\<rparr>],
           q_next_id := q_next_id db + 1\<rparr>)"

definition terminal_intents :: "seconds \<Rightarrow> uuid \<Rightarrow> job_state \<Rightarrow> queue_db \<Rightarrow> queue_db" where
  "terminal_intents now jid st db =
     (let (event_id, db) = add_event now jid (''job.'' @ job_state_value st) None db
      in add_outbox event_id jid st [''in_app'', ''email'', ''kapso_whatsapp''] db)"

text \<open>The queued jobs in order of arrival.\<close>

definition queued_jobs :: "queue_db \<Rightarrow> job list" where
  "queued_jobs db = sort_key jb_seq (filter (\<lambda>j. jb_state j = JQueued) (q_jobs db))"

fun running_events :: "seconds \<Rightarrow> uuid list \<Rightarrow> queue_db \<Rightarrow> queue_db" where
  "running_events now [] db = db"
| "running_events now (jid # jids) db =
     running_events now jids (snd (add_event now jid ''job.running'' None db))"

definition promote_locked :: "seconds \<Rightarrow> queue_db \<Rightarrow> queue_db" where
  "promote_locked now db =
     (let slots = MAX_ACTIVE_JOBS - active_count db
      in if slots = 0 then db
         else
           let ids = map jb_id (take slots (queued_jobs db))
           in running_events now ids
                (map_jobs (\<lambda>j. if jb_id j \<in> set ids
                   then j\<lparr>jb_state := JRunning, jb_started_at := Some now\<rparr> else j) db))"

definition unfinished :: "item \<Rightarrow> bool" where
  "unfinished i \<longleftrightarrow> it_state i \<in> {IPending, IRunning}"

definition has_unfinished :: "uuid \<Rightarrow> queue_db \<Rightarrow> bool" where
  "has_unfinished jid db \<longleftrightarrow> list_ex (\<lambda>i. it_job i = jid \<and> unfinished i) (q_items db)"

definition has_published :: "uuid \<Rightarrow> queue_db \<Rightarrow> bool" where
  "has_published jid db \<longleftrightarrow> list_ex (\<lambda>i. it_job i = jid \<and> it_state i = IPublished) (q_items db)"

definition drained_state :: "uuid \<Rightarrow> queue_db \<Rightarrow> job_state" where
  "drained_state jid db = (if has_published jid db then JCompleted else JFailed)"

definition finish_if_drained :: "seconds \<Rightarrow> uuid \<Rightarrow> queue_db \<Rightarrow> exn + queue_db" where
  "finish_if_drained now jid db =
     (if \<not> list_ex (\<lambda>j. jb_id j = jid \<and> jb_state j = JRunning) (q_jobs db) \<or> has_unfinished jid db
      then Inr db
      else
        let st = drained_state jid db;
            db = map_jobs (\<lambda>j. if jb_id j = jid \<and> jb_state j = JRunning
                   then j\<lparr>jb_state := st,
                          jb_reason := (if st = JCompleted then jb_reason j else Some ''no_results''),
                          jb_finished_at := Some now\<rparr>
                   else j) db;
            db = terminal_intents now jid st db
        in bind_res (lock_queue_gate db) (\<lambda>_. Inr (promote_locked now db)))"

section \<open>Submission\<close>

record submit_job =
  sj_actor :: uuid
  sj_team :: uuid
  sj_credential :: uuid
  sj_input_object :: uuid
  sj_filename :: pystr
  sj_sources :: "pystr list"

definition blank_item :: "uuid \<Rightarrow> uuid \<Rightarrow> uuid \<Rightarrow> nat \<Rightarrow> pystr \<Rightarrow> item" where
  "blank_item iid jid team ordinal document =
     \<lparr>it_id = iid, it_job = jid, it_team = team, it_ordinal = ordinal, it_document = document,
      it_source = None, it_state = IExcluded, it_reason = None, it_attempts = 0, it_owner = None,
      it_fence = 0, it_expires = None, it_entry = None, it_result_object = None,
      it_published_at = None, it_finished_at = None\<rparr>"

definition insert_items :: "(uuid \<Rightarrow> 'a \<Rightarrow> item) \<Rightarrow> 'a list \<Rightarrow> queue_db \<Rightarrow> queue_db" where
  "insert_items mk xs db =
     db\<lparr>q_items := q_items db @ map (\<lambda>(n, x). mk n x) (enumerate (q_next_id db) xs),
        q_next_id := q_next_id db + length xs\<rparr>"

definition pending_item :: "uuid \<Rightarrow> uuid \<Rightarrow> uuid \<Rightarrow> planned_item \<Rightarrow> item" where
  "pending_item jid team iid p =
     (blank_item iid jid team (pi_ordinal p) (pi_document p))
       \<lparr>it_source := Some (pi_source p), it_state := IPending\<rparr>"

definition reused_item ::
  "seconds \<Rightarrow> (pystr \<times> pystr \<Rightarrow> uuid option) \<Rightarrow> uuid \<Rightarrow> uuid \<Rightarrow> uuid \<Rightarrow> planned_item \<Rightarrow> item" where
  "reused_item now reusable jid team iid p =
     (blank_item iid jid team (pi_ordinal p) (pi_document p))
       \<lparr>it_source := Some (pi_source p), it_state := IPublished,
        it_entry := reusable (pi_document p, pi_source p), it_published_at := Some now,
        it_finished_at := Some now\<rparr>"

definition excluded_item :: "uuid \<Rightarrow> uuid \<Rightarrow> uuid \<Rightarrow> excluded_input \<Rightarrow> item" where
  "excluded_item jid team iid e =
     (blank_item iid jid team (ei_ordinal e) (ei_value e))\<lparr>it_reason := Some (ei_reason e)\<rparr>"

definition admission_state :: "planned_item list \<Rightarrow> nat \<Rightarrow> nat \<Rightarrow> job_state" where
  "admission_state to_fetch active max_active =
     (if to_fetch = [] then JCompleted else if active < max_active then JRunning else JQueued)"

definition new_job ::
  "seconds \<Rightarrow> submit_job \<Rightarrow> job_state \<Rightarrow> pystr option \<Rightarrow> queue_db \<Rightarrow> job" where
  "new_job now cmd st terminal_reason db =
     \<lparr>jb_id = q_next_id db, jb_team = sj_team cmd, jb_submitted_by = sj_actor cmd,
      jb_credential = sj_credential cmd, jb_input_object = sj_input_object cmd,
      jb_filename = sj_filename cmd, jb_sources = sj_sources cmd, jb_state = st,
      jb_seq = q_next_seq db, jb_fence = 0, jb_reason = terminal_reason, jb_started_at = None,
      jb_finished_at = None\<rparr>"

definition admit_submission ::
  "seconds \<Rightarrow> submit_job \<Rightarrow> submission_plan \<Rightarrow> (pystr \<times> pystr \<Rightarrow> uuid option) \<Rightarrow> queue_db
     \<Rightarrow> exn + job \<times> queue_db" where
  "admit_submission now cmd plan reusable db =
     (let is_reusable = (\<lambda>p. reusable (pi_document p, pi_source p) \<noteq> None);
          to_fetch = filter (\<lambda>p. \<not> is_reusable p) (sp_items plan);
          reused = filter is_reusable (sp_items plan)
      in bind_res (lock_queue_gate db) (\<lambda>max_active.
         let st = admission_state to_fetch (active_count db) max_active;
             terminal_reason = (if sp_items plan = [] then Some ''all_records_excluded'' else None);
             j = new_job now cmd st terminal_reason db;
             jid = jb_id j;
             db = db\<lparr>q_jobs := q_jobs db @ [j], q_next_id := q_next_id db + 1,
                     q_next_seq := q_next_seq db + 1\<rparr>;
             db = insert_items (pending_item jid (sj_team cmd)) to_fetch db;
             db = insert_items (reused_item now reusable jid (sj_team cmd)) reused db;
             db = insert_items (excluded_item jid (sj_team cmd)) (sp_exclusions plan) db;
             db = (if st = JCompleted then terminal_intents now jid JCompleted db
                   else snd (add_event now jid (''job.'' @ job_state_value st) (Some (sj_actor cmd)) db))
         in Inr (j, db)))"

section \<open>Cancellation\<close>

text \<open>The job afterwards, None when the team has no such job.\<close>

definition cancel :: "seconds \<Rightarrow> uuid \<Rightarrow> uuid \<Rightarrow> queue_db \<Rightarrow> exn + job option \<times> queue_db" where
  "cancel now jid team db =
     bind_res (lock_queue_gate db) (\<lambda>_.
       case find (\<lambda>j. jb_id j = jid \<and> jb_team j = team) (q_jobs db) of
         None \<Rightarrow> Inr (None, db)
       | Some j \<Rightarrow>
           if jb_state j \<notin> {JQueued, JRunning, JCancelling} then Inr (Some j, db)
           else
             let db =
                   (if jb_state j = JRunning
                    then snd (add_event now jid ''job.cancellation_requested'' None
                      (map_jobs (\<lambda>j. if jb_id j = jid
                         then j\<lparr>jb_state := JCancelling, jb_fence := jb_fence j + 1\<rparr> else j) db))
                    else db);
                 db = map_items (\<lambda>i. if it_job i = jid \<and> unfinished i
                        then i\<lparr>it_state := ICancelled, it_finished_at := Some now\<rparr> else i) db;
                 db = map_jobs (\<lambda>j. if jb_id j = jid
                        then j\<lparr>jb_state := JCancelled, jb_finished_at := Some now\<rparr> else j) db;
                 row = find_job jid db;
                 db = terminal_intents now jid JCancelled db;
                 db = promote_locked now db
             in Inr (row, db))"

section \<open>Claims\<close>

record claim_row =
  cw_item :: uuid
  cw_job :: uuid
  cw_team :: uuid
  cw_source :: pystr
  cw_document :: pystr
  cw_fence :: nat
  cw_credential :: uuid

definition is_expired :: "seconds \<Rightarrow> item \<Rightarrow> bool" where
  "is_expired now i \<longleftrightarrow>
     it_state i = IRunning \<and> (case it_expires i of None \<Rightarrow> False | Some t \<Rightarrow> t < now)"

definition job_running :: "uuid \<Rightarrow> queue_db \<Rightarrow> bool" where
  "job_running jid db \<longleftrightarrow> list_ex (\<lambda>j. jb_id j = jid \<and> jb_state j = JRunning) (q_jobs db)"

definition recover_item :: "seconds \<Rightarrow> item \<Rightarrow> item" where
  "recover_item now i =
     (if MAX_LEASE_ATTEMPTS \<le> it_attempts i
      then i\<lparr>it_state := IFailed, it_reason := Some ''lease_expired'', it_finished_at := Some now,
             it_owner := None, it_expires := None\<rparr>
      else i\<lparr>it_state := IPending, it_finished_at := None, it_owner := None, it_expires := None\<rparr>)"

fun finish_all :: "seconds \<Rightarrow> uuid list \<Rightarrow> queue_db \<Rightarrow> exn + queue_db" where
  "finish_all now [] db = Inr db"
| "finish_all now (jid # jids) db = bind_res (finish_if_drained now jid db) (finish_all now jids)"

definition swept_jobs :: "seconds \<Rightarrow> queue_db \<Rightarrow> uuid list" where
  "swept_jobs now db =
     remdups (map it_job (filter (\<lambda>i. is_expired now i \<and> job_running (it_job i) db) (q_items db)))"

definition sweep_expired :: "seconds \<Rightarrow> queue_db \<Rightarrow> exn + queue_db" where
  "sweep_expired now db =
     finish_all now (swept_jobs now db)
       (map_items (\<lambda>i. if is_expired now i \<and> job_running (it_job i) db then recover_item now i else i) db)"

definition breaker_closed :: "seconds \<Rightarrow> queue_db \<Rightarrow> pystr \<Rightarrow> pystr \<Rightarrow> bool" where
  "breaker_closed now db source provider \<longleftrightarrow>
     (case map_of (q_breakers db) (source, provider) of
        None \<Rightarrow> True | Some None \<Rightarrow> True | Some (Some t) \<Rightarrow> t \<le> now)"

text \<open>The claimable items of a job for one source, by ordinal.\<close>

definition claimable :: "seconds \<Rightarrow> queue_db \<Rightarrow> job \<Rightarrow> pystr \<Rightarrow> item list" where
  "claimable now db j source =
     (case map_of (q_versions db) (jb_credential j) of
        None \<Rightarrow> []
      | Some provider \<Rightarrow>
          if breaker_closed now db source provider
          then sort_key it_ordinal (filter (\<lambda>i. it_job i = jb_id j \<and> it_state i = IPending
                 \<and> it_source i = Some source) (q_items db))
          else [])"

definition running_jobs :: "queue_db \<Rightarrow> job list" where
  "running_jobs db = sort_key jb_seq (filter (\<lambda>j. jb_state j = JRunning) (q_jobs db))"

type_synonym candidate = "job \<times> item"

definition candidates_affinity :: "seconds \<Rightarrow> pystr \<Rightarrow> uuid \<Rightarrow> queue_db \<Rightarrow> candidate list" where
  "candidates_affinity now source version db =
     concat (map (\<lambda>j. map (Pair j) (claimable now db j source))
       (filter (\<lambda>j. jb_credential j = version) (running_jobs db)))"

definition per_source :: "seconds \<Rightarrow> pystr list \<Rightarrow> nat \<Rightarrow> queue_db \<Rightarrow> job \<Rightarrow> item list" where
  "per_source now sources n db j =
     take n (sort_key it_ordinal (concat (map (\<lambda>s. take n (claimable now db j s)) sources)))"

definition candidates_any :: "seconds \<Rightarrow> pystr list \<Rightarrow> nat \<Rightarrow> queue_db \<Rightarrow> candidate list" where
  "candidates_any now sources n db =
     take n (concat (map (\<lambda>j. map (Pair j) (per_source now sources n db j)) (running_jobs db)))"

definition lease_item :: "seconds \<Rightarrow> pystr \<Rightarrow> nat \<Rightarrow> item \<Rightarrow> item" where
  "lease_item now worker fence i =
     i\<lparr>it_state := IRunning, it_owner := Some worker, it_fence := fence,
       it_expires := Some (now + LEASE_S), it_attempts := it_attempts i + 1\<rparr>"

definition claimed_work :: "candidate \<Rightarrow> claim_row" where
  "claimed_work c =
     (case c of (j, i) \<Rightarrow>
        \<lparr>cw_item = it_id i, cw_job = it_job i, cw_team = it_team i,
         cw_source = (case it_source i of None \<Rightarrow> [] | Some s \<Rightarrow> s), cw_document = it_document i,
         cw_fence = jb_fence j, cw_credential = jb_credential j\<rparr>)"

text \<open>The update of the candidates' rows. An item listed twice is updated and returned once.\<close>

definition lease_candidates :: "seconds \<Rightarrow> pystr \<Rightarrow> candidate list \<Rightarrow> queue_db \<Rightarrow> claim_row list \<times> queue_db" where
  "lease_candidates now worker cs db =
     (let fences = map (\<lambda>(j, i). (it_id i, jb_fence j)) cs
      in (remdups (map claimed_work cs),
          map_items (\<lambda>i. case map_of fences (it_id i) of
              None \<Rightarrow> i | Some fence \<Rightarrow> lease_item now worker fence i) db))"

definition worker_sources :: "pystr list \<Rightarrow> portal_error + unit" where
  "worker_sources sources =
     (if sources = [] then raise_portal SourceValidationError WORKER_SOURCE_REQUIRED []
      else if unknown_sources sources \<noteq> [] then source_not_enabled (unknown_sources sources)
      else Inr ())"

definition claim_many_locked ::
  "seconds \<Rightarrow> pystr \<Rightarrow> pystr list \<Rightarrow> nat \<Rightarrow> (pystr \<times> uuid) option \<Rightarrow> queue_db
     \<Rightarrow> exn + claim_row list \<times> queue_db" where
  "claim_many_locked now worker sources limit affinity db =
     bind_res (sweep_expired now db) (\<lambda>db.
       let (rows, db) =
             (case affinity of
                None \<Rightarrow> ([], db)
              | Some (source, version) \<Rightarrow>
                  lease_candidates now worker (take limit (candidates_affinity now source version db)) db);
           (more, db) =
             (if length rows < limit
              then lease_candidates now worker (candidates_any now sources (limit - length rows) db) db
              else ([], db))
       in Inr (rows @ more, db))"

text \<open>A portal error is raised before the transaction, any other exception inside it.\<close>

datatype 'a call_result = Refused portal_error | Failed exn | Done 'a

definition to_call :: "exn + 'a \<Rightarrow> 'a call_result" where
  "to_call r = (case r of Inl e \<Rightarrow> Failed e | Inr x \<Rightarrow> Done x)"

definition claim_many ::
  "seconds \<Rightarrow> pystr \<Rightarrow> pystr list \<Rightarrow> int \<Rightarrow> (pystr \<times> uuid) option \<Rightarrow> queue_db
     \<Rightarrow> (claim_row list \<times> queue_db) call_result" where
  "claim_many now worker sources limit affinity db =
     (if limit < 1 then Done ([], db)
      else
        (case worker_sources sources of
           Inl e \<Rightarrow> Refused e
         | Inr _ \<Rightarrow> to_call (claim_many_locked now worker sources (nat limit) affinity db)))"

definition claim_locked ::
  "seconds \<Rightarrow> pystr \<Rightarrow> pystr list \<Rightarrow> (pystr \<times> uuid) option \<Rightarrow> queue_db
     \<Rightarrow> exn + claim_row option \<times> queue_db" where
  "claim_locked now worker sources affinity db =
     bind_res (sweep_expired now db) (\<lambda>db.
       let first =
             (case affinity of
                None \<Rightarrow> []
              | Some (source, version) \<Rightarrow> take 1 (candidates_affinity now source version db));
           cs = (if first \<noteq> [] then first else candidates_any now sources 1 db);
           (rows, db) = lease_candidates now worker cs db
       in Inr (case rows of [] \<Rightarrow> None | w # _ \<Rightarrow> Some w, db))"

definition claim ::
  "seconds \<Rightarrow> pystr \<Rightarrow> pystr list \<Rightarrow> (pystr \<times> uuid) option \<Rightarrow> queue_db
     \<Rightarrow> (claim_row option \<times> queue_db) call_result" where
  "claim now worker sources affinity db =
     (case worker_sources sources of
        Inl e \<Rightarrow> Refused e
      | Inr _ \<Rightarrow> to_call (claim_locked now worker sources affinity db))"

section \<open>Publishing\<close>

record publication =
  pb_item :: uuid
  pb_worker :: pystr
  pb_fence :: nat
  pb_document :: pystr
  pb_source :: pystr
  pb_provider :: pystr
  pb_status :: pystr
  pb_columns :: "pystr list"
  pb_rows :: json
  pb_error_code :: "pystr option"
  pb_result_object :: uuid
  pb_lane :: nat
  pb_attempts :: "attempt_record list"

definition NOT_NULL_VIOLATION :: exn where
  "NOT_NULL_VIOLATION = raise_exn (BuiltinError ''NotNullViolationError'') ''last_job_id''"

definition CHECK_VIOLATION :: exn where
  "CHECK_VIOLATION = raise_exn (BuiltinError ''CheckViolationError'') ''portal_lookup_attempts''"

definition OUTCOMES :: "pystr list" where
  "OUTCOMES = [''ok'', ''not_found'', ''failed'']"

text \<open>
  What the database takes at all: no text or JSON text with the character NUL, integers of four bytes.
\<close>

definition DATA_EXCEPTION :: exn where
  "DATA_EXCEPTION = raise_exn (BuiltinError ''DataError'') []"

definition INT4_MAX :: int where
  "INT4_MAX = 2147483647"

definition storable :: "pystr \<Rightarrow> bool" where
  "storable s \<longleftrightarrow> CHR 0x00 \<notin> set s"

fun opt_storable :: "pystr option \<Rightarrow> bool" where
  "opt_storable None = True"
| "opt_storable (Some s) = storable s"

fun json_storable :: "json \<Rightarrow> bool" where
  "json_storable (JStr s) = storable s"
| "json_storable (JList xs) = list_all json_storable xs"
| "json_storable (JObj kvs) = list_all (\<lambda>(k, v). storable k \<and> json_storable v) kvs"
| "json_storable _ = True"

definition attempt_fits :: "attempt_record \<Rightarrow> bool" where
  "attempt_fits a \<longleftrightarrow> int (ar_fetch_attempt a) \<le> INT4_MAX \<and> \<bar>ar_elapsed_ms a\<bar> \<le> INT4_MAX
     \<and> opt_storable (ar_error_code a)"

definition entry_fits :: "publication \<Rightarrow> bool" where
  "entry_fits p \<longleftrightarrow> storable (pb_document p) \<and> list_all storable (pb_columns p) \<and> json_storable (pb_rows p)
     \<and> opt_storable (pb_error_code p)"

text \<open>The checks of the attempt ledger.\<close>

definition attempt_accepted :: "pystr \<Rightarrow> attempt_record \<Rightarrow> bool" where
  "attempt_accepted provider a \<longleftrightarrow>
     provider \<in> {''geonode'', ''dataimpulse''} \<and> 1 \<le> ar_fetch_attempt a \<and> ar_outcome a \<in> set OUTCOMES
     \<and> 0 \<le> ar_elapsed_ms a \<and> (ar_outcome a = ''failed'' \<longleftrightarrow> ar_error_code a \<noteq> None)"

definition upsert_entry :: "seconds \<Rightarrow> publication \<Rightarrow> queue_db \<Rightarrow> exn + uuid \<times> queue_db" where
  "upsert_entry now p db =
     (if \<not> entry_fits p then Inl DATA_EXCEPTION
      else case find_item (pb_item p) db of
        None \<Rightarrow> Inl NOT_NULL_VIOLATION
      | Some i \<Rightarrow>
          if pb_status p \<notin> set OUTCOMES \<or> list_all (\<lambda>c. c = CHR '' '') (pb_document p) then Inl CHECK_VIOLATION
          else
            (case find (\<lambda>e. en_document e = pb_document p \<and> en_source e = pb_source p) (q_entries db) of
               None \<Rightarrow>
                 Inr (q_next_id db,
                   db\<lparr>q_entries := q_entries db @
                        [\<lparr>en_id = q_next_id db, en_document = pb_document p, en_source = pb_source p,
                          en_status = pb_status p, en_columns = pb_columns p,
                          en_rows = dumps_ascii (pb_rows p), en_error_code = pb_error_code p,
                          en_first_seen = now, en_confirmed = now, en_last_job = it_job i\<rparr>],
                      q_next_id := q_next_id db + 1\<rparr>)
             | Some e \<Rightarrow>
                 Inr (en_id e,
                   db\<lparr>q_entries := map (\<lambda>e. if en_document e = pb_document p \<and> en_source e = pb_source p
                        then e\<lparr>en_status := pb_status p, en_columns := pb_columns p,
                               en_rows := dumps_ascii (pb_rows p), en_error_code := pb_error_code p,
                               en_confirmed := now, en_last_job := it_job i\<rparr>
                        else e) (q_entries db),
                      q_next_id := q_next_id db + 1\<rparr>)))"

definition insert_attempts :: "publication \<Rightarrow> queue_db \<Rightarrow> exn + queue_db" where
  "insert_attempts p db =
     (if INT4_MAX < int (pb_lane p) \<or> \<not> list_all attempt_fits (pb_attempts p) then Inl DATA_EXCEPTION
      else if \<not> list_all (attempt_accepted (pb_provider p)) (pb_attempts p) then Inl CHECK_VIOLATION
      else Inr (db\<lparr>q_attempts := q_attempts db @
             map (\<lambda>(n, a). \<lparr>la_id = n, la_item = pb_item p, la_source = pb_source p,
                la_provider = pb_provider p, la_worker = pb_worker p, la_lane = pb_lane p,
                la_attempt = a\<rparr>) (enumerate (q_next_id db) (pb_attempts p)),
           q_next_id := q_next_id db + length (pb_attempts p)\<rparr>))"

text \<open>The condition of the fenced update.\<close>

definition fence_holds :: "publication \<Rightarrow> queue_db \<Rightarrow> item \<Rightarrow> bool" where
  "fence_holds p db i \<longleftrightarrow>
     it_id i = pb_item p \<and> it_state i = IRunning \<and> it_owner i = Some (pb_worker p)
     \<and> it_fence i = pb_fence p
     \<and> list_ex (\<lambda>j. jb_id j = it_job i \<and> jb_state j = JRunning \<and> jb_fence j = pb_fence p) (q_jobs db)"

definition publish_item :: "seconds \<Rightarrow> publication \<Rightarrow> uuid \<Rightarrow> item \<Rightarrow> item" where
  "publish_item now p entry_id i =
     i\<lparr>it_state := IPublished, it_entry := Some entry_id, it_result_object := Some (pb_result_object p),
       it_published_at := Some now, it_finished_at := Some now, it_owner := None, it_expires := None\<rparr>"

definition publish_fenced :: "seconds \<Rightarrow> publication \<Rightarrow> uuid \<Rightarrow> queue_db \<Rightarrow> uuid option \<times> queue_db" where
  "publish_fenced now p entry_id db =
     (map_option it_job (find (fence_holds p db) (q_items db)),
      map_items (\<lambda>i. if fence_holds p db i then publish_item now p entry_id i else i) db)"

definition publish :: "seconds \<Rightarrow> publication \<Rightarrow> queue_db \<Rightarrow> exn + bool \<times> queue_db" where
  "publish now p db =
     bind_res (upsert_entry now p db) (\<lambda>(entry_id, db).
     bind_res (if pb_attempts p \<noteq> [] then insert_attempts p db else Inr db) (\<lambda>db.
       case publish_fenced now p entry_id db of
         (None, db) \<Rightarrow> Inr (False, db)
       | (Some jid, db) \<Rightarrow> bind_res (finish_if_drained now jid db) (\<lambda>db. Inr (True, db))))"

section \<open>Queries\<close>

definition queue_health :: "queue_db \<Rightarrow> nat \<times> nat \<times> nat" where
  "queue_health db =
     (active_count db, MAX_ACTIVE_JOBS, length (filter (\<lambda>j. jb_state j = JQueued) (q_jobs db)))"

definition published_jobs :: "uuid \<Rightarrow> queue_db \<Rightarrow> job list" where
  "published_jobs team db =
     sort_key jb_seq (filter (\<lambda>j. jb_team j = team \<and> has_published (jb_id j) db) (q_jobs db))"

definition page_of :: "nat \<Rightarrow> nat \<Rightarrow> 'a list \<Rightarrow> 'a list" where
  "page_of page page_size xs = take page_size (drop ((page - 1) * page_size) xs)"

definition jobs_for_team :: "uuid \<Rightarrow> nat \<Rightarrow> nat \<Rightarrow> queue_db \<Rightarrow> job list \<times> nat" where
  "jobs_for_team team page page_size db =
     (let js = rev (sort_key jb_seq (filter (\<lambda>j. jb_team j = team) (q_jobs db)))
      in (page_of page page_size js, length js))"

definition source_text :: "item \<Rightarrow> pystr" where
  "source_text i = (case it_source i of None \<Rightarrow> [] | Some s \<Rightarrow> s)"

text \<open>By ordinal, then source.\<close>

definition by_ordinal :: "item list \<Rightarrow> item list" where
  "by_ordinal is = sort_key it_ordinal (sort_key source_text is)"

definition job_of :: "uuid \<Rightarrow> uuid \<Rightarrow> queue_db \<Rightarrow> (job \<times> item list \<times> excluded_input list) option" where
  "job_of jid team db =
     (case find (\<lambda>j. jb_id j = jid \<and> jb_team j = team) (q_jobs db) of
        None \<Rightarrow> None
      | Some j \<Rightarrow>
          let rows = by_ordinal (filter (\<lambda>i. it_job i = jid) (q_items db))
          in Some (j, filter (\<lambda>i. it_state i \<noteq> IExcluded) rows,
               map (\<lambda>i. \<lparr>ei_ordinal = it_ordinal i, ei_value = it_document i,
                         ei_reason = (case it_reason i of None \<Rightarrow> [] | Some r \<Rightarrow> r)\<rparr>)
                 (filter (\<lambda>i. it_state i = IExcluded) rows)))"

definition all_items_for_job :: "uuid \<Rightarrow> uuid \<Rightarrow> queue_db \<Rightarrow> item list" where
  "all_items_for_job jid team db =
     by_ordinal (filter (\<lambda>i. it_job i = jid \<and> it_team i = team \<and> it_state i \<noteq> IExcluded) (q_items db))"

definition items_for_job :: "uuid \<Rightarrow> uuid \<Rightarrow> nat \<Rightarrow> nat \<Rightarrow> queue_db \<Rightarrow> item list \<times> nat" where
  "items_for_job jid team page page_size db =
     (let rows = all_items_for_job jid team db in (page_of page page_size rows, length rows))"

record job_item_counts =
  ic_pending :: nat
  ic_running :: nat
  ic_published :: nat
  ic_failed :: nat
  ic_cancelled :: nat

definition item_counts :: "uuid \<Rightarrow> uuid \<Rightarrow> queue_db \<Rightarrow> job_item_counts" where
  "item_counts jid team db =
     (let n = (\<lambda>st. length (filter (\<lambda>i. it_job i = jid \<and> it_state i = st
                \<and> list_ex (\<lambda>j. jb_id j = jid \<and> jb_team j = team) (q_jobs db)) (q_items db)))
      in \<lparr>ic_pending = n IPending, ic_running = n IRunning, ic_published = n IPublished,
          ic_failed = n IFailed, ic_cancelled = n ICancelled\<rparr>)"

definition counts_total :: "job_item_counts \<Rightarrow> nat" where
  "counts_total c = ic_pending c + ic_running c + ic_published c + ic_failed c + ic_cancelled c"

definition counts_attempted :: "job_item_counts \<Rightarrow> nat" where
  "counts_attempted c = ic_published c + ic_failed c + ic_cancelled c"

definition job_events_after :: "uuid \<Rightarrow> uuid \<Rightarrow> nat \<Rightarrow> queue_db \<Rightarrow> job_event list" where
  "job_events_after jid team sequence db =
     sort_key ev_sequence (filter (\<lambda>e. ev_job e = jid \<and> sequence < ev_sequence e
        \<and> list_ex (\<lambda>j. jb_id j = jid \<and> jb_team j = team) (q_jobs db)) (q_events db))"

definition recent_job_events :: "uuid list \<Rightarrow> pystr list \<Rightarrow> nat \<Rightarrow> queue_db \<Rightarrow> job_event list" where
  "recent_job_events teams types limit db =
     (if teams = [] \<or> types = [] then []
      else take limit (rev (sort_key ev_sequence (filter (\<lambda>e. ev_type e \<in> set types
        \<and> list_ex (\<lambda>j. jb_id j = ev_job e \<and> jb_team j \<in> set teams) (q_jobs db)) (q_events db)))))"

definition item_team :: "uuid \<Rightarrow> queue_db \<Rightarrow> uuid option" where
  "item_team iid db = map_option it_team (find_item iid db)"

end
