(* ===== verification/QueueInv.thy ===== *)
theory QueueInv
  imports JobQueue
begin

text \<open>
  The invariant of the job queue and its preservation by every operation of \<open>JobQueue\<close>: at most
  five active jobs, nobody waits while a slot is free, every open job has unfinished items, leases
  belong to running jobs under the current fence.
\<close>

section \<open>The queue invariant\<close>

definition ids_ok :: "queue_db \<Rightarrow> bool" where
  "ids_ok db \<longleftrightarrow>
     distinct (map jb_id (q_jobs db)) \<and> (\<forall>j\<in>set (q_jobs db). jb_id j < q_next_id db) \<and>
     distinct (map jb_seq (q_jobs db)) \<and> (\<forall>j\<in>set (q_jobs db). jb_seq j < q_next_seq db) \<and>
     distinct (map it_id (q_items db)) \<and> (\<forall>i\<in>set (q_items db). it_id i < q_next_id db) \<and>
     (\<forall>i\<in>set (q_items db). \<exists>j\<in>set (q_jobs db). jb_id j = it_job i)"

text \<open>What an item's state says of its job.\<close>

definition item_ok :: "job \<Rightarrow> item \<Rightarrow> bool" where
  "item_ok j i \<longleftrightarrow>
     (unfinished i \<longrightarrow> jb_state j \<in> {JQueued, JRunning}) \<and>
     (it_state i = IRunning \<longrightarrow>
        jb_state j = JRunning \<and> it_fence i = jb_fence j \<and> it_owner i \<noteq> None
        \<and> 1 \<le> it_attempts i \<and> it_attempts i \<le> MAX_LEASE_ATTEMPTS) \<and>
     (it_state i = IPending \<longrightarrow> it_attempts i < MAX_LEASE_ATTEMPTS \<and> it_owner i = None)"

definition links_ok :: "queue_db \<Rightarrow> bool" where
  "links_ok db \<longleftrightarrow>
     (\<forall>j\<in>set (q_jobs db). jb_state j \<noteq> JCancelling \<and>
        (\<forall>i\<in>set (q_items db). it_job i = jb_id j \<longrightarrow> item_ok j i))"

text \<open>Every open job outside \<open>S\<close> still has work.\<close>

definition works_except :: "uuid set \<Rightarrow> queue_db \<Rightarrow> bool" where
  "works_except S db \<longleftrightarrow>
     (\<forall>j\<in>set (q_jobs db). jb_id j \<notin> S \<longrightarrow> jb_state j \<in> {JQueued, JRunning} \<longrightarrow> has_unfinished (jb_id j) db)
     \<and> (\<forall>j\<in>set (q_jobs db). jb_state j = JQueued \<longrightarrow> has_unfinished (jb_id j) db)"

definition gate_bound :: "queue_db \<Rightarrow> bool" where
  "gate_bound db \<longleftrightarrow> q_max_active db = MAX_ACTIVE_JOBS \<and> active_count db \<le> MAX_ACTIVE_JOBS"

definition gate_full :: "queue_db \<Rightarrow> bool" where
  "gate_full db \<longleftrightarrow> (\<exists>j\<in>set (q_jobs db). jb_state j = JQueued) \<longrightarrow> active_count db = MAX_ACTIVE_JOBS"

definition queue_ok :: "queue_db \<Rightarrow> bool" where
  "queue_ok db \<longleftrightarrow> ids_ok db \<and> links_ok db \<and> works_except {} db \<and> gate_bound db \<and> gate_full db"

lemma has_unfinished_iff:
  "has_unfinished jid db \<longleftrightarrow> (\<exists>i\<in>set (q_items db). it_job i = jid \<and> unfinished i)"
  by (auto simp: has_unfinished_def list_ex_iff)

subsection \<open>Steps that leave jobs and items alone\<close>

lemma add_event_fields [simp]:
  "q_jobs (snd (add_event now jid t a db)) = q_jobs db"
  "q_items (snd (add_event now jid t a db)) = q_items db"
  "q_max_active (snd (add_event now jid t a db)) = q_max_active db"
  "q_next_seq (snd (add_event now jid t a db)) = q_next_seq db"
  "q_next_id (snd (add_event now jid t a db)) = q_next_id db + 1"
  "q_versions (snd (add_event now jid t a db)) = q_versions db"
  "q_breakers (snd (add_event now jid t a db)) = q_breakers db"
  by (simp_all add: add_event_def)

lemma add_outbox_fields [simp]:
  "q_jobs (add_outbox e jid st cs db) = q_jobs db \<and> q_items (add_outbox e jid st cs db) = q_items db
   \<and> q_max_active (add_outbox e jid st cs db) = q_max_active db
   \<and> q_next_seq (add_outbox e jid st cs db) = q_next_seq db
   \<and> q_next_id (add_outbox e jid st cs db) = q_next_id db + length cs"
  by (induction cs arbitrary: db) auto

lemma terminal_intents_fields [simp]:
  "q_jobs (terminal_intents now jid st db) = q_jobs db"
  "q_items (terminal_intents now jid st db) = q_items db"
  "q_max_active (terminal_intents now jid st db) = q_max_active db"
  "q_next_seq (terminal_intents now jid st db) = q_next_seq db"
  "q_next_id db \<le> q_next_id (terminal_intents now jid st db)"
proof -
  obtain eid db1 where e: "add_event now jid (''job.'' @ job_state_value st) None db = (eid, db1)" by (metis surj_pair)
  have "q_jobs db1 = q_jobs db \<and> q_items db1 = q_items db \<and> q_max_active db1 = q_max_active db
      \<and> q_next_seq db1 = q_next_seq db \<and> q_next_id db \<le> q_next_id db1"
    using e by (auto simp: add_event_def)
  moreover have "terminal_intents now jid st db
      = add_outbox eid jid st [''in_app'', ''email'', ''kapso_whatsapp''] db1"
    by (simp only: terminal_intents_def e Let_def prod.case)
  ultimately show "q_jobs (terminal_intents now jid st db) = q_jobs db"
    "q_items (terminal_intents now jid st db) = q_items db"
    "q_max_active (terminal_intents now jid st db) = q_max_active db"
    "q_next_seq (terminal_intents now jid st db) = q_next_seq db"
    "q_next_id db \<le> q_next_id (terminal_intents now jid st db)"
    using add_outbox_fields [of eid jid st "[''in_app'', ''email'', ''kapso_whatsapp'']" db1]
    by (auto intro: le_trans)
qed

lemma running_events_fields [simp]:
  "q_jobs (running_events now ids db) = q_jobs db \<and> q_items (running_events now ids db) = q_items db
   \<and> q_max_active (running_events now ids db) = q_max_active db
   \<and> q_next_seq (running_events now ids db) = q_next_seq db
   \<and> q_next_id (running_events now ids db) = q_next_id db + length ids"
  by (induction ids arbitrary: db) auto

text \<open>The invariants only look at jobs, items, the limit and the counters.\<close>

definition same_rows :: "queue_db \<Rightarrow> queue_db \<Rightarrow> bool" where
  "same_rows db db' \<longleftrightarrow> q_jobs db' = q_jobs db \<and> q_items db' = q_items db \<and> q_max_active db' = q_max_active db
     \<and> q_next_seq db' = q_next_seq db \<and> q_next_id db \<le> q_next_id db'"

lemma same_rows_ids: "same_rows db db' \<Longrightarrow> ids_ok db \<Longrightarrow> ids_ok db'"
  by (auto simp: same_rows_def ids_ok_def intro: less_le_trans)

lemma same_rows_rest:
  assumes "same_rows db db'"
  shows "links_ok db' = links_ok db" "works_except S db' = works_except S db"
    "gate_bound db' = gate_bound db" "gate_full db' = gate_full db" "active_count db' = active_count db"
  using assms
  by (auto simp: same_rows_def links_ok_def works_except_def gate_bound_def gate_full_def active_count_def has_unfinished_def)

lemma same_rows_intents: "same_rows db (terminal_intents now jid st db)"
  by (simp add: same_rows_def)

lemma same_rows_running: "same_rows db (running_events now ids db)"
  by (simp add: same_rows_def)

lemma same_rows_event: "same_rows db (snd (add_event now jid t a db))"
  by (simp add: same_rows_def)

subsection \<open>Promotion\<close>

lemma length_filter_card: "distinct xs \<Longrightarrow> length (filter P xs) = card {x \<in> set xs. P x}"
  by (metis distinct_card distinct_filter set_filter)

lemma queued_jobs_set: "set (queued_jobs db) = {j \<in> set (q_jobs db). jb_state j = JQueued}"
  by (auto simp: queued_jobs_def)

definition promoted :: "queue_db \<Rightarrow> job list" where
  "promoted db = take (MAX_ACTIVE_JOBS - active_count db) (queued_jobs db)"

definition start_job :: "seconds \<Rightarrow> uuid set \<Rightarrow> job \<Rightarrow> job" where
  "start_job now ids j = (if jb_id j \<in> ids then j\<lparr>jb_state := JRunning, jb_started_at := Some now\<rparr> else j)"

lemma promote_locked_rows:
  "same_rows (map_jobs (start_job now (jb_id ` set (promoted db))) db) (promote_locked now db)"
proof (cases "MAX_ACTIVE_JOBS - active_count db = 0")
  case True
  then have "promoted db = []" by (simp add: promoted_def)
  then have "map_jobs (start_job now (jb_id ` set (promoted db))) db = db"
    by (simp add: map_jobs_def start_job_def [abs_def])
  then show ?thesis using True by (simp add: promote_locked_def same_rows_def)
next
  case False
  then have "promote_locked now db = running_events now (map jb_id (promoted db))
      (map_jobs (start_job now (jb_id ` set (promoted db))) db)"
    by (simp add: promote_locked_def promoted_def start_job_def [abs_def] Let_def)
  then show ?thesis by (simp add: same_rows_running)
qed

lemma start_job_fields [simp]:
  "jb_id (start_job now ids j) = jb_id j" "jb_seq (start_job now ids j) = jb_seq j"
  "jb_fence (start_job now ids j) = jb_fence j" "jb_team (start_job now ids j) = jb_team j"
  by (simp_all add: start_job_def)

lemma map_jobs_fields [simp]:
  "q_jobs (map_jobs f db) = map f (q_jobs db)" "q_items (map_jobs f db) = q_items db"
  "q_max_active (map_jobs f db) = q_max_active db" "q_next_id (map_jobs f db) = q_next_id db"
  "q_next_seq (map_jobs f db) = q_next_seq db"
  by (simp_all add: map_jobs_def)

lemma map_items_fields [simp]:
  "q_items (map_items f db) = map f (q_items db)" "q_jobs (map_items f db) = q_jobs db"
  "q_max_active (map_items f db) = q_max_active db" "q_next_id (map_items f db) = q_next_id db"
  "q_next_seq (map_items f db) = q_next_seq db" "q_versions (map_items f db) = q_versions db"
  "q_breakers (map_items f db) = q_breakers db"
  by (simp_all add: map_items_def)

lemma ids_map_jobs:
  assumes "ids_ok db" "\<And>j. jb_id (f j) = jb_id j" "\<And>j. jb_seq (f j) = jb_seq j"
  shows "ids_ok (map_jobs f db)"
  using assms by (auto simp: ids_ok_def comp_def)

lemma has_unfinished_map_jobs [simp]: "has_unfinished jid (map_jobs f db) = has_unfinished jid db"
  by (simp add: has_unfinished_def)

lemma jobs_distinct: "ids_ok db \<Longrightarrow> distinct (q_jobs db)"
  by (auto simp: ids_ok_def distinct_map)

lemma job_unique:
  "ids_ok db \<Longrightarrow> j \<in> set (q_jobs db) \<Longrightarrow> k \<in> set (q_jobs db) \<Longrightarrow> jb_id j = jb_id k \<Longrightarrow> j = k"
  by (auto simp: ids_ok_def distinct_map inj_on_def)

lemma promoted_queued: "j \<in> set (promoted db) \<Longrightarrow> j \<in> set (q_jobs db) \<and> jb_state j = JQueued"
  using in_set_takeD [of j _ "queued_jobs db"] queued_jobs_set [of db] unfolding promoted_def by blast

lemma promoted_mem:
  assumes "ids_ok db" "j \<in> set (q_jobs db)"
  shows "jb_id j \<in> jb_id ` set (promoted db) \<longleftrightarrow> j \<in> set (promoted db)"
proof
  assume "jb_id j \<in> jb_id ` set (promoted db)"
  then obtain k where "k \<in> set (promoted db)" "jb_id j = jb_id k" by auto
  then show "j \<in> set (promoted db)" using job_unique [OF assms] promoted_queued by metis
qed simp

lemma promoted_distinct: "ids_ok db \<Longrightarrow> distinct (promoted db)"
  by (simp add: promoted_def queued_jobs_def jobs_distinct)

lemma active_after_promotion:
  assumes "ids_ok db"
  shows "active_count (map_jobs (start_job now (jb_id ` set (promoted db))) db) = active_count db + length (promoted db)"
proof -
  let ?ids = "jb_id ` set (promoted db)"
  have act: "is_active (start_job now ?ids j) \<longleftrightarrow> is_active j \<or> j \<in> set (promoted db)" if "j \<in> set (q_jobs db)" for j
    using promoted_mem [OF assms that] by (auto simp: start_job_def is_active_def)
  have "length (filter is_active (map (start_job now ?ids) (q_jobs db)))
      = length (filter (\<lambda>j. is_active j \<or> j \<in> set (promoted db)) (q_jobs db))"
    unfolding filter_map length_map by (rule arg_cong [where f = length], rule filter_cong [OF refl]) (simp add: act)
  also have "\<dots> = card ({j \<in> set (q_jobs db). is_active j} \<union> set (promoted db))"
    using jobs_distinct [OF assms] promoted_queued
    by (subst length_filter_card) (auto intro!: arg_cong [where f = card])
  also have "\<dots> = card {j \<in> set (q_jobs db). is_active j} + card (set (promoted db))"
    using promoted_queued by (intro card_Un_disjoint) (auto simp: is_active_def)
  also have "\<dots> = active_count db + length (promoted db)"
    using jobs_distinct [OF assms] distinct_card [OF promoted_distinct [OF assms]]
    by (simp add: active_count_def length_filter_card)
  finally show ?thesis by (simp add: active_count_def)
qed

lemma promote_ok:
  assumes "ids_ok db" "links_ok db" "works_except S db" "gate_bound db"
  shows "ids_ok (promote_locked now db) \<and> links_ok (promote_locked now db)
    \<and> works_except S (promote_locked now db) \<and> gate_bound (promote_locked now db)
    \<and> gate_full (promote_locked now db)"
proof -
  let ?ids = "jb_id ` set (promoted db)"
  let ?db = "map_jobs (start_job now ?ids) db"
  note rows = promote_locked_rows [of now db]
  have ids: "ids_ok ?db" by (rule ids_map_jobs [OF assms(1)]) simp_all
  have links: "links_ok ?db"
    unfolding links_ok_def
  proof (intro ballI conjI impI)
    fix j
    assume j: "j \<in> set (q_jobs ?db)"
    then obtain k where k: "k \<in> set (q_jobs db)" "j = start_job now ?ids k" by auto
    show "jb_state j \<noteq> JCancelling"
      using k assms(2) by (auto simp: start_job_def links_ok_def)
    fix i
    assume i: "i \<in> set (q_items ?db)" "it_job i = jb_id j"
    then have ok: "item_ok k i" using k assms(2) by (auto simp: links_ok_def)
    show "item_ok j i"
    proof (cases "k \<in> set (promoted db)")
      case True
      then have "jb_state k = JQueued" using promoted_queued by blast
      then show ?thesis using ok k(2) True by (auto simp: item_ok_def start_job_def)
    next
      case False
      then have "j = k" using k promoted_mem [OF assms(1) k(1)] by (simp add: start_job_def)
      then show ?thesis using ok by simp
    qed
  qed
  have works: "works_except S ?db"
    using assms(3) promoted_queued promoted_mem [OF assms(1)]
    by (auto simp: works_except_def start_job_def split: if_splits)
  have act: "active_count ?db = active_count db + length (promoted db)" by (rule active_after_promotion [OF assms(1)])
  have bound: "gate_bound ?db"
    using assms(4) act by (auto simp: gate_bound_def promoted_def)
  have full: "gate_full ?db"
    unfolding gate_full_def
  proof
    assume "\<exists>j\<in>set (q_jobs ?db). jb_state j = JQueued"
    then obtain k where k: "k \<in> set (q_jobs db)" "jb_state k = JQueued" "k \<notin> set (promoted db)"
      using promoted_mem [OF assms(1)] by (auto simp: start_job_def split: if_splits)
    then have "k \<in> set (queued_jobs db)" by (simp add: queued_jobs_set)
    then have "MAX_ACTIVE_JOBS - active_count db < length (queued_jobs db)"
      using k(3) by (metis linorder_not_less promoted_def take_all)
    then show "active_count ?db = MAX_ACTIVE_JOBS"
      using act assms(4) by (simp add: promoted_def gate_bound_def)
  qed
  show ?thesis
    using same_rows_ids [OF rows ids] same_rows_rest [OF rows] links works bound full by simp
qed

subsection \<open>Finishing and sweeping\<close>

lemma active_count_le:
  "(\<And>j. j \<in> set (q_jobs db) \<Longrightarrow> is_active (f j) \<Longrightarrow> is_active j) \<Longrightarrow> active_count (map_jobs f db) \<le> active_count db"
proof -
  have "length (filter is_active (map f xs)) \<le> length (filter is_active xs)"
    if "\<And>j. j \<in> set xs \<Longrightarrow> is_active (f j) \<Longrightarrow> is_active j" for xs
    using that by (induction xs) auto
  then show "(\<And>j. j \<in> set (q_jobs db) \<Longrightarrow> is_active (f j) \<Longrightarrow> is_active j) \<Longrightarrow> ?thesis"
    by (simp add: active_count_def)
qed

text \<open>Everything the queue invariant says, except that the jobs of \<open>S\<close> may have run out of work.\<close>

definition queue_pre :: "uuid set \<Rightarrow> queue_db \<Rightarrow> bool" where
  "queue_pre S db \<longleftrightarrow> ids_ok db \<and> links_ok db \<and> works_except S db \<and> gate_bound db"

lemma queue_ok_pre: "queue_ok db \<longleftrightarrow> queue_pre {} db \<and> gate_full db"
  by (auto simp: queue_ok_def queue_pre_def)

lemma promote_pre: "queue_pre S db \<Longrightarrow> queue_pre S (promote_locked now db) \<and> gate_full (promote_locked now db)"
  using promote_ok [of db S now] by (simp add: queue_pre_def)

lemma same_rows_pre: "same_rows db db' \<Longrightarrow> queue_pre S db \<Longrightarrow> queue_pre S db'"
  using same_rows_ids same_rows_rest by (simp add: queue_pre_def)

text \<open>Closing jobs that have no unfinished item.\<close>

lemma close_jobs_pre:
  assumes "queue_pre S db"
    "\<And>j. jb_id (f j) = jb_id j \<and> jb_seq (f j) = jb_seq j"
    "\<And>j. j \<in> set (q_jobs db) \<Longrightarrow> f j = j \<or> (jb_id j = jid \<and> jb_state (f j) \<in> {JCompleted, JFailed, JCancelled})"
    "\<And>j. j \<in> set (q_jobs db) \<Longrightarrow> jb_id j = jid \<Longrightarrow> jb_state (f j) \<notin> {JQueued, JRunning}"
    "\<not> has_unfinished jid db"
  shows "queue_pre (S - {jid}) (map_jobs f db)"
  unfolding queue_pre_def
proof (intro conjI)
  show "ids_ok (map_jobs f db)" using assms(1,2) ids_map_jobs [of db f] by (simp add: queue_pre_def)
  show "links_ok (map_jobs f db)"
    unfolding links_ok_def
  proof (intro ballI conjI impI)
    fix j
    assume "j \<in> set (q_jobs (map_jobs f db))"
    then obtain k where k: "k \<in> set (q_jobs db)" "j = f k" by auto
    have link: "jb_state k \<noteq> JCancelling" "\<And>i. i \<in> set (q_items db) \<Longrightarrow> it_job i = jb_id k \<Longrightarrow> item_ok k i"
      using assms(1) k(1) by (auto simp: queue_pre_def links_ok_def)
    show "jb_state j \<noteq> JCancelling" using assms(3) [OF k(1)] k(2) link(1) by auto
    fix i
    assume i: "i \<in> set (q_items (map_jobs f db))" "it_job i = jb_id j"
    show "item_ok j i"
    proof (cases "f k = k")
      case True
      then show ?thesis using k i link(2) by simp
    next
      case False
      then have "jb_id k = jid" using assms(3) [OF k(1)] by blast
      then have "\<not> unfinished i" using i k(2) assms(2) [of k] assms(5) by (auto simp: has_unfinished_iff)
      then show ?thesis by (auto simp: item_ok_def unfinished_def)
    qed
  qed
  have act: "is_active (f j) \<Longrightarrow> is_active j" if "j \<in> set (q_jobs db)" for j
    using assms(3) [OF that] by (auto simp: is_active_def)
  show "gate_bound (map_jobs f db)"
    using assms(1) active_count_le [of db f] act by (fastforce simp: queue_pre_def gate_bound_def)
  have works: "works_except S db" using assms(1) by (simp add: queue_pre_def)
  show "works_except (S - {jid}) (map_jobs f db)"
    unfolding works_except_def
  proof (intro conjI ballI impI)
    fix j
    assume j: "j \<in> set (q_jobs (map_jobs f db))" "jb_id j \<notin> S - {jid}" "jb_state j \<in> {JQueued, JRunning}"
    then obtain k where k: "k \<in> set (q_jobs db)" "j = f k" by auto
    then have "jb_id k \<noteq> jid" using assms(4) j(3) by blast
    then have "f k = k" using assms(3) [OF k(1)] by blast
    then show "has_unfinished (jb_id j) (map_jobs f db)"
      using k j(2,3) works \<open>jb_id k \<noteq> jid\<close> by (auto simp: works_except_def)
  next
    fix j
    assume j: "j \<in> set (q_jobs (map_jobs f db))" "jb_state j = JQueued"
    then obtain k where k: "k \<in> set (q_jobs db)" "j = f k" by auto
    then have "f k = k" using assms(3) [OF k(1)] j(2) by auto
    then show "has_unfinished (jb_id j) (map_jobs f db)"
      using k j(2) works by (auto simp: works_except_def)
  qed
qed

lemma finish_ok:
  assumes "queue_pre S db" "gate_full db"
  shows "\<exists>db'. finish_if_drained now jid db = Inr db' \<and> queue_pre (S - {jid}) db' \<and> gate_full db'"
proof (cases "\<not> list_ex (\<lambda>j. jb_id j = jid \<and> jb_state j = JRunning) (q_jobs db) \<or> has_unfinished jid db")
  case True
  then have "finish_if_drained now jid db = Inr db" by (simp add: finish_if_drained_def)
  moreover have "works_except (S - {jid}) db"
    using assms(1) True by (auto simp: queue_pre_def works_except_def list_ex_iff)
  ultimately show ?thesis using assms by (simp add: queue_pre_def)
next
  case False
  let ?st = "drained_state jid db"
  let ?f = "\<lambda>j. if jb_id j = jid \<and> jb_state j = JRunning
                   then j\<lparr>jb_state := ?st, jb_reason := (if ?st = JCompleted then jb_reason j else Some ''no_results''),
                          jb_finished_at := Some now\<rparr>
                   else j"
  have st: "?st = JCompleted \<or> ?st = JFailed" by (simp add: drained_state_def)
  have "jb_state (?f j) \<notin> {JQueued, JRunning}" if "j \<in> set (q_jobs db)" "jb_id j = jid" for j
    using that False st assms(1)
    by (auto simp: queue_pre_def works_except_def)
  then have "queue_pre (S - {jid}) (map_jobs ?f db)"
    using False st by (intro close_jobs_pre [OF assms(1)]) auto
  then have pre: "queue_pre (S - {jid}) (terminal_intents now jid ?st (map_jobs ?f db))" (is "queue_pre _ ?db")
    by (rule same_rows_pre [OF same_rows_intents])
  have "lock_queue_gate ?db = Inr MAX_ACTIVE_JOBS"
    using pre by (simp add: lock_queue_gate_def queue_pre_def gate_bound_def)
  then have "finish_if_drained now jid db = Inr (promote_locked now ?db)"
    using False unfolding finish_if_drained_def Let_def by (simp only: if_False bind_res_simps)
  then show ?thesis using promote_pre [OF pre] by blast
qed

lemma finish_all_ok:
  assumes "queue_pre S db" "gate_full db" "S \<subseteq> set jids"
  shows "\<exists>db'. finish_all now jids db = Inr db' \<and> queue_ok db'"
  using assms
proof (induction jids arbitrary: db S)
  case Nil
  then show ?case by (simp add: queue_ok_pre)
next
  case (Cons jid jids)
  obtain db1 where "finish_if_drained now jid db = Inr db1" "queue_pre (S - {jid}) db1" "gate_full db1"
    using finish_ok [OF Cons.prems(1,2)] by blast
  then show ?case using Cons.IH [of "S - {jid}" db1] Cons.prems(3) by auto
qed

text \<open>Updating items in place.\<close>

lemma ids_map_items:
  assumes "ids_ok db" "\<And>i. it_id (f i) = it_id i" "\<And>i. it_job (f i) = it_job i"
  shows "ids_ok (map_items f db)"
  using assms by (auto simp: ids_ok_def comp_def)

lemma map_items_pre:
  assumes "queue_pre S db" "\<And>i. it_id (f i) = it_id i \<and> it_job (f i) = it_job i"
    "\<And>j i. j \<in> set (q_jobs db) \<Longrightarrow> i \<in> set (q_items db) \<Longrightarrow> it_job i = jb_id j \<Longrightarrow> item_ok j i \<Longrightarrow> item_ok j (f i)"
    "\<And>i. i \<in> set (q_items db) \<Longrightarrow> unfinished i \<Longrightarrow>
       unfinished (f i) \<or> (it_job i \<in> T \<and> (\<forall>j\<in>set (q_jobs db). jb_id j = it_job i \<longrightarrow> jb_state j \<noteq> JQueued))"
    "S \<subseteq> T"
  shows "queue_pre T (map_items f db)"
proof -
  have kept: "has_unfinished jid (map_items f db)"
    if j: "has_unfinished jid db" "jid \<notin> T \<or> (\<exists>j\<in>set (q_jobs db). jb_id j = jid \<and> jb_state j = JQueued)" for jid
  proof -
    obtain i where "i \<in> set (q_items db)" "it_job i = jid" "unfinished i"
      using j(1) by (auto simp: has_unfinished_iff)
    then show ?thesis using assms(2) [of i] assms(4) [of i] j(2) by (auto simp: has_unfinished_iff)
  qed
  have "links_ok (map_items f db)"
    using assms(1,2,3) by (auto simp: links_ok_def queue_pre_def)
  moreover have "works_except T (map_items f db)"
    using assms(1,5) kept by (fastforce simp: works_except_def queue_pre_def)
  moreover have "ids_ok (map_items f db)"
    using assms(1,2) by (intro ids_map_items) (auto simp: queue_pre_def)
  moreover have "gate_bound (map_items f db)"
    using assms(1) by (simp add: queue_pre_def gate_bound_def active_count_def)
  ultimately show ?thesis by (simp add: queue_pre_def)
qed

lemma gate_full_map_items [simp]: "gate_full (map_items f db) = gate_full db"
  by (simp add: gate_full_def active_count_def)

lemma sweep_ok:
  assumes "queue_ok db"
  shows "\<exists>db'. sweep_expired now db = Inr db' \<and> queue_ok db'"
proof -
  let ?c = "\<lambda>i. is_expired now i \<and> job_running (it_job i) db"
  let ?f = "\<lambda>i. if ?c i then recover_item now i else i"
  have pre: "queue_pre {} db" "gate_full db" using assms by (simp_all add: queue_ok_pre)
  then have ids: "ids_ok db" by (simp add: queue_pre_def)
  have running: "jb_state j = JRunning" if "j \<in> set (q_jobs db)" "job_running (jb_id j) db" for j
    using that job_unique [OF ids] by (auto simp: job_running_def list_ex_iff)
  have "queue_pre (set (swept_jobs now db)) (map_items ?f db)"
  proof (rule map_items_pre [OF pre(1)])
    show "it_id (?f i) = it_id i \<and> it_job (?f i) = it_job i" for i by (simp add: recover_item_def)
    show "item_ok j (?f i)" if "j \<in> set (q_jobs db)" "i \<in> set (q_items db)" "it_job i = jb_id j" "item_ok j i" for j i
      using that running [OF that(1)] by (auto simp: item_ok_def recover_item_def unfinished_def)
    show "unfinished (?f i) \<or> (it_job i \<in> set (swept_jobs now db)
        \<and> (\<forall>j\<in>set (q_jobs db). jb_id j = it_job i \<longrightarrow> jb_state j \<noteq> JQueued))"
      if "i \<in> set (q_items db)" "unfinished i" for i
    proof (cases "?c i")
      case True
      then have "it_job i \<in> set (swept_jobs now db)" using that(1) by (auto simp: swept_jobs_def)
      moreover have "jb_state j \<noteq> JQueued" if "j \<in> set (q_jobs db)" "jb_id j = it_job i" for j
        using running [OF that(1)] that(2) True by auto
      ultimately show ?thesis by blast
    next
      case False
      then show ?thesis using that(2) by (simp only: if_False simp_thms)
    qed
  qed simp
  moreover have "gate_full (map_items ?f db)" using pre(2) by simp
  ultimately show ?thesis unfolding sweep_expired_def by (rule finish_all_ok) simp
qed

subsection \<open>Leasing\<close>

lemma item_unique:
  "ids_ok db \<Longrightarrow> i \<in> set (q_items db) \<Longrightarrow> k \<in> set (q_items db) \<Longrightarrow> it_id i = it_id k \<Longrightarrow> i = k"
  by (auto simp: ids_ok_def distinct_map inj_on_def)

definition candidate_ok :: "queue_db \<Rightarrow> candidate \<Rightarrow> bool" where
  "candidate_ok db c \<longleftrightarrow>
     (case c of (j, i) \<Rightarrow> j \<in> set (q_jobs db) \<and> jb_state j = JRunning
        \<and> i \<in> set (q_items db) \<and> it_job i = jb_id j \<and> it_state i = IPending)"

lemma lease_ok:
  assumes "queue_ok db" "\<And>c. c \<in> set cs \<Longrightarrow> candidate_ok db c"
  shows "queue_ok (snd (lease_candidates now worker cs db))"
proof -
  let ?fences = "map (\<lambda>(j, i). (it_id i, jb_fence j)) cs"
  let ?f = "\<lambda>i. case map_of ?fences (it_id i) of None \<Rightarrow> i | Some fence \<Rightarrow> lease_item now worker fence i"
  have pre: "queue_pre {} db" "gate_full db" using assms(1) by (simp_all add: queue_ok_pre)
  then have ids: "ids_ok db" by (simp add: queue_pre_def)
  have fence: "it_state i = IPending \<and> (\<exists>j. j \<in> set (q_jobs db) \<and> jb_state j = JRunning \<and> it_job i = jb_id j \<and> fence = jb_fence j)"
    if i: "i \<in> set (q_items db)" and m: "map_of ?fences (it_id i) = Some fence" for i fence
  proof -
    obtain j i' where c: "(j, i') \<in> set cs" "it_id i' = it_id i" "fence = jb_fence j"
      using map_of_SomeD [OF m] by auto
    then have ok: "candidate_ok db (j, i')" using assms(2) by blast
    then have "i' = i" using item_unique [OF ids] c(2) i by (auto simp: candidate_ok_def)
    then show ?thesis using ok c(3) by (auto simp: candidate_ok_def)
  qed
  have "queue_pre {} (map_items ?f db)"
  proof (rule map_items_pre [OF pre(1)])
    show "it_id (?f i) = it_id i \<and> it_job (?f i) = it_job i" for i
      by (simp add: lease_item_def split: option.split)
    show "item_ok j (?f i)" if j: "j \<in> set (q_jobs db)" and i: "i \<in> set (q_items db)" and same: "it_job i = jb_id j" and ok: "item_ok j i" for j i
    proof (cases "map_of ?fences (it_id i)")
      case None
      then show ?thesis using ok by simp
    next
      case (Some fence)
      then obtain k where k: "it_state i = IPending" "k \<in> set (q_jobs db)" "jb_state k = JRunning" "it_job i = jb_id k" "fence = jb_fence k"
        using fence [OF i] Some by blast
      then have "k = j" using job_unique [OF ids] j same by metis
      then show ?thesis using k ok Some by (auto simp: item_ok_def lease_item_def)
    qed
    show "unfinished (?f i) \<or> (it_job i \<in> {} \<and> (\<forall>j\<in>set (q_jobs db). jb_id j = it_job i \<longrightarrow> jb_state j \<noteq> JQueued))"
      if "i \<in> set (q_items db)" "unfinished i" for i
      using that(2) by (auto simp: lease_item_def unfinished_def split: option.split)
  qed simp
  then show ?thesis using pre(2) by (simp add: lease_candidates_def queue_ok_pre Let_def)
qed

lemma claimable_ok:
  "i \<in> set (claimable now db j source) \<Longrightarrow> i \<in> set (q_items db) \<and> it_job i = jb_id j \<and> it_state i = IPending
     \<and> it_source i = Some source"
  by (auto simp: claimable_def split: option.splits if_splits)

lemma running_jobs_ok: "j \<in> set (running_jobs db) \<longleftrightarrow> j \<in> set (q_jobs db) \<and> jb_state j = JRunning"
  by (auto simp: running_jobs_def)

lemma affinity_ok: "c \<in> set (candidates_affinity now source version db) \<Longrightarrow> candidate_ok db c"
  using claimable_ok by (fastforce simp: candidates_affinity_def candidate_ok_def running_jobs_ok)

lemma per_source_ok:
  "i \<in> set (per_source now sources n db j) \<Longrightarrow> i \<in> set (q_items db) \<and> it_job i = jb_id j \<and> it_state i = IPending"
  unfolding per_source_def using claimable_ok by (fastforce dest!: in_set_takeD)

lemma any_ok: "c \<in> set (candidates_any now sources n db) \<Longrightarrow> candidate_ok db c"
  unfolding candidates_any_def using per_source_ok
  by (fastforce dest!: in_set_takeD simp: candidate_ok_def running_jobs_ok)

lemma claim_many_locked_ok:
  assumes "queue_ok db"
  shows "\<exists>ws db'. claim_many_locked now worker sources limit affinity db = Inr (ws, db') \<and> queue_ok db'"
proof -
  obtain db1 where sweep: "sweep_expired now db = Inr db1" "queue_ok db1" using sweep_ok [OF assms] by blast
  let ?first = "case affinity of None \<Rightarrow> ([], db1)
     | Some (source, version) \<Rightarrow> lease_candidates now worker (take limit (candidates_affinity now source version db1)) db1"
  obtain rows db2 where first: "?first = (rows, db2)" by fastforce
  have ok2: "queue_ok db2"
    using first sweep(2) lease_ok [OF sweep(2), of _ now worker] affinity_ok
    by (auto dest!: in_set_takeD split: option.splits) (metis (no_types, lifting) in_set_takeD snd_conv)
  show ?thesis
  proof (cases "length rows < limit")
    case True
    obtain more db3 where more: "lease_candidates now worker (candidates_any now sources (limit - length rows) db2) db2 = (more, db3)"
      by fastforce
    have "queue_ok db3" using lease_ok [OF ok2] any_ok more by (metis snd_conv)
    then show ?thesis using sweep(1) first True more by (simp add: claim_many_locked_def)
  next
    case False
    then show ?thesis using sweep(1) first ok2 by (simp add: claim_many_locked_def)
  qed
qed

lemma claim_locked_ok:
  assumes "queue_ok db"
  shows "\<exists>w db'. claim_locked now worker sources affinity db = Inr (w, db') \<and> queue_ok db'"
proof -
  obtain db1 where sweep: "sweep_expired now db = Inr db1" "queue_ok db1" using sweep_ok [OF assms] by blast
  let ?first = "case affinity of None \<Rightarrow> []
     | Some (source, version) \<Rightarrow> take 1 (candidates_affinity now source version db1)"
  let ?cs = "if ?first \<noteq> [] then ?first else candidates_any now sources 1 db1"
  have "candidate_ok db1 c" if "c \<in> set ?cs" for c
    using that affinity_ok [of c _ _ _ db1] any_ok [of c _ _ _ db1]
    by (auto split: option.splits if_splits dest!: in_set_takeD)
  then have "queue_ok (snd (lease_candidates now worker ?cs db1))" by (rule lease_ok [OF sweep(2)])
  then show ?thesis using sweep(1)
    by (cases "lease_candidates now worker ?cs db1") (simp add: claim_locked_def Let_def)
qed

subsection \<open>Publishing\<close>

lemma upsert_entry_rows: "upsert_entry now p db = Inr (e, db') \<Longrightarrow> same_rows db db'"
  by (auto simp: upsert_entry_def same_rows_def split: option.splits if_splits)

lemma insert_attempts_rows: "insert_attempts p db = Inr db' \<Longrightarrow> same_rows db db'"
  by (auto simp: insert_attempts_def same_rows_def split: if_splits)

lemma same_rows_trans: "same_rows a b \<Longrightarrow> same_rows b c \<Longrightarrow> same_rows a c"
  by (auto simp: same_rows_def)

lemma same_rows_ok: "same_rows db db' \<Longrightarrow> queue_ok db \<Longrightarrow> queue_ok db'"
  using same_rows_pre same_rows_rest(4) by (auto simp: queue_ok_pre)

lemma same_rows_fence: "same_rows db db' \<Longrightarrow> fence_holds p db' = fence_holds p db"
  by (auto simp: same_rows_def fence_holds_def)

text \<open>What a publication writes before its fenced update.\<close>

definition publish_records :: "seconds \<Rightarrow> publication \<Rightarrow> queue_db \<Rightarrow> exn + uuid \<times> queue_db" where
  "publish_records now p db =
     bind_res (upsert_entry now p db) (\<lambda>(entry_id, db).
     bind_res (if pb_attempts p \<noteq> [] then insert_attempts p db else Inr db) (\<lambda>db. Inr (entry_id, db)))"

lemma publish_records_rows: "publish_records now p db = Inr (e, db') \<Longrightarrow> same_rows db db'"
  using upsert_entry_rows insert_attempts_rows same_rows_trans
  by (fastforce simp: publish_records_def bind_res_Inr_iff split: if_splits prod.splits)

lemma publish_unfold:
  "publish now p db = bind_res (publish_records now p db) (\<lambda>(entry_id, db).
     case publish_fenced now p entry_id db of
       (None, db) \<Rightarrow> Inr (False, db)
     | (Some jid, db) \<Rightarrow> bind_res (finish_if_drained now jid db) (\<lambda>db. Inr (True, db)))"
  by (cases "upsert_entry now p db") (auto simp: publish_def publish_records_def bind_res_def split: sum.splits)

lemma publish_fenced_pre:
  assumes "queue_ok db" "i \<in> set (q_items db)" "fence_holds p db i"
  shows "queue_pre {it_job i} (map_items (\<lambda>i. if fence_holds p db i then publish_item now p e i else i) db)"
    and "gate_full (map_items (\<lambda>i. if fence_holds p db i then publish_item now p e i else i) db)"
proof -
  have pre: "queue_pre {} db" "gate_full db" using assms(1) by (simp_all add: queue_ok_pre)
  then have ids: "ids_ok db" by (simp add: queue_pre_def)
  have only: "k = i" if "k \<in> set (q_items db)" "fence_holds p db k" for k
    using item_unique [OF ids that(1) assms(2)] that(2) assms(3) by (simp add: fence_holds_def)
  have running: "jb_state j = JRunning" if "j \<in> set (q_jobs db)" "jb_id j = it_job i" for j
  proof -
    obtain k where "k \<in> set (q_jobs db)" "jb_id k = it_job i" "jb_state k = JRunning"
      using assms(3) by (auto simp: fence_holds_def list_ex_iff)
    then show ?thesis using job_unique [OF ids that(1), of k] that(2) by simp
  qed
  let ?f = "\<lambda>i. if fence_holds p db i then publish_item now p e i else i"
  show "queue_pre {it_job i} (map_items ?f db)"
  proof (rule map_items_pre [OF pre(1)])
    show "it_id (?f k) = it_id k \<and> it_job (?f k) = it_job k" for k by (simp add: publish_item_def)
    show "item_ok j (?f k)" if "item_ok j k" for j k
      using that by (simp add: item_ok_def publish_item_def unfinished_def)
    show "unfinished (?f k) \<or> (it_job k \<in> {it_job i} \<and> (\<forall>j\<in>set (q_jobs db). jb_id j = it_job k \<longrightarrow> jb_state j \<noteq> JQueued))"
      if "k \<in> set (q_items db)" "unfinished k" for k
      using that only [OF that(1)] running by auto
  qed simp
  show "gate_full (map_items ?f db)" using pre(2) by simp
qed

lemma publish_fenced_none:
  assumes "find (fence_holds p db) (q_items db) = None"
  shows "map_items (\<lambda>i. if fence_holds p db i then publish_item now p e i else i) db = db"
proof -
  have "map (\<lambda>i. if fence_holds p db i then publish_item now p e i else i) (q_items db) = q_items db"
    using assms by (intro map_idI) (auto simp: find_None_iff)
  then show ?thesis by (simp add: map_items_def)
qed

lemma publish_outcome:
  assumes "queue_ok db" "publish_records now p db = Inr (e, db1)"
  shows "if (\<exists>i\<in>set (q_items db). fence_holds p db i)
    then \<exists>i db'. i \<in> set (q_items db) \<and> fence_holds p db i
      \<and> publish now p db = Inr (True, db') \<and> queue_ok db'
      \<and> finish_if_drained now (it_job i)
          (map_items (\<lambda>i. if fence_holds p db i then publish_item now p e i else i) db1) = Inr db'
    else publish now p db = Inr (False, db1) \<and> queue_ok db1"
proof -
  note rows = publish_records_rows [OF assms(2)]
  have ok1: "queue_ok db1" by (rule same_rows_ok [OF rows assms(1)])
  have fence: "fence_holds p db1 = fence_holds p db" by (rule same_rows_fence [OF rows])
  have items: "q_items db1 = q_items db" using rows by (simp add: same_rows_def)
  show ?thesis
  proof (cases "find (fence_holds p db1) (q_items db1)")
    case None
    then have "publish_fenced now p e db1 = (None, db1)"
      using publish_fenced_none [of p db1] by (simp add: publish_fenced_def)
    then have "publish now p db = Inr (False, db1)" using assms(2) by (simp add: publish_unfold)
    then show ?thesis using None ok1 by (auto simp: find_None_iff fence items)
  next
    case (Some i)
    then have i: "i \<in> set (q_items db1)" "fence_holds p db1 i" by (auto simp: find_Some_iff)
    obtain db' where fin: "finish_if_drained now (it_job i)
          (map_items (\<lambda>i. if fence_holds p db1 i then publish_item now p e i else i) db1) = Inr db'" "queue_ok db'"
      using finish_ok [OF publish_fenced_pre [OF ok1 i], of now "it_job i" now e] by (auto simp: queue_ok_pre)
    then have "publish now p db = Inr (True, db')"
      using assms(2) Some by (simp add: publish_unfold publish_fenced_def)
    then show ?thesis using i fin by (auto simp: fence items)
  qed
qed

lemma publish_ok: "queue_ok db \<Longrightarrow> publish now p db = Inr (b, db') \<Longrightarrow> queue_ok db'"
proof -
  assume a: "queue_ok db" "publish now p db = Inr (b, db')"
  then obtain e db1 where "publish_records now p db = Inr (e, db1)"
    by (auto simp: publish_unfold bind_res_Inr_iff)
  from publish_outcome [OF a(1) this] a(2) show "queue_ok db'" by (auto split: if_splits)
qed

subsection \<open>Cancelling\<close>

lemma close_job_pre:
  assumes "queue_pre {} db"
    "\<And>j. jb_id (f j) = jb_id j \<and> jb_seq (f j) = jb_seq j"
    "\<And>j. jb_id j \<noteq> jid \<Longrightarrow> f j = j"
    "\<And>j. jb_id j = jid \<Longrightarrow> jb_state (f j) = JCancelled"
    "\<And>i. it_id (c i) = it_id i \<and> it_job (c i) = it_job i"
    "\<And>i. it_job i \<noteq> jid \<Longrightarrow> c i = i"
    "\<And>i. it_job i = jid \<Longrightarrow> \<not> unfinished (c i)"
  shows "queue_pre {} (map_jobs f (map_items c db))"
  unfolding queue_pre_def
proof (intro conjI)
  have ids: "ids_ok db" and links: "links_ok db" and works: "works_except {} db" and bound: "gate_bound db"
    using assms(1) by (simp_all add: queue_pre_def)
  show "ids_ok (map_jobs f (map_items c db))"
    using ids_map_items [OF ids, of c] assms(2,5) by (intro ids_map_jobs) auto
  show "links_ok (map_jobs f (map_items c db))"
    unfolding links_ok_def
  proof (intro ballI conjI impI)
    fix j
    assume "j \<in> set (q_jobs (map_jobs f (map_items c db)))"
    then obtain k where k: "k \<in> set (q_jobs db)" "j = f k" by auto
    show "jb_state j \<noteq> JCancelling"
      using k links assms(3,4) by (cases "jb_id k = jid") (auto simp: links_ok_def)
    fix i
    assume "i \<in> set (q_items (map_jobs f (map_items c db)))" and same: "it_job i = jb_id j"
    then obtain i' where i': "i' \<in> set (q_items db)" "i = c i'" by auto
    show "item_ok j i"
    proof (cases "jb_id k = jid")
      case True
      then have "\<not> unfinished i" using assms(7) [of i'] assms(2) [of k] assms(5) [of i'] i' k same by simp
      then show ?thesis by (auto simp: item_ok_def unfinished_def)
    next
      case False
      then have "j = k" "i = i'" using assms(2) [of k] assms(3) [of k] assms(5,6) [of i'] i' k same by simp_all
      then show ?thesis using links k i' same by (simp add: links_ok_def)
    qed
  qed
  have "is_active (f j) \<Longrightarrow> is_active j" for j
    using assms(3,4) [of j] by (cases "jb_id j = jid") (auto simp: is_active_def)
  then have "active_count (map_jobs f (map_items c db)) \<le> active_count (map_items c db)"
    by (intro active_count_le) blast
  then show "gate_bound (map_jobs f (map_items c db))"
    using bound by (simp add: gate_bound_def active_count_def)
  have other: "jb_id k \<noteq> jid \<and> f k = k" if "jb_state (f k) \<in> {JQueued, JRunning}" for k
    using that assms(3,4) by (cases "jb_id k = jid") auto
  have kept: "has_unfinished x (map_items c db)" if "has_unfinished x db" "x \<noteq> jid" for x
    using that assms(5,6) by (fastforce simp: has_unfinished_iff)
  show "works_except {} (map_jobs f (map_items c db))"
    unfolding works_except_def
  proof (intro conjI ballI impI)
    fix j
    assume "j \<in> set (q_jobs (map_jobs f (map_items c db)))" and st: "jb_state j \<in> {JQueued, JRunning}"
    then obtain k where k: "k \<in> set (q_jobs db)" "j = f k" by auto
    then show "has_unfinished (jb_id j) (map_jobs f (map_items c db))"
      using other [of k] kept [of "jb_id k"] works st by (auto simp: works_except_def)
  next
    fix j
    assume "j \<in> set (q_jobs (map_jobs f (map_items c db)))" and st: "jb_state j = JQueued"
    then obtain k where k: "k \<in> set (q_jobs db)" "j = f k" by auto
    then show "has_unfinished (jb_id j) (map_jobs f (map_items c db))"
      using other [of k] kept [of "jb_id k"] works st by (auto simp: works_except_def)
  qed
qed

text \<open>The rows a cancellation leaves before slots are promoted.\<close>

definition cancelled_job :: "seconds \<Rightarrow> uuid \<Rightarrow> job \<Rightarrow> job" where
  "cancelled_job now jid j =
     (if jb_id j = jid
      then j\<lparr>jb_state := JCancelled, jb_finished_at := Some now,
             jb_fence := (if jb_state j = JRunning then jb_fence j + 1 else jb_fence j)\<rparr>
      else j)"

definition cancelled_item :: "seconds \<Rightarrow> uuid \<Rightarrow> item \<Rightarrow> item" where
  "cancelled_item now jid i =
     (if it_job i = jid \<and> unfinished i then i\<lparr>it_state := ICancelled, it_finished_at := Some now\<rparr> else i)"

lemma cancelled_job_fields [simp]:
  "jb_id (cancelled_job now jid j) = jb_id j" "jb_seq (cancelled_job now jid j) = jb_seq j"
  "jb_team (cancelled_job now jid j) = jb_team j"
  by (simp_all add: cancelled_job_def)

lemma cancelled_item_fields [simp]:
  "it_id (cancelled_item now jid i) = it_id i" "it_job (cancelled_item now jid i) = it_job i"
  by (simp_all add: cancelled_item_def)

lemma cancel_rows:
  assumes "queue_ok db" "find (\<lambda>j. jb_id j = jid \<and> jb_team j = team) (q_jobs db) = Some j"
    "jb_state j \<in> {JQueued, JRunning, JCancelling}"
  shows "\<exists>db1. same_rows (map_jobs (cancelled_job now jid) (map_items (cancelled_item now jid) db)) db1
    \<and> cancel now jid team db = Inr (find_job jid (map_jobs (cancelled_job now jid) (map_items (cancelled_item now jid) db)),
        promote_locked now (terminal_intents now jid JCancelled db1))"
proof -
  have ids: "ids_ok db" and links: "links_ok db" and lock: "lock_queue_gate db = Inr MAX_ACTIVE_JOBS"
    using assms(1) by (simp_all add: queue_ok_def gate_bound_def lock_queue_gate_def)
  have j: "j \<in> set (q_jobs db)" "jb_id j = jid" using assms(2) by (auto simp: find_Some_iff)
  then have st: "jb_state j = JQueued \<or> jb_state j = JRunning" using assms(3) links by (auto simp: links_ok_def)
  have only: "k = j" if "k \<in> set (q_jobs db)" "jb_id k = jid" for k
    using job_unique [OF ids that(1) j(1)] j(2) that(2) by simp
  let ?h1 = "\<lambda>j. if jb_id j = jid then j\<lparr>jb_state := JCancelling, jb_fence := jb_fence j + 1\<rparr> else j"
  let ?h2 = "\<lambda>j. if jb_id j = jid then j\<lparr>jb_state := JCancelled, jb_finished_at := Some now\<rparr> else j"
  let ?c = "\<lambda>i. if it_job i = jid \<and> unfinished i then i\<lparr>it_state := ICancelled, it_finished_at := Some now\<rparr> else i"
  let ?ev = "if jb_state j = JRunning then snd (add_event now jid ''job.cancellation_requested'' None (map_jobs ?h1 db)) else db"
  let ?db1 = "map_jobs ?h2 (map_items ?c ?ev)"
  have c: "?c = cancelled_item now jid" by (simp add: cancelled_item_def [abs_def])
  have jobs: "q_jobs ?db1 = map (cancelled_job now jid) (q_jobs db)"
  proof (cases "jb_state j = JRunning")
    case True
    then have "jb_id k = jid \<Longrightarrow> k \<in> set (q_jobs db) \<Longrightarrow> jb_state k = JRunning" for k using only by blast
    then show ?thesis using True by (auto simp: cancelled_job_def)
  next
    case False
    then have "jb_id k = jid \<Longrightarrow> k \<in> set (q_jobs db) \<Longrightarrow> jb_state k \<noteq> JRunning" for k using only by blast
    then show ?thesis using False by (auto simp: cancelled_job_def)
  qed
  have rows: "same_rows (map_jobs (cancelled_job now jid) (map_items (cancelled_item now jid) db)) ?db1"
    using jobs c by (simp add: same_rows_def)
  have found: "find_job jid ?db1 = find_job jid (map_jobs (cancelled_job now jid) (map_items (cancelled_item now jid) db))"
    using jobs by (simp add: find_job_def)
  have "cancel now jid team db = Inr (find_job jid ?db1, promote_locked now (terminal_intents now jid JCancelled ?db1))"
    using assms(2,3) lock unfolding cancel_def by (simp only: bind_res_simps option.case Let_def not_not if_not_P if_False simp_thms)
  then show ?thesis using rows found by auto
qed

lemma cancel_ok:
  assumes "queue_ok db"
  shows "\<exists>r db'. cancel now jid team db = Inr (r, db') \<and> queue_ok db'"
proof (cases "find (\<lambda>j. jb_id j = jid \<and> jb_team j = team) (q_jobs db)")
  case None
  then show ?thesis using assms by (simp add: cancel_def lock_queue_gate_def queue_ok_def gate_bound_def)
next
  case (Some j)
  show ?thesis
  proof (cases "jb_state j \<in> {JQueued, JRunning, JCancelling}")
    case True
    obtain db1 where db1: "same_rows (map_jobs (cancelled_job now jid) (map_items (cancelled_item now jid) db)) db1"
      "cancel now jid team db = Inr (find_job jid (map_jobs (cancelled_job now jid) (map_items (cancelled_item now jid) db)),
        promote_locked now (terminal_intents now jid JCancelled db1))"
      using cancel_rows [OF assms Some True] by blast
    have "queue_pre {} (map_jobs (cancelled_job now jid) (map_items (cancelled_item now jid) db))"
      using assms by (intro close_job_pre) (auto simp: queue_ok_pre cancelled_job_def cancelled_item_def unfinished_def)
    then have "queue_pre {} (terminal_intents now jid JCancelled db1)"
      by (intro same_rows_pre [OF same_rows_intents] same_rows_pre [OF db1(1)])
    then show ?thesis using db1(2) promote_pre [of "{}"] by (simp add: queue_ok_pre)
  next
    case False
    then show ?thesis using assms Some by (simp add: cancel_def lock_queue_gate_def queue_ok_def gate_bound_def)
  qed
qed

subsection \<open>Admission\<close>

text \<open>\<open>mk\<close> makes an item of job \<open>jid\<close> under the identifier it is given.\<close>

definition makes_items :: "uuid \<Rightarrow> (uuid \<Rightarrow> 'a \<Rightarrow> item) \<Rightarrow> bool" where
  "makes_items jid mk \<longleftrightarrow> (\<forall>n x. it_id (mk n x) = n \<and> it_job (mk n x) = jid)"

lemma makes_items [simp]:
  "makes_items jid (pending_item jid team)"
  "makes_items jid (reused_item now reusable jid team)"
  "makes_items jid (excluded_item jid team)"
  by (simp_all add: makes_items_def pending_item_def reused_item_def excluded_item_def blank_item_def)

lemma insert_items_fields [simp]:
  "q_jobs (insert_items mk xs db) = q_jobs db" "q_max_active (insert_items mk xs db) = q_max_active db"
  "q_next_seq (insert_items mk xs db) = q_next_seq db"
  "q_next_id (insert_items mk xs db) = q_next_id db + length xs"
  "q_items (insert_items mk xs db) = q_items db @ map (\<lambda>(n, x). mk n x) (enumerate (q_next_id db) xs)"
  by (simp_all add: insert_items_def)

lemma insert_items_ids:
  assumes "ids_ok db" "makes_items jid mk" "jid \<in> jb_id ` set (q_jobs db)"
  shows "ids_ok (insert_items mk xs db)"
proof -
  have new: "map it_id (map (\<lambda>(n, x). mk n x) (enumerate n xs)) = [n..<n + length xs]" for n
  proof -
    have "map it_id (map (\<lambda>(n, x). mk n x) (enumerate n xs)) = map fst (enumerate n xs)"
      unfolding map_map using assms(2) by (intro map_cong refl) (auto simp: makes_items_def)
    then show ?thesis by simp
  qed
  have "distinct (map it_id (q_items (insert_items mk xs db)))"
    using assms(1) unfolding insert_items_fields map_append new by (auto simp: ids_ok_def)
  moreover have "it_id i < q_next_id db + length xs" if "i \<in> set (q_items (insert_items mk xs db))" for i
  proof -
    have "it_id i \<in> set (map it_id (q_items (insert_items mk xs db)))" unfolding set_map using that by (rule imageI)
    then show ?thesis using assms(1) unfolding insert_items_fields map_append new by (fastforce simp: ids_ok_def)
  qed
  moreover have "\<exists>j\<in>set (q_jobs db). jb_id j = it_job i" if "i \<in> set (q_items (insert_items mk xs db))" for i
    using that assms by (fastforce simp: ids_ok_def makes_items_def)
  ultimately show ?thesis using assms(1) by (auto simp: ids_ok_def trans_less_add1)
qed

lemma enumerate_mem: "(n, x) \<in> set (enumerate k xs) \<Longrightarrow> x \<in> set xs"
  by (auto simp: enumerate_eq_zip dest: set_zip_rightD)

lemma insert_items_links:
  assumes "ids_ok db" "links_ok db" "makes_items jid mk"
    "\<And>j n x. j \<in> set (q_jobs db) \<Longrightarrow> jb_id j = jid \<Longrightarrow> x \<in> set xs \<Longrightarrow> item_ok j (mk n x)"
  shows "links_ok (insert_items mk xs db)"
  unfolding links_ok_def
proof (intro ballI conjI impI)
  fix j
  assume j: "j \<in> set (q_jobs (insert_items mk xs db))"
  then show "jb_state j \<noteq> JCancelling" using assms(2) by (simp add: links_ok_def)
  fix i
  assume "i \<in> set (q_items (insert_items mk xs db))" "it_job i = jb_id j"
  then consider "i \<in> set (q_items db)" | n x where "x \<in> set xs" "i = mk n x"
    by (auto dest: enumerate_mem)
  then show "item_ok j i"
  proof cases
    case 1
    then show ?thesis using j assms(2) \<open>it_job i = jb_id j\<close> by (simp add: links_ok_def)
  next
    case 2
    then show ?thesis using assms(3) assms(4) [of j x n] j \<open>it_job i = jb_id j\<close> by (simp add: makes_items_def)
  qed
qed

lemma insert_items_unfinished: "has_unfinished x db \<Longrightarrow> has_unfinished x (insert_items mk xs db)"
  by (auto simp: has_unfinished_iff)

text \<open>The job row and the counters of an admission, then its items.\<close>

definition add_job :: "job \<Rightarrow> queue_db \<Rightarrow> queue_db" where
  "add_job j db =
     db\<lparr>q_jobs := q_jobs db @ [j], q_next_id := q_next_id db + 1, q_next_seq := q_next_seq db + 1\<rparr>"

lemma add_job_fields [simp]:
  "q_jobs (add_job j db) = q_jobs db @ [j]" "q_items (add_job j db) = q_items db"
  "q_max_active (add_job j db) = q_max_active db" "q_next_id (add_job j db) = q_next_id db + 1"
  "q_next_seq (add_job j db) = q_next_seq db + 1"
  by (simp_all add: add_job_def)

lemma add_job_ids:
  "ids_ok db \<Longrightarrow> jb_id j = q_next_id db \<Longrightarrow> jb_seq j = q_next_seq db \<Longrightarrow> ids_ok (add_job j db)"
  by (auto simp: ids_ok_def less_Suc_eq image_iff)

lemma fresh_job_items: "ids_ok db \<Longrightarrow> i \<in> set (q_items db) \<Longrightarrow> it_job i \<noteq> q_next_id db"
  by (force simp: ids_ok_def)

lemma add_job_links:
  "ids_ok db \<Longrightarrow> links_ok db \<Longrightarrow> jb_id j = q_next_id db \<Longrightarrow> jb_state j \<noteq> JCancelling \<Longrightarrow> links_ok (add_job j db)"
  using fresh_job_items by (auto simp: links_ok_def)

definition plan_to_fetch :: "submission_plan \<Rightarrow> (pystr \<times> pystr \<Rightarrow> uuid option) \<Rightarrow> planned_item list" where
  "plan_to_fetch plan reusable = filter (\<lambda>p. reusable (pi_document p, pi_source p) = None) (sp_items plan)"

definition admitted_job :: "seconds \<Rightarrow> submit_job \<Rightarrow> submission_plan \<Rightarrow> (pystr \<times> pystr \<Rightarrow> uuid option) \<Rightarrow> queue_db \<Rightarrow> job" where
  "admitted_job now cmd plan reusable db =
     new_job now cmd (admission_state (plan_to_fetch plan reusable) (active_count db) MAX_ACTIVE_JOBS)
       (if sp_items plan = [] then Some ''all_records_excluded'' else None) db"

definition admitted_items :: "seconds \<Rightarrow> submit_job \<Rightarrow> submission_plan \<Rightarrow> (pystr \<times> pystr \<Rightarrow> uuid option) \<Rightarrow> queue_db \<Rightarrow> queue_db" where
  "admitted_items now cmd plan reusable db =
     (let j = admitted_job now cmd plan reusable db
      in insert_items (excluded_item (jb_id j) (sj_team cmd)) (sp_exclusions plan)
          (insert_items (reused_item now reusable (jb_id j) (sj_team cmd))
              (filter (\<lambda>p. reusable (pi_document p, pi_source p) \<noteq> None) (sp_items plan))
            (insert_items (pending_item (jb_id j) (sj_team cmd)) (plan_to_fetch plan reusable) (add_job j db))))"

lemma admit_rows:
  assumes "q_max_active db = MAX_ACTIVE_JOBS"
  shows "\<exists>db'. admit_submission now cmd plan reusable db = Inr (admitted_job now cmd plan reusable db, db')
    \<and> same_rows (admitted_items now cmd plan reusable db) db'"
proof -
  let ?j = "admitted_job now cmd plan reusable db"
  let ?db = "admitted_items now cmd plan reusable db"
  let ?db' = "if jb_state ?j = JCompleted then terminal_intents now (jb_id ?j) JCompleted ?db
    else snd (add_event now (jb_id ?j) (''job.'' @ job_state_value (jb_state ?j)) (Some (sj_actor cmd)) ?db)"
  have st: "jb_state ?j = admission_state (plan_to_fetch plan reusable) (active_count db) MAX_ACTIVE_JOBS"
    by (simp add: admitted_job_def new_job_def)
  have fetch: "filter (\<lambda>p. \<not> reusable (pi_document p, pi_source p) \<noteq> None) (sp_items plan) = plan_to_fetch plan reusable"
    by (simp add: plan_to_fetch_def)
  have "lock_queue_gate db = Inr MAX_ACTIVE_JOBS" using assms by (simp add: lock_queue_gate_def)
  then have "admit_submission now cmd plan reusable db = Inr (?j, ?db')"
    unfolding admit_submission_def Let_def fetch st admitted_items_def add_job_def
    by (simp only: bind_res_simps admitted_job_def [symmetric])
  moreover have "same_rows ?db ?db'" using same_rows_intents same_rows_event by simp
  ultimately show ?thesis by blast
qed

lemma admission_states: "admission_state xs a m \<in> {JCompleted, JRunning, JQueued}"
  by (simp add: admission_state_def)

lemma admitted_items_ok:
  assumes "queue_ok db"
  shows "queue_ok (admitted_items now cmd plan reusable db)" (is "queue_ok ?db")
proof -
  let ?j = "admitted_job now cmd plan reusable db"
  have ids: "ids_ok db" and links: "links_ok db" and works: "works_except {} db" and bound: "gate_bound db" and full: "gate_full db"
    using assms by (simp_all add: queue_ok_def)
  have j: "jb_id ?j = q_next_id db" "jb_seq ?j = q_next_seq db" "jb_fence ?j = 0"
    "jb_state ?j = admission_state (plan_to_fetch plan reusable) (active_count db) MAX_ACTIVE_JOBS"
    by (simp_all add: admitted_job_def new_job_def)
  have st: "jb_state ?j \<in> {JCompleted, JRunning, JQueued}" unfolding j(4) by (rule admission_states)
  let ?a = "add_job ?j db"
  let ?b = "insert_items (pending_item (jb_id ?j) (sj_team cmd)) (plan_to_fetch plan reusable) ?a"
  let ?c = "insert_items (reused_item now reusable (jb_id ?j) (sj_team cmd))
              (filter (\<lambda>p. reusable (pi_document p, pi_source p) \<noteq> None) (sp_items plan)) ?b"
  have db: "?db = insert_items (excluded_item (jb_id ?j) (sj_team cmd)) (sp_exclusions plan) ?c"
    unfolding admitted_items_def Let_def by (rule refl)
  have ids_a: "ids_ok ?a" using add_job_ids [OF ids] j by blast
  have ids_b: "ids_ok ?b" by (rule insert_items_ids [OF ids_a, where jid = "jb_id ?j"]) simp_all
  have ids_c: "ids_ok ?c" by (rule insert_items_ids [OF ids_b, where jid = "jb_id ?j"]) simp_all
  have ids_d: "ids_ok ?db" unfolding db by (rule insert_items_ids [OF ids_c, where jid = "jb_id ?j"]) simp_all
  have only: "k = ?j" if "k \<in> set (q_jobs ?a)" "jb_id k = jb_id ?j" for k
    by (rule job_unique [OF ids_a that(1)]) (use that in auto)
  have links_a: "links_ok ?a" using add_job_links [OF ids links] j st by auto
  have "links_ok ?b"
  proof (rule insert_items_links [OF ids_a links_a, where jid = "jb_id ?j"])
    fix k n x
    assume k: "k \<in> set (q_jobs ?a)" "jb_id k = jb_id ?j" and x: "x \<in> set (plan_to_fetch plan reusable)"
    then have "jb_state ?j \<in> {JQueued, JRunning}" using j(4) by (auto simp: admission_state_def)
    then show "item_ok k (pending_item (jb_id ?j) (sj_team cmd) n x)"
      using only [OF k] by (simp add: item_ok_def pending_item_def blank_item_def MAX_LEASE_ATTEMPTS_def)
  qed simp
  then have "links_ok ?c"
    by (rule insert_items_links [OF ids_b, where jid = "jb_id ?j"])
      (simp_all add: item_ok_def reused_item_def blank_item_def unfinished_def)
  then have links_d: "links_ok ?db"
    unfolding db by (rule insert_items_links [OF ids_c, where jid = "jb_id ?j"])
      (simp_all add: item_ok_def excluded_item_def blank_item_def unfinished_def)
  have jobs: "q_jobs ?db = q_jobs db @ [?j]" by (simp add: db)
  have mine: "has_unfinished (jb_id ?j) ?db" if opened: "jb_state ?j \<in> {JQueued, JRunning}"
  proof -
    obtain p ps where "plan_to_fetch plan reusable = p # ps"
      using opened j(4) by (cases "plan_to_fetch plan reusable") (auto simp: admission_state_def)
    then have "pending_item (jb_id ?j) (sj_team cmd) (q_next_id ?a) p \<in> set (q_items ?b)"
      unfolding insert_items_fields by (simp del: add_job_fields)
    then have "has_unfinished (jb_id ?j) ?b"
      unfolding has_unfinished_iff by (rule bexI [rotated]) (simp add: pending_item_def blank_item_def unfinished_def)
    then show ?thesis unfolding db by (rule insert_items_unfinished [OF insert_items_unfinished])
  qed
  have old: "has_unfinished x ?db" if "has_unfinished x db" for x
  proof -
    have "has_unfinished x ?a" using that by (simp add: has_unfinished_iff)
    then show ?thesis unfolding db by (intro insert_items_unfinished)
  qed
  have works_d: "works_except {} ?db"
    using works mine old unfolding works_except_def jobs by auto
  have act: "active_count ?db = active_count db + (if jb_state ?j = JRunning then 1 else 0)"
    using st by (auto simp: active_count_def jobs is_active_def)
  have running: "active_count db < MAX_ACTIVE_JOBS" if "jb_state ?j = JRunning"
    using that j(4) by (auto simp: admission_state_def split: if_splits)
  have queued: "MAX_ACTIVE_JOBS \<le> active_count db" if "jb_state ?j = JQueued"
    using that j(4) by (auto simp: admission_state_def split: if_splits)
  have bound_d: "gate_bound ?db" using bound act running by (auto simp: gate_bound_def db)
  have "gate_full ?db"
    unfolding gate_full_def
  proof
    assume "\<exists>k\<in>set (q_jobs ?db). jb_state k = JQueued"
    then consider "jb_state ?j = JQueued" | "\<exists>k\<in>set (q_jobs db). jb_state k = JQueued" by (auto simp: jobs)
    then show "active_count ?db = MAX_ACTIVE_JOBS"
    proof cases
      case 1
      then show ?thesis using queued act bound by (simp add: gate_bound_def)
    next
      case 2
      then have "active_count db = MAX_ACTIVE_JOBS" using full by (simp add: gate_full_def)
      then show ?thesis using running act by auto
    qed
  qed
  then show ?thesis using ids_d links_d works_d bound_d by (simp add: queue_ok_def)
qed

lemma admit_ok:
  assumes "queue_ok db"
  shows "\<exists>db'. admit_submission now cmd plan reusable db = Inr (admitted_job now cmd plan reusable db, db') \<and> queue_ok db'"
proof -
  have "q_max_active db = MAX_ACTIVE_JOBS" using assms by (simp add: queue_ok_def gate_bound_def)
  then show ?thesis using admit_rows admitted_items_ok [OF assms] same_rows_ok by blast
qed

end
