(* ===== verification/QueueRun.thy ===== *)
theory QueueRun
  imports QueueInv
begin

text \<open>
  Runs of the job queue: a step is one transaction of \<open>JobQueue\<close>, or a change of the credentials and
  breakers the claims read. The theorems hold for every database a run reaches from an empty one.
\<close>

section \<open>Steps\<close>

datatype queue_op =
    Admit seconds submit_job submission_plan "pystr \<times> pystr \<Rightarrow> uuid option"
  | Cancel seconds uuid uuid
  | Claim seconds pystr "pystr list" "(pystr \<times> uuid) option"
  | ClaimMany seconds pystr "pystr list" int "(pystr \<times> uuid) option"
  | Publish seconds publication
  | Outside "(uuid \<times> pystr) list" "((pystr \<times> pystr) \<times> seconds option) list"

text \<open>A transaction that raises is rolled back.\<close>

definition commit :: "queue_db \<Rightarrow> exn + 'a \<times> queue_db \<Rightarrow> queue_db" where
  "commit db r = (case r of Inl _ \<Rightarrow> db | Inr (_, db') \<Rightarrow> db')"

definition commit_call :: "queue_db \<Rightarrow> ('a \<times> queue_db) call_result \<Rightarrow> queue_db" where
  "commit_call db r = (case r of Done (_, db') \<Rightarrow> db' | _ \<Rightarrow> db)"

fun queue_step :: "queue_op \<Rightarrow> queue_db \<Rightarrow> queue_db" where
  "queue_step (Admit now cmd plan reusable) db = commit db (admit_submission now cmd plan reusable db)"
| "queue_step (Cancel now jid team) db = commit db (cancel now jid team db)"
| "queue_step (Claim now worker sources affinity) db = commit_call db (claim now worker sources affinity db)"
| "queue_step (ClaimMany now worker sources limit affinity) db =
     commit_call db (claim_many now worker sources limit affinity db)"
| "queue_step (Publish now p) db = commit db (publish now p db)"
| "queue_step (Outside versions breakers) db = db\<lparr>q_versions := versions, q_breakers := breakers\<rparr>"

definition empty_queue :: queue_db where
  "empty_queue =
     \<lparr>q_max_active = MAX_ACTIVE_JOBS, q_jobs = [], q_items = [], q_entries = [], q_attempts = [],
      q_events = [], q_outbox = [], q_versions = [], q_breakers = [], q_next_id = 1, q_next_seq = 1,
      q_next_event = 1\<rparr>"

inductive reachable :: "queue_db \<Rightarrow> bool" where
  start: "reachable empty_queue"
| step: "reachable db \<Longrightarrow> reachable (queue_step op db)"

definition run_queue :: "queue_op list \<Rightarrow> queue_db \<Rightarrow> queue_db" where
  "run_queue ops db = fold queue_step ops db"

lemma run_queue_simps [simp]:
  "run_queue [] db = db" "run_queue (op # ops) db = run_queue ops (queue_step op db)"
  by (simp_all add: run_queue_def)

lemma reachable_run: "reachable db \<Longrightarrow> reachable (run_queue ops db)"
  by (induction ops arbitrary: db) (auto intro: reachable.step)

lemma reachable_iff_run: "reachable db \<longleftrightarrow> (\<exists>ops. db = run_queue ops empty_queue)"
proof
  assume "reachable db"
  then show "\<exists>ops. db = run_queue ops empty_queue"
  proof induction
    case start
    have "empty_queue = run_queue [] empty_queue" by simp
    then show ?case by blast
  next
    case (step db op)
    then obtain ops where "db = run_queue ops empty_queue" by blast
    then have "queue_step op db = run_queue (ops @ [op]) empty_queue" by (simp add: run_queue_def)
    then show ?case by blast
  qed
qed (auto intro: reachable_run reachable.start)

text \<open>What the calls do, given the invariant.\<close>

lemma commit_simps [simp]: "commit db (Inl e) = db" "commit db (Inr (x, db')) = db'"
  by (simp_all add: commit_def)

lemma commit_call_simps [simp]:
  "commit_call db (Refused e) = db" "commit_call db (Failed x) = db" "commit_call db (Done (y, db')) = db'"
  by (simp_all add: commit_call_def)

lemma claim_many_cases:
  assumes "queue_ok db"
  obtains (nothing) "queue_step (ClaimMany now worker sources limit affinity) db = db"
  | (claimed) ws db' where "claim_many_locked now worker sources (nat limit) affinity db = Inr (ws, db')" "queue_ok db'"
      "queue_step (ClaimMany now worker sources limit affinity) db = db'" "1 \<le> limit"
proof (cases "limit < 1 \<or> (\<exists>e. worker_sources sources = Inl e)")
  case True
  then have "queue_step (ClaimMany now worker sources limit affinity) db = db" by (auto simp: claim_many_def)
  then show thesis by (rule nothing)
next
  case False
  obtain ws db' where "claim_many_locked now worker sources (nat limit) affinity db = Inr (ws, db')" "queue_ok db'"
    using claim_many_locked_ok [OF assms] by blast
  then show thesis using False
    by (intro claimed [of ws db']) (auto simp: claim_many_def to_call_def split: sum.splits)
qed

lemma claim_cases:
  assumes "queue_ok db"
  obtains (nothing) "queue_step (Claim now worker sources affinity) db = db"
  | (claimed) w db' where "claim_locked now worker sources affinity db = Inr (w, db')" "queue_ok db'"
      "queue_step (Claim now worker sources affinity) db = db'"
proof (cases "\<exists>e. worker_sources sources = Inl e")
  case True
  then have "queue_step (Claim now worker sources affinity) db = db" by (auto simp: claim_def)
  then show thesis by (rule nothing)
next
  case False
  obtain w db' where "claim_locked now worker sources affinity db = Inr (w, db')" "queue_ok db'"
    using claim_locked_ok [OF assms] by blast
  then show thesis using False
    by (intro claimed [of w db']) (auto simp: claim_def to_call_def split: sum.splits)
qed

lemma queue_step_ok:
  assumes "queue_ok db"
  shows "queue_ok (queue_step op db)"
proof (cases op)
  case (Admit now cmd plan reusable)
  then show ?thesis using admit_ok [OF assms, of now cmd plan reusable] by auto
next
  case (Cancel now jid team)
  then show ?thesis using cancel_ok [OF assms, of now jid team] by auto
next
  case (Claim now worker sources affinity)
  show ?thesis unfolding Claim using assms by (cases rule: claim_cases [OF assms, of now worker sources affinity]) auto
next
  case (ClaimMany now worker sources limit affinity)
  show ?thesis unfolding ClaimMany using assms
    by (cases rule: claim_many_cases [OF assms, of now worker sources limit affinity]) auto
next
  case (Publish now p)
  then show ?thesis using assms publish_ok [OF assms, of now p] by (cases "publish now p db") auto
next
  case (Outside versions breakers)
  have "same_rows db (queue_step op db)" by (simp add: Outside same_rows_def)
  then show ?thesis using same_rows_ok assms by blast
qed

lemma reachable_ok: "reachable db \<Longrightarrow> queue_ok db"
proof (induction rule: reachable.induct)
  case start
  show ?case
    by (simp add: queue_ok_def ids_ok_def links_ok_def works_except_def gate_bound_def gate_full_def
        active_count_def empty_queue_def)
next
  case step
  then show ?case using queue_step_ok by blast
qed

section \<open>Finished rows\<close>

definition is_closed :: "job \<Rightarrow> bool" where
  "is_closed j \<longleftrightarrow> jb_state j \<in> {JCompleted, JFailed, JCancelled}"

text \<open>No finished item and no closed job changes or disappears.\<close>

definition keeps :: "queue_db \<Rightarrow> queue_db \<Rightarrow> bool" where
  "keeps db db' \<longleftrightarrow>
     (\<forall>i\<in>set (q_items db). \<not> unfinished i \<longrightarrow> i \<in> set (q_items db')) \<and>
     (\<forall>j\<in>set (q_jobs db). is_closed j \<longrightarrow> j \<in> set (q_jobs db'))"

lemma keeps_refl: "keeps db db"
  by (simp add: keeps_def)

lemma keeps_trans: "keeps a b \<Longrightarrow> keeps b c \<Longrightarrow> keeps a c"
  by (auto simp: keeps_def)

lemma keeps_rows: "same_rows db db' \<Longrightarrow> keeps db db'"
  by (auto simp: keeps_def same_rows_def)

lemma keeps_map_jobs: "(\<And>j. j \<in> set (q_jobs db) \<Longrightarrow> is_closed j \<Longrightarrow> f j = j) \<Longrightarrow> keeps db (map_jobs f db)"
  by (force simp: keeps_def image_iff)

lemma keeps_map_items: "(\<And>i. i \<in> set (q_items db) \<Longrightarrow> \<not> unfinished i \<Longrightarrow> f i = i) \<Longrightarrow> keeps db (map_items f db)"
  by (force simp: keeps_def image_iff)

lemma promote_ids: "ids_ok db \<Longrightarrow> ids_ok (promote_locked now db)"
  by (rule same_rows_ids [OF promote_locked_rows ids_map_jobs]) simp_all

lemma keeps_promote:
  assumes "ids_ok db"
  shows "keeps db (promote_locked now db)"
proof (rule keeps_trans [OF keeps_map_jobs keeps_rows [OF promote_locked_rows]])
  fix j
  assume j: "j \<in> set (q_jobs db)" "is_closed j"
  then have "j \<notin> set (promoted db)" using promoted_queued by (fastforce simp: is_closed_def)
  then show "start_job now (jb_id ` set (promoted db)) j = j"
    using promoted_mem [OF assms j(1)] by (simp add: start_job_def)
qed

lemma finish_cases:
  assumes "finish_if_drained now jid db = Inr db'"
  obtains (idle) "db' = db"
  | (closed) f where "has_unfinished jid db = False" "db' = promote_locked now (terminal_intents now jid (drained_state jid db) (map_jobs f db))"
      "f = (\<lambda>j. if jb_id j = jid \<and> jb_state j = JRunning
        then j\<lparr>jb_state := drained_state jid db,
               jb_reason := (if drained_state jid db = JCompleted then jb_reason j else Some ''no_results''),
               jb_finished_at := Some now\<rparr> else j)"
proof (cases "\<not> list_ex (\<lambda>j. jb_id j = jid \<and> jb_state j = JRunning) (q_jobs db) \<or> has_unfinished jid db")
  case True
  then have "db' = db" using assms by (simp add: finish_if_drained_def)
  then show thesis by (rule idle)
next
  case False
  let ?f = "\<lambda>j. if jb_id j = jid \<and> jb_state j = JRunning
        then j\<lparr>jb_state := drained_state jid db,
               jb_reason := (if drained_state jid db = JCompleted then jb_reason j else Some ''no_results''),
               jb_finished_at := Some now\<rparr> else j"
  let ?db = "terminal_intents now jid (drained_state jid db) (map_jobs ?f db)"
  have "bind_res (lock_queue_gate ?db) (\<lambda>_. Inr (promote_locked now ?db)) = Inr db'"
    using assms False unfolding finish_if_drained_def Let_def by (simp only: if_False)
  then have "db' = promote_locked now ?db" by (auto simp: bind_res_Inr_iff)
  then show thesis using False by (intro closed [of ?f]) simp_all
qed

lemma finish_keeps:
  assumes "ids_ok db" "finish_if_drained now jid db = Inr db'"
  shows "keeps db db' \<and> ids_ok db'"
  using assms(2)
proof (cases rule: finish_cases)
  case idle
  then show ?thesis using assms(1) keeps_refl by simp
next
  case (closed f)
  let ?db = "terminal_intents now jid (drained_state jid db) (map_jobs f db)"
  have "ids_ok (map_jobs f db)" by (rule ids_map_jobs [OF assms(1)]) (simp_all add: closed(3))
  then have ids: "ids_ok ?db" by (rule same_rows_ids [OF same_rows_intents])
  have "keeps db (map_jobs f db)" by (rule keeps_map_jobs) (auto simp: closed(3) is_closed_def)
  then have "keeps db ?db" by (rule keeps_trans [OF _ keeps_rows [OF same_rows_intents]])
  then show ?thesis using closed(2) keeps_trans keeps_promote [OF ids] promote_ids [OF ids] by metis
qed

lemma finish_all_keeps:
  "ids_ok db \<Longrightarrow> finish_all now jids db = Inr db' \<Longrightarrow> keeps db db' \<and> ids_ok db'"
proof (induction jids arbitrary: db)
  case Nil
  then show ?case using keeps_refl by simp
next
  case (Cons jid jids)
  then obtain db1 where db1: "finish_if_drained now jid db = Inr db1" "finish_all now jids db1 = Inr db'"
    by (auto simp: bind_res_Inr_iff)
  then show ?case using finish_keeps [OF Cons.prems(1) db1(1)] Cons.IH [of db1] keeps_trans by blast
qed

lemma sweep_keeps:
  assumes "ids_ok db" "sweep_expired now db = Inr db'"
  shows "keeps db db' \<and> ids_ok db'"
proof -
  let ?f = "\<lambda>i. if is_expired now i \<and> job_running (it_job i) db then recover_item now i else i"
  have "keeps db (map_items ?f db)" by (rule keeps_map_items) (auto simp: is_expired_def unfinished_def)
  moreover have "ids_ok (map_items ?f db)" by (rule ids_map_items [OF assms(1)]) (simp_all add: recover_item_def)
  ultimately show ?thesis
    using finish_all_keeps [of "map_items ?f db"] assms(2) keeps_trans unfolding sweep_expired_def by blast
qed

lemma lease_keeps:
  assumes "ids_ok db" "\<And>c. c \<in> set cs \<Longrightarrow> candidate_ok db c"
  shows "keeps db (snd (lease_candidates now worker cs db))"
proof -
  let ?fences = "map (\<lambda>(j, i). (it_id i, jb_fence j)) cs"
  let ?f = "\<lambda>i. case map_of ?fences (it_id i) of None \<Rightarrow> i | Some fence \<Rightarrow> lease_item now worker fence i"
  have "keeps db (map_items ?f db)"
  proof (rule keeps_map_items)
    fix i
    assume i: "i \<in> set (q_items db)" "\<not> unfinished i"
    have "map_of ?fences (it_id i) = None"
    proof (rule ccontr)
      assume "map_of ?fences (it_id i) \<noteq> None"
      then obtain j k where c: "(j, k) \<in> set cs" "it_id k = it_id i" using map_of_SomeD by fastforce
      then have ok: "candidate_ok db (j, k)" using assms(2) by blast
      then have "k = i" using item_unique [OF assms(1)] c(2) i(1) by (auto simp: candidate_ok_def)
      then show False using ok i(2) by (simp add: candidate_ok_def unfinished_def)
    qed
    then show "?f i = i" by simp
  qed
  then show ?thesis by (simp add: lease_candidates_def Let_def)
qed

lemma lease_nil [simp]: "lease_candidates now worker [] db = ([], db)"
  by (simp add: lease_candidates_def map_items_def)

text \<open>A claim is a sweep and at most two leases of candidates.\<close>

lemma claim_many_split:
  assumes "queue_ok db" "claim_many_locked now worker sources limit affinity db = Inr (ws, db')"
  obtains db1 cs1 cs2 where "sweep_expired now db = Inr db1" "queue_ok db1"
    "\<And>c. c \<in> set cs1 \<Longrightarrow> candidate_ok db1 c"
    "\<And>c. c \<in> set cs2 \<Longrightarrow> candidate_ok (snd (lease_candidates now worker cs1 db1)) c"
    "queue_ok (snd (lease_candidates now worker cs1 db1))"
    "db' = snd (lease_candidates now worker cs2 (snd (lease_candidates now worker cs1 db1)))"
    "ws = fst (lease_candidates now worker cs1 db1)
       @ fst (lease_candidates now worker cs2 (snd (lease_candidates now worker cs1 db1)))"
    "length cs1 \<le> limit" "length (fst (lease_candidates now worker cs1 db1)) + length cs2 \<le> limit"
proof -
  obtain db1 where sweep: "sweep_expired now db = Inr db1" "queue_ok db1" using sweep_ok [OF assms(1)] by blast
  define cs1 where "cs1 = (case affinity of None \<Rightarrow> []
     | Some (source, version) \<Rightarrow> take limit (candidates_affinity now source version db1))"
  define rows where "rows = fst (lease_candidates now worker cs1 db1)"
  define db2 where "db2 = snd (lease_candidates now worker cs1 db1)"
  define cs2 where "cs2 = (if length rows < limit then candidates_any now sources (limit - length rows) db2 else [])"
  have first: "(case affinity of None \<Rightarrow> ([], db1)
     | Some (source, version) \<Rightarrow> lease_candidates now worker (take limit (candidates_affinity now source version db1)) db1)
     = (rows, db2)"
    by (simp add: rows_def db2_def cs1_def split: option.split)
  have second: "(if length rows < limit then lease_candidates now worker (candidates_any now sources (limit - length rows) db2) db2
     else ([], db2)) = lease_candidates now worker cs2 db2"
    by (simp add: cs2_def)
  have r: "ws = rows @ fst (lease_candidates now worker cs2 db2)" "db' = snd (lease_candidates now worker cs2 db2)"
    using assms(2) unfolding claim_many_locked_def sweep(1) bind_res_simps Let_def first prod.case second
    by (simp_all add: case_prod_unfold)
  have ok1: "candidate_ok db1 c" if "c \<in> set cs1" for c
    using that affinity_ok [of c _ _ _ db1] by (auto simp: cs1_def dest!: in_set_takeD split: option.splits)
  have ok2: "candidate_ok db2 c" if "c \<in> set cs2" for c
    using that any_ok [of c] by (auto simp: cs2_def split: if_splits)
  have "length rows \<le> length cs1"
    unfolding rows_def lease_candidates_def Let_def using length_remdups_leq [of "map claimed_work cs1"] by simp
  moreover have "length cs1 \<le> limit" by (simp add: cs1_def split: option.split)
  moreover have "length rows + length cs2 \<le> limit"
    using calculation by (auto simp: cs2_def candidates_any_def min_def)
  ultimately show thesis
    using that [of db1 cs1 cs2] sweep ok1 ok2 r lease_ok [OF sweep(2) ok1] unfolding rows_def db2_def by blast
qed

lemma claim_split:
  assumes "queue_ok db" "claim_locked now worker sources affinity db = Inr (w, db')"
  obtains db1 cs where "sweep_expired now db = Inr db1" "queue_ok db1"
    "\<And>c. c \<in> set cs \<Longrightarrow> candidate_ok db1 c" "db' = snd (lease_candidates now worker cs db1)"
    "w = (case fst (lease_candidates now worker cs db1) of [] \<Rightarrow> None | w # _ \<Rightarrow> Some w)"
proof -
  obtain db1 where sweep: "sweep_expired now db = Inr db1" "queue_ok db1" using sweep_ok [OF assms(1)] by blast
  define first where "first = (case affinity of None \<Rightarrow> []
     | Some (source, version) \<Rightarrow> take 1 (candidates_affinity now source version db1))"
  define cs where "cs = (if first \<noteq> [] then first else candidates_any now sources 1 db1)"
  have "candidate_ok db1 c" if "c \<in> set cs" for c
    using that affinity_ok [of c _ _ _ db1] any_ok [of c _ _ _ db1]
    by (auto simp: cs_def first_def split: option.splits if_splits dest!: in_set_takeD)
  moreover have "db' = snd (lease_candidates now worker cs db1)"
    "w = (case fst (lease_candidates now worker cs db1) of [] \<Rightarrow> None | w # _ \<Rightarrow> Some w)"
    using assms(2) unfolding claim_locked_def sweep(1) bind_res_simps Let_def cs_def first_def
    by (simp_all add: case_prod_unfold)
  ultimately show thesis using that [of db1 cs] sweep by blast
qed

lemma queue_ids: "queue_ok db \<Longrightarrow> ids_ok db"
  by (simp add: queue_ok_def)

lemma publish_keeps:
  assumes "queue_ok db" "publish now p db = Inr (b, db')"
  shows "keeps db db'"
proof -
  obtain e db1 where rec: "publish_records now p db = Inr (e, db1)"
    using assms(2) by (auto simp: publish_unfold bind_res_Inr_iff)
  have k1: "keeps db db1" by (rule keeps_rows [OF publish_records_rows [OF rec]])
  let ?f = "\<lambda>i. if fence_holds p db i then publish_item now p e i else i"
  show ?thesis
  proof (cases "\<exists>i\<in>set (q_items db). fence_holds p db i")
    case False
    then show ?thesis using publish_outcome [OF assms(1) rec] assms(2) k1 by auto
  next
    case True
    then obtain i :: item and db2 where "publish now p db = Inr (True, db2)" "finish_if_drained now (it_job i) (map_items ?f db1) = Inr db2"
      using publish_outcome [OF assms(1) rec] unfolding if_P [OF True] by blast
    then have fin: "finish_if_drained now (it_job i) (map_items ?f db1) = Inr db'" using assms(2) by simp
    have "ids_ok db1" by (rule queue_ids [OF same_rows_ok [OF publish_records_rows [OF rec] assms(1)]])
    then have ids: "ids_ok (map_items ?f db1)" by (rule ids_map_items) (simp_all add: publish_item_def)
    have "keeps db1 (map_items ?f db1)" by (rule keeps_map_items) (auto simp: fence_holds_def unfinished_def)
    then show ?thesis using k1 finish_keeps [OF ids fin] keeps_trans by blast
  qed
qed

lemma cancel_keeps:
  assumes "queue_ok db" "cancel now jid team db = Inr (r, db')"
  shows "keeps db db'"
proof (cases "find (\<lambda>j. jb_id j = jid \<and> jb_team j = team) (q_jobs db)")
  case None
  then show ?thesis using assms keeps_refl by (simp add: cancel_def lock_queue_gate_def queue_ok_def gate_bound_def)
next
  case (Some j)
  show ?thesis
  proof (cases "jb_state j \<in> {JQueued, JRunning, JCancelling}")
    case False
    then show ?thesis using assms Some keeps_refl
      by (simp add: cancel_def lock_queue_gate_def queue_ok_def gate_bound_def)
  next
    case True
    obtain db1 where db1: "same_rows (map_jobs (cancelled_job now jid) (map_items (cancelled_item now jid) db)) db1"
      "db' = promote_locked now (terminal_intents now jid JCancelled db1)"
      using cancel_rows [OF assms(1) Some True, of now] assms(2) by auto
    have ids: "ids_ok db" by (rule queue_ids [OF assms(1)])
    have j: "j \<in> set (q_jobs db)" "jb_id j = jid" using Some by (auto simp: find_Some_iff)
    have "cancelled_job now jid k = k" if "k \<in> set (q_jobs db)" "is_closed k" for k
    proof -
      have "jb_id k \<noteq> jid" using job_unique [OF ids that(1) j(1)] j(2) that(2) True by (auto simp: is_closed_def)
      then show ?thesis by (simp add: cancelled_job_def)
    qed
    then have "keeps (map_items (cancelled_item now jid) db) (map_jobs (cancelled_job now jid) (map_items (cancelled_item now jid) db))"
      by (intro keeps_map_jobs) simp
    moreover have "keeps db (map_items (cancelled_item now jid) db)"
      by (rule keeps_map_items) (simp add: cancelled_item_def)
    moreover note keeps_rows [OF db1(1)] keeps_rows [OF same_rows_intents]
    moreover have "ids_ok (terminal_intents now jid JCancelled db1)"
      by (intro same_rows_ids [OF same_rows_intents] same_rows_ids [OF db1(1)] ids_map_jobs ids_map_items ids) simp_all
    ultimately show ?thesis unfolding db1(2) using keeps_trans keeps_promote by metis
  qed
qed

lemma admit_keeps:
  assumes "queue_ok db" "admit_submission now cmd plan reusable db = Inr (j, db')"
  shows "keeps db db'"
proof -
  have "q_max_active db = MAX_ACTIVE_JOBS" using assms(1) by (simp add: queue_ok_def gate_bound_def)
  then have rows: "same_rows (admitted_items now cmd plan reusable db) db'"
    using admit_rows [of db now cmd plan reusable] assms(2) by auto
  have "keeps db (admitted_items now cmd plan reusable db)"
    unfolding admitted_items_def Let_def by (simp add: keeps_def)
  then show ?thesis using keeps_trans keeps_rows [OF rows] by blast
qed

lemma step_keeps:
  assumes "queue_ok db"
  shows "keeps db (queue_step op db)"
proof (cases op)
  case (Admit now cmd plan reusable)
  then show ?thesis using admit_keeps [OF assms] keeps_refl
    by (cases "admit_submission now cmd plan reusable db") auto
next
  case (Cancel now jid team)
  then show ?thesis using cancel_keeps [OF assms] keeps_refl by (cases "cancel now jid team db") auto
next
  case (Publish now p)
  then show ?thesis using publish_keeps [OF assms] keeps_refl by (cases "publish now p db") auto
next
  case (Outside versions breakers)
  then show ?thesis by (simp add: keeps_def)
next
  case (Claim now worker sources affinity)
  show ?thesis unfolding Claim
    using assms
  proof (cases rule: claim_cases [where now = now and worker = worker and sources = sources and affinity = affinity])
    case nothing
    then show "keeps db (queue_step (queue_op.Claim now worker sources affinity) db)" using keeps_refl by simp
  next
    case (claimed w db')
    from claim_split [OF assms claimed(1)] obtain db1 cs where c: "sweep_expired now db = Inr db1" "queue_ok db1"
      "\<And>c. c \<in> set cs \<Longrightarrow> candidate_ok db1 c" "db' = snd (lease_candidates now worker cs db1)" by metis
    have "keeps db db'"
      using sweep_keeps [OF queue_ids [OF assms] c(1)] lease_keeps [OF queue_ids [OF c(2)] c(3)] keeps_trans
      unfolding c(4) by blast
    then show "keeps db (queue_step (queue_op.Claim now worker sources affinity) db)" using claimed(3) by simp
  qed
next
  case (ClaimMany now worker sources limit affinity)
  show ?thesis unfolding ClaimMany
    using assms
  proof (cases rule: claim_many_cases [where now = now and worker = worker and sources = sources and limit = limit and affinity = affinity])
    case nothing
    then show "keeps db (queue_step (queue_op.ClaimMany now worker sources limit affinity) db)" using keeps_refl by simp
  next
    case (claimed ws db')
    from claim_many_split [OF assms claimed(1)] obtain db1 cs1 cs2 where c: "sweep_expired now db = Inr db1" "queue_ok db1"
      "\<And>c. c \<in> set cs1 \<Longrightarrow> candidate_ok db1 c"
      "\<And>c. c \<in> set cs2 \<Longrightarrow> candidate_ok (snd (lease_candidates now worker cs1 db1)) c"
      "queue_ok (snd (lease_candidates now worker cs1 db1))"
      "db' = snd (lease_candidates now worker cs2 (snd (lease_candidates now worker cs1 db1)))" by metis
    have "keeps db db1" using sweep_keeps [OF queue_ids [OF assms] c(1)] by blast
    moreover have "keeps db1 (snd (lease_candidates now worker cs1 db1))" by (rule lease_keeps [OF queue_ids [OF c(2)] c(3)])
    moreover have "keeps (snd (lease_candidates now worker cs1 db1)) db'" unfolding c(6) by (rule lease_keeps [OF queue_ids [OF c(5)] c(4)])
    ultimately have "keeps db db'" using keeps_trans by blast
    then show "keeps db (queue_step (queue_op.ClaimMany now worker sources limit affinity) db)" using claimed(3) by simp
  qed
qed

lemma run_keeps: "queue_ok db \<Longrightarrow> keeps db (run_queue ops db) \<and> queue_ok (run_queue ops db)"
proof (induction ops arbitrary: db)
  case Nil
  then show ?case using keeps_refl by simp
next
  case (Cons op ops)
  then show ?case using step_keeps [of db op] queue_step_ok [of db op] keeps_trans by (metis run_queue_simps(2))
qed

section \<open>Claims can be published\<close>

text \<open>The lease a claim hands out is the one the fence of a publication asks for.\<close>

definition leased :: "queue_db \<Rightarrow> pystr \<Rightarrow> claim_row \<Rightarrow> bool" where
  "leased db worker w \<longleftrightarrow>
     (\<exists>i\<in>set (q_items db). it_id i = cw_item w \<and> it_job i = cw_job w \<and> it_state i = IRunning
        \<and> it_owner i = Some worker \<and> it_fence i = cw_fence w
        \<and> (\<exists>j\<in>set (q_jobs db). jb_id j = it_job i \<and> jb_state j = JRunning \<and> jb_fence j = cw_fence w))"

lemma leased_fence:
  "leased db (pb_worker p) w \<Longrightarrow> pb_item p = cw_item w \<Longrightarrow> pb_fence p = cw_fence w
     \<Longrightarrow> \<exists>i\<in>set (q_items db). fence_holds p db i"
  by (auto simp: leased_def fence_holds_def list_ex_iff)

lemma lease_hands_out:
  assumes "queue_ok db" "\<And>c. c \<in> set cs \<Longrightarrow> candidate_ok db c"
    "w \<in> set (fst (lease_candidates now worker cs db))"
  shows "leased (snd (lease_candidates now worker cs db)) worker w"
proof -
  let ?fences = "map (\<lambda>(j, i). (it_id i, jb_fence j)) cs"
  let ?f = "\<lambda>i. case map_of ?fences (it_id i) of None \<Rightarrow> i | Some fence \<Rightarrow> lease_item now worker fence i"
  have db': "snd (lease_candidates now worker cs db) = map_items ?f db" by (simp add: lease_candidates_def Let_def)
  obtain j i where c: "(j, i) \<in> set cs" "w = claimed_work (j, i)"
    using assms(3) by (auto simp: lease_candidates_def Let_def)
  have ok: "j \<in> set (q_jobs db)" "jb_state j = JRunning" "i \<in> set (q_items db)" "it_job i = jb_id j"
    using assms(2) [OF c(1)] by (auto simp: candidate_ok_def)
  have "(it_id i, jb_fence j) \<in> set ?fences" using c(1) by (auto intro: rev_image_eqI)
  then obtain fence where m: "map_of ?fences (it_id i) = Some fence" by (metis weak_map_of_SomeI)
  have "fence = jb_fence j"
  proof -
    obtain j' k where k: "(j', k) \<in> set cs" "it_id k = it_id i" "fence = jb_fence j'"
      using map_of_SomeD [OF m] by auto
    then have "j' \<in> set (q_jobs db)" "k \<in> set (q_items db)" "it_job k = jb_id j'"
      using assms(2) [OF k(1)] by (auto simp: candidate_ok_def)
    then show ?thesis
      using item_unique [OF queue_ids [OF assms(1)]] job_unique [OF queue_ids [OF assms(1)]] k ok by metis
  qed
  then have f: "?f i = lease_item now worker (jb_fence j) i" by (simp add: m)
  have "?f i \<in> set (q_items (map_items ?f db))" using ok(3) by (simp only: map_items_fields set_map) (rule imageI)
  then show ?thesis
    unfolding leased_def db' using f c(2) ok
    by (intro bexI [of _ "?f i"]) (auto simp: lease_item_def claimed_work_def)
qed

text \<open>A later lease of other candidates leaves an earlier one alone: its item is no longer pending.\<close>

lemma lease_keeps_lease:
  assumes "queue_ok db" "\<And>c. c \<in> set cs \<Longrightarrow> candidate_ok db c" "leased db worker w"
  shows "leased (snd (lease_candidates now worker' cs db)) worker w"
proof -
  let ?fences = "map (\<lambda>(j, i). (it_id i, jb_fence j)) cs"
  let ?f = "\<lambda>i. case map_of ?fences (it_id i) of None \<Rightarrow> i | Some fence \<Rightarrow> lease_item now worker' fence i"
  have db': "snd (lease_candidates now worker' cs db) = map_items ?f db" by (simp add: lease_candidates_def Let_def)
  obtain i :: item where i: "i \<in> set (q_items db)" "it_id i = cw_item w \<and> it_job i = cw_job w \<and> it_state i = IRunning
        \<and> it_owner i = Some worker \<and> it_fence i = cw_fence w
        \<and> (\<exists>j\<in>set (q_jobs db). jb_id j = it_job i \<and> jb_state j = JRunning \<and> jb_fence j = cw_fence w)"
    using assms(3) unfolding leased_def by blast
  have "map_of ?fences (it_id i) = None"
  proof (rule ccontr)
    assume "map_of ?fences (it_id i) \<noteq> None"
    then obtain j k where c: "(j, k) \<in> set cs" "it_id k = it_id i" using map_of_SomeD by fastforce
    then have ok: "candidate_ok db (j, k)" using assms(2) by blast
    then have "k = i" using item_unique [OF queue_ids [OF assms(1)]] c(2) i(1) by (auto simp: candidate_ok_def)
    then show False using ok i(2) by (simp add: candidate_ok_def)
  qed
  then have "?f i = i" by simp
  then have "i \<in> set (q_items (map_items ?f db))" using i(1) by (simp only: map_items_fields set_map) (rule image_eqI, simp_all)
  then show ?thesis unfolding leased_def db' map_items_fields using i(2) by blast
qed

lemma claim_many_leased:
  assumes "queue_ok db" "claim_many_locked now worker sources limit affinity db = Inr (ws, db')" "w \<in> set ws"
  shows "leased db' worker w"
proof -
  from claim_many_split [OF assms(1,2)] obtain db1 cs1 cs2 where c: "sweep_expired now db = Inr db1" "queue_ok db1"
      "\<And>c. c \<in> set cs1 \<Longrightarrow> candidate_ok db1 c"
      "\<And>c. c \<in> set cs2 \<Longrightarrow> candidate_ok (snd (lease_candidates now worker cs1 db1)) c"
      "queue_ok (snd (lease_candidates now worker cs1 db1))"
      "db' = snd (lease_candidates now worker cs2 (snd (lease_candidates now worker cs1 db1)))"
      "ws = fst (lease_candidates now worker cs1 db1)
       @ fst (lease_candidates now worker cs2 (snd (lease_candidates now worker cs1 db1)))"
    by metis
  show ?thesis
    using assms(3) lease_hands_out [OF c(2,3)] lease_hands_out [OF c(5,4)] lease_keeps_lease [OF c(5,4)]
    unfolding c(6,7) by auto
qed

text \<open>No item is handed out twice by one claim.\<close>

lemma lease_distinct:
  assumes "queue_ok db" "\<And>c. c \<in> set cs \<Longrightarrow> candidate_ok db c"
  shows "distinct (map cw_item (fst (lease_candidates now worker cs db)))"
proof -
  have "inj_on cw_item (set (map claimed_work cs))"
  proof (rule inj_onI)
    fix a b
    assume "a \<in> set (map claimed_work cs)" "b \<in> set (map claimed_work cs)" and same: "cw_item a = cw_item b"
    then obtain j i j' k where c: "(j, i) \<in> set cs" "a = claimed_work (j, i)" "(j', k) \<in> set cs" "b = claimed_work (j', k)"
      by auto
    have ok: "j \<in> set (q_jobs db)" "i \<in> set (q_items db)" "it_job i = jb_id j"
      "j' \<in> set (q_jobs db)" "k \<in> set (q_items db)" "it_job k = jb_id j'"
      using assms(2) [OF c(1)] assms(2) [OF c(3)] by (simp_all add: candidate_ok_def)
    have "it_id i = it_id k" using same c(2,4) by (simp add: claimed_work_def)
    then have "i = k" by (rule item_unique [OF queue_ids [OF assms(1)] ok(2,5)])
    moreover from this have "j = j'" using job_unique [OF queue_ids [OF assms(1)] ok(1,4)] ok(3,6) by simp
    ultimately show "a = b" using c by simp
  qed
  then show ?thesis by (simp add: lease_candidates_def Let_def distinct_map)
qed

lemma claim_many_distinct:
  assumes "queue_ok db" "claim_many_locked now worker sources limit affinity db = Inr (ws, db')"
  shows "distinct (map cw_item ws) \<and> length ws \<le> limit"
proof -
  from claim_many_split [OF assms] obtain db1 cs1 cs2 where c: "queue_ok db1"
      "\<And>c. c \<in> set cs1 \<Longrightarrow> candidate_ok db1 c"
      "\<And>c. c \<in> set cs2 \<Longrightarrow> candidate_ok (snd (lease_candidates now worker cs1 db1)) c"
      "queue_ok (snd (lease_candidates now worker cs1 db1))"
      "ws = fst (lease_candidates now worker cs1 db1)
       @ fst (lease_candidates now worker cs2 (snd (lease_candidates now worker cs1 db1)))"
      "length (fst (lease_candidates now worker cs1 db1)) + length cs2 \<le> limit"
    by metis
  let ?db2 = "snd (lease_candidates now worker cs1 db1)"
  have "cw_item a \<noteq> cw_item b"
    if a: "a \<in> set (fst (lease_candidates now worker cs1 db1))" and b: "b \<in> set (fst (lease_candidates now worker cs2 ?db2))" for a b
  proof
    assume same: "cw_item a = cw_item b"
    obtain i :: item where i: "i \<in> set (q_items ?db2)" "it_id i = cw_item a" "it_state i = IRunning"
      using lease_hands_out [OF c(1,2) a] unfolding leased_def by blast
    obtain j k where k: "(j, k) \<in> set cs2" "b = claimed_work (j, k)"
      using b by (auto simp: lease_candidates_def Let_def)
    then have "candidate_ok ?db2 (j, k)" using c(3) by blast
    then have "k \<in> set (q_items ?db2)" "it_state k = IPending" by (auto simp: candidate_ok_def)
    moreover have "it_id k = it_id i" using k(2) same i(2) by (simp add: claimed_work_def)
    ultimately show False using item_unique [OF queue_ids [OF c(4)]] i by fastforce
  qed
  then have "distinct (map cw_item ws)"
    using lease_distinct [OF c(1,2)] lease_distinct [OF c(4,3)] unfolding c(5) by fastforce
  moreover have "length (fst (lease_candidates now worker cs2 ?db2)) \<le> length cs2"
    unfolding lease_candidates_def Let_def using length_remdups_leq [of "map claimed_work cs2"] by simp
  ultimately show ?thesis using c(5,6) by simp
qed

end
