(* ===== verification/QueueProps.thy ===== *)
theory QueueProps
  imports QueueRun
begin

text \<open>
  What the job queue promises: its invariant on every reachable database, the fence of a
  publication, the finality of finished rows, leases that can be published, and the one race
  that escapes the invariant.
\<close>

section \<open>Samples\<close>

definition sample_submit :: submit_job where
  "sample_submit =
     \<lparr>sj_actor = 100, sj_team = 101, sj_credential = 102, sj_input_object = 103,
      sj_filename = ''a.csv'', sj_sources = [''osiptel'']\<rparr>"

definition sample_plan :: submission_plan where
  "sample_plan =
     \<lparr>sp_items = [\<lparr>pi_ordinal = 1, pi_document = ''12345678'', pi_source = ''osiptel''\<rparr>,
                  \<lparr>pi_ordinal = 2, pi_document = ''87654321'', pi_source = ''osiptel''\<rparr>],
      sp_exclusions = []\<rparr>"

definition sample_queue :: queue_db where
  "sample_queue =
     run_queue [Outside [(102, ''dataimpulse'')] [], Admit 0 sample_submit sample_plan (\<lambda>_. None)] empty_queue"

lemma sample_reachable: "reachable sample_queue"
  unfolding sample_queue_def by (intro reachable_run reachable.start)

definition sample_lease :: queue_db where
  "sample_lease = queue_step (ClaimMany 10 ''w1'' [''osiptel''] 2 None) sample_queue"

lemma sample_lease_reachable: "reachable sample_lease"
  unfolding sample_lease_def by (intro reachable.step sample_reachable)

definition sample_publication :: "uuid \<Rightarrow> publication" where
  "sample_publication iid =
     \<lparr>pb_item = iid, pb_worker = ''w1'', pb_fence = 0, pb_document = ''12345678'', pb_source = ''osiptel'',
      pb_provider = ''dataimpulse'', pb_status = ''ok'', pb_columns = [''modalidad''],
      pb_rows = JList [], pb_error_code = None, pb_result_object = 200, pb_lane = 0,
      pb_attempts = [\<lparr>ar_fetch_attempt = 1, ar_outcome = ''ok'', ar_elapsed_ms = 10, ar_error_code = None\<rparr>]\<rparr>"

section \<open>The invariant\<close>

text \<open>C1: in every database a run of the queue reaches, at most five jobs are active, and a job waits
  only while five are; every open job has unfinished items, so none is stuck; a leased item has
  an owner, the current fence of its running job, and was leased at most four times.\<close>

theorem queue_invariant:
  assumes "reachable db"
  shows "active_count db \<le> 5 \<and> ((\<exists>j\<in>set (q_jobs db). jb_state j = JQueued) \<longrightarrow> active_count db = 5)
    \<and> (\<forall>j\<in>set (q_jobs db). jb_state j \<noteq> JCancelling
         \<and> (jb_state j \<in> {JQueued, JRunning} \<longrightarrow> has_unfinished (jb_id j) db))
    \<and> (\<forall>i\<in>set (q_items db). it_state i = IRunning \<longrightarrow>
         it_owner i \<noteq> None \<and> 1 \<le> it_attempts i \<and> it_attempts i \<le> 4
         \<and> (\<exists>j\<in>set (q_jobs db). jb_id j = it_job i \<and> jb_state j = JRunning \<and> it_fence i = jb_fence j))"
proof -
  have ok: "ids_ok db" "links_ok db" "works_except {} db" "gate_bound db" "gate_full db"
    using reachable_ok [OF assms] by (simp_all add: queue_ok_def)
  have lease: "it_owner i \<noteq> None \<and> 1 \<le> it_attempts i \<and> it_attempts i \<le> 4
      \<and> (\<exists>j\<in>set (q_jobs db). jb_id j = it_job i \<and> jb_state j = JRunning \<and> it_fence i = jb_fence j)"
    if i: "i \<in> set (q_items db)" "it_state i = IRunning" for i
  proof -
    obtain j where j: "j \<in> set (q_jobs db)" "jb_id j = it_job i" using ok(1) i(1) by (auto simp: ids_ok_def)
    then have "item_ok j i" using ok(2) i(1) by (simp add: links_ok_def)
    then show ?thesis using j i(2) by (auto simp: item_ok_def MAX_LEASE_ATTEMPTS_def)
  qed
  have "active_count db \<le> 5" "(\<exists>j\<in>set (q_jobs db). jb_state j = JQueued) \<longrightarrow> active_count db = 5"
    using ok(4,5) by (simp_all add: gate_bound_def gate_full_def MAX_ACTIVE_JOBS_def)
  moreover have "\<forall>j\<in>set (q_jobs db). jb_state j \<noteq> JCancelling" using ok(2) by (simp add: links_ok_def)
  moreover have "\<forall>j\<in>set (q_jobs db). jb_state j \<in> {JQueued, JRunning} \<longrightarrow> has_unfinished (jb_id j) db"
    using ok(3) by (simp add: works_except_def)
  ultimately show ?thesis using lease by blast
qed

theorem queue_invariant_witness: "active_count sample_lease \<le> 5"
  using queue_invariant [OF sample_lease_reachable] by blast

text \<open>C5: what is finished stays as it is. Whatever transactions follow, an item that is published,
  failed, cancelled or excluded and a job that is completed, failed or cancelled keep their rows
  unchanged; so an item is published at most once.\<close>

theorem finished_rows_final:
  assumes "reachable db"
  shows "{i \<in> set (q_items db). it_state i \<notin> {IPending, IRunning}} \<subseteq> set (q_items (run_queue ops db))
    \<and> {j \<in> set (q_jobs db). jb_state j \<in> {JCompleted, JFailed, JCancelled}} \<subseteq> set (q_jobs (run_queue ops db))"
  using run_keeps [OF reachable_ok [OF assms], of ops]
  by (auto simp: keeps_def unfinished_def is_closed_def)

definition sample_cancelled :: queue_db where
  "sample_cancelled = queue_step (Cancel 20 1 101) sample_lease"

theorem finished_rows_final_witness:
  "{j \<in> set (q_jobs sample_cancelled). jb_state j \<in> {JCompleted, JFailed, JCancelled}}
     \<subseteq> set (q_jobs (run_queue [Publish 30 (sample_publication 2)] sample_cancelled))"
  using finished_rows_final [of sample_cancelled "[Publish 30 (sample_publication 2)]"]
    reachable.step [OF sample_lease_reachable] unfolding sample_cancelled_def by blast

section \<open>Publishing\<close>

lemma promote_ledger [simp]:
  "q_attempts (promote_locked now db) = q_attempts db" "q_entries (promote_locked now db) = q_entries db"
proof -
  have "q_attempts (running_events now ids d) = q_attempts d \<and> q_entries (running_events now ids d) = q_entries d" for ids d
    by (induction ids arbitrary: d) (auto simp: add_event_def)
  then show "q_attempts (promote_locked now db) = q_attempts db" "q_entries (promote_locked now db) = q_entries db"
    by (simp_all add: promote_locked_def map_jobs_def Let_def)
qed

lemma intents_ledger [simp]:
  "q_attempts (terminal_intents now jid st db) = q_attempts db" "q_entries (terminal_intents now jid st db) = q_entries db"
proof -
  have "q_attempts (add_outbox e jid st cs d) = q_attempts d \<and> q_entries (add_outbox e jid st cs d) = q_entries d" for e cs d
    by (induction cs arbitrary: d) auto
  then show "q_attempts (terminal_intents now jid st db) = q_attempts db" "q_entries (terminal_intents now jid st db) = q_entries db"
    by (simp_all add: terminal_intents_def add_event_def split: prod.split)
qed

lemma finish_ledger:
  "finish_if_drained now jid db = Inr db' \<Longrightarrow> q_attempts db' = q_attempts db \<and> q_entries db' = q_entries db"
  by (erule finish_cases) (simp_all add: map_jobs_def)

lemma upsert_entry_present:
  assumes "upsert_entry now p db = Inr (e, d)"
  shows "\<exists>en\<in>set (q_entries d). en_id en = e \<and> en_document en = pb_document p \<and> en_source en = pb_source p
    \<and> en_status en = pb_status p \<and> en_columns en = pb_columns p \<and> en_rows en = dumps_ascii (pb_rows p)
    \<and> en_error_code en = pb_error_code p"
proof -
  let ?P = "\<lambda>e. en_document e = pb_document p \<and> en_source e = pb_source p"
  obtain i where i: "find_item (pb_item p) db = Some i" "pb_status p \<in> set OUTCOMES" "entry_fits p"
      "\<not> list_all (\<lambda>c. c = CHR '' '') (pb_document p)"
    using assms by (auto simp: upsert_entry_def split: option.splits if_splits)
  show ?thesis
  proof (cases "find ?P (q_entries db)")
    case None
    then show ?thesis using assms i by (auto simp: upsert_entry_def)
  next
    case (Some e0)
    let ?g = "\<lambda>e. if ?P e then e\<lparr>en_status := pb_status p, en_columns := pb_columns p,
                 en_rows := dumps_ascii (pb_rows p), en_error_code := pb_error_code p,
                 en_confirmed := now, en_last_job := it_job i\<rparr> else e"
    have e0: "e0 \<in> set (q_entries db)" "?P e0" using Some by (auto simp: find_Some_iff)
    have d: "e = en_id e0" "q_entries d = map ?g (q_entries db)" using assms i Some by (auto simp: upsert_entry_def)
    have "?g e0 \<in> set (q_entries d)" unfolding d(2) set_map by (rule imageI) (rule e0(1))
    then show ?thesis by (rule bexI [rotated]) (use e0 d(1) in simp)
  qed
qed

lemma publish_records_ledger:
  assumes "publish_records now p db = Inr (e, db1)"
  shows "q_events db1 = q_events db \<and> q_outbox db1 = q_outbox db
    \<and> map la_attempt (drop (length (q_attempts db)) (q_attempts db1)) = pb_attempts p
    \<and> (\<exists>en\<in>set (q_entries db1). en_id en = e \<and> en_document en = pb_document p \<and> en_source en = pb_source p
         \<and> en_status en = pb_status p \<and> en_columns en = pb_columns p \<and> en_rows en = dumps_ascii (pb_rows p)
         \<and> en_error_code en = pb_error_code p)"
proof -
  obtain d where up: "upsert_entry now p db = Inr (e, d)"
    and ins: "(if pb_attempts p \<noteq> [] then insert_attempts p d else Inr d) = Inr db1"
    using assms by (auto simp: publish_records_def bind_res_Inr_iff)
  have d: "q_events d = q_events db" "q_outbox d = q_outbox db" "q_attempts d = q_attempts db"
    using up by (auto simp: upsert_entry_def split: option.splits if_splits)
  have en: "\<exists>en\<in>set (q_entries d). en_id en = e \<and> en_document en = pb_document p \<and> en_source en = pb_source p
         \<and> en_status en = pb_status p \<and> en_columns en = pb_columns p \<and> en_rows en = dumps_ascii (pb_rows p)
         \<and> en_error_code en = pb_error_code p"
    by (rule upsert_entry_present [OF up])
  have ins': "q_events db1 = q_events d" "q_outbox db1 = q_outbox d" "q_entries db1 = q_entries d"
    using ins by (auto simp: insert_attempts_def split: if_splits)
  have "map la_attempt (drop (length (q_attempts d)) (q_attempts db1)) = pb_attempts p"
    using ins by (auto simp: insert_attempts_def comp_def case_prod_unfold split: if_splits)
  then show ?thesis using d en ins' by simp
qed

text \<open>C2: a publication is accepted exactly when its item is leased to that worker under the current
  fence of a running job. A refused one changes no job, item, event or notification; either way
  every attempt goes to the ledger, in order, and the answer to the shared entries.\<close>

theorem publish_fence:
  assumes "reachable db" "publish now p db = Inr (accepted, db')"
  shows "(accepted \<longleftrightarrow> (\<exists>i\<in>set (q_items db). it_id i = pb_item p \<and> it_state i = IRunning
         \<and> it_owner i = Some (pb_worker p) \<and> it_fence i = pb_fence p
         \<and> (\<exists>j\<in>set (q_jobs db). jb_id j = it_job i \<and> jb_state j = JRunning \<and> jb_fence j = pb_fence p)))
    \<and> (\<not> accepted \<longrightarrow> q_jobs db' = q_jobs db \<and> q_items db' = q_items db \<and> q_events db' = q_events db
         \<and> q_outbox db' = q_outbox db)
    \<and> map la_attempt (drop (length (q_attempts db)) (q_attempts db')) = pb_attempts p
    \<and> (\<exists>en\<in>set (q_entries db'). en_document en = pb_document p \<and> en_source en = pb_source p \<and> en_status en = pb_status p
         \<and> en_columns en = pb_columns p \<and> en_rows en = dumps_ascii (pb_rows p) \<and> en_error_code en = pb_error_code p)"
proof -
  obtain e db1 where rec: "publish_records now p db = Inr (e, db1)"
    using assms(2) by (auto simp: publish_unfold bind_res_Inr_iff)
  note ledger = publish_records_ledger [OF rec] and rows = publish_records_rows [OF rec]
  note outcome = publish_outcome [OF reachable_ok [OF assms(1)] rec]
  have cond: "(\<exists>i\<in>set (q_items db). it_id i = pb_item p \<and> it_state i = IRunning
         \<and> it_owner i = Some (pb_worker p) \<and> it_fence i = pb_fence p
         \<and> (\<exists>j\<in>set (q_jobs db). jb_id j = it_job i \<and> jb_state j = JRunning \<and> jb_fence j = pb_fence p))
    \<longleftrightarrow> (\<exists>i\<in>set (q_items db). fence_holds p db i)"
    by (auto simp: fence_holds_def list_ex_iff)
  have "(accepted \<longleftrightarrow> (\<exists>i\<in>set (q_items db). fence_holds p db i))
    \<and> (\<not> accepted \<longrightarrow> q_jobs db' = q_jobs db \<and> q_items db' = q_items db \<and> q_events db' = q_events db
         \<and> q_outbox db' = q_outbox db)
    \<and> map la_attempt (drop (length (q_attempts db)) (q_attempts db')) = pb_attempts p
    \<and> (\<exists>en\<in>set (q_entries db'). en_document en = pb_document p \<and> en_source en = pb_source p \<and> en_status en = pb_status p
         \<and> en_columns en = pb_columns p \<and> en_rows en = dumps_ascii (pb_rows p) \<and> en_error_code en = pb_error_code p)"
  proof (cases "\<exists>i\<in>set (q_items db). fence_holds p db i")
    case False
    then have "accepted = False" "db' = db1" using outcome assms(2) by simp_all
    then show ?thesis using False ledger rows by (auto simp: same_rows_def)
  next
    case True
    then obtain i :: item and d where d: "publish now p db = Inr (True, d)"
        "finish_if_drained now (it_job i) (map_items (\<lambda>i. if fence_holds p db i then publish_item now p e i else i) db1) = Inr d"
      using outcome unfolding if_P [OF True] by blast
    then have "accepted" "d = db'" using assms(2) by simp_all
    moreover have "q_attempts db' = q_attempts db1" "q_entries db' = q_entries db1"
      using finish_ledger [OF d(2)] \<open>d = db'\<close> by (simp_all add: map_items_def)
    ultimately show ?thesis using True ledger by auto
  qed
  then show ?thesis using cond by argo
qed

text \<open>What makes the statements of a publication go through.\<close>

definition publishable :: "publication \<Rightarrow> bool" where
  "publishable p \<longleftrightarrow>
     entry_fits p \<and> pb_status p \<in> set OUTCOMES \<and> \<not> list_all (\<lambda>c. c = CHR '' '') (pb_document p)
     \<and> int (pb_lane p) \<le> INT4_MAX \<and> list_all attempt_fits (pb_attempts p)
     \<and> list_all (attempt_accepted (pb_provider p)) (pb_attempts p)"

lemma publish_records_total:
  assumes "find_item (pb_item p) db \<noteq> None" "publishable p"
  shows "\<exists>e db1. publish_records now p db = Inr (e, db1)"
  using assms
  by (auto simp: publish_records_def bind_res_def upsert_entry_def insert_attempts_def publishable_def not_less split: option.splits)

lemma publish_total:
  assumes "reachable db" "find_item (pb_item p) db \<noteq> None" "publishable p"
  shows "\<exists>b db'. publish now p db = Inr (b, db')"
proof -
  obtain e db1 where "publish_records now p db = Inr (e, db1)" using publish_records_total [OF assms(2,3)] by blast
  from publish_outcome [OF reachable_ok [OF assms(1)] this] show ?thesis by (auto split: if_splits)
qed

theorem publish_fence_witness:
  "map la_attempt (drop (length (q_attempts sample_lease)) (q_attempts (queue_step (Publish 20 (sample_publication 2)) sample_lease)))
     = pb_attempts (sample_publication 2)"
proof -
  have "find_item (pb_item (sample_publication 2)) sample_lease \<noteq> None" "publishable (sample_publication 2)"
    by code_simp+
  from publish_total [OF sample_lease_reachable this]
  obtain b d where p: "publish 20 (sample_publication 2) sample_lease = Inr (b, d)" by blast
  then show ?thesis using publish_fence [OF sample_lease_reachable p] by simp
qed

lemma publish_leased:
  assumes "queue_ok db" "leased db (pb_worker p) w" "pb_item p = cw_item w" "pb_fence p = cw_fence w" "publishable p"
  shows "\<exists>e db1 i db'. publish now p db = Inr (True, db') \<and> publish_records now p db = Inr (e, db1)
    \<and> i \<in> set (q_items db) \<and> fence_holds p db i
    \<and> finish_if_drained now (it_job i) (map_items (\<lambda>i. if fence_holds p db i then publish_item now p e i else i) db1) = Inr db'"
proof -
  have fence: "\<exists>i\<in>set (q_items db). fence_holds p db i" by (rule leased_fence [OF assms(2,3,4)])
  then have "find_item (pb_item p) db \<noteq> None" by (auto simp: find_item_def find_None_iff fence_holds_def)
  then obtain e db1 where rec: "publish_records now p db = Inr (e, db1)" using publish_records_total assms(5) by blast
  then show ?thesis using publish_outcome [OF assms(1) rec] unfolding if_P [OF fence] by blast
qed

section \<open>Claiming\<close>

text \<open>C4: what a claim hands out can be published. It returns at most the number of items asked for, each once;
  and every one of them is leased so that a valid publication of that worker under the fence
  returned with it, made next, is accepted.\<close>

theorem claims_publishable:
  assumes "reachable db" "claim_many now worker sources limit affinity db = Done (ws, db')" "w \<in> set ws"
    "pb_item p = cw_item w" "pb_worker p = worker" "pb_fence p = cw_fence w" "publishable p"
  shows "distinct (map cw_item ws) \<and> int (length ws) \<le> limit \<and> (\<exists>db''. publish later p db' = Inr (True, db''))"
proof -
  have locked: "claim_many_locked now worker sources (nat limit) affinity db = Inr (ws, db')" "1 \<le> limit"
    using assms(2,3) by (auto simp: claim_many_def to_call_def split: if_splits sum.splits)
  note ok = reachable_ok [OF assms(1)]
  have leased: "leased db' worker w" by (rule claim_many_leased [OF ok locked(1) assms(3)])
  have ok': "queue_ok db'" using claim_many_locked_ok [OF ok, of now worker sources "nat limit" affinity] locked(1) by auto
  have "\<exists>db''. publish later p db' = Inr (True, db'')"
    using publish_leased [OF ok' _ assms(4) _ assms(7)] leased assms(5,6) by blast
  moreover have "distinct (map cw_item ws)" "length ws \<le> nat limit"
    using claim_many_distinct [OF ok locked(1)] by simp_all
  moreover have "int (length ws) \<le> limit" using calculation(3) locked(2) by linarith
  ultimately show ?thesis by blast
qed

theorem claims_publishable_witness:
  "\<exists>ws d d'. claim_many 10 ''w1'' [''osiptel''] 2 None sample_queue = Done (ws, d) \<and> map cw_item ws = [2, 3]
     \<and> publish 20 (sample_publication 2) d = Inr (True, d')"
proof -
  have "\<exists>(ws :: claim_row list) d. claim_many 10 ''w1'' [''osiptel''] 2 None sample_queue = Done (ws, d)
      \<and> map cw_item ws = [2, 3] \<and> map cw_fence ws = [0, 0]"
  proof -
    have "(case claim_many 10 ''w1'' [''osiptel''] 2 None sample_queue of
        Done (ws, d) \<Rightarrow> map cw_item ws = [2, 3] \<and> map cw_fence ws = [0, 0] | _ \<Rightarrow> False)" by code_simp
    then show ?thesis by (auto split: call_result.splits)
  qed
  then obtain ws :: "claim_row list" and d where c: "claim_many 10 ''w1'' [''osiptel''] 2 None sample_queue = Done (ws, d)" "map cw_item ws = [2, 3]"
    "map cw_fence ws = [0, 0]" by (elim exE conjE) (rule that)
  then obtain w :: claim_row where w: "w \<in> set ws" "cw_item w = 2" "cw_fence w = 0" by (cases ws) auto
  have "publishable (sample_publication 2)" by code_simp
  then obtain d' where d': "publish 20 (sample_publication 2) d = Inr (True, d')"
    using claims_publishable [OF sample_reachable c(1) w(1), of "sample_publication 2" 20] w(2,3)
    by (auto simp: sample_publication_def)
  show ?thesis by (intro exI [of _ ws] exI [of _ d] exI [of _ d'] conjI) (rule c d')+
qed

section \<open>The race of two last publications\<close>

text \<open>
  Two transactions that read the same committed database and write different rows: neither sees
  what the other wrote (read committed isolation, no lock in common), and both sets of rows are
  committed. Only the job and item rows are followed here.
\<close>

definition merge_rows :: "'a list \<Rightarrow> 'a list \<Rightarrow> 'a list \<Rightarrow> 'a list" where
  "merge_rows rows xs ys = map2 (\<lambda>r (x, y). if x \<noteq> r then x else y) rows (zip xs ys)"

definition overlapped :: "queue_db \<Rightarrow> queue_db \<Rightarrow> queue_db \<Rightarrow> queue_db" where
  "overlapped db d1 d2 =
     db\<lparr>q_jobs := merge_rows (q_jobs db) (q_jobs d1) (q_jobs d2),
        q_items := merge_rows (q_items db) (q_items d1) (q_items d2)\<rparr>"

text \<open>A running job without unfinished items.\<close>

definition stuck :: "uuid \<Rightarrow> queue_db \<Rightarrow> bool" where
  "stuck jid db \<longleftrightarrow>
     ids_ok db \<and> job_running jid db \<and> \<not> has_unfinished jid db"

lemma job_running_iff: "job_running jid db \<longleftrightarrow> (\<exists>j\<in>set (q_jobs db). jb_id j = jid \<and> jb_state j = JRunning)"
  by (auto simp: job_running_def list_ex_iff)

lemma stuck_rows: "same_rows db db' \<Longrightarrow> stuck jid db \<Longrightarrow> stuck jid db'"
  using same_rows_ids by (auto simp: stuck_def same_rows_def job_running_def has_unfinished_def)

lemma stuck_map_jobs:
  assumes "stuck jid db" "\<And>j. jb_id (f j) = jb_id j \<and> jb_seq (f j) = jb_seq j"
    "\<And>j. jb_id j = jid \<Longrightarrow> jb_state j = JRunning \<Longrightarrow> jb_state (f j) = JRunning"
  shows "stuck jid (map_jobs f db)"
proof -
  have "ids_ok (map_jobs f db)" using assms(1,2) by (intro ids_map_jobs) (auto simp: stuck_def)
  moreover have "job_running jid (map_jobs f db)"
    using assms by (fastforce simp: stuck_def job_running_iff)
  ultimately show ?thesis using assms(1) by (simp add: stuck_def)
qed

lemma stuck_map_items:
  assumes "stuck jid db" "\<And>i. it_id (f i) = it_id i \<and> it_job (f i) = it_job i"
    "\<And>i. i \<in> set (q_items db) \<Longrightarrow> it_job i = jid \<Longrightarrow> \<not> unfinished i \<Longrightarrow> \<not> unfinished (f i)"
  shows "stuck jid (map_items f db)"
proof -
  have "ids_ok (map_items f db)" using assms(1,2) by (intro ids_map_items) (auto simp: stuck_def)
  moreover have "\<not> has_unfinished jid (map_items f db)"
    using assms by (auto simp: stuck_def has_unfinished_iff)
  ultimately show ?thesis using assms(1) by (simp add: stuck_def job_running_def)
qed

lemma stuck_item: "stuck jid db \<Longrightarrow> i \<in> set (q_items db) \<Longrightarrow> unfinished i \<Longrightarrow> it_job i \<noteq> jid"
  by (auto simp: stuck_def has_unfinished_iff)

lemma stuck_promote: "stuck jid db \<Longrightarrow> stuck jid (promote_locked now db)"
  by (rule stuck_rows [OF promote_locked_rows], rule stuck_map_jobs) (simp_all add: start_job_def)

lemma stuck_finish:
  assumes "stuck jid db" "finish_if_drained now jid' db = Inr db'" "jid' \<noteq> jid"
  shows "stuck jid db'"
  using assms(2)
proof (cases rule: finish_cases)
  case idle
  then show ?thesis using assms(1) by simp
next
  case (closed f)
  have "stuck jid (map_jobs f db)"
    by (rule stuck_map_jobs [OF assms(1)]) (use assms(3) in \<open>simp_all add: closed(3)\<close>)
  then show ?thesis unfolding closed(2) by (intro stuck_promote stuck_rows [OF same_rows_intents])
qed

lemma stuck_finish_all: "stuck jid db \<Longrightarrow> finish_all now jids db = Inr db' \<Longrightarrow> jid \<notin> set jids \<Longrightarrow> stuck jid db'"
proof (induction jids arbitrary: db)
  case (Cons x xs)
  then obtain d where d: "finish_if_drained now x db = Inr d" "finish_all now xs d = Inr db'" by (auto simp: bind_res_Inr_iff)
  then show ?case using Cons.IH [OF stuck_finish [OF Cons.prems(1) d(1)] d(2)] Cons.prems(3) by auto
qed simp

lemma stuck_sweep:
  assumes "stuck jid db" "sweep_expired now db = Inr db'"
  shows "stuck jid db'"
proof -
  have none: "it_job i \<noteq> jid" if "i \<in> set (q_items db)" "is_expired now i" for i
    using stuck_item [OF assms(1) that(1)] that(2) by (simp add: is_expired_def unfinished_def)
  have "stuck jid (map_items (\<lambda>i. if is_expired now i \<and> job_running (it_job i) db then recover_item now i else i) db)"
    by (rule stuck_map_items [OF assms(1)]) (use none in \<open>auto simp: recover_item_def\<close>)
  moreover have "jid \<notin> set (swept_jobs now db)" using none by (auto simp: swept_jobs_def)
  ultimately show ?thesis using assms(2) stuck_finish_all unfolding sweep_expired_def by blast
qed

lemma stuck_lease:
  assumes "stuck jid db" "\<And>c. c \<in> set cs \<Longrightarrow> candidate_ok db c"
  shows "stuck jid (snd (lease_candidates now worker cs db))"
proof -
  have ids: "ids_ok db" using assms(1) by (simp add: stuck_def)
  let ?fences = "map (\<lambda>(j, i). (it_id i, jb_fence j)) cs"
  let ?f = "\<lambda>i. case map_of ?fences (it_id i) of None \<Rightarrow> i | Some fence \<Rightarrow> lease_item now worker fence i"
  have "stuck jid (map_items ?f db)"
  proof (rule stuck_map_items [OF assms(1)])
    show "it_id (?f i) = it_id i \<and> it_job (?f i) = it_job i" for i by (simp add: lease_item_def split: option.split)
    fix i
    assume i: "i \<in> set (q_items db)" "it_job i = jid" "\<not> unfinished i"
    have "map_of ?fences (it_id i) = None"
    proof (rule ccontr)
      assume "map_of ?fences (it_id i) \<noteq> None"
      then obtain j k where c: "(j, k) \<in> set cs" "it_id k = it_id i" using map_of_SomeD by fastforce
      then have ok: "candidate_ok db (j, k)" using assms(2) by blast
      then have "k = i" using item_unique [OF ids] c(2) i(1) by (auto simp: candidate_ok_def)
      then show False using ok i(3) by (simp add: candidate_ok_def unfinished_def)
    qed
    then show "\<not> unfinished (?f i)" using i(3) by simp
  qed
  then show ?thesis by (simp add: lease_candidates_def Let_def)
qed

lemma stuck_claim_many:
  assumes "stuck jid db" "claim_many_locked now worker sources limit affinity db = Inr (ws, db')"
  shows "stuck jid db'"
proof -
  obtain d where d: "sweep_expired now db = Inr d" "stuck jid d"
    using assms stuck_sweep by (auto simp: claim_many_locked_def bind_res_Inr_iff)
  let ?first = "case affinity of None \<Rightarrow> ([], d)
     | Some (source, version) \<Rightarrow> lease_candidates now worker (take limit (candidates_affinity now source version d)) d"
  have s1: "stuck jid (snd ?first)"
  proof (cases affinity)
    case (Some a)
    obtain source version where a: "a = (source, version)" by fastforce
    have "candidate_ok d c" if "c \<in> set (take limit (candidates_affinity now source version d))" for c
      using in_set_takeD [OF that] by (rule affinity_ok)
    from stuck_lease [OF d(2) this] show ?thesis by (simp add: Some a)
  qed (simp add: d(2))
  obtain rows d1 where first: "?first = (rows, d1)" by fastforce
  then have s1': "stuck jid d1" using s1 by simp
  have "db' = snd (if length rows < limit
      then lease_candidates now worker (candidates_any now sources (limit - length rows) d1) d1 else ([], d1))"
    using assms(2) first unfolding claim_many_locked_def d(1) bind_res_simps Let_def
    by (simp add: case_prod_unfold split: if_splits)
  then show ?thesis using s1' stuck_lease [OF s1' any_ok] by (auto split: if_splits)
qed

lemma stuck_claim:
  assumes "stuck jid db" "claim_locked now worker sources affinity db = Inr (w, db')"
  shows "stuck jid db'"
proof -
  obtain d where d: "sweep_expired now db = Inr d" "stuck jid d"
    using assms stuck_sweep by (auto simp: claim_locked_def bind_res_Inr_iff)
  let ?first = "case affinity of None \<Rightarrow> []
     | Some (source, version) \<Rightarrow> take 1 (candidates_affinity now source version d)"
  let ?cs = "if ?first \<noteq> [] then ?first else candidates_any now sources 1 d"
  have "candidate_ok d c" if "c \<in> set ?cs" for c
    using that affinity_ok [of c _ _ _ d] any_ok [of c _ _ _ d]
    by (auto split: option.splits if_splits dest!: in_set_takeD)
  then have "stuck jid (snd (lease_candidates now worker ?cs d))" by (rule stuck_lease [OF d(2)])
  then show ?thesis using assms(2) d(1) by (simp add: claim_locked_def Let_def case_prod_unfold)
qed

lemma stuck_publish:
  assumes "stuck jid db" "publish now p db = Inr (b, db')"
  shows "stuck jid db'"
proof -
  obtain e d where rec: "publish_records now p db = Inr (e, d)"
    using assms(2) by (auto simp: publish_unfold bind_res_Inr_iff)
  have d: "stuck jid d" by (rule stuck_rows [OF publish_records_rows [OF rec] assms(1)])
  let ?f = "\<lambda>i. if fence_holds p d i then publish_item now p e i else i"
  have f: "stuck jid (map_items ?f d)"
    by (rule stuck_map_items [OF d]) (auto simp: publish_item_def unfinished_def)
  show ?thesis
  proof (cases "find (fence_holds p d) (q_items d)")
    case None
    then have "publish now p db = Inr (False, map_items ?f d)" using rec by (simp add: publish_unfold publish_fenced_def)
    then show ?thesis using assms(2) f by simp
  next
    case (Some i)
    then have "i \<in> set (q_items d)" "unfinished i" by (auto simp: find_Some_iff fence_holds_def unfinished_def)
    then have "it_job i \<noteq> jid" using stuck_item [OF d] by blast
    moreover have "finish_if_drained now (it_job i) (map_items ?f d) = Inr db'"
      using assms(2) rec Some by (auto simp: publish_unfold publish_fenced_def bind_res_Inr_iff)
    ultimately show ?thesis using stuck_finish [OF f] by blast
  qed
qed

lemma stuck_cancel:
  assumes "stuck jid db" "cancel now jid' team db = Inr (r, db')" "jid' \<noteq> jid"
  shows "stuck jid db'"
proof -
  let ?h1 = "\<lambda>j. if jb_id j = jid' then j\<lparr>jb_state := JCancelling, jb_fence := jb_fence j + 1\<rparr> else j"
  let ?h2 = "\<lambda>j. if jb_id j = jid' then j\<lparr>jb_state := JCancelled, jb_finished_at := Some now\<rparr> else j"
  let ?c = "\<lambda>i. if it_job i = jid' \<and> unfinished i then i\<lparr>it_state := ICancelled, it_finished_at := Some now\<rparr> else i"
  have h1: "stuck jid (snd (add_event now jid' t None (map_jobs ?h1 db)))" for t
    by (intro stuck_rows [OF same_rows_event] stuck_map_jobs [OF assms(1)]) (use assms(3) in auto)
  have rest: "stuck jid (promote_locked now (terminal_intents now jid' JCancelled (map_jobs ?h2 (map_items ?c d))))"
    if "stuck jid d" for d
    by (intro stuck_promote stuck_rows [OF same_rows_intents] stuck_map_jobs stuck_map_items [OF that])
      (use assms(3) in \<open>auto simp: unfinished_def\<close>)
  consider "db' = db" | d where "stuck jid d"
      "db' = promote_locked now (terminal_intents now jid' JCancelled (map_jobs ?h2 (map_items ?c d)))"
    using assms(1,2) h1 unfolding cancel_def Let_def
    by (auto simp: bind_res_Inr_iff split: option.splits if_splits)
  then show ?thesis using assms(1) rest by cases auto
qed

lemma stuck_insert:
  assumes "stuck jid db" "makes_items jid' mk" "jid' \<in> jb_id ` set (q_jobs db)" "jid' \<noteq> jid"
  shows "stuck jid (insert_items mk xs db)"
proof -
  have "\<not> has_unfinished jid (insert_items mk xs db)"
    using assms(1,2,4) by (auto simp: stuck_def has_unfinished_iff makes_items_def)
  then show ?thesis using assms insert_items_ids [OF _ assms(2,3)] by (simp add: stuck_def job_running_def)
qed

lemma stuck_admit:
  assumes "stuck jid db" "admit_submission now cmd plan reusable db = Inr (j, db')"
  shows "stuck jid db'"
proof -
  have limit: "q_max_active db = MAX_ACTIVE_JOBS"
    using assms(2) by (auto simp: admit_submission_def lock_queue_gate_def Let_def split: if_splits)
  then have rows: "same_rows (admitted_items now cmd plan reusable db) db'"
    using admit_rows [OF limit, of now cmd plan reusable] assms(2) by auto
  let ?j = "admitted_job now cmd plan reusable db"
  have j: "jb_id ?j = q_next_id db" "jb_seq ?j = q_next_seq db" by (simp_all add: admitted_job_def new_job_def)
  then have fresh: "jb_id ?j \<noteq> jid" using assms(1) by (auto simp: stuck_def ids_ok_def job_running_iff)
  have "stuck jid (add_job ?j db)"
    using assms(1) add_job_ids [OF _ j] by (auto simp: stuck_def job_running_def has_unfinished_def)
  then have "stuck jid (admitted_items now cmd plan reusable db)"
    unfolding admitted_items_def Let_def
    by (intro stuck_insert [where jid' = "jb_id ?j"]) (simp_all add: fresh)
  then show ?thesis by (rule stuck_rows [OF rows])
qed

lemma stuck_step:
  assumes "stuck jid db" "\<And>now team. op \<noteq> queue_op.Cancel now jid team"
  shows "stuck jid (queue_step op db)"
proof (cases op)
  case (Admit now cmd plan reusable)
  then show ?thesis using stuck_admit [OF assms(1)] assms(1)
    by (cases "admit_submission now cmd plan reusable db") auto
next
  case (Cancel now jid' team)
  then show ?thesis using stuck_cancel [OF assms(1), of now jid' team] assms(1) assms(2) [of now team]
    by (cases "cancel now jid' team db") auto
next
  case (Claim now worker sources affinity)
  then show ?thesis using stuck_claim [OF assms(1), of now worker sources affinity] assms(1)
    by (auto simp: claim_def to_call_def split: sum.split)
next
  case (ClaimMany now worker sources limit affinity)
  then show ?thesis using stuck_claim_many [OF assms(1), of now worker sources "nat limit" affinity] assms(1)
    by (auto simp: claim_many_def to_call_def split: sum.split)
next
  case (Publish now p)
  then show ?thesis using stuck_publish [OF assms(1)] assms(1) by (cases "publish now p db") auto
next
  case (Outside versions breakers)
  have "same_rows db (queue_step op db)" by (simp add: Outside same_rows_def)
  then show ?thesis using stuck_rows assms(1) by blast
qed

lemma stuck_run:
  "stuck jid db \<Longrightarrow> list_all (\<lambda>op. \<forall>now team. op \<noteq> queue_op.Cancel now jid team) ops \<Longrightarrow> stuck jid (run_queue ops db)"
  using stuck_step by (induction ops arbitrary: db) auto

lemma publish_item_finished [simp]: "\<not> unfinished (publish_item now p e x)"
  by (simp add: publish_item_def unfinished_def)

lemma publish_item_new: "unfinished x \<Longrightarrow> publish_item now p e x \<noteq> x"
  using publish_item_finished by metis

lemma publish_not_last:
  assumes "queue_ok db" "publish now p db = Inr (True, d)" "i \<in> set (q_items db)" "fence_holds p db i"
    "k \<in> set (q_items db)" "it_job k = it_job i" "unfinished k" "it_id k \<noteq> pb_item p"
  shows "\<exists>e. q_items d = map (\<lambda>i. if fence_holds p db i then publish_item now p e i else i) (q_items db)
    \<and> q_jobs d = q_jobs db"
proof -
  obtain e db1 where rec: "publish_records now p db = Inr (e, db1)"
    using assms(2) by (auto simp: publish_unfold bind_res_Inr_iff)
  let ?f = "\<lambda>i. if fence_holds p db i then publish_item now p e i else i"
  have holds: "\<exists>i\<in>set (q_items db). fence_holds p db i" using assms(3,4) by blast
  obtain i' :: item and d' where i': "i' \<in> set (q_items db)" "fence_holds p db i'" "publish now p db = Inr (True, d')"
      "finish_if_drained now (it_job i') (map_items ?f db1) = Inr d'"
    using publish_outcome [OF assms(1) rec] unfolding if_P [OF holds] by blast
  have same: "i' = i"
    by (rule item_unique [OF queue_ids [OF assms(1)] i'(1) assms(3)]) (use i'(2) assms(4) in \<open>simp add: fence_holds_def\<close>)
  have rows: "q_items db1 = q_items db" "q_jobs db1 = q_jobs db"
    using publish_records_rows [OF rec] by (simp_all add: same_rows_def)
  have "?f k = k" using assms(8) by (simp add: fence_holds_def)
  then have "k \<in> set (q_items (map_items ?f db1))"
    unfolding map_items_fields set_map rows(1) by (rule image_eqI [OF sym assms(5)])
  then have "has_unfinished (it_job i) (map_items ?f db1)"
    unfolding has_unfinished_iff using assms(6,7) by (intro bexI [of _ k]) auto
  then have "d' = map_items ?f db1" using i'(4) unfolding same by (simp add: finish_if_drained_def)
  moreover have "d' = d" using i'(3) assms(2) by simp
  ultimately have "q_items d = map ?f (q_items db) \<and> q_jobs d = q_jobs db" by (simp add: rows)
  then show ?thesis by (rule exI)
qed

lemma merge_rows_same [simp]: "merge_rows xs xs xs = xs"
  by (induction xs) (simp_all add: merge_rows_def)

lemma merge_rows_map: "merge_rows xs (map f xs) (map g xs) = map (\<lambda>r. if f r \<noteq> r then f r else g r) xs"
  by (induction xs) (simp_all add: merge_rows_def)

text \<open>Two publications of the last two items of a job, run at the same time, strand the job.
  Each transaction still sees the other's item running and leaves the job open; once both are
  committed the job runs without unfinished items, and no later transaction, short of its
  cancellation, ever closes it: it holds one of the five slots for good.\<close>

theorem publish_race_strands:
  assumes "reachable db" "i \<in> set (q_items db)" "k \<in> set (q_items db)" "it_job i = jid" "it_job k = jid"
    "it_id i \<noteq> it_id k" "\<And>x. x \<in> set (q_items db) \<Longrightarrow> it_job x = jid \<Longrightarrow> unfinished x \<Longrightarrow> x = i \<or> x = k"
    "fence_holds p db i" "publish now p db = Inr (True, d1)" "fence_holds r db k" "publish now r db = Inr (True, d2)"
    "list_all (\<lambda>op. \<forall>now team. op \<noteq> queue_op.Cancel now jid team) ops"
  shows "job_running jid (run_queue ops (overlapped db d1 d2))
    \<and> \<not> has_unfinished jid (run_queue ops (overlapped db d1 d2))"
proof -
  note ok = reachable_ok [OF assms(1)]
  have ids: "pb_item p = it_id i" "pb_item r = it_id k" and open_items: "unfinished i" "unfinished k"
    using assms(8,10) by (simp_all add: fence_holds_def unfinished_def)
  obtain e1 where d1: "q_items d1 = map (\<lambda>i. if fence_holds p db i then publish_item now p e1 i else i) (q_items db)"
      "q_jobs d1 = q_jobs db"
    using publish_not_last [OF ok assms(9,2,8,3)] assms(4-6) ids open_items by auto
  obtain e2 where d2: "q_items d2 = map (\<lambda>i. if fence_holds r db i then publish_item now r e2 i else i) (q_items db)"
      "q_jobs d2 = q_jobs db"
    using publish_not_last [OF ok assms(11,3,10,2)] assms(4-6) ids open_items by auto
  let ?f = "\<lambda>i. if fence_holds p db i then publish_item now p e1 i else i"
  let ?g = "\<lambda>i. if fence_holds r db i then publish_item now r e2 i else i"
  let ?h = "\<lambda>i. if ?f i \<noteq> i then ?f i else ?g i"
  have over: "overlapped db d1 d2 = map_items ?h db"
    unfolding overlapped_def d1 d2 merge_rows_map merge_rows_same by (simp add: map_items_def)
  have h: "it_id (?h x) = it_id x \<and> it_job (?h x) = it_job x" for x by (simp add: publish_item_def)
  have finished: "\<not> unfinished (?h x)" if x: "x \<in> set (q_items db)" "it_job x = jid" for x
  proof (cases "unfinished x")
    case True
    then consider "x = i" | "x = k" using assms(7) x by blast
    then show ?thesis
    proof cases
      case 1
      then have "?h x = publish_item now p e1 x" using assms(8) publish_item_new [OF True] by simp
      then show ?thesis by simp
    next
      case 2
      then have "?g x = publish_item now r e2 x" using assms(10) by simp
      moreover have "?f x = x \<or> ?f x = publish_item now p e1 x" by simp
      ultimately show ?thesis by auto
    qed
  next
    case False
    then show ?thesis by simp
  qed
  have "job_running jid db" using assms(4,8) by (auto simp: fence_holds_def job_running_def list_ex_iff)
  moreover have "ids_ok (map_items ?h db)" by (rule ids_map_items [OF queue_ids [OF ok]]) (simp_all only: h)
  moreover have "\<not> has_unfinished jid (map_items ?h db)"
  proof
    assume "has_unfinished jid (map_items ?h db)"
    then obtain x where "x \<in> set (q_items db)" "it_job (?h x) = jid" "unfinished (?h x)"
      unfolding has_unfinished_iff map_items_fields set_map by blast
    then show False using finished [of x] unfolding h [THEN conjunct2] by blast
  qed
  ultimately have "stuck jid (overlapped db d1 d2)" unfolding stuck_def over job_running_def by simp
  from stuck_run [OF this assms(12)] show ?thesis by (simp add: stuck_def)
qed

definition sample_published :: "uuid \<Rightarrow> queue_db" where
  "sample_published iid =
     (case publish 20 (sample_publication iid) sample_lease of Inr (True, d) \<Rightarrow> d | _ \<Rightarrow> sample_lease)"

lemma sample_published: 
  "publish 20 (sample_publication 2) sample_lease = Inr (True, sample_published 2)"
  "publish 20 (sample_publication 3) sample_lease = Inr (True, sample_published 3)"
proof -
  have "case publish 20 (sample_publication 2) sample_lease of Inr (True, d) \<Rightarrow> True | _ \<Rightarrow> False" by code_simp
  then show "publish 20 (sample_publication 2) sample_lease = Inr (True, sample_published 2)"
    by (auto simp: sample_published_def split: sum.splits bool.splits)
  have "case publish 20 (sample_publication 3) sample_lease of Inr (True, d) \<Rightarrow> True | _ \<Rightarrow> False" by code_simp
  then show "publish 20 (sample_publication 3) sample_lease = Inr (True, sample_published 3)"
    by (auto simp: sample_published_def split: sum.splits bool.splits)
qed

theorem publish_race_strands_witness:
  "job_running 1 (run_queue [ClaimMany 400 ''w1'' [''osiptel''] 2 None] (overlapped sample_lease (sample_published 2) (sample_published 3)))"
proof -
  have ids: "map it_id (q_items sample_lease) = [2, 3]" and jobs: "map it_job (q_items sample_lease) = [1, 1]"
    by code_simp+
  obtain i k :: item where items: "q_items sample_lease = [i, k]" "it_id i = 2" "it_id k = 3"
    using ids by (auto simp: map_eq_Cons_conv)
  have holds: "list_ex (fence_holds (sample_publication 2) sample_lease) (q_items sample_lease)"
    "list_ex (fence_holds (sample_publication 3) sample_lease) (q_items sample_lease)"
    by code_simp+
  have pb: "pb_item (sample_publication n) = n" for n by (simp add: sample_publication_def)
  have "\<not> fence_holds (sample_publication 2) sample_lease k" "\<not> fence_holds (sample_publication 3) sample_lease i"
    using items by (simp_all add: fence_holds_def pb)
  then have fences: "fence_holds (sample_publication 2) sample_lease i" "fence_holds (sample_publication 3) sample_lease k"
    using holds by (simp_all add: items)
  show ?thesis
    using publish_race_strands [of sample_lease i k 1, OF sample_lease_reachable _ _ _ _ _ _ fences(1) sample_published(1) fences(2) sample_published(2),
        of "[ClaimMany 400 ''w1'' [''osiptel''] 2 None]"] items jobs by simp
qed

end
