(* ===== verification/QueueFifo.thy ===== *)
theory QueueFifo
  imports QueueProps
begin

text \<open>
  The job queue as a refinement of a first-come-first-served queue: the abstract state is the list of
  open jobs in order of arrival, of which the first five run.
\<close>

section \<open>First come, first served\<close>

definition is_open :: "job \<Rightarrow> bool" where
  "is_open j \<longleftrightarrow> jb_state j \<in> {JQueued, JRunning}"

text \<open>The abstract queue: the open jobs in order of arrival.\<close>

definition open_jobs :: "queue_db \<Rightarrow> job list" where
  "open_jobs db = sort_key jb_seq (filter is_open (q_jobs db))"

text \<open>Every running job arrived before every waiting one.\<close>

definition fifo_ok :: "queue_db \<Rightarrow> bool" where
  "fifo_ok db \<longleftrightarrow>
     (\<forall>j\<in>set (q_jobs db). \<forall>k\<in>set (q_jobs db). jb_state j = JRunning \<longrightarrow> jb_state k = JQueued \<longrightarrow> jb_seq j < jb_seq k)"

text \<open>The changes a transaction other than an admission is made of.\<close>

inductive micro :: "queue_db \<Rightarrow> queue_db \<Rightarrow> bool" where
  rows: "same_rows db db' \<Longrightarrow> micro db db'"
| items: "(\<And>i. it_id (f i) = it_id i \<and> it_job (f i) = it_job i) \<Longrightarrow> micro db (map_items f db)"
| close: "(\<And>j. jb_id (f j) = jb_id j \<and> jb_seq (f j) = jb_seq j) \<Longrightarrow> (\<And>j. j \<in> set (q_jobs db) \<Longrightarrow> f j = j \<or> is_closed (f j))
    \<Longrightarrow> micro db (map_jobs f db)"
| promote: "micro db (promote_locked now db)"

abbreviation micros :: "queue_db \<Rightarrow> queue_db \<Rightarrow> bool" where
  "micros \<equiv> rtranclp micro"

lemma micros_trans: "micros a b \<Longrightarrow> micros b c \<Longrightarrow> micros a c"
  by (rule rtranclp_trans)

lemma micros_rows: "same_rows db db' \<Longrightarrow> micros db db'"
  by (intro r_into_rtranclp micro.rows)

lemma finish_micros: "finish_if_drained now jid db = Inr db' \<Longrightarrow> micros db db'"
proof (erule finish_cases)
  fix f
  assume db': "db' = promote_locked now (terminal_intents now jid (drained_state jid db) (map_jobs f db))"
    and f: "f = (\<lambda>j. if jb_id j = jid \<and> jb_state j = JRunning
        then j\<lparr>jb_state := drained_state jid db,
               jb_reason := (if drained_state jid db = JCompleted then jb_reason j else Some ''no_results''),
               jb_finished_at := Some now\<rparr> else j)"
  have "micro db (map_jobs f db)" by (rule micro.close) (auto simp: f is_closed_def drained_state_def)
  then show "micros db db'"
    unfolding db' using micro.promote micro.rows [OF same_rows_intents]
    by (meson converse_rtranclp_into_rtranclp r_into_rtranclp)
qed simp

lemma finish_all_micros: "finish_all now jids db = Inr db' \<Longrightarrow> micros db db'"
  by (induction jids arbitrary: db) (auto simp: bind_res_Inr_iff dest!: finish_micros intro: micros_trans)

lemma sweep_micros:
  assumes "sweep_expired now db = Inr db'"
  shows "micros db db'"
proof -
  have "micro db (map_items (\<lambda>i. if is_expired now i \<and> job_running (it_job i) db then recover_item now i else i) db)"
    by (rule micro.items) (simp add: recover_item_def)
  then show ?thesis using finish_all_micros assms unfolding sweep_expired_def
    by (meson converse_rtranclp_into_rtranclp)
qed

lemma lease_micros: "micros db (snd (lease_candidates now worker cs db))"
proof -
  have "micro db (map_items (\<lambda>i. case map_of (map (\<lambda>(j, i). (it_id i, jb_fence j)) cs) (it_id i) of None \<Rightarrow> i
      | Some fence \<Rightarrow> lease_item now worker fence i) db)"
    by (rule micro.items) (simp add: lease_item_def split: option.split)
  then show ?thesis by (simp add: lease_candidates_def Let_def)
qed

lemma publish_micros:
  assumes "queue_ok db" "publish now p db = Inr (b, db')"
  shows "micros db db'"
proof -
  obtain e db1 where rec: "publish_records now p db = Inr (e, db1)"
    using assms(2) by (auto simp: publish_unfold bind_res_Inr_iff)
  have one: "micros db db1" by (rule micros_rows [OF publish_records_rows [OF rec]])
  show ?thesis
  proof (cases "\<exists>i\<in>set (q_items db). fence_holds p db i")
    case False
    then show ?thesis using publish_outcome [OF assms(1) rec] assms(2) one by auto
  next
    case True
    then obtain i :: item and d where d: "publish now p db = Inr (True, d)"
        "finish_if_drained now (it_job i) (map_items (\<lambda>i. if fence_holds p db i then publish_item now p e i else i) db1) = Inr d"
      using publish_outcome [OF assms(1) rec] unfolding if_P [OF True] by blast
    have "micro db1 (map_items (\<lambda>i. if fence_holds p db i then publish_item now p e i else i) db1)"
      by (rule micro.items) (simp add: publish_item_def)
    then show ?thesis using one finish_micros [OF d(2)] d(1) assms(2)
      by (auto intro: micros_trans)
  qed
qed

lemma cancel_micros:
  assumes "queue_ok db" "cancel now jid team db = Inr (r, db')"
  shows "micros db db'"
proof (cases "find (\<lambda>j. jb_id j = jid \<and> jb_team j = team) (q_jobs db)")
  case None
  then show ?thesis using assms by (simp add: cancel_def lock_queue_gate_def queue_ok_def gate_bound_def)
next
  case (Some j)
  show ?thesis
  proof (cases "jb_state j \<in> {JQueued, JRunning, JCancelling}")
    case False
    then show ?thesis using assms Some by (simp add: cancel_def lock_queue_gate_def queue_ok_def gate_bound_def)
  next
    case True
    let ?items = "map_items (cancelled_item now jid) db"
    obtain db1 where db1: "same_rows (map_jobs (cancelled_job now jid) ?items) db1"
      "db' = promote_locked now (terminal_intents now jid JCancelled db1)"
      using cancel_rows [OF assms(1) Some True, of now] assms(2) by auto
    have "micro db ?items" by (rule micro.items) simp
    moreover have "micro ?items (map_jobs (cancelled_job now jid) ?items)"
      by (rule micro.close) (auto simp: cancelled_job_def is_closed_def)
    moreover note micros_rows [OF db1(1)] micros_rows [OF same_rows_intents] micro.promote
    ultimately show ?thesis unfolding db1(2)
      by (meson converse_rtranclp_into_rtranclp micros_trans r_into_rtranclp)
  qed
qed

lemma claim_many_micros:
  assumes "queue_ok db" "claim_many_locked now worker sources limit affinity db = Inr (ws, db')"
  shows "micros db db'"
proof -
  from claim_many_split [OF assms] obtain db1 cs1 cs2 where c: "sweep_expired now db = Inr db1"
      "db' = snd (lease_candidates now worker cs2 (snd (lease_candidates now worker cs1 db1)))" by metis
  then show ?thesis using sweep_micros lease_micros micros_trans by metis
qed

lemma claim_micros:
  assumes "queue_ok db" "claim_locked now worker sources affinity db = Inr (w, db')"
  shows "micros db db'"
proof -
  from claim_split [OF assms] obtain db1 cs where c: "sweep_expired now db = Inr db1"
      "db' = snd (lease_candidates now worker cs db1)" by metis
  then show ?thesis using sweep_micros lease_micros micros_trans by metis
qed

lemma step_micros:
  assumes "queue_ok db" "\<And>now cmd plan reusable. op \<noteq> Admit now cmd plan reusable"
  shows "micros db (queue_step op db)"
proof (cases op)
  case (Admit now cmd plan reusable)
  then show ?thesis using assms(2) by blast
next
  case (Cancel now jid team)
  then show ?thesis using cancel_micros [OF assms(1)] by (cases "cancel now jid team db") auto
next
  case (Claim now worker sources affinity)
  show ?thesis unfolding Claim
    using assms(1) by (cases rule: claim_cases [where now = now and worker = worker and sources = sources and affinity = affinity])
      (use claim_micros [OF assms(1)] in auto)
next
  case (ClaimMany now worker sources limit affinity)
  show ?thesis unfolding ClaimMany
    using assms(1) by (cases rule: claim_many_cases [where now = now and worker = worker and sources = sources and limit = limit and affinity = affinity])
      (use claim_many_micros [OF assms(1)] in auto)
next
  case (Publish now p)
  then show ?thesis using publish_micros [OF assms(1)] by (cases "publish now p db") auto
next
  case (Outside versions breakers)
  have "same_rows db (queue_step op db)" by (simp add: Outside same_rows_def)
  then show ?thesis by (rule micros_rows)
qed

lemma insort_key_map_same:
  "k (f x) = k x \<Longrightarrow> (\<And>y. y \<in> set ys \<Longrightarrow> k (f y) = k y) \<Longrightarrow> insort_key k (f x) (map f ys) = map f (insort_key k x ys)"
  by (induction ys) auto

lemma sort_key_map_same: "(\<And>x. x \<in> set xs \<Longrightarrow> k (f x) = k x) \<Longrightarrow> sort_key k (map f xs) = map f (sort_key k xs)"
  by (induction xs) (auto intro!: insort_key_map_same)

lemma seq_unique:
  "ids_ok db \<Longrightarrow> j \<in> set (q_jobs db) \<Longrightarrow> k \<in> set (q_jobs db) \<Longrightarrow> jb_seq j = jb_seq k \<Longrightarrow> j = k"
  by (auto simp: ids_ok_def distinct_map inj_on_def)

text \<open>Closing jobs removes them from the abstract queue and changes nothing else there.\<close>

definition narrows :: "queue_db \<Rightarrow> queue_db \<Rightarrow> bool" where
  "narrows db db' \<longleftrightarrow> (\<exists>D. map jb_id (open_jobs db') = filter (\<lambda>x. x \<notin> D) (map jb_id (open_jobs db)))"

lemma narrows_same: "map jb_id (open_jobs db') = map jb_id (open_jobs db) \<Longrightarrow> narrows db db'"
  unfolding narrows_def by (rule exI [of _ "{}"]) simp

lemma narrows_trans:
  assumes "narrows a b" "narrows b c"
  shows "narrows a c"
proof -
  obtain D E where "map jb_id (open_jobs b) = filter (\<lambda>x. x \<notin> D) (map jb_id (open_jobs a))"
    "map jb_id (open_jobs c) = filter (\<lambda>x. x \<notin> E) (map jb_id (open_jobs b))"
    using assms unfolding narrows_def by blast
  then have "map jb_id (open_jobs c) = filter (\<lambda>x. x \<notin> D \<union> E) (map jb_id (open_jobs a))" by simp
  then show ?thesis unfolding narrows_def by blast
qed

lemma open_map_jobs:
  assumes "\<And>j. jb_id (f j) = jb_id j \<and> jb_seq (f j) = jb_seq j"
    "\<And>j. j \<in> set (q_jobs db) \<Longrightarrow> is_open (f j) \<Longrightarrow> is_open j"
    "ids_ok db"
  shows "map jb_id (open_jobs (map_jobs f db))
    = filter (\<lambda>x. x \<notin> {jb_id j |j. j \<in> set (q_jobs db) \<and> \<not> is_open (f j)}) (map jb_id (open_jobs db))"
proof -
  let ?D = "{jb_id j |j. j \<in> set (q_jobs db) \<and> \<not> is_open (f j)}"
  have keep: "jb_id j \<notin> ?D \<longleftrightarrow> is_open (f j)" if "j \<in> set (q_jobs db)" for j
    using job_unique [OF assms(3) that] that by auto
  have "open_jobs (map_jobs f db) = map f (sort_key jb_seq (filter (\<lambda>j. is_open (f j)) (q_jobs db)))"
    unfolding open_jobs_def map_jobs_fields filter_map comp_def
    by (rule sort_key_map_same) (simp add: assms(1))
  then have "map jb_id (open_jobs (map_jobs f db)) = map jb_id (sort_key jb_seq (filter (\<lambda>j. is_open (f j)) (q_jobs db)))"
    by (simp add: assms(1))
  also have "filter (\<lambda>j. is_open (f j)) (q_jobs db) = filter (\<lambda>j. jb_id j \<notin> ?D) (filter is_open (q_jobs db))"
    unfolding filter_filter using assms(2) keep by (intro filter_cong refl) blast
  also have "sort_key jb_seq \<dots> = filter (\<lambda>j. jb_id j \<notin> ?D) (open_jobs db)"
    by (simp add: open_jobs_def filter_sort)
  finally show ?thesis by (simp add: filter_map comp_def)
qed

lemma start_narrows:
  assumes "ids_ok db"
  shows "map jb_id (open_jobs (promote_locked now db)) = map jb_id (open_jobs db)"
proof -
  let ?s = "start_job now (jb_id ` set (promoted db))"
  have same: "is_open (?s j) = is_open j" if "j \<in> set (q_jobs db)" for j
    using promoted_mem [OF assms that] promoted_queued [of j db] by (auto simp: start_job_def is_open_def)
  have "map jb_id (open_jobs (map_jobs ?s db))
    = filter (\<lambda>x. x \<notin> {jb_id j |j. j \<in> set (q_jobs db) \<and> \<not> is_open (?s j)}) (map jb_id (open_jobs db))"
    by (rule open_map_jobs) (use assms same in auto)
  also have "\<dots> = map jb_id (open_jobs db)"
  proof (rule filter_True)
    show "\<forall>x\<in>set (map jb_id (open_jobs db)). x \<notin> {jb_id j |j. j \<in> set (q_jobs db) \<and> \<not> is_open (?s j)}"
    proof
      fix x
      assume "x \<in> set (map jb_id (open_jobs db))"
      then obtain j where "j \<in> set (q_jobs db)" "is_open j" "x = jb_id j" by (auto simp: open_jobs_def)
      then show "x \<notin> {jb_id j |j. j \<in> set (q_jobs db) \<and> \<not> is_open (?s j)}"
        using same job_unique [OF assms] by blast
    qed
  qed
  finally show ?thesis using promote_locked_rows [of now db] by (simp add: same_rows_def open_jobs_def)
qed

lemma start_fifo:
  assumes "ids_ok db" "fifo_ok db"
  shows "fifo_ok (promote_locked now db)"
proof -
  let ?s = "start_job now (jb_id ` set (promoted db))"
  have "fifo_ok (map_jobs ?s db)"
    unfolding fifo_ok_def
  proof (intro ballI impI)
    fix a b
    assume "a \<in> set (q_jobs (map_jobs ?s db))" "b \<in> set (q_jobs (map_jobs ?s db))" and st: "jb_state a = JRunning" "jb_state b = JQueued"
    then obtain j k where jk: "j \<in> set (q_jobs db)" "a = ?s j" "k \<in> set (q_jobs db)" "b = ?s k" by auto
    have k: "k \<notin> set (promoted db)" "jb_state k = JQueued"
      using st(2) jk(4) promoted_mem [OF assms(1) jk(3)] by (auto simp: start_job_def split: if_splits)
    show "jb_seq a < jb_seq b"
    proof (cases "j \<in> set (promoted db)")
      case False
      then have "jb_state j = JRunning" using st(1) jk(2) promoted_mem [OF assms(1) jk(1)] by (simp add: start_job_def)
      then show ?thesis using assms(2) jk k(2) by (simp add: fifo_ok_def)
    next
      case True
      let ?n = "MAX_ACTIVE_JOBS - active_count db"
      have "k \<in> set (queued_jobs db)" using jk(3) k(2) by (simp add: queued_jobs_set)
      then have "k \<in> set (drop ?n (queued_jobs db))"
        using k(1) by (metis Un_iff append_take_drop_id promoted_def set_append)
      moreover have "sorted (map jb_seq (take ?n (queued_jobs db) @ drop ?n (queued_jobs db)))"
        by (simp add: queued_jobs_def)
      moreover have "j \<in> set (take ?n (queued_jobs db))" using True by (simp add: promoted_def)
      ultimately have "jb_seq j \<le> jb_seq k"
        unfolding map_append sorted_append set_map by blast
      moreover have "j \<noteq> k" using True k(1) by blast
      then have "jb_seq j \<noteq> jb_seq k" using seq_unique [OF assms(1) jk(1,3)] by blast
      ultimately show ?thesis using jk by simp
    qed
  qed
  then show ?thesis using promote_locked_rows [of now db] by (simp add: same_rows_def fifo_ok_def)
qed

lemma micro_fifo:
  assumes "micro db db'" "ids_ok db" "fifo_ok db"
  shows "ids_ok db' \<and> fifo_ok db' \<and> narrows db db'"
  using assms
proof (induction rule: micro.induct)
  case (rows db db')
  then have "open_jobs db' = open_jobs db" by (simp add: same_rows_def open_jobs_def)
  then show ?case using rows same_rows_ids by (auto simp: same_rows_def fifo_ok_def intro: narrows_same)
next
  case (items f db)
  then have "open_jobs (map_items f db) = open_jobs db" by (simp add: open_jobs_def)
  then show ?case using items ids_map_items [of db f] by (auto simp: fifo_ok_def intro: narrows_same)
next
  case (close f db)
  have ids: "ids_ok (map_jobs f db)" using close by (intro ids_map_jobs) auto
  have old: "f j = j" if "j \<in> set (q_jobs db)" "jb_state (f j) \<in> {JRunning, JQueued}" for j
    using close(2) [OF that(1)] that(2) by (auto simp: is_closed_def)
  have opened: "is_open j" if "j \<in> set (q_jobs db)" "is_open (f j)" for j
  proof -
    have "f j = j" using that by (intro old) (auto simp: is_open_def)
    then show ?thesis using that(2) by simp
  qed
  have "fifo_ok (map_jobs f db)"
    using close(4) old unfolding fifo_ok_def by (fastforce)
  moreover have "narrows db (map_jobs f db)"
    unfolding narrows_def
    by (rule exI, rule open_map_jobs) (use close(1,3) opened in auto)
  ultimately show ?case using ids by blast
next
  case (promote now db)
  then show ?case using promote_ids start_fifo narrows_same [OF start_narrows] by blast
qed

lemma micros_fifo: "micros db db' \<Longrightarrow> ids_ok db \<Longrightarrow> fifo_ok db \<Longrightarrow> ids_ok db' \<and> fifo_ok db' \<and> narrows db db'"
proof (induction rule: rtranclp_induct)
  case base
  then show ?case using narrows_same by blast
next
  case (step y z)
  then show ?case using micro_fifo narrows_trans by blast
qed

lemma insort_key_snoc_max: "k y \<le> k x \<Longrightarrow> insort_key k y (zs @ [x]) = insort_key k y zs @ [x]"
  by (induction zs) auto

lemma sort_key_snoc_max: "(\<And>y. y \<in> set ys \<Longrightarrow> k y \<le> k x) \<Longrightarrow> sort_key k (ys @ [x]) = sort_key k ys @ [x]"
  by (induction ys) (simp_all add: insort_key_snoc_max)

lemma admit_open:
  assumes "queue_ok db" "fifo_ok db"
  shows "fifo_ok (queue_step (Admit now cmd plan reusable) db)
    \<and> map jb_id (open_jobs (queue_step (Admit now cmd plan reusable) db))
      = map jb_id (open_jobs db) @ (if plan_to_fetch plan reusable = [] then [] else [q_next_id db])"
proof -
  let ?j = "admitted_job now cmd plan reusable db"
  have "q_max_active db = MAX_ACTIVE_JOBS" using assms(1) by (simp add: queue_ok_def gate_bound_def)
  from admit_rows [OF this, of now cmd plan reusable] obtain d
    where d: "admit_submission now cmd plan reusable db = Inr (?j, d)" "same_rows (admitted_items now cmd plan reusable db) d" by blast
  have "q_jobs (admitted_items now cmd plan reusable db) = q_jobs db @ [?j]" by (simp add: admitted_items_def Let_def)
  then have jobs: "q_jobs d = q_jobs db @ [?j]" using d(2) by (simp add: same_rows_def)
  have j: "jb_id ?j = q_next_id db" "jb_seq ?j = q_next_seq db"
    "jb_state ?j = admission_state (plan_to_fetch plan reusable) (active_count db) MAX_ACTIVE_JOBS"
    by (simp_all add: admitted_job_def new_job_def)
  have last: "jb_seq k < jb_seq ?j" if "k \<in> set (q_jobs db)" for k
    using assms(1) that j(2) by (simp add: queue_ok_def ids_ok_def)
  have "fifo_ok d"
    unfolding fifo_ok_def jobs
  proof (intro ballI impI)
    fix a b
    assume ab: "a \<in> set (q_jobs db @ [?j])" "b \<in> set (q_jobs db @ [?j])" "jb_state a = JRunning" "jb_state b = JQueued"
    show "jb_seq a < jb_seq b"
    proof (cases "a = ?j")
      case True
      then have "active_count db < MAX_ACTIVE_JOBS" "b \<in> set (q_jobs db)"
        using ab j(3) by (auto simp: admission_state_def split: if_splits)
      then show ?thesis using assms(1) ab(4) by (fastforce simp: queue_ok_def gate_full_def)
    next
      case False
      then have "a \<in> set (q_jobs db)" using ab(1) by simp
      then show ?thesis using ab last assms(2) by (cases "b = ?j") (auto simp: fifo_ok_def)
    qed
  qed
  moreover have "map jb_id (open_jobs d) = map jb_id (open_jobs db) @ (if plan_to_fetch plan reusable = [] then [] else [q_next_id db])"
  proof (cases "is_open ?j")
    case False
    then have "plan_to_fetch plan reusable = []" using j(3) by (auto simp: admission_state_def is_open_def split: if_splits)
    then show ?thesis using False by (simp add: open_jobs_def jobs)
  next
    case True
    then have "plan_to_fetch plan reusable \<noteq> []" using j(3) by (auto simp: admission_state_def is_open_def)
    moreover have "sort_key jb_seq (filter is_open (q_jobs db) @ [?j]) = sort_key jb_seq (filter is_open (q_jobs db)) @ [?j]"
      by (rule sort_key_snoc_max) (use last in \<open>auto intro: less_imp_le\<close>)
    ultimately show ?thesis using True j(1) by (simp add: open_jobs_def jobs)
  qed
  ultimately show ?thesis using d(1) by simp
qed

lemma reachable_fifo: "reachable db \<Longrightarrow> fifo_ok db"
proof (induction rule: reachable.induct)
  case start
  show ?case by (simp add: fifo_ok_def empty_queue_def)
next
  case (step db op)
  note ok = reachable_ok [OF step(1)]
  show ?case
  proof (cases "\<exists>now cmd plan reusable. op = Admit now cmd plan reusable")
    case True
    then show ?thesis using admit_open [OF ok step(2)] by auto
  next
    case False
    then have "micros db (queue_step op db)" by (intro step_micros [OF ok]) blast
    then show ?thesis using micros_fifo queue_ids [OF ok] step(2) by blast
  qed
qed

lemma filter_split_sorted:
  assumes "sorted (map k xs)" "\<And>x y. x \<in> set xs \<Longrightarrow> y \<in> set xs \<Longrightarrow> R x \<Longrightarrow> Q y \<Longrightarrow> k x < k y"
  shows "filter (\<lambda>x. R x \<or> Q x) xs = filter R xs @ filter Q xs"
  using assms
proof (induction xs)
  case (Cons x xs)
  show ?case
  proof (cases "R x")
    case True
    then have "\<not> Q x" using Cons.prems(2) [of x x] by auto
    then show ?thesis using True Cons by simp
  next
    case False
    have "filter R xs = []" if "Q x"
    proof (rule ccontr)
      assume "filter R xs \<noteq> []"
      then obtain y where y: "y \<in> set xs" "R y" by (auto simp: filter_empty_conv)
      then have "k x \<le> k y" using Cons.prems(1) by simp
      moreover have "k y < k x" using Cons.prems(2) [of y x] y that by simp
      ultimately show False by simp
    qed
    then show ?thesis using False Cons by auto
  qed
qed simp

lemma open_split:
  assumes "fifo_ok db"
  shows "open_jobs db = running_jobs db @ queued_jobs db"
proof -
  let ?xs = "sort_key jb_seq (q_jobs db)"
  have "open_jobs db = filter (\<lambda>j. jb_state j = JRunning \<or> jb_state j = JQueued) ?xs"
    unfolding open_jobs_def filter_sort [symmetric] by (rule filter_cong) (auto simp: is_open_def)
  also have "\<dots> = filter (\<lambda>j. jb_state j = JRunning) ?xs @ filter (\<lambda>j. jb_state j = JQueued) ?xs"
    by (rule filter_split_sorted [where k = jb_seq]) (use assms in \<open>auto simp: fifo_ok_def\<close>)
  finally show ?thesis by (simp add: running_jobs_def queued_jobs_def filter_sort)
qed

text \<open>C3: the job table refines a first-come-first-served queue with five servers. Seen as the list of open
  jobs in order of arrival, an admission with something to fetch appends its job, every other
  transaction only removes jobs and keeps the order, and the running jobs are always exactly the
  first five of the list, the waiting ones its rest.\<close>

theorem queue_refines_fifo:
  assumes "reachable db"
  shows "running_jobs db = take 5 (open_jobs db) \<and> queued_jobs db = drop 5 (open_jobs db)
    \<and> map jb_id (open_jobs (queue_step (Admit now cmd plan reusable) db))
        = map jb_id (open_jobs db) @ (if plan_to_fetch plan reusable = [] then [] else [q_next_id db])
    \<and> ((\<exists>now cmd plan reusable. op = Admit now cmd plan reusable)
        \<or> (\<exists>D. map jb_id (open_jobs (queue_step op db)) = filter (\<lambda>x. x \<notin> D) (map jb_id (open_jobs db))))"
proof -
  note ok = reachable_ok [OF assms] and fifo = reachable_fifo [OF assms]
  have act: "length (running_jobs db) = active_count db"
  proof -
    have "filter is_active (q_jobs db) = filter (\<lambda>j. jb_state j = JRunning) (q_jobs db)"
      using ok by (intro filter_cong refl) (auto simp: queue_ok_def links_ok_def is_active_def)
    then show ?thesis by (simp add: running_jobs_def active_count_def)
  qed
  have split: "running_jobs db = take 5 (open_jobs db) \<and> queued_jobs db = drop 5 (open_jobs db)"
  proof (cases "queued_jobs db = []")
    case True
    then show ?thesis using open_split [OF fifo] act ok by (simp add: queue_ok_def gate_bound_def MAX_ACTIVE_JOBS_def)
  next
    case False
    then have "\<exists>j\<in>set (q_jobs db). jb_state j = JQueued" using queued_jobs_set [of db] by (cases "queued_jobs db") auto
    then have "active_count db = 5" using ok by (simp add: queue_ok_def gate_full_def MAX_ACTIVE_JOBS_def)
    then show ?thesis using open_split [OF fifo] act by simp
  qed
  have "\<exists>D. map jb_id (open_jobs (queue_step op db)) = filter (\<lambda>x. x \<notin> D) (map jb_id (open_jobs db))"
    if "\<not> (\<exists>now cmd plan reusable. op = Admit now cmd plan reusable)"
    using micros_fifo [OF step_micros [OF ok] queue_ids [OF ok] fifo, of op] that unfolding narrows_def by blast
  then show ?thesis using split admit_open [OF ok fifo, of now cmd plan reusable] by blast
qed

theorem queue_refines_fifo_witness: "running_jobs sample_lease = take 5 (open_jobs sample_lease)"
  using queue_refines_fifo [OF sample_lease_reachable] by blast

end
