(* ===== verification/Slots.thy ===== *)
theory Slots
  imports Proxy
begin

text \<open>
  The fleet-wide sticky slots of \<open>portal/repository/slots.py\<close>: one row for every slot of a provider,
  leased to a worker until an instant its heartbeats push forward. \<open>lease_pool\<close> is the contract the
  lanes of the workers rely on; the rows provide it.
\<close>

section \<open>The contract of leases\<close>

locale lease_pool =
  fixes claim :: "'g \<Rightarrow> seconds \<Rightarrow> 'w \<Rightarrow> 'p \<Rightarrow> 'k option \<times> 'p"
    and release :: "'k \<Rightarrow> 'w \<Rightarrow> 'p \<Rightarrow> 'p"
    and renew :: "seconds \<Rightarrow> 'w \<Rightarrow> 'k list \<Rightarrow> 'p \<Rightarrow> 'p"
    and holder :: "'p \<Rightarrow> 'k \<Rightarrow> ('w \<times> seconds) option"
    and invar :: "'p \<Rightarrow> bool"
    and ttl :: seconds
  assumes claim_invar: "invar p \<Longrightarrow> claim g now w p = (found, p') \<Longrightarrow> invar p'"
    and release_invar: "invar p \<Longrightarrow> invar (release k w p)"
    and renew_invar: "invar p \<Longrightarrow> invar (renew now w ks p)"
    and claim_none: "invar p \<Longrightarrow> claim g now w p = (None, p') \<Longrightarrow> holder p' = holder p"
    and claim_some: "invar p \<Longrightarrow> claim g now w p = (Some k, p') \<Longrightarrow>
          (\<forall>v t. holder p k = Some (v, t) \<longrightarrow> t < now) \<and> holder p' = (holder p)(k \<mapsto> (w, now + ttl))"
    and release_holder: "invar p \<Longrightarrow>
          holder (release k w p) x = (if x = k \<and> map_option fst (holder p k) = Some w then None else holder p x)"
    and renew_holder: "invar p \<Longrightarrow>
          holder (renew now w ks p) x
            = (case holder p x of None \<Rightarrow> None
               | Some (v, t) \<Rightarrow> if v = w \<and> x \<in> set ks then Some (w, now + ttl) else Some (v, t))"
    and ttl_pos: "0 \<le> ttl"
begin

text \<open>
  A belief \<open>(w, k)\<close>: worker \<open>w\<close> holds \<open>k\<close>. Beliefs are current when each is backed by a lease that has
  not expired.
\<close>

lemma claim_keeps_beliefs:
  assumes "invar p" "claim g now w p = (Some k, p')"
    "\<forall>(v, x) \<in> H. \<exists>t. holder p x = Some (v, t) \<and> now \<le> t"
  shows "(\<forall>v. (v, k) \<notin> H) \<and> (\<forall>(v, x) \<in> insert (w, k) H. \<exists>t. holder p' x = Some (v, t) \<and> now \<le> t)"
proof -
  have fresh: "(v, k) \<notin> H" for v
  proof
    assume "(v, k) \<in> H"
    then obtain t where "holder p k = Some (v, t)" "now \<le> t" using assms(3) by blast
    then show False using claim_some [OF assms(1,2)] by fastforce
  qed
  then have "\<exists>t. holder p' x = Some (v, t) \<and> now \<le> t" if "(v, x) \<in> insert (w, k) H" for v x
    using that assms(3) claim_some [OF assms(1,2)] ttl_pos by (cases "x = k") auto
  then show ?thesis using fresh by blast
qed

lemma release_keeps_beliefs:
  assumes "invar p" "\<forall>(v, x) \<in> H. x \<noteq> k \<and> (\<exists>t. holder p x = Some (v, t) \<and> now \<le> t)"
  shows "\<forall>(v, x) \<in> H. \<exists>t. holder (release k w p) x = Some (v, t) \<and> now \<le> t"
  using assms by (auto simp: release_holder)

lemma renew_keeps_beliefs:
  assumes "invar p" "\<forall>(v, x) \<in> H. \<exists>t. holder p x = Some (v, t) \<and> now \<le> t"
  shows "\<forall>(v, x) \<in> H. \<exists>t. holder (renew now w ks p) x = Some (v, t) \<and> now \<le> t"
proof -
  have "\<exists>t. holder (renew now w ks p) x = Some (v, t) \<and> now \<le> t" if h: "(v, x) \<in> H" for v x
  proof -
    obtain t where "holder p x = Some (v, t)" "now \<le> t" using assms(2) h by blast
    then show ?thesis using ttl_pos by (simp add: renew_holder [OF assms(1)])
  qed
  then show ?thesis by blast
qed

end

section \<open>Rows\<close>

definition LEASE_TTL :: seconds where
  "LEASE_TTL = 60"

type_synonym slot_key = "pystr \<times> nat"

record slot_row =
  sl_key :: slot_key
  sl_worker :: "pystr option"
  sl_lane :: "nat option"
  sl_expires :: "seconds option"

definition claimable_slot :: "pystr \<Rightarrow> seconds \<Rightarrow> slot_row \<Rightarrow> bool" where
  "claimable_slot provider now r \<longleftrightarrow>
     fst (sl_key r) = provider
     \<and> (sl_worker r = None \<or> (case sl_expires r of None \<Rightarrow> False | Some t \<Rightarrow> t < now))"

definition claim_slot ::
  "pystr \<Rightarrow> nat \<Rightarrow> seconds \<Rightarrow> pystr \<Rightarrow> slot_row list \<Rightarrow> slot_key option \<times> slot_row list" where
  "claim_slot provider lane now worker rows =
     (case sort_key (\<lambda>r. snd (sl_key r)) (filter (claimable_slot provider now) rows) of
        [] \<Rightarrow> (None, rows)
      | c # _ \<Rightarrow>
          (Some (sl_key c),
           map (\<lambda>r. if sl_key r = sl_key c
                then r\<lparr>sl_worker := Some worker, sl_lane := Some lane, sl_expires := Some (now + LEASE_TTL)\<rparr>
                else r) rows))"

definition release_slot :: "slot_key \<Rightarrow> pystr \<Rightarrow> slot_row list \<Rightarrow> slot_row list" where
  "release_slot key worker rows =
     map (\<lambda>r. if sl_key r = key \<and> sl_worker r = Some worker
          then r\<lparr>sl_worker := None, sl_lane := None, sl_expires := None\<rparr> else r) rows"

definition renew_slots :: "seconds \<Rightarrow> pystr \<Rightarrow> slot_key list \<Rightarrow> slot_row list \<Rightarrow> slot_row list" where
  "renew_slots now worker held rows =
     (if held = [] then rows
      else map (\<lambda>r. if sl_worker r = Some worker \<and> sl_key r \<in> set held
             then r\<lparr>sl_expires := Some (now + LEASE_TTL)\<rparr> else r) rows)"

text \<open>The rows the migration inserts.\<close>

definition seed_slots :: "slot_row list" where
  "seed_slots =
     map (\<lambda>s. \<lparr>sl_key = (''geonode'', s), sl_worker = None, sl_lane = None, sl_expires = None\<rparr>) [1..<902]"

section \<open>The rows keep the contract\<close>

definition slot_holder :: "slot_row list \<Rightarrow> slot_key \<Rightarrow> (pystr \<times> seconds) option" where
  "slot_holder rows key =
     (case find (\<lambda>r. sl_key r = key) rows of
        None \<Rightarrow> None
      | Some r \<Rightarrow> (case (sl_worker r, sl_expires r) of (Some w, Some t) \<Rightarrow> Some (w, t) | _ \<Rightarrow> None))"

text \<open>Primary key and lease consistency.\<close>

definition slots_ok :: "slot_row list \<Rightarrow> bool" where
  "slots_ok rows \<longleftrightarrow>
     distinct (map sl_key rows) \<and> (\<forall>r\<in>set rows. sl_worker r = None \<longleftrightarrow> sl_expires r = None)"

definition row_holder :: "slot_row \<Rightarrow> (pystr \<times> seconds) option" where
  "row_holder r = (case (sl_worker r, sl_expires r) of (Some w, Some t) \<Rightarrow> Some (w, t) | _ \<Rightarrow> None)"

lemma slot_holder_row:
  "slots_ok rows \<Longrightarrow> r \<in> set rows \<Longrightarrow> slot_holder rows (sl_key r) = row_holder r"
proof (induction rows)
  case (Cons a rows)
  show ?case
  proof (cases "sl_key a = sl_key r")
    case True
    then have "a = r" using Cons.prems by (auto simp: slots_ok_def)
    then show ?thesis by (simp add: slot_holder_def row_holder_def)
  next
    case False
    then have "r \<in> set rows" using Cons.prems(2) by auto
    moreover have "slot_holder (a # rows) (sl_key r) = slot_holder rows (sl_key r)" using False by (simp add: slot_holder_def)
    ultimately show ?thesis using Cons by (simp add: slots_ok_def)
  qed
qed simp

lemma slot_holder_none: "key \<notin> sl_key ` set rows \<Longrightarrow> slot_holder rows key = None"
  by (induction rows) (auto simp: slot_holder_def)

lemma slot_holder_map:
  assumes "\<And>r. sl_key (f r) = sl_key r"
  shows "slot_holder (map f rows) key
    = (case find (\<lambda>r. sl_key r = key) rows of None \<Rightarrow> None | Some r \<Rightarrow> row_holder (f r))"
  using assms by (induction rows) (auto simp: slot_holder_def row_holder_def)

lemma slots_ok_map:
  assumes "slots_ok rows" "\<And>r. sl_key (f r) = sl_key r"
    "\<And>r. r \<in> set rows \<Longrightarrow> (sl_worker r = None \<longleftrightarrow> sl_expires r = None) \<Longrightarrow> (sl_worker (f r) = None \<longleftrightarrow> sl_expires (f r) = None)"
  shows "slots_ok (map f rows)"
  using assms by (auto simp: slots_ok_def comp_def)

lemma claim_slot_cases:
  assumes "claim_slot provider lane now worker rows = (found, rows')"
  obtains (none) "found = None" "rows' = rows"
  | (some) c where "c \<in> set rows" "claimable_slot provider now c" "found = Some (sl_key c)"
      "rows' = map (\<lambda>r. if sl_key r = sl_key c
                then r\<lparr>sl_worker := Some worker, sl_lane := Some lane, sl_expires := Some (now + LEASE_TTL)\<rparr>
                else r) rows"
proof (cases "sort_key (\<lambda>r. snd (sl_key r)) (filter (claimable_slot provider now) rows)")
  case Nil
  then show thesis using assms none by (simp add: claim_slot_def)
next
  case (Cons c cs)
  then have "c \<in> set (sort_key (\<lambda>r. snd (sl_key r)) (filter (claimable_slot provider now) rows))" by simp
  then have "c \<in> set rows" "claimable_slot provider now c" by simp_all
  then show thesis using assms Cons some by (simp add: claim_slot_def)
qed

interpretation slot_leases: lease_pool
  "\<lambda>(provider, lane). claim_slot provider lane" release_slot renew_slots slot_holder slots_ok LEASE_TTL
proof unfold_locales
  fix p :: "slot_row list" and g :: "pystr \<times> nat" and now w found p'
  assume ok: "slots_ok p"
  obtain provider lane where g: "g = (provider, lane)" by fastforce
  show "slots_ok p'" if "(case g of (provider, lane) \<Rightarrow> claim_slot provider lane) now w p = (found, p')"
    using that unfolding g prod.case
    by (cases rule: claim_slot_cases) (auto intro!: slots_ok_map ok simp: ok split: if_splits)
  show "slot_holder p' = slot_holder p"
    if "(case g of (provider, lane) \<Rightarrow> claim_slot provider lane) now w p = (None, p')"
    using that unfolding g prod.case by (cases rule: claim_slot_cases) auto
next
  fix p :: "slot_row list" and g :: "pystr \<times> nat" and now w k p'
  assume ok: "slots_ok p" and claimed: "(case g of (provider, lane) \<Rightarrow> claim_slot provider lane) now w p = (Some k, p')"
  obtain provider lane where g: "g = (provider, lane)" by fastforce
  from claimed [unfolded g prod.case]
  show "(\<forall>v t. slot_holder p k = Some (v, t) \<longrightarrow> t < now) \<and> slot_holder p' = (slot_holder p)(k \<mapsto> (w, now + LEASE_TTL))"
  proof (cases rule: claim_slot_cases)
    case (some c)
    have k: "k = sl_key c" using some(3) by simp
    have "t < now" if "slot_holder p k = Some (v, t)" for v t
      using that slot_holder_row [OF ok some(1)] some(2) k
      by (auto simp: claimable_slot_def row_holder_def split: option.splits)
    moreover have "slot_holder p' x = ((slot_holder p)(k \<mapsto> (w, now + LEASE_TTL))) x" for x
    proof (cases "x \<in> sl_key ` set p")
      case True
      then obtain r where r: "r \<in> set p" "x = sl_key r" by blast
      then have "find (\<lambda>r. sl_key r = x) p = Some r"
        using ok r(1) by (induction p) (auto simp: slots_ok_def)
      then show ?thesis
        unfolding some(4) k by (subst slot_holder_map) (auto simp: r(2) row_holder_def slot_holder_row [OF ok r(1)])
    next
      case False
      moreover have "x \<noteq> k" using False some(1) k by auto
      moreover have "map sl_key p' = map sl_key p" unfolding some(4) by simp
      then have "sl_key ` set p' = sl_key ` set p" by (metis set_map)
      ultimately show ?thesis by (simp add: slot_holder_none)
    qed
    ultimately show ?thesis by blast
  qed simp
next
  fix p :: "slot_row list" and k w
  assume ok: "slots_ok p"
  show "slots_ok (release_slot k w p)"
    unfolding release_slot_def by (rule slots_ok_map [OF ok]) auto
  show "slot_holder (release_slot k w p) x
      = (if x = k \<and> map_option fst (slot_holder p k) = Some w then None else slot_holder p x)" for x
  proof (cases "find (\<lambda>r. sl_key r = x) p")
    case None
    then show ?thesis unfolding release_slot_def by (subst slot_holder_map) (auto simp: slot_holder_def)
  next
    case (Some r)
    then have r: "r \<in> set p" "sl_key r = x" by (auto simp: find_Some_iff)
    have cons: "sl_worker r = None \<longleftrightarrow> sl_expires r = None" using ok r(1) by (simp add: slots_ok_def)
    show ?thesis unfolding release_slot_def
      using Some cons r(2) by (subst slot_holder_map) (auto simp: slot_holder_def row_holder_def split: option.splits)
  qed
next
  fix p :: "slot_row list" and now w ks
  assume ok: "slots_ok p"
  show "slots_ok (renew_slots now w ks p)"
    using ok slots_ok_map [OF ok] by (simp add: renew_slots_def)
  show "slot_holder (renew_slots now w ks p) x
      = (case slot_holder p x of None \<Rightarrow> None
         | Some (v, t) \<Rightarrow> if v = w \<and> x \<in> set ks then Some (w, now + LEASE_TTL) else Some (v, t))" for x
  proof (cases "find (\<lambda>r. sl_key r = x) p")
    case None
    then have none: "x \<notin> sl_key ` set p" by (auto simp: find_None_iff)
    have "map sl_key (renew_slots now w ks p) = map sl_key p" by (simp add: renew_slots_def)
    then have "sl_key ` set (renew_slots now w ks p) = sl_key ` set p" by (metis set_map)
    then show ?thesis using none by (simp add: slot_holder_none)
  next
    case (Some r)
    then have r: "r \<in> set p" "sl_key r = x" by (auto simp: find_Some_iff)
    have cons: "sl_worker r = None \<longleftrightarrow> sl_expires r = None" using ok r(1) by (simp add: slots_ok_def)
    have h: "slot_holder p x = row_holder r" using slot_holder_row [OF ok r(1)] r(2) by simp
    show ?thesis
    proof (cases "ks = []")
      case True
      then show ?thesis by (simp add: renew_slots_def split: option.splits)
    next
      case False
      then have "slot_holder (renew_slots now w ks p) x
          = row_holder (if sl_worker r = Some w \<and> sl_key r \<in> set ks then r\<lparr>sl_expires := Some (now + LEASE_TTL)\<rparr> else r)"
        unfolding renew_slots_def by (simp only: if_False) (subst slot_holder_map, simp_all add: Some)
      then show ?thesis using cons r(2) unfolding h by (auto simp: row_holder_def split: option.splits)
    qed
  qed
next
  show "0 \<le> LEASE_TTL" by (simp add: LEASE_TTL_def)
qed


section \<open>A fleet of lanes\<close>

text \<open>
  The rows, the clock, and what each lane of each worker believes to hold. A lane claims when it
  holds nothing, releases what it holds, and a worker's heartbeat renews what its lanes hold. Time
  passes only while every lease a lane holds is still running: the heartbeats come in time.
\<close>

type_synonym lane_key = "pystr \<times> nat"

record slot_fleet =
  sf_now :: seconds
  sf_rows :: "slot_row list"
  sf_held :: "(lane_key \<times> slot_key) list"

datatype slot_op = ClaimSlot pystr pystr nat | ReleaseSlot pystr nat | RenewSlots pystr | Wait seconds

definition worker_held :: "pystr \<Rightarrow> (lane_key \<times> slot_key) list \<Rightarrow> slot_key list" where
  "worker_held worker held = map snd (filter (\<lambda>h. fst (fst h) = worker) held)"

definition leases_last :: "seconds \<Rightarrow> slot_fleet \<Rightarrow> bool" where
  "leases_last t fl \<longleftrightarrow>
     list_all (\<lambda>h. case slot_holder (sf_rows fl) (snd h) of None \<Rightarrow> False | Some (w, e) \<Rightarrow> t \<le> e) (sf_held fl)"

fun slot_step :: "slot_op \<Rightarrow> slot_fleet \<Rightarrow> slot_fleet option" where
  "slot_step (ClaimSlot provider worker lane) fl =
     (if map_of (sf_held fl) (worker, lane) \<noteq> None then None
      else
        (case claim_slot provider lane (sf_now fl) worker (sf_rows fl) of
           (None, rows) \<Rightarrow> Some (fl\<lparr>sf_rows := rows\<rparr>)
         | (Some key, rows) \<Rightarrow> Some (fl\<lparr>sf_rows := rows, sf_held := ((worker, lane), key) # sf_held fl\<rparr>)))"
| "slot_step (ReleaseSlot worker lane) fl =
     (case map_of (sf_held fl) (worker, lane) of
        None \<Rightarrow> None
      | Some key \<Rightarrow>
          Some (fl\<lparr>sf_rows := release_slot key worker (sf_rows fl),
                   sf_held := filter (\<lambda>h. fst h \<noteq> (worker, lane)) (sf_held fl)\<rparr>))"
| "slot_step (RenewSlots worker) fl =
     Some (fl\<lparr>sf_rows := renew_slots (sf_now fl) worker (worker_held worker (sf_held fl)) (sf_rows fl)\<rparr>)"
| "slot_step (Wait d) fl =
     (if 0 \<le> d \<and> leases_last (sf_now fl + d) fl then Some (fl\<lparr>sf_now := sf_now fl + d\<rparr>) else None)"

fun slot_steps :: "slot_op list \<Rightarrow> slot_fleet \<Rightarrow> slot_fleet option" where
  "slot_steps [] fl = Some fl"
| "slot_steps (op # ops) fl = (case slot_step op fl of None \<Rightarrow> None | Some fl \<Rightarrow> slot_steps ops fl)"

definition beliefs :: "slot_fleet \<Rightarrow> (pystr \<times> slot_key) set" where
  "beliefs fl = (\<lambda>h. (fst (fst h), snd h)) ` set (sf_held fl)"

definition fleet_ok :: "slot_fleet \<Rightarrow> bool" where
  "fleet_ok fl \<longleftrightarrow>
     slots_ok (sf_rows fl) \<and> distinct (map fst (sf_held fl)) \<and> distinct (map snd (sf_held fl))
     \<and> (\<forall>(v, x) \<in> beliefs fl. \<exists>t. slot_holder (sf_rows fl) x = Some (v, t) \<and> sf_now fl \<le> t)"

lemma distinct_map_filter: "distinct (map f xs) \<Longrightarrow> distinct (map f (filter P xs))"
  by (induction xs) auto

lemma slot_step_ok:
  assumes "fleet_ok fl" "slot_step op fl = Some fl'"
  shows "fleet_ok fl'"
proof -
  have ok: "slots_ok (sf_rows fl)" "distinct (map fst (sf_held fl))" "distinct (map snd (sf_held fl))"
    and cur: "\<forall>(v, x) \<in> beliefs fl. \<exists>t. slot_holder (sf_rows fl) x = Some (v, t) \<and> sf_now fl \<le> t"
    using assms(1) by (simp_all add: fleet_ok_def)
  show ?thesis
  proof (cases op)
    case (ClaimSlot provider worker lane)
    then have free: "map_of (sf_held fl) (worker, lane) = None"
      using assms(2) by (cases "map_of (sf_held fl) (worker, lane)") simp_all
    obtain found rows where c: "claim_slot provider lane (sf_now fl) worker (sf_rows fl) = (found, rows)" by fastforce
    have c': "(case (provider, lane) of (provider, lane) \<Rightarrow> claim_slot provider lane) (sf_now fl) worker (sf_rows fl) = (found, rows)"
      using c by simp
    note rows_ok = slot_leases.claim_invar [OF ok(1) c']
    show ?thesis
    proof (cases found)
      case None
      have "rows = sf_rows fl" using c [unfolded None] by (cases rule: claim_slot_cases) simp_all
      then show ?thesis using assms ClaimSlot c None free by simp
    next
      case (Some key)
      have "fl' = fl\<lparr>sf_rows := rows, sf_held := ((worker, lane), key) # sf_held fl\<rparr>"
        using assms(2) ClaimSlot c Some free by simp
      moreover have "beliefs (fl\<lparr>sf_rows := rows, sf_held := ((worker, lane), key) # sf_held fl\<rparr>) = insert (worker, key) (beliefs fl)"
        by (simp add: beliefs_def)
      moreover have "(worker, lane) \<notin> fst ` set (sf_held fl)" using free by (simp add: map_of_eq_None_iff)
      moreover note slot_leases.claim_keeps_beliefs [OF ok(1) c' [unfolded Some] cur]
      moreover from this have "key \<notin> snd ` set (sf_held fl)" by (force simp: beliefs_def)
      ultimately show ?thesis using ok rows_ok by (simp add: fleet_ok_def)
    qed
  next
    case (ReleaseSlot worker lane)
    then obtain key where key: "map_of (sf_held fl) (worker, lane) = Some key"
        "fl' = fl\<lparr>sf_rows := release_slot key worker (sf_rows fl),
                   sf_held := filter (\<lambda>h. fst h \<noteq> (worker, lane)) (sf_held fl)\<rparr>"
      using assms(2) by (auto split: option.splits)
    have mem: "((worker, lane), key) \<in> set (sf_held fl)" using map_of_SomeD [OF key(1)] .
    have "\<forall>(v, x) \<in> beliefs fl'. x \<noteq> key \<and> (\<exists>t. slot_holder (sf_rows fl) x = Some (v, t) \<and> sf_now fl \<le> t)"
    proof (intro ballI, clarify)
      fix v x
      assume "(v, x) \<in> beliefs fl'"
      then obtain h where h: "h \<in> set (sf_held fl)" "fst h \<noteq> (worker, lane)" "v = fst (fst h)" "x = snd h"
        using key(2) by (auto simp: beliefs_def)
      have "x \<noteq> key"
      proof
        assume "x = key"
        then have "snd h = snd ((worker, lane), key)" using h(4) by simp
        moreover have "inj_on snd (set (sf_held fl))" using ok(3) by (simp add: distinct_map)
        ultimately have "h = ((worker, lane), key)" using h(1) mem by (meson inj_onD)
        then show False using h(2) by simp
      qed
      moreover have "(v, x) \<in> beliefs fl" using h by (auto simp: beliefs_def)
      ultimately show "x \<noteq> key \<and> (\<exists>t. slot_holder (sf_rows fl) x = Some (v, t) \<and> sf_now fl \<le> t)" using cur by blast
    qed
    from slot_leases.release_keeps_beliefs [OF ok(1) this]
    show ?thesis using key(2) ok slot_leases.release_invar [OF ok(1)] by (simp add: fleet_ok_def distinct_map_filter)
  next
    case (RenewSlots worker)
    then have fl': "fl' = fl\<lparr>sf_rows := renew_slots (sf_now fl) worker (worker_held worker (sf_held fl)) (sf_rows fl)\<rparr>"
      using assms(2) by simp
    have "beliefs fl' = beliefs fl" by (simp add: fl' beliefs_def)
    then show ?thesis
      using fl' ok slot_leases.renew_invar [OF ok(1)] slot_leases.renew_keeps_beliefs [OF ok(1) cur]
      by (simp add: fleet_ok_def)
  next
    case (Wait d)
    then have fl': "fl' = fl\<lparr>sf_now := sf_now fl + d\<rparr>" "leases_last (sf_now fl + d) fl"
      using assms(2) by (auto split: if_splits)
    have "\<exists>t. slot_holder (sf_rows fl) x = Some (v, t) \<and> sf_now fl + d \<le> t" if "(v, x) \<in> beliefs fl" for v x
      using that cur fl'(2) by (fastforce simp: leases_last_def beliefs_def list_all_iff split: option.splits)
    moreover have "beliefs fl' = beliefs fl" by (simp add: fl'(1) beliefs_def)
    ultimately show ?thesis using ok by (auto simp: fleet_ok_def fl'(1))
  qed
qed

lemma slot_steps_ok: "fleet_ok fl \<Longrightarrow> slot_steps ops fl = Some fl' \<Longrightarrow> fleet_ok fl'"
  using slot_step_ok by (induction ops arbitrary: fl) (auto split: option.splits)

definition start_fleet :: "slot_row list \<Rightarrow> slot_fleet" where
  "start_fleet rows = \<lparr>sf_now = 0, sf_rows = rows, sf_held = []\<rparr>"

lemma start_fleet_ok: "slots_ok rows \<Longrightarrow> fleet_ok (start_fleet rows)"
  by (simp add: fleet_ok_def start_fleet_def beliefs_def)

text \<open>
  Rows as a migration leaves them: unleased, one for every key, and numbered within the range of the
  sticky ports.
\<close>

definition fresh_slots :: "slot_row list \<Rightarrow> bool" where
  "fresh_slots rows \<longleftrightarrow>
     distinct (map sl_key rows)
     \<and> list_all (\<lambda>r. sl_worker r = None \<and> sl_expires r = None \<and> 1 \<le> snd (sl_key r) \<and> snd (sl_key r) \<le> 901) rows"

lemma fresh_slots_ok: "fresh_slots rows \<Longrightarrow> slots_ok rows"
  by (simp add: fresh_slots_def slots_ok_def list_all_iff)

lemma seed_slots_fresh: "fresh_slots seed_slots"
  by (auto simp: fresh_slots_def seed_slots_def comp_def distinct_map inj_on_def list_all_iff)

lemma slot_step_keys:
  assumes "slot_step op fl = Some fl'"
  shows "map sl_key (sf_rows fl') = map sl_key (sf_rows fl)"
proof (cases op)
  case (ClaimSlot provider worker lane)
  obtain found rows where c: "claim_slot provider lane (sf_now fl) worker (sf_rows fl) = (found, rows)" by fastforce
  then have "map sl_key rows = map sl_key (sf_rows fl)" by (cases rule: claim_slot_cases) auto
  then show ?thesis using assms ClaimSlot c by (auto split: if_splits option.splits)
qed (use assms in \<open>auto simp: release_slot_def renew_slots_def split: if_splits option.splits\<close>)

lemma slot_steps_keys: "slot_steps ops fl = Some fl' \<Longrightarrow> map sl_key (sf_rows fl') = map sl_key (sf_rows fl)"
  by (induction ops arbitrary: fl) (auto split: option.splits dest: slot_step_keys)

lemma slot_holder_key: "slot_holder rows key = Some h \<Longrightarrow> key \<in> set (map sl_key rows)"
  by (rule ccontr) (simp add: slot_holder_none)

text \<open>C23: as long as no heartbeat is late, no two lanes of the fleet ever hold the same sticky slot, and every
  slot a lane holds is leased to its worker and opens a GeoNode session, however claims, releases
  and heartbeats of the workers interleave.\<close>

theorem slots_exclusive:
  assumes "fresh_slots rows" "slot_steps ops (start_fleet rows) = Some fl"
  shows "distinct (map fst (sf_held fl)) \<and> distinct (map snd (sf_held fl))
    \<and> (\<forall>((w, l), key) \<in> set (sf_held fl).
         (\<exists>t. slot_holder (sf_rows fl) key = Some (w, t) \<and> sf_now fl \<le> t)
         \<and> (\<forall>c h. \<exists>a. geonode_new_session c (int (snd key)) h = Inr a))"
proof -
  have ok: "fleet_ok fl" by (rule slot_steps_ok [OF start_fleet_ok [OF fresh_slots_ok [OF assms(1)]] assms(2)])
  have same: "map sl_key (sf_rows fl) = map sl_key rows"
    using slot_steps_keys [OF assms(2)] by (simp add: start_fleet_def)
  have "(\<exists>t. slot_holder (sf_rows fl) key = Some (w, t) \<and> sf_now fl \<le> t)
      \<and> (\<forall>c h. \<exists>a. geonode_new_session c (int (snd key)) h = Inr a)"
    if held: "((w, l), key) \<in> set (sf_held fl)" for w l key
  proof -
    have "(w, key) \<in> beliefs fl" using held by (force simp: beliefs_def)
    then obtain t where t: "slot_holder (sf_rows fl) key = Some (w, t)" "sf_now fl \<le> t"
      using ok unfolding fleet_ok_def by blast
    have "key \<in> set (map sl_key rows)" using slot_holder_key [OF t(1)] same by simp
    then have "1 \<le> snd key \<and> snd key \<le> 901" using assms(1) by (auto simp: fresh_slots_def list_all_iff)
    then have "\<exists>port. slot_port (int (snd key)) = Inr port"
      by (simp add: slot_port_def HTTP_STICKY_SLOT_COUNT_def HTTP_STICKY_PORT_MAX_def HTTP_STICKY_PORT_MIN_def)
    then show ?thesis using t by (auto simp: geonode_new_session_def Let_def)
  qed
  then show ?thesis using ok by (auto simp: fleet_ok_def)
qed

definition two_claims :: "slot_op list" where
  "two_claims = [ClaimSlot ''geonode'' ''w1'' 0, ClaimSlot ''geonode'' ''w2'' 0, Wait 45, RenewSlots ''w1'', RenewSlots ''w2'', Wait 45]"

theorem slots_exclusive_witness:
  "case slot_steps two_claims (start_fleet (take 3 seed_slots)) of
     None \<Rightarrow> False
   | Some fl \<Rightarrow> map snd (sf_held fl) = [(''geonode'', 2), (''geonode'', 1)] \<and> distinct (map snd (sf_held fl))"
proof -
  have three: "take 3 seed_slots = map (\<lambda>s. \<lparr>sl_key = (''geonode'', s), sl_worker = None, sl_lane = None, sl_expires = None\<rparr>) [1, 2, 3]"
  proof -
    have "take 3 [1..<902] = [1..<1 + 3]" by (rule take_upt) simp
    also have "\<dots> = [1, 2, 3]" by (simp add: upt_rec)
    finally have "take 3 [1..<902] = [1, 2, 3]" .
    then show ?thesis unfolding seed_slots_def take_map by (simp only: list.map)
  qed
  have fresh: "fresh_slots (take 3 seed_slots)" unfolding three by code_simp
  have "case slot_steps two_claims (start_fleet (take 3 seed_slots)) of
      None \<Rightarrow> False | Some fl \<Rightarrow> map snd (sf_held fl) = [(''geonode'', 2), (''geonode'', 1)]"
    unfolding three by code_simp
  then show ?thesis using slots_exclusive [OF fresh, of two_claims] by (simp split: option.splits)
qed

end
