(* ===== verification/FleetBreaker.thy ===== *)
theory FleetBreaker
  imports Breaker JobQueue
begin

text \<open>
  The fleet-wide circuit breakers of \<open>portal/repository/breakers.py\<close>: one row for every pair of a
  source and a provider, moved by one statement for each published outcome and read by the claims of
  the job queue. The row provides the contract of \<open>failure_gate\<close>, so it and the in-process breaker
  are a \<open>gate_pair\<close>.
\<close>

section \<open>Rows\<close>

record fleet_breaker =
  fb_failures :: nat
  fb_level :: nat
  fb_open_until :: "seconds option"

type_synonym fleet_breakers = "((pystr \<times> pystr) \<times> fleet_breaker) list"

definition new_fleet_breaker :: fleet_breaker where
  "new_fleet_breaker = \<lparr>fb_failures = 0, fb_level = 0, fb_open_until = None\<rparr>"

text \<open>
  The single UPDATE. The cooldown is computed in double precision, and PostgreSQL raises when it
  overflows: None, and the transaction is rolled back.
\<close>

definition update_breaker :: "seconds \<Rightarrow> bool \<Rightarrow> fleet_breaker \<Rightarrow> fleet_breaker option" where
  "update_breaker now healthy_contact b =
     (if healthy_contact then Some \<lparr>fb_failures = 0, fb_level = 0, fb_open_until = None\<rparr>
      else if fb_failures b + 1 < DEFAULT_THRESHOLD then Some (b\<lparr>fb_failures := fb_failures b + 1\<rparr>)
      else if float_overflows (DEFAULT_BASE_COOLDOWN_S * 2 ^ fb_level b) then None
      else Some \<lparr>fb_failures = 0, fb_level = fb_level b + 1,
                 fb_open_until =
                   Some (now + min DEFAULT_MAX_COOLDOWN_S (DEFAULT_BASE_COOLDOWN_S * 2 ^ fb_level b))\<rparr>)"

text \<open>The INSERT, with the foreign key to the sites and the CHECK on the provider.\<close>

definition ensure_row :: "pystr list \<Rightarrow> pystr \<Rightarrow> pystr \<Rightarrow> fleet_breakers \<Rightarrow> fleet_breakers option" where
  "ensure_row sites source provider rows =
     (if map_of rows (source, provider) \<noteq> None then Some rows
      else if source \<in> set sites \<and> provider \<in> {''geonode'', ''dataimpulse''}
      then Some (rows @ [((source, provider), new_fleet_breaker)])
      else None)"

definition record_outcome ::
  "pystr list \<Rightarrow> seconds \<Rightarrow> pystr \<Rightarrow> pystr \<Rightarrow> bool \<Rightarrow> fleet_breakers \<Rightarrow> fleet_breakers option" where
  "record_outcome sites now source provider healthy_contact rows =
     (case ensure_row sites source provider rows of
        None \<Rightarrow> None
      | Some rows \<Rightarrow>
          (case map_of rows (source, provider) of
             None \<Rightarrow> None
           | Some b \<Rightarrow>
               (case update_breaker now healthy_contact b of
                  None \<Rightarrow> None
                | Some b \<Rightarrow> Some (map (\<lambda>(k, r). (k, if k = (source, provider) then b else r)) rows))))"

definition breaker_states :: "seconds \<Rightarrow> fleet_breakers \<Rightarrow> ((pystr \<times> pystr) \<times> fleet_breaker \<times> bool) list" where
  "breaker_states now rows =
     map (\<lambda>(k, r). (k, r, case fb_open_until r of None \<Rightarrow> False | Some t \<Rightarrow> now < t))
       (sort_key (\<lambda>r. fst (fst r)) (sort_key (\<lambda>r. snd (fst r)) rows))"

text \<open>What the claims of the job queue read of the rows.\<close>

definition claim_breakers :: "fleet_breakers \<Rightarrow> ((pystr \<times> pystr) \<times> seconds option) list" where
  "claim_breakers rows = map (\<lambda>(k, r). (k, fb_open_until r)) rows"

section \<open>The row is a gate\<close>

definition fleet_succeed :: "fleet_breaker \<Rightarrow> fleet_breaker" where
  "fleet_succeed b = (case update_breaker 0 True b of None \<Rightarrow> b | Some b \<Rightarrow> b)"

definition fleet_fail :: "clock \<Rightarrow> fleet_breaker \<Rightarrow> fleet_breaker" where
  "fleet_fail t b = (case update_breaker (cl_utc t) False b of None \<Rightarrow> b | Some b \<Rightarrow> b)"

definition fleet_invar :: "fleet_breaker \<Rightarrow> bool" where
  "fleet_invar b \<longleftrightarrow> fb_failures b < DEFAULT_THRESHOLD"

lemma cooldown_overflows: "float_overflows (DEFAULT_BASE_COOLDOWN_S * 2 ^ n) \<longleftrightarrow> 1022 \<le> n"
proof
  assume n: "1022 \<le> n"
  have "(2::real) ^ 1022 \<le> 2 ^ n" by (rule power_increasing [OF n]) simp
  then have "(4::real) * 2 ^ 1022 \<le> 5 * 2 ^ n" by (intro mult_mono) simp_all
  then show "float_overflows (DEFAULT_BASE_COOLDOWN_S * 2 ^ n)"
    by (simp add: float_overflows_def DEFAULT_BASE_COOLDOWN_S_def)
next
  assume over: "float_overflows (DEFAULT_BASE_COOLDOWN_S * 2 ^ n)"
  show "1022 \<le> n"
  proof (rule ccontr)
    assume "\<not> 1022 \<le> n"
    then have "(2::real) ^ n \<le> 2 ^ 1021" by (intro power_increasing) simp_all
    then have "(5::real) * 2 ^ n \<le> 5 * 2 ^ 1021" by (rule mult_left_mono) simp
    also have "\<dots> < 2 ^ 1024" by simp
    finally show False using over by (simp add: float_overflows_def DEFAULT_BASE_COOLDOWN_S_def)
  qed
qed

lemma fleet_fail_below:
  "fb_failures b + 1 < DEFAULT_THRESHOLD \<Longrightarrow> fleet_fail t b = b\<lparr>fb_failures := fb_failures b + 1\<rparr>"
  by (simp add: fleet_fail_def update_breaker_def)

lemma fleet_fail_opens:
  "fb_failures b + 1 = DEFAULT_THRESHOLD \<Longrightarrow> fb_level b < 1022 \<Longrightarrow>
     fleet_fail t b = \<lparr>fb_failures = 0, fb_level = fb_level b + 1,
                       fb_open_until = Some (cl_utc t + default_cooldown (fb_level b))\<rparr>"
  by (simp add: fleet_fail_def update_breaker_def cooldown_overflows default_cooldown_def)

interpretation fleet_gate: failure_gate
  fleet_succeed fleet_fail fb_failures fb_level fb_open_until fleet_invar DEFAULT_THRESHOLD default_cooldown 1022
proof unfold_locales
  show "fleet_invar (fleet_fail now b)" if "fleet_invar b" "fb_level b < 1022" for b now
    using that fleet_fail_below [of b now] fleet_fail_opens [of b now]
    by (cases "fb_failures b + 1 < DEFAULT_THRESHOLD") (simp_all add: fleet_invar_def)
qed (simp_all add: fleet_invar_def fleet_succeed_def update_breaker_def fleet_fail_below fleet_fail_opens DEFAULT_THRESHOLD_def)

interpretation breaker_pair: gate_pair
  "\<lambda>b. fst (record_success b)" "\<lambda>now b. fst (record_failure now b)" cb_consecutive cb_level cb_open_until_at core_invar
  fleet_succeed fleet_fail fb_failures fb_level fb_open_until fleet_invar DEFAULT_THRESHOLD default_cooldown 1022
  by unfold_locales

section \<open>Outcomes of the fleet\<close>

type_synonym fleet_outcome = "clock \<times> pystr \<times> pystr \<times> bool"

text \<open>The outcomes the workers report, in the order the database commits them. One that raises changes nothing.\<close>

fun record_outcomes :: "pystr list \<Rightarrow> fleet_outcome list \<Rightarrow> fleet_breakers \<Rightarrow> fleet_breakers" where
  "record_outcomes sites [] rows = rows"
| "record_outcomes sites ((t, source, provider, healthy) # os) rows =
     record_outcomes sites os
       (case record_outcome sites (cl_utc t) source provider healthy rows of None \<Rightarrow> rows | Some rows \<Rightarrow> rows)"

definition outcomes_of :: "pystr \<Rightarrow> pystr \<Rightarrow> fleet_outcome list \<Rightarrow> (clock \<times> bool) list" where
  "outcomes_of source provider os =
     map (\<lambda>(t, s, p, healthy). (t, healthy)) (filter (\<lambda>(t, s, p, healthy). s = source \<and> p = provider) os)"

definition pair_breaker :: "fleet_breakers \<Rightarrow> pystr \<times> pystr \<Rightarrow> fleet_breaker" where
  "pair_breaker rows key = (case map_of rows key of None \<Rightarrow> new_fleet_breaker | Some b \<Rightarrow> b)"

lemma map_of_replace:
  "map_of (map (\<lambda>(k, r). (k, if k = key then b else r)) rows) k
     = (if k = key then map_option (\<lambda>_. b) (map_of rows key) else map_of rows k)"
  by (induction rows) auto

lemma ensure_row_keeps:
  "ensure_row sites source provider rows = Some rows' \<Longrightarrow>
     pair_breaker rows' k = pair_breaker rows k \<and> map_of rows' (source, provider) \<noteq> None"
  by (auto simp: ensure_row_def pair_breaker_def map_add_def split: if_splits option.splits)

lemma record_outcome_pair:
  assumes "source \<in> set sites" "provider \<in> {''geonode'', ''dataimpulse''}"
  shows "pair_breaker (case record_outcome sites (cl_utc t) source provider healthy rows of None \<Rightarrow> rows | Some rows \<Rightarrow> rows)
       (source, provider)
     = (if healthy then fleet_succeed else fleet_fail t) (pair_breaker rows (source, provider))"
proof -
  obtain rows' where e: "ensure_row sites source provider rows = Some rows'"
    using assms by (cases "map_of rows (source, provider)") (simp_all add: ensure_row_def)
  note kept = ensure_row_keeps [OF e, of "(source, provider)"]
  then obtain b where b: "map_of rows' (source, provider) = Some b" by blast
  then have row: "pair_breaker rows (source, provider) = b" using kept by (simp add: pair_breaker_def)
  show ?thesis
  proof (cases "update_breaker (cl_utc t) healthy b")
    case None
    then show ?thesis using e b row
      by (cases healthy) (simp_all add: record_outcome_def fleet_fail_def update_breaker_def)
  next
    case (Some b')
    then have "(if healthy then fleet_succeed else fleet_fail t) b = b'"
      by (cases healthy) (simp_all add: fleet_fail_def fleet_succeed_def update_breaker_def)
    then show ?thesis using e b row Some
      by (simp add: record_outcome_def pair_breaker_def map_of_replace)
  qed
qed

lemma record_outcome_other:
  assumes "(source, provider) \<noteq> k"
  shows "pair_breaker (case record_outcome sites now source provider healthy rows of None \<Rightarrow> rows | Some rows \<Rightarrow> rows) k
     = pair_breaker rows k"
proof (cases "record_outcome sites now source provider healthy rows")
  case (Some rows')
  then obtain rows'' b where e: "ensure_row sites source provider rows = Some rows''"
      "rows' = map (\<lambda>(k, r). (k, if k = (source, provider) then b else r)) rows''"
    by (auto simp: record_outcome_def split: option.splits)
  have "pair_breaker rows' k = pair_breaker rows'' k"
    using assms unfolding e(2) pair_breaker_def map_of_replace by auto
  then show ?thesis using Some ensure_row_keeps [OF e(1), of k] by simp
qed simp

lemma record_outcomes_pair:
  assumes "source \<in> set sites" "provider \<in> {''geonode'', ''dataimpulse''}"
  shows "pair_breaker (record_outcomes sites os rows) (source, provider)
    = gate_run fleet_succeed fleet_fail (outcomes_of source provider os) (pair_breaker rows (source, provider))"
proof (induction os arbitrary: rows)
  case (Cons o' os)
  obtain t s p h where o': "o' = (t, s, p, h)" by (cases o')
  show ?case
  proof (cases "(s, p) = (source, provider)")
    case True
    then show ?thesis using o' record_outcome_pair [OF assms, where t = t and healthy = h and rows = rows]
      by (simp add: Cons.IH outcomes_of_def gate_run_def)
  next
    case False
    then have "\<not> (s = source \<and> p = provider)" by simp
    then show ?thesis using o' record_outcome_other [OF False, where sites = sites and now = "cl_utc t" and healthy = h and rows = rows]
      by (auto simp add: Cons.IH outcomes_of_def)
  qed
qed (simp add: gate_run_def outcomes_of_def)

text \<open>A breaker whose two deadlines name the same instant, on clocks that differ by \<open>off\<close>.\<close>

definition in_step :: "seconds \<Rightarrow> breaker \<Rightarrow> bool" where
  "in_step off b \<longleftrightarrow> cb_open_until b = (case cb_open_until_at b of None \<Rightarrow> 0 | Some u \<Rightarrow> u - off)"

lemma in_step_failure:
  assumes "in_step off b" "cl_utc t = cl_mono t + off"
  shows "in_step off (fst (record_failure t b))"
  using assms by (auto simp: in_step_def record_failure_def Let_def split: sum.splits)

lemma in_step_run:
  assumes "core_invar b" "in_step off b" "\<forall>o' \<in> set os. 0 < cl_mono (fst o') \<and> cl_utc (fst o') = cl_mono (fst o') + off"
    "streaks_below (DEFAULT_THRESHOLD * 1022) (DEFAULT_THRESHOLD * cb_level b + cb_consecutive b) os"
  shows "in_step off (gate_run (\<lambda>b. fst (record_success b)) (\<lambda>t b. fst (record_failure t b)) os b)"
  using assms
proof (induction os arbitrary: b)
  case (Cons o' os)
  obtain t h where o': "o' = (t, h)" by fastforce
  have t: "0 < cl_mono t" "cl_utc t = cl_mono t + off" using Cons.prems(3) o' by simp_all
  have wf: "breaker_wf b" using Cons.prems(1) by (simp add: core_invar_def)
  show ?case
  proof (cases h)
    case True
    have "in_step off (fst (record_success b))" by (simp add: success_fields [OF wf] in_step_def)
    moreover have "streaks_below (DEFAULT_THRESHOLD * 1022)
        (DEFAULT_THRESHOLD * cb_level (fst (record_success b)) + cb_consecutive (fst (record_success b))) os"
      using Cons.prems(4) o' True by (simp add: success_fields [OF wf])
    ultimately show ?thesis
      using Cons.IH [OF core_gate.invar_succeed [OF Cons.prems(1)]] Cons.prems(3) o' True by (simp add: gate_run_def)
  next
    case False
    have cap: "cb_level b < 1022" by (rule core_gate.level_below_cap [OF streaks_below_start [OF Cons.prems(4)]])
    have "streaks_below (DEFAULT_THRESHOLD * 1022)
        (DEFAULT_THRESHOLD * cb_level (fst (record_failure t b)) + cb_consecutive (fst (record_failure t b))) os"
      using Cons.prems(4) o' False unfolding core_gate.fail_pays [OF Cons.prems(1) cap] by simp
    with Cons.IH [OF core_gate.invar_fail [OF Cons.prems(1) t(1) cap] in_step_failure [OF Cons.prems(2) t(2)]]
    show ?thesis using Cons.prems(3) o' False by (simp add: gate_run_def)
  qed
qed (simp add: gate_run_def)

lemma claim_breakers_row:
  "map_of (claim_breakers rows) k = map_option fb_open_until (map_of rows k)"
  by (induction rows) (auto simp: claim_breakers_def)

lemma breaker_closed_row:
  "breaker_closed now (db\<lparr>q_breakers := claim_breakers rows\<rparr>) source provider
     \<longleftrightarrow> (case fb_open_until (pair_breaker rows (source, provider)) of None \<Rightarrow> True | Some t \<Rightarrow> t \<le> now)"
  by (auto simp: breaker_closed_def claim_breakers_row pair_breaker_def new_fleet_breaker_def split: option.splits)

section \<open>Property\<close>

definition process_breaker :: "clock \<Rightarrow> pystr \<Rightarrow> pystr \<Rightarrow> breaker" where
  "process_breaker start source provider =
     new_breaker start provider ''run'' source DEFAULT_THRESHOLD DEFAULT_BASE_COOLDOWN_S DEFAULT_MAX_COOLDOWN_S None True"

lemma process_breaker_invar: "0 < cl_mono start \<Longrightarrow> core_invar (process_breaker start source provider)"
  unfolding core_invar_def process_breaker_def
  by (intro conjI new_breaker_wf)
    (simp_all add: DEFAULT_THRESHOLD_def DEFAULT_BASE_COOLDOWN_S_def DEFAULT_MAX_COOLDOWN_S_def
      default_tuned_def new_breaker_def)

text \<open>C24: the fleet-wide breaker row and the in-process breaker are the same machine. Whatever the workers
  report for all pairs, and in whatever order the database commits it, the row of a pair holds the
  failure count and the level of one in-process breaker that is fed the outcomes of that pair alone,
  and the claims of the job queue are offered items of the pair exactly when that breaker is closed. This
  is for positive monotonic clocks that keep a constant distance from the wall clock, and as long as the pair
  never fails 10220 times without a success in between, when a cooldown no longer fits a double.\<close>

theorem fleet_breaker_agrees:
  assumes "source \<in> set sites" "provider \<in> {''geonode'', ''dataimpulse''}"
    and "0 < cl_mono start" "0 \<le> cl_mono now" "cl_utc now = cl_mono now + off"
    and "\<forall>(t, s, p, h) \<in> set os. 0 < cl_mono t \<and> cl_utc t = cl_mono t + off"
    and "streaks_below 10220 0 (outcomes_of source provider os)"
  shows "let rows = record_outcomes sites os [];
             b = gate_run (\<lambda>b. fst (record_success b)) (\<lambda>t b. fst (record_failure t b))
                   (outcomes_of source provider os) (process_breaker start source provider)
         in (breaker_closed (cl_utc now) (db\<lparr>q_breakers := claim_breakers rows\<rparr>) source provider \<longleftrightarrow> \<not> is_open b (cl_mono now))
            \<and> fb_failures (pair_breaker rows (source, provider)) = cb_consecutive b
            \<and> fb_level (pair_breaker rows (source, provider)) = cb_level b"
proof -
  let ?os = "outcomes_of source provider os"
  let ?b = "process_breaker start source provider"
  let ?run = "gate_run (\<lambda>b. fst (record_success b)) (\<lambda>t b. fst (record_failure t b)) ?os ?b"
  let ?row = "pair_breaker (record_outcomes sites os []) (source, provider)"
  have b: "cb_consecutive ?b = 0" "cb_level ?b = 0" "cb_open_until_at ?b = None" "cb_open_until ?b = 0"
    by (simp_all add: process_breaker_def new_breaker_def monotonic_deadline_def)
  have inv: "core_invar ?b" by (rule process_breaker_invar [OF assms(3)])
  have times: "\<forall>o' \<in> set ?os. 0 < cl_mono (fst o') \<and> cl_utc (fst o') = cl_mono (fst o') + off"
    using assms(6) by (fastforce simp: outcomes_of_def)
  have few: "streaks_below (DEFAULT_THRESHOLD * 1022) (DEFAULT_THRESHOLD * cb_level ?b + cb_consecutive ?b) ?os"
    using assms(7) b by (simp add: DEFAULT_THRESHOLD_def)
  have row: "?row = gate_run fleet_succeed fleet_fail ?os new_fleet_breaker"
    by (simp add: record_outcomes_pair [OF assms(1,2)]) (simp add: pair_breaker_def)
  have new: "fleet_invar new_fleet_breaker" "fb_failures new_fleet_breaker = 0" "fb_level new_fleet_breaker = 0"
      "fb_open_until new_fleet_breaker = None"
    by (simp_all add: fleet_invar_def new_fleet_breaker_def DEFAULT_THRESHOLD_def)
  have related: "cb_consecutive ?run = fb_failures ?row \<and> cb_level ?run = fb_level ?row \<and> cb_open_until_at ?run = fb_open_until ?row"
    unfolding row using breaker_pair.run_related [OF inv new(1) _ _ _ _ few] times b new by simp
  have "in_step off ?run" by (rule in_step_run [OF inv _ times few]) (simp add: in_step_def b)
  then have "is_open ?run (cl_mono now) \<longleftrightarrow> (case fb_open_until ?row of None \<Rightarrow> False | Some u \<Rightarrow> cl_utc now < u)"
    using related assms(4,5) by (auto simp: is_open_def in_step_def split: option.splits)
  then show ?thesis
    using related unfolding Let_def breaker_closed_row by (auto split: option.splits)
qed

definition outcome_at :: "pystr \<Rightarrow> bool \<Rightarrow> nat \<Rightarrow> fleet_outcome" where
  "outcome_at provider healthy s = (\<lparr>cl_mono = real s, cl_utc = 1000 + real s\<rparr>, ''osiptel'', provider, healthy)"

definition bad_stretch :: "fleet_outcome list" where
  "bad_stretch = map (outcome_at ''geonode'' False) [1..<6] @ outcome_at ''dataimpulse'' True 6
     # map (outcome_at ''geonode'' False) [7..<12]"

theorem fleet_breaker_agrees_witness:
  "\<forall>db. \<not> breaker_closed 1012 (db\<lparr>q_breakers := claim_breakers (record_outcomes [''osiptel''] bad_stretch [])\<rparr>)
     ''osiptel'' ''geonode''"
proof -
  let ?b = "gate_run (\<lambda>b. fst (record_success b)) (\<lambda>t b. fst (record_failure t b))
    (outcomes_of ''osiptel'' ''geonode'' bad_stretch) (process_breaker \<lparr>cl_mono = 1, cl_utc = 1001\<rparr> ''osiptel'' ''geonode'')"
  have "is_open ?b 12"
    by (simp add: bad_stretch_def outcome_at_def outcomes_of_def upt_rec gate_run_def process_breaker_def new_breaker_def
        monotonic_deadline_def record_failure_def Let_def DEFAULT_THRESHOLD_def DEFAULT_BASE_COOLDOWN_S_def
        DEFAULT_MAX_COOLDOWN_S_def cooldown_for_def float_overflows_def is_open_def)
  moreover have "streaks_below 10220 0 (outcomes_of ''osiptel'' ''geonode'' bad_stretch)"
    by (simp add: bad_stretch_def outcome_at_def outcomes_of_def upt_rec)
  moreover have "\<forall>(t, s, p, h) \<in> set bad_stretch. 0 < cl_mono t \<and> cl_utc t = cl_mono t + 1000"
    by (auto simp: bad_stretch_def outcome_at_def)
  ultimately show ?thesis
    using fleet_breaker_agrees [of "''osiptel''" "[''osiptel'']" "''geonode''" "\<lparr>cl_mono = 1, cl_utc = 1001\<rparr>"
        "\<lparr>cl_mono = 12, cl_utc = 1012\<rparr>" 1000 bad_stretch]
    by (simp add: Let_def)
qed

end
