(* ===== verification/Wire.thy ===== *)
theory Wire
  imports Proxy
begin

text \<open>
  How a worker packs the archived result of a lookup: \<open>base64\<close> with strict decoding and the compact
  form of \<open>json.dumps\<close>. What was encoded decodes to itself.
\<close>

section \<open>Base64\<close>

definition b64_char :: "nat \<Rightarrow> char" where
  "b64_char n =
     (if n < 26 then char_of (65 + n)
      else if n < 52 then char_of (71 + n)
      else if n < 62 then char_of (n - 4)
      else if n = 62 then CHR ''+'' else CHR ''/'')"

definition b64_value :: "char \<Rightarrow> nat option" where
  "b64_value c =
     (let n = code_point c
      in if 65 \<le> n \<and> n \<le> 90 then Some (n - 65)
         else if 97 \<le> n \<and> n \<le> 122 then Some (n - 71)
         else if 48 \<le> n \<and> n \<le> 57 then Some (n + 4)
         else if c = CHR ''+'' then Some 62
         else if c = CHR ''/'' then Some 63
         else None)"

text \<open>A byte is a character.\<close>

fun b64encode :: "pystr \<Rightarrow> pystr" where
  "b64encode [] = []"
| "b64encode [a] =
     (let n = code_point a
      in [b64_char (n div 4), b64_char (n mod 4 * 16), CHR ''='', CHR ''=''])"
| "b64encode [a, b] =
     (let n = code_point a; m = code_point b
      in [b64_char (n div 4), b64_char (n mod 4 * 16 + m div 16), b64_char (m mod 16 * 4), CHR ''=''])"
| "b64encode (a # b # c # s) =
     (let n = code_point a; m = code_point b; k = code_point c
      in [b64_char (n div 4), b64_char (n mod 4 * 16 + m div 16), b64_char (m mod 16 * 4 + k div 64),
          b64_char (k mod 64)] @ b64encode s)"

text \<open>The bytes of up to four digits: the bits that do not fill a byte are dropped.\<close>

fun b64_bytes :: "nat list \<Rightarrow> pystr" where
  "b64_bytes [x, y] = [char_of (x * 4 + y div 16)]"
| "b64_bytes [x, y, z] = [char_of (x * 4 + y div 16), char_of (y mod 16 * 16 + z div 4)]"
| "b64_bytes [x, y, z, w] =
     [char_of (x * 4 + y div 16), char_of (y mod 16 * 16 + z div 4), char_of (z mod 4 * 64 + w)]"
| "b64_bytes ds = []"

definition b64_digits :: "pystr \<Rightarrow> nat list option" where
  "b64_digits s =
     (if list_all (\<lambda>c. b64_value c \<noteq> None) s then Some (map (\<lambda>c. the (b64_value c)) s) else None)"

text \<open>Decoding with \<open>validate=True\<close>: None is \<open>binascii.Error\<close>.\<close>

fun b64_groups :: "pystr \<Rightarrow> pystr option" where
  "b64_groups [] = Some []"
| "b64_groups [p, q, r, s] =
     map_option b64_bytes
       (b64_digits (if s = CHR ''='' then if r = CHR ''='' then [p, q] else [p, q, r] else [p, q, r, s]))"
| "b64_groups (p # q # r # s # t) =
     (case b64_digits [p, q, r, s] of
        None \<Rightarrow> None
      | Some ds \<Rightarrow> map_option (\<lambda>rest. b64_bytes ds @ rest) (b64_groups t))"
| "b64_groups _ = None"

definition BINASCII_ERROR :: exn where
  "BINASCII_ERROR = raise_exn (BuiltinError ''binascii.Error'') ''Incorrect padding''"

definition b64decode :: "pystr \<Rightarrow> exn + pystr" where
  "b64decode s =
     (if list_ex (\<lambda>c. 128 \<le> code_point c) s
      then Inl (raise_exn ValueError ''string argument should contain only ASCII characters'')
      else case b64_groups s of None \<Rightarrow> Inl BINASCII_ERROR | Some bytes \<Rightarrow> Inr bytes)"

lemma b64_value_char: "n < 64 \<Longrightarrow> b64_value (b64_char n) = Some n"
  by (cases "n < 26"; cases "n < 52"; cases "n < 62"; cases "n = 62") (auto simp: b64_char_def b64_value_def Let_def)

lemma b64_char_ascii: "n < 64 \<Longrightarrow> code_point (b64_char n) < 128"
  by (cases "n < 26"; cases "n < 52"; cases "n < 62"; cases "n = 62") (simp_all add: b64_char_def)

lemma b64_char_plain: "n < 64 \<Longrightarrow> b64_char n \<noteq> CHR ''=''"
proof
  assume "n < 64" "b64_char n = CHR ''=''"
  then have "b64_value (CHR ''='') = Some n" using b64_value_char [of n] by simp
  then show False by (simp add: b64_value_def Let_def)
qed

lemma b64_digits_chars: "list_all (\<lambda>n. n < 64) ds \<Longrightarrow> b64_digits (map b64_char ds) = Some ds"
  by (induction ds) (auto simp: b64_digits_def b64_value_char split: if_splits)

lemma bits_high: "(a::nat) < w \<Longrightarrow> (x * w + a) div w = x"
  by simp

lemma bits_low: "(a::nat) < w \<Longrightarrow> (x * w + a) mod w = a"
  by simp

lemma byte_parts:
  fixes n :: nat assumes "n < 256"
  shows "n div 4 < 64" "n div 16 < 16" "n div 64 < 4" "n mod 4 < 4" "n mod 16 < 16" "n mod 64 < 64"
  using assms by (simp_all add: less_mult_imp_div_less)

lemma sextet: "(x::nat) < 4 \<Longrightarrow> a < 16 \<Longrightarrow> x * 16 + a < 64" "(x::nat) < 16 \<Longrightarrow> a < 4 \<Longrightarrow> x * 4 + a < 64"
  by simp_all

lemma b64_one:
  assumes "n < 256" shows "b64_digits [b64_char (n div 4), b64_char (n mod 4 * 16)] = Some [n div 4, n mod 4 * 16]
    \<and> b64_bytes [n div 4, n mod 4 * 16] = [char_of n]"
  using b64_digits_chars [of "[n div 4, n mod 4 * 16]"] byte_parts [OF assms] sextet(1) [of "n mod 4" 0] by simp

lemma b64_two:
  assumes "n < 256" "m < 256"
  shows "b64_digits [b64_char (n div 4), b64_char (n mod 4 * 16 + m div 16), b64_char (m mod 16 * 4)]
      = Some [n div 4, n mod 4 * 16 + m div 16, m mod 16 * 4]
    \<and> b64_bytes [n div 4, n mod 4 * 16 + m div 16, m mod 16 * 4] = [char_of n, char_of m]"
  using b64_digits_chars [of "[n div 4, n mod 4 * 16 + m div 16, m mod 16 * 4]"] byte_parts [OF assms(1)] byte_parts [OF assms(2)]
    sextet(1) [of "n mod 4" "m div 16"] sextet(2) [of "m mod 16" 0]
    bits_high [of "m div 16" 16 "n mod 4"] bits_low [of "m div 16" 16 "n mod 4"] by simp

lemma b64_three:
  assumes "n < 256" "m < 256" "k < 256"
  shows "b64_digits [b64_char (n div 4), b64_char (n mod 4 * 16 + m div 16), b64_char (m mod 16 * 4 + k div 64), b64_char (k mod 64)]
      = Some [n div 4, n mod 4 * 16 + m div 16, m mod 16 * 4 + k div 64, k mod 64]
    \<and> b64_bytes [n div 4, n mod 4 * 16 + m div 16, m mod 16 * 4 + k div 64, k mod 64] = [char_of n, char_of m, char_of k]"
  using b64_digits_chars [of "[n div 4, n mod 4 * 16 + m div 16, m mod 16 * 4 + k div 64, k mod 64]"]
    byte_parts [OF assms(1)] byte_parts [OF assms(2)] byte_parts [OF assms(3)]
    sextet(1) [of "n mod 4" "m div 16"] sextet(2) [of "m mod 16" "k div 64"]
    bits_high [of "m div 16" 16 "n mod 4"] bits_low [of "m div 16" 16 "n mod 4"]
    bits_high [of "k div 64" 4 "m mod 16"] bits_low [of "k div 64" 4 "m mod 16"] by simp

lemma b64_char_bytes:
  assumes "n < 256" "m < 256" "k < 256"
  shows "code_point (b64_char (n div 4)) < 128" "code_point (b64_char (n mod 4 * 16)) < 128"
    "code_point (b64_char (n mod 4 * 16 + m div 16)) < 128" "code_point (b64_char (m mod 16 * 4)) < 128"
    "code_point (b64_char (m mod 16 * 4 + k div 64)) < 128" "code_point (b64_char (k mod 64)) < 128"
  using sextet(1) [OF byte_parts(4) [OF assms(1)], of 0] sextet(2) [OF byte_parts(5) [OF assms(2)], of 0]
  by (auto intro: b64_char_ascii byte_parts(1) [OF assms(1)] byte_parts(6) [OF assms(3)]
      sextet(1) [OF byte_parts(4) [OF assms(1)] byte_parts(2) [OF assms(2)]]
      sextet(2) [OF byte_parts(5) [OF assms(2)] byte_parts(3) [OF assms(3)]])

lemma b64_encode_ascii: "list_all (\<lambda>c. code_point c < 128) (b64encode s)"
proof (induction s rule: b64encode.induct)
  case (2 a)
  then show ?case using b64_char_bytes [of "code_point a" 0 0] by (simp add: Let_def)
next
  case (3 a b)
  then show ?case using b64_char_bytes [of "code_point a" "code_point b" 0] by (simp add: Let_def)
next
  case (4 a b c s)
  then show ?case using b64_char_bytes [of "code_point a" "code_point b" "code_point c"] by (simp add: Let_def)
qed simp

lemma b64_roundtrip_groups: "b64_groups (b64encode s) = Some s"
proof (induction s rule: b64encode.induct)
  case (2 a)
  then show ?case using b64_one [of "code_point a"] by (simp add: Let_def)
next
  case (3 a b)
  have "b64_char (code_point b mod 16 * 4) \<noteq> CHR ''=''"
    by (rule b64_char_plain) (use sextet(2) [of "code_point b mod 16" 0] in simp)
  then show ?case using b64_two [of "code_point a" "code_point b"] by (simp add: Let_def)
next
  case (4 a b c s)
  have "b64_char (code_point c mod 64) \<noteq> CHR ''=''" by (rule b64_char_plain) simp
  then show ?case using 4 b64_three [of "code_point a" "code_point b" "code_point c"]
    by (cases "b64encode s") (simp_all add: Let_def)
qed simp

lemma b64_roundtrip: "b64decode (b64encode s) = Inr s"
proof -
  have "\<not> list_ex (\<lambda>c. 128 \<le> code_point c) (b64encode s)"
    using b64_encode_ascii [of s] by (auto simp: list_ex_iff list_all_iff)
  then show ?thesis by (simp add: b64decode_def b64_roundtrip_groups)
qed

section \<open>Compact JSON\<close>

text \<open>\<open>json.dumps\<close> with the separators \<open>(",", ":")\<close>.\<close>

fun dumps_compact :: "json \<Rightarrow> pystr" where
  "dumps_compact (JList xs) = CHR ''['' # py_join '','' (map dumps_compact xs) @ [CHR '']'']"
| "dumps_compact (JObj kvs) =
     CHR ''{'' # py_join '','' (map (\<lambda>kv. dumps_str (fst kv) @ '':'' @ dumps_compact (snd kv)) kvs) @ [CHR ''}'']"
| "dumps_compact v = dumps v"

text \<open>Every character outside printable ASCII becomes an escape, as \<open>json.dumps\<close> does by default.\<close>

definition escape_ascii :: "pystr \<Rightarrow> pystr" where
  "escape_ascii s =
     concat (map (\<lambda>c. if 127 \<le> code_point c
       then [escape_char, CHR ''u'', CHR ''0'', CHR ''0'', hex_digit (code_point c div 16),
             hex_digit (code_point c mod 16)]
       else [c]) s)"

end
