(* ===== verification/WorkerAgent.thy ===== *)
theory WorkerAgent
  imports Fetch Outcomes Slots QueueProps FleetBreaker Wire
begin

text \<open>
  The worker of \<open>portal/worker/agent.py\<close>. \<open>agent\<close> is the state its tasks share: for every lane its
  session, its queue of one claimed item and whether it is idle, the breakers and the cache of
  revealed credentials. The dispatch task claims items for the idle lanes; a lane adopts the item's
  credential and a slot, looks the document up and publishes the result. Tasks interleave only at
  an await, so what happens between two awaits is one definition.
\<close>

section \<open>State\<close>

definition IDLE_SESSION_CLOSE_AFTER :: nat where
  "IDLE_SESSION_CLOSE_AFTER = 5"

definition DISPATCH_BASE_BACKOFF_SECONDS :: seconds where
  "DISPATCH_BASE_BACKOFF_SECONDS = 5"

definition DISPATCH_MAX_BACKOFF_SECONDS :: seconds where
  "DISPATCH_MAX_BACKOFF_SECONDS = 20"

definition LISTEN_RECONNECT_BASE_SECONDS :: seconds where
  "LISTEN_RECONNECT_BASE_SECONDS = 1"

definition LISTEN_RECONNECT_MAX_SECONDS :: seconds where
  "LISTEN_RECONNECT_MAX_SECONDS = 30"

definition ENROLL_RETRY_BASE_SECONDS :: seconds where
  "ENROLL_RETRY_BASE_SECONDS = 2"

definition ENROLL_RETRY_MAX_SECONDS :: seconds where
  "ENROLL_RETRY_MAX_SECONDS = 60"

definition CREDENTIAL_CACHE_SIZE :: nat where
  "CREDENTIAL_CACHE_SIZE = 32"

definition CREDENTIAL_CACHE_TTL_SECONDS :: seconds where
  "CREDENTIAL_CACHE_TTL_SECONDS = 300"

type_synonym work_key = "pystr \<times> uuid"

record lane_session =
  ls_state :: worker_state
  ls_provider :: "provider option"
  ls_key :: "work_key option"
  ls_idle_polls :: nat
  ls_held_slot :: "nat option"
  ls_held_provider :: "pystr option"

definition new_lane_session :: lane_session where
  "new_lane_session =
     \<lparr>ls_state = new_worker_state, ls_provider = None, ls_key = None, ls_idle_polls = 0,
      ls_held_slot = None, ls_held_provider = None\<rparr>"

record credential_lease =
  cl_provider :: pystr
  cl_config :: py_dict

type_synonym credential_cache = "(uuid \<times> (credential_lease \<times> seconds)) list"

record agent =
  ag_worker :: pystr
  ag_sources :: "pystr list"
  ag_lanes :: "lane_session list"
  ag_queues :: "claim_row option list"
  ag_idle :: "nat list"
  ag_wake :: bool
  ag_breakers :: "((pystr \<times> pystr) \<times> breaker) list"
  ag_cache :: credential_cache
  ag_current_job :: "uuid option"

definition new_agent :: "pystr \<Rightarrow> pystr list \<Rightarrow> nat \<Rightarrow> agent" where
  "new_agent worker sources concurrency =
     \<lparr>ag_worker = worker, ag_sources = sources, ag_lanes = replicate concurrency new_lane_session,
      ag_queues = replicate concurrency None, ag_idle = [], ag_wake = False, ag_breakers = [],
      ag_cache = [], ag_current_job = None\<rparr>"

definition set_lane :: "nat \<Rightarrow> lane_session \<Rightarrow> agent \<Rightarrow> agent" where
  "set_lane l ls ag = ag\<lparr>ag_lanes := (ag_lanes ag)[l := ls]\<rparr>"

section \<open>Dispatch\<close>

definition QUEUE_FULL :: exn where
  "QUEUE_FULL = raise_exn (BuiltinError ''QueueFull'') []"

definition put_nowait :: "nat \<Rightarrow> claim_row \<Rightarrow> agent \<Rightarrow> exn + agent" where
  "put_nowait l w ag =
     (if ag_queues ag ! l \<noteq> None then Inl QUEUE_FULL
      else Inr (ag\<lparr>ag_queues := (ag_queues ag)[l := Some w]\<rparr>))"

text \<open>Pairs lanes and items like \<open>zip\<close>; the lanes beyond the items are left.\<close>

fun assign_pairs :: "(nat \<times> claim_row) list \<Rightarrow> agent \<Rightarrow> agent \<times> exn option" where
  "assign_pairs [] ag = (ag, None)"
| "assign_pairs ((l, w) # ps) ag =
     (case put_nowait l w ag of
        Inl e \<Rightarrow> (ag, Some e)
      | Inr ag \<Rightarrow>
          assign_pairs ps
            (ag\<lparr>ag_idle := filter (\<lambda>k. k \<noteq> l) (ag_idle ag),
                ag_lanes := (ag_lanes ag)[l := (ag_lanes ag ! l)\<lparr>ls_idle_polls := 0\<rparr>]\<rparr>))"

definition assign :: "nat list \<Rightarrow> claim_row list \<Rightarrow> agent \<Rightarrow> agent \<times> (exn + nat list)" where
  "assign lanes claimed ag =
     (case assign_pairs (zip lanes claimed) ag of
        (ag, Some e) \<Rightarrow> (ag, Inl e)
      | (ag, None) \<Rightarrow> (ag, Inr (drop (length claimed) lanes)))"

text \<open>The dictionary of idle lanes by key, in the order the keys are first met.\<close>

definition add_to_group :: "agent \<Rightarrow> nat \<Rightarrow> (work_key option \<times> nat list) list \<Rightarrow> (work_key option \<times> nat list) list" where
  "add_to_group ag l groups =
     (let key = ls_key (ag_lanes ag ! l)
      in case map_of groups key of
           None \<Rightarrow> groups @ [(key, [l])]
         | Some _ \<Rightarrow> map (\<lambda>(k, ls). (k, if k = key then ls @ [l] else ls)) groups)"

definition idle_groups :: "agent \<Rightarrow> (work_key option \<times> nat list) list" where
  "idle_groups ag = fold (add_to_group ag) (ag_idle ag) []"

text \<open>
  A dispatch under way: the items claimed so far and the lanes left without one. \<open>nows\<close> gives the
  clocks of the claiming transactions, in order.
\<close>

record dispatch =
  di_agent :: agent
  di_db :: queue_db
  di_claimed :: nat
  di_remaining :: "nat list"

definition claim_for ::
  "seconds \<Rightarrow> nat list \<Rightarrow> work_key option \<Rightarrow> dispatch \<Rightarrow> dispatch \<times> nat list call_result" where
  "claim_for now lanes key di =
     (case claim_many now (ag_worker (di_agent di)) (ag_sources (di_agent di)) (int (length lanes)) key (di_db di) of
        Refused e \<Rightarrow> (di, Refused e)
      | Failed e \<Rightarrow> (di, Failed e)
      | Done (claimed, db) \<Rightarrow>
          (case assign lanes claimed (di_agent di) of
             (ag, Inl e) \<Rightarrow>
               (di\<lparr>di_agent := ag, di_db := db, di_claimed := di_claimed di + length claimed\<rparr>, Failed e)
           | (ag, Inr left) \<Rightarrow>
               (di\<lparr>di_agent := ag, di_db := db, di_claimed := di_claimed di + length claimed\<rparr>, Done left)))"

fun dispatch_groups ::
  "(work_key option \<times> nat list) list \<Rightarrow> (nat \<Rightarrow> seconds) \<Rightarrow> nat \<Rightarrow> dispatch \<Rightarrow> dispatch \<times> nat call_result" where
  "dispatch_groups [] nows k di = (di, Done k)"
| "dispatch_groups ((None, lanes) # groups) nows k di =
     dispatch_groups groups nows k (di\<lparr>di_remaining := di_remaining di @ lanes\<rparr>)"
| "dispatch_groups ((Some key, lanes) # groups) nows k di =
     (case claim_for (nows k) lanes (Some key) di of
        (di, Refused e) \<Rightarrow> (di, Refused e)
      | (di, Failed e) \<Rightarrow> (di, Failed e)
      | (di, Done left) \<Rightarrow>
          dispatch_groups groups nows (Suc k) (di\<lparr>di_remaining := di_remaining di @ left\<rparr>))"

definition poll_idle :: "nat list \<Rightarrow> agent \<Rightarrow> agent" where
  "poll_idle lanes ag =
     fold (\<lambda>l ag. set_lane l ((ag_lanes ag ! l)\<lparr>ls_idle_polls := ls_idle_polls (ag_lanes ag ! l) + 1\<rparr>) ag) lanes ag"

definition dispatch_once :: "(nat \<Rightarrow> seconds) \<Rightarrow> agent \<Rightarrow> queue_db \<Rightarrow> agent \<times> queue_db \<times> nat call_result" where
  "dispatch_once nows ag db =
     (if ag_idle ag = [] then (ag, db, Done 0)
      else
        (case dispatch_groups (idle_groups ag) nows 0
                \<lparr>di_agent = ag, di_db = db, di_claimed = 0, di_remaining = []\<rparr> of
           (di, Refused e) \<Rightarrow> (di_agent di, di_db di, Refused e)
         | (di, Failed e) \<Rightarrow> (di_agent di, di_db di, Failed e)
         | (di, Done k) \<Rightarrow>
             if di_remaining di = [] then (di_agent di, di_db di, Done (di_claimed di))
             else
               (case claim_for (nows k) (di_remaining di) None di of
                  (di, Refused e) \<Rightarrow> (di_agent di, di_db di, Refused e)
                | (di, Failed e) \<Rightarrow> (di_agent di, di_db di, Failed e)
                | (di, Done left) \<Rightarrow> (poll_idle left (di_agent di), di_db di, Done (di_claimed di)))))"

text \<open>The exceptions the dispatch and heartbeat tasks log and survive: \<open>asyncpg.PostgresError\<close> and \<open>OSError\<close>.\<close>

definition database_error :: "exn \<Rightarrow> bool" where
  "database_error e \<longleftrightarrow>
     (case exn_class e of
        BuiltinError n \<Rightarrow> n \<in> {''PostgresError'', ''CheckViolationError'', ''NotNullViolationError'', ''OSError''}
      | _ \<Rightarrow> False)"

text \<open>A turn of the dispatch task: the new back-off, or None when an exception ends the task.\<close>

definition dispatch_turn ::
  "(nat \<Rightarrow> seconds) \<Rightarrow> seconds \<Rightarrow> agent \<Rightarrow> queue_db \<Rightarrow> agent \<times> queue_db \<times> seconds option" where
  "dispatch_turn nows backoff ag db =
     (let (ag, db, r) = dispatch_once nows (ag\<lparr>ag_wake := False\<rparr>) db;
          next_wait = (\<lambda>n. if n = 0 then min (backoff * 2) DISPATCH_MAX_BACKOFF_SECONDS
                      else DISPATCH_BASE_BACKOFF_SECONDS)
      in case r of
           Done n \<Rightarrow> (ag, db, Some (next_wait (n :: nat)))
         | Failed e \<Rightarrow> (ag, db, if database_error e then Some (next_wait 0) else None)
         | Refused e \<Rightarrow> (ag, db, None))"

section \<open>Revealed credentials\<close>

text \<open>
  The cache, oldest use first. A miss awaits the reply of \<open>/reveal-credential\<close>, and other lanes use
  the cache meanwhile: the lookup and the store are separate steps.
\<close>

definition cache_lookup :: "seconds \<Rightarrow> uuid \<Rightarrow> credential_cache \<Rightarrow> credential_cache \<times> credential_lease option" where
  "cache_lookup now version cache =
     (let without = filter (\<lambda>e. fst e \<noteq> version) cache
      in case map_of cache version of
           None \<Rightarrow> (cache, None)
         | Some (credential, expires_at) \<Rightarrow>
             if now < expires_at then (without @ [(version, (credential, expires_at))], Some credential)
             else (without, None))"

definition cache_store :: "seconds \<Rightarrow> uuid \<Rightarrow> credential_lease \<Rightarrow> credential_cache \<Rightarrow> credential_cache" where
  "cache_store replied version credential cache =
     (let entry = (credential, replied + CREDENTIAL_CACHE_TTL_SECONDS);
          cache =
            (if map_of cache version = None then cache @ [(version, entry)]
             else map (\<lambda>(v, e). (v, if v = version then entry else e)) cache)
      in if CREDENTIAL_CACHE_SIZE < length cache then tl cache else cache)"

definition reveal_credential ::
  "seconds \<Rightarrow> (credential_cache \<Rightarrow> credential_cache) \<Rightarrow> (exn + credential_lease) \<Rightarrow> seconds \<Rightarrow> uuid
     \<Rightarrow> credential_cache \<Rightarrow> credential_cache \<times> (exn + credential_lease)" where
  "reveal_credential now others reply replied version cache =
     (case cache_lookup now version cache of
        (cache, Some credential) \<Rightarrow> (cache, Inr credential)
      | (cache, None) \<Rightarrow>
          (case reply of
             Inl e \<Rightarrow> (others cache, Inl e)
           | Inr credential \<Rightarrow> (cache_store replied version credential (others cache), Inr credential)))"

section \<open>Slots\<close>

text \<open>
  The turns of the waiting loop: the clock and the rows each claim finds. None means that it still
  waits after them. A provider without a pool numbers its lanes from 1.
\<close>

fun claim_slot_turns ::
  "pystr \<Rightarrow> pystr \<Rightarrow> nat \<Rightarrow> (seconds \<times> slot_row list) list \<Rightarrow> (nat \<times> slot_row list) option" where
  "claim_slot_turns provider worker lane [] = None"
| "claim_slot_turns provider worker lane ((now, rows) # turns) =
     (case claim_slot provider lane now worker rows of
        (Some key, rows) \<Rightarrow> Some (snd key, rows)
      | (None, rows) \<Rightarrow> claim_slot_turns provider worker lane turns)"

definition has_slot_pool :: "pystr \<Rightarrow> exn + bool" where
  "has_slot_pool provider =
     bind_res (spec_for provider) (\<lambda>spec. Inr (pt_slot_pool (sp_tuning spec) \<noteq> None))"

definition agent_claim_slot ::
  "pystr \<Rightarrow> pystr \<Rightarrow> nat \<Rightarrow> (seconds \<times> slot_row list) list \<Rightarrow> slot_row list
     \<Rightarrow> exn + (nat \<times> slot_row list) option" where
  "agent_claim_slot provider worker lane turns rows =
     bind_res (has_slot_pool provider) (\<lambda>pool.
       if \<not> pool then Inr (Some (lane + 1, rows)) else Inr (claim_slot_turns provider worker lane turns))"

text \<open>A database error during the release is the argument \<open>failed\<close>.\<close>

definition agent_release_slot ::
  "pystr \<Rightarrow> pystr \<Rightarrow> nat \<Rightarrow> bool \<Rightarrow> slot_row list \<Rightarrow> exn + bool \<times> slot_row list" where
  "agent_release_slot provider worker slot failed rows =
     bind_res (has_slot_pool provider) (\<lambda>pool.
       if \<not> pool then Inr (True, rows)
       else if failed then Inr (False, rows)
       else Inr (True, release_slot (provider, slot) worker rows))"

text \<open>
  Everything closing a session does: the suppressed exception of \<open>close_session\<close> leaves no trace but
  the state, a failed release keeps the slot for a later try.
\<close>

definition close_and_release_lane ::
  "pystr \<Rightarrow> close_env \<Rightarrow> bool \<Rightarrow> lane_session \<Rightarrow> slot_row list
     \<Rightarrow> lane_session \<times> session_event list \<times> slot_row list \<times> exn option" where
  "close_and_release_lane worker ce failed ls rows =
     (let (st, tr) =
            (case ls_provider ls of
               None \<Rightarrow> (ls_state ls, [])
             | Some p \<Rightarrow> (case close_session p ce (ls_state ls) of (st, tr, _) \<Rightarrow> (st, tr)));
          ls = ls\<lparr>ls_state := st\<rparr>
      in case (ls_held_slot ls, ls_held_provider ls) of
           (Some slot, Some provider) \<Rightarrow>
             (case agent_release_slot provider worker slot failed rows of
                Inl e \<Rightarrow> (ls, tr, rows, Some e)
              | Inr (True, rows) \<Rightarrow> (ls\<lparr>ls_held_slot := None, ls_held_provider := None\<rparr>, tr, rows, None)
              | Inr (False, rows) \<Rightarrow> (ls, tr, rows, None))
         | _ \<Rightarrow> (ls, tr, rows, None))"

text \<open>What the heartbeat renews.\<close>

definition held_slots :: "agent \<Rightarrow> slot_key list" where
  "held_slots ag =
     concat (map (\<lambda>ls. case (ls_held_slot ls, ls_held_provider ls) of
                         (Some slot, Some provider) \<Rightarrow> [(provider, slot)] | _ \<Rightarrow> []) (ag_lanes ag))"

section \<open>Adopting an item\<close>

record work_lease =
  wl_item :: uuid
  wl_job :: uuid
  wl_source :: pystr
  wl_document :: pystr
  wl_fence :: nat
  wl_version :: uuid
  wl_credential :: credential_lease

text \<open>What the outside answers while a lane adopts an item.\<close>

record adopt_env =
  ad_close :: close_env
  ad_release_fails :: bool
  ad_now :: seconds
  ad_others :: "credential_cache \<Rightarrow> credential_cache"
  ad_reply :: "exn + credential_lease"
  ad_replied :: seconds
  ad_turns :: "slot_row list \<Rightarrow> (seconds \<times> slot_row list) list"

datatype adopted = Adopted work_lease | AdoptFailed exn | AwaitingSlot

definition adopt ::
  "adopt_env \<Rightarrow> nat \<Rightarrow> claim_row \<Rightarrow> agent \<Rightarrow> slot_row list \<Rightarrow> agent \<times> slot_row list \<times> adopted" where
  "adopt env l claimed ag rows =
     (let key = (cw_source claimed, cw_credential claimed);
          ls = ag_lanes ag ! l;
          (ls, tr, rows, err) =
            (if ls_key ls \<noteq> None \<and> ls_key ls \<noteq> Some key
             then close_and_release_lane (ag_worker ag) (ad_close env) (ad_release_fails env) ls rows
             else (ls, [], rows, None));
          ag = set_lane l ls ag
      in case err of
           Some e \<Rightarrow> (ag, rows, AdoptFailed e)
         | None \<Rightarrow>
             (case reveal_credential (ad_now env) (ad_others env) (ad_reply env) (ad_replied env) (cw_credential claimed) (ag_cache ag) of
                (cache, Inl e) \<Rightarrow> (ag\<lparr>ag_cache := cache\<rparr>, rows, AdoptFailed e)
              | (cache, Inr credential) \<Rightarrow>
                  let ag = ag\<lparr>ag_cache := cache\<rparr>
                  in case provider_from_values (cl_provider credential) (map_of (cl_config credential)) of
                       Inl e \<Rightarrow> (ag, rows, AdoptFailed e)
                     | Inr provider \<Rightarrow>
                         (case (if ls_held_slot ls = None
                                then map_sum id (map_option (\<lambda>(slot, rows). (Some slot, Some (cl_provider credential), rows)))
                                       (agent_claim_slot (cl_provider credential) (ag_worker ag) l (ad_turns env rows) rows)
                                else Inr (Some (ls_held_slot ls, ls_held_provider ls, rows))) of
                            Inl e \<Rightarrow> (ag, rows, AdoptFailed e)
                          | Inr None \<Rightarrow> (ag, rows, AwaitingSlot)
                          | Inr (Some (slot, slot_provider, rows)) \<Rightarrow>
                              (set_lane l (ls\<lparr>ls_held_slot := slot, ls_held_provider := slot_provider, ls_key := Some key,
                                              ls_provider := Some provider, ls_idle_polls := 0\<rparr>)
                                 (ag\<lparr>ag_current_job := Some (cw_job claimed)\<rparr>),
                               rows,
                               Adopted \<lparr>wl_item = cw_item claimed, wl_job = cw_job claimed, wl_source = cw_source claimed,
                                        wl_document = cw_document claimed, wl_fence = cw_fence claimed,
                                        wl_version = cw_credential claimed, wl_credential = credential\<rparr>))))"

section \<open>Executing\<close>

record execute_result =
  xr_document :: pystr
  xr_source :: pystr
  xr_status :: pystr
  xr_columns :: "pystr list"
  xr_rows :: "row list"
  xr_error_code :: pystr
  xr_attempts :: "attempt_record list"

definition lane_breaker :: "clock \<Rightarrow> pystr \<Rightarrow> pystr \<Rightarrow> agent \<Rightarrow> breaker" where
  "lane_breaker now source provider ag =
     (case map_of (ag_breakers ag) (source, provider) of
        Some b \<Rightarrow> b
      | None \<Rightarrow> new_breaker now provider (ag_worker ag) source DEFAULT_THRESHOLD DEFAULT_BASE_COOLDOWN_S
                  DEFAULT_MAX_COOLDOWN_S None False)"

definition execute_params :: "site \<Rightarrow> provider \<Rightarrow> nat \<Rightarrow> doc \<Rightarrow> fetch_params" where
  "execute_params s p slot d =
     \<lparr>fp_site = s, fp_provider = p, fp_slot_id = int slot, fp_doc = d,
      fp_cfg = \<lparr>wc_session_budget = site_session_budget s, wc_wait_min_s = 0, wc_wait_max_s = 0,
                 wc_ban_cooldown_s = pt_ban_cooldown_s (provider_tuning_of p)\<rparr>\<rparr>"

definition attempt_record_of :: "attempt_outcome \<Rightarrow> attempt_record" where
  "attempt_record_of a =
     \<lparr>ar_fetch_attempt = ao_attempt a, ar_outcome = status_value (ao_status a), ar_elapsed_ms = ao_elapsed_ms a,
      ar_error_code = (if ao_error_code a = [] then None else Some (ao_error_code a))\<rparr>"

definition execute_result_of :: "work_lease \<Rightarrow> site \<Rightarrow> result \<Rightarrow> execute_result" where
  "execute_result_of lease s r =
     \<lparr>xr_document = wl_document lease, xr_source = wl_source lease, xr_status = status_value (res_status r),
      xr_columns = site_columns s, xr_rows = res_rows r, xr_error_code = res_error_code r,
      xr_attempts = map attempt_record_of (res_attempts r)\<rparr>"

definition ASSERTION_ERROR :: exn where
  "ASSERTION_ERROR = raise_exn (BuiltinError ''AssertionError'') []"

definition KEY_ERROR :: "pystr \<Rightarrow> exn" where
  "KEY_ERROR key = raise_exn (BuiltinError ''KeyError'') (py_repr key)"

definition set_breaker :: "pystr \<times> pystr \<Rightarrow> breaker \<Rightarrow> agent \<Rightarrow> agent" where
  "set_breaker key b ag =
     ag\<lparr>ag_breakers := (key, b) # filter (\<lambda>e. fst e \<noteq> key) (ag_breakers ag)\<rparr>"

text \<open>
  The lookup of a leased document. The breaker of the source and provider is shared by the lanes:
  it starts from what the others left and \<open>envs\<close> holds what they do meanwhile.
\<close>

datatype executed = Executed execute_result | ExecuteFailed exn | StillLooking

definition execute ::
  "clock \<Rightarrow> attempt_env list \<Rightarrow> nat \<Rightarrow> work_lease \<Rightarrow> provider \<Rightarrow> agent
     \<Rightarrow> agent \<times> session_event list \<times> executed" where
  "execute now envs l lease p ag =
     (let ls = ag_lanes ag ! l; provider = cl_provider (wl_credential lease); key = (wl_source lease, provider)
      in case map_of SITES (wl_source lease) of
           None \<Rightarrow> (ag, [], ExecuteFailed (KEY_ERROR (wl_source lease)))
         | Some s \<Rightarrow>
             let b = lane_breaker now (wl_source lease) provider ag; ag = set_breaker key b ag
             in case ls_held_slot ls of
                  None \<Rightarrow> (ag, [], ExecuteFailed ASSERTION_ERROR)
                | Some slot \<Rightarrow>
                    (case parse_doc (wl_document lease) of
                       Inl e \<Rightarrow> (ag, [], ExecuteFailed e)
                     | Inr d \<Rightarrow>
                         let (outcome, la) =
                               fetch_one (execute_params s p slot d) envs
                                 \<lparr>ln_state = ls_state ls, ln_breaker = b, ln_snapshots = [], ln_trace = []\<rparr>;
                             ag = set_breaker key (ln_breaker la) (set_lane l (ls\<lparr>ls_state := ln_state la\<rparr>) ag)
                         in (ag, ln_trace la,
                             case outcome of
                               Waiting \<Rightarrow> StillLooking
                             | Raised e \<Rightarrow> ExecuteFailed e
                             | Returned r \<Rightarrow> Executed (execute_result_of lease s r))))"

section \<open>Publishing\<close>

text \<open>\<open>PublishRequest\<close> of \<open>portal/worker/protocol.py\<close>.\<close>

record publish_request =
  pr_item :: uuid
  pr_fence :: nat
  pr_lane :: nat
  pr_source :: pystr
  pr_provider :: pystr
  pr_healthy :: bool
  pr_document :: pystr
  pr_status :: pystr
  pr_columns :: "pystr list"
  pr_rows :: "row list"
  pr_error_code :: "pystr option"
  pr_content :: pystr
  pr_attempts :: "attempt_record list"

definition attempt_json :: "attempt_record \<Rightarrow> json" where
  "attempt_json a =
     JObj [(''fetch_attempt'', JInt (int (ar_fetch_attempt a))), (''outcome'', JStr (ar_outcome a)),
           (''elapsed_ms'', JInt (ar_elapsed_ms a)),
           (''error_code'', case ar_error_code a of None \<Rightarrow> JNull | Some e \<Rightarrow> JStr e)]"

definition result_json :: "execute_result \<Rightarrow> json" where
  "result_json r =
     JObj [(''document'', JStr (xr_document r)), (''source'', JStr (xr_source r)), (''status'', JStr (xr_status r)),
           (''columns'', JList (map JStr (xr_columns r))),
           (''rows'', JList (map (\<lambda>row. JList (map cell_json row)) (xr_rows r))),
           (''error_code'', JStr (xr_error_code r)), (''attempts'', JList (map attempt_json (xr_attempts r)))]"

definition publish_request_of :: "nat \<Rightarrow> work_lease \<Rightarrow> execute_result \<Rightarrow> publish_request" where
  "publish_request_of l lease r =
     \<lparr>pr_item = wl_item lease, pr_fence = wl_fence lease, pr_lane = l, pr_source = wl_source lease,
      pr_provider = cl_provider (wl_credential lease), pr_healthy = (xr_status r \<noteq> ''failed''),
      pr_document = xr_document r, pr_status = xr_status r, pr_columns = xr_columns r, pr_rows = xr_rows r,
      pr_error_code = Some (xr_error_code r),
      pr_content = b64encode (escape_ascii (dumps_compact (result_json r))), pr_attempts = xr_attempts r\<rparr>"

section \<open>The lane loop\<close>

text \<open>
  The top of the loop: the lane offers itself, and closes its session when it was polled idle often
  enough. The flag says whether it closes.
\<close>

definition lane_top ::
  "close_env \<Rightarrow> bool \<Rightarrow> nat \<Rightarrow> agent \<Rightarrow> slot_row list \<Rightarrow> bool \<times> agent \<times> slot_row list \<times> exn option" where
  "lane_top ce failed l ag rows =
     (let ag = ag\<lparr>ag_idle := (if l \<in> set (ag_idle ag) then ag_idle ag else ag_idle ag @ [l])\<rparr>;
          ls = ag_lanes ag ! l
      in if ls_provider ls \<noteq> None \<and> IDLE_SESSION_CLOSE_AFTER \<le> ls_idle_polls ls
         then
           (case close_and_release_lane (ag_worker ag) ce failed ls rows of
              (ls, tr, rows, Some e) \<Rightarrow> (True, set_lane l ls ag, rows, Some e)
            | (ls, tr, rows, None) \<Rightarrow>
                (True, set_lane l (ls\<lparr>ls_provider := None, ls_key := None\<rparr>) ag, rows, None))
         else (False, ag, rows, None))"

text \<open>\<open>queue.get\<close>, None while the queue is empty.\<close>

definition lane_take :: "nat \<Rightarrow> agent \<Rightarrow> (claim_row \<times> agent) option" where
  "lane_take l ag =
     (case ag_queues ag ! l of
        None \<Rightarrow> None
      | Some w \<Rightarrow> Some (w, ag\<lparr>ag_queues := (ag_queues ag)[l := None]\<rparr>))"

text \<open>The exceptions a lane survives: the database's, httpx's and \<open>OSError\<close>.\<close>

definition lane_survives :: "exn \<Rightarrow> bool" where
  "lane_survives e \<longleftrightarrow> database_error e \<or> exn_class e = BuiltinError ''HTTPError''"

text \<open>
  One item: adopt, execute, publish. \<open>post\<close> is the reply of \<open>/publish\<close>. Either way the dispatch task
  is woken.
\<close>

datatype lane_end = LaneGoesOn | LaneDies exn | LaneWaits

definition lane_turn ::
  "adopt_env \<Rightarrow> clock \<Rightarrow> attempt_env list \<Rightarrow> (publish_request \<Rightarrow> exn option) \<Rightarrow> nat \<Rightarrow> claim_row
     \<Rightarrow> agent \<Rightarrow> slot_row list \<Rightarrow> agent \<times> slot_row list \<times> lane_end" where
  "lane_turn env now envs post l w ag rows =
     (let ended = (\<lambda>e. if lane_survives e then LaneGoesOn else LaneDies e);
          woken = (\<lambda>ag. ag\<lparr>ag_wake := True\<rparr>)
      in case adopt env l w ag rows of
           (ag, rows, AdoptFailed e) \<Rightarrow> (woken ag, rows, ended e)
         | (ag, rows, AwaitingSlot) \<Rightarrow> (ag, rows, LaneWaits)
         | (ag, rows, Adopted lease) \<Rightarrow>
             (case ls_provider (ag_lanes ag ! l) of
                None \<Rightarrow> (woken ag, rows, ended ASSERTION_ERROR)
              | Some p \<Rightarrow>
                  (case execute now envs l lease p ag of
                     (ag, tr, ExecuteFailed e) \<Rightarrow> (woken ag, rows, ended e)
                   | (ag, tr, StillLooking) \<Rightarrow> (ag, rows, LaneWaits)
                   | (ag, tr, Executed r) \<Rightarrow>
                       (woken ag, rows,
                        case post (publish_request_of l lease r) of None \<Rightarrow> LaneGoesOn | Some e \<Rightarrow> ended e))))"

text \<open>The end of a lane: it withdraws and gives back what it holds.\<close>

definition lane_stop ::
  "close_env \<Rightarrow> bool \<Rightarrow> nat \<Rightarrow> agent \<Rightarrow> slot_row list \<Rightarrow> agent \<times> slot_row list" where
  "lane_stop ce failed l ag rows =
     (let ag = ag\<lparr>ag_idle := filter (\<lambda>k. k \<noteq> l) (ag_idle ag)\<rparr>
      in case close_and_release_lane (ag_worker ag) ce failed (ag_lanes ag ! l) rows of
           (ls, tr, rows, _) \<Rightarrow> (set_lane l ls ag, rows))"

section \<open>Start\<close>

text \<open>
  Reconnecting the listener and enrolling: each failed try doubles the wait. Enrolling gives up once
  the wait is over its bound; the answers of the tries are arguments.
\<close>

definition listen_delay :: "bool \<Rightarrow> seconds \<Rightarrow> seconds" where
  "listen_delay answered delay =
     (if answered then LISTEN_RECONNECT_BASE_SECONDS else min (delay * 2) LISTEN_RECONNECT_MAX_SECONDS)"

definition TRANSPORT_ERROR :: exn_class where
  "TRANSPORT_ERROR = BuiltinError ''TransportError''"

fun self_enroll :: "seconds \<Rightarrow> (exn + 'a) list \<Rightarrow> seconds list \<times> (exn + 'a) option" where
  "self_enroll delay [] = ([], None)"
| "self_enroll delay (Inr enrolled # replies) = ([], Some (Inr enrolled))"
| "self_enroll delay (Inl e # replies) =
     (if exn_class e \<noteq> TRANSPORT_ERROR then ([], Some (Inl e))
      else if ENROLL_RETRY_MAX_SECONDS < delay then ([], Some (Inl e))
      else (case self_enroll (delay * 2) replies of (slept, r) \<Rightarrow> (delay # slept, r)))"

record agent_args =
  aa_api_url :: pystr
  aa_worker_id :: pystr
  aa_bootstrap_token :: pystr
  aa_hostname :: pystr
  aa_dsn :: pystr
  aa_credential :: pystr
  aa_sources :: pystr
  aa_concurrency :: int

definition SYSTEM_EXIT :: "pystr \<Rightarrow> exn" where
  "SYSTEM_EXIT msg = raise_exn (BuiltinError ''SystemExit'') msg"

record agent_options =
  ao_api_url :: pystr
  ao_credential :: pystr
  ao_dsn :: pystr
  ao_worker_id :: pystr
  ao_sources :: "pystr list"
  ao_concurrency :: int

definition agent_sources :: "pystr \<Rightarrow> pystr list" where
  "agent_sources s = map py_strip (filter (\<lambda>v. py_strip v \<noteq> []) (py_split CHR '','' s))"

definition rstrip_slash :: "pystr \<Rightarrow> pystr" where
  "rstrip_slash s = rev (dropWhile (\<lambda>c. c = CHR ''/'') (rev s))"

text \<open>\<open>enroll\<close> is what enrolling with the bootstrap token yields.\<close>

definition run_agent :: "(exn + pystr \<times> pystr) \<Rightarrow> agent_args \<Rightarrow> exn + agent_options" where
  "run_agent enroll args =
     (if aa_api_url args = [] then Inl (SYSTEM_EXIT ''PORTAL_WORKER_API_URL is required.'')
      else if aa_worker_id args = [] then Inl (SYSTEM_EXIT ''PORTAL_WORKER_ID is required.'')
      else
        bind_res
          (if aa_bootstrap_token args \<noteq> []
           then if aa_hostname args = []
             then Inl (SYSTEM_EXIT ''PORTAL_WORKER_TAILSCALE_HOSTNAME is required to self-enroll.'')
             else enroll
           else if aa_credential args = [] \<or> aa_dsn args = []
             then Inl (SYSTEM_EXIT ''PORTAL_WORKER_BOOTSTRAP_TOKEN or both PORTAL_WORKER_CREDENTIAL and PORTAL_WORKER_DATABASE_DSN are required.'')
             else Inr (aa_credential args, aa_dsn args)) (\<lambda>(credential, dsn).
        let sources = agent_sources (aa_sources args)
        in if sources = [] then Inl (SYSTEM_EXIT ''at least one source is required'')
           else if aa_concurrency args < 1 then Inl (SYSTEM_EXIT ''concurrency must be at least 1'')
           else Inr \<lparr>ao_api_url = rstrip_slash (aa_api_url args), ao_credential = credential, ao_dsn = dsn,
                     ao_worker_id = aa_worker_id args, ao_sources = sources, ao_concurrency = aa_concurrency args\<rparr>))"

end
