(* ===== verification/WorkerDispatch.thy ===== *)
theory WorkerDispatch
  imports WorkerAgent
begin

text \<open>
  What a dispatch of the worker does with the items it claims: the leases the database grants are
  balanced against the items in the lanes' queues.
\<close>

section \<open>Leases granted by a claim\<close>

definition leases_granted :: "queue_db \<Rightarrow> uuid \<Rightarrow> nat" where
  "leases_granted db x = (case find_item x db of None \<Rightarrow> 0 | Some i \<Rightarrow> it_attempts i)"

lemma find_item_map_items:
  assumes "\<And>i. it_id (f i) = it_id i"
  shows "find_item x (map_items f db) = map_option f (find_item x db)"
proof -
  have "find (\<lambda>i. it_id i = x) (map f is) = map_option f (find (\<lambda>i. it_id i = x) is)" for "is"
    using assms by (induction "is") simp_all
  then show ?thesis by (simp add: find_item_def map_items_def)
qed

lemma promote_items [simp]: "q_items (promote_locked now db) = q_items db"
proof -
  have "q_items (running_events now ids db') = q_items db'" for ids db'
    by (induction ids arbitrary: db') simp_all
  then show ?thesis by (simp add: promote_locked_def Let_def map_jobs_def)
qed

lemma finish_items: "finish_if_drained now jid db = Inr db' \<Longrightarrow> q_items db' = q_items db"
  by (auto simp: finish_if_drained_def Let_def bind_res_Inr_iff map_jobs_def split: if_splits)

lemma finish_all_items: "finish_all now jids db = Inr db' \<Longrightarrow> q_items db' = q_items db"
  by (induction jids arbitrary: db) (auto simp: bind_res_Inr_iff dest: finish_items)

lemma sweep_grants: "sweep_expired now db = Inr db' \<Longrightarrow> leases_granted db' x = leases_granted db x"
proof -
  let ?f = "\<lambda>i. if is_expired now i \<and> job_running (it_job i) db then recover_item now i else i"
  assume "sweep_expired now db = Inr db'"
  then have "find_item x db' = find_item x (map_items ?f db)"
    unfolding sweep_expired_def find_item_def by (drule_tac finish_all_items) simp
  also have "\<dots> = map_option ?f (find_item x db)" by (rule find_item_map_items) (simp add: recover_item_def)
  finally show ?thesis by (simp add: leases_granted_def recover_item_def split: option.split)
qed

lemma count_list_distinct: "distinct xs \<Longrightarrow> count_list xs x = (if x \<in> set xs then 1 else 0)"
  by (induction xs) auto

lemma lease_items:
  "set (map cw_item (fst (lease_candidates now worker cs db))) = (\<lambda>c. it_id (snd c)) ` set cs"
  by (force simp: lease_candidates_def Let_def claimed_work_def)

lemma lease_grants:
  assumes "queue_ok db" "\<And>c. c \<in> set cs \<Longrightarrow> candidate_ok db c"
  shows "leases_granted (snd (lease_candidates now worker cs db)) x
    = leases_granted db x + count_list (map cw_item (fst (lease_candidates now worker cs db))) x"
proof -
  let ?fences = "map (\<lambda>(j, i). (it_id i, jb_fence j)) cs"
  let ?f = "\<lambda>i. case map_of ?fences (it_id i) of None \<Rightarrow> i | Some fence \<Rightarrow> lease_item now worker fence i"
  let ?got = "(\<lambda>c. it_id (snd c)) ` set cs"
  have known: "map_of ?fences y = None \<longleftrightarrow> y \<notin> ?got" for y
    by (simp add: map_of_eq_None_iff case_prod_unfold image_image)
  have "find_item x (snd (lease_candidates now worker cs db)) = map_option ?f (find_item x db)"
    unfolding lease_candidates_def Let_def snd_conv
    by (rule find_item_map_items) (simp add: lease_item_def split: option.split)
  moreover have "it_id i = x" if "find_item x db = Some i" for i
    using that by (auto simp: find_item_def find_Some_iff)
  moreover have "find_item x db \<noteq> None" if x: "x \<in> ?got"
  proof -
    obtain c where c: "c \<in> set cs" "x = it_id (snd c)" using x by blast
    then have "snd c \<in> set (q_items db)" using assms(2) [OF c(1)] by (cases c) (auto simp: candidate_ok_def)
    then show ?thesis using c(2) by (auto simp: find_item_def find_None_iff)
  qed
  ultimately have "leases_granted (snd (lease_candidates now worker cs db)) x
      = leases_granted db x + (if x \<in> ?got then 1 else 0)"
    using known [of x]
    by (cases "find_item x db"; cases "map_of ?fences x") (auto simp: leases_granted_def lease_item_def)
  moreover have "count_list (map cw_item (fst (lease_candidates now worker cs db))) x = (if x \<in> ?got then 1 else 0)"
    using lease_distinct [OF assms, where now = now and worker = worker]
      lease_items [where now = now and worker = worker and cs = cs and db = db]
    by (simp add: count_list_distinct)
  ultimately show ?thesis by simp
qed

lemma claim_grants:
  assumes "queue_ok db" "claim_many now worker sources limit key db = Done (ws, db')"
  shows "queue_ok db' \<and> int (length ws) \<le> max 0 limit
    \<and> leases_granted db' x = leases_granted db x + count_list (map cw_item ws) x"
proof (cases "limit < 1")
  case True
  then show ?thesis using assms by (auto simp: claim_many_def)
next
  case False
  then have locked: "claim_many_locked now worker sources (nat limit) key db = Inr (ws, db')"
    using assms(2) by (auto simp: claim_many_def to_call_def split: sum.splits)
  obtain db1 cs1 cs2 where c: "sweep_expired now db = Inr db1" "queue_ok db1"
      "\<And>c. c \<in> set cs1 \<Longrightarrow> candidate_ok db1 c"
      "\<And>c. c \<in> set cs2 \<Longrightarrow> candidate_ok (snd (lease_candidates now worker cs1 db1)) c"
      "queue_ok (snd (lease_candidates now worker cs1 db1))"
      "db' = snd (lease_candidates now worker cs2 (snd (lease_candidates now worker cs1 db1)))"
      "ws = fst (lease_candidates now worker cs1 db1)
       @ fst (lease_candidates now worker cs2 (snd (lease_candidates now worker cs1 db1)))"
    using claim_many_split [OF assms(1) locked] by metis
  have "queue_ok db'" using claim_many_locked_ok [OF assms(1), of now worker sources "nat limit" key] locked by auto
  moreover have "length ws \<le> nat limit" using claim_many_distinct [OF assms(1) locked] by simp
  moreover have "leases_granted db' x = leases_granted db x + count_list (map cw_item ws) x"
    unfolding c(6,7) using lease_grants [OF c(5,4), where now = now and worker = worker and x = x] lease_grants [OF c(2,3), where now = now and worker = worker and x = x]
      sweep_grants [OF c(1), of x] by simp
  ultimately show ?thesis using False by simp
qed

section \<open>Dispatch\<close>

definition queued_items :: "agent \<Rightarrow> uuid list" where
  "queued_items ag = concat (map (\<lambda>q. case q of None \<Rightarrow> [] | Some w \<Rightarrow> [cw_item w]) (ag_queues ag))"

text \<open>
  Every lane has a queue, a lane that waits for work has nothing in it, and only such a lane has been
  polled idle.
\<close>

definition agent_ok :: "agent \<Rightarrow> bool" where
  "agent_ok ag \<longleftrightarrow>
     length (ag_queues ag) = length (ag_lanes ag) \<and> distinct (ag_idle ag)
     \<and> (\<forall>l\<in>set (ag_idle ag). l < length (ag_lanes ag) \<and> ag_queues ag ! l = None)
     \<and> (\<forall>l<length (ag_lanes ag). l \<notin> set (ag_idle ag) \<longrightarrow> ls_idle_polls (ag_lanes ag ! l) = 0)"

lemma count_queue_update:
  assumes "l < length qs" "qs ! l = None"
  shows "count_list (concat (map (\<lambda>q. case q of None \<Rightarrow> [] | Some w \<Rightarrow> [cw_item w]) (qs[l := Some w]))) x
    = count_list (concat (map (\<lambda>q. case q of None \<Rightarrow> [] | Some w \<Rightarrow> [cw_item w]) qs)) x + (if cw_item w = x then 1 else 0)"
  using assms
proof (induction qs arbitrary: l)
  case (Cons q qs)
  then show ?case by (cases l) auto
qed simp

lemma assign_pairs_ok:
  assumes "agent_ok ag" "distinct (map fst ps)" "fst ` set ps \<subseteq> set (ag_idle ag)"
  shows "\<exists>ag'. assign_pairs ps ag = (ag', None) \<and> agent_ok ag'
    \<and> ag_idle ag' = filter (\<lambda>l. l \<notin> fst ` set ps) (ag_idle ag)
    \<and> ag_worker ag' = ag_worker ag \<and> ag_sources ag' = ag_sources ag
    \<and> (\<forall>x. count_list (queued_items ag') x = count_list (queued_items ag) x + count_list (map (\<lambda>p. cw_item (snd p)) ps) x)"
  using assms
proof (induction ps arbitrary: ag)
  case (Cons p ps)
  obtain l w where p: "p = (l, w)" by fastforce
  have l: "l \<in> set (ag_idle ag)" "l < length (ag_lanes ag)" "ag_queues ag ! l = None"
    using Cons.prems(1,3) p by (auto simp: agent_ok_def)
  let ?ag = "ag\<lparr>ag_queues := (ag_queues ag)[l := Some w], ag_idle := filter (\<lambda>k. k \<noteq> l) (ag_idle ag),
                ag_lanes := (ag_lanes ag)[l := (ag_lanes ag ! l)\<lparr>ls_idle_polls := 0\<rparr>]\<rparr>"
  have step: "assign_pairs (p # ps) ag = assign_pairs ps ?ag" using p l(3) by (simp add: put_nowait_def)
  have "agent_ok ?ag" using Cons.prems(1) l by (auto simp: agent_ok_def nth_list_update)
  moreover have "distinct (map fst ps)" "fst ` set ps \<subseteq> set (ag_idle ?ag)" using Cons.prems(2,3) p by force+
  ultimately obtain ag' where ag': "assign_pairs ps ?ag = (ag', None)" "agent_ok ag'"
      "ag_idle ag' = filter (\<lambda>k. k \<notin> fst ` set ps) (ag_idle ?ag)"
      "ag_worker ag' = ag_worker ?ag" "ag_sources ag' = ag_sources ?ag"
      "\<forall>x. count_list (queued_items ag') x = count_list (queued_items ?ag) x + count_list (map (\<lambda>p. cw_item (snd p)) ps) x"
    using Cons.IH [of ?ag] by blast
  have "length (ag_queues ag) = length (ag_lanes ag)" using Cons.prems(1) by (simp add: agent_ok_def)
  then have "count_list (queued_items ?ag) x = count_list (queued_items ag) x + (if cw_item w = x then 1 else 0)" for x
    using count_queue_update [of l "ag_queues ag" w x] l by (simp add: queued_items_def)
  then show ?case using ag' p unfolding step by (intro exI [of _ ag']) (auto simp: conj_commute)
qed simp

text \<open>What a dispatch keeps, relative to where it started.\<close>

definition dispatch_ok :: "agent \<Rightarrow> queue_db \<Rightarrow> dispatch \<Rightarrow> bool" where
  "dispatch_ok ag db di \<longleftrightarrow>
     agent_ok (di_agent di) \<and> queue_ok (di_db di)
     \<and> ag_worker (di_agent di) = ag_worker ag \<and> ag_sources (di_agent di) = ag_sources ag
     \<and> length (ag_idle (di_agent di)) + di_claimed di = length (ag_idle ag)
     \<and> (\<forall>x. count_list (queued_items (di_agent di)) x + leases_granted db x
           = count_list (queued_items ag) x + leases_granted (di_db di) x)"

lemma filter_out_length: "distinct xs \<Longrightarrow> distinct ys \<Longrightarrow> set ys \<subseteq> set xs \<Longrightarrow> length (filter (\<lambda>x. x \<notin> set ys) xs) + length ys = length xs"
proof -
  assume a: "distinct xs" "distinct ys" "set ys \<subseteq> set xs"
  have "length (filter (\<lambda>x. x \<notin> set ys) xs) = card (set xs - set ys)"
    using a(1) by (subst distinct_card [symmetric]) (auto simp: set_diff_eq)
  then show ?thesis using a by (simp add: card_Diff_subset distinct_card [symmetric] card_mono)
qed

lemma claim_for_ok:
  assumes "dispatch_ok ag db di" "worker_sources (ag_sources ag) = Inr ()" "distinct lanes" "set lanes \<subseteq> set (ag_idle (di_agent di))"
  shows "\<exists>di' n. claim_for now lanes key di = (di', Done (drop n lanes)) \<and> dispatch_ok ag db di'
    \<and> ag_idle (di_agent di') = filter (\<lambda>l. l \<notin> set (take n lanes)) (ag_idle (di_agent di))
    \<and> set (drop n lanes) \<subseteq> set (ag_idle (di_agent di')) \<and> di_remaining di' = di_remaining di"
proof -
  have ok: "queue_ok (di_db di)" using assms(1) by (simp add: dispatch_ok_def)
  have src: "worker_sources (ag_sources (di_agent di)) = Inr ()" using assms(1,2) by (simp add: dispatch_ok_def)
  obtain ws db' where c: "claim_many now (ag_worker (di_agent di)) (ag_sources (di_agent di)) (int (length lanes)) key (di_db di) = Done (ws, db')"
  proof (cases "int (length lanes) < 1")
    case False
    then show thesis
      using that claim_many_locked_ok [OF ok, of now "ag_worker (di_agent di)" "ag_sources (di_agent di)" "length lanes" key] src
      by (auto simp: claim_many_def to_call_def)
  qed (use that in \<open>simp add: claim_many_def\<close>)
  note granted = claim_grants [OF ok c]
  have few: "length ws \<le> length lanes" using granted by simp
  have zips: "map fst (zip lanes ws) = take (length ws) lanes" "map snd (zip lanes ws) = ws"
    using few by (simp_all add: map_fst_zip_take map_snd_zip_take)
  have fsts: "fst ` set (zip lanes ws) = set (take (length ws) lanes)" using zips(1) by (metis set_map)
  have sub: "set (take (length ws) lanes) \<subseteq> set (ag_idle (di_agent di))"
    using assms(4) set_take_subset [of "length ws" lanes] by blast
  have "agent_ok (di_agent di)" "distinct (map fst (zip lanes ws))" "fst ` set (zip lanes ws) \<subseteq> set (ag_idle (di_agent di))"
    using assms(1,3) sub by (simp_all add: dispatch_ok_def zips fsts)
  then obtain ag' where ag': "assign_pairs (zip lanes ws) (di_agent di) = (ag', None)" "agent_ok ag'"
      "ag_idle ag' = filter (\<lambda>k. k \<notin> set (take (length ws) lanes)) (ag_idle (di_agent di))"
      "ag_worker ag' = ag_worker (di_agent di)" "ag_sources ag' = ag_sources (di_agent di)"
      "\<forall>x. count_list (queued_items ag') x = count_list (queued_items (di_agent di)) x
         + count_list (map (\<lambda>p. cw_item (snd p)) (zip lanes ws)) x"
    using assign_pairs_ok [of "di_agent di" "zip lanes ws"] unfolding fsts by blast
  let ?di = "di\<lparr>di_agent := ag', di_db := db', di_claimed := di_claimed di + length ws\<rparr>"
  have res: "claim_for now lanes key di = (?di, Done (drop (length ws) lanes))"
    using c ag'(1) by (simp add: claim_for_def assign_def)
  have items: "map (\<lambda>p. cw_item (snd p)) (zip lanes ws) = map cw_item ws"
    using zips(2) by (metis (no_types, lifting) map_map comp_apply map_cong)
  have "length (ag_idle ag') + length ws = length (ag_idle (di_agent di))"
    using filter_out_length [of "ag_idle (di_agent di)" "take (length ws) lanes"] assms(1,3) sub few ag'(3)
    by (simp add: dispatch_ok_def agent_ok_def)
  moreover have "leases_granted db' x = leases_granted (di_db di) x + count_list (map cw_item ws) x" for x
    using granted claim_grants [OF ok c, of x] by simp
  ultimately have "dispatch_ok ag db ?di"
    using assms(1) ag' granted unfolding dispatch_ok_def items by simp
  moreover have "set (drop (length ws) lanes) \<subseteq> set (ag_idle ag')"
    using assms(4) set_take_disj_set_drop_if_distinct [OF assms(3), of "length ws" "length ws"]
    unfolding ag'(3) by (auto dest: in_set_dropD)
  ultimately show ?thesis using res ag'(3) by (intro exI [of _ ?di] exI [of _ "length ws"]) simp
qed

lemma dispatch_groups_ok:
  assumes "dispatch_ok ag db di" "worker_sources (ag_sources ag) = Inr ()"
    "distinct (di_remaining di @ concat (map snd groups))"
    "set (di_remaining di @ concat (map snd groups)) \<subseteq> set (ag_idle (di_agent di))"
  shows "\<exists>di' k'. dispatch_groups groups nows k di = (di', Done k') \<and> dispatch_ok ag db di'
    \<and> distinct (di_remaining di') \<and> set (di_remaining di') \<subseteq> set (ag_idle (di_agent di'))"
  using assms
proof (induction groups nows k di rule: dispatch_groups.induct)
  case (2 lanes groups nows k di)
  have "dispatch_ok ag db (di\<lparr>di_remaining := di_remaining di @ lanes\<rparr>)" using 2(2) by (simp add: dispatch_ok_def)
  then show ?case using 2 by simp
next
  case (3 key lanes groups nows k di)
  have lanes: "distinct lanes" "set lanes \<subseteq> set (ag_idle (di_agent di))" using 3(4,5) by auto
  obtain di' n where c: "claim_for (nows k) lanes (Some key) di = (di', Done (drop n lanes))" "dispatch_ok ag db di'"
      "ag_idle (di_agent di') = filter (\<lambda>l. l \<notin> set (take n lanes)) (ag_idle (di_agent di))" "di_remaining di' = di_remaining di"
    using claim_for_ok [OF 3(2,3) lanes] by blast
  let ?di = "di'\<lparr>di_remaining := di_remaining di' @ drop n lanes\<rparr>"
  have "dispatch_ok ag db ?di" using c(2) by (simp add: dispatch_ok_def)
  moreover have "distinct (di_remaining ?di @ concat (map snd groups))"
    using 3(4) c(4) by (auto dest: in_set_dropD)
  moreover have "set (di_remaining ?di @ concat (map snd groups)) \<subseteq> set (ag_idle (di_agent ?di))"
  proof
    fix l
    assume l: "l \<in> set (di_remaining ?di @ concat (map snd groups))"
    then have "l \<in> set (di_remaining di @ concat (map snd ((Some key, lanes) # groups)))"
      using c(4) by (auto dest: in_set_dropD)
    then have "l \<in> set (ag_idle (di_agent di))" using 3(5) by blast
    moreover have "l \<notin> set (take n lanes)"
    proof
      assume t: "l \<in> set (take n lanes)"
      have "l \<notin> set (drop n lanes)" using t set_take_disj_set_drop_if_distinct [OF lanes(1), of n n] by auto
      moreover have "l \<in> set lanes" using t by (rule in_set_takeD)
      ultimately show False using l 3(4) c(4) by auto
    qed
    ultimately show "l \<in> set (ag_idle (di_agent ?di))" using c(3) by simp
  qed
  ultimately show ?case using 3(1) [OF c(1) [symmetric] refl] c(1) 3(3) by simp
qed auto

lemma distinct_by_count: "distinct xs \<longleftrightarrow> (\<forall>x. count_list xs x \<le> 1)"
proof (induction xs)
  case (Cons a xs)
  have "a \<notin> set xs \<longleftrightarrow> count_list xs a = 0" by (simp add: count_list_0_iff)
  then show ?case using Cons by (auto simp: le_Suc_eq)
qed simp

lemma group_append_count:
  assumes "distinct (map fst groups)" "map_of groups key = Some ls"
  shows "count_list (concat (map snd (map (\<lambda>(k, ls). (k, if k = key then ls @ [l] else ls)) groups))) x
    = count_list (concat (map snd groups)) x + (if l = x then 1 else 0)"
  using assms
proof (induction groups)
  case (Cons g groups)
  obtain k ks where g: "g = (k, ks)" by fastforce
  show ?case
  proof (cases "k = key")
    case True
    then have "map (\<lambda>(k, ls). (k, if k = key then ls @ [l] else ls)) groups = groups"
      using Cons.prems(1) g by (intro map_idI) force
    then show ?thesis using True g by simp
  next
    case False
    then show ?thesis using Cons g by simp
  qed
qed simp

lemma add_to_group_count:
  assumes "distinct (map fst groups)"
  shows "distinct (map fst (add_to_group ag l groups))
    \<and> count_list (concat (map snd (add_to_group ag l groups))) x = count_list (concat (map snd groups)) x + (if l = x then 1 else 0)"
proof (cases "map_of groups (ls_key (ag_lanes ag ! l))")
  case None
  then have new: "add_to_group ag l groups = groups @ [(ls_key (ag_lanes ag ! l), [l])]"
    by (simp add: add_to_group_def Let_def)
  have "ls_key (ag_lanes ag ! l) \<notin> fst ` set groups" using None by (simp add: map_of_eq_None_iff)
  then show ?thesis using assms unfolding new by simp
next
  case (Some ls)
  let ?key = "ls_key (ag_lanes ag ! l)"
  have new: "add_to_group ag l groups = map (\<lambda>(k, ls). (k, if k = ?key then ls @ [l] else ls)) groups"
    using Some by (simp add: add_to_group_def Let_def)
  have keys: "map fst (map (\<lambda>(k, ls). (k, if k = ?key then ls @ [l] else ls)) groups) = map fst groups"
    by (simp add: case_prod_unfold)
  show ?thesis unfolding new keys group_append_count [OF assms Some] using assms by blast
qed

lemma idle_groups_lanes:
  "count_list (concat (map snd (idle_groups ag))) x = count_list (ag_idle ag) x"
proof -
  have "distinct (map fst groups) \<Longrightarrow>
    count_list (concat (map snd (fold (add_to_group ag) ls groups))) x = count_list (concat (map snd groups)) x + count_list ls x" for ls groups
  proof (induction ls arbitrary: groups)
    case (Cons l ls)
    then show ?case using add_to_group_count [of groups ag l x] by simp
  qed simp
  then show ?thesis by (simp add: idle_groups_def)
qed

lemma poll_idle_keeps:
  "(agent_ok ag \<longrightarrow> set ls \<subseteq> set (ag_idle ag) \<longrightarrow> agent_ok (poll_idle ls ag))
    \<and> queued_items (poll_idle ls ag) = queued_items ag \<and> ag_idle (poll_idle ls ag) = ag_idle ag"
proof (induction ls arbitrary: ag)
  case (Cons l ls)
  have "poll_idle (l # ls) ag = poll_idle ls (set_lane l ((ag_lanes ag ! l)\<lparr>ls_idle_polls := ls_idle_polls (ag_lanes ag ! l) + 1\<rparr>) ag)"
    by (simp add: poll_idle_def)
  moreover have "queued_items (set_lane l s ag) = queued_items ag" "ag_idle (set_lane l s ag) = ag_idle ag" for s
    by (simp_all add: set_lane_def queued_items_def)
  moreover have "agent_ok (set_lane l s ag)" if "agent_ok ag" "l \<in> set (ag_idle ag)" for s
    using that by (auto simp: set_lane_def agent_ok_def nth_list_update)
  ultimately show ?case using Cons by simp
qed (simp add: poll_idle_def)

lemma dispatch_balance:
  assumes "reachable db" "agent_ok ag" "worker_sources (ag_sources ag) = Inr ()"
  shows "\<exists>ag' db' n. dispatch_once nows ag db = (ag', db', Done n) \<and> agent_ok ag'
    \<and> length (ag_idle ag') + n = length (ag_idle ag)
    \<and> (\<forall>x. count_list (queued_items ag') x + leases_granted db x
          = count_list (queued_items ag) x + leases_granted db' x)"
proof (cases "ag_idle ag = []")
  case True
  then show ?thesis using assms(2) by (simp add: dispatch_once_def)
next
  case False
  let ?di = "\<lparr>di_agent = ag, di_db = db, di_claimed = 0, di_remaining = []\<rparr>"
  have start: "dispatch_ok ag db ?di" using assms(2) reachable_ok [OF assms(1)] by (simp add: dispatch_ok_def)
  have "distinct (ag_idle ag)" using assms(2) by (simp add: agent_ok_def)
  then have "distinct (concat (map snd (idle_groups ag)))"
    unfolding distinct_by_count idle_groups_lanes .
  moreover have "set (concat (map snd (idle_groups ag))) \<subseteq> set (ag_idle ag)"
  proof
    fix x
    assume "x \<in> set (concat (map snd (idle_groups ag)))"
    then have "count_list (ag_idle ag) x \<noteq> 0" unfolding idle_groups_lanes [symmetric] by (simp only: count_list_0_iff) simp
    then show "x \<in> set (ag_idle ag)" by (simp add: count_list_0_iff)
  qed
  ultimately obtain di k where g: "dispatch_groups (idle_groups ag) nows 0 ?di = (di, Done k)" "dispatch_ok ag db di"
      "distinct (di_remaining di)" "set (di_remaining di) \<subseteq> set (ag_idle (di_agent di))"
    using dispatch_groups_ok [OF start assms(3)] by force
  show ?thesis
  proof (cases "di_remaining di = []")
    case True
    then show ?thesis using g(1,2) False by (simp add: dispatch_once_def dispatch_ok_def)
  next
    case some: False
    obtain di' n where c: "claim_for (nows k) (di_remaining di) None di = (di', Done (drop n (di_remaining di)))" "dispatch_ok ag db di'"
        "set (drop n (di_remaining di)) \<subseteq> set (ag_idle (di_agent di'))"
      using claim_for_ok [OF g(2) assms(3) g(3,4)] by blast
    have "dispatch_once nows ag db = (poll_idle (drop n (di_remaining di)) (di_agent di'), di_db di', Done (di_claimed di'))"
      using g(1) c(1) False some by (simp add: dispatch_once_def)
    then show ?thesis using c(2,3) poll_idle_keeps by (simp add: dispatch_ok_def)
  qed
qed

lemma dispatch_keeps_ok:
  assumes "reachable db" "agent_ok ag" "worker_sources (ag_sources ag) = Inr ()" "dispatch_once nows ag db = (ag', db', r)"
  shows "agent_ok ag'"
  using dispatch_balance [OF assms(1-3), of nows] assms(4) by auto

section \<open>Property\<close>

text \<open>A dispatch loses no item and overfills no queue. Whatever the queue offers, a worker with valid
  sources ends the round with as many lanes fewer idle as it reports items claimed; every lease the
  database granted meanwhile is exactly one more queued item of the lanes, and every lane still
  waiting for work has an empty queue, so the next hand-over cannot overflow.\<close>

theorem dispatch_hands_out:
  assumes "reachable db" "agent_ok ag" "worker_sources (ag_sources ag) = Inr ()"
  shows "\<exists>ag' db' n. dispatch_once nows ag db = (ag', db', Done n) \<and> agent_ok ag'
    \<and> length (ag_idle ag') + n = length (ag_idle ag)
    \<and> (\<forall>x. count_list (queued_items ag') x + leases_granted db x
          = count_list (queued_items ag) x + leases_granted db' x)"
  by (rule dispatch_balance [OF assms])

text \<open>Three lanes of a worker: two idle, one of them with a session of the queue's credential.\<close>

definition sample_agent :: agent where
  "sample_agent =
     (let ag = new_agent ''w1'' [''osiptel''] 3
      in (set_lane 2 (new_lane_session\<lparr>ls_key := Some (''osiptel'', 7)\<rparr>) ag)\<lparr>ag_idle := [0, 2]\<rparr>)"

theorem dispatch_hands_out_witness:
  "\<exists>ag' db' n. dispatch_once (\<lambda>_. 10) sample_agent sample_queue = (ag', db', Done n) \<and> agent_ok ag' \<and> length (ag_idle ag') + n = 2"
proof -
  have "agent_ok sample_agent" "worker_sources (ag_sources sample_agent) = Inr ()" "length (ag_idle sample_agent) = 2"
    by (auto simp: sample_agent_def new_agent_def new_lane_session_def set_lane_def agent_ok_def Let_def nth_list_update
        numeral_3_eq_3 less_Suc_eq) (code_simp)?
  then show ?thesis using dispatch_hands_out [OF sample_reachable, of sample_agent "\<lambda>_. 10"] by auto
qed

end
