(* ===== verification/WorkerApi.thy ===== *)
theory WorkerApi
  imports WorkerAgent
begin

text \<open>
  The worker API: \<open>portal/worker/routes.py\<close> over \<open>portal/repository/workers.py\<close>, the job queue, the
  slots and the fleet breakers. A handler maps the portal's state and a decoded request to the next
  state and an answer. The hash of a token and of a content, the fresh tokens and identifiers, and
  the storage's answer are arguments.
\<close>

section \<open>Registry\<close>

record worker_row =
  wk_id :: uuid
  wk_worker :: pystr
  wk_hash :: pystr
  wk_hostname :: pystr
  wk_revoked_at :: "seconds option"
  wk_last_seen :: "seconds option"
  wk_cpu :: "real option"
  wk_memory :: "real option"
  wk_job :: "uuid option"

definition HEARTBEAT_STALE_AFTER :: seconds where
  "HEARTBEAT_STALE_AFTER = 45"

definition worker_id_char :: "char \<Rightarrow> bool" where
  "worker_id_char c \<longleftrightarrow>
     (let n = code_point c
      in 65 \<le> n \<and> n \<le> 90 \<or> 97 \<le> n \<and> n \<le> 122 \<or> 48 \<le> n \<and> n \<le> 57 \<or> c = CHR ''_'' \<or> c = CHR ''-'')"

definition valid_worker_id :: "pystr \<Rightarrow> portal_error + pystr" where
  "valid_worker_id worker_id =
     (let candidate = py_strip worker_id
      in if 1 \<le> length candidate \<and> length candidate \<le> 64 \<and> list_all worker_id_char candidate
         then Inr candidate else raise_portal ProvisioningError WORKER_ID_INVALID [])"

definition worker_role_name :: "pystr \<Rightarrow> portal_error + pystr" where
  "worker_role_name worker_id =
     (case valid_worker_id worker_id of
        Inl e \<Rightarrow> Inl e
      | Inr valid \<Rightarrow>
          let role = ''portal_worker_'' @ valid
          in if 63 < length role then raise_portal ProvisioningError WORKER_ID_INVALID [] else Inr role)"

text \<open>The parts \<open>urlsplit\<close> finds in the administrator's data source name.\<close>

record url_parts =
  up_scheme :: pystr
  up_netloc :: pystr
  up_path :: pystr
  up_query :: pystr
  up_fragment :: pystr

definition ADDRESS_REQUIRED :: exn where
  "ADDRESS_REQUIRED = raise_exn (BuiltinError ''RuntimeError'')
     ''PORTAL_WORKER_DATABASE_ADDRESS is required to issue worker credentials''"

definition worker_database_dsn :: "url_parts \<Rightarrow> pystr \<Rightarrow> pystr \<Rightarrow> pystr \<Rightarrow> url_parts call_result" where
  "worker_database_dsn admin address worker_id password =
     (if address = [] then Failed ADDRESS_REQUIRED
      else
        (case worker_role_name worker_id of
           Inl e \<Rightarrow> Refused e
         | Inr role \<Rightarrow> Done (admin\<lparr>up_netloc := role @ '':'' @ password @ ''@'' @ address\<rparr>)))"

text \<open>One row for a name: the credential is replaced and a revocation lifted.\<close>

definition issue_worker ::
  "uuid \<Rightarrow> pystr \<Rightarrow> pystr \<Rightarrow> pystr \<Rightarrow> worker_row list \<Rightarrow> portal_error + uuid \<times> worker_row list" where
  "issue_worker fresh worker_id credential_hash hostname rows =
     (case valid_worker_id worker_id of
        Inl e \<Rightarrow> Inl e
      | Inr valid \<Rightarrow>
          (case find (\<lambda>r. wk_worker r = valid) rows of
             None \<Rightarrow>
               Inr (fresh, rows @ [\<lparr>wk_id = fresh, wk_worker = valid, wk_hash = credential_hash, wk_hostname = hostname,
                                    wk_revoked_at = None, wk_last_seen = None, wk_cpu = None, wk_memory = None,
                                    wk_job = None\<rparr>])
           | Some r \<Rightarrow>
               Inr (wk_id r,
                 map (\<lambda>r. if wk_worker r = valid
                      then r\<lparr>wk_hash := credential_hash, wk_hostname := hostname, wk_revoked_at := None\<rparr> else r) rows)))"

definition revoke_worker :: "seconds \<Rightarrow> pystr \<Rightarrow> worker_row list \<Rightarrow> bool \<times> worker_row list" where
  "revoke_worker now worker_id rows =
     (let hit = (\<lambda>r. wk_worker r = worker_id \<and> wk_revoked_at r = None)
      in (list_ex hit rows, map (\<lambda>r. if hit r then r\<lparr>wk_revoked_at := Some now\<rparr> else r) rows))"

definition authorize_worker :: "pystr \<Rightarrow> pystr \<Rightarrow> worker_row list \<Rightarrow> portal_error + worker_row" where
  "authorize_worker worker_id credential_hash rows =
     (case find (\<lambda>r. wk_worker r = worker_id \<and> wk_revoked_at r = None) rows of
        None \<Rightarrow> raise_portal PermissionDenied WORKER_NOT_AUTHORIZED []
      | Some r \<Rightarrow>
          if wk_hash r \<noteq> credential_hash then raise_portal PermissionDenied WORKER_NOT_AUTHORIZED [] else Inr r)"

definition record_heartbeat ::
  "seconds \<Rightarrow> pystr \<Rightarrow> real option \<Rightarrow> real option \<Rightarrow> uuid option \<Rightarrow> worker_row list \<Rightarrow> worker_row list" where
  "record_heartbeat now worker_id cpu memory job rows =
     map (\<lambda>r. if wk_worker r = worker_id
          then r\<lparr>wk_last_seen := Some now, wk_cpu := cpu, wk_memory := memory, wk_job := job\<rparr> else r) rows"

text \<open>Database roles by name: whether they may log in, and their password.\<close>

type_synonym roles = "(pystr \<times> (bool \<times> pystr)) list"

definition provision_login_role :: "pystr \<Rightarrow> pystr \<Rightarrow> roles \<Rightarrow> portal_error + roles" where
  "provision_login_role worker_id password roles =
     (case worker_role_name worker_id of
        Inl e \<Rightarrow> Inl e
      | Inr role \<Rightarrow> Inr ((role, (True, password)) # filter (\<lambda>r. fst r \<noteq> role) roles))"

definition revoke_login_role :: "pystr \<Rightarrow> roles \<Rightarrow> portal_error + roles" where
  "revoke_login_role worker_id roles =
     (case worker_role_name worker_id of
        Inl e \<Rightarrow> Inl e
      | Inr role \<Rightarrow> Inr (map (\<lambda>(n, l, p). (n, if n = role then False else l, p)) roles))"

text \<open>The rows not revoked, each with whether it counts as online.\<close>

definition all_workers_with_status :: "seconds \<Rightarrow> worker_row list \<Rightarrow> (worker_row \<times> bool) list" where
  "all_workers_with_status now rows =
     map (\<lambda>r. (r, case wk_last_seen r of None \<Rightarrow> False | Some t \<Rightarrow> now - HEARTBEAT_STALE_AFTER \<le> t))
       (sort_key wk_worker (filter (\<lambda>r. wk_revoked_at r = None) rows))"

section \<open>State and answers\<close>

record object_reference =
  rf_id :: uuid
  rf_team :: uuid
  rf_provider :: pystr
  rf_container :: pystr
  rf_key :: pystr
  rf_sha256 :: pystr
  rf_size :: nat
  rf_content_type :: pystr

record audit_row =
  au_actor :: "uuid option"
  au_action :: pystr
  au_target_type :: pystr
  au_target :: uuid
  au_metadata :: "(pystr \<times> pystr) list"

record stored_credential =
  sc_version :: uuid
  sc_provider :: pystr
  sc_secret :: pystr
  sc_key_kept :: bool

record worker_portal =
  wp_queue :: queue_db
  wp_breakers :: fleet_breakers
  wp_slots :: "slot_row list"
  wp_workers :: "worker_row list"
  wp_roles :: roles
  wp_audit :: "audit_row list"
  wp_objects :: "object_reference list"
  wp_blobs :: "(pystr \<times> pystr) list"
  wp_credentials :: "stored_credential list"
  wp_sites :: "pystr list"

text \<open>
  What a handler answers. A portal error becomes the status the exception handlers give it; any
  other exception is a server error.
\<close>

datatype 'a answer = Answer 'a | HttpError nat pystr | Denied portal_error | Crashed exn

definition error_status :: "portal_error \<Rightarrow> nat" where
  "error_status e = (if pe_class e = CredentialConfigurationError then 409 else 403)"

definition bearer_token :: "pystr \<Rightarrow> pystr option" where
  "bearer_token authorization =
     (if take 7 authorization = ''Bearer '' then Some (drop 7 authorization) else None)"

definition provide_worker ::
  "(pystr \<Rightarrow> pystr) \<Rightarrow> pystr \<Rightarrow> pystr \<Rightarrow> worker_portal \<Rightarrow> portal_error + worker_row" where
  "provide_worker token_hash authorization worker_header wp =
     (case bearer_token authorization of
        None \<Rightarrow> raise_portal PermissionDenied WORKER_NOT_AUTHORIZED []
      | Some token \<Rightarrow> authorize_worker (py_strip worker_header) (token_hash token) (wp_workers wp))"

definition add_audit :: "audit_row \<Rightarrow> worker_portal \<Rightarrow> worker_portal" where
  "add_audit row wp = wp\<lparr>wp_audit := wp_audit wp @ [row]\<rparr>"

section \<open>Handlers\<close>

definition worker_enroll ::
  "(pystr \<Rightarrow> pystr) \<Rightarrow> pystr \<Rightarrow> url_parts \<Rightarrow> pystr \<Rightarrow> pystr \<times> pystr \<Rightarrow> uuid \<Rightarrow> pystr \<Rightarrow> pystr \<times> pystr
     \<Rightarrow> worker_portal \<Rightarrow> worker_portal \<times> (pystr \<times> url_parts) answer" where
  "worker_enroll token_hash bootstrap_token admin_dsn address tokens fresh authorization data wp =
     (let presented = (case bearer_token authorization of None \<Rightarrow> [] | Some t \<Rightarrow> t);
          (credential, password) = tokens; (worker_id, hostname) = data
      in if bootstrap_token = [] \<or> presented \<noteq> bootstrap_token
         then (wp, Denied \<lparr>pe_class = PermissionDenied, pe_reason = WORKER_BOOTSTRAP_INVALID, pe_params = []\<rparr>)
         else
           (case worker_database_dsn admin_dsn address worker_id password of
              Refused e \<Rightarrow> (wp, Denied e)
            | Failed e \<Rightarrow> (wp, Crashed e)
            | Done dsn \<Rightarrow>
                (case issue_worker fresh worker_id (token_hash credential) hostname (wp_workers wp) of
                   Inl e \<Rightarrow> (wp, Denied e)
                 | Inr (identity, rows) \<Rightarrow>
                     let wp = wp\<lparr>wp_workers := rows\<rparr>
                     in case provision_login_role worker_id password (wp_roles wp) of
                          Inl e \<Rightarrow> (wp, Denied e)
                        | Inr roles \<Rightarrow>
                            (add_audit \<lparr>au_actor = None, au_action = ''worker.issued'', au_target_type = ''worker'',
                                        au_target = identity,
                                        au_metadata = [(''worker_id'', worker_id), (''tailscale_hostname'', hostname),
                                                       (''method'', ''self-enroll'')]\<rparr>
                               (wp\<lparr>wp_roles := roles\<rparr>),
                             Answer (credential, dsn)))))"

definition credential_for_version :: "uuid \<Rightarrow> worker_portal \<Rightarrow> stored_credential option" where
  "credential_for_version version wp =
     find (\<lambda>c. sc_version c = version \<and> sc_key_kept c) (wp_credentials wp)"

definition credential_for_job :: "uuid \<Rightarrow> worker_portal \<Rightarrow> stored_credential option" where
  "credential_for_job jid wp =
     (case find_job jid (wp_queue wp) of
        None \<Rightarrow> None | Some j \<Rightarrow> credential_for_version (jb_credential j) wp)"

definition CREDENTIAL_NOT_AVAILABLE :: "'a answer" where
  "CREDENTIAL_NOT_AVAILABLE = HttpError 409 ''credential not available''"

definition worker_reveal_credential ::
  "(pystr \<Rightarrow> portal_error + py_dict) \<Rightarrow> worker_row \<Rightarrow> uuid \<Rightarrow> worker_portal
     \<Rightarrow> worker_portal \<times> credential_lease answer" where
  "worker_reveal_credential reveal worker version wp =
     (case credential_for_version version wp of
        None \<Rightarrow> (wp, CREDENTIAL_NOT_AVAILABLE)
      | Some c \<Rightarrow>
          (case reveal (sc_secret c) of
             Inl e \<Rightarrow> (wp, Denied e)
           | Inr config \<Rightarrow>
               (add_audit \<lparr>au_actor = Some (wk_id worker), au_action = ''credential.revealed'',
                           au_target_type = ''credential_version'', au_target = version,
                           au_metadata = [(''worker_id'', wk_worker worker)]\<rparr> wp,
                Answer \<lparr>cl_provider = sc_provider c, cl_config = config\<rparr>)))"

definition worker_claim ::
  "(pystr \<Rightarrow> portal_error + py_dict) \<Rightarrow> seconds \<Rightarrow> worker_row \<Rightarrow> pystr list \<Rightarrow> work_key option \<Rightarrow> worker_portal
     \<Rightarrow> worker_portal \<times> work_lease option answer" where
  "worker_claim reveal now worker sources affinity wp =
     (case claim now (wk_worker worker) sources affinity (wp_queue wp) of
        Refused e \<Rightarrow> (wp, Denied e)
      | Failed e \<Rightarrow> (wp, Crashed e)
      | Done (claimed, db) \<Rightarrow>
          let wp = wp\<lparr>wp_queue := db\<rparr>
          in case claimed of
               None \<Rightarrow> (wp, Answer None)
             | Some w \<Rightarrow>
                 (case credential_for_job (cw_job w) wp of
                    None \<Rightarrow> (wp, CREDENTIAL_NOT_AVAILABLE)
                  | Some c \<Rightarrow>
                      (case reveal (sc_secret c) of
                         Inl e \<Rightarrow> (wp, Denied e)
                       | Inr config \<Rightarrow>
                           (add_audit \<lparr>au_actor = Some (wk_id worker), au_action = ''credential.revealed'',
                                       au_target_type = ''job'', au_target = cw_job w,
                                       au_metadata = [(''worker_id'', wk_worker worker)]\<rparr> wp,
                            Answer (Some \<lparr>wl_item = cw_item w, wl_job = cw_job w, wl_source = cw_source w,
                                          wl_document = cw_document w, wl_fence = cw_fence w,
                                          wl_version = cw_credential w,
                                          wl_credential = \<lparr>cl_provider = sc_provider c, cl_config = config\<rparr>\<rparr>)))))"

definition publication_of :: "pystr \<Rightarrow> uuid \<Rightarrow> publish_request \<Rightarrow> publication" where
  "publication_of worker object_id data =
     \<lparr>pb_item = pr_item data, pb_worker = worker, pb_fence = pr_fence data, pb_document = pr_document data,
      pb_source = pr_source data, pb_provider = pr_provider data, pb_status = pr_status data,
      pb_columns = pr_columns data,
      pb_rows = JList (map (\<lambda>row. JList (map cell_json row)) (pr_rows data)),
      pb_error_code = pr_error_code data, pb_result_object = object_id, pb_lane = pr_lane data,
      pb_attempts = pr_attempts data\<rparr>"

text \<open>What the storage and the identifier source contribute to a publication.\<close>

record publish_env =
  pv_now :: seconds
  pv_sha256 :: "pystr \<Rightarrow> pystr"
  pv_object_id :: uuid
  pv_object_name :: pystr
  pv_storage_error :: "exn option"

text \<open>The entry and the ledger name a known site; a publication that does not is rolled back.\<close>

definition worker_publish ::
  "publish_env \<Rightarrow> worker_row \<Rightarrow> publish_request \<Rightarrow> worker_portal \<Rightarrow> worker_portal \<times> bool answer" where
  "worker_publish env worker data wp =
     (case b64decode (pr_content data) of
        Inl e \<Rightarrow> (wp, if e = BINASCII_ERROR then HttpError 400 ''invalid worker result'' else Crashed e)
      | Inr content \<Rightarrow>
          (case item_team (pr_item data) (wp_queue wp) of
             None \<Rightarrow> (wp, HttpError 404 ''job not found'')
           | Some team \<Rightarrow>
               let reference =
                     \<lparr>rf_id = pv_object_id env, rf_team = team, rf_provider = ''portal-worker'',
                      rf_container = ''results'',
                      rf_key = nat_str (pr_item data) @ ''/'' @ pv_object_name env,
                      rf_sha256 = pv_sha256 env content, rf_size = length content,
                      rf_content_type = ''application/json''\<rparr>
               in case pv_storage_error env of
                    Some e \<Rightarrow> (wp, Crashed e)
                  | None \<Rightarrow>
                      let wp = wp\<lparr>wp_blobs := wp_blobs wp @ [(rf_key reference, content)],
                                  wp_objects := wp_objects wp @ [reference]\<rparr>
                      in case publish (pv_now env) (publication_of (wk_worker worker) (rf_id reference) data) (wp_queue wp) of
                           Inl e \<Rightarrow> (wp, Crashed e)
                         | Inr (published, db) \<Rightarrow>
                             if pr_source data \<notin> set (wp_sites wp)
                             then (wp, Crashed (raise_exn (BuiltinError ''ForeignKeyViolationError'') []))
                             else let wp = wp\<lparr>wp_queue := db\<rparr>
                             in if published
                                then
                                  (case record_outcome (wp_sites wp) (pv_now env) (pr_source data) (pr_provider data)
                                          (pr_healthy data) (wp_breakers wp) of
                                     None \<Rightarrow> (wp, Crashed (raise_exn (BuiltinError ''PostgresError'') []))
                                   | Some rows \<Rightarrow> (wp\<lparr>wp_breakers := rows\<rparr>, Answer True))
                                else (wp, Answer False)))"

definition worker_claim_slot ::
  "seconds \<Rightarrow> worker_row \<Rightarrow> pystr \<Rightarrow> nat \<Rightarrow> worker_portal \<Rightarrow> worker_portal \<times> nat option answer" where
  "worker_claim_slot now worker provider lane wp =
     (case claim_slot provider lane now (wk_worker worker) (wp_slots wp) of
        (key, rows) \<Rightarrow> (wp\<lparr>wp_slots := rows\<rparr>, Answer (map_option snd key)))"

definition worker_release_slot :: "worker_row \<Rightarrow> pystr \<Rightarrow> nat \<Rightarrow> worker_portal \<Rightarrow> worker_portal" where
  "worker_release_slot worker provider slot wp =
     wp\<lparr>wp_slots := release_slot (provider, slot) (wk_worker worker) (wp_slots wp)\<rparr>"

record heartbeat_request =
  hb_cpu :: "real option"
  hb_memory :: "real option"
  hb_job :: "uuid option"
  hb_held :: "slot_key list"

definition worker_heartbeat :: "seconds \<Rightarrow> worker_row \<Rightarrow> heartbeat_request \<Rightarrow> worker_portal \<Rightarrow> worker_portal" where
  "worker_heartbeat now worker data wp =
     wp\<lparr>wp_workers := record_heartbeat now (wk_worker worker) (hb_cpu data) (hb_memory data) (hb_job data) (wp_workers wp),
        wp_slots := renew_slots now (wk_worker worker) (hb_held data) (wp_slots wp)\<rparr>"

end
