(* ===== verification/WorkerRound.thy ===== *)
theory WorkerRound
  imports WorkerDispatch WorkerApi
begin

text \<open>
  The parts of a worker's round composed: claim, adopt, execute, publish. Whatever a lookup returns
  passes the checks of the tables behind the API.
\<close>

section \<open>Attempts the ledger accepts\<close>

definition ledger_attempt :: "attempt_outcome \<Rightarrow> bool" where
  "ledger_attempt a \<longleftrightarrow>
     1 \<le> ao_attempt a \<and> 0 \<le> ao_elapsed_ms a \<and> ao_elapsed_ms a \<le> INT4_MAX \<and> storable (ao_error_code a)
     \<and> (ao_status a = FAILED \<longleftrightarrow> ao_error_code a \<noteq> [])"

text \<open>An attempt whose milliseconds fit the four bytes of the ledger: no longer than 24 days.\<close>

definition measurable :: "attempt_env \<Rightarrow> bool" where
  "measurable env \<longleftrightarrow> 0 \<le> ae_elapsed_s env \<and> ae_elapsed_s env * 1000 \<le> 2147483647"

lemma classified_code:
  "rd_error_code (classify_exception e cooldown) \<noteq> []" "storable (rd_error_code (classify_exception e cooldown))"
  by (simp_all add: classify_exception_def classify_def storable_def)

lemma elapsed_fits: "measurable env \<Longrightarrow> 0 \<le> elapsed_ms env \<and> elapsed_ms env \<le> INT4_MAX"
  by (auto simp: measurable_def elapsed_ms_def py_trunc_def INT4_MAX_def floor_le_iff)

lemma fail_attempt_attempts:
  assumes "fail_attempt fp env n ats e la = (fin, la', ats')"
  shows "ats' = ats @ [\<lparr>ao_attempt = n, ao_status = FAILED, ao_elapsed_ms = elapsed_ms env,
      ao_error_code = rd_error_code (classify_exception e (wc_ban_cooldown_s (fp_cfg fp)))\<rparr>]
    \<and> (\<forall>r. fin = Some (Returned r) \<longrightarrow> res_attempts r = ats')"
  using assms by (auto simp: fail_attempt_def Let_def split: option.splits prod.splits if_splits)

lemma fetch_loop_ledger:
  assumes "fetch_loop fp envs n ats bound la = (Returned r, la')" "list_all ledger_attempt ats" "1 \<le> n"
    "list_all measurable envs"
  shows "list_all ledger_attempt (res_attempts r)"
  using assms
proof (induction envs arbitrary: n ats bound la)
  case (Cons env envs)
  have t: "0 \<le> elapsed_ms env \<and> elapsed_ms env \<le> INT4_MAX" "storable []"
    using Cons.prems(4) elapsed_fits by (simp_all add: storable_def)
  obtain b now where acq:
    "acquire (observations (ln_breaker la) (ae_first_check env) (ae_wakes env)) = Some (b, now)"
    using Cons.prems(1) by (auto split: option.splits)
  obtain out bound1 la1 where tr: "try_lookup fp env bound (la\<lparr>ln_breaker := b\<rparr>) = (out, bound1, la1)"
    by (cases "try_lookup fp env bound (la\<lparr>ln_breaker := b\<rparr>)") auto
  show ?case
  proof (cases out)
    case (Inr sr)
    then show ?thesis
      using Cons.prems acq tr t
      by (cases sr) (auto simp: succeed_attempt_def Let_def ledger_attempt_def split: prod.splits)
  next
    case (Inl e)
    show ?thesis
    proof (cases "isinstance e RucNotFoundError")
      case True
      then show ?thesis
        using Cons.prems acq tr Inl t
        by (auto simp: not_found_attempt_def Let_def ledger_attempt_def split: option.splits prod.splits)
    next
      case False
      obtain fin la2 ats2 where f: "fail_attempt fp env n ats e la1 = (fin, la2, ats2)"
        by (cases "fail_attempt fp env n ats e la1") auto
      note ats2' = fail_attempt_attempts [OF f]
      have ats2: "list_all ledger_attempt ats2"
      proof -
        have "ledger_attempt \<lparr>ao_attempt = n, ao_status = FAILED, ao_elapsed_ms = elapsed_ms env,
            ao_error_code = rd_error_code (classify_exception e (wc_ban_cooldown_s (fp_cfg fp)))\<rparr>"
          using Cons.prems(3) t classified_code by (simp add: ledger_attempt_def)
        then show ?thesis using ats2' Cons.prems(2) by simp
      qed
      show ?thesis
      proof (cases fin)
        case None
        then have "fetch_loop fp envs (n + 1) ats2 bound1 la2 = (Returned r, la')"
          using Cons.prems(1) acq tr Inl False f by simp
        then show ?thesis using Cons.IH [of "n + 1" ats2 bound1 la2] ats2 Cons.prems(4) by simp
      next
        case (Some x)
        then show ?thesis using Cons.prems(1) acq tr Inl False f ats2 ats2' by simp
      qed
    qed
  qed
qed simp

lemma fetch_one_ledger:
  assumes "fetch_one fp envs la = (Returned r, la')" "list_all measurable envs"
  shows "list_all ledger_attempt (res_attempts r)"
  using fetch_loop_ledger [OF assms(1) [unfolded fetch_one_def] _ _ assms(2)] by simp

lemma status_values: "status_value s \<in> set OUTCOMES" "status_value s = ''failed'' \<longleftrightarrow> s = FAILED"
  by (cases s; simp add: OUTCOMES_def)+

lemma attempt_record_fits: "ledger_attempt a \<Longrightarrow> ao_attempt a \<le> 4 \<Longrightarrow> attempt_fits (attempt_record_of a)"
  by (auto simp: attempt_fits_def attempt_record_of_def ledger_attempt_def INT4_MAX_def)

lemma fetched_numbers:
  assumes "fetch_one fp envs la = (Returned r, la')" "a \<in> set (res_attempts r)"
  shows "ao_attempt a \<le> 4"
proof -
  have "map ao_attempt (res_attempts r) = [1..<length (res_attempts r) + 1]" "length (res_attempts r) \<le> 4"
    using fetch_loop_shape [OF assms(1) [unfolded fetch_one_def] attempts_so_far_start]
    by (simp_all add: result_shape_def attempts_numbered_def MAX_ATTEMPTS_def)
  then have "ao_attempt a \<in> set [1..<length (res_attempts r) + 1]" using assms(2) by (metis image_eqI set_map)
  then have "ao_attempt a < length (res_attempts r) + 1" by (simp only: set_upt atLeastLessThan_iff)
  then show ?thesis using \<open>length (res_attempts r) \<le> 4\<close> by linarith
qed

text \<open>What may fail is a row with a NUL character, which the site would have to send.\<close>

definition rows_storable :: "row list \<Rightarrow> bool" where
  "rows_storable rows \<longleftrightarrow> json_storable (JList (map (\<lambda>row. JList (map cell_json row)) rows))"

lemma storable_decimal: "is_decimal_char c \<Longrightarrow> c \<noteq> CHR 0x00" "is_decimal_char c \<Longrightarrow> c \<noteq> CHR '' ''"
  by (auto simp: is_decimal_char_def)

lemma digits_text:
  assumes "matches_digits lo hi t" "0 < lo"
  shows "storable t \<and> (\<exists>c\<in>set t. is_decimal_char c)"
proof -
  have ok: "storable u \<and> (\<exists>c\<in>set u. is_decimal_char c)" if "list_all is_decimal_char u" "u \<noteq> []" for u
    using that storable_decimal(1) by (cases u) (auto simp: storable_def list_all_iff)
  have "lo \<le> length t \<and> list_all is_decimal_char t
    \<or> t \<noteq> [] \<and> last t = char_of (10 :: nat) \<and> lo \<le> length (butlast t) \<and> list_all is_decimal_char (butlast t)"
    using assms(1) by (auto simp: matches_digits_def Let_def)
  then show ?thesis
  proof (elim disjE conjE)
    assume "lo \<le> length t" "list_all is_decimal_char t"
    moreover from this have "t \<noteq> []" using assms(2) by auto
    ultimately show ?thesis using ok by blast
  next
    assume b: "t \<noteq> []" "last t = char_of (10 :: nat)" "lo \<le> length (butlast t)" "list_all is_decimal_char (butlast t)"
    have "butlast t \<noteq> []" using b(3) assms(2) by (metis le_zero_eq list.size(3) not_less)
    with b have body: "storable (butlast t)" "\<exists>c\<in>set (butlast t). is_decimal_char c" using ok by blast+
    have t: "t = butlast t @ [char_of (10 :: nat)]" using b(1,2) by (metis append_butlast_last_id)
    have "char_of (10 :: nat) \<noteq> CHR 0x00" by code_simp
    then have "storable (butlast t @ [char_of (10 :: nat)])" using body(1) by (simp add: storable_def)
    then show ?thesis using body(2) t by (metis in_set_butlastD)
  qed
qed

lemma lstrip_text: "set (py_lstrip s) \<subseteq> set s" "set s \<subseteq> set (py_lstrip s) \<union> {c. py_isspace_char c}"
  by (induction s) (auto simp: py_lstrip_def)

lemma strip_text: "set (py_strip s) \<subseteq> set s" "set s \<subseteq> set (py_strip s) \<union> {c. py_isspace_char c}"
  using lstrip_text [of s] lstrip_text [of "rev (py_lstrip s)"] by (simp_all only: py_strip_def set_rev) blast+

lemma document_text:
  assumes "parse_doc s = Inr d"
  shows "storable s \<and> \<not> list_all (\<lambda>c. c = CHR '' '') s"
proof -
  obtain lo hi where "matches_digits lo hi (py_strip s)" "0 < (lo :: nat)"
    using assms by (auto simp: parse_doc_def Let_def split: if_splits)
  then have t: "storable (py_strip s)" "\<exists>c\<in>set (py_strip s). is_decimal_char c" using digits_text by blast+
  have nul: "\<not> py_isspace_char (CHR 0x00)" by code_simp
  have "storable s" using t(1) nul strip_text(2) [of s] by (auto simp: storable_def)
  moreover obtain c where "c \<in> set s" "c \<noteq> CHR '' ''" using t(2) strip_text(1) [of s] storable_decimal(2) by blast
  ultimately show ?thesis unfolding list_all_iff by blast
qed

lemma attempt_record_accepted:
  "ledger_attempt a \<Longrightarrow> provider \<in> {''geonode'', ''dataimpulse''} \<Longrightarrow> attempt_accepted provider (attempt_record_of a)"
  by (simp add: attempt_accepted_def attempt_record_of_def ledger_attempt_def status_values)

section \<open>From an item to a request\<close>

lemma adopt_lease:
  assumes "adopt env l w ag rows = (ag', rows', Adopted lease)"
  shows "wl_item lease = cw_item w \<and> wl_source lease = cw_source w \<and> wl_document lease = cw_document w
    \<and> wl_fence lease = cw_fence w \<and> cl_provider (wl_credential lease) \<in> {''geonode'', ''dataimpulse''}
    \<and> ag_worker ag' = ag_worker ag"
proof -
  have provider: "name \<in> {''geonode'', ''dataimpulse''}" if "provider_from_values name raw = Inr p" for name raw p
    using that by (auto simp: provider_from_values_def bind_res_Inr_iff spec_for_def PROVIDERS_def GEONODE_def DATAIMPULSE_def
        config_error_def split: if_splits)
  show ?thesis
    using assms provider
    by (fastforce simp: adopt_def Let_def set_lane_def split: prod.splits option.splits sum.splits if_splits)
qed

lemma execute_publishable:
  assumes "execute now envs l lease p ag = (ag', tr, Executed r)" "list_all measurable envs"
    "cl_provider (wl_credential lease) \<in> {''geonode'', ''dataimpulse''}" "rows_storable (xr_rows r)" "int l \<le> INT4_MAX"
  shows "publishable (publication_of worker oid (publish_request_of l lease r)) \<and> xr_document r = wl_document lease
    \<and> xr_source r = wl_source lease"
proof -
  obtain s slot d b la res where x: "map_of SITES (wl_source lease) = Some s" "parse_doc (wl_document lease) = Inr d"
      "fetch_one (execute_params s p slot d) envs \<lparr>ln_state = ls_state (ag_lanes ag ! l), ln_breaker = b, ln_snapshots = [], ln_trace = []\<rparr>
        = (Returned res, la)" "r = execute_result_of lease s res"
    using assms(1) unfolding execute_def Let_def
    by (auto split: option.splits sum.splits prod.splits fetch_end.splits simp: set_breaker_def)
  note shape = fetch_loop_shape [OF x(3) [unfolded fetch_one_def] attempts_so_far_start]
  have ledger: "list_all ledger_attempt (res_attempts res)" by (rule fetch_one_ledger [OF x(3) assms(2)])
  then have accepted: "list_all (attempt_accepted (cl_provider (wl_credential lease))) (map attempt_record_of (res_attempts res))"
      "list_all attempt_fits (map attempt_record_of (res_attempts res))"
    using attempt_record_accepted [OF _ assms(3)] attempt_record_fits fetched_numbers [OF x(3)] by (auto simp: list_all_iff)
  have "res_attempts res \<noteq> []" "ao_error_code (last (res_attempts res)) = res_error_code res"
    using shape by (auto simp: result_shape_def)
  then have code: "storable (res_error_code res)"
    using ledger by (metis last_in_set ledger_attempt_def list_all_iff)
  have "s = OSIPTEL" using x(1) by (auto simp: SITES_def split: if_splits)
  moreover have "list_all storable (site_columns OSIPTEL)" by code_simp
  ultimately have "list_all storable (site_columns s)" by simp
  then show ?thesis
    using x(4) status_values accepted code document_text [OF x(2)] assms(4,5)
    by (simp add: publishable_def publication_of_def publish_request_of_def execute_result_of_def entry_fits_def
        rows_storable_def)
qed

section \<open>Property\<close>

lemma record_outcome_total:
  assumes "source \<in> set sites" "provider \<in> {''geonode'', ''dataimpulse''}"
    "fb_level (pair_breaker rows (source, provider)) < 1022"
  shows "\<exists>rows'. record_outcome sites now source provider healthy rows = Some rows'"
proof -
  obtain rows' where e: "ensure_row sites source provider rows = Some rows'"
    using assms(1,2) by (cases "map_of rows (source, provider)") (simp_all add: ensure_row_def)
  note kept = ensure_row_keeps [OF e, of "(source, provider)"]
  then obtain b where b: "map_of rows' (source, provider) = Some b" by blast
  then have "fb_level b < 1022" using kept assms(3) by (simp add: pair_breaker_def)
  then have "update_breaker now healthy b \<noteq> None" by (simp add: update_breaker_def cooldown_overflows)
  then show ?thesis using e b by (auto simp: record_outcome_def)
qed

lemma publish_leased_entry:
  assumes "queue_ok db" "leased db (pb_worker p) w" "pb_item p = cw_item w" "pb_fence p = cw_fence w" "publishable p"
  shows "\<exists>db'. publish now p db = Inr (True, db')
    \<and> (\<exists>i\<in>set (q_items db'). \<exists>en\<in>set (q_entries db'). it_id i = cw_item w \<and> it_state i = IPublished
         \<and> it_entry i = Some (en_id en) \<and> en_document en = pb_document p \<and> en_source en = pb_source p
         \<and> en_status en = pb_status p \<and> en_columns en = pb_columns p \<and> en_rows en = dumps_ascii (pb_rows p))"
proof -
  obtain e db1 db' and i :: item where d: "publish now p db = Inr (True, db')" "publish_records now p db = Inr (e, db1)"
      "i \<in> set (q_items db)" "fence_holds p db i"
      "finish_if_drained now (it_job i) (map_items (\<lambda>i. if fence_holds p db i then publish_item now p e i else i) db1) = Inr db'"
    using publish_leased [OF assms] by blast
  obtain en where en: "en \<in> set (q_entries db1)" "en_id en = e" "en_document en = pb_document p" "en_source en = pb_source p"
      "en_status en = pb_status p" "en_columns en = pb_columns p" "en_rows en = dumps_ascii (pb_rows p)"
    using publish_records_ledger [OF d(2)] by blast
  have "q_items db1 = q_items db" using publish_records_rows [OF d(2)] by (simp add: same_rows_def)
  then have items: "q_items db' = map (\<lambda>i. if fence_holds p db i then publish_item now p e i else i) (q_items db)"
    using finish_items [OF d(5)] by (simp add: map_items_def)
  have "q_entries db' = q_entries db1" using finish_ledger [OF d(5)] by (simp add: map_items_def)
  moreover have "(if fence_holds p db i then publish_item now p e i else i) \<in> set (q_items db')"
    unfolding items set_map by (rule imageI) (rule d(3))
  then have "publish_item now p e i \<in> set (q_items db')" using d(4) by simp
  moreover have "it_id i = cw_item w" using d(4) assms(3) by (simp add: fence_holds_def)
  ultimately show ?thesis using d(1) en
    by (intro exI [of _ db'] conjI bexI [of _ "publish_item now p e i"] bexI [of _ en]) (simp_all add: publish_item_def)
qed

text \<open>C13: the round of a worker closes. An item the worker claimed, adopted by a lane with whatever
  credential is revealed to it, and looked up with whatever the site and the proxies answer, makes
  a request the API takes when it is the next transaction of the queue: the item ends published under the
  answer's entry, the answer is archived byte for byte, and the fleet's breaker of the pair records
  whether the lookup succeeded. No combination of attempts, error codes and rows a lookup can produce is
  refused by the checks of the tables, except a row with a NUL character, which no text of the database
  may hold, an attempt of more than 24 days, and a lane whose number exceeds 32 bits. It is assumed that the
  storage takes the answer, that the site is one the portal knows and that the breaker of the pair has not
  reached the level at which its cooldown overflows.\<close>

theorem worker_round:
  assumes "reachable db" "claim_many now (ag_worker ag) sources limit key db = Done (ws, db')" "w \<in> set ws"
    and "adopt env l w ag rows = (ag1, rows1, Adopted lease)"
    and "execute clock envs l lease p ag1 = (ag2, trace, Executed r)" "list_all measurable envs"
    and "rows_storable (xr_rows r)" "int l \<le> INT4_MAX"
    and "wp_queue wp = db'" "wk_worker worker = ag_worker ag" "pv_storage_error penv = None"
    and "cw_source w \<in> set (wp_sites wp)"
    and "fb_level (pair_breaker (wp_breakers wp) (cw_source w, cl_provider (wl_credential lease))) < 1022"
  shows "\<exists>wp'. worker_publish penv worker (publish_request_of l lease r) wp = (wp', Answer True)
    \<and> (\<exists>i\<in>set (q_items (wp_queue wp')). \<exists>en\<in>set (q_entries (wp_queue wp')).
         it_id i = cw_item w \<and> it_state i = IPublished \<and> it_entry i = Some (en_id en)
         \<and> en_document en = cw_document w \<and> en_source en = cw_source w \<and> en_status en = xr_status r
         \<and> en_columns en = xr_columns r \<and> en_rows en = dumps_ascii (JList (map (\<lambda>row. JList (map cell_json row)) (xr_rows r))))
    \<and> escape_ascii (dumps_compact (result_json r)) \<in> snd ` set (wp_blobs wp')
    \<and> record_outcome (wp_sites wp) (pv_now penv) (cw_source w) (cl_provider (wl_credential lease))
        (xr_status r \<noteq> ''failed'') (wp_breakers wp) = Some (wp_breakers wp')"
proof -
  note lease = adopt_lease [OF assms(4)]
  let ?req = "publish_request_of l lease r"
  let ?p = "publication_of (ag_worker ag) (pv_object_id penv) ?req"
  have pub: "publishable ?p" "xr_document r = cw_document w" "xr_source r = cw_source w"
    using execute_publishable [OF assms(5,6) _ assms(7,8)] lease by simp_all
  have locked: "claim_many_locked now (ag_worker ag) sources (nat limit) key db = Inr (ws, db')"
    using assms(2,3) by (auto simp: claim_many_def to_call_def split: if_splits sum.splits)
  note ok = reachable_ok [OF assms(1)]
  have ok': "queue_ok db'" using claim_grants [OF ok assms(2)] by blast
  have leased: "leased db' (ag_worker ag) w" by (rule claim_many_leased [OF ok locked assms(3)])
  have fields: "pb_worker ?p = ag_worker ag" "pb_item ?p = cw_item w" "pb_fence ?p = cw_fence w"
      "pb_document ?p = cw_document w" "pb_source ?p = cw_source w" "pb_status ?p = xr_status r"
      "pb_columns ?p = xr_columns r" "pb_rows ?p = JList (map (\<lambda>row. JList (map cell_json row)) (xr_rows r))"
    using lease pub by (simp_all add: publication_of_def publish_request_of_def)
  obtain d and i :: item and en where d: "publish (pv_now penv) ?p db' = Inr (True, d)"
      "i \<in> set (q_items d)" "en \<in> set (q_entries d)" "it_id i = cw_item w" "it_state i = IPublished"
      "it_entry i = Some (en_id en)" "en_document en = cw_document w" "en_source en = cw_source w" "en_status en = xr_status r"
      "en_columns en = xr_columns r" "en_rows en = dumps_ascii (JList (map (\<lambda>row. JList (map cell_json row)) (xr_rows r)))"
    using publish_leased_entry [OF ok' _ _ _ pub(1), of w "pv_now penv"] leased unfolding fields by blast
  obtain team where team: "item_team (cw_item w) db' = Some team"
    using leased by (force simp: item_team_def find_item_def leased_def find_None_iff)
  obtain breakers where b: "record_outcome (wp_sites wp) (pv_now penv) (cw_source w) (cl_provider (wl_credential lease))
      (pr_healthy ?req) (wp_breakers wp) = Some breakers"
    using record_outcome_total [OF assms(12) _ assms(13)] lease by blast
  have req: "pr_item ?req = cw_item w" "pr_source ?req = cw_source w" "pr_provider ?req = cl_provider (wl_credential lease)"
      "pr_healthy ?req = (xr_status r \<noteq> ''failed'')" "b64decode (pr_content ?req) = Inr (escape_ascii (dumps_compact (result_json r)))"
    using lease by (simp_all add: publish_request_of_def b64_roundtrip)
  show ?thesis
    unfolding worker_publish_def req(1-3,5) assms(9-11) using d b [unfolded req(4)] team assms(12)
    by (auto simp: Let_def assms(9) req(4))
qed

text \<open>A worker with one credential at DataImpulse, a clean network and one row to find.\<close>

definition round_env :: adopt_env where
  "round_env = \<lparr>ad_close = clean_close, ad_release_fails = False, ad_now = 0, ad_others = id,
     ad_reply = Inr \<lparr>cl_provider = ''dataimpulse'', cl_config = sample_stored\<rparr>, ad_replied = 0, ad_turns = (\<lambda>_. [])\<rparr>"

definition round_attempt :: attempt_env where
  "round_attempt = (sample_env (raise_exn ParseError []))\<lparr>ae_lookup := Inr [[CStr ''a'', CInt 1]]\<rparr>"

definition round_item :: claim_row where
  "round_item = \<lparr>cw_item = 2, cw_job = 1, cw_team = 101, cw_source = ''osiptel'', cw_document = ''12345678'',
     cw_fence = 0, cw_credential = 102\<rparr>"

definition round_executed :: "agent \<times> session_event list \<times> executed" where
  "round_executed =
     (case adopt round_env 0 round_item sample_agent [] of
        (ag, rows, Adopted lease) \<Rightarrow>
          execute \<lparr>cl_mono = 1, cl_utc = 1\<rparr> [round_attempt] 0 lease (the (ls_provider (ag_lanes ag ! 0))) ag
      | (ag, rows, _) \<Rightarrow> (ag, [], StillLooking))"

definition round_worker :: worker_row where
  "round_worker = \<lparr>wk_id = 9, wk_worker = ''w1'', wk_hash = [], wk_hostname = [], wk_revoked_at = None,
     wk_last_seen = None, wk_cpu = None, wk_memory = None, wk_job = None\<rparr>"

definition round_portal :: "queue_db \<Rightarrow> worker_portal" where
  "round_portal db = \<lparr>wp_queue = db, wp_breakers = [], wp_slots = [], wp_workers = [round_worker], wp_roles = [],
     wp_audit = [], wp_objects = [], wp_blobs = [], wp_credentials = [], wp_sites = [''osiptel'']\<rparr>"

definition round_storage :: publish_env where
  "round_storage = \<lparr>pv_now = 20, pv_sha256 = id, pv_object_id = 500, pv_object_name = ''r'', pv_storage_error = None\<rparr>"

theorem worker_round_witness:
  "\<exists>lease r db wp'. fst (snd round_executed) \<noteq> [] \<and> snd (snd round_executed) = Executed r \<and> xr_status r = ''ok''
     \<and> worker_publish round_storage round_worker (publish_request_of 0 lease r) (round_portal db) = (wp', Answer True)
     \<and> (\<exists>i\<in>set (q_items (wp_queue wp')). it_id i = 2 \<and> it_state i = IPublished)"
proof -
  have "(case claim_many 10 ''w1'' [''osiptel''] 2 None sample_queue of Done (ws, d) \<Rightarrow> round_item \<in> set ws | _ \<Rightarrow> False)"
    by code_simp
  then obtain ws db where c: "claim_many 10 ''w1'' [''osiptel''] 2 None sample_queue = Done (ws, db)" "round_item \<in> set ws"
    by (auto split: call_result.splits)
  have "(case adopt round_env 0 round_item sample_agent [] of (ag, rows, Adopted lease) \<Rightarrow> True | _ \<Rightarrow> False)" by code_simp
  then obtain ag1 rows1 lease where a: "adopt round_env 0 round_item sample_agent [] = (ag1, rows1, Adopted lease)"
    by (auto split: prod.splits adopted.splits)
  have "(case round_executed of (_, tr, Executed r) \<Rightarrow> tr \<noteq> [] \<and> xr_status r = ''ok'' \<and> rows_storable (xr_rows r) | _ \<Rightarrow> False)"
    by code_simp
  then obtain ag2 tr r where x: "round_executed = (ag2, tr, Executed r)" "tr \<noteq> []" "xr_status r = ''ok''" "rows_storable (xr_rows r)"
    by (auto split: prod.splits executed.splits)
  have e: "execute \<lparr>cl_mono = 1, cl_utc = 1\<rparr> [round_attempt] 0 lease (the (ls_provider (ag_lanes ag1 ! 0))) ag1 = (ag2, tr, Executed r)"
    using x(1) a by (simp add: round_executed_def)
  have w1: "ag_worker sample_agent = ''w1''" by (simp add: sample_agent_def new_agent_def set_lane_def Let_def)
  have claimed: "claim_many 10 (ag_worker sample_agent) [''osiptel''] 2 None sample_queue = Done (ws, db)"
    unfolding w1 by (rule c(1))
  have elapsed: "list_all measurable [round_attempt]" by (simp add: measurable_def round_attempt_def sample_env_def)
  have lane: "int 0 \<le> INT4_MAX" by (simp add: INT4_MAX_def)
  have portal: "wp_queue (round_portal db) = db" "wk_worker round_worker = ag_worker sample_agent"
      "pv_storage_error round_storage = None" "cw_source round_item \<in> set (wp_sites (round_portal db))"
      "fb_level (pair_breaker (wp_breakers (round_portal db)) (cw_source round_item, cl_provider (wl_credential lease))) < 1022"
    unfolding w1 by (simp_all add: round_portal_def round_worker_def round_storage_def round_item_def pair_breaker_def new_fleet_breaker_def)
  obtain wp' where p: "worker_publish round_storage round_worker (publish_request_of 0 lease r) (round_portal db) = (wp', Answer True)"
      "\<exists>i\<in>set (q_items (wp_queue wp')). it_id i = cw_item round_item \<and> it_state i = IPublished"
    using worker_round [OF sample_reachable claimed c(2) a e elapsed x(4) lane portal] by blast
  have "\<exists>i\<in>set (q_items (wp_queue wp')). it_id i = 2 \<and> it_state i = IPublished" using p(2) by (simp add: round_item_def)
  then show ?thesis unfolding x(1) using p(1) x(2,3)
    by (intro exI [of _ lease] exI [of _ r] exI [of _ db] exI [of _ wp']) simp
qed

end
