(* ===== verification/WorkerLanes.thy ===== *)
theory WorkerLanes
  imports WorkerDispatch
begin

text \<open>
  The lanes of a worker over time: the shared credential cache under any interleaving, and the steps
  of the tasks as a relation on the agent, with what no run of them ever reaches.
\<close>


section \<open>The credential cache\<close>

datatype cache_op = CacheLookup seconds uuid | CacheStore seconds uuid credential_lease

text \<open>The steps the lanes take on the shared cache, the latest first.\<close>

fun cache_after :: "cache_op list \<Rightarrow> credential_cache" where
  "cache_after [] = []"
| "cache_after (CacheLookup now version # ops) = fst (cache_lookup now version (cache_after ops))"
| "cache_after (CacheStore replied version credential # ops) =
     cache_store replied version credential (cache_after ops)"

fun latest_store :: "uuid \<Rightarrow> cache_op list \<Rightarrow> (seconds \<times> credential_lease) option" where
  "latest_store version [] = None"
| "latest_store version (CacheLookup now v # ops) = latest_store version ops"
| "latest_store version (CacheStore replied v credential # ops) =
     (if v = version then Some (replied, credential) else latest_store version ops)"

definition cache_ok :: "cache_op list \<Rightarrow> credential_cache \<Rightarrow> bool" where
  "cache_ok ops cache \<longleftrightarrow>
     distinct (map fst cache) \<and> length cache \<le> CREDENTIAL_CACHE_SIZE
     \<and> (\<forall>(v, c, e) \<in> set cache. latest_store v ops = Some (e - CREDENTIAL_CACHE_TTL_SECONDS, c))"

lemma distinct_fst_tl: "distinct (map fst xs) \<Longrightarrow> distinct (map fst (tl xs))"
  by (cases xs) auto

lemma distinct_fst_filter: "distinct (map fst xs) \<Longrightarrow> distinct (map fst (filter P xs))"
  by (induction xs) auto

lemma cache_lookup_ok:
  assumes "cache_ok ops cache"
  shows "cache_ok (CacheLookup now version # ops) (fst (cache_lookup now version cache))"
proof -
  have d: "distinct (map fst cache)" "length cache \<le> CREDENTIAL_CACHE_SIZE"
    and all: "\<And>v c e. (v, c, e) \<in> set cache \<Longrightarrow> latest_store v ops = Some (e - CREDENTIAL_CACHE_TTL_SECONDS, c)"
    using assms by (auto simp: cache_ok_def)
  let ?w = "filter (\<lambda>e. fst e \<noteq> version) cache"
  show ?thesis
  proof (cases "map_of cache version")
    case None
    then show ?thesis using d all by (auto simp: cache_ok_def cache_lookup_def)
  next
    case (Some ce)
    obtain c e where ce: "ce = (c, e)" by fastforce
    have mem: "(version, c, e) \<in> set cache" using map_of_SomeD [OF Some] ce by simp
    have "length ?w < length cache" using mem by (intro length_filter_less) auto
    moreover have "distinct (map fst ?w)" using d(1) by (rule distinct_fst_filter)
    ultimately show ?thesis using d(2) all mem Some ce by (auto simp: cache_ok_def cache_lookup_def Let_def)
  qed
qed

lemma cache_store_ok:
  assumes "cache_ok ops cache"
  shows "cache_ok (CacheStore replied version credential # ops) (cache_store replied version credential cache)"
proof -
  let ?entry = "(credential, replied + CREDENTIAL_CACHE_TTL_SECONDS)"
  let ?new = "if map_of cache version = None then cache @ [(version, ?entry)]
       else map (\<lambda>(v, e). (v, if v = version then ?entry else e)) cache"
  have d: "distinct (map fst cache)" "length cache \<le> CREDENTIAL_CACHE_SIZE"
    and all: "\<And>v c e. (v, c, e) \<in> set cache \<Longrightarrow> latest_store v ops = Some (e - CREDENTIAL_CACHE_TTL_SECONDS, c)"
    using assms by (auto simp: cache_ok_def)
  have "map fst (map (\<lambda>(v, e). (v, if v = version then ?entry else e)) cache) = map fst cache"
    by (simp add: case_prod_unfold)
  then have "distinct (map fst ?new)" "length ?new \<le> CREDENTIAL_CACHE_SIZE + 1"
    using d by (simp_all add: map_of_eq_None_iff del: map_map)
  moreover have "latest_store v (CacheStore replied version credential # ops) = Some (e - CREDENTIAL_CACHE_TTL_SECONDS, c)"
    if "(v, c, e) \<in> set ?new" for v c e
  proof (cases "v = version")
    case True
    then have "(c, e) = ?entry"
      using that by (auto simp: map_of_eq_None_iff image_iff split: if_splits)
    then show ?thesis using True by simp
  next
    case False
    then have "(v, c, e) \<in> set cache" using that by (auto split: if_splits)
    then show ?thesis using all False by simp
  qed
  moreover have "cache_store replied version credential cache = (if CREDENTIAL_CACHE_SIZE < length ?new then tl ?new else ?new)"
    by (simp add: cache_store_def Let_def)
  ultimately show ?thesis
    using distinct_fst_tl [of ?new] list.set_sel(2) [of ?new]
    unfolding cache_ok_def by (cases "?new") auto
qed

lemma cache_after_ok: "cache_ok ops (cache_after ops)"
proof (induction ops rule: cache_after.induct)
  case 1
  then show ?case by (simp add: cache_ok_def)
qed (simp_all add: cache_lookup_ok cache_store_ok)

text \<open>The cache of revealed credentials stays within 32 entries and serves no stale secret. However
  the lanes interleave, an answer taken from the cache is the credential of the latest reply stored
  for that version, and that reply is less than 300 seconds old.\<close>

theorem cached_credential_fresh:
  "length (cache_after ops) \<le> 32
   \<and> (case snd (cache_lookup now version (cache_after ops)) of
        None \<Rightarrow> True
      | Some c \<Rightarrow> (\<exists>replied. latest_store version ops = Some (replied, c) \<and> now < replied + 300))"
proof -
  have "length (cache_after ops) \<le> 32"
    using cache_after_ok [of ops] by (simp add: cache_ok_def CREDENTIAL_CACHE_SIZE_def)
  moreover have "\<exists>replied. latest_store version ops = Some (replied, c) \<and> now < replied + 300"
    if hit: "snd (cache_lookup now version (cache_after ops)) = Some c" for c
  proof -
    obtain e where e: "map_of (cache_after ops) version = Some (c, e)" "now < e"
      using hit by (auto simp: cache_lookup_def Let_def split: option.splits if_splits)
    then have "latest_store version ops = Some (e - 300, c)"
      using map_of_SomeD [OF e(1)] cache_after_ok [of ops] by (auto simp: cache_ok_def CREDENTIAL_CACHE_TTL_SECONDS_def)
    then show ?thesis using e(2) by auto
  qed
  ultimately show ?thesis by (auto split: option.split)
qed

section \<open>Steps of the tasks\<close>

definition working :: "nat \<Rightarrow> agent \<Rightarrow> bool" where
  "working l ag \<longleftrightarrow> l < length (ag_lanes ag) \<and> l \<notin> set (ag_idle ag)"

inductive agent_step :: "agent \<Rightarrow> agent \<Rightarrow> bool" where
  dispatches: "reachable db \<Longrightarrow> worker_sources (ag_sources ag) = Inr () \<Longrightarrow>
    dispatch_once nows ag db = (ag', db', r) \<Longrightarrow> agent_step ag ag'"
| offers: "working l ag \<Longrightarrow> ag_queues ag ! l = None \<Longrightarrow>
    lane_top ce failed l ag rows = (closes, ag', rows', err) \<Longrightarrow> agent_step ag ag'"
| takes: "working l ag \<Longrightarrow> lane_take l ag = Some (w, ag') \<Longrightarrow> agent_step ag ag'"
| turns: "working l ag \<Longrightarrow> lane_turn env now envs post l w ag rows = (ag', rows', out) \<Longrightarrow> agent_step ag ag'"

inductive agent_run :: "agent \<Rightarrow> agent \<Rightarrow> bool" where
  start: "agent_run ag ag"
| more: "agent_run ag ag' \<Longrightarrow> agent_step ag' ag'' \<Longrightarrow> agent_run ag ag''"

inductive_cases agent_stepE: "agent_step ag ag'"

lemma set_lane_ok:
  "agent_ok ag \<Longrightarrow> l \<in> set (ag_idle ag) \<or> ls_idle_polls s = 0 \<Longrightarrow> agent_ok (set_lane l s ag)"
  by (cases "l < length (ag_lanes ag)") (auto simp: agent_ok_def set_lane_def nth_list_update)

lemma agent_ok_others [simp]:
  "agent_ok (ag\<lparr>ag_cache := c\<rparr>) = agent_ok ag" "agent_ok (ag\<lparr>ag_wake := w\<rparr>) = agent_ok ag"
  "agent_ok (ag\<lparr>ag_current_job := j\<rparr>) = agent_ok ag" "agent_ok (set_breaker k b ag) = agent_ok ag"
  by (simp_all add: agent_ok_def set_breaker_def)

lemma close_lane_polls:
  "close_and_release_lane worker ce failed ls rows = (ls', tr, rows', err) \<Longrightarrow> ls_idle_polls ls' = ls_idle_polls ls"
  by (auto simp: close_and_release_lane_def Let_def split: prod.splits option.splits sum.splits bool.splits)

lemma adopt_ok:
  assumes "agent_ok ag" "working l ag" "adopt env l w ag rows = (ag', rows', out)"
  shows "agent_ok ag' \<and> working l ag'"
proof -
  let ?key = "(cw_source w, cw_credential w)"
  obtain ls tr rows1 err where c: "(if ls_key (ag_lanes ag ! l) \<noteq> None \<and> ls_key (ag_lanes ag ! l) \<noteq> Some ?key
       then close_and_release_lane (ag_worker ag) (ad_close env) (ad_release_fails env) (ag_lanes ag ! l) rows
       else (ag_lanes ag ! l, [], rows, None)) = (ls, tr, rows1, err)"
    by (rule prod_cases4)
  have "ls_idle_polls ls = ls_idle_polls (ag_lanes ag ! l)" using c close_lane_polls by (auto split: if_splits)
  then have "ls_idle_polls ls = 0" using assms(1,2) by (simp add: agent_ok_def working_def)
  then have one: "agent_ok (set_lane l ls ag)" "working l (set_lane l ls ag)"
    using assms(1,2) by (simp_all add: set_lane_ok) (simp add: working_def set_lane_def)
  have two: "agent_ok (set_lane l s ag1)" "working l (set_lane l s ag1)"
    if "agent_ok ag1" "working l ag1" "ls_idle_polls s = 0" for s ag1
    using that by (simp_all add: set_lane_ok) (simp add: working_def set_lane_def)
  have w: "working l (ag1\<lparr>ag_cache := ca\<rparr>) = working l ag1" "working l (ag1\<lparr>ag_current_job := j\<rparr>) = working l ag1" for ag1 ca j
    by (simp_all add: working_def)
  show ?thesis
    using assms(3) one two unfolding adopt_def Let_def c prod.case
    by (auto simp: w split: option.splits prod.splits sum.splits)
qed

lemma execute_ok:
  assumes "agent_ok ag" "working l ag" "execute now envs l lease p ag = (ag', tr, out)"
  shows "agent_ok ag' \<and> working l ag'"
proof -
  have polls: "ls_idle_polls (ag_lanes ag ! l) = 0" using assms(1,2) by (simp add: agent_ok_def working_def)
  have keep: "agent_ok (set_breaker k b ag1) = agent_ok ag1" "working l (set_breaker k b ag1) = working l ag1" for k b ag1
    by simp (simp add: working_def set_breaker_def)
  have lane: "agent_ok (set_lane l ((ag_lanes ag ! l)\<lparr>ls_state := st\<rparr>) (set_breaker k b ag))"
      "working l (set_lane l ((ag_lanes ag ! l)\<lparr>ls_state := st\<rparr>) (set_breaker k b ag))" for st k b
    using assms(1,2) polls by (simp_all add: set_lane_ok) (simp add: working_def set_lane_def set_breaker_def)
  have same: "ag_lanes (set_breaker k b ag) = ag_lanes ag" for k b by (simp add: set_breaker_def)
  show ?thesis
    using assms unfolding execute_def Let_def same
    by (auto simp: keep lane simp del: agent_ok_others split: option.splits sum.splits prod.splits)
qed

lemma lane_turn_ok:
  assumes "agent_ok ag" "working l ag" "lane_turn env now envs post l w ag rows = (ag', rows', out)"
  shows "agent_ok ag'"
proof -
  obtain ag1 rows1 a where a: "adopt env l w ag rows = (ag1, rows1, a)" by (rule prod_cases3)
  have ok: "agent_ok ag1" "working l ag1" using adopt_ok [OF assms(1,2) a] by simp_all
  show ?thesis
  proof (cases a)
    case (Adopted lease)
    show ?thesis
    proof (cases "ls_provider (ag_lanes ag1 ! l)")
      case (Some p)
      obtain ag2 tr x where x: "execute now envs l lease p ag1 = (ag2, tr, x)" by (rule prod_cases3)
      then show ?thesis using assms(3) a Adopted Some execute_ok [OF ok x]
        by (cases x) (auto simp: lane_turn_def Let_def)
    qed (use assms(3) a Adopted ok in \<open>auto simp: lane_turn_def Let_def\<close>)
  qed (use assms(3) a ok in \<open>auto simp: lane_turn_def Let_def\<close>)
qed

lemma lane_top_stays:
  assumes "agent_ok ag" "working l ag" "lane_top ce failed l ag rows = (closes, ag', rows', err)"
  shows "\<not> closes \<and> ag' = ag\<lparr>ag_idle := ag_idle ag @ [l]\<rparr>"
proof -
  have "ls_idle_polls (ag_lanes ag ! l) = 0" "l \<notin> set (ag_idle ag)" using assms(1,2) by (simp_all add: agent_ok_def working_def)
  then show ?thesis using assms(3) by (simp add: lane_top_def Let_def IDLE_SESSION_CLOSE_AFTER_def)
qed

lemma agent_step_ok:
  assumes "agent_step ag ag'" "agent_ok ag"
  shows "agent_ok ag'"
  using assms(1)
proof (cases rule: agent_step.cases)
  case (dispatches db nows db' r)
  then show ?thesis using dispatch_keeps_ok [OF dispatches(1) assms(2) dispatches(2)] by metis
next
  case (offers l ce failed rows closes rows' err)
  then show ?thesis using lane_top_stays [OF assms(2) offers(1,3)] assms(2) by (auto simp: agent_ok_def working_def)
next
  case (takes l w)
  then show ?thesis using assms(2)
    by (auto simp: lane_take_def agent_ok_def working_def nth_list_update split: option.splits)
next
  case (turns l env now envs post w rows rows' out)
  then show ?thesis using lane_turn_ok [OF assms(2)] by blast
qed

lemma agent_run_ok: "agent_run ag ag' \<Longrightarrow> agent_ok ag \<Longrightarrow> agent_ok ag'"
  by (induction rule: agent_run.induct) (auto intro: agent_step_ok)

lemma new_agent_ok: "agent_ok (new_agent worker sources n)"
  by (simp add: agent_ok_def new_agent_def new_lane_session_def)

text \<open>An idle worker never gives a slot back. In no run of the worker's tasks does a lane that comes
  to the top of its loop find the five idle polls it would close its session at: only a lane that
  waits is polled, and the item that ends its wait sets the count to zero.\<close>

theorem idle_close_unreachable:
  assumes "agent_run (new_agent worker sources n) ag" "working l ag"
  shows "\<not> fst (lane_top ce failed l ag rows)"
proof -
  obtain closes ag' rows' err where t: "lane_top ce failed l ag rows = (closes, ag', rows', err)" by (rule prod_cases4)
  show ?thesis using lane_top_stays [OF agent_run_ok [OF assms(1) new_agent_ok] assms(2) t] t by simp
qed

theorem idle_close_unreachable_witness:
  "\<exists>ag. agent_run (new_agent ''w1'' [''osiptel''] 2) ag \<and> ag_idle ag = [0] \<and> \<not> fst (lane_top clean_close False 1 ag [])"
proof -
  let ?ag = "new_agent ''w1'' [''osiptel''] 2"
  let ?top = "lane_top clean_close False 0 ?ag []"
  have "working 0 ?ag" "ag_queues ?ag ! 0 = None" by (simp_all add: working_def new_agent_def)
  then have "agent_step ?ag (fst (snd ?top))" by (rule agent_step.offers) (rule prod_eqI, simp, rule prod_eqI, simp, rule prod_eqI, simp_all)
  then have run: "agent_run ?ag (fst (snd ?top))" using agent_run.start agent_run.more by blast
  have idle: "ag_idle (fst (snd ?top)) = [0]"
    by (simp add: lane_top_def new_agent_def new_lane_session_def Let_def)
  moreover have "working 1 (fst (snd ?top))"
    by (simp add: working_def lane_top_def new_agent_def new_lane_session_def Let_def)
  ultimately show ?thesis using idle_close_unreachable [OF run] run by blast
qed

end
