(* ===== verification/Vault.thy ===== *)
theory Vault
  imports Planning Wire
begin

text \<open>
  Secrets at rest: the master keyring (\<open>portal/credentials/masterkey.py\<close>), the envelope around every
  stored secret (\<open>portal/credentials/secrets.py\<close>), and the key administration that rotates the
  keyring and moves stored data keys onto the active key (\<open>portal/admin/keys.py\<close>, \<open>rewrap.py\<close>).
  AES-GCM is code outside the repository: its two functions are the fields of \<open>aead\<close>, and the
  theorems state what they need of it. Random bytes are arguments. A byte is a character.
\<close>

section \<open>The cipher\<close>

record aead =
  encrypt :: "pystr \<Rightarrow> pystr \<Rightarrow> pystr \<Rightarrow> pystr"
  decrypt :: "pystr \<Rightarrow> pystr \<Rightarrow> pystr \<Rightarrow> pystr option"

text \<open>The documented behaviour of AES-GCM the code relies on: what was encrypted under a key and a nonce
  decrypts under them, and a ciphertext is longer than nothing by its tag.\<close>

definition opens :: "aead \<Rightarrow> bool" where
  "opens c \<longleftrightarrow> (\<forall>k n p. decrypt c k n (encrypt c k n p) = Some p \<and> encrypt c k n p \<noteq> [])"

definition DATA_KEY_BYTES :: nat where "DATA_KEY_BYTES = 32"
definition NONCE_BYTES :: nat where "NONCE_BYTES = 12"

section \<open>The keyring\<close>

record keyring =
  kr_active :: pystr
  kr_keys :: "(pystr \<times> pystr) list"

record data_key =
  dk_plaintext :: pystr
  dk_wrapped :: pystr
  dk_version :: pystr

definition runtime_error :: "pystr \<Rightarrow> exn" where
  "runtime_error msg = raise_exn (BuiltinError ''RuntimeError'') msg"

text \<open>\<open>str.split()\<close>: the runs of characters that are not white space.\<close>

function py_words :: "pystr \<Rightarrow> pystr list" where
  "py_words s =
     (let t = dropWhile py_isspace_char s
      in if t = [] then []
         else takeWhile (\<lambda>c. \<not> py_isspace_char c) t # py_words (dropWhile (\<lambda>c. \<not> py_isspace_char c) t))"
  by pat_completeness auto
termination
proof (relation "measure length", simp)
  fix s t
  assume t: "t = dropWhile py_isspace_char s" and "t \<noteq> []"
  then have "\<not> py_isspace_char (hd t)"
    using hd_dropWhile [of py_isspace_char s] by simp
  then have "length (dropWhile (\<lambda>c. \<not> py_isspace_char c) t) < length t"
    using \<open>t \<noteq> []\<close> by (cases t) (auto simp: le_imp_less_Suc length_dropWhile_le)
  then show "(dropWhile (\<lambda>c. \<not> py_isspace_char c) t, s) \<in> measure length"
    using length_dropWhile_le [of py_isspace_char s] t by simp
qed

declare py_words.simps [simp del]

definition version_char :: "char \<Rightarrow> bool" where
  "version_char c \<longleftrightarrow>
     (let n = code_point c
      in (97 \<le> n \<and> n \<le> 122) \<or> (65 \<le> n \<and> n \<le> 90) \<or> (48 \<le> n \<and> n \<le> 57)
         \<or> c = CHR ''-'' \<or> c = CHR ''_'' \<or> c = CHR ''.'')"

text \<open>
  Lenient decoding: characters outside the alphabet are skipped, and a padding that completes a
  group ends the text. The state is the position in the group, the bits carried over, and the
  padding seen.
\<close>

fun b64_scan :: "nat \<Rightarrow> nat \<Rightarrow> nat \<Rightarrow> pystr \<Rightarrow> pystr option" where
  "b64_scan pos left pads [] = (if pos = 0 then Some [] else None)"
| "b64_scan pos left pads (c # s) =
     (if c = CHR ''=''
      then if 2 \<le> pos \<and> 4 \<le> pos + pads + 1 then Some []
           else b64_scan pos left (if 2 \<le> pos then pads + 1 else pads) s
      else
        (case b64_value c of
           None \<Rightarrow> b64_scan pos left pads s
         | Some d \<Rightarrow>
             if pos = 0 then b64_scan 1 d 0 s
             else if pos = 1 then map_option ((#) (char_of (left * 4 + d div 16))) (b64_scan 2 (d mod 16) 0 s)
             else if pos = 2 then map_option ((#) (char_of (left * 16 + d div 4))) (b64_scan 3 (d mod 4) 0 s)
             else map_option ((#) (char_of (left * 64 + d))) (b64_scan 0 0 0 s)))"

definition url_to_std :: "char \<Rightarrow> char" where
  "url_to_std c = (if c = CHR ''-'' then CHR ''+'' else if c = CHR ''_'' then CHR ''/'' else c)"

definition std_to_url :: "char \<Rightarrow> char" where
  "std_to_url c = (if c = CHR ''+'' then CHR ''-'' else if c = CHR ''/'' then CHR ''_'' else c)"

definition urlsafe_b64encode :: "pystr \<Rightarrow> pystr" where
  "urlsafe_b64encode s = map std_to_url (b64encode s)"

definition key_error :: "pystr \<Rightarrow> nat \<Rightarrow> pystr \<Rightarrow> exn" where
  "key_error source number msg = runtime_error (source @ '' line '' @ nat_str number @ '': '' @ msg)"

definition decode_key :: "pystr \<Rightarrow> pystr \<Rightarrow> nat \<Rightarrow> exn + pystr" where
  "decode_key encoded source number =
     (let padded = encoded @ replicate ((4 - length encoded mod 4) mod 4) CHR ''=''
      in if list_ex (\<lambda>c. 128 \<le> code_point c) padded
         then Inl (key_error source number ''key must be urlsafe base64'')
         else
           (case b64_scan 0 0 0 (map url_to_std padded) of
              None \<Rightarrow> Inl (key_error source number ''key must be urlsafe base64'')
            | Some key \<Rightarrow>
                if length key \<noteq> DATA_KEY_BYTES
                then Inl (key_error source number ''key must decode to 32 bytes'')
                else Inr key))"

definition parse_key_line :: "pystr \<Rightarrow> pystr \<Rightarrow> nat \<Rightarrow> exn + pystr \<times> pystr" where
  "parse_key_line entry source number =
     (case py_words entry of
        [version, encoded] \<Rightarrow>
          if \<not> list_all version_char version
          then Inl (key_error source number ''version may only use letters, digits, and -_.'')
          else bind_res (decode_key encoded source number) (\<lambda>key. Inr (version, key))
      | _ \<Rightarrow> Inl (key_error source number ''expected `<version> <urlsafe-base64 key>`''))"

definition ignored_line :: "pystr \<Rightarrow> bool" where
  "ignored_line line = (let entry = py_strip line in entry = [] \<or> py_startswith entry ''#'')"

fun read_lines :: "pystr \<Rightarrow> nat \<Rightarrow> pystr list \<Rightarrow> (pystr \<times> pystr) list \<Rightarrow> exn + (pystr \<times> pystr) list" where
  "read_lines source number [] keys = Inr keys"
| "read_lines source number (line # ls) keys =
     (if ignored_line line then read_lines source (Suc number) ls keys
      else bind_res (parse_key_line (py_strip line) source number) (\<lambda>(version, key).
             if version \<in> fst ` set keys
             then Inl (key_error source number (''key version '' @ version @ '' is repeated''))
             else read_lines source (Suc number) ls (keys @ [(version, key)])))"

definition from_lines :: "pystr list \<Rightarrow> pystr \<Rightarrow> exn + keyring" where
  "from_lines ls source =
     bind_res (read_lines source 1 ls []) (\<lambda>keys.
       case keys of
         [] \<Rightarrow> Inl (runtime_error (source @ '' holds no master keys. Write one with `portal-admin key generate`.''))
       | (version, _) # _ \<Rightarrow> Inr \<lparr>kr_active = version, kr_keys = keys\<rparr>)"

definition new_master_key_line :: "pystr \<Rightarrow> pystr \<Rightarrow> pystr" where
  "new_master_key_line version key = version @ '' '' @ urlsafe_b64encode key"

section \<open>Data keys\<close>

definition active_key :: "keyring \<Rightarrow> pystr" where
  "active_key kr = (case map_of (kr_keys kr) (kr_active kr) of Some k \<Rightarrow> k | None \<Rightarrow> [])"

definition rewrap_key :: "aead \<Rightarrow> keyring \<Rightarrow> pystr \<Rightarrow> pystr \<Rightarrow> pystr" where
  "rewrap_key c kr nonce data_key = nonce @ encrypt c (active_key kr) nonce data_key"

definition generate_data_key :: "aead \<Rightarrow> keyring \<Rightarrow> pystr \<Rightarrow> pystr \<Rightarrow> data_key" where
  "generate_data_key c kr plaintext nonce =
     \<lparr>dk_plaintext = plaintext, dk_wrapped = rewrap_key c kr nonce plaintext, dk_version = kr_active kr\<rparr>"

datatype unwrap_error = KeyMissing exn | Truncated | InvalidTag

definition unwrap :: "aead \<Rightarrow> keyring \<Rightarrow> pystr \<Rightarrow> pystr \<Rightarrow> unwrap_error + pystr" where
  "unwrap c kr wrapped key_version =
     (case map_of (kr_keys kr) key_version of
        None \<Rightarrow> Inl (KeyMissing (runtime_error (''master key version '' @ key_version @ '' is not in the keyring'')))
      | Some key \<Rightarrow>
          if length wrapped \<le> NONCE_BYTES then Inl Truncated
          else (case decrypt c key (take NONCE_BYTES wrapped) (drop NONCE_BYTES wrapped) of
                  None \<Rightarrow> Inl InvalidTag
                | Some p \<Rightarrow> Inr p))"

section \<open>The envelope\<close>

record protected_secret =
  ps_ciphertext :: pystr
  ps_wrapped_data_key :: pystr
  ps_master_key_version :: pystr

datatype reveal_error = SecretUnreadable portal_error | MasterKeyMissing exn

definition unreadable :: "reveal_error + 'a" where
  "unreadable =
     Inl (SecretUnreadable \<lparr>pe_class = CredentialConfigurationError, pe_reason = SECRET_UNREADABLE, pe_params = []\<rparr>)"

text \<open>The random bytes of a call: the data key, the nonce that wraps it, and the nonce of the payload.\<close>

definition protect :: "aead \<Rightarrow> keyring \<Rightarrow> pystr \<Rightarrow> pystr \<Rightarrow> pystr \<Rightarrow> pystr \<Rightarrow> protected_secret" where
  "protect c kr key_bytes key_nonce nonce payload =
     (let dk = generate_data_key c kr key_bytes key_nonce
      in \<lparr>ps_ciphertext = nonce @ encrypt c (dk_plaintext dk) nonce payload,
          ps_wrapped_data_key = dk_wrapped dk, ps_master_key_version = dk_version dk\<rparr>)"

definition reveal :: "aead \<Rightarrow> keyring \<Rightarrow> protected_secret \<Rightarrow> reveal_error + pystr" where
  "reveal c kr s =
     (if length (ps_ciphertext s) \<le> NONCE_BYTES then unreadable
      else
        (case unwrap c kr (ps_wrapped_data_key s) (ps_master_key_version s) of
           Inl (KeyMissing e) \<Rightarrow> Inl (MasterKeyMissing e)
         | Inl _ \<Rightarrow> unreadable
         | Inr key \<Rightarrow>
             (case decrypt c key (take NONCE_BYTES (ps_ciphertext s)) (drop NONCE_BYTES (ps_ciphertext s)) of
                None \<Rightarrow> unreadable
              | Some p \<Rightarrow> Inr p)))"

section \<open>Key administration\<close>

definition generated_line :: "pystr \<Rightarrow> pystr \<Rightarrow> exn + pystr" where
  "generated_line version key =
     (let line = new_master_key_line version key
      in bind_res (from_lines [line] ''generated key'') (\<lambda>_. Inr line))"

text \<open>\<open>_rotate\<close> on the lines of an existing key file: None leaves the file as it is.\<close>

definition rotate :: "pystr \<Rightarrow> pystr \<Rightarrow> pystr \<Rightarrow> pystr list \<Rightarrow> exn + pystr list option" where
  "rotate path version key current =
     bind_res (from_lines current path) (\<lambda>_.
       let versions = map (\<lambda>l. hd (py_words l)) (filter (\<lambda>l. \<not> ignored_line l) current)
       in if hd versions = version then Inr None
          else if version \<in> set versions then Inl (runtime_error (''key version already exists: '' @ version))
          else bind_res (generated_line version key) (\<lambda>line. Inr (Some (line # current))))"

text \<open>\<open>_rewrapped\<close>, and the run over the rows of one table: an update for every row fetched.\<close>

definition rewrapped ::
  "aead \<Rightarrow> keyring \<Rightarrow> pystr \<Rightarrow> pystr \<Rightarrow> pystr \<Rightarrow> unwrap_error + pystr \<times> pystr" where
  "rewrapped c kr nonce wrapped key_version =
     bind_res (unwrap c kr wrapped key_version) (\<lambda>dk. Inr (rewrap_key c kr nonce dk, kr_active kr))"

type_synonym secrets_table = "(uuid \<times> protected_secret) list"

definition update_wrapped :: "uuid \<Rightarrow> pystr \<Rightarrow> pystr \<Rightarrow> secrets_table \<Rightarrow> secrets_table" where
  "update_wrapped rid wrapped version table =
     map (\<lambda>(i, s). if i = rid then (i, s\<lparr>ps_wrapped_data_key := wrapped, ps_master_key_version := version\<rparr>) else (i, s))
       table"

fun rewrap_rows ::
  "aead \<Rightarrow> keyring \<Rightarrow> secrets_table \<Rightarrow> pystr list \<Rightarrow> secrets_table \<Rightarrow> unwrap_error option \<times> secrets_table" where
  "rewrap_rows c kr [] nonces table = (None, table)"
| "rewrap_rows c kr fetched [] table = (None, table)"
| "rewrap_rows c kr ((rid, s) # fetched) (nonce # nonces) table =
     (case rewrapped c kr nonce (ps_wrapped_data_key s) (ps_master_key_version s) of
        Inl e \<Rightarrow> (Some e, table)
      | Inr (wrapped, version) \<Rightarrow> rewrap_rows c kr fetched nonces (update_wrapped rid wrapped version table))"

definition rewrap_fetch :: "keyring \<Rightarrow> secrets_table \<Rightarrow> secrets_table" where
  "rewrap_fetch kr table = filter (\<lambda>(i, s). ps_master_key_version s \<noteq> kr_active kr) table"

text \<open>Without other writers the rows fetched are the rows updated. There is a fresh nonce for every row.\<close>

definition rewrap_table ::
  "aead \<Rightarrow> keyring \<Rightarrow> pystr list \<Rightarrow> secrets_table \<Rightarrow> (unwrap_error option \<times> secrets_table) \<times> nat" where
  "rewrap_table c kr nonces table =
     (rewrap_rows c kr (rewrap_fetch kr table) nonces table, length (rewrap_fetch kr table))"

section \<open>Lines that were generated parse\<close>

lemma sextets:
  "code_point a div 4 < 64" "code_point a mod 4 * 16 + code_point b div 16 < 64"
  "code_point b mod 16 * 4 + code_point c div 64 < 64" "code_point c mod 64 < 64"
  "code_point a mod 4 * 16 < 64" "code_point b mod 16 * 4 < 64"
proof -
  have bytes: "code_point a < 256" "code_point b < 256" "code_point c < 256" for a b c :: char
    by simp_all
  show "code_point a div 4 < 64" "code_point c mod 64 < 64"
    by (rule byte_parts [OF bytes(1)])+
  show "code_point a mod 4 * 16 + code_point b div 16 < 64"
    by (rule sextet(1) [OF byte_parts(4) [OF bytes(1)] byte_parts(2) [OF bytes(1)]])
  show "code_point b mod 16 * 4 + code_point c div 64 < 64"
    by (rule sextet(2) [OF byte_parts(5) [OF bytes(1)] byte_parts(3) [OF bytes(1)]])
  show "code_point a mod 4 * 16 < 64" "code_point b mod 16 * 4 < 64"
    using sextet(1) [OF byte_parts(4) [OF bytes(1)], of 0] sextet(2) [OF byte_parts(5) [OF bytes(1)], of 0] by simp_all
qed

lemma sextet_parts:
  "(code_point a mod 4 * 16 + code_point b div 16) div 16 = code_point a mod 4"
  "(code_point a mod 4 * 16 + code_point b div 16) mod 16 = code_point b div 16"
  "(code_point b mod 16 * 4 + code_point c div 64) div 4 = code_point b mod 16"
  "(code_point b mod 16 * 4 + code_point c div 64) mod 4 = code_point c div 64"
proof -
  have "code_point b div 16 < 16" "code_point c div 64 < 4"
    by (rule byte_parts, simp)+
  then show "(code_point a mod 4 * 16 + code_point b div 16) div 16 = code_point a mod 4"
    "(code_point a mod 4 * 16 + code_point b div 16) mod 16 = code_point b div 16"
    "(code_point b mod 16 * 4 + code_point c div 64) div 4 = code_point b mod 16"
    "(code_point b mod 16 * 4 + code_point c div 64) mod 4 = code_point c div 64"
    by (simp_all add: bits_high bits_low)
qed

lemma b64_value_url: "url_to_std (std_to_url (b64_char n)) = b64_char n" if "n < 64"
proof -
  have "b64_char n \<noteq> CHR ''-''" "b64_char n \<noteq> CHR ''_''"
    using b64_value_char [OF that] by (auto simp: b64_value_def Let_def)
  then show ?thesis by (simp add: url_to_std_def std_to_url_def)
qed

lemma b64encode_chars: "c \<in> set (b64encode s) \<Longrightarrow> c = CHR ''='' \<or> (\<exists>n<64. c = b64_char n)"
proof (induction s rule: b64encode.induct)
  case (2 a)
  then show ?case by (simp add: Let_def) (metis sextets(1,5))
next
  case (3 a b)
  then show ?case by (simp add: Let_def) (metis sextets(1,2,6))
next
  case (4 a b c' s)
  then show ?case by (simp add: Let_def) (metis sextets(1,2,3,4))
qed simp

lemma url_roundtrip: "map url_to_std (urlsafe_b64encode s) = b64encode s"
proof -
  have "url_to_std (std_to_url c) = c" if "c \<in> set (b64encode s)" for c
    using b64encode_chars [OF that]
  proof
    assume "c = CHR ''=''" then show ?thesis by (simp add: url_to_std_def std_to_url_def)
  next
    assume "\<exists>n<64. c = b64_char n" then show ?thesis using b64_value_url by blast
  qed
  then show ?thesis
    by (simp add: urlsafe_b64encode_def map_idI)
qed

lemma b64_scan_char:
  "n < 64 \<Longrightarrow> b64_scan pos left pads (b64_char n # s) =
     (if pos = 0 then b64_scan 1 n 0 s
      else if pos = 1 then map_option ((#) (char_of (left * 4 + n div 16))) (b64_scan 2 (n mod 16) 0 s)
      else if pos = 2 then map_option ((#) (char_of (left * 16 + n div 4))) (b64_scan 3 (n mod 4) 0 s)
      else map_option ((#) (char_of (left * 64 + n))) (b64_scan 0 0 0 s))"
  by (simp add: b64_value_char b64_char_plain)

lemma b64_scan_pad: "b64_scan pos left pads (CHR ''='' # s) =
     (if 2 \<le> pos \<and> 4 \<le> pos + pads + 1 then Some [] else b64_scan pos left (if 2 \<le> pos then pads + 1 else pads) s)"
  by simp

lemma byte_back: "(char_of (code_point c div 4 * 4 + code_point c mod 4) :: char) = c"
    "(char_of (code_point c div 16 * 16 + code_point c mod 16) :: char) = c"
    "(char_of (code_point c div 64 * 64 + code_point c mod 64) :: char) = c"
  by (simp_all only: div_mult_mod_eq) simp_all

lemma nat_one_two: "(1::nat) \<noteq> 0" "(2::nat) \<noteq> 0" "(2::nat) \<noteq> 1" "(3::nat) \<noteq> 0" "(3::nat) \<noteq> 1" "(3::nat) \<noteq> 2"
  by simp_all

lemma b64_scan_encode: "b64_scan 0 0 0 (b64encode s) = Some s"
proof (induction s rule: b64encode.induct)
  case (2 a)
  show ?case
    unfolding b64encode.simps Let_def
    by (simp only: b64_scan_char sextets nat_one_two refl if_True if_False b64_scan_pad)
       (simp add: byte_back)
next
  case (3 a b)
  show ?case
    unfolding b64encode.simps Let_def
    by (simp only: b64_scan_char sextets sextet_parts nat_one_two refl if_True if_False b64_scan_pad)
       (simp add: byte_back)
next
  case (4 a b c s)
  have "b64_scan 0 0 0 (b64encode s) = Some s" using 4 by simp
  then show ?case
    unfolding b64encode.simps Let_def append.simps
    by (simp only: b64_scan_char sextets sextet_parts nat_one_two refl if_True if_False byte_back option.map)
qed simp

lemma py_words_Cons:
  "w \<noteq> [] \<Longrightarrow> list_all (\<lambda>c. \<not> py_isspace_char c) w \<Longrightarrow> py_words (w @ CHR '' '' # r) = w # py_words (CHR '' '' # r)"
proof -
  assume w: "w \<noteq> []" "list_all (\<lambda>c. \<not> py_isspace_char c) w"
  have sp: "py_isspace_char CHR '' ''" by code_simp
  have "dropWhile py_isspace_char (w @ CHR '' '' # r) = w @ CHR '' '' # r"
    using w by (cases w) auto
  moreover have "takeWhile (\<lambda>c. \<not> py_isspace_char c) (w @ CHR '' '' # r) = w"
      "dropWhile (\<lambda>c. \<not> py_isspace_char c) (w @ CHR '' '' # r) = CHR '' '' # r"
    using w(2) sp by (induction w) auto
  ultimately show ?thesis
    using w(1) by (subst py_words.simps) (simp add: Let_def)
qed

lemma py_words_one:
  "w \<noteq> [] \<Longrightarrow> list_all (\<lambda>c. \<not> py_isspace_char c) w \<Longrightarrow> py_words (CHR '' '' # w) = [w]"
proof -
  assume w: "w \<noteq> []" "list_all (\<lambda>c. \<not> py_isspace_char c) w"
  have sp: "py_isspace_char CHR '' ''" by code_simp
  have "dropWhile py_isspace_char (CHR '' '' # w) = w"
    using w sp by (cases w) auto
  moreover have t: "takeWhile (\<lambda>c. \<not> py_isspace_char c) w = w" and d: "dropWhile (\<lambda>c. \<not> py_isspace_char c) w = []"
    using w(2) by (auto simp: list_all_iff)
  moreover have "py_words [] = []"
    by (subst py_words.simps) simp
  ultimately show ?thesis
    using w(1) by (subst py_words.simps) (simp add: Let_def t d)
qed

lemma version_char_plain: "version_char c \<Longrightarrow> \<not> py_isspace_char c \<and> c \<noteq> CHR ''#''"
  by (auto simp: version_char_def py_isspace_char_def Let_def)

lemma url_char_plain: "c \<in> set (urlsafe_b64encode s) \<Longrightarrow> \<not> py_isspace_char c \<and> code_point c < 128"
proof -
  assume "c \<in> set (urlsafe_b64encode s)"
  then obtain d where d: "d \<in> set (b64encode s)" "c = std_to_url d"
    by (auto simp: urlsafe_b64encode_def)
  have "d = CHR ''='' \<or> b64_value d \<noteq> None"
    using b64encode_chars [OF d(1)] b64_value_char by auto
  then show ?thesis
    using d(2) by (auto simp: std_to_url_def py_isspace_char_def b64_value_def Let_def split: if_splits)
qed

lemma b64encode_length: "\<exists>m. length (b64encode s) = 4 * m"
proof (induction s rule: b64encode.induct)
  case (4 a b c s)
  then obtain m where "length (b64encode s) = 4 * m" by blast
  then show ?case by (intro exI [of _ "Suc m"]) (simp add: Let_def)
qed (auto simp: Let_def intro: exI [of _ 1])

lemma b64encode_nonempty: "s \<noteq> [] \<Longrightarrow> b64encode s \<noteq> []"
  by (induction s rule: b64encode.induct) (auto simp: Let_def)

lemma decode_key_encode:
  assumes "length key = DATA_KEY_BYTES"
  shows "decode_key (urlsafe_b64encode key) source number = Inr key"
proof -
  have "length (urlsafe_b64encode key) mod 4 = 0"
    using b64encode_length [of key] by (auto simp: urlsafe_b64encode_def)
  moreover have "\<not> list_ex (\<lambda>c. 128 \<le> code_point c) (urlsafe_b64encode key)"
    using url_char_plain by (fastforce simp: list_ex_iff)
  ultimately show ?thesis
    using assms by (simp add: decode_key_def Let_def url_roundtrip b64_scan_encode)
qed

lemma py_strip_plain_ends:
  assumes "s \<noteq> []" "\<not> py_isspace_char (hd s)" "\<not> py_isspace_char (last s)"
  shows "py_strip s = s"
proof -
  have "py_lstrip s = s"
    unfolding py_lstrip_def by (cases s) (use assms in auto)
  moreover have "py_lstrip (rev s) = rev s"
    unfolding py_lstrip_def by (cases "rev s") (use assms in \<open>auto simp: hd_rev [symmetric]\<close>)
  ultimately show ?thesis by (simp add: py_strip_def)
qed

text \<open>One generated line, on its own or on top of a file.\<close>

lemma generated_entry:
  assumes "version \<noteq> []" and "list_all version_char version" and "length key = DATA_KEY_BYTES"
  shows "\<not> ignored_line (new_master_key_line version key)"
    and "parse_key_line (py_strip (new_master_key_line version key)) source number = Inr (version, key)"
proof -
  let ?e = "urlsafe_b64encode key"
  have e: "?e \<noteq> []"
  proof -
    have "key \<noteq> []" using assms(3) by (auto simp: DATA_KEY_BYTES_def)
    then show ?thesis by (simp add: urlsafe_b64encode_def b64encode_nonempty)
  qed
  have plain: "list_all (\<lambda>c. \<not> py_isspace_char c) ?e" "list_all (\<lambda>c. \<not> py_isspace_char c) version"
    using url_char_plain assms(2) version_char_plain by (auto simp: list_all_iff)
  have hd: "hd (new_master_key_line version key) = hd version" and ne: "new_master_key_line version key \<noteq> []"
    and last: "last (new_master_key_line version key) = last ?e"
    using assms(1) e by (simp_all add: new_master_key_line_def)
  have h: "version_char (hd version)"
    using assms(1,2) by (cases version) auto
  have strip: "py_strip (new_master_key_line version key) = new_master_key_line version key"
    by (rule py_strip_plain_ends [OF ne]) (use hd last h e plain version_char_plain in \<open>auto simp: list_all_iff\<close>)
  have "take 1 (new_master_key_line version key) \<noteq> ''#''"
    using hd h version_char_plain ne by (cases "new_master_key_line version key") auto
  then show "\<not> ignored_line (new_master_key_line version key)"
    using ne strip by (simp add: ignored_line_def py_startswith_def)
  have "py_words (new_master_key_line version key) = [version, ?e]"
    unfolding new_master_key_line_def
    using py_words_Cons [OF assms(1) plain(2)] py_words_one [OF e plain(1)] by simp
  then show "parse_key_line (py_strip (new_master_key_line version key)) source number = Inr (version, key)"
    using strip assms(2) decode_key_encode [OF assms(3)] by (simp add: parse_key_line_def)
qed

lemma decode_key_source: "decode_key e s n = Inr k \<Longrightarrow> decode_key e s' n' = Inr k"
  by (auto simp: decode_key_def Let_def split: if_splits option.splits)

lemma parse_key_line_source: "parse_key_line e s n = Inr p \<Longrightarrow> parse_key_line e s' n' = Inr p"
  by (auto simp: parse_key_line_def bind_res_Inr_iff split: list.splits if_splits intro: decode_key_source)

lemma read_lines_shift:
  "read_lines s n ls ks = Inr zs \<Longrightarrow> fst ` set pre \<inter> fst ` set zs = {} \<Longrightarrow>
   read_lines s' n' ls (pre @ ks) = Inr (pre @ zs)"
proof (induction ls arbitrary: n n' ks)
  case (Cons l ls)
  show ?case
  proof (cases "ignored_line l")
    case True
    then show ?thesis using Cons by simp
  next
    case False
    then obtain v k where p: "parse_key_line (py_strip l) s n = Inr (v, k)" and new: "v \<notin> fst ` set ks"
      and rest: "read_lines s (Suc n) ls (ks @ [(v, k)]) = Inr zs"
      using Cons.prems(1) by (auto simp: bind_res_Inr_iff split: if_splits)
    have "set (ks @ [(v, k)]) \<subseteq> set zs"
    proof -
      have "read_lines s m ls' ks' = Inr zs \<Longrightarrow> set ks' \<subseteq> set zs" for m ls' ks'
        by (induction ls' arbitrary: m ks') (fastforce simp: bind_res_Inr_iff split: if_splits)+
      then show ?thesis using rest by blast
    qed
    then have "v \<notin> fst ` set pre"
      using Cons.prems(2) by force
    then show ?thesis
      using Cons.IH [OF rest Cons.prems(2), of "Suc n'"] False new parse_key_line_source [OF p, of s' n'] by (simp add: image_Un)
  qed
qed simp

lemma read_lines_versions:
  "read_lines s n ls ks = Inr zs \<Longrightarrow>
   map fst zs = map fst ks @ map (\<lambda>l. hd (py_words (py_strip l))) (filter (\<lambda>l. \<not> ignored_line l) ls)"
proof (induction ls arbitrary: n ks)
  case (Cons l ls)
  show ?case
  proof (cases "ignored_line l")
    case False
    then obtain v k where p: "parse_key_line (py_strip l) s n = Inr (v, k)"
      and rest: "read_lines s (Suc n) ls (ks @ [(v, k)]) = Inr zs"
      using Cons.prems(1) by (auto simp: bind_res_Inr_iff split: if_splits)
    have "hd (py_words (py_strip l)) = v"
      using p by (auto simp: parse_key_line_def bind_res_Inr_iff split: list.splits if_splits)
    then show ?thesis
      using Cons.IH [OF rest] False by simp
  qed (use Cons in simp)
qed simp

lemma hd_words: "py_words s \<noteq> [] \<Longrightarrow> hd (py_words s) = takeWhile (\<lambda>c. \<not> py_isspace_char c) (py_lstrip s)"
  by (subst (asm) py_words.simps, subst py_words.simps) (auto simp: Let_def py_lstrip_def split: if_splits)

lemma words_nonempty: "py_words s \<noteq> [] \<longleftrightarrow> py_lstrip s \<noteq> []"
  by (subst py_words.simps) (simp add: Let_def py_lstrip_def)

lemma takeWhile_rstrip:
  "takeWhile (\<lambda>c. \<not> py_isspace_char c) (rev (py_lstrip (rev t))) = takeWhile (\<lambda>c. \<not> py_isspace_char c) t"
proof -
  let ?w = "rev (takeWhile py_isspace_char (rev t))" and ?r = "rev (py_lstrip (rev t))"
  have t: "t = ?r @ ?w"
    unfolding py_lstrip_def by (metis rev_append rev_rev_ident takeWhile_dropWhile_id)
  have "takeWhile (\<lambda>c. \<not> py_isspace_char c) ?w = []"
    by (cases ?w) (auto dest!: arg_cong [where f = set] dest: set_takeWhileD)
  then have "takeWhile (\<lambda>c. \<not> py_isspace_char c) (?r @ ?w) = takeWhile (\<lambda>c. \<not> py_isspace_char c) ?r"
    unfolding takeWhile_append by (metis append_Nil2 takeWhile_eq_all_conv)
  then show ?thesis using t by simp
qed

lemma lstrip_strip: "py_lstrip (py_strip s) = py_strip s"
proof -
  have len: "length (py_lstrip u) \<le> length u" for u
    by (simp add: py_lstrip_def length_dropWhile_le)
  have "length (py_strip s) = length (py_lstrip (rev (py_lstrip (py_strip s))))"
    using py_strip_idem [of s] by (metis length_rev py_strip_def)
  also have "\<dots> \<le> length (py_lstrip (py_strip s))"
    using len [of "rev (py_lstrip (py_strip s))"] by simp
  finally have "length (takeWhile py_isspace_char (py_strip s)) = 0"
    by (metis add_le_same_cancel2 le_zero_eq length_append py_lstrip_def takeWhile_dropWhile_id)
  then show ?thesis
    by (metis append_Nil length_0_conv py_lstrip_def takeWhile_dropWhile_id)
qed

lemma hd_words_strip:
  assumes "\<not> ignored_line l"
  shows "hd (py_words (py_strip l)) = hd (py_words l)"
proof -
  have ne: "py_strip l \<noteq> []"
    using assms by (auto simp: ignored_line_def)
  then have "py_lstrip l \<noteq> []"
    by (metis dropWhile.simps(1) py_lstrip_def py_strip_def rev.simps(1))
  then show ?thesis
    using ne hd_words [of l] hd_words [of "py_strip l"] takeWhile_rstrip [of "py_lstrip l"]
    by (simp add: words_nonempty lstrip_strip py_strip_def [symmetric])
qed

section \<open>Rotation keeps what was readable\<close>

lemma from_lines_keys:
  "from_lines ls source = Inr kr \<longleftrightarrow>
     (\<exists>v k zs. read_lines source 1 ls [] = Inr ((v, k) # zs) \<and> kr = \<lparr>kr_active = v, kr_keys = (v, k) # zs\<rparr>)"
proof (cases "read_lines source 1 ls []")
  case (Inr zs)
  then show ?thesis
    by (cases zs) (auto simp: from_lines_def split: prod.splits)
qed (simp add: from_lines_def)

lemma generated_line_Inr:
  assumes "generated_line version key = Inr line"
  shows "line = new_master_key_line version key"
  using assms by (auto simp: generated_line_def Let_def bind_res_Inr_iff)

lemma rotate_keyring:
  assumes "rotate path version key current = Inr (Some new)" and "from_lines current path = Inr kr"
    and "version \<noteq> []" and "list_all version_char version" and "length key = DATA_KEY_BYTES"
  shows "from_lines new path = Inr \<lparr>kr_active = version, kr_keys = (version, key) # kr_keys kr\<rparr>"
    and "version \<notin> fst ` set (kr_keys kr)"
proof -
  let ?versions = "map (\<lambda>l. hd (py_words l)) (filter (\<lambda>l. \<not> ignored_line l) current)"
  have new: "new = new_master_key_line version key # current" and fresh: "version \<notin> set ?versions"
    using assms(1) generated_line_Inr by (auto simp: rotate_def bind_res_Inr_iff Let_def split: if_splits)
  obtain v k zs where read: "read_lines path 1 current [] = Inr ((v, k) # zs)"
    and kr: "kr = \<lparr>kr_active = v, kr_keys = (v, k) # zs\<rparr>"
    using assms(2) by (auto simp: from_lines_keys)
  have "map fst ((v, k) # zs) = map (\<lambda>l. hd (py_words (py_strip l))) (filter (\<lambda>l. \<not> ignored_line l) current)"
    using read_lines_versions [OF read] by simp
  also have "\<dots> = ?versions"
    using hd_words_strip by (intro map_cong) auto
  finally have "fst ` set ((v, k) # zs) = set ?versions"
    by (metis list.set_map)
  then show unused: "version \<notin> fst ` set (kr_keys kr)"
    using fresh kr by simp
  note entry = generated_entry [OF assms(3,4,5)]
  have "read_lines path 2 current ([(version, key)] @ []) = Inr ([(version, key)] @ (v, k) # zs)"
    by (rule read_lines_shift [OF read]) (use unused kr in auto)
  then have "read_lines path 1 new [] = Inr ((version, key) # (v, k) # zs)"
    using entry by (simp add: new numeral_2_eq_2)
  then show "from_lines new path = Inr \<lparr>kr_active = version, kr_keys = (version, key) # kr_keys kr\<rparr>"
    by (simp add: from_lines_keys kr)
qed

lemma unwrap_more_keys:
  assumes "unwrap c kr w v = Inr p" and "\<And>k. map_of (kr_keys kr) v = Some k \<Longrightarrow> map_of (kr_keys kr') v = Some k"
  shows "unwrap c kr' w v = Inr p"
  using assms by (auto simp: unwrap_def split: option.splits if_splits)

lemma reveal_more_keys:
  assumes "reveal c kr s = Inr p"
    and "\<And>k. map_of (kr_keys kr) (ps_master_key_version s) = Some k \<Longrightarrow> map_of (kr_keys kr') (ps_master_key_version s) = Some k"
  shows "reveal c kr' s = Inr p"
proof -
  obtain dk where dk: "unwrap c kr (ps_wrapped_data_key s) (ps_master_key_version s) = Inr dk"
    using assms(1) by (auto simp: reveal_def unreadable_def split: if_splits sum.splits unwrap_error.splits)
  have "unwrap c kr' (ps_wrapped_data_key s) (ps_master_key_version s) = Inr dk"
    by (rule unwrap_more_keys [OF dk assms(2)])
  then show ?thesis
    using assms(1) dk by (auto simp: reveal_def split: if_splits)
qed

section \<open>Wrapping\<close>

definition keyring_ok :: "keyring \<Rightarrow> bool" where
  "keyring_ok kr \<longleftrightarrow> map_of (kr_keys kr) (kr_active kr) \<noteq> None"

lemma from_lines_ok: "from_lines ls source = Inr kr \<Longrightarrow> keyring_ok kr"
  by (auto simp: from_lines_keys keyring_ok_def)

lemma unwrap_rewrap:
  assumes "opens c" and "keyring_ok kr" and "length nonce = NONCE_BYTES"
  shows "unwrap c kr (rewrap_key c kr nonce dk) (kr_active kr) = Inr dk"
  using assms by (auto simp: opens_def keyring_ok_def unwrap_def rewrap_key_def active_key_def)

lemma reveal_protect:
  assumes "opens c" and "keyring_ok kr" and "length key_nonce = NONCE_BYTES" and "length nonce = NONCE_BYTES"
  shows "reveal c kr (protect c kr key_bytes key_nonce nonce payload) = Inr payload"
  using assms unwrap_rewrap [OF assms(1,2,3), of key_bytes]
  by (simp add: reveal_def protect_def generate_data_key_def Let_def opens_def)

text \<open>A secret and its rewrapped form read the same, under the keyring and under the active key alone.\<close>

definition only_active :: "keyring \<Rightarrow> keyring" where
  "only_active kr = kr\<lparr>kr_keys := [(kr_active kr, active_key kr)]\<rparr>"

definition with_wrapped :: "protected_secret \<Rightarrow> pystr \<Rightarrow> pystr \<Rightarrow> protected_secret" where
  "with_wrapped s wrapped version = s\<lparr>ps_wrapped_data_key := wrapped, ps_master_key_version := version\<rparr>"

lemma rewrapped_reveal:
  assumes "opens c" and "keyring_ok kr" and "length nonce = NONCE_BYTES" and "reveal c kr s = Inr p"
    and "rewrapped c kr nonce (ps_wrapped_data_key s) (ps_master_key_version s) = Inr (wrapped, version)"
  shows "version = kr_active kr" and "reveal c kr (with_wrapped s wrapped version) = Inr p"
proof -
  obtain dk where dk: "unwrap c kr (ps_wrapped_data_key s) (ps_master_key_version s) = Inr dk"
    and w: "wrapped = rewrap_key c kr nonce dk" and v: "version = kr_active kr"
    using assms(5) by (auto simp: rewrapped_def bind_res_Inr_iff)
  show "version = kr_active kr" by (rule v)
  show "reveal c kr (with_wrapped s wrapped version) = Inr p"
    using assms(4) dk unwrap_rewrap [OF assms(1,2,3), of dk] by (auto simp: reveal_def with_wrapped_def w v split: if_splits)
qed

lemma reveal_only_active:
  "reveal c kr s = Inr p \<Longrightarrow> ps_master_key_version s = kr_active kr \<Longrightarrow> reveal c (only_active kr) s = Inr p"
  by (rule reveal_more_keys) (auto simp: only_active_def active_key_def)

lemma reveal_unwraps:
  "reveal c kr s = Inr p \<Longrightarrow> \<exists>w v. rewrapped c kr nonce (ps_wrapped_data_key s) (ps_master_key_version s) = Inr (w, v)"
  by (auto simp: reveal_def unreadable_def rewrapped_def split: if_splits sum.splits unwrap_error.splits)

text \<open>The payload each row of a table opens to.\<close>

definition readable :: "aead \<Rightarrow> keyring \<Rightarrow> secrets_table \<Rightarrow> bool" where
  "readable c kr table \<longleftrightarrow> list_all (\<lambda>(i, s). \<exists>p. reveal c kr s = Inr p) table"

definition payloads :: "aead \<Rightarrow> keyring \<Rightarrow> secrets_table \<Rightarrow> (uuid \<times> (reveal_error + pystr)) list" where
  "payloads c kr table = map (\<lambda>(i, s). (i, reveal c kr s)) table"

lemma update_wrapped_other: "rid \<notin> fst ` set table \<Longrightarrow> update_wrapped rid w v table = table"
  by (induction table) (auto simp: update_wrapped_def)

lemma rewrap_rows_run:
  assumes "opens c" and "keyring_ok kr"
  shows "sorted_wrt (\<noteq>) (map fst (seen @ todo)) \<Longrightarrow>
    fetched = rewrap_fetch kr todo \<Longrightarrow> length nonces = length fetched \<Longrightarrow> list_all (\<lambda>n. length n = NONCE_BYTES) nonces \<Longrightarrow>
    list_all (\<lambda>(i, s). ps_master_key_version s = kr_active kr) seen \<Longrightarrow> readable c kr todo \<Longrightarrow>
    \<exists>table. rewrap_rows c kr fetched nonces (seen @ todo) = (None, table)
      \<and> payloads c kr table = payloads c kr (seen @ todo)
      \<and> list_all (\<lambda>(i, s). ps_master_key_version s = kr_active kr) table"
proof (induction todo arbitrary: seen fetched nonces)
  case Nil
  then show ?case by (simp add: rewrap_fetch_def)
next
  case (Cons e todo)
  obtain i s where e: "e = (i, s)" by (cases e)
  show ?case
  proof (cases "ps_master_key_version s = kr_active kr")
    case True
    then show ?thesis
      using Cons.IH [of "seen @ [e]" fetched nonces] Cons.prems e by (auto simp: rewrap_fetch_def readable_def)
  next
    case False
    then obtain fetched' nonce nonces' where f: "fetched = (i, s) # fetched'" "fetched' = rewrap_fetch kr todo"
      and n: "nonces = nonce # nonces'" "length nonce = NONCE_BYTES" "list_all (\<lambda>n. length n = NONCE_BYTES) nonces'"
      using Cons.prems e by (cases nonces) (auto simp: rewrap_fetch_def)
    obtain p where p: "reveal c kr s = Inr p"
      using Cons.prems(6) e by (auto simp: readable_def)
    obtain w v where rw: "rewrapped c kr nonce (ps_wrapped_data_key s) (ps_master_key_version s) = Inr (w, v)"
      using reveal_unwraps [OF p] by blast
    note moved = rewrapped_reveal [OF assms n(2) p rw]
    have "i \<notin> fst ` set seen" "i \<notin> fst ` set todo"
      using Cons.prems(1) e by (auto simp: sorted_wrt_append)
    then have up: "update_wrapped i w v (seen @ e # todo) = (seen @ [(i, with_wrapped s w v)]) @ todo"
      using update_wrapped_other [of i seen w v] update_wrapped_other [of i todo w v] e
      by (simp add: update_wrapped_def with_wrapped_def)
    have ids: "map fst ((seen @ [(i, with_wrapped s w v)]) @ todo) = map fst (seen @ e # todo)"
      using e by simp
    have pay: "payloads c kr ((seen @ [(i, with_wrapped s w v)]) @ todo) = payloads c kr (seen @ e # todo)"
      using e p moved(2) by (simp add: payloads_def)
    have "\<exists>table. rewrap_rows c kr fetched' nonces' ((seen @ [(i, with_wrapped s w v)]) @ todo) = (None, table)
      \<and> payloads c kr table = payloads c kr ((seen @ [(i, with_wrapped s w v)]) @ todo)
      \<and> list_all (\<lambda>(i, s). ps_master_key_version s = kr_active kr) table"
    proof (rule Cons.IH)
      show "sorted_wrt (\<noteq>) (map fst ((seen @ [(i, with_wrapped s w v)]) @ todo))"
        using Cons.prems(1) by (simp only: ids)
      show "list_all (\<lambda>(i, s). ps_master_key_version s = kr_active kr) (seen @ [(i, with_wrapped s w v)])"
        using Cons.prems(5) moved(1) by (simp add: with_wrapped_def)
      show "readable c kr todo"
        using Cons.prems(6) by (simp add: readable_def)
      show "length nonces' = length fetched'"
        using Cons.prems(3) f n by simp
    qed (use f n in auto)
    then show ?thesis
      using f n rw up pay by simp
  qed
qed

section \<open>Properties\<close>

text \<open>A key line the tool writes is read back as that key: whatever 32 bytes were drawn, the line alone
  is a keyring whose active version is the line's and whose key is those bytes.\<close>

theorem key_line_roundtrip:
  assumes "version \<noteq> []" and "list_all version_char version" and "length key = DATA_KEY_BYTES"
  shows "from_lines [new_master_key_line version key] source = Inr \<lparr>kr_active = version, kr_keys = [(version, key)]\<rparr>"
  using generated_entry [OF assms] by (simp add: from_lines_keys)

text \<open>A secret opens to what was protected, under any keyring that holds its active key.\<close>

theorem protect_then_reveal:
  assumes "opens c" and "from_lines ls source = Inr kr"
    and "length key_nonce = NONCE_BYTES" and "length nonce = NONCE_BYTES"
  shows "reveal c kr (protect c kr key_bytes key_nonce nonce payload) = Inr payload"
  by (rule reveal_protect [OF assms(1) from_lines_ok [OF assms(2)] assms(3,4)])

text \<open>Rotating the key file makes the new version active and loses nothing: every secret the old
  keyring could open, the new one opens to the same payload.\<close>

theorem rotation_keeps_secrets:
  assumes "rotate path version key current = Inr (Some new)" and "from_lines current path = Inr kr"
    and "version \<noteq> []" and "list_all version_char version" and "length key = DATA_KEY_BYTES"
  shows "\<exists>kr'. from_lines new path = Inr kr' \<and> kr_active kr' = version \<and> active_key kr' = key
    \<and> (\<forall>s p. reveal c kr s = Inr p \<longrightarrow> reveal c kr' s = Inr p)"
proof -
  note new = rotate_keyring [OF assms]
  let ?kr = "\<lparr>kr_active = version, kr_keys = (version, key) # kr_keys kr\<rparr>"
  have "map_of (kr_keys kr) v = Some k \<Longrightarrow> map_of (kr_keys ?kr) v = Some k" for v k
    using new(2) by (cases "v = version") (force dest: map_of_SomeD)+
  then have "reveal c kr s = Inr p \<Longrightarrow> reveal c ?kr s = Inr p" for s p
    using reveal_more_keys [of c kr s p ?kr] by blast
  then show ?thesis
    using new(1) by (intro exI [of _ ?kr]) (simp add: active_key_def)
qed

text \<open>C30: after a complete re-wrap the superseded keys can be deleted. The run succeeds on a table whose
  secrets open, changes no payload, leaves no row for a second run, and every row then opens with
  the active key alone.\<close>

theorem rewrap_then_retire:
  assumes "opens c" and "from_lines ls source = Inr kr" and "readable c kr table"
    and "sorted_wrt (\<noteq>) (map fst table)" and "length nonces = length (rewrap_fetch kr table)"
    and "list_all (\<lambda>n. length n = NONCE_BYTES) nonces"
  shows "\<exists>table'. fst (rewrap_table c kr nonces table) = (None, table')
     \<and> payloads c (only_active kr) table' = payloads c kr table \<and> rewrap_fetch kr table' = []"
proof -
  obtain table' where run: "rewrap_rows c kr (rewrap_fetch kr table) nonces table = (None, table')"
    and pay: "payloads c kr table' = payloads c kr table"
    and act: "list_all (\<lambda>(i, s). ps_master_key_version s = kr_active kr) table'"
    using rewrap_rows_run [OF assms(1) from_lines_ok [OF assms(2)], of "[]" table "rewrap_fetch kr table" nonces]
      assms(3-6) by auto
  have "\<exists>p. reveal c kr s = Inr p" if m: "(i, s) \<in> set table'" for i s
  proof -
    have "(i, reveal c kr s) \<in> set (payloads c kr table)"
      using m pay [symmetric] by (force simp: payloads_def)
    then show ?thesis
      using assms(3) by (auto simp: payloads_def readable_def list_all_iff)
  qed
  then have "reveal c (only_active kr) s = reveal c kr s" if "(i, s) \<in> set table'" for i s
    using that act reveal_only_active by (fastforce simp: list_all_iff)
  then have "payloads c (only_active kr) table' = payloads c kr table'"
    by (auto simp: payloads_def)
  moreover have "rewrap_fetch kr table' = []"
    using act by (auto simp: rewrap_fetch_def list_all_iff filter_empty_conv)
  ultimately show ?thesis
    using run pay by (simp add: rewrap_table_def)
qed

text \<open>A cipher to run the model on: it prefixes the key and the nonce.\<close>

definition box :: aead where
  "box = \<lparr>encrypt = (\<lambda>k n p. CHR ''#'' # k @ n @ p),
          decrypt = (\<lambda>k n x. if take (Suc (length k + length n)) x = CHR ''#'' # k @ n
                              then Some (drop (Suc (length k + length n)) x) else None)\<rparr>"

lemma box_opens: "opens box"
  by (simp add: opens_def box_def)

definition twelve :: pystr where "twelve = ''nonce-nonce-''"
definition key_a :: pystr where "key_a = replicate 32 CHR ''a''"
definition key_b :: pystr where "key_b = replicate 32 CHR ''b''"
definition old_ring :: keyring where "old_ring = \<lparr>kr_active = ''v1'', kr_keys = [(''v1'', key_a)]\<rparr>"
definition old_file :: "pystr list" where "old_file = [new_master_key_line ''v1'' key_a]"

definition new_file :: "pystr list" where "new_file = new_master_key_line ''v2'' key_b # old_file"
definition new_ring :: keyring where "new_ring = \<lparr>kr_active = ''v2'', kr_keys = [(''v2'', key_b), (''v1'', key_a)]\<rparr>"
definition data_a :: pystr where "data_a = replicate 32 CHR ''x''"
definition data_b :: pystr where "data_b = replicate 32 CHR ''y''"

lemma files_read: "from_lines old_file ''keys'' = Inr old_ring" "from_lines new_file ''keys'' = Inr new_ring"
  by code_simp+

theorem key_line_roundtrip_witness:
  "from_lines [new_master_key_line ''2026-01'' key_b] ''keys'' = Inr \<lparr>kr_active = ''2026-01'', kr_keys = [(''2026-01'', key_b)]\<rparr>"
  by (rule key_line_roundtrip) (code_simp+)

theorem protect_then_reveal_witness:
  "reveal box old_ring (protect box old_ring data_a twelve twelve ''JBSWY3DP'') = Inr ''JBSWY3DP''"
  by (rule protect_then_reveal [OF box_opens files_read(1)]) (code_simp+)

theorem rotation_keeps_secrets_witness:
  "\<exists>new kr'. rotate ''keys'' ''v2'' key_b old_file = Inr (Some new) \<and> from_lines new ''keys'' = Inr kr'
     \<and> kr_active kr' = ''v2'' \<and> reveal box kr' (protect box old_ring data_a twelve twelve ''JBSWY3DP'') = Inr ''JBSWY3DP''"
proof -
  have rot: "rotate ''keys'' ''v2'' key_b old_file = Inr (Some new_file)"
    by code_simp
  have "reveal box old_ring (protect box old_ring data_a twelve twelve ''JBSWY3DP'') = Inr ''JBSWY3DP''"
    by code_simp
  moreover have "''v2'' \<noteq> []" "list_all version_char ''v2''" "length key_b = DATA_KEY_BYTES"
    by code_simp+
  ultimately show ?thesis
    using rotation_keeps_secrets [OF rot files_read(1), of box] rot by blast
qed

theorem rewrap_then_retire_witness:
  "\<exists>table'. fst (rewrap_table box new_ring [twelve] [(7, protect box old_ring data_a twelve twelve ''JBSWY3DP'')]) = (None, table')
     \<and> payloads box (only_active new_ring) table' = [(7, Inr ''JBSWY3DP'')]"
proof -
  let ?t = "[(7, protect box old_ring data_a twelve twelve ''JBSWY3DP'')] :: secrets_table"
  have pay: "payloads box new_ring ?t = [(7, Inr ''JBSWY3DP'')]"
    by code_simp
  have "readable box new_ring ?t"
    using pay by (simp add: readable_def payloads_def)
  moreover have "length [twelve] = length (rewrap_fetch new_ring ?t)" "list_all (\<lambda>n. length n = NONCE_BYTES) [twelve]"
    by code_simp+
  ultimately show ?thesis
    using rewrap_then_retire [OF box_opens files_read(2), of ?t "[twelve]"] pay by auto
qed

text \<open>
  The update of a re-wrap names the row by its id alone. When the user enrolls a new secret after
  the run fetched the row, the update puts the old data key beside the new ciphertext, and the
  new secret no longer opens.
\<close>

theorem rewrap_races_enrollment:
  "\<exists>table. rewrap_rows box new_ring (rewrap_fetch new_ring [(7, protect box old_ring data_a twelve twelve ''OLD'')]) [twelve]
       [(7, protect box new_ring data_b twelve twelve ''NEW'')] = (None, table)
     \<and> payloads box new_ring table = [(7, unreadable)]
     \<and> payloads box new_ring [(7, protect box new_ring data_b twelve twelve ''NEW'')] = [(7, Inr ''NEW'')]"
proof -
  let ?r = "rewrap_rows box new_ring (rewrap_fetch new_ring [(7, protect box old_ring data_a twelve twelve ''OLD'')]) [twelve]
       [(7, protect box new_ring data_b twelve twelve ''NEW'')]"
  have "fst ?r = None" "payloads box new_ring (snd ?r) = [(7, unreadable)]"
      "payloads box new_ring [(7, protect box new_ring data_b twelve twelve ''NEW'')] = [(7, Inr ''NEW'')]"
    by code_simp+
  then show ?thesis by (metis prod.collapse)
qed

end
