(* ===== verification/Ephemeral.thy ===== *)
theory Ephemeral
  imports Prelude "HOL-Library.AList"
begin

text \<open>
  The portal's store of values that expire on their own (\<open>portal/ephemeral.py\<close>) and the rate
  limits kept in it (\<open>portal/application/throttle.py\<close>). The table \<open>portal_ephemeral\<close> is an
  association list over its primary key. Every method is one SQL statement, so it is one atomic
  step; the clock \<open>now\<close> is an argument. A value is a text. A value that is the JSON text of a
  session or of a passkey challenge is kept as the object it encodes: reading it as a number
  fails, as the cast of its text does.
\<close>

section \<open>The store\<close>

record session_record =
  rec_user :: uuid
  rec_csrf :: pystr
  rec_created :: seconds
  rec_mfa :: "seconds option"

datatype stored = Text pystr | SessionDoc session_record | ChallengeDoc "uuid option" pystr

record ephemeral_row =
  row_value :: stored
  row_expires :: seconds

type_synonym ephemeral = "(pystr \<times> ephemeral_row) list"

datatype store_error = INVALID_TEXT_REPRESENTATION | NUMERIC_OUT_OF_RANGE | VALUE_ERROR

definition live_row :: "seconds \<Rightarrow> pystr \<Rightarrow> ephemeral \<Rightarrow> ephemeral_row option" where
  "live_row now key s =
     (case map_of s key of
        Some r \<Rightarrow> if now < row_expires r then Some r else None
      | None \<Rightarrow> None)"

definition put_new :: "seconds \<Rightarrow> pystr \<Rightarrow> stored \<Rightarrow> seconds \<Rightarrow> ephemeral \<Rightarrow> bool \<times> ephemeral" where
  "put_new now key v ttl s =
     (case live_row now key s of
        Some _ \<Rightarrow> (False, s)
      | None \<Rightarrow> (True, AList.update key \<lparr>row_value = v, row_expires = now + ttl\<rparr> s))"

definition replace :: "seconds \<Rightarrow> pystr \<Rightarrow> stored \<Rightarrow> seconds \<Rightarrow> ephemeral \<Rightarrow> bool \<times> ephemeral" where
  "replace now key v ttl s =
     (case live_row now key s of
        Some _ \<Rightarrow> (True, AList.update key \<lparr>row_value = v, row_expires = now + ttl\<rparr> s)
      | None \<Rightarrow> (False, s))"

definition read :: "seconds \<Rightarrow> pystr \<Rightarrow> ephemeral \<Rightarrow> stored option" where
  "read now key s = map_option row_value (live_row now key s)"

definition take_key :: "seconds \<Rightarrow> pystr \<Rightarrow> ephemeral \<Rightarrow> stored option \<times> ephemeral" where
  "take_key now key s =
     (case live_row now key s of
        Some r \<Rightarrow> (Some (row_value r), AList.delete key s)
      | None \<Rightarrow> (None, s))"

text \<open>The cast \<open>value::bigint\<close> raises on a text that is no number or does not fit 64 bits.\<close>

definition bigint :: "int \<Rightarrow> store_error + int" where
  "bigint i = (if - (2 ^ 63) \<le> i \<and> i < 2 ^ 63 then Inr i else Inl NUMERIC_OUT_OF_RANGE)"

definition as_bigint :: "stored \<Rightarrow> store_error + int" where
  "as_bigint v =
     (case v of
        Text t \<Rightarrow> (case py_int t of Some i \<Rightarrow> bigint i | None \<Rightarrow> Inl INVALID_TEXT_REPRESENTATION)
      | _ \<Rightarrow> Inl INVALID_TEXT_REPRESENTATION)"

definition increment :: "seconds \<Rightarrow> pystr \<Rightarrow> seconds \<Rightarrow> ephemeral \<Rightarrow> (store_error + int) \<times> ephemeral" where
  "increment now key ttl s =
     (case live_row now key s of
        None \<Rightarrow>
          (Inr 1, AList.update key \<lparr>row_value = Text ''1'', row_expires = now + ttl\<rparr> s)
      | Some r \<Rightarrow>
          (case bind_res (as_bigint (row_value r)) (\<lambda>n. bigint (n + 1)) of
             Inl e \<Rightarrow> (Inl e, s)
           | Inr n \<Rightarrow> (Inr n, AList.update key (r\<lparr>row_value := Text (int_str n)\<rparr>) s)))"

definition discard :: "pystr \<Rightarrow> ephemeral \<Rightarrow> ephemeral" where
  "discard key s = AList.delete key s"

definition sweep :: "seconds \<Rightarrow> ephemeral \<Rightarrow> nat \<times> ephemeral" where
  "sweep now s =
     (length (filter (\<lambda>e. row_expires (snd e) \<le> now) s),
      filter (\<lambda>e. \<not> row_expires (snd e) \<le> now) s)"

section \<open>Reading after writing\<close>

named_theorems store_simps

definition keys_unique :: "ephemeral \<Rightarrow> bool" where
  "keys_unique s \<longleftrightarrow> distinct (map fst s)"

lemma lookup_update [store_simps]: "map_of (AList.update k r s) k' = (if k' = k then Some r else map_of s k')"
  by (simp add: update_conv')

lemma lookup_delete [store_simps]: "map_of (AList.delete k s) k' = (if k' = k then None else map_of s k')"
  by (simp add: delete_conv')

lemma lookup_filter:
  "distinct (map fst s) \<Longrightarrow>
   map_of (filter (\<lambda>e. P (snd e)) s) k = (case map_of s k of Some r \<Rightarrow> if P r then Some r else None | None \<Rightarrow> None)"
proof (induction s)
  case (Cons e s)
  have "fst e = k \<Longrightarrow> map_of s k = None"
    using Cons.prems by (auto simp: map_of_eq_None_iff)
  then show ?case
    using Cons by (cases e) (auto split: option.splits)
qed simp

lemma live_sweep [store_simps]:
  assumes "keys_unique s" and "now \<le> now'"
  shows "live_row now' k (snd (sweep now s)) = live_row now' k s"
  using assms lookup_filter [of s "\<lambda>r. \<not> row_expires r \<le> now" k]
  by (auto simp: keys_unique_def sweep_def live_row_def split: option.splits)

lemma live_update [store_simps]:
  "live_row now k' (AList.update k r s) =
     (if k' = k then if now < row_expires r then Some r else None else live_row now k' s)"
  by (simp add: live_row_def lookup_update)

lemma live_delete [store_simps]:
  "live_row now k' (AList.delete k s) = (if k' = k then None else live_row now k' s)"
  by (simp add: live_row_def lookup_delete)

lemma live_mono: "live_row now k s = None \<Longrightarrow> now \<le> now' \<Longrightarrow> live_row now' k s = None"
  by (auto simp: live_row_def split: option.splits if_splits)

lemma live_later: "live_row now' k s = Some r \<Longrightarrow> now \<le> now' \<Longrightarrow> live_row now k s = Some r"
  by (auto simp: live_row_def split: option.splits if_splits)

lemma live_expires: "live_row now k s = Some r \<Longrightarrow> now < row_expires r"
  by (auto simp: live_row_def split: option.splits if_splits)

lemma unique_update [simp]: "keys_unique s \<Longrightarrow> keys_unique (AList.update k r s)"
  by (simp add: keys_unique_def distinct_update)

lemma unique_delete [simp]: "keys_unique s \<Longrightarrow> keys_unique (AList.delete k s)"
  by (simp add: keys_unique_def distinct_delete)

lemma unique_sweep [simp]: "keys_unique s \<Longrightarrow> keys_unique (snd (sweep now s))"
  by (simp add: keys_unique_def sweep_def distinct_map_filter)

section \<open>Interleavings of statements\<close>

text \<open>
  Requests share the store, so what they see is some order of single statements. \<open>run_ops\<close>
  runs one such order and keeps the reply of each statement.
\<close>

datatype store_op =
    PutNew pystr stored seconds
  | Replace pystr stored seconds
  | Read pystr
  | Take pystr
  | Increment pystr seconds
  | Discard pystr
  | Sweep

datatype reply =
    Accepted bool
  | Value "stored option"
  | Counted "store_error + int"
  | Swept nat
  | Discarded

fun step_op :: "seconds \<Rightarrow> store_op \<Rightarrow> ephemeral \<Rightarrow> reply \<times> ephemeral" where
  "step_op now (PutNew k v ttl) s = (case put_new now k v ttl s of (b, s') \<Rightarrow> (Accepted b, s'))"
| "step_op now (Replace k v ttl) s = (case replace now k v ttl s of (b, s') \<Rightarrow> (Accepted b, s'))"
| "step_op now (Read k) s = (Value (read now k s), s)"
| "step_op now (Take k) s = (case take_key now k s of (v, s') \<Rightarrow> (Value v, s'))"
| "step_op now (Increment k ttl) s = (case increment now k ttl s of (n, s') \<Rightarrow> (Counted n, s'))"
| "step_op now (Discard k) s = (Discarded, discard k s)"
| "step_op now Sweep s = (case sweep now s of (n, s') \<Rightarrow> (Swept n, s'))"

fun run_ops :: "(seconds \<times> store_op) list \<Rightarrow> ephemeral \<Rightarrow> reply list \<times> ephemeral" where
  "run_ops [] s = ([], s)"
| "run_ops ((now, c) # cs) s =
     (case step_op now c s of (r, s') \<Rightarrow> (case run_ops cs s' of (rs, s'') \<Rightarrow> (r # rs, s'')))"

lemmas op_defs = put_new_def replace_def read_def take_key_def increment_def discard_def sweep_def

text \<open>The redemptions of a key, and the statements that may have created its row.\<close>

definition redeems :: "pystr \<Rightarrow> store_op \<times> reply \<Rightarrow> bool" where
  "redeems k e = (case e of (Take k', Value (Some _)) \<Rightarrow> k' = k | _ \<Rightarrow> False)"

definition creates :: "pystr \<Rightarrow> store_op \<times> reply \<Rightarrow> bool" where
  "creates k e =
     (case e of
        (PutNew k' _ _, Accepted True) \<Rightarrow> k' = k
      | (Increment k' _, Counted (Inr n)) \<Rightarrow> k' = k
      | _ \<Rightarrow> False)"

definition held :: "pystr \<Rightarrow> ephemeral \<Rightarrow> nat" where
  "held k s = (if map_of s k = None then 0 else 1)"

lemma lookup_filter_held: "map_of (filter P s) k = Some r \<Longrightarrow> \<exists>r'. map_of s k = Some r'"
  by (metis filter_is_subset map_of_SomeD map_of_eq_None_iff not_Some_eq subsetD fst_conv image_eqI)

lemma ledger_step:
  "step_op now c s = (r, s') \<Longrightarrow>
   (if redeems k (c, r) then 1 else 0) + held k s' \<le> (if creates k (c, r) then 1 else 0) + held k s"
  by (cases c)
     (auto simp: op_defs redeems_def creates_def held_def lookup_update lookup_delete live_row_def
           dest: lookup_filter_held
           split: option.splits if_splits sum.splits)

lemma ledger_run:
  "run_ops cs s = (rs, s') \<Longrightarrow>
   length (filter (redeems k) (zip (map snd cs) rs)) + held k s'
     \<le> length (filter (creates k) (zip (map snd cs) rs)) + held k s"
proof (induction cs arbitrary: s rs)
  case (Cons e cs)
  obtain now c where e: "e = (now, c)" by (cases e)
  obtain r s1 where st: "step_op now c s = (r, s1)" by (cases "step_op now c s")
  obtain rs1 where rs: "run_ops cs s1 = (rs1, s')" "rs = r # rs1"
    using Cons.prems st e by (cases "run_ops cs s1") auto
  show ?case
    using Cons.IH [OF rs(1)] ledger_step [OF st, of k] rs(2) e by (auto split: if_splits)
qed simp

section \<open>What the keys hold\<close>

text \<open>
  A key starts with its kind and a colon. The kind says which values the key may hold: a
  session its record, a passkey login its challenge, a counter a positive number, and every
  other purpose a text its caller chose.
\<close>

definition key_kind :: "pystr \<Rightarrow> pystr" where
  "key_kind key = takeWhile (\<lambda>c. c \<noteq> CHR '':'') key"

definition counter_kinds :: "pystr list" where
  "counter_kinds = [''login_fail'', ''mutate'']"

definition is_count :: "nat \<Rightarrow> stored \<Rightarrow> bool" where
  "is_count bound v =
     (case v of
        Text t \<Rightarrow> (case py_int t of Some i \<Rightarrow> 1 \<le> i \<and> i \<le> int bound | None \<Rightarrow> False)
      | _ \<Rightarrow> False)"

definition fits :: "nat \<Rightarrow> pystr \<Rightarrow> stored \<Rightarrow> bool" where
  "fits bound key v =
     (if key_kind key \<in> set counter_kinds then is_count bound v
      else if key_kind key = ''session'' then (case v of SessionDoc _ \<Rightarrow> True | _ \<Rightarrow> False)
      else if key_kind key = ''passkey_login'' then (case v of ChallengeDoc _ _ \<Rightarrow> True | _ \<Rightarrow> False)
      else (case v of Text _ \<Rightarrow> True | _ \<Rightarrow> False))"

definition store_typed :: "nat \<Rightarrow> ephemeral \<Rightarrow> bool" where
  "store_typed bound s \<longleftrightarrow> list_all (\<lambda>(k, r). fits bound k (row_value r)) s"

text \<open>The statements the program sends: counters are only counted, read and discarded.\<close>

definition op_typed :: "store_op \<Rightarrow> bool" where
  "op_typed c =
     (case c of
        PutNew k v _ \<Rightarrow> key_kind k \<notin> set counter_kinds \<and> fits 0 k v
      | Replace k v _ \<Rightarrow> key_kind k \<notin> set counter_kinds \<and> fits 0 k v
      | Increment k _ \<Rightarrow> key_kind k \<in> set counter_kinds
      | _ \<Rightarrow> True)"

definition raises_reply :: "reply \<Rightarrow> bool" where
  "raises_reply r = (case r of Counted (Inl _) \<Rightarrow> True | _ \<Rightarrow> False)"

lemma fits_mono: "fits b k v \<Longrightarrow> b \<le> b' \<Longrightarrow> fits b' k v"
  by (auto simp: fits_def is_count_def split: stored.splits option.splits if_splits)

lemma typed_mono: "store_typed b s \<Longrightarrow> b \<le> b' \<Longrightarrow> store_typed b' s"
  by (auto simp: store_typed_def list_all_iff intro: fits_mono)

lemma typed_live: "store_typed b s \<Longrightarrow> live_row now k s = Some r \<Longrightarrow> fits b k (row_value r)"
  by (auto simp: store_typed_def list_all_iff live_row_def dest!: map_of_SomeD split: option.splits if_splits)

lemma typed_update: "store_typed b s \<Longrightarrow> fits b k (row_value r) \<Longrightarrow> store_typed b (AList.update k r s)"
  by (induction s) (auto simp: store_typed_def)

lemma typed_subset: "store_typed b s \<Longrightarrow> set s' \<subseteq> set s \<Longrightarrow> store_typed b s'"
  by (auto simp: store_typed_def list_all_iff)

lemma delete_subset: "set (AList.delete k s) \<subseteq> set s"
  by (auto simp: AList.delete_eq)

lemma count_bigint:
  assumes "is_count b v" and "b < 2 ^ 63 - 1"
  shows "\<exists>n. as_bigint v = Inr n \<and> bigint (n + 1) = Inr (n + 1) \<and> is_count (Suc b) (Text (int_str (n + 1)))"
proof -
  obtain t i where v: "v = Text t" "py_int t = Some i" "1 \<le> i" "i \<le> int b"
    using assms(1) by (auto simp: is_count_def split: stored.splits option.splits)
  have "i < 2 ^ 63 - 1"
    using v(4) assms(2) by simp
  moreover have "py_int (int_str (i + 1)) = Some (i + 1)"
    using v(3) by (simp add: int_str_def text_simps)
  ultimately show ?thesis
    using v by (auto simp: as_bigint_def bigint_def is_count_def)
qed

lemma typed_step:
  assumes "store_typed b s" and "op_typed c" and "b < 2 ^ 63 - 1" and "step_op now c s = (r, s')"
  shows "store_typed (Suc b) s' \<and> \<not> raises_reply r"
proof (cases c)
  case (Increment k ttl)
  have kind: "key_kind k \<in> set counter_kinds"
    using assms(2) Increment by (simp add: op_typed_def)
  have fit: "is_count m v = fits m k v" for m v
    using kind by (simp add: fits_def)
  have mono: "store_typed (Suc b) s"
    by (rule typed_mono [OF assms(1)]) simp
  show ?thesis
  proof (cases "live_row now k s")
    case None
    have "py_int ''1'' = Some 1"
      by code_simp
    then have "is_count (Suc b) (Text ''1'')"
      by (simp add: is_count_def)
    then show ?thesis
      using assms(4) Increment None mono
      by (auto simp: increment_def fit raises_reply_def intro!: typed_update)
  next
    case (Some row)
    have "is_count b (row_value row)"
      using typed_live [OF assms(1) Some] by (simp add: fit)
    then show ?thesis
      using count_bigint [of b "row_value row"] assms(3,4) Increment Some mono
      by (auto simp: increment_def fit raises_reply_def intro!: typed_update)
  qed
next
  case (PutNew k v ttl)
  then show ?thesis
    using assms typed_mono [OF assms(1), of "Suc b"] fits_mono [of 0 k v "Suc b"]
    by (auto simp: put_new_def op_typed_def raises_reply_def intro!: typed_update split: option.splits)
next
  case (Replace k v ttl)
  then show ?thesis
    using assms typed_mono [OF assms(1), of "Suc b"] fits_mono [of 0 k v "Suc b"]
    by (auto simp: replace_def op_typed_def raises_reply_def intro!: typed_update split: option.splits)
next
  case (Take k)
  then show ?thesis
    using assms typed_mono [OF assms(1), of "Suc b"] delete_subset [of k s]
    by (auto simp: take_key_def raises_reply_def intro: typed_subset split: option.splits)
next
  case (Discard k)
  then show ?thesis
    using assms typed_mono [OF assms(1), of "Suc b"]
    by (auto simp: discard_def raises_reply_def intro: typed_subset [OF _ delete_subset])
next
  case Sweep
  then show ?thesis
    using assms typed_mono [OF assms(1), of "Suc b"]
    by (auto simp: sweep_def raises_reply_def intro: typed_subset)
next
  case (Read k)
  then show ?thesis
    using assms typed_mono [OF assms(1), of "Suc b"] by (auto simp: raises_reply_def)
qed

lemma typed_run:
  "store_typed b s \<Longrightarrow> list_all op_typed (map snd cs) \<Longrightarrow> b + length cs < 2 ^ 63 \<Longrightarrow> run_ops cs s = (rs, s') \<Longrightarrow>
   store_typed (b + length cs) s' \<and> list_all (\<lambda>r. \<not> raises_reply r) rs"
proof (induction cs arbitrary: b s rs)
  case (Cons e cs)
  obtain now c where e: "e = (now, c)" by (cases e)
  obtain r s1 where st: "step_op now c s = (r, s1)" by (cases "step_op now c s")
  obtain rs1 where rs: "run_ops cs s1 = (rs1, s')" "rs = r # rs1"
    using Cons.prems(4) st e by (cases "run_ops cs s1") auto
  have one: "store_typed (Suc b) s1 \<and> \<not> raises_reply r"
    using typed_step [OF Cons.prems(1) _ _ st] Cons.prems(2,3) e by simp
  show ?case
    using Cons.IH [OF conjunct1 [OF one] _ _ rs(1)] one Cons.prems(2,3) rs(2) by simp
qed simp

section \<open>Rate limits\<close>

definition normalize_email :: "pystr \<Rightarrow> pystr" where
  "normalize_email email = py_strip (py_lower email)"

definition LOGIN_WINDOW :: seconds where "LOGIN_WINDOW = 300"
definition LOGIN_ATTEMPT_LIMIT :: int where "LOGIN_ATTEMPT_LIMIT = 5"
definition MUTATION_WINDOW :: seconds where "MUTATION_WINDOW = 60"
definition MUTATION_LIMIT :: int where "MUTATION_LIMIT = 30"

definition account_key :: "pystr \<Rightarrow> pystr" where
  "account_key email = ''login_fail:account:'' @ normalize_email email"

definition source_key :: "pystr \<Rightarrow> pystr" where
  "source_key source = ''login_fail:source:'' @ source"

definition login_keys :: "pystr \<Rightarrow> pystr \<Rightarrow> pystr list" where
  "login_keys email source = [account_key email, source_key source]"

text \<open>\<open>int(counted) >= LOGIN_ATTEMPT_LIMIT\<close> for a value read from the store.\<close>

definition over_limit :: "stored \<Rightarrow> store_error + bool" where
  "over_limit v =
     (case v of
        Text t \<Rightarrow> (case py_int t of Some i \<Rightarrow> Inr (LOGIN_ATTEMPT_LIMIT \<le> i) | None \<Rightarrow> Inl VALUE_ERROR)
      | _ \<Rightarrow> Inl VALUE_ERROR)"

fun allows_keys :: "seconds \<Rightarrow> pystr list \<Rightarrow> ephemeral \<Rightarrow> store_error + bool" where
  "allows_keys now [] s = Inr True"
| "allows_keys now (k # ks) s =
     (case read now k s of
        None \<Rightarrow> allows_keys now ks s
      | Some v \<Rightarrow> bind_res (over_limit v) (\<lambda>over. if over then Inr False else allows_keys now ks s))"

definition allows :: "seconds \<Rightarrow> pystr \<Rightarrow> pystr \<Rightarrow> ephemeral \<Rightarrow> store_error + bool" where
  "allows now email source s = allows_keys now (login_keys email source) s"

text \<open>A failed increment raises and leaves the keys after it alone.\<close>

fun count_keys :: "seconds \<Rightarrow> pystr list \<Rightarrow> ephemeral \<Rightarrow> store_error option \<times> ephemeral" where
  "count_keys now [] s = (None, s)"
| "count_keys now (k # ks) s =
     (case increment now k LOGIN_WINDOW s of
        (Inl e, s') \<Rightarrow> (Some e, s')
      | (Inr _, s') \<Rightarrow> count_keys now ks s')"

definition record_failure :: "seconds \<Rightarrow> pystr \<Rightarrow> pystr \<Rightarrow> ephemeral \<Rightarrow> store_error option \<times> ephemeral" where
  "record_failure now email source s = count_keys now (login_keys email source) s"

definition clear_failures :: "pystr \<Rightarrow> pystr \<Rightarrow> ephemeral \<Rightarrow> ephemeral" where
  "clear_failures email source s = foldl (\<lambda>s k. discard k s) s (login_keys email source)"

definition admit :: "seconds \<Rightarrow> uuid \<Rightarrow> pystr \<Rightarrow> ephemeral \<Rightarrow> (store_error + bool) \<times> ephemeral" where
  "admit now actor_id route_class s =
     (case increment now (''mutate:'' @ nat_str actor_id @ '':'' @ route_class) MUTATION_WINDOW s of
        (used, s') \<Rightarrow> (bind_res used (\<lambda>n. Inr (n \<le> MUTATION_LIMIT)), s'))"

section \<open>The limits hold\<close>

definition counting :: "pystr \<Rightarrow> nat \<Rightarrow> seconds \<Rightarrow> ephemeral \<Rightarrow> bool" where
  "counting k n e s \<longleftrightarrow> map_of s k = Some \<lparr>row_value = Text (nat_str n), row_expires = e\<rparr>"

lemma keys_differ [simp]: "account_key email \<noteq> source_key source" "source_key source \<noteq> account_key email"
  by (simp_all add: account_key_def source_key_def)

lemma nat_str_1 [simp]: "nat_str 1 = ''1''" "nat_str (Suc 0) = ''1''"
  by code_simp+

lemma int_str_Suc: "int_str (int n + 1) = nat_str (Suc n)" "int_str (1 + int n) = nat_str (Suc n)"
  by (simp_all add: int_str_def nat_add_distrib)

lemma increment_other: "increment now k ttl s = (r, s') \<Longrightarrow> k' \<noteq> k \<Longrightarrow> map_of s' k' = map_of s k'"
  by (auto simp: increment_def lookup_update split: option.splits sum.splits)

lemma increment_first:
  "live_row now k s = None \<Longrightarrow>
   increment now k ttl s = (r, s') \<Longrightarrow> r = Inr 1 \<and> counting k 1 (now + ttl) s'"
  by (auto simp: increment_def counting_def lookup_update)

lemma increment_next:
  assumes "counting k n e s" and "now < e" and "n < 2 ^ 63 - 1" and "increment now k ttl s = (r, s')"
  shows "r = Inr (int (Suc n)) \<and> counting k (Suc n) e s'"
proof -
  have live: "live_row now k s = Some \<lparr>row_value = Text (nat_str n), row_expires = e\<rparr>"
    using assms(1,2) by (simp add: counting_def live_row_def)
  have "int n < 2 ^ 63 - 1"
    using assms(3) by simp
  then have "bigint (int n) = Inr (int n)" "bigint (int n + 1) = Inr (int n + 1)"
    by (simp_all add: bigint_def)
  then show ?thesis
    using assms(4) live
    by (auto simp: increment_def as_bigint_def text_simps counting_def lookup_update int_str_Suc algebra_simps)
qed

text \<open>
  Guesses at the login form, in the order the server handles them: an attempt the throttle
  lets through fails and is recorded. The result counts the attempts on one account that
  reached the password.
\<close>

fun guess :: "pystr \<Rightarrow> (seconds \<times> pystr \<times> pystr) list \<Rightarrow> ephemeral \<Rightarrow> nat \<times> ephemeral" where
  "guess target [] s = (0, s)"
| "guess target ((now, email, source) # gs) s =
     (if allows now email source s = Inr True
      then (case record_failure now email source s of
              (_, s') \<Rightarrow> (case guess target gs s' of
                 (n, s'') \<Rightarrow> ((if normalize_email email = normalize_email target then Suc n else n), s'')))
      else guess target gs s)"

lemma record_failure_other:
  assumes "record_failure now email source s = (r, s')" and "k \<notin> set (login_keys email source)"
  shows "map_of s' k = map_of s k"
  using assms
  by (auto simp: record_failure_def login_keys_def split: prod.splits sum.splits) (metis increment_other)+

lemma record_failure_account:
  assumes "record_failure now email source s = (r, s')"
  obtains a s1 where "increment now (account_key email) LOGIN_WINDOW s = (a, s1)"
    and "map_of s' (account_key email) = map_of s1 (account_key email)"
proof -
  obtain a s1 where inc: "increment now (account_key email) LOGIN_WINDOW s = (a, s1)"
    by (cases "increment now (account_key email) LOGIN_WINDOW s")
  have "map_of s' (account_key email) = map_of s1 (account_key email)"
    using assms inc increment_other [of now "source_key source" LOGIN_WINDOW s1]
    by (auto simp: record_failure_def login_keys_def split: prod.splits sum.splits)
  then show ?thesis
    using that inc by blast
qed

lemma account_keys_same:
  "account_key email = account_key target \<longleftrightarrow> normalize_email email = normalize_email target"
  by (simp add: account_key_def)

lemma allows_below:
  assumes "counting (account_key email) n e s" and "now < e" and "allows now email source s = Inr True"
  shows "n < 5"
  using assms
  by (auto simp: allows_def login_keys_def counting_def read_def live_row_def over_limit_def
      LOGIN_ATTEMPT_LIMIT_def text_simps split: if_splits)

lemma record_failure_counts:
  assumes "record_failure now email source s = (r, s')" and "counting (account_key email) n e s"
    and "now < e" and "n < 5"
  shows "counting (account_key email) (Suc n) e s'"
proof -
  obtain a s1 where inc: "increment now (account_key email) LOGIN_WINDOW s = (a, s1)"
    and same: "map_of s' (account_key email) = map_of s1 (account_key email)"
    using record_failure_account [OF assms(1)] .
  show ?thesis
    using increment_next [OF assms(2,3) _ inc] assms(4) same by (simp add: counting_def)
qed

lemma record_failure_starts:
  assumes "record_failure now email source s = (r, s')" and "live_row now (account_key email) s = None"
  shows "counting (account_key email) 1 (now + LOGIN_WINDOW) s'"
proof -
  obtain a s1 where inc: "increment now (account_key email) LOGIN_WINDOW s = (a, s1)"
    and same: "map_of s' (account_key email) = map_of s1 (account_key email)"
    using record_failure_account [OF assms(1)] .
  show ?thesis
    using increment_first [OF assms(2) inc] same by (simp add: counting_def)
qed

lemma target_untouched:
  assumes "record_failure now email source s = (r, s')" and "normalize_email email \<noteq> normalize_email target"
  shows "map_of s' (account_key target) = map_of s (account_key target)"
  using record_failure_other [OF assms(1), of "account_key target"] assms(2)
  by (auto simp: login_keys_def account_keys_same)

lemma guess_in_window:
  "counting (account_key target) n e s \<Longrightarrow> n \<le> 5 \<Longrightarrow> \<forall>(t, g)\<in>set gs. t < e \<Longrightarrow>
   fst (guess target gs s) + n \<le> 5"
proof (induction gs arbitrary: n s)
  case (Cons g gs)
  obtain now email source where g: "g = (now, email, source)" by (rule prod_cases3)
  obtain r s' where rf: "record_failure now email source s = (r, s')"
    by (cases "record_failure now email source s")
  have now: "now < e" using Cons.prems(3) g by auto
  have rest: "\<forall>(t, g)\<in>set gs. t < e" using Cons.prems(3) by auto
  show ?case
  proof (cases "allows now email source s = Inr True")
    case allowed: True
    show ?thesis
    proof (cases "normalize_email email = normalize_email target")
      case True
      then have key: "account_key email = account_key target" by (simp add: account_keys_same)
      have "n < 5"
        using allows_below [of email n e s now source] Cons.prems(1) now allowed key by simp
      moreover have "counting (account_key target) (Suc n) e s'"
        using record_failure_counts [OF rf, of n e] Cons.prems(1) now \<open>n < 5\<close> key by simp
      ultimately show ?thesis
        using Cons.IH [of "Suc n" s'] rest allowed rf g True by (auto split: prod.splits)
    next
      case False
      have "counting (account_key target) n e s'"
        using target_untouched [OF rf False] Cons.prems(1) by (simp add: counting_def)
      then show ?thesis
        using Cons.IH [of n s'] Cons.prems(2) rest allowed rf g False by (auto split: prod.splits)
    qed
  next
    case False
    then show ?thesis
      using Cons.IH [of n s] Cons.prems rest g by simp
  qed
qed simp

lemma guess_fresh:
  "live_row t0 (account_key target) s = None \<Longrightarrow> \<forall>(t, g)\<in>set gs. t0 \<le> t \<and> t < t0 + LOGIN_WINDOW \<Longrightarrow>
   fst (guess target gs s) \<le> 5"
proof (induction gs arbitrary: s)
  case (Cons g gs)
  obtain now email source where g: "g = (now, email, source)" by (rule prod_cases3)
  obtain r s' where rf: "record_failure now email source s = (r, s')"
    by (cases "record_failure now email source s")
  have now: "t0 \<le> now" using Cons.prems(2) g by auto
  have rest: "\<forall>(t, g)\<in>set gs. t0 \<le> t \<and> t < t0 + LOGIN_WINDOW" using Cons.prems(2) by auto
  show ?case
  proof (cases "allows now email source s = Inr True")
    case allowed: True
    show ?thesis
    proof (cases "normalize_email email = normalize_email target")
      case True
      then have key: "account_key email = account_key target" by (simp add: account_keys_same)
      have started: "counting (account_key target) 1 (now + LOGIN_WINDOW) s'"
        using record_failure_starts [OF rf] live_mono [OF Cons.prems(1) now] key by simp
      have "\<forall>(t, g)\<in>set gs. t < now + LOGIN_WINDOW"
        using rest now by fastforce
      then show ?thesis
        using guess_in_window [OF started, of gs] allowed rf g True by (auto split: prod.splits)
    next
      case False
      have "live_row t0 (account_key target) s' = None"
        using target_untouched [OF rf False] Cons.prems(1) by (simp add: live_row_def)
      then show ?thesis
        using Cons.IH [of s'] rest allowed rf g False by (auto split: prod.splits)
    qed
  next
    case False
    then show ?thesis
      using Cons.IH [of s] Cons.prems rest g by simp
  qed
qed simp

text \<open>A live counter keeps its deadline through every statement that does not remove it.\<close>

definition deadline :: "pystr \<Rightarrow> seconds \<Rightarrow> ephemeral \<Rightarrow> bool" where
  "deadline k e s \<longleftrightarrow> keys_unique s \<and> (\<exists>r. map_of s k = Some r \<and> row_expires r = e)"

lemma unique_sweep_pair: "sweep now s = (n, s') \<Longrightarrow> keys_unique s \<Longrightarrow> keys_unique s'"
  by (metis snd_conv unique_sweep)

lemma unique_step: "keys_unique s \<Longrightarrow> step_op now c s = (r, s') \<Longrightarrow> keys_unique s'"
  by (cases c)
     (auto simp: put_new_def replace_def take_key_def increment_def discard_def
           split: option.splits sum.splits prod.splits dest: unique_sweep_pair)

lemma deadline_step:
  assumes "deadline k e s" and "key_kind k \<in> set counter_kinds" and "now < e" and "op_typed c"
    and "c \<noteq> Discard k" and "c \<noteq> Take k" and "step_op now c s = (r, s')"
  shows "deadline k e s'"
proof -
  obtain w where w: "map_of s k = Some w" "row_expires w = e" and u: "keys_unique s"
    using assms(1) by (auto simp: deadline_def)
  have live: "live_row now k s = Some w"
    using w assms(3) by (simp add: live_row_def)
  have u': "keys_unique s'"
    by (rule unique_step [OF u assms(7)])
  show ?thesis
  proof (cases c)
    case Sweep
    then have "s' = snd (sweep now s)"
      using assms(7) by (auto split: prod.splits)
    then have "live_row now k s' = Some w"
      using live_sweep [OF u, of now now k] live by simp
    then show ?thesis
      using u' w(2) by (auto simp: deadline_def live_row_def split: option.splits if_splits)
  next
    case (Increment k' ttl)
    then show ?thesis
      using assms(7) u' w live
      by (cases "k' = k") (auto simp: deadline_def increment_def lookup_update split: option.splits sum.splits)
  qed (use assms u' w in \<open>auto simp: deadline_def op_typed_def put_new_def replace_def take_key_def discard_def
         lookup_update lookup_delete split: option.splits\<close>)
qed

lemma deadline_run:
  "deadline k e s \<Longrightarrow> key_kind k \<in> set counter_kinds \<Longrightarrow>
   \<forall>(t, c)\<in>set cs. t < e \<and> op_typed c \<and> c \<noteq> Discard k \<and> c \<noteq> Take k \<Longrightarrow>
   deadline k e (snd (run_ops cs s))"
proof (induction cs arbitrary: s)
  case (Cons x cs)
  obtain now c where x: "x = (now, c)" by (cases x)
  obtain r s1 where st: "step_op now c s = (r, s1)" by (cases "step_op now c s")
  have "deadline k e s1"
    using deadline_step [OF Cons.prems(1,2) _ _ _ _ st] Cons.prems(3) x by auto
  then show ?case
    using Cons.IH [of s1] Cons.prems(2,3) x st by (auto split: prod.splits)
qed simp

lemma deadline_live: "deadline k e s \<Longrightarrow> live_row t k s \<noteq> None \<longleftrightarrow> t < e"
  by (auto simp: deadline_def live_row_def split: option.splits)

section \<open>Properties\<close>

text \<open>C29: whatever order the statements of concurrent requests run in, the redemptions of a key by
  \<open>take\<close> never outnumber the statements that created it: a token is spent once.\<close>

theorem redeemed_at_most_stored:
  "length (filter (redeems k) (zip (map snd cs) (fst (run_ops cs []))))
     \<le> length (filter (creates k) (zip (map snd cs) (fst (run_ops cs []))))"
  using ledger_run [of cs "[]" "fst (run_ops cs [])" "snd (run_ops cs [])" k] by (simp add: held_def)

text \<open>C26: the store stays typed. Starting from an empty table, fewer than \<open>2^63\<close> statements of the
  forms the program sends, in any order and at any times, leave under every key a value of the
  key's kind, and none of them raises: no cast of a counter fails or overflows.\<close>

theorem store_stays_typed:
  assumes "list_all op_typed (map snd cs)" and "length cs < 2 ^ 63"
  shows "store_typed (length cs) (snd (run_ops cs [])) \<and> list_all (\<lambda>r. \<not> raises_reply r) (fst (run_ops cs []))"
  using typed_run [of 0 "[]" cs "fst (run_ops cs [])" "snd (run_ops cs [])"] assms by (simp add: store_typed_def)

definition example_ops :: "(seconds \<times> store_op) list" where
  "example_ops =
     [(0, Increment (account_key ''Ana@x.pe'') 300), (1, PutNew ''pending_mfa:ab'' (Text ''7'') 300),
      (2, Increment (account_key ''ana@x.pe '') 300), (3, Take ''pending_mfa:ab''), (4, Read (account_key ''ana@x.pe''))]"

theorem store_stays_typed_witness:
  "store_typed 5 (snd (run_ops example_ops []))
   \<and> fst (run_ops example_ops [])
       = [Counted (Inr 1), Accepted True, Counted (Inr 2), Value (Some (Text ''7'')), Value (Some (Text ''2''))]"
proof
  have "list_all op_typed (map snd example_ops)"
    by code_simp
  moreover have "length example_ops = 5"
    by code_simp
  ultimately show "store_typed 5 (snd (run_ops example_ops []))"
    using store_stays_typed [of example_ops] by simp
  show "fst (run_ops example_ops [])
       = [Counted (Inr 1), Accepted True, Counted (Inr 2), Value (Some (Text ''7'')), Value (Some (Text ''2''))]"
    by code_simp
qed

text \<open>The lock is a fixed window. Once a counter is live, no statement before its deadline moves
  the deadline, unless it removes the counter: further failures, of this request or of others,
  cannot push the lock out, and it is gone exactly at the deadline.\<close>

theorem counter_deadline_fixed:
  assumes "keys_unique s" and "key_kind k \<in> set counter_kinds" and "live_row t0 k s = Some r"
    and "\<forall>(t, c)\<in>set cs. t < row_expires r \<and> op_typed c \<and> c \<noteq> Discard k \<and> c \<noteq> Take k"
  shows "live_row t k (snd (run_ops cs s)) \<noteq> None \<longleftrightarrow> t < row_expires r"
proof -
  have "deadline k (row_expires r) s"
    using assms(1,3) by (auto simp: deadline_def live_row_def split: option.splits if_splits)
  from deadline_run [OF this assms(2,4)] show ?thesis
    by (rule deadline_live)
qed

text \<open>The throttle bounds guessing at the login form. Attempts within one window, for any mix of
  accounts and sources, handled one after the other, reach the password of one account at most
  five times when its counter is not already running.\<close>

theorem guesses_per_window:
  assumes "live_row t0 (account_key target) s = None"
    and "\<forall>(t, g)\<in>set gs. t0 \<le> t \<and> t < t0 + LOGIN_WINDOW"
  shows "fst (guess target gs s) \<le> 5"
  by (rule guess_fresh [OF assms])

theorem guesses_per_window_witness:
  "fst (guess ''ana@x.pe'' (map (\<lambda>n. (10 * real n, ''ana@x.pe'', ''10.0.0.'' @ nat_str n)) [0..<8]) []) = 5
   \<and> fst (guess ''ana@x.pe'' (map (\<lambda>n. (10 * real n, ''ana@x.pe'', ''10.0.0.'' @ nat_str n)) [0..<8]) []) \<le> 5"
proof
  show "fst (guess ''ana@x.pe'' (map (\<lambda>n. (10 * real n, ''ana@x.pe'', ''10.0.0.'' @ nat_str n)) [0..<8]) []) = 5"
    by code_simp
  show "fst (guess ''ana@x.pe'' (map (\<lambda>n. (10 * real n, ''ana@x.pe'', ''10.0.0.'' @ nat_str n)) [0..<8]) []) \<le> 5"
    by (rule guesses_per_window [of 0]) (auto simp: live_row_def LOGIN_WINDOW_def)
qed

theorem counter_deadline_fixed_witness:
  "live_row 299 (account_key ''a@b.c'') (snd (run_ops [(100, Increment (account_key ''a@b.c'') 300)]
      [(account_key ''a@b.c'', \<lparr>row_value = Text ''5'', row_expires = 300\<rparr>)])) \<noteq> None
   \<and> live_row 300 (account_key ''a@b.c'') (snd (run_ops [(100, Increment (account_key ''a@b.c'') 300)]
      [(account_key ''a@b.c'', \<lparr>row_value = Text ''5'', row_expires = 300\<rparr>)])) = None"
proof -
  let ?s = "[(account_key ''a@b.c'', \<lparr>row_value = Text ''5'', row_expires = 300\<rparr>)] :: ephemeral"
  let ?cs = "[(100, Increment (account_key ''a@b.c'') 300)] :: (seconds \<times> store_op) list"
  have kind: "key_kind (account_key ''a@b.c'') \<in> set counter_kinds" by code_simp
  have ops: "\<forall>(t, c)\<in>set ?cs. t < 300 \<and> op_typed c \<and> c \<noteq> Discard (account_key ''a@b.c'') \<and> c \<noteq> Take (account_key ''a@b.c'')"
    using kind by (simp add: op_typed_def)
  have live: "live_row 0 (account_key ''a@b.c'') ?s = Some \<lparr>row_value = Text ''5'', row_expires = 300\<rparr>"
    by (simp add: live_row_def)
  have "live_row t (account_key ''a@b.c'') (snd (run_ops ?cs ?s)) \<noteq> None \<longleftrightarrow> t < 300" for t
    using counter_deadline_fixed [OF _ kind live, of ?cs t] ops by (simp add: keys_unique_def)
  from this [of 299] this [of 300] show ?thesis
    by (simp del: run_ops.simps)
qed

end
