(* ===== verification/Accounts.thy ===== *)
theory Accounts
  imports Vault Ephemeral
begin

text \<open>
  The portal's accounts (\<open>portal/repository/auth.py\<close>, \<open>shared.py\<close>): users, their second factors
  and recovery codes, with the constraints and the deferred triggers of \<open>001_portal.sql\<close> that
  every statement is checked against. The tables of \<open>portal/repository/teams.py\<close> are part of the
  same record, because deleting a user reaches them; their operations are in \<open>Teams\<close>. A method
  is one transaction: it returns the committed tables, or the exception that rolled it back.
  New ids and the clock are arguments.
\<close>

section \<open>Tables\<close>

record account_row =
  us_id :: uuid
  us_email :: pystr
  us_password_hash :: pystr
  us_is_site_admin :: bool
  us_pending_site_admin :: bool
  us_is_active :: bool
  us_deactivated_at :: "seconds option"
  us_deactivated_by :: "uuid option"
  us_mfa_secret :: "protected_secret option"
  us_mfa_enabled :: bool

record recovery_code =
  rc_user :: uuid
  rc_hash :: pystr
  rc_used_at :: "seconds option"

record passkey =
  pk_id :: uuid
  pk_user :: uuid
  pk_credential_id :: pystr
  pk_public_key :: pystr
  pk_sign_count :: int
  pk_transports :: "pystr list"
  pk_label :: pystr
  pk_created_at :: seconds
  pk_last_used_at :: "seconds option"

datatype team_role = TEAM_LEADER | TEAM_MEMBER

record team_entry =
  tm_id :: uuid
  tm_slug :: pystr
  tm_name :: pystr
  tm_created_by :: uuid
  tm_has_global_search :: bool

record membership =
  mb_team :: uuid
  mb_user :: uuid
  mb_role :: team_role

record invite =
  iv_id :: uuid
  iv_team :: uuid
  iv_email :: pystr
  iv_role :: team_role
  iv_token_hash :: pystr
  iv_invited_by :: uuid
  iv_created_at :: seconds
  iv_expires_at :: seconds
  iv_accepted_at :: "seconds option"

text \<open>
  \<open>ac_initial\<close> is the row of \<open>portal_installation_state\<close>: the first team and who created it.
  \<open>ac_history\<close> lists the users that rows of other tables name in a column without \<open>ON DELETE\<close>:
  who submitted a job, created a credential or searched.
\<close>

record accounts =
  ac_users :: "account_row list"
  ac_passkeys :: "passkey list"
  ac_codes :: "recovery_code list"
  ac_teams :: "team_entry list"
  ac_members :: "membership list"
  ac_invites :: "invite list"
  ac_initial :: "(uuid \<times> uuid) option"
  ac_history :: "uuid list"

datatype account_error =
    Portal portal_error
  | UniqueViolation
  | ForeignKeyViolation
  | CheckViolation
  | NotNullViolation

definition refuse :: "portal_class \<Rightarrow> reason \<Rightarrow> account_error + 'a" where
  "refuse c r = Inl (Portal \<lparr>pe_class = c, pe_reason = r, pe_params = []\<rparr>)"

section \<open>Rows\<close>

record portal_user =
  pu_id :: uuid
  pu_email :: pystr
  pu_is_site_admin :: bool
  pu_mfa_enabled :: bool
  pu_has_passkey :: bool
  pu_is_active :: bool
  pu_pending_site_admin :: bool

definition has_second_factor :: "portal_user \<Rightarrow> bool" where
  "has_second_factor u \<longleftrightarrow> pu_mfa_enabled u \<or> pu_has_passkey u"

definition has_passkey :: "accounts \<Rightarrow> uuid \<Rightarrow> bool" where
  "has_passkey db uid \<longleftrightarrow> list_ex (\<lambda>k. pk_user k = uid) (ac_passkeys db)"

definition user_row :: "accounts \<Rightarrow> account_row \<Rightarrow> portal_user" where
  "user_row db u =
     \<lparr>pu_id = us_id u, pu_email = us_email u, pu_is_site_admin = us_is_site_admin u,
      pu_mfa_enabled = us_mfa_enabled u, pu_has_passkey = has_passkey db (us_id u),
      pu_is_active = us_is_active u, pu_pending_site_admin = us_pending_site_admin u\<rparr>"

definition find_user :: "accounts \<Rightarrow> uuid \<Rightarrow> account_row option" where
  "find_user db uid = List.find (\<lambda>u. us_id u = uid) (ac_users db)"

text \<open>The \<open>CHECK\<close> constraints of \<open>portal_users\<close>.\<close>

definition user_checks :: "account_row \<Rightarrow> bool" where
  "user_checks u \<longleftrightarrow>
     py_lower (us_email u) = us_email u
     \<and> (us_mfa_enabled u \<longrightarrow> us_mfa_secret u \<noteq> None)
     \<and> \<not> (us_is_site_admin u \<and> us_pending_site_admin u)
     \<and> (us_is_active u \<longleftrightarrow> us_deactivated_at u = None)"

text \<open>The trigger \<open>portal_admin_requires_second_factor\<close> for one user, at commit.\<close>

definition factor_kept :: "accounts \<Rightarrow> uuid \<Rightarrow> bool" where
  "factor_kept db uid \<longleftrightarrow>
     (case find_user db uid of
        Some u \<Rightarrow> us_is_site_admin u \<longrightarrow> us_mfa_enabled u \<or> has_passkey db uid
      | None \<Rightarrow> True)"

text \<open>The trigger \<open>portal_installation_must_have_admin\<close>, at commit.\<close>

definition admin_kept :: "accounts \<Rightarrow> bool" where
  "admin_kept db \<longleftrightarrow> list_ex (\<lambda>u. us_is_site_admin u \<and> us_is_active u) (ac_users db)"

definition commit_if :: "bool \<Rightarrow> 'a \<Rightarrow> account_error + 'a" where
  "commit_if ok x = (if ok then Inr x else Inl CheckViolation)"

text \<open>\<open>UPDATE portal_users SET ... WHERE id = $1\<close>, and whether it found a row.\<close>

definition update_user :: "uuid \<Rightarrow> (account_row \<Rightarrow> account_row) \<Rightarrow> accounts \<Rightarrow> account_error + (bool \<times> accounts)" where
  "update_user uid f db =
     (case find_user db uid of
        None \<Rightarrow> Inr (False, db)
      | Some u \<Rightarrow>
          if user_checks (f u)
          then Inr (True, db\<lparr>ac_users := map (\<lambda>v. if us_id v = uid then f v else v) (ac_users db)\<rparr>)
          else Inl CheckViolation)"

text \<open>\<open>UPDATE ... RETURNING\<close> as \<open>promote_now\<close>, \<open>deactivate\<close>, \<open>reactivate\<close> and \<open>demote\<close> use it.\<close>

definition returning_user :: "uuid \<Rightarrow> accounts \<Rightarrow> account_error + (portal_user \<times> accounts)" where
  "returning_user uid db =
     (case find_user db uid of
        None \<Rightarrow> refuse NotFound USER_NOT_FOUND
      | Some u \<Rightarrow> Inr (user_row db u, db))"

section \<open>Reading\<close>

definition user_by_email :: "pystr \<Rightarrow> accounts \<Rightarrow> (portal_user \<times> pystr) option" where
  "user_by_email email db =
     map_option (\<lambda>u. (user_row db u, us_password_hash u))
       (List.find (\<lambda>u. us_email u = normalize_email email) (ac_users db))"

definition user_by_id :: "uuid \<Rightarrow> accounts \<Rightarrow> portal_user option" where
  "user_by_id uid db = map_option (user_row db) (find_user db uid)"

definition mfa_secret :: "uuid \<Rightarrow> accounts \<Rightarrow> protected_secret option" where
  "mfa_secret uid db =
     (case find_user db uid of
        Some u \<Rightarrow> if us_mfa_enabled u then us_mfa_secret u else None
      | None \<Rightarrow> None)"

definition webauthn_credentials :: "uuid \<Rightarrow> accounts \<Rightarrow> passkey list" where
  "webauthn_credentials uid db = sort_key pk_created_at (filter (\<lambda>k. pk_user k = uid) (ac_passkeys db))"

definition webauthn_credential_by_credential_id :: "pystr \<Rightarrow> accounts \<Rightarrow> passkey option" where
  "webauthn_credential_by_credential_id cid db = List.find (\<lambda>k. pk_credential_id k = cid) (ac_passkeys db)"

definition count_active_site_admins :: "accounts \<Rightarrow> nat" where
  "count_active_site_admins db = length (filter (\<lambda>u. us_is_site_admin u \<and> us_is_active u) (ac_users db))"

section \<open>Creating accounts\<close>

definition insert_user :: "account_row \<Rightarrow> accounts \<Rightarrow> account_error + accounts" where
  "insert_user u db =
     (if \<not> user_checks u then Inl CheckViolation
      else if list_ex (\<lambda>v. us_id v = us_id u \<or> us_email v = us_email u) (ac_users db)
        then Inl UniqueViolation
      else commit_if (factor_kept (db\<lparr>ac_users := ac_users db @ [u]\<rparr>) (us_id u))
             (db\<lparr>ac_users := ac_users db @ [u]\<rparr>))"

definition new_user :: "uuid \<Rightarrow> pystr \<Rightarrow> pystr \<Rightarrow> bool \<Rightarrow> account_row" where
  "new_user uid email password_hash admin =
     \<lparr>us_id = uid, us_email = normalize_email email, us_password_hash = password_hash,
      us_is_site_admin = admin, us_pending_site_admin = False, us_is_active = True,
      us_deactivated_at = None, us_deactivated_by = None, us_mfa_secret = None, us_mfa_enabled = False\<rparr>"

definition create_user ::
  "uuid \<Rightarrow> pystr \<Rightarrow> pystr \<Rightarrow> bool \<Rightarrow> accounts \<Rightarrow> account_error + (portal_user \<times> accounts)" where
  "create_user uid email password_hash is_site_admin db =
     bind_res (insert_user (new_user uid email password_hash is_site_admin) db) (\<lambda>db'.
       Inr (\<lparr>pu_id = uid, pu_email = normalize_email email, pu_is_site_admin = is_site_admin,
             pu_mfa_enabled = False, pu_has_passkey = False, pu_is_active = True,
             pu_pending_site_admin = False\<rparr>, db'))"

definition create_account :: "uuid \<Rightarrow> pystr \<Rightarrow> pystr \<Rightarrow> accounts \<Rightarrow> account_error + (portal_user \<times> accounts)" where
  "create_account uid email password_hash db =
     (case List.find (\<lambda>u. us_email u = normalize_email email) (ac_users db) of
        Some u \<Rightarrow> Inr (user_row db u, db)
      | None \<Rightarrow>
          (let u = new_user uid email password_hash False
           in bind_res (insert_user u db) (\<lambda>db'. Inr (user_row db' u, db'))))"

section \<open>Second factors\<close>

definition is_token_hash :: "pystr \<Rightarrow> bool" where
  "is_token_hash h \<longleftrightarrow>
     length h = 64 \<and> list_all (\<lambda>c. is_decimal_char c \<or> (97 \<le> code_point c \<and> code_point c \<le> 102)) h"

fun insert_codes :: "uuid \<Rightarrow> pystr list \<Rightarrow> recovery_code list \<Rightarrow> account_error + recovery_code list" where
  "insert_codes uid [] cs = Inr cs"
| "insert_codes uid (h # hs) cs =
     (if \<not> is_token_hash h then Inl CheckViolation
      else if list_ex (\<lambda>c. rc_user c = uid \<and> rc_hash c = h) cs then Inl UniqueViolation
      else insert_codes uid hs (cs @ [\<lparr>rc_user = uid, rc_hash = h, rc_used_at = None\<rparr>]))"

definition replace_recovery_codes :: "uuid \<Rightarrow> pystr list \<Rightarrow> accounts \<Rightarrow> account_error + accounts" where
  "replace_recovery_codes uid hashes db =
     bind_res (insert_codes uid hashes (filter (\<lambda>c. rc_user c \<noteq> uid) (ac_codes db))) (\<lambda>cs.
       if hashes \<noteq> [] \<and> find_user db uid = None then Inl ForeignKeyViolation
       else Inr (db\<lparr>ac_codes := cs\<rparr>))"

definition replace_if_given :: "uuid \<Rightarrow> pystr list option \<Rightarrow> accounts \<Rightarrow> account_error + accounts" where
  "replace_if_given uid hashes db =
     (case hashes of None \<Rightarrow> Inr db | Some hs \<Rightarrow> replace_recovery_codes uid hs db)"

definition enable_totp ::
  "uuid \<Rightarrow> protected_secret \<Rightarrow> pystr list option \<Rightarrow> bool \<Rightarrow> accounts \<Rightarrow> account_error + accounts" where
  "enable_totp uid secret hashes promote db =
     bind_res
       (update_user uid
          (\<lambda>u. u\<lparr>us_mfa_secret := Some secret, us_mfa_enabled := True,
                 us_is_site_admin := us_is_site_admin u \<or> promote,
                 us_pending_site_admin := us_pending_site_admin u \<and> \<not> promote\<rparr>) db) (\<lambda>(found, db).
     bind_res (replace_if_given uid hashes db) (\<lambda>db.
     commit_if (found \<longrightarrow> factor_kept db uid \<and> admin_kept db) db))"

definition disable_totp :: "uuid \<Rightarrow> accounts \<Rightarrow> account_error + accounts" where
  "disable_totp uid db =
     (case bind_res (update_user uid (\<lambda>u. u\<lparr>us_mfa_enabled := False, us_mfa_secret := None\<rparr>) db) (\<lambda>(found, db).
             let db = (if has_passkey db uid then db
                       else db\<lparr>ac_codes := filter (\<lambda>c. rc_user c \<noteq> uid) (ac_codes db)\<rparr>)
             in commit_if (found \<longrightarrow> factor_kept db uid) db) of
        Inl CheckViolation \<Rightarrow> refuse ProvisioningError LAST_SECOND_FACTOR
      | r \<Rightarrow> r)"

definition pg_trim :: "pystr \<Rightarrow> pystr" where
  "pg_trim s = rev (dropWhile (\<lambda>c. c = CHR '' '') (rev (dropWhile (\<lambda>c. c = CHR '' '') s)))"

definition insert_passkey :: "passkey \<Rightarrow> accounts \<Rightarrow> account_error + accounts" where
  "insert_passkey k db =
     (if pk_sign_count k < 0 \<or> pg_trim (pk_label k) = [] then Inl CheckViolation
      else if list_ex (\<lambda>j. pk_id j = pk_id k \<or> pk_credential_id j = pk_credential_id k) (ac_passkeys db)
        then Inl UniqueViolation
      else if find_user db (pk_user k) = None then Inl ForeignKeyViolation
      else Inr (db\<lparr>ac_passkeys := ac_passkeys db @ [k]\<rparr>))"

definition add_webauthn_credential ::
  "passkey \<Rightarrow> pystr list option \<Rightarrow> bool \<Rightarrow> accounts \<Rightarrow> account_error + accounts" where
  "add_webauthn_credential k hashes promote db =
     bind_res (insert_passkey k db) (\<lambda>db.
     bind_res
       (if promote
        then update_user (pk_user k) (\<lambda>u. u\<lparr>us_is_site_admin := True, us_pending_site_admin := False\<rparr>) db
        else Inr (False, db)) (\<lambda>(found, db).
     bind_res (replace_if_given (pk_user k) hashes db) (\<lambda>db.
     commit_if (found \<longrightarrow> factor_kept db (pk_user k) \<and> admin_kept db) db)))"

definition remove_webauthn_credential :: "uuid \<Rightarrow> uuid \<Rightarrow> accounts \<Rightarrow> account_error + accounts" where
  "remove_webauthn_credential uid row_id db =
     (let hit = (\<lambda>k. pk_id k = row_id \<and> pk_user k = uid);
          db' = db\<lparr>ac_passkeys := filter (\<lambda>k. \<not> hit k) (ac_passkeys db)\<rparr>
      in if \<not> list_ex hit (ac_passkeys db) then refuse NotFound PASSKEY_NOT_FOUND
         else if factor_kept db' uid then Inr db'
         else refuse ProvisioningError LAST_SECOND_FACTOR)"

text \<open>The use counter advances, or stays at zero for an authenticator that never counts.\<close>

definition counter_accepts :: "int \<Rightarrow> passkey \<Rightarrow> bool" where
  "counter_accepts n k \<longleftrightarrow> pk_sign_count k < n \<or> (n = 0 \<and> pk_sign_count k = 0)"

definition touch_webauthn_credential :: "seconds \<Rightarrow> uuid \<Rightarrow> int \<Rightarrow> accounts \<Rightarrow> bool \<times> accounts" where
  "touch_webauthn_credential now row_id sign_count db =
     (let hit = (\<lambda>k. pk_id k = row_id \<and> counter_accepts sign_count k)
      in (list_ex hit (ac_passkeys db),
          db\<lparr>ac_passkeys :=
               map (\<lambda>k. if hit k then k\<lparr>pk_sign_count := sign_count, pk_last_used_at := Some now\<rparr> else k)
                 (ac_passkeys db)\<rparr>))"

definition consume_recovery_code :: "seconds \<Rightarrow> uuid \<Rightarrow> pystr \<Rightarrow> accounts \<Rightarrow> bool \<times> accounts" where
  "consume_recovery_code now uid code_hash db =
     (let hit = (\<lambda>c. rc_user c = uid \<and> rc_hash c = code_hash \<and> rc_used_at c = None)
      in (list_ex hit (ac_codes db),
          db\<lparr>ac_codes := map (\<lambda>c. if hit c then c\<lparr>rc_used_at := Some now\<rparr> else c) (ac_codes db)\<rparr>))"

section \<open>Standing of an account\<close>

definition promote_now :: "uuid \<Rightarrow> accounts \<Rightarrow> account_error + (portal_user \<times> accounts)" where
  "promote_now uid db =
     bind_res (update_user uid (\<lambda>u. u\<lparr>us_is_site_admin := True, us_pending_site_admin := False\<rparr>) db) (\<lambda>(found, db).
     bind_res (commit_if (found \<longrightarrow> factor_kept db uid \<and> admin_kept db) db) (returning_user uid))"

definition set_pending_site_admin :: "uuid \<Rightarrow> bool \<Rightarrow> accounts \<Rightarrow> account_error + accounts" where
  "set_pending_site_admin uid pending db =
     bind_res (update_user uid (\<lambda>u. u\<lparr>us_pending_site_admin := pending\<rparr>) db) (\<lambda>(found, db).
     if found then Inr db else refuse NotFound USER_NOT_FOUND)"

definition deactivate :: "seconds \<Rightarrow> uuid \<Rightarrow> uuid \<Rightarrow> accounts \<Rightarrow> account_error + (portal_user \<times> accounts)" where
  "deactivate now uid actor_id db =
     bind_res
       (update_user uid
          (\<lambda>u. u\<lparr>us_is_active := False,
                 us_deactivated_at := (case us_deactivated_at u of None \<Rightarrow> Some now | Some t \<Rightarrow> Some t),
                 us_deactivated_by := (case us_deactivated_by u of None \<Rightarrow> Some actor_id | Some who \<Rightarrow> Some who)\<rparr>)
          db) (\<lambda>(found, db).
     bind_res
       (if found \<and> find_user db actor_id = None
           \<and> list_ex (\<lambda>u. us_id u = uid \<and> us_deactivated_by u = Some actor_id) (ac_users db)
        then Inl ForeignKeyViolation
        else commit_if (found \<longrightarrow> admin_kept db) db) (returning_user uid))"

definition reactivate :: "uuid \<Rightarrow> accounts \<Rightarrow> account_error + (portal_user \<times> accounts)" where
  "reactivate uid db =
     bind_res
       (update_user uid (\<lambda>u. u\<lparr>us_is_active := True, us_deactivated_at := None, us_deactivated_by := None\<rparr>) db)
       (\<lambda>(found, db).
     bind_res (commit_if (found \<longrightarrow> admin_kept db) db) (returning_user uid))"

definition demote :: "uuid \<Rightarrow> accounts \<Rightarrow> account_error + (portal_user \<times> accounts)" where
  "demote uid db =
     bind_res (update_user uid (\<lambda>u. u\<lparr>us_is_site_admin := False, us_pending_site_admin := False\<rparr>) db) (\<lambda>(found, db).
     bind_res (commit_if (found \<longrightarrow> factor_kept db uid \<and> admin_kept db) db) (returning_user uid))"

definition set_password :: "uuid \<Rightarrow> pystr \<Rightarrow> accounts \<Rightarrow> account_error + accounts" where
  "set_password uid password_hash db =
     bind_res (update_user uid (\<lambda>u. u\<lparr>us_password_hash := password_hash\<rparr>) db) (\<lambda>(found, db).
     if found then Inr db else refuse NotFound USER_NOT_FOUND)"

text \<open>
  Rows of other tables that keep a user from being deleted. Deleting the user deletes its factors
  and memberships; the team trigger then wants a leader in every team it left.
\<close>

definition referenced :: "uuid \<Rightarrow> accounts \<Rightarrow> bool" where
  "referenced uid db \<longleftrightarrow>
     list_ex (\<lambda>u. us_id u \<noteq> uid \<and> us_deactivated_by u = Some uid) (ac_users db)
     \<or> list_ex (\<lambda>t. tm_created_by t = uid) (ac_teams db)
     \<or> list_ex (\<lambda>i. iv_invited_by i = uid) (ac_invites db)
     \<or> (\<exists>p \<in> set_option (ac_initial db). snd p = uid)
     \<or> uid \<in> set (ac_history db)"

definition team_has_leader :: "accounts \<Rightarrow> uuid \<Rightarrow> bool" where
  "team_has_leader db tid \<longleftrightarrow> list_ex (\<lambda>m. mb_team m = tid \<and> mb_role m = TEAM_LEADER) (ac_members db)"

text \<open>The trigger \<open>portal_team_must_have_leader\<close> for one team, at commit.\<close>

definition leader_kept :: "accounts \<Rightarrow> uuid \<Rightarrow> bool" where
  "leader_kept db tid \<longleftrightarrow> list_ex (\<lambda>t. tm_id t = tid) (ac_teams db) \<longrightarrow> team_has_leader db tid"

definition delete_if_unused :: "uuid \<Rightarrow> accounts \<Rightarrow> account_error + (bool \<times> accounts)" where
  "delete_if_unused uid db =
     (case find_user db uid of
        None \<Rightarrow> Inr (False, db)
      | Some u \<Rightarrow>
          if referenced uid db then Inr (False, db)
          else
            (let db' = db\<lparr>ac_users := filter (\<lambda>v. us_id v \<noteq> uid) (ac_users db),
                          ac_passkeys := filter (\<lambda>k. pk_user k \<noteq> uid) (ac_passkeys db),
                          ac_codes := filter (\<lambda>c. rc_user c \<noteq> uid) (ac_codes db),
                          ac_members := filter (\<lambda>m. mb_user m \<noteq> uid) (ac_members db)\<rparr>
             in commit_if
                  (list_all (\<lambda>m. mb_user m = uid \<longrightarrow> leader_kept db' (mb_team m)) (ac_members db))
                  (True, db')))"

section \<open>What every commit keeps\<close>

named_theorems account_simps

text \<open>Keys, foreign keys and checks of the tables of this theory.\<close>

definition tables_sound :: "accounts \<Rightarrow> bool" where
  "tables_sound db \<longleftrightarrow>
     distinct (map us_id (ac_users db)) \<and> distinct (map us_email (ac_users db))
     \<and> list_all user_checks (ac_users db)
     \<and> distinct (map pk_id (ac_passkeys db)) \<and> distinct (map pk_credential_id (ac_passkeys db))
     \<and> list_all (\<lambda>k. pk_user k \<in> us_id ` set (ac_users db) \<and> 0 \<le> pk_sign_count k) (ac_passkeys db)
     \<and> distinct (map (\<lambda>c. (rc_user c, rc_hash c)) (ac_codes db))
     \<and> list_all (\<lambda>c. rc_user c \<in> us_id ` set (ac_users db) \<and> is_token_hash (rc_hash c)) (ac_codes db)"

definition accounts_sound :: "accounts \<Rightarrow> bool" where
  "accounts_sound db \<longleftrightarrow> tables_sound db \<and> (\<forall>uid. factor_kept db uid)"

lemma find_user_None: "find_user db uid = None \<longleftrightarrow> uid \<notin> us_id ` set (ac_users db)"
  by (auto simp: find_user_def find_None_iff)

lemma find_user_SomeD: "find_user db uid = Some u \<Longrightarrow> u \<in> set (ac_users db) \<and> us_id u = uid"
  by (auto simp: find_user_def find_Some_iff)

lemma find_user_unique:
  "distinct (map us_id (ac_users db)) \<Longrightarrow> u \<in> set (ac_users db) \<Longrightarrow> find_user db (us_id u) = Some u"
  by (metis (no_types, lifting) distinct_map find_user_None find_user_SomeD image_eqI inj_onD not_None_eq)

lemma find_map_id:
  "(\<And>u. us_id (f u) = us_id u) \<Longrightarrow>
   List.find (\<lambda>u. us_id u = x) (map (\<lambda>v. if us_id v = uid then f v else v) us)
     = map_option (\<lambda>v. if us_id v = uid then f v else v) (List.find (\<lambda>u. us_id u = x) us)"
  by (induction us) auto

lemma update_user_find:
  assumes "update_user uid f db = Inr (found, db')" and "\<And>u. us_id (f u) = us_id u"
  shows "find_user db' x = (if x = uid then map_option f (find_user db uid) else find_user db x)"
proof -
  let ?g = "\<lambda>v. if us_id v = uid then f v else v"
  have "map_option ?g (find_user db x) = (if x = uid then map_option f (find_user db uid) else find_user db x)"
    by (cases "find_user db x") (auto dest: find_user_SomeD)
  moreover have "find_user (db\<lparr>ac_users := map ?g (ac_users db)\<rparr>) x = map_option ?g (find_user db x)"
    using find_map_id [OF assms(2)] by (simp add: find_user_def)
  ultimately show ?thesis
    using assms(1) by (auto simp: update_user_def split: option.splits if_splits)
qed

lemma factor_kept_cong:
  "find_user db' = find_user db \<Longrightarrow> has_passkey db' = has_passkey db \<Longrightarrow> factor_kept db' = factor_kept db"
  by (rule ext) (simp add: factor_kept_def cong: option.case_cong)

lemma update_user_frame:
  assumes "update_user uid f db = Inr (found, db')"
  shows "ac_passkeys db' = ac_passkeys db" "ac_codes db' = ac_codes db" "ac_teams db' = ac_teams db"
    "ac_members db' = ac_members db" "ac_invites db' = ac_invites db" "ac_initial db' = ac_initial db"
    "found \<longleftrightarrow> find_user db uid \<noteq> None" "has_passkey db' = has_passkey db"
  using assms by (auto simp: update_user_def has_passkey_def fun_eq_iff split: option.splits if_splits)

lemma update_user_ids:
  "(\<And>u. us_id (f u) = us_id u) \<Longrightarrow> update_user uid f db = Inr (found, db') \<Longrightarrow>
   map us_id (ac_users db') = map us_id (ac_users db)"
  by (auto simp: update_user_def split: option.splits if_splits)

lemma update_user_tables:
  assumes "tables_sound db" and up: "update_user uid f db = Inr (found, db')"
    and f: "\<And>u. us_id (f u) = us_id u" "\<And>u. us_email (f u) = us_email u"
  shows "tables_sound db'"
proof -
  have ids: "map us_id (ac_users db') = map us_id (ac_users db)"
    by (rule update_user_ids [OF f(1) up])
  then have owners: "us_id ` set (ac_users db') = us_id ` set (ac_users db)"
    by (metis set_map)
  have mails: "map us_email (ac_users db') = map us_email (ac_users db)"
    using up f(2) by (auto simp: update_user_def split: option.splits if_splits)
  have "list_all user_checks (ac_users db')"
  proof (cases "find_user db uid")
    case None
    then show ?thesis using up assms(1) by (simp add: update_user_def tables_sound_def)
  next
    case (Some u)
    have ok: "user_checks (f u)" and db': "ac_users db' = map (\<lambda>v. if us_id v = uid then f v else v) (ac_users db)"
      using up Some by (auto simp: update_user_def split: if_splits)
    have "v = u" if "v \<in> set (ac_users db)" "us_id v = uid" for v
      using find_user_unique [of db v] assms(1) that Some by (simp add: tables_sound_def)
    then show ?thesis
      using ok db' assms(1) by (auto simp: tables_sound_def list_all_iff)
  qed
  then show ?thesis
    using assms(1) update_user_frame [OF up] ids mails owners by (simp add: tables_sound_def)
qed

lemma update_user_factor_other:
  assumes "update_user uid f db = Inr (found, db')" and "\<And>u. us_id (f u) = us_id u" and "x \<noteq> uid"
  shows "factor_kept db' x = factor_kept db x"
  using update_user_find [OF assms(1,2), of x] update_user_frame(8) [OF assms(1)] assms(3)
  by (simp add: factor_kept_def cong: option.case_cong)

text \<open>An update that fires the trigger is sound, and so is one that takes no factor away.\<close>

lemma update_user_checked:
  assumes "accounts_sound db" and "update_user uid f db = Inr (found, db')"
    and "\<And>u. us_id (f u) = us_id u" and "\<And>u. us_email (f u) = us_email u"
    and "found \<Longrightarrow> factor_kept db' uid"
  shows "accounts_sound db'"
proof -
  have "factor_kept db' uid"
    using assms(5) update_user_frame(7) [OF assms(2)] update_user_find [OF assms(2,3), of uid]
    by (cases found) (simp_all add: factor_kept_def)
  then show ?thesis
    using assms update_user_tables [OF _ assms(2,3,4)] update_user_factor_other [OF assms(2,3)]
    unfolding accounts_sound_def by metis
qed

lemma update_user_quiet:
  assumes "accounts_sound db" and "update_user uid f db = Inr (found, db')"
    and "\<And>u. us_id (f u) = us_id u" and "\<And>u. us_email (f u) = us_email u"
    and "\<And>u. us_is_site_admin (f u) = us_is_site_admin u" and "\<And>u. us_mfa_enabled (f u) = us_mfa_enabled u"
  shows "accounts_sound db'"
proof (rule update_user_checked [OF assms(1,2,3,4)])
  have "factor_kept db uid" using assms(1) by (simp add: accounts_sound_def)
  then show "factor_kept db' uid"
    using update_user_find [OF assms(2,3), of uid] update_user_frame(8) [OF assms(2)]
    by (auto simp: factor_kept_def assms(5,6) split: option.splits)
qed

lemma commit_if_Inr [account_simps]: "commit_if ok x = Inr y \<longleftrightarrow> ok \<and> y = x"
  by (auto simp: commit_if_def)

lemma refuse_Inr [account_simps]: "refuse c r \<noteq> Inr y"
  by (simp add: refuse_def)

lemma insert_codes_sound:
  "insert_codes uid hs cs = Inr cs' \<Longrightarrow> distinct (map (\<lambda>c. (rc_user c, rc_hash c)) cs) \<Longrightarrow>
   list_all (\<lambda>c. rc_user c \<in> owners \<and> is_token_hash (rc_hash c)) cs \<Longrightarrow> (hs \<noteq> [] \<Longrightarrow> uid \<in> owners) \<Longrightarrow>
   distinct (map (\<lambda>c. (rc_user c, rc_hash c)) cs')
     \<and> list_all (\<lambda>c. rc_user c \<in> owners \<and> is_token_hash (rc_hash c)) cs'"
proof (induction hs arbitrary: cs)
  case (Cons h hs)
  have new: "is_token_hash h" "\<not> list_ex (\<lambda>c. rc_user c = uid \<and> rc_hash c = h) cs"
    and rest: "insert_codes uid hs (cs @ [\<lparr>rc_user = uid, rc_hash = h, rc_used_at = None\<rparr>]) = Inr cs'"
    using Cons.prems(1) by (auto split: if_splits)
  show ?case
    by (rule Cons.IH [OF rest]) (use Cons.prems new in \<open>auto simp: list_ex_iff\<close>)
qed simp

lemma replace_codes_sound:
  assumes "accounts_sound db" and "replace_if_given uid hashes db = Inr db'"
  shows "accounts_sound db'" "find_user db' = find_user db" "has_passkey db' = has_passkey db"
    "ac_users db' = ac_users db"
proof -
  show frame: "find_user db' = find_user db" "has_passkey db' = has_passkey db" "ac_users db' = ac_users db"
    using assms(2)
    by (auto simp: replace_if_given_def replace_recovery_codes_def find_user_def has_passkey_def fun_eq_iff
        bind_res_Inr_iff split: option.splits if_splits)
  show "accounts_sound db'"
  proof (cases hashes)
    case None
    then show ?thesis using assms by (simp add: replace_if_given_def)
  next
    case (Some hs)
    let ?cs = "filter (\<lambda>c. rc_user c \<noteq> uid) (ac_codes db)"
    obtain cs where ins: "insert_codes uid hs ?cs = Inr cs" and db': "db' = db\<lparr>ac_codes := cs\<rparr>"
      and owner: "hs \<noteq> [] \<Longrightarrow> find_user db uid \<noteq> None"
      using assms(2) Some
      by (auto simp: replace_if_given_def replace_recovery_codes_def bind_res_Inr_iff split: if_splits)
    have "distinct (map (\<lambda>c. (rc_user c, rc_hash c)) cs)
       \<and> list_all (\<lambda>c. rc_user c \<in> us_id ` set (ac_users db) \<and> is_token_hash (rc_hash c)) cs"
      using insert_codes_sound [OF ins, of "us_id ` set (ac_users db)"] assms(1) owner
      by (auto simp: accounts_sound_def tables_sound_def distinct_map_filter list_all_iff find_user_None)
    then show ?thesis
      using assms(1) db' factor_kept_cong [OF frame(1,2)]
      by (simp add: accounts_sound_def tables_sound_def)
  qed
qed

section \<open>Every operation\<close>

text \<open>One call of the repository: its writes, with every argument it takes.\<close>

datatype account_op =
    CreateUser uuid pystr pystr bool
  | CreateAccount uuid pystr pystr
  | EnableTotp uuid protected_secret "pystr list option" bool
  | DisableTotp uuid
  | AddPasskey passkey "pystr list option" bool
  | RemovePasskey uuid uuid
  | TouchPasskey seconds uuid int
  | ConsumeRecoveryCode seconds uuid pystr
  | PromoteNow uuid
  | SetPending uuid bool
  | Deactivate seconds uuid uuid
  | Reactivate uuid
  | Demote uuid
  | SetPassword uuid pystr
  | DeleteIfUnused uuid

definition written :: "account_error + ('r \<times> accounts) \<Rightarrow> account_error + accounts" where
  "written r = bind_res r (\<lambda>(_, db). Inr db)"

fun apply_account :: "account_op \<Rightarrow> accounts \<Rightarrow> account_error + accounts" where
  "apply_account (CreateUser uid e h a) db = written (create_user uid e h a db)"
| "apply_account (CreateAccount uid e h) db = written (create_account uid e h db)"
| "apply_account (EnableTotp uid s cs p) db = enable_totp uid s cs p db"
| "apply_account (DisableTotp uid) db = disable_totp uid db"
| "apply_account (AddPasskey k cs p) db = add_webauthn_credential k cs p db"
| "apply_account (RemovePasskey uid k) db = remove_webauthn_credential uid k db"
| "apply_account (TouchPasskey now k n) db = Inr (snd (touch_webauthn_credential now k n db))"
| "apply_account (ConsumeRecoveryCode now uid h) db = Inr (snd (consume_recovery_code now uid h db))"
| "apply_account (PromoteNow uid) db = written (promote_now uid db)"
| "apply_account (SetPending uid p) db = set_pending_site_admin uid p db"
| "apply_account (Deactivate now uid actor) db = written (deactivate now uid actor db)"
| "apply_account (Reactivate uid) db = written (reactivate uid db)"
| "apply_account (Demote uid) db = written (demote uid db)"
| "apply_account (SetPassword uid h) db = set_password uid h db"
| "apply_account (DeleteIfUnused uid) db = written (delete_if_unused uid db)"

text \<open>A call that raises leaves the tables as they were.\<close>

definition attempt_op :: "account_op \<Rightarrow> accounts \<Rightarrow> accounts" where
  "attempt_op c db = (case apply_account c db of Inr db' \<Rightarrow> db' | Inl _ \<Rightarrow> db)"

lemma written_Inr [account_simps]: "written r = Inr db \<longleftrightarrow> (\<exists>x. r = Inr (x, db))"
  by (auto simp: written_def bind_res_Inr_iff)

lemma returning_user_Inr [account_simps]:
  "returning_user uid db = Inr (u, db') \<longleftrightarrow> db' = db \<and> user_by_id uid db = Some u"
  by (auto simp: returning_user_def user_by_id_def account_simps split: option.splits)

lemma find_append:
  "List.find P (xs @ ys) = (case List.find P xs of None \<Rightarrow> List.find P ys | Some x \<Rightarrow> Some x)"
  by (induction xs) auto

lemma list_ex_map_same: "(\<And>x. P (f x) = P x) \<Longrightarrow> list_ex P (map f xs) = list_ex P xs"
  by (induction xs) auto

lemma insert_user_sound:
  assumes "accounts_sound db" and "insert_user u db = Inr db'"
  shows "accounts_sound db'"
proof -
  have new: "user_checks u" "us_id u \<notin> us_id ` set (ac_users db)" "us_email u \<notin> us_email ` set (ac_users db)"
    and db': "db' = db\<lparr>ac_users := ac_users db @ [u]\<rparr>" and kept: "factor_kept db' (us_id u)"
    using assms(2) by (auto simp: insert_user_def account_simps list_ex_iff split: if_splits)
  have "find_user db' x = (if x = us_id u \<and> find_user db x = None then Some u else find_user db x)" for x
    by (auto simp: db' find_user_def find_append split: option.splits)
  then have "factor_kept db' x" for x
    using kept assms(1) by (cases "x = us_id u") (auto simp: factor_kept_def accounts_sound_def db' has_passkey_def split: option.splits)
  moreover have "tables_sound db'"
    using assms(1) new by (auto simp: accounts_sound_def tables_sound_def db' list_all_iff)
  ultimately show ?thesis by (simp add: accounts_sound_def)
qed

lemma create_user_sound: "accounts_sound db \<Longrightarrow> create_user uid e h a db = Inr (u, db') \<Longrightarrow> accounts_sound db'"
  by (auto simp: create_user_def bind_res_Inr_iff intro: insert_user_sound)

lemma create_account_sound: "accounts_sound db \<Longrightarrow> create_account uid e h db = Inr (u, db') \<Longrightarrow> accounts_sound db'"
  by (auto simp: create_account_def bind_res_Inr_iff Let_def intro: insert_user_sound split: option.splits)

lemma enable_totp_sound:
  assumes "accounts_sound db" and "enable_totp uid s cs p db = Inr db'"
  shows "accounts_sound db'"
proof -
  let ?f = "\<lambda>u. u\<lparr>us_mfa_secret := Some s, us_mfa_enabled := True,
                 us_is_site_admin := us_is_site_admin u \<or> p,
                 us_pending_site_admin := us_pending_site_admin u \<and> \<not> p\<rparr>"
  obtain found db1 where up: "update_user uid ?f db = Inr (found, db1)"
    and rep: "replace_if_given uid cs db1 = Inr db'" and ok: "found \<Longrightarrow> factor_kept db' uid"
    using assms(2) by (auto simp: enable_totp_def bind_res_Inr_iff account_simps)
  have "factor_kept db1 uid"
    using update_user_find [OF up, of uid] by (auto simp: factor_kept_def split: option.splits)
  then have "accounts_sound db1"
    by (intro update_user_checked [OF assms(1) up]) auto
  then show ?thesis
    using rep by (rule replace_codes_sound)
qed

lemma update_trigger_sound:
  assumes "accounts_sound db" and "update_user uid f db = Inr (found, db')"
    and "\<And>u. us_id (f u) = us_id u" and "\<And>u. us_email (f u) = us_email u"
    and "found \<longrightarrow> factor_kept db' uid \<and> admin_kept db'"
  shows "accounts_sound db'"
  by (rule update_user_checked [OF assms(1,2,3,4)]) (use assms(5) in auto)

lemma drop_codes_sound:
  assumes "accounts_sound db"
  shows "accounts_sound (db\<lparr>ac_codes := filter P (ac_codes db)\<rparr>)"
proof -
  have "factor_kept (db\<lparr>ac_codes := filter P (ac_codes db)\<rparr>) = factor_kept db"
    by (rule factor_kept_cong) (auto simp: find_user_def has_passkey_def fun_eq_iff)
  then show ?thesis
    using assms by (auto simp: accounts_sound_def tables_sound_def distinct_map_filter list_all_iff)
qed

lemma disable_totp_sound:
  assumes "accounts_sound db" and "disable_totp uid db = Inr db'"
  shows "accounts_sound db'"
proof -
  let ?f = "\<lambda>u. u\<lparr>us_mfa_enabled := False, us_mfa_secret := None\<rparr>"
  let ?cut = "\<lambda>db. if has_passkey db uid then db else db\<lparr>ac_codes := filter (\<lambda>c. rc_user c \<noteq> uid) (ac_codes db)\<rparr>"
  obtain found db1 where up: "update_user uid ?f db = Inr (found, db1)"
    and ok: "found \<Longrightarrow> factor_kept (?cut db1) uid" and db': "db' = ?cut db1"
    using assms(2)
    by (auto simp: disable_totp_def bind_res_Inr_iff account_simps Let_def split: sum.splits account_error.splits)
  have "factor_kept (?cut db1) = factor_kept db1"
    by (rule factor_kept_cong) (auto simp: find_user_def has_passkey_def fun_eq_iff)
  then have "accounts_sound db1"
    using ok by (intro update_user_checked [OF assms(1) up]) auto
  then show ?thesis
    using db' by (simp add: drop_codes_sound)
qed

lemma insert_passkey_sound:
  assumes "accounts_sound db" and "insert_passkey k db = Inr db'"
  shows "accounts_sound db'"
proof -
  have new: "0 \<le> pk_sign_count k" "pk_id k \<notin> pk_id ` set (ac_passkeys db)"
      "pk_credential_id k \<notin> pk_credential_id ` set (ac_passkeys db)" "pk_user k \<in> us_id ` set (ac_users db)"
    and db': "db' = db\<lparr>ac_passkeys := ac_passkeys db @ [k]\<rparr>"
    using assms(2) by (auto simp: insert_passkey_def list_ex_iff find_user_None split: if_splits)
  have "factor_kept db x \<Longrightarrow> factor_kept db' x" for x
    by (auto simp: factor_kept_def db' find_user_def has_passkey_def split: option.splits)
  then show ?thesis
    using assms(1) new by (auto simp: accounts_sound_def tables_sound_def db')
qed

lemma add_passkey_sound:
  assumes "accounts_sound db" and "add_webauthn_credential k cs p db = Inr db'"
  shows "accounts_sound db'"
proof -
  let ?f = "\<lambda>u. u\<lparr>us_is_site_admin := True, us_pending_site_admin := False\<rparr>"
  obtain db1 found db2 where ins: "insert_passkey k db = Inr db1"
    and up: "(if p then update_user (pk_user k) ?f db1 else Inr (False, db1)) = Inr (found, db2)"
    and rep: "replace_if_given (pk_user k) cs db2 = Inr db'"
    and ok: "found \<longrightarrow> factor_kept db' (pk_user k) \<and> admin_kept db'"
    using assms(2) by (auto simp: add_webauthn_credential_def bind_res_Inr_iff account_simps)
  have db1: "accounts_sound db1"
    by (rule insert_passkey_sound [OF assms(1) ins])
  have "accounts_sound db2"
  proof (cases p)
    case True
    have "has_passkey db1 (pk_user k)"
      using ins by (auto simp: insert_passkey_def has_passkey_def split: if_splits)
    then have "factor_kept db2 (pk_user k)"
      using up True update_user_frame(8) [of "pk_user k" ?f db1 found db2]
      by (auto simp: factor_kept_def split: option.splits)
    then show ?thesis
      using up True by (intro update_user_checked [OF db1, of "pk_user k" ?f found]) auto
  next
    case False
    then show ?thesis using up db1 by simp
  qed
  then show ?thesis
    using rep by (rule replace_codes_sound)
qed

lemma remove_passkey_sound:
  assumes "accounts_sound db" and "remove_webauthn_credential uid k db = Inr db'"
  shows "accounts_sound db'"
proof -
  let ?hit = "\<lambda>j. pk_id j = k \<and> pk_user j = uid"
  have db': "db' = db\<lparr>ac_passkeys := filter (\<lambda>j. \<not> ?hit j) (ac_passkeys db)\<rparr>" and ok: "factor_kept db' uid"
    using assms(2) by (auto simp: remove_webauthn_credential_def Let_def account_simps split: if_splits)
  have "factor_kept db' x" if "x \<noteq> uid" for x
    using that assms(1)
    by (auto simp: accounts_sound_def factor_kept_def db' find_user_def has_passkey_def list_ex_iff split: option.splits)
  then have "factor_kept db' x" for x
    using ok by (cases "x = uid") auto
  then show ?thesis
    using assms(1) by (auto simp: accounts_sound_def tables_sound_def db' distinct_map_filter list_all_iff)
qed

lemma touch_sound:
  assumes "accounts_sound db"
  shows "accounts_sound (snd (touch_webauthn_credential now k n db))"
proof -
  let ?g = "\<lambda>j. if pk_id j = k \<and> counter_accepts n j
                 then j\<lparr>pk_sign_count := n, pk_last_used_at := Some now\<rparr> else j"
  let ?db = "db\<lparr>ac_passkeys := map ?g (ac_passkeys db)\<rparr>"
  have db: "snd (touch_webauthn_credential now k n db) = ?db"
    by (simp add: touch_webauthn_credential_def Let_def)
  have "has_passkey ?db = has_passkey db"
    by (auto simp: has_passkey_def fun_eq_iff intro!: list_ex_map_same)
  then have factor: "factor_kept ?db = factor_kept db"
    by (intro factor_kept_cong) (simp_all add: find_user_def fun_eq_iff)
  have "map pk_id (map ?g (ac_passkeys db)) = map pk_id (ac_passkeys db)"
      "map pk_credential_id (map ?g (ac_passkeys db)) = map pk_credential_id (ac_passkeys db)"
    by auto
  then have keys: "distinct (map pk_id (map ?g (ac_passkeys db)))"
      "distinct (map pk_credential_id (map ?g (ac_passkeys db)))"
    using assms by (simp_all only: accounts_sound_def tables_sound_def)
  have "list_all (\<lambda>k. pk_user k \<in> us_id ` set (ac_users db) \<and> 0 \<le> pk_sign_count k) (map ?g (ac_passkeys db))"
    using assms by (fastforce simp: accounts_sound_def tables_sound_def list_all_iff counter_accepts_def)
  then show ?thesis
    using assms keys factor db by (simp add: accounts_sound_def tables_sound_def)
qed

lemma consume_code_sound:
  assumes "accounts_sound db"
  shows "accounts_sound (snd (consume_recovery_code now uid h db))"
proof -
  let ?g = "\<lambda>c. if rc_user c = uid \<and> rc_hash c = h \<and> rc_used_at c = None then c\<lparr>rc_used_at := Some now\<rparr> else c"
  let ?db = "db\<lparr>ac_codes := map ?g (ac_codes db)\<rparr>"
  have db: "snd (consume_recovery_code now uid h db) = ?db"
    by (simp add: consume_recovery_code_def Let_def)
  have factor: "factor_kept ?db = factor_kept db"
    by (rule factor_kept_cong) (auto simp: has_passkey_def find_user_def fun_eq_iff)
  have "map (\<lambda>c. (rc_user c, rc_hash c)) (map ?g (ac_codes db)) = map (\<lambda>c. (rc_user c, rc_hash c)) (ac_codes db)"
    by auto
  then have keys: "distinct (map (\<lambda>c. (rc_user c, rc_hash c)) (map ?g (ac_codes db)))"
    using assms by (simp only: accounts_sound_def tables_sound_def)
  have "list_all (\<lambda>c. rc_user c \<in> us_id ` set (ac_users db) \<and> is_token_hash (rc_hash c)) (map ?g (ac_codes db))"
    using assms by (auto simp: accounts_sound_def tables_sound_def list_all_iff)
  then show ?thesis
    using assms keys factor db by (simp add: accounts_sound_def tables_sound_def)
qed

lemma deactivate_sound:
  assumes "accounts_sound db" and "deactivate now uid actor db = Inr (u, db')"
  shows "accounts_sound db'"
proof -
  let ?f = "\<lambda>u. u\<lparr>us_is_active := False,
                 us_deactivated_at := (case us_deactivated_at u of None \<Rightarrow> Some now | Some t \<Rightarrow> Some t),
                 us_deactivated_by := (case us_deactivated_by u of None \<Rightarrow> Some actor | Some who \<Rightarrow> Some who)\<rparr>"
  obtain found where up: "update_user uid ?f db = Inr (found, db')"
    using assms(2) by (auto simp: deactivate_def bind_res_Inr_iff account_simps split: if_splits)
  show ?thesis
    by (rule update_user_quiet [OF assms(1) up]) auto
qed

lemma delete_sound:
  assumes "accounts_sound db" and "delete_if_unused uid db = Inr (b, db')"
  shows "accounts_sound db'"
proof (cases "db' = db")
  case False
  let ?db = "db\<lparr>ac_users := filter (\<lambda>v. us_id v \<noteq> uid) (ac_users db),
                 ac_passkeys := filter (\<lambda>k. pk_user k \<noteq> uid) (ac_passkeys db),
                 ac_codes := filter (\<lambda>c. rc_user c \<noteq> uid) (ac_codes db),
                 ac_members := filter (\<lambda>m. mb_user m \<noteq> uid) (ac_members db)\<rparr>"
  have db': "db' = ?db"
    using assms(2) False
    by (auto simp: delete_if_unused_def Let_def account_simps split: option.splits if_splits)
  have "List.find (\<lambda>u. us_id u = x) (filter (\<lambda>v. us_id v \<noteq> uid) us)
          = (if x = uid then None else List.find (\<lambda>u. us_id u = x) us)" for x and us :: "account_row list"
    by (induction us) auto
  then have "find_user db' x = (if x = uid then None else find_user db x)" for x
    by (simp add: db' find_user_def)
  moreover have "x \<noteq> uid \<Longrightarrow> has_passkey db' x = has_passkey db x" for x
    by (auto simp: db' has_passkey_def list_ex_iff)
  ultimately have "factor_kept db' x" for x
    using assms(1) by (auto simp: accounts_sound_def factor_kept_def split: option.splits)
  then show ?thesis
    using assms(1)
    by (auto simp: accounts_sound_def tables_sound_def db' distinct_map_filter list_all_iff)
qed (use assms(1) in simp)

lemma trigger_op_sound:
  assumes "accounts_sound db" and up: "update_user uid f db = Inr (found, db')"
    and "found \<longrightarrow> factor_kept db' uid \<and> admin_kept db'"
    and "f = (\<lambda>u. u\<lparr>us_is_site_admin := a, us_pending_site_admin := False\<rparr>)"
  shows "accounts_sound db'"
  by (rule update_trigger_sound [OF assms(1,2)]) (use assms(3,4) in auto)

lemma apply_account_sound:
  assumes "accounts_sound db" and "apply_account c db = Inr db'"
  shows "accounts_sound db'"
proof (cases c)
  case (PromoteNow uid)
  then show ?thesis
    using assms trigger_op_sound [OF assms(1), of uid _ _ db' True]
    by (auto simp: promote_now_def bind_res_Inr_iff account_simps)
next
  case (Demote uid)
  then show ?thesis
    using assms trigger_op_sound [OF assms(1), of uid _ _ db' False]
    by (auto simp: demote_def bind_res_Inr_iff account_simps)
next
  case (SetPending uid p)
  then obtain found where "update_user uid (\<lambda>u. u\<lparr>us_pending_site_admin := p\<rparr>) db = Inr (found, db')"
    using assms(2) by (auto simp: set_pending_site_admin_def bind_res_Inr_iff account_simps split: if_splits)
  then show ?thesis
    by (rule update_user_quiet [OF assms(1)]) auto
next
  case (SetPassword uid h)
  then obtain found where "update_user uid (\<lambda>u. u\<lparr>us_password_hash := h\<rparr>) db = Inr (found, db')"
    using assms(2) by (auto simp: set_password_def bind_res_Inr_iff account_simps split: if_splits)
  then show ?thesis
    by (rule update_user_quiet [OF assms(1)]) auto
next
  case (Reactivate uid)
  then obtain found where
    "update_user uid (\<lambda>u. u\<lparr>us_is_active := True, us_deactivated_at := None, us_deactivated_by := None\<rparr>) db
       = Inr (found, db')"
    using assms(2) by (auto simp: reactivate_def bind_res_Inr_iff account_simps)
  then show ?thesis
    by (rule update_user_quiet [OF assms(1)]) auto
qed (use assms in \<open>auto simp: account_simps intro: create_user_sound create_account_sound enable_totp_sound
       disable_totp_sound add_passkey_sound remove_passkey_sound touch_sound consume_code_sound
       deactivate_sound delete_sound\<close>)

lemma attempt_op_sound: "accounts_sound db \<Longrightarrow> accounts_sound (attempt_op c db)"
  using apply_account_sound by (auto simp: attempt_op_def split: sum.splits)

lemma attempts_sound: "accounts_sound db \<Longrightarrow> accounts_sound (foldl (\<lambda>db c. attempt_op c db) db cs)"
  by (induction cs arbitrary: db) (auto simp: attempt_op_sound)

section \<open>Administrators\<close>

lemma update_user_keeps_admin:
  assumes "admin_kept db" and "update_user uid f db = Inr (found, db')"
    and "\<And>u. us_is_site_admin u \<Longrightarrow> us_is_site_admin (f u)" and "\<And>u. us_is_active u \<Longrightarrow> us_is_active (f u)"
  shows "admin_kept db'"
proof -
  obtain u where u: "u \<in> set (ac_users db)" "us_is_site_admin u" "us_is_active u"
    using assms(1) by (auto simp: admin_kept_def list_ex_iff)
  then have "(if us_id u = uid then f u else u) \<in> set (ac_users db') \<or> u \<in> set (ac_users db')"
    using assms(2) by (force simp: update_user_def split: option.splits if_splits)
  then show ?thesis
    using u assms(2,3,4) by (auto simp: admin_kept_def list_ex_iff split: if_splits)
qed

lemma insert_keeps_admin: "admin_kept db \<Longrightarrow> insert_user u db = Inr db' \<Longrightarrow> admin_kept db'"
  by (auto simp: insert_user_def admin_kept_def account_simps list_ex_iff split: if_splits)

lemma replace_keeps_users: "replace_if_given uid hs db = Inr db' \<Longrightarrow> ac_users db' = ac_users db"
  by (auto simp: replace_if_given_def replace_recovery_codes_def bind_res_Inr_iff split: option.splits if_splits)

lemma admin_kept_cong: "ac_users db' = ac_users db \<Longrightarrow> admin_kept db' = admin_kept db"
  by (simp add: admin_kept_def)

lemma update_unfound: "update_user uid f db = Inr (False, db') \<Longrightarrow> db' = db"
  by (auto simp: update_user_def split: option.splits if_splits)

lemma update_checked_admin:
  "admin_kept db \<Longrightarrow> update_user uid f db = Inr (found, db1) \<Longrightarrow> ac_users db' = ac_users db1 \<Longrightarrow>
   (found \<Longrightarrow> admin_kept db') \<Longrightarrow> admin_kept db'"
  using update_unfound [of uid f db db1] admin_kept_cong [of db' db1] by (cases found) auto

lemma add_passkey_keeps_admin:
  assumes "admin_kept db" and "add_webauthn_credential k cs p db = Inr db'"
  shows "admin_kept db'"
proof -
  let ?f = "\<lambda>u. u\<lparr>us_is_site_admin := True, us_pending_site_admin := False\<rparr>"
  obtain db1 found db2 where ins: "insert_passkey k db = Inr db1"
    and up: "(if p then update_user (pk_user k) ?f db1 else Inr (False, db1)) = Inr (found, db2)"
    and rep: "replace_if_given (pk_user k) cs db2 = Inr db'"
    and ok: "found \<longrightarrow> factor_kept db' (pk_user k) \<and> admin_kept db'"
    using assms(2) by (auto simp: add_webauthn_credential_def bind_res_Inr_iff account_simps)
  have "ac_users db1 = ac_users db"
    using ins by (auto simp: insert_passkey_def split: if_splits)
  then have db1: "admin_kept db1"
    using assms(1) admin_kept_cong by blast
  show ?thesis
  proof (cases p)
    case True
    then show ?thesis
      using update_checked_admin [OF db1 _ replace_keeps_users [OF rep]] up ok by auto
  next
    case False
    then show ?thesis
      using up db1 admin_kept_cong [OF replace_keeps_users [OF rep]] by simp
  qed
qed

lemma apply_account_keeps_admin:
  assumes "admin_kept db" and "apply_account c db = Inr db'" and "\<And>uid. c \<noteq> DeleteIfUnused uid"
  shows "admin_kept db'"
proof (cases c)
  case (EnableTotp uid s cs p)
  then obtain f found db1 where "update_user uid f db = Inr (found, db1)"
      and "replace_if_given uid cs db1 = Inr db'" and "found \<longrightarrow> admin_kept db'"
    using assms(2) by (fastforce simp: enable_totp_def bind_res_Inr_iff account_simps)
  then show ?thesis
    using update_checked_admin [OF assms(1)] replace_keeps_users by blast
next
  case (DisableTotp uid)
  then obtain found db1 where up: "update_user uid (\<lambda>u. u\<lparr>us_mfa_enabled := False, us_mfa_secret := None\<rparr>) db = Inr (found, db1)"
      and same: "ac_users db' = ac_users db1"
    using assms(2)
    by (auto simp: disable_totp_def bind_res_Inr_iff account_simps Let_def split: sum.splits account_error.splits)
  have "admin_kept db1"
    by (rule update_user_keeps_admin [OF assms(1) up]) auto
  then show ?thesis
    using admin_kept_cong [OF same] by simp
next
  case (SetPending uid p)
  then obtain found where up: "update_user uid (\<lambda>u. u\<lparr>us_pending_site_admin := p\<rparr>) db = Inr (found, db')"
    using assms(2) by (auto simp: set_pending_site_admin_def bind_res_Inr_iff account_simps split: if_splits)
  show ?thesis
    by (rule update_user_keeps_admin [OF assms(1) up]) auto
next
  case (SetPassword uid h)
  then obtain found where up: "update_user uid (\<lambda>u. u\<lparr>us_password_hash := h\<rparr>) db = Inr (found, db')"
    using assms(2) by (auto simp: set_password_def bind_res_Inr_iff account_simps split: if_splits)
  show ?thesis
    by (rule update_user_keeps_admin [OF assms(1) up]) auto
next
  case (RemovePasskey uid k)
  then have "ac_users db' = ac_users db"
    using assms(2) by (auto simp: remove_webauthn_credential_def Let_def account_simps split: if_splits)
  then show ?thesis using assms(1) admin_kept_cong by blast
next
  case (TouchPasskey now k n)
  then have "ac_users db' = ac_users db"
    using assms(2) by (auto simp: touch_webauthn_credential_def Let_def)
  then show ?thesis using assms(1) admin_kept_cong by blast
next
  case (ConsumeRecoveryCode now uid h)
  then have "ac_users db' = ac_users db"
    using assms(2) by (auto simp: consume_recovery_code_def Let_def)
  then show ?thesis using assms(1) admin_kept_cong by blast
next
  case (PromoteNow uid)
  then show ?thesis
    using assms(1,2) by (auto simp: promote_now_def bind_res_Inr_iff account_simps intro: update_checked_admin)
next
  case (Demote uid)
  then show ?thesis
    using assms(1,2) by (auto simp: demote_def bind_res_Inr_iff account_simps intro: update_checked_admin)
next
  case (Reactivate uid)
  then show ?thesis
    using assms(1,2) by (auto simp: reactivate_def bind_res_Inr_iff account_simps intro: update_checked_admin)
next
  case (Deactivate now uid actor)
  then show ?thesis
    using assms(1,2)
    by (auto simp: deactivate_def bind_res_Inr_iff account_simps intro: update_checked_admin split: if_splits)
qed (use assms in \<open>auto simp: account_simps create_user_def create_account_def bind_res_Inr_iff Let_def
       intro: insert_keeps_admin add_passkey_keeps_admin split: option.splits\<close>)

section \<open>Properties\<close>

definition empty_accounts :: accounts where
  "empty_accounts =
     \<lparr>ac_users = [], ac_passkeys = [], ac_codes = [], ac_teams = [], ac_members = [], ac_invites = [],
      ac_initial = None, ac_history = []\<rparr>"

text \<open>C31: an installation with an active site administrator keeps one through every call except the
  deletion of an account, which no trigger checks.\<close>

theorem active_admin_remains:
  assumes "admin_kept db" and "\<forall>c\<in>set cs. \<forall>uid. c \<noteq> DeleteIfUnused uid"
  shows "admin_kept (foldl (\<lambda>db c. attempt_op c db) db cs)"
  using assms
proof (induction cs arbitrary: db)
  case (Cons c cs)
  have "admin_kept (attempt_op c db)"
    using apply_account_keeps_admin [OF Cons.prems(1), of c] Cons.prems by (auto simp: attempt_op_def split: sum.splits)
  then show ?case using Cons by simp
qed simp

definition admin_row :: "uuid \<Rightarrow> pystr \<Rightarrow> account_row" where
  "admin_row uid email =
     (new_user uid email ''argon'' True)\<lparr>us_mfa_secret := Some \<lparr>ps_ciphertext = ''c'', ps_wrapped_data_key = ''w'', ps_master_key_version = ''1''\<rparr>,
        us_mfa_enabled := True\<rparr>"

definition two_admins :: accounts where
  "two_admins = empty_accounts\<lparr>ac_users := [admin_row 1 ''ana@x.pe'', admin_row 2 ''luis@x.pe'']\<rparr>"

theorem active_admin_remains_witness:
  "admin_kept (foldl (\<lambda>db c. attempt_op c db) two_admins [Demote 1, Deactivate 9 2 1, Demote 2, DisableTotp 2])
   \<and> map us_is_site_admin (ac_users (foldl (\<lambda>db c. attempt_op c db) two_admins [Demote 1, Deactivate 9 2 1, Demote 2, DisableTotp 2]))
       = [False, True]"
proof
  have "admin_kept two_admins"
    by code_simp
  then show "admin_kept (foldl (\<lambda>db c. attempt_op c db) two_admins [Demote 1, Deactivate 9 2 1, Demote 2, DisableTotp 2])"
    using active_admin_remains [of two_admins "[Demote 1, Deactivate 9 2 1, Demote 2, DisableTotp 2]"] by simp
  show "map us_is_site_admin (ac_users (foldl (\<lambda>db c. attempt_op c db) two_admins [Demote 1, Deactivate 9 2 1, Demote 2, DisableTotp 2]))
       = [False, True]"
    by code_simp
qed

text \<open>A new account has no factor yet, so the trigger refuses to create it as an administrator.\<close>

lemma create_admin_refused:
  assumes "accounts_sound db"
  shows "create_user uid email h True db \<noteq> Inr r"
proof
  assume "create_user uid email h True db = Inr r"
  then obtain db' where ins: "insert_user (new_user uid email h True) db = Inr db'"
    by (auto simp: create_user_def bind_res_Inr_iff)
  then have new: "uid \<notin> us_id ` set (ac_users db)" and db': "db' = db\<lparr>ac_users := ac_users db @ [new_user uid email h True]\<rparr>"
    and kept: "factor_kept db' uid"
    by (auto simp: insert_user_def account_simps list_ex_iff new_user_def split: if_splits)
  have "find_user db uid = None"
    using new by (simp add: find_user_None)
  then have "find_user db' uid = Some (new_user uid email h True)"
    by (simp add: db' find_user_def find_append new_user_def)
  moreover have "\<not> has_passkey db' uid"
    using assms new by (auto simp: accounts_sound_def tables_sound_def db' has_passkey_def list_all_iff list_ex_iff)
  ultimately show False
    using kept by (simp add: factor_kept_def new_user_def)
qed

text \<open>A recovery code is spent once, and a counter a passkey has shown is not accepted again.\<close>

lemma list_ex_map: "list_ex P (map f xs) = list_ex (\<lambda>x. P (f x)) xs"
  by (induction xs) auto

lemma list_ex_cases: "list_ex P xs \<Longrightarrow> (\<And>x. x \<in> set xs \<Longrightarrow> P x \<Longrightarrow> Q) \<Longrightarrow> Q"
  by (auto simp: list_ex_iff)

lemma recovery_code_spent:
  "\<not> fst (consume_recovery_code now' uid h (snd (consume_recovery_code now uid h db)))"
  by (auto simp: consume_recovery_code_def Let_def list_ex_map elim!: list_ex_cases split: if_splits)

lemma passkey_counter_spent:
  assumes "0 < n" and "m \<le> n" and "distinct (map pk_id (ac_passkeys db))"
    and "fst (touch_webauthn_credential now k n db)"
  shows "\<not> fst (touch_webauthn_credential now' k m (snd (touch_webauthn_credential now k n db)))"
proof
  assume "fst (touch_webauthn_credential now' k m (snd (touch_webauthn_credential now k n db)))"
  then obtain i where i: "i \<in> set (ac_passkeys db)" "pk_id i = k"
    and again: "counter_accepts m
      (if pk_id i = k \<and> counter_accepts n i then i\<lparr>pk_sign_count := n, pk_last_used_at := Some now\<rparr> else i)"
    by (auto simp: touch_webauthn_credential_def Let_def list_ex_map elim!: list_ex_cases split: if_splits)
  obtain j where j: "j \<in> set (ac_passkeys db)" "pk_id j = k" "counter_accepts n j"
    using assms(4) by (auto simp: touch_webauthn_credential_def Let_def elim!: list_ex_cases)
  have "i = j"
    using assms(3) i j(1,2) by (auto simp: distinct_map inj_on_def)
  then show False
    using again j(2,3) assms(1,2) by (simp add: counter_accepts_def)
qed

end
