(* ===== verification/Teams.thy ===== *)
theory Teams
  imports Accounts
begin

text \<open>
  Teams, memberships and invitations (\<open>portal/repository/teams.py\<close>), on the tables of
  \<open>Accounts\<close>, with the trigger that keeps a leader in every team. Lists the database orders by a
  text column are ordered by code points here; the collation of the server is not modelled.
\<close>

section \<open>Rows\<close>

record team =
  te_id :: uuid
  te_slug :: pystr
  te_name :: pystr
  te_role :: "team_role option"
  te_has_global_search :: bool

definition team_row :: "team_entry \<Rightarrow> team" where
  "team_row r =
     \<lparr>te_id = tm_id r, te_slug = tm_slug r, te_name = tm_name r, te_role = None,
      te_has_global_search = tm_has_global_search r\<rparr>"

definition find_team :: "accounts \<Rightarrow> uuid \<Rightarrow> team_entry option" where
  "find_team db tid = List.find (\<lambda>t. tm_id t = tid) (ac_teams db)"

definition role_for :: "uuid \<Rightarrow> uuid \<Rightarrow> accounts \<Rightarrow> team_role option" where
  "role_for actor_id team_id db =
     map_option mb_role (List.find (\<lambda>m. mb_team m = team_id \<and> mb_user m = actor_id) (ac_members db))"

text \<open>The join of the teams with the memberships of one user, by team name.\<close>

definition memberships_of :: "uuid \<Rightarrow> accounts \<Rightarrow> (team_entry \<times> team_role) list" where
  "memberships_of uid db =
     sort_key (\<lambda>(t, _). tm_name t)
       (concat (map (\<lambda>t. map (\<lambda>m. (t, mb_role m))
           (filter (\<lambda>m. mb_team m = tm_id t \<and> mb_user m = uid) (ac_members db))) (ac_teams db)))"

definition teams_for_user :: "uuid \<Rightarrow> accounts \<Rightarrow> team list" where
  "teams_for_user uid db = map (\<lambda>(t, r). (team_row t)\<lparr>te_role := Some r\<rparr>) (memberships_of uid db)"

definition teams_for_user_detail :: "uuid \<Rightarrow> accounts \<Rightarrow> team list" where
  "teams_for_user_detail uid db =
     map (\<lambda>(t, r). \<lparr>te_id = tm_id t, te_slug = tm_slug t, te_name = tm_name t, te_role = Some r,
                     te_has_global_search = False\<rparr>) (memberships_of uid db)"

definition team_by_id :: "uuid \<Rightarrow> accounts \<Rightarrow> team option" where
  "team_by_id tid db = map_option team_row (find_team db tid)"

definition team_by_slug :: "pystr \<Rightarrow> accounts \<Rightarrow> team option" where
  "team_by_slug slug db = map_option team_row (List.find (\<lambda>t. tm_slug t = slug) (ac_teams db))"

definition all_teams :: "accounts \<Rightarrow> team list" where
  "all_teams db = map team_row (sort_key tm_name (ac_teams db))"

definition set_global_search :: "uuid \<Rightarrow> bool \<Rightarrow> accounts \<Rightarrow> accounts" where
  "set_global_search tid enabled db =
     db\<lparr>ac_teams := map (\<lambda>t. if tm_id t = tid then t\<lparr>tm_has_global_search := enabled\<rparr> else t) (ac_teams db)\<rparr>"

definition any_team_has_global_search :: "uuid \<Rightarrow> accounts \<Rightarrow> bool" where
  "any_team_has_global_search uid db = list_ex (\<lambda>(t, _). tm_has_global_search t) (memberships_of uid db)"

definition all_users :: "accounts \<Rightarrow> portal_user list" where
  "all_users db = map (user_row db) (sort_key us_email (ac_users db))"

definition leader_count :: "uuid \<Rightarrow> accounts \<Rightarrow> nat" where
  "leader_count tid db = length (filter (\<lambda>m. mb_team m = tid \<and> mb_role m = TEAM_LEADER) (ac_members db))"

definition teams_where_sole_leader :: "uuid \<Rightarrow> accounts \<Rightarrow> team list" where
  "teams_where_sole_leader uid db =
     map (\<lambda>(t, _). team_row t)
       (filter (\<lambda>(t, r). r = TEAM_LEADER \<and> leader_count (tm_id t) db \<le> 1) (memberships_of uid db))"

definition is_site_admin :: "uuid \<Rightarrow> accounts \<Rightarrow> bool" where
  "is_site_admin uid db =
     (case find_user db uid of Some u \<Rightarrow> us_is_active u \<and> us_is_site_admin u | None \<Rightarrow> False)"

definition installation_status :: "accounts \<Rightarrow> nat \<times> uuid option" where
  "installation_status db = (length (ac_teams db), map_option fst (ac_initial db))"

definition members_for_team :: "uuid \<Rightarrow> accounts \<Rightarrow> (portal_user \<times> team_role) list" where
  "members_for_team tid db =
     sort_key (\<lambda>(u, _). pu_email u)
       (concat (map (\<lambda>m. map (\<lambda>u. (user_row db u, mb_role m)) (filter (\<lambda>u. us_id u = mb_user m) (ac_users db)))
          (filter (\<lambda>m. mb_team m = tid) (ac_members db))))"

section \<open>Writing\<close>

definition slug_char :: "char \<Rightarrow> bool" where
  "slug_char c \<longleftrightarrow> is_decimal_char c \<or> (97 \<le> code_point c \<and> code_point c \<le> 122)"

text \<open>The pattern \<open>[a-z0-9][a-z0-9-]{1,62}\<close> on the whole text.\<close>

definition slug_ok :: "pystr \<Rightarrow> bool" where
  "slug_ok s \<longleftrightarrow>
     (case s of
        [] \<Rightarrow> False
      | c # r \<Rightarrow> slug_char c \<and> 1 \<le> length r \<and> length r \<le> 62 \<and> list_all (\<lambda>d. slug_char d \<or> d = CHR ''-'') r)"

definition insert_team :: "team_entry \<Rightarrow> accounts \<Rightarrow> account_error + accounts" where
  "insert_team t db =
     (if \<not> slug_ok (tm_slug t) \<or> pg_trim (tm_name t) = [] then Inl CheckViolation
      else if list_ex (\<lambda>r. tm_id r = tm_id t \<or> tm_slug r = tm_slug t) (ac_teams db) then Inl UniqueViolation
      else if find_user db (tm_created_by t) = None then Inl ForeignKeyViolation
      else Inr (db\<lparr>ac_teams := ac_teams db @ [t]\<rparr>))"

definition insert_member :: "membership \<Rightarrow> accounts \<Rightarrow> account_error + accounts" where
  "insert_member m db =
     (if list_ex (\<lambda>r. mb_team r = mb_team m \<and> mb_user r = mb_user m) (ac_members db) then Inl UniqueViolation
      else if find_team db (mb_team m) = None \<or> find_user db (mb_user m) = None then Inl ForeignKeyViolation
      else Inr (db\<lparr>ac_members := ac_members db @ [m]\<rparr>))"

definition create_team :: "uuid \<Rightarrow> pystr \<Rightarrow> pystr \<Rightarrow> uuid \<Rightarrow> uuid \<Rightarrow> accounts \<Rightarrow> account_error + (team \<times> accounts)" where
  "create_team tid slug name created_by leader_id db =
     (let t = \<lparr>tm_id = tid, tm_slug = slug, tm_name = name, tm_created_by = created_by, tm_has_global_search = False\<rparr>
      in bind_res (insert_team t db) (\<lambda>db.
         bind_res (insert_member \<lparr>mb_team = tid, mb_user = leader_id, mb_role = TEAM_LEADER\<rparr> db) (\<lambda>db.
         bind_res (commit_if (leader_kept db tid) db) (\<lambda>db. Inr (team_row t, db)))))"

definition create_first_team :: "uuid \<Rightarrow> pystr \<Rightarrow> pystr \<Rightarrow> uuid \<Rightarrow> accounts \<Rightarrow> account_error + (team \<times> accounts)" where
  "create_first_team tid slug name actor_id db =
     (if ac_initial db \<noteq> None \<or> ac_teams db \<noteq> [] then refuse ProvisioningError INITIAL_TEAM_EXISTS
      else bind_res (create_team tid slug name actor_id actor_id db) (\<lambda>(t, db).
             Inr (t, db\<lparr>ac_initial := Some (tid, actor_id)\<rparr>)))"

text \<open>\<open>lock_team_row\<close> and the membership the caller locks next.\<close>

definition locked_role :: "uuid \<Rightarrow> uuid \<Rightarrow> accounts \<Rightarrow> account_error + team_role option" where
  "locked_role tid uid db =
     (if find_team db tid = None then refuse NotFound TEAM_MISSING else Inr (role_for uid tid db))"

definition check_not_last_leader :: "uuid \<Rightarrow> accounts \<Rightarrow> account_error + unit" where
  "check_not_last_leader tid db =
     (if leader_count tid db \<le> 1 then refuse ProvisioningError LAST_LEADER else Inr ())"

definition upsert_member :: "uuid \<Rightarrow> uuid \<Rightarrow> team_role \<Rightarrow> accounts \<Rightarrow> account_error + accounts" where
  "upsert_member tid uid role db =
     (if role_for uid tid db = None
      then insert_member \<lparr>mb_team = tid, mb_user = uid, mb_role = role\<rparr> db
      else Inr (db\<lparr>ac_members :=
             map (\<lambda>m. if mb_team m = tid \<and> mb_user m = uid then m\<lparr>mb_role := role\<rparr> else m) (ac_members db)\<rparr>))"

definition add_member :: "uuid \<Rightarrow> uuid \<Rightarrow> team_role \<Rightarrow> accounts \<Rightarrow> account_error + accounts" where
  "add_member tid uid role db =
     bind_res (locked_role tid uid db) (\<lambda>current.
     bind_res (if current = Some TEAM_LEADER \<and> role \<noteq> TEAM_LEADER then check_not_last_leader tid db else Inr ()) (\<lambda>_.
     bind_res (upsert_member tid uid role db) (\<lambda>db.
     commit_if (leader_kept db tid) db)))"

definition remove_member :: "uuid \<Rightarrow> uuid \<Rightarrow> accounts \<Rightarrow> account_error + accounts" where
  "remove_member tid uid db =
     bind_res (locked_role tid uid db) (\<lambda>current.
     bind_res (if current = Some TEAM_LEADER then check_not_last_leader tid db else Inr ()) (\<lambda>_.
     let db' = db\<lparr>ac_members := filter (\<lambda>m. \<not> (mb_team m = tid \<and> mb_user m = uid)) (ac_members db)\<rparr>
     in commit_if (current \<noteq> None \<longrightarrow> leader_kept db' tid) db'))"

section \<open>Invitations\<close>

text \<open>
  A repeated invitation of an address replaces the row of the team, token included. The checks of
  the row come first, then its keys.
\<close>

definition create_invite :: "seconds \<Rightarrow> invite \<Rightarrow> accounts \<Rightarrow> account_error + (invite \<times> accounts)" where
  "create_invite now i db =
     (let new = i\<lparr>iv_created_at := now, iv_accepted_at := None\<rparr>;
          same = (\<lambda>r. iv_team r = iv_team i \<and> iv_email r = iv_email i)
      in if py_lower (iv_email i) \<noteq> iv_email i \<or> \<not> is_token_hash (iv_token_hash i) then Inl CheckViolation
         else if list_ex (\<lambda>r. \<not> same r \<and> (iv_id r = iv_id i \<or> iv_token_hash r = iv_token_hash i)) (ac_invites db)
           then Inl UniqueViolation
         else if find_team db (iv_team i) = None \<or> find_user db (iv_invited_by i) = None
           then Inl ForeignKeyViolation
         else Inr (new, db\<lparr>ac_invites :=
                (if list_ex same (ac_invites db)
                 then map (\<lambda>r. if same r then new else r) (ac_invites db)
                 else ac_invites db @ [new])\<rparr>))"

definition invite_by_token_hash :: "pystr \<Rightarrow> accounts \<Rightarrow> invite option" where
  "invite_by_token_hash h db = List.find (\<lambda>i. iv_token_hash i = h) (ac_invites db)"

definition pending_invites_for_team :: "uuid \<Rightarrow> accounts \<Rightarrow> invite list" where
  "pending_invites_for_team tid db =
     sort_key iv_created_at (filter (\<lambda>i. iv_team i = tid \<and> iv_accepted_at i = None) (ac_invites db))"

definition delete_invite :: "uuid \<Rightarrow> uuid \<Rightarrow> accounts \<Rightarrow> accounts" where
  "delete_invite tid iid db =
     db\<lparr>ac_invites := filter (\<lambda>i. \<not> (iv_id i = iid \<and> iv_team i = tid)) (ac_invites db)\<rparr>"

definition mark_invite_accepted :: "seconds \<Rightarrow> uuid \<Rightarrow> accounts \<Rightarrow> accounts" where
  "mark_invite_accepted now iid db =
     db\<lparr>ac_invites := map (\<lambda>i. if iv_id i = iid then i\<lparr>iv_accepted_at := Some now\<rparr> else i) (ac_invites db)\<rparr>"

section \<open>What every commit keeps\<close>

definition teams_sound :: "accounts \<Rightarrow> bool" where
  "teams_sound db \<longleftrightarrow>
     distinct (map tm_id (ac_teams db)) \<and> distinct (map tm_slug (ac_teams db))
     \<and> distinct (map (\<lambda>m. (mb_team m, mb_user m)) (ac_members db))
     \<and> list_all (\<lambda>m. mb_team m \<in> tm_id ` set (ac_teams db) \<and> mb_user m \<in> us_id ` set (ac_users db)) (ac_members db)
     \<and> list_all (\<lambda>t. team_has_leader db (tm_id t)) (ac_teams db)
     \<and> distinct (map (\<lambda>i. (iv_team i, iv_email i)) (ac_invites db))"

datatype team_op =
    CreateTeam uuid pystr pystr uuid uuid
  | CreateFirstTeam uuid pystr pystr uuid
  | AddMember uuid uuid team_role
  | RemoveMember uuid uuid
  | SetGlobalSearch uuid bool
  | CreateInvite seconds invite
  | DeleteInvite uuid uuid
  | MarkInviteAccepted seconds uuid

fun apply_team :: "team_op \<Rightarrow> accounts \<Rightarrow> account_error + accounts" where
  "apply_team (CreateTeam tid slug name by_id leader) db = written (create_team tid slug name by_id leader db)"
| "apply_team (CreateFirstTeam tid slug name actor) db = written (create_first_team tid slug name actor db)"
| "apply_team (AddMember tid uid role) db = add_member tid uid role db"
| "apply_team (RemoveMember tid uid) db = remove_member tid uid db"
| "apply_team (SetGlobalSearch tid b) db = Inr (set_global_search tid b db)"
| "apply_team (CreateInvite now i) db = written (create_invite now i db)"
| "apply_team (DeleteInvite tid iid) db = Inr (delete_invite tid iid db)"
| "apply_team (MarkInviteAccepted now iid) db = Inr (mark_invite_accepted now iid db)"

datatype portal_op = AccountOp account_op | TeamOp team_op

fun apply_portal :: "portal_op \<Rightarrow> accounts \<Rightarrow> account_error + accounts" where
  "apply_portal (AccountOp c) db = apply_account c db"
| "apply_portal (TeamOp c) db = apply_team c db"

definition attempt_portal :: "portal_op \<Rightarrow> accounts \<Rightarrow> accounts" where
  "attempt_portal c db = (case apply_portal c db of Inr db' \<Rightarrow> db' | Inl _ \<Rightarrow> db)"

definition portal_sound :: "accounts \<Rightarrow> bool" where
  "portal_sound db \<longleftrightarrow> accounts_sound db \<and> teams_sound db"

lemma accounts_sound_cong:
  assumes "ac_users db' = ac_users db" "ac_passkeys db' = ac_passkeys db" "ac_codes db' = ac_codes db"
  shows "accounts_sound db' = accounts_sound db"
proof -
  have "factor_kept db' = factor_kept db"
    by (rule factor_kept_cong) (simp_all add: assms find_user_def has_passkey_def fun_eq_iff)
  then show ?thesis
    by (simp add: accounts_sound_def tables_sound_def assms)
qed

lemma insert_team_Inr [account_simps]:
  "insert_team t db = Inr db' \<longleftrightarrow>
     slug_ok (tm_slug t) \<and> pg_trim (tm_name t) \<noteq> [] \<and> tm_id t \<notin> tm_id ` set (ac_teams db)
     \<and> tm_slug t \<notin> tm_slug ` set (ac_teams db) \<and> find_user db (tm_created_by t) \<noteq> None
     \<and> db' = db\<lparr>ac_teams := ac_teams db @ [t]\<rparr>"
  by (auto simp: insert_team_def list_ex_iff image_iff) metis+

lemma find_team_None: "find_team db tid = None \<longleftrightarrow> tid \<notin> tm_id ` set (ac_teams db)"
  by (auto simp: find_team_def find_None_iff)

lemma insert_member_Inr [account_simps]:
  "insert_member m db = Inr db' \<longleftrightarrow>
     (mb_team m, mb_user m) \<notin> (\<lambda>m. (mb_team m, mb_user m)) ` set (ac_members db)
     \<and> mb_team m \<in> tm_id ` set (ac_teams db) \<and> mb_user m \<in> us_id ` set (ac_users db)
     \<and> db' = db\<lparr>ac_members := ac_members db @ [m]\<rparr>"
  by (auto simp: insert_member_def list_ex_iff find_team_None find_user_None image_iff) metis+

lemma create_team_sound:
  assumes "teams_sound db" and "create_team tid slug name by_id leader db = Inr (t, db')"
  shows "teams_sound db'" "ac_users db' = ac_users db" "ac_passkeys db' = ac_passkeys db" "ac_codes db' = ac_codes db"
proof -
  let ?t = "\<lparr>tm_id = tid, tm_slug = slug, tm_name = name, tm_created_by = by_id, tm_has_global_search = False\<rparr>"
  let ?m = "\<lparr>mb_team = tid, mb_user = leader, mb_role = TEAM_LEADER\<rparr>"
  obtain db1 where it: "insert_team ?t db = Inr db1" and im: "insert_member ?m db1 = Inr db'"
    using assms(2) by (auto simp: create_team_def Let_def bind_res_Inr_iff commit_if_Inr)
  have db1: "db1 = db\<lparr>ac_teams := ac_teams db @ [?t]\<rparr>" and db': "db' = db1\<lparr>ac_members := ac_members db1 @ [?m]\<rparr>"
    using it im by (simp_all add: account_simps)
  show "ac_users db' = ac_users db" "ac_passkeys db' = ac_passkeys db" "ac_codes db' = ac_codes db"
    by (simp_all add: db1 db')
  show "teams_sound db'"
    using assms(1) it im unfolding db1 db'
    by (auto simp: account_simps teams_sound_def team_has_leader_def list_all_iff list_ex_iff)
qed

lemma locked_role_Inr [account_simps]:
  "locked_role tid uid db = Inr r \<longleftrightarrow> tid \<in> tm_id ` set (ac_teams db) \<and> r = role_for uid tid db"
  by (auto simp: locked_role_def account_simps find_team_None)

lemma role_for_None:
  "role_for uid tid db = None \<longleftrightarrow> (tid, uid) \<notin> (\<lambda>m. (mb_team m, mb_user m)) ` set (ac_members db)"
  by (auto simp: role_for_def find_None_iff)

lemma leaders_elsewhere:
  assumes "teams_sound db" and "ac_teams db' = ac_teams db" and "leader_kept db' tid"
    and "\<And>m. mb_team m \<noteq> tid \<Longrightarrow> m \<in> set (ac_members db) \<Longrightarrow> m \<in> set (ac_members db')"
  shows "list_all (\<lambda>t. team_has_leader db' (tm_id t)) (ac_teams db')"
proof -
  have "team_has_leader db' (tm_id t)" if "t \<in> set (ac_teams db)" for t
  proof (cases "tm_id t = tid")
    case True
    then show ?thesis
      using that assms(2,3) by (auto simp: leader_kept_def list_ex_iff)
  next
    case False
    have "team_has_leader db (tm_id t)"
      using assms(1) that by (auto simp: teams_sound_def list_all_iff)
    then show ?thesis
      using False assms(4) by (fastforce simp: team_has_leader_def list_ex_iff)
  qed
  then show ?thesis
    using assms(2) by (simp add: list_all_iff)
qed

lemma upsert_frame:
  assumes "upsert_member tid uid role db = Inr db'"
  shows "ac_users db' = ac_users db" "ac_passkeys db' = ac_passkeys db" "ac_codes db' = ac_codes db"
    "ac_teams db' = ac_teams db" "ac_invites db' = ac_invites db"
  using assms by (auto simp: upsert_member_def account_simps split: if_splits)

lemma upsert_members:
  assumes "teams_sound db" and "upsert_member tid uid role db = Inr db'"
  shows "distinct (map (\<lambda>m. (mb_team m, mb_user m)) (ac_members db'))"
    and "list_all (\<lambda>m. mb_team m \<in> tm_id ` set (ac_teams db) \<and> mb_user m \<in> us_id ` set (ac_users db)) (ac_members db')"
    and "\<And>m. mb_team m \<noteq> tid \<Longrightarrow> m \<in> set (ac_members db) \<Longrightarrow> m \<in> set (ac_members db')"
proof -
  let ?g = "\<lambda>m. if mb_team m = tid \<and> mb_user m = uid then m\<lparr>mb_role := role\<rparr> else m"
  have old: "distinct (map (\<lambda>m. (mb_team m, mb_user m)) (ac_members db))"
    "list_all (\<lambda>m. mb_team m \<in> tm_id ` set (ac_teams db) \<and> mb_user m \<in> us_id ` set (ac_users db)) (ac_members db)"
    using assms(1) by (simp_all add: teams_sound_def)
  have "distinct (map (\<lambda>m. (mb_team m, mb_user m)) (ac_members db'))
      \<and> list_all (\<lambda>m. mb_team m \<in> tm_id ` set (ac_teams db) \<and> mb_user m \<in> us_id ` set (ac_users db)) (ac_members db')
      \<and> (\<forall>m. mb_team m \<noteq> tid \<longrightarrow> m \<in> set (ac_members db) \<longrightarrow> m \<in> set (ac_members db'))"
  proof (cases "role_for uid tid db = None")
    case True
    then show ?thesis
      using assms(2) old by (auto simp: upsert_member_def account_simps)
  next
    case False
    then have db': "ac_members db' = map ?g (ac_members db)"
      using assms(2) by (auto simp: upsert_member_def)
    have "map (\<lambda>m. (mb_team m, mb_user m)) (map ?g (ac_members db)) = map (\<lambda>m. (mb_team m, mb_user m)) (ac_members db)"
      by auto
    then have "distinct (map (\<lambda>m. (mb_team m, mb_user m)) (ac_members db'))"
      using old(1) db' by (simp only:)
    then show ?thesis
      using old(2) db' by (auto simp: list_all_iff image_iff)
  qed
  then show "distinct (map (\<lambda>m. (mb_team m, mb_user m)) (ac_members db'))"
    and "list_all (\<lambda>m. mb_team m \<in> tm_id ` set (ac_teams db) \<and> mb_user m \<in> us_id ` set (ac_users db)) (ac_members db')"
    and "\<And>m. mb_team m \<noteq> tid \<Longrightarrow> m \<in> set (ac_members db) \<Longrightarrow> m \<in> set (ac_members db')"
    by blast+
qed

lemma add_member_sound:
  assumes "teams_sound db" and "add_member tid uid role db = Inr db'"
  shows "teams_sound db'" "ac_users db' = ac_users db" "ac_passkeys db' = ac_passkeys db" "ac_codes db' = ac_codes db"
proof -
  have up: "upsert_member tid uid role db = Inr db'" and kept: "leader_kept db' tid"
    using assms(2) by (auto simp: add_member_def bind_res_Inr_iff commit_if_Inr)
  note frame = upsert_frame [OF up]
  show "ac_users db' = ac_users db" "ac_passkeys db' = ac_passkeys db" "ac_codes db' = ac_codes db"
    by (rule frame)+
  show "teams_sound db'"
    using upsert_members [OF assms(1) up] leaders_elsewhere [OF assms(1) frame(4) kept] assms(1) frame
    by (auto simp: teams_sound_def)
qed

lemma remove_member_sound:
  assumes "teams_sound db" and "remove_member tid uid db = Inr db'"
  shows "teams_sound db'" "ac_users db' = ac_users db" "ac_passkeys db' = ac_passkeys db" "ac_codes db' = ac_codes db"
proof -
  let ?keep = "\<lambda>m. \<not> (mb_team m = tid \<and> mb_user m = uid)"
  have db': "db' = db\<lparr>ac_members := filter ?keep (ac_members db)\<rparr>"
    and kept: "role_for uid tid db \<noteq> None \<longrightarrow> leader_kept db' tid"
    using assms(2) by (auto simp: remove_member_def bind_res_Inr_iff account_simps Let_def)
  show "ac_users db' = ac_users db" "ac_passkeys db' = ac_passkeys db" "ac_codes db' = ac_codes db"
    by (simp_all add: db')
  show "teams_sound db'"
  proof (cases "role_for uid tid db")
    case None
    then have "filter ?keep (ac_members db) = ac_members db"
      by (auto simp: role_for_None filter_id_conv)
    then show ?thesis using assms(1) db' by simp
  next
    case (Some r)
    have "list_all (\<lambda>t. team_has_leader db' (tm_id t)) (ac_teams db')"
      by (rule leaders_elsewhere [OF assms(1)]) (use kept Some db' in auto)
    then show ?thesis
      using assms(1) by (auto simp: teams_sound_def db' distinct_map_filter list_all_iff)
  qed
qed

lemma teams_sound_frame:
  assumes "teams_sound db" and "ac_teams db' = ac_teams db" and "ac_members db' = ac_members db"
    and "ac_invites db' = ac_invites db" and "us_id ` set (ac_users db) \<subseteq> us_id ` set (ac_users db')"
  shows "teams_sound db'"
  using assms by (auto simp: teams_sound_def team_has_leader_def list_all_iff)

lemma set_global_sound:
  assumes "teams_sound db"
  shows "teams_sound (set_global_search tid b db)"
proof -
  let ?g = "\<lambda>t. if tm_id t = tid then t\<lparr>tm_has_global_search := b\<rparr> else t"
  have ids: "map tm_id (map ?g (ac_teams db)) = map tm_id (ac_teams db)"
    and slugs: "map tm_slug (map ?g (ac_teams db)) = map tm_slug (ac_teams db)"
    by auto
  have "distinct (map tm_id (map ?g (ac_teams db)))" "distinct (map tm_slug (map ?g (ac_teams db)))"
    using assms unfolding ids slugs by (simp_all add: teams_sound_def)
  moreover have "tm_id ` set (map ?g (ac_teams db)) = tm_id ` set (ac_teams db)"
    by (metis ids set_map)
  moreover have "list_all (\<lambda>t. team_has_leader (set_global_search tid b db) (tm_id t)) (map ?g (ac_teams db))"
    using assms by (auto simp: teams_sound_def list_all_iff team_has_leader_def set_global_search_def)
  ultimately show ?thesis
    using assms by (simp add: teams_sound_def set_global_search_def)
qed

lemma invites_sound:
  assumes "teams_sound db" and "distinct (map (\<lambda>i. (iv_team i, iv_email i)) is)"
  shows "teams_sound (db\<lparr>ac_invites := is\<rparr>)"
  using assms by (simp add: teams_sound_def team_has_leader_def)

lemma create_invite_sound:
  assumes "teams_sound db" and "create_invite now i db = Inr (j, db')"
  shows "teams_sound db'" "ac_users db' = ac_users db" "ac_passkeys db' = ac_passkeys db" "ac_codes db' = ac_codes db"
proof -
  let ?new = "i\<lparr>iv_created_at := now, iv_accepted_at := None\<rparr>"
  let ?same = "\<lambda>r. iv_team r = iv_team i \<and> iv_email r = iv_email i"
  let ?is = "if list_ex ?same (ac_invites db) then map (\<lambda>r. if ?same r then ?new else r) (ac_invites db)
             else ac_invites db @ [?new]"
  have db': "db' = db\<lparr>ac_invites := ?is\<rparr>"
    using assms(2) by (auto simp: create_invite_def Let_def split: if_splits)
  show "ac_users db' = ac_users db" "ac_passkeys db' = ac_passkeys db" "ac_codes db' = ac_codes db"
    by (simp_all add: db')
  have old: "distinct (map (\<lambda>i. (iv_team i, iv_email i)) (ac_invites db))"
    using assms(1) by (simp add: teams_sound_def)
  have "distinct (map (\<lambda>i. (iv_team i, iv_email i)) ?is)"
  proof (cases "list_ex ?same (ac_invites db)")
    case True
    have "map (\<lambda>i. (iv_team i, iv_email i)) (map (\<lambda>r. if ?same r then ?new else r) (ac_invites db))
          = map (\<lambda>i. (iv_team i, iv_email i)) (ac_invites db)"
      by auto
    then have "distinct (map (\<lambda>i. (iv_team i, iv_email i)) (map (\<lambda>r. if ?same r then ?new else r) (ac_invites db)))"
      using old by (simp only:)
    then show ?thesis using True by (simp only: if_True)
  next
    case False
    then have "(iv_team i, iv_email i) \<notin> (\<lambda>i. (iv_team i, iv_email i)) ` set (ac_invites db)"
      by (auto simp: list_ex_iff image_iff)
    then show ?thesis using False old by simp
  qed
  then show "teams_sound db'"
    unfolding db' by (rule invites_sound [OF assms(1)])
qed

lemma mark_accepted_sound:
  assumes "teams_sound db"
  shows "teams_sound (mark_invite_accepted now iid db)"
proof -
  let ?g = "\<lambda>i. if iv_id i = iid then i\<lparr>iv_accepted_at := Some now\<rparr> else i"
  have "map (\<lambda>i. (iv_team i, iv_email i)) (map ?g (ac_invites db)) = map (\<lambda>i. (iv_team i, iv_email i)) (ac_invites db)"
    by auto
  then have "distinct (map (\<lambda>i. (iv_team i, iv_email i)) (map ?g (ac_invites db)))"
    using assms by (simp only: teams_sound_def)
  then show ?thesis
    unfolding mark_invite_accepted_def by (rule invites_sound [OF assms])
qed

lemma create_first_team_sound:
  assumes "teams_sound db" and "create_first_team tid slug name actor db = Inr (t, db')"
  shows "teams_sound db'" "ac_users db' = ac_users db" "ac_passkeys db' = ac_passkeys db" "ac_codes db' = ac_codes db"
proof -
  obtain db1 where ct: "create_team tid slug name actor actor db = Inr (t, db1)"
    and db': "db' = db1\<lparr>ac_initial := Some (tid, actor)\<rparr>"
    using assms(2) by (auto simp: create_first_team_def bind_res_Inr_iff account_simps split: if_splits)
  note s = create_team_sound [OF assms(1) ct]
  show "ac_users db' = ac_users db" "ac_passkeys db' = ac_passkeys db" "ac_codes db' = ac_codes db"
    using s by (simp_all add: db')
  show "teams_sound db'"
    using s(1) by (rule teams_sound_frame) (simp_all add: db')
qed

lemma apply_team_sound:
  assumes "portal_sound db" and "apply_team c db = Inr db'"
  shows "portal_sound db'"
proof -
  have t: "teams_sound db" and a: "accounts_sound db"
    using assms(1) by (simp_all add: portal_sound_def)
  have "teams_sound db' \<and> ac_users db' = ac_users db \<and> ac_passkeys db' = ac_passkeys db \<and> ac_codes db' = ac_codes db"
  proof (cases c)
    case (SetGlobalSearch tid b)
    then have "db' = set_global_search tid b db" using assms(2) by simp
    then show ?thesis using set_global_sound [OF t] by (simp add: set_global_search_def)
  next
    case (DeleteInvite tid iid)
    then have "db' = delete_invite tid iid db" using assms(2) by simp
    moreover have "teams_sound (delete_invite tid iid db)"
      unfolding delete_invite_def by (rule invites_sound [OF t]) (use t in \<open>simp add: teams_sound_def distinct_map_filter\<close>)
    ultimately show ?thesis by (simp add: delete_invite_def)
  next
    case (MarkInviteAccepted now iid)
    then have "db' = mark_invite_accepted now iid db" using assms(2) by simp
    then show ?thesis using mark_accepted_sound [OF t] by (simp add: mark_invite_accepted_def)
  next
    case (CreateTeam tid slug name by_id leader)
    then show ?thesis using assms(2) create_team_sound [OF t] by (fastforce simp: written_Inr)
  next
    case (CreateFirstTeam tid slug name actor)
    then show ?thesis using assms(2) create_first_team_sound [OF t] by (fastforce simp: written_Inr)
  next
    case (AddMember tid uid role)
    then show ?thesis using assms(2) add_member_sound [OF t] by fastforce
  next
    case (RemoveMember tid uid)
    then show ?thesis using assms(2) remove_member_sound [OF t] by fastforce
  next
    case (CreateInvite now i)
    then show ?thesis using assms(2) create_invite_sound [OF t] by (fastforce simp: written_Inr)
  qed
  then show ?thesis
    using a accounts_sound_cong by (metis portal_sound_def)
qed

section \<open>Account calls and teams\<close>

definition team_frame :: "accounts \<Rightarrow> accounts \<Rightarrow> bool" where
  "team_frame db db' \<longleftrightarrow>
     ac_teams db' = ac_teams db \<and> ac_members db' = ac_members db \<and> ac_invites db' = ac_invites db
     \<and> us_id ` set (ac_users db) \<subseteq> us_id ` set (ac_users db')"

lemma team_frame_refl: "team_frame db db"
  by (simp add: team_frame_def)

lemma team_frame_trans: "team_frame a b \<Longrightarrow> team_frame b c \<Longrightarrow> team_frame a c"
  by (auto simp: team_frame_def)

lemma team_frame_tables [simp]:
  "team_frame db (db\<lparr>ac_passkeys := ks\<rparr>)" "team_frame db (db\<lparr>ac_codes := cs\<rparr>)"
  by (simp_all add: team_frame_def)

lemma update_team_frame:
  assumes "update_user uid f db = Inr (found, db')" and "\<And>u. us_id (f u) = us_id u"
  shows "team_frame db db'"
proof -
  have "us_id ` set (ac_users db') = us_id ` set (ac_users db)"
    using update_user_ids [OF assms(2,1)] by (metis set_map)
  then show ?thesis
    using update_user_frame [OF assms(1)] by (simp add: team_frame_def)
qed

lemma replace_team_frame: "replace_if_given uid hs db = Inr db' \<Longrightarrow> team_frame db db'"
  by (auto simp: team_frame_def replace_if_given_def replace_recovery_codes_def bind_res_Inr_iff split: option.splits if_splits)

lemma insert_user_frame: "insert_user u db = Inr db' \<Longrightarrow> team_frame db db'"
  by (auto simp: team_frame_def insert_user_def account_simps split: if_splits)

lemma disable_team_frame: "disable_totp uid db = Inr db' \<Longrightarrow> team_frame db db'"
proof -
  assume "disable_totp uid db = Inr db'"
  then obtain found db1 where up: "update_user uid (\<lambda>u. u\<lparr>us_mfa_enabled := False, us_mfa_secret := None\<rparr>) db = Inr (found, db1)"
      and "team_frame db1 db'"
    by (auto simp: disable_totp_def bind_res_Inr_iff account_simps Let_def team_frame_def split: sum.splits account_error.splits)
  then show ?thesis
    using update_team_frame [OF up] team_frame_trans by auto
qed

lemma passkey_team_frame: "add_webauthn_credential k cs p db = Inr db' \<Longrightarrow> team_frame db db'"
proof -
  assume "add_webauthn_credential k cs p db = Inr db'"
  then obtain db1 found db2 where ins: "insert_passkey k db = Inr db1"
    and up: "(if p then update_user (pk_user k) (\<lambda>u. u\<lparr>us_is_site_admin := True, us_pending_site_admin := False\<rparr>) db1
              else Inr (False, db1)) = Inr (found, db2)"
    and rep: "replace_if_given (pk_user k) cs db2 = Inr db'"
    by (auto simp: add_webauthn_credential_def bind_res_Inr_iff account_simps)
  have "team_frame db db1"
    using ins by (auto simp: insert_passkey_def team_frame_def split: if_splits)
  moreover have "team_frame db1 db2"
    using up by (cases p) (auto simp: team_frame_refl intro: update_team_frame)
  ultimately show ?thesis
    using replace_team_frame [OF rep] team_frame_trans by blast
qed

lemma account_team_frame:
  assumes "apply_account c db = Inr db'" and "\<And>uid. c \<noteq> DeleteIfUnused uid"
  shows "team_frame db db'"
proof (cases c)
  case (EnableTotp uid s cs p)
  then obtain found db1 where up: "update_user uid (\<lambda>u. u\<lparr>us_mfa_secret := Some s, us_mfa_enabled := True,
                 us_is_site_admin := us_is_site_admin u \<or> p,
                 us_pending_site_admin := us_pending_site_admin u \<and> \<not> p\<rparr>) db = Inr (found, db1)"
      and rep: "replace_if_given uid cs db1 = Inr db'"
    using assms(1) by (auto simp: enable_totp_def bind_res_Inr_iff account_simps)
  have "team_frame db db1" by (rule update_team_frame [OF up]) auto
  then show ?thesis using replace_team_frame [OF rep] team_frame_trans by blast
qed (use assms in \<open>auto simp: account_simps create_user_def create_account_def promote_now_def demote_def deactivate_def
       reactivate_def set_pending_site_admin_def set_password_def bind_res_Inr_iff Let_def
       remove_webauthn_credential_def touch_webauthn_credential_def consume_recovery_code_def
       intro: insert_user_frame disable_team_frame passkey_team_frame update_team_frame team_frame_refl
       split: option.splits if_splits\<close>)

lemma delete_teams_sound:
  assumes "teams_sound db" and "delete_if_unused uid db = Inr (b, db')"
  shows "teams_sound db'"
proof (cases "db' = db")
  case False
  then have db': "ac_users db' = filter (\<lambda>v. us_id v \<noteq> uid) (ac_users db)" "ac_teams db' = ac_teams db"
      "ac_members db' = filter (\<lambda>m. mb_user m \<noteq> uid) (ac_members db)" "ac_invites db' = ac_invites db"
    and kept: "\<And>m. m \<in> set (ac_members db) \<Longrightarrow> mb_user m = uid \<Longrightarrow> leader_kept db' (mb_team m)"
    using assms(2)
    by (auto simp: delete_if_unused_def Let_def account_simps list_all_iff split: option.splits if_splits)
  have "team_has_leader db' (tm_id t)" if t: "t \<in> set (ac_teams db)" for t
  proof -
    obtain m where m: "m \<in> set (ac_members db)" "mb_team m = tm_id t" "mb_role m = TEAM_LEADER"
      using assms(1) t by (auto simp: teams_sound_def list_all_iff team_has_leader_def list_ex_iff)
    show ?thesis
    proof (cases "mb_user m = uid")
      case True
      then show ?thesis
        using kept [OF m(1)] t m(2) db'(2) by (auto simp: leader_kept_def list_ex_iff)
    next
      case False
      then show ?thesis
        using m by (auto simp: team_has_leader_def list_ex_iff db')
    qed
  qed
  then show ?thesis
    using assms(1) by (auto simp: teams_sound_def db' list_all_iff distinct_map_filter)
qed (use assms(1) in simp)

lemma apply_account_teams_sound:
  assumes "teams_sound db" and "apply_account c db = Inr db'"
  shows "teams_sound db'"
proof (cases "\<exists>uid. c = DeleteIfUnused uid")
  case True
  then show ?thesis
    using assms by (auto simp: account_simps intro: delete_teams_sound)
next
  case False
  then have "team_frame db db'"
    using account_team_frame [OF assms(2)] by blast
  then show ?thesis
    using teams_sound_frame [OF assms(1)] by (simp add: team_frame_def)
qed

lemma attempt_portal_sound: "portal_sound db \<Longrightarrow> portal_sound (attempt_portal c db)"
proof (cases c)
  case (AccountOp d)
  assume "portal_sound db"
  then show ?thesis
    using AccountOp apply_account_sound apply_account_teams_sound
    by (auto simp: attempt_portal_def portal_sound_def split: sum.splits)
next
  case (TeamOp d)
  assume "portal_sound db"
  then show ?thesis
    using TeamOp apply_team_sound by (auto simp: attempt_portal_def split: sum.splits)
qed

section \<open>Roles\<close>

lemma find_members:
  "distinct (map (\<lambda>m. (mb_team m, mb_user m)) ms) \<Longrightarrow>
   List.find (\<lambda>m. mb_team m = t \<and> mb_user m = u) ms = Some m \<longleftrightarrow> m \<in> set ms \<and> mb_team m = t \<and> mb_user m = u"
  by (induction ms) (auto simp: image_iff)

lemma role_for_Some:
  "teams_sound db \<Longrightarrow>
   role_for u t db = Some r \<longleftrightarrow> (\<exists>m\<in>set (ac_members db). mb_team m = t \<and> mb_user m = u \<and> mb_role m = r)"
  by (auto simp: role_for_def teams_sound_def find_members)

lemma leaders_left:
  assumes "teams_sound db" and "1 < leader_count t db"
  shows "\<exists>m\<in>set (ac_members db). mb_team m = t \<and> mb_role m = TEAM_LEADER \<and> mb_user m \<noteq> u"
proof (rule ccontr)
  assume none: "\<not> ?thesis"
  let ?ls = "filter (\<lambda>m. mb_team m = t \<and> mb_role m = TEAM_LEADER) (ac_members db)"
  have keys: "(\<lambda>m. (mb_team m, mb_user m)) ` set ?ls \<subseteq> {(t, u)}"
    using none by auto
  let ?ks = "map (\<lambda>m. (mb_team m, mb_user m)) ?ls"
  have "distinct ?ks"
    using assms(1) by (simp add: teams_sound_def distinct_map_filter)
  then have "length ?ks = card (set ?ks)"
    by (rule distinct_card [symmetric])
  also have "\<dots> \<le> card {(t, u)}"
    by (rule card_mono) (use keys in auto)
  finally show False
    using assms(2) by (simp add: leader_count_def)
qed

lemma leader_kept_if: "team_has_leader db t \<Longrightarrow> leader_kept db t"
  by (simp add: leader_kept_def)

lemma team_leads: "teams_sound db \<Longrightarrow> t \<in> tm_id ` set (ac_teams db) \<Longrightarrow> team_has_leader db t"
  by (auto simp: teams_sound_def list_all_iff)

lemma remove_member_leads:
  assumes "teams_sound db" and "t \<in> tm_id ` set (ac_teams db)"
    and "role_for u t db = Some TEAM_LEADER \<longrightarrow> 1 < leader_count t db"
  shows "team_has_leader (db\<lparr>ac_members := filter (\<lambda>m. \<not> (mb_team m = t \<and> mb_user m = u)) (ac_members db)\<rparr>) t"
proof (cases "role_for u t db = Some TEAM_LEADER")
  case True
  then show ?thesis
    using leaders_left [OF assms(1), of t u] assms(3) by (auto simp: team_has_leader_def list_ex_iff)
next
  case False
  obtain m where m: "m \<in> set (ac_members db)" "mb_team m = t" "mb_role m = TEAM_LEADER"
    using team_leads [OF assms(1,2)] by (auto simp: team_has_leader_def list_ex_iff)
  then have "mb_user m \<noteq> u"
    using False role_for_Some [OF assms(1)] by metis
  then show ?thesis
    using m by (auto simp: team_has_leader_def list_ex_iff)
qed

lemma upsert_member_leads:
  assumes "teams_sound db" and "t \<in> tm_id ` set (ac_teams db)" and "upsert_member t u r db = Inr db'"
    and "role_for u t db = Some TEAM_LEADER \<and> r \<noteq> TEAM_LEADER \<longrightarrow> 1 < leader_count t db"
  shows "team_has_leader db' t"
proof -
  have "\<exists>m\<in>set (ac_members db). mb_team m = t \<and> mb_role m = TEAM_LEADER \<and> (mb_user m \<noteq> u \<or> r = TEAM_LEADER)"
  proof (cases "role_for u t db = Some TEAM_LEADER \<and> r \<noteq> TEAM_LEADER")
    case True
    then show ?thesis using leaders_left [OF assms(1), of t u] assms(4) by blast
  next
    case False
    obtain m where m: "m \<in> set (ac_members db)" "mb_team m = t" "mb_role m = TEAM_LEADER"
      using team_leads [OF assms(1,2)] by (auto simp: team_has_leader_def list_ex_iff)
    then have "mb_user m \<noteq> u \<or> r = TEAM_LEADER"
      using False role_for_Some [OF assms(1)] by metis
    then show ?thesis using m by blast
  qed
  then obtain m where m: "m \<in> set (ac_members db)" "mb_team m = t" "mb_role m = TEAM_LEADER"
      "mb_user m \<noteq> u \<or> r = TEAM_LEADER"
    by blast
  have "(if mb_team m = t \<and> mb_user m = u then m\<lparr>mb_role := r\<rparr> else m) \<in> set (ac_members db')"
  proof (cases "role_for u t db = None")
    case True
    then have "\<not> (mb_team m = t \<and> mb_user m = u)"
      using m(1) by (auto simp: role_for_None)
    then show ?thesis
      using assms(3) True m(1) by (auto simp: upsert_member_def account_simps)
  next
    case False
    let ?g = "\<lambda>m. if mb_team m = t \<and> mb_user m = u then m\<lparr>mb_role := r\<rparr> else m"
    have "ac_members db' = map ?g (ac_members db)"
      using False assms(3) by (auto simp: upsert_member_def)
    then show ?thesis
      using imageI [OF m(1), of ?g] by (simp only: set_map)
  qed
  moreover have "mb_team (if mb_team m = t \<and> mb_user m = u then m\<lparr>mb_role := r\<rparr> else m) = t"
      "mb_role (if mb_team m = t \<and> mb_user m = u then m\<lparr>mb_role := r\<rparr> else m) = TEAM_LEADER"
    using m by auto
  ultimately show ?thesis
    unfolding team_has_leader_def list_ex_iff by blast
qed

lemma insert_member_errors: "insert_member m db \<noteq> Inl CheckViolation"
  by (simp add: insert_member_def)

lemma memberships_of_set:
  "(t, r) \<in> set (memberships_of uid db) \<longleftrightarrow>
     t \<in> set (ac_teams db) \<and> (\<exists>m\<in>set (ac_members db). mb_team m = tm_id t \<and> mb_user m = uid \<and> mb_role m = r)"
  by (auto simp: memberships_of_def)

lemma sole_leader_guard:
  assumes "teams_sound db" and "teams_where_sole_leader uid db = []"
  shows "delete_if_unused uid db \<noteq> Inl CheckViolation"
proof -
  let ?db = "db\<lparr>ac_users := filter (\<lambda>v. us_id v \<noteq> uid) (ac_users db),
                 ac_passkeys := filter (\<lambda>k. pk_user k \<noteq> uid) (ac_passkeys db),
                 ac_codes := filter (\<lambda>c. rc_user c \<noteq> uid) (ac_codes db),
                 ac_members := filter (\<lambda>m. mb_user m \<noteq> uid) (ac_members db)\<rparr>"
  have "leader_kept ?db (mb_team m)" if m: "m \<in> set (ac_members db)" "mb_user m = uid" for m
  proof -
    obtain t where t: "t \<in> set (ac_teams db)" "tm_id t = mb_team m"
      using assms(1) m(1) by (auto simp: teams_sound_def list_all_iff)
    have "\<exists>n\<in>set (ac_members db). mb_team n = mb_team m \<and> mb_role n = TEAM_LEADER \<and> mb_user n \<noteq> uid"
    proof (cases "mb_role m = TEAM_LEADER")
      case True
      then have "(t, TEAM_LEADER) \<in> set (memberships_of uid db)"
        using m t by (auto simp: memberships_of_set)
      then have "\<not> leader_count (mb_team m) db \<le> 1"
        using assms(2) t(2) by (auto simp: teams_where_sole_leader_def filter_empty_conv)
      then show ?thesis
        using leaders_left [OF assms(1), of "mb_team m" uid] by auto
    next
      case False
      have "mb_team m \<in> tm_id ` set (ac_teams db)"
        using t by (metis image_eqI)
      then obtain n where n: "n \<in> set (ac_members db)" "mb_team n = mb_team m" "mb_role n = TEAM_LEADER"
        using team_leads [OF assms(1), of "mb_team m"] by (auto simp: team_has_leader_def list_ex_iff)
      have "mb_user n \<noteq> uid"
      proof
        assume "mb_user n = uid"
        then have "role_for uid (mb_team m) db = Some TEAM_LEADER" "role_for uid (mb_team m) db = Some (mb_role m)"
          using role_for_Some [OF assms(1)] n m by blast+
        then show False using False by simp
      qed
      then show ?thesis using n by blast
    qed
    then show ?thesis
      by (intro leader_kept_if) (auto simp: team_has_leader_def list_ex_iff)
  qed
  then show ?thesis
    by (auto simp: delete_if_unused_def Let_def commit_if_def list_all_iff split: option.splits if_splits)
qed

section \<open>Properties\<close>

text \<open>C25: whatever calls the account and team repositories get, in any order and with any arguments,
  the tables stay sound: ids, addresses, slugs and credential ids are unique, every factor,
  recovery code and membership belongs to a user, no site administrator is without a second factor
  and no team is without a leader.\<close>

theorem portal_stays_sound:
  "portal_sound (foldl (\<lambda>db c. attempt_portal c db) empty_accounts cs)"
proof -
  have "portal_sound db \<Longrightarrow> portal_sound (foldl (\<lambda>db c. attempt_portal c db) db cs)" for db
    by (induction cs arbitrary: db) (auto simp: attempt_portal_sound)
  then show ?thesis
    by (simp add: portal_sound_def accounts_sound_def tables_sound_def teams_sound_def factor_kept_def find_user_def
        empty_accounts_def)
qed

text \<open>Removing a member is refused exactly when the team does not exist or the member is its only
  leader, with the matching reason; otherwise the member is gone. The guard anticipates the
  trigger, which never has to raise.\<close>

theorem remove_member_outcome:
  assumes "teams_sound db"
  shows "remove_member t u db =
     (if find_team db t = None then refuse NotFound TEAM_MISSING
      else if role_for u t db = Some TEAM_LEADER \<and> leader_count t db \<le> 1 then refuse ProvisioningError LAST_LEADER
      else Inr (db\<lparr>ac_members := filter (\<lambda>m. \<not> (mb_team m = t \<and> mb_user m = u)) (ac_members db)\<rparr>))"
proof (cases "find_team db t = None")
  case False
  then have "t \<in> tm_id ` set (ac_teams db)"
    by (simp add: find_team_None)
  then show ?thesis
    using leader_kept_if [OF remove_member_leads [OF assms]] False
    by (auto simp: remove_member_def locked_role_def check_not_last_leader_def refuse_def commit_if_def Let_def)
qed (simp add: remove_member_def locked_role_def refuse_def)

text \<open>Adding a member to a team, or changing the member's role, gives the member that role and
  leaves every other role alone; demoting the only leader is refused with its own reason.\<close>

theorem add_member_outcome:
  assumes "portal_sound db" and "find_team db t \<noteq> None" and "find_user db u \<noteq> None"
  shows "(case add_member t u r db of
            Inr db' \<Rightarrow> role_for u t db' = Some r
              \<and> (\<forall>v s. (v, s) \<noteq> (u, t) \<longrightarrow> role_for v s db' = role_for v s db)
          | Inl e \<Rightarrow> e = Portal \<lparr>pe_class = ProvisioningError, pe_reason = LAST_LEADER, pe_params = []\<rparr>
              \<and> role_for u t db = Some TEAM_LEADER \<and> r = TEAM_MEMBER \<and> leader_count t db \<le> 1)"
proof (cases "role_for u t db = Some TEAM_LEADER \<and> r \<noteq> TEAM_LEADER \<and> leader_count t db \<le> 1")
  case True
  then show ?thesis
    using assms(2) by (cases r) (auto simp: add_member_def locked_role_def check_not_last_leader_def refuse_def)
next
  case False
  have ts: "teams_sound db" using assms(1) by (simp add: portal_sound_def)
  have t: "t \<in> tm_id ` set (ac_teams db)" and u: "u \<in> us_id ` set (ac_users db)"
    using assms(2,3) by (simp_all add: find_team_None find_user_None)
  have "\<exists>db'. upsert_member t u r db = Inr db'"
  proof (cases "role_for u t db = None")
    case True
    then show ?thesis using t u by (auto simp: upsert_member_def insert_member_Inr role_for_None)
  qed (auto simp: upsert_member_def)
  then obtain db' where up: "upsert_member t u r db = Inr db'" ..
  have "leader_kept db' t"
    using upsert_member_leads [OF ts t up] False by (auto intro: leader_kept_if)
  then have add: "add_member t u r db = Inr db'"
    using assms(2) up False
    by (auto simp: add_member_def locked_role_def check_not_last_leader_def commit_if_def)
  have ts': "teams_sound db'"
    by (rule add_member_sound [OF ts add])
  have "role_for u t db' = Some r \<and> (\<forall>v s. (v, s) \<noteq> (u, t) \<longrightarrow> role_for v s db' = role_for v s db)"
  proof (cases "role_for u t db = None")
    case True
    then have "ac_members db' = ac_members db @ [\<lparr>mb_team = t, mb_user = u, mb_role = r\<rparr>]"
      using up by (auto simp: upsert_member_def insert_member_Inr)
    then show ?thesis
      using True by (auto simp: role_for_def find_append split: option.splits)
  next
    case False
    let ?g = "\<lambda>m. if mb_team m = t \<and> mb_user m = u then m\<lparr>mb_role := r\<rparr> else m"
    have m: "ac_members db' = map ?g (ac_members db)"
      using up False by (auto simp: upsert_member_def)
    have find: "List.find (\<lambda>m. mb_team m = s \<and> mb_user m = v) (map ?g ms)
        = map_option ?g (List.find (\<lambda>m. mb_team m = s \<and> mb_user m = v) ms)" for s v ms
      by (induction ms) auto
    have "role_for v s db' = map_option (\<lambda>m. mb_role (?g m)) (List.find (\<lambda>m. mb_team m = s \<and> mb_user m = v) (ac_members db))" for v s
      by (simp add: role_for_def m find option.map_comp comp_def)
    then show ?thesis
      using False by (auto simp: role_for_def find_Some_iff intro!: option.map_cong split: option.splits)
  qed
  then show ?thesis using add by simp
qed

definition duo :: accounts where
  "duo =
     foldl (\<lambda>db c. attempt_portal c db) two_admins
       [TeamOp (CreateTeam 7 ''norte'' ''Norte'' 1 1), TeamOp (AddMember 7 2 TEAM_MEMBER)]"

lemma two_admins_sound: "portal_sound two_admins"
proof -
  have "factor_kept two_admins x" for x
    by (auto simp: factor_kept_def two_admins_def admin_row_def new_user_def find_user_def empty_accounts_def)
  moreover have "tables_sound two_admins" "teams_sound two_admins"
    by code_simp+
  ultimately show ?thesis
    by (simp add: portal_sound_def accounts_sound_def)
qed

lemma duo_sound: "portal_sound duo"
  by (simp add: duo_def two_admins_sound attempt_portal_sound)

theorem remove_member_outcome_witness:
  "remove_member 7 1 duo = refuse ProvisioningError LAST_LEADER
   \<and> remove_member 7 2 duo = Inr (duo\<lparr>ac_members := [\<lparr>mb_team = 7, mb_user = 1, mb_role = TEAM_LEADER\<rparr>]\<rparr>)"
proof -
  have ts: "teams_sound duo"
    using duo_sound by (simp add: portal_sound_def)
  have facts: "find_team duo 7 \<noteq> None" "role_for 1 7 duo = Some TEAM_LEADER" "leader_count 7 duo = 1"
      "role_for 2 7 duo = Some TEAM_MEMBER"
      "filter (\<lambda>m. \<not> (mb_team m = 7 \<and> mb_user m = 2)) (ac_members duo) = [\<lparr>mb_team = 7, mb_user = 1, mb_role = TEAM_LEADER\<rparr>]"
    by code_simp+
  show ?thesis
    using remove_member_outcome [OF ts, of 7 1] remove_member_outcome [OF ts, of 7 2] facts by simp
qed

theorem add_member_outcome_witness:
  "(case add_member 7 2 TEAM_LEADER duo of Inr db' \<Rightarrow> role_for 2 7 db' = Some TEAM_LEADER \<and> role_for 1 7 db' = Some TEAM_LEADER | Inl _ \<Rightarrow> False)"
proof -
  have found: "find_team duo 7 \<noteq> None" "find_user duo 2 \<noteq> None" and roles: "role_for 2 7 duo = Some TEAM_MEMBER" "role_for 1 7 duo = Some TEAM_LEADER"
    by code_simp+
  show ?thesis
    using add_member_outcome [OF duo_sound found, of TEAM_LEADER] roles by (auto split: sum.splits)
qed

end
