(* ===== verification/Credentials.thy ===== *)
theory Credentials
  imports Teams
begin

text \<open>
  The proxy connections of a team and their versions (\<open>portal/repository/credentials.py\<close>), with
  the constraints of \<open>001_portal.sql\<close>. A version goes through a life cycle that the log of events
  records; the invariant says that the log of every version is a path of that life cycle which
  ends at the stored state, and that a connection has one active version at most. The tables of
  \<open>Accounts\<close> are an argument, for the foreign keys. New ids and the clock are arguments.
\<close>

section \<open>Tables\<close>

datatype credential_state = Draft | Validating | Active | Failed_Validation | Retired

record connection =
  cn_id :: uuid
  cn_team :: uuid
  cn_label :: pystr
  cn_created_by :: uuid
  cn_retired_at :: "seconds option"

record version_row =
  vr_id :: uuid
  vr_credential :: uuid
  vr_team :: uuid
  vr_version :: nat
  vr_provider :: pystr
  vr_config :: protected_secret
  vr_active :: bool
  vr_lifecycle :: credential_state
  vr_validated_at :: "seconds option"
  vr_failure_detail :: "pystr option"
  vr_created_by :: uuid

record credential_event =
  ce_version :: uuid
  ce_from :: credential_state
  ce_to :: credential_state
  ce_detail :: pystr
  ce_actor :: uuid

record credentials =
  cr_connections :: "connection list"
  cr_versions :: "version_row list"
  cr_events :: "credential_event list"

record credential_version =
  cv_id :: uuid
  cv_team :: uuid
  cv_credential :: uuid
  cv_label :: pystr
  cv_version :: nat
  cv_active :: bool
  cv_state :: credential_state
  cv_provider :: pystr

definition PROVIDERS_STORED :: "pystr list" where
  "PROVIDERS_STORED = [''geonode'', ''dataimpulse'']"

section \<open>Reading\<close>

definition version_of :: "connection \<Rightarrow> version_row \<Rightarrow> credential_version" where
  "version_of c v =
     \<lparr>cv_id = vr_id v, cv_team = vr_team v, cv_credential = cn_id c, cv_label = cn_label c,
      cv_version = vr_version v, cv_active = vr_active v, cv_state = vr_lifecycle v, cv_provider = vr_provider v\<rparr>"

text \<open>The connection a version joins: same credential, same team.\<close>

definition connection_of :: "credentials \<Rightarrow> version_row \<Rightarrow> connection option" where
  "connection_of db v = List.find (\<lambda>c. cn_id c = vr_credential v \<and> cn_team c = vr_team v) (cr_connections db)"

definition joined_version :: "uuid \<Rightarrow> credentials \<Rightarrow> (connection \<times> version_row) option" where
  "joined_version vid db =
     (case List.find (\<lambda>v. vr_id v = vid) (cr_versions db) of
        None \<Rightarrow> None
      | Some v \<Rightarrow> map_option (\<lambda>c. (c, v)) (connection_of db v))"

definition credential :: "uuid \<Rightarrow> credentials \<Rightarrow> credential_version option" where
  "credential vid db = map_option (\<lambda>(c, v). version_of c v) (joined_version vid db)"

text \<open>Ordered by label, then the newest version first.\<close>

definition credentials_for_team :: "uuid \<Rightarrow> credentials \<Rightarrow> credential_version list" where
  "credentials_for_team team_id db =
     sort_key cv_label (rev (sort_key cv_version
       (concat (map (\<lambda>v. case connection_of db v of
                           Some c \<Rightarrow> if vr_team v = team_id \<and> cn_retired_at c = None then [version_of c v] else []
                         | None \<Rightarrow> []) (cr_versions db)))))"

section \<open>Writing\<close>

definition retire_credential :: "seconds \<Rightarrow> uuid \<Rightarrow> uuid \<Rightarrow> credentials \<Rightarrow> account_error + credentials" where
  "retire_credential now cid team_id db =
     (let hit = (\<lambda>c. cn_id c = cid \<and> cn_team c = team_id \<and> cn_retired_at c = None)
      in if list_ex hit (cr_connections db)
         then Inr (db\<lparr>cr_connections :=
                map (\<lambda>c. if hit c then c\<lparr>cn_retired_at := Some now\<rparr> else c) (cr_connections db)\<rparr>)
         else refuse NotFound CREDENTIAL_WRONG_TEAM)"

definition rename_credential :: "uuid \<Rightarrow> uuid \<Rightarrow> pystr \<Rightarrow> credentials \<Rightarrow> account_error + credentials" where
  "rename_credential cid team_id new_label db =
     (let hit = (\<lambda>c. cn_id c = cid \<and> cn_team c = team_id)
      in if \<not> list_ex hit (cr_connections db) then refuse NotFound CREDENTIAL_WRONG_TEAM
         else if pg_trim new_label = [] then Inl CheckViolation
         else if list_ex (\<lambda>c. \<not> hit c \<and> cn_team c = team_id \<and> cn_label c = new_label) (cr_connections db)
           then refuse CredentialConfigurationError LABEL_TAKEN
         else Inr (db\<lparr>cr_connections :=
                map (\<lambda>c. if hit c then c\<lparr>cn_label := new_label\<rparr> else c) (cr_connections db)\<rparr>))"

definition insert_connection :: "connection \<Rightarrow> accounts \<Rightarrow> credentials \<Rightarrow> account_error + credentials" where
  "insert_connection c acc db =
     (if pg_trim (cn_label c) = [] then Inl CheckViolation
      else if list_ex (\<lambda>d. cn_id d = cn_id c \<or> (cn_team d = cn_team c \<and> cn_label d = cn_label c)) (cr_connections db)
        then Inl UniqueViolation
      else if find_team acc (cn_team c) = None \<or> find_user acc (cn_created_by c) = None then Inl ForeignKeyViolation
      else Inr (db\<lparr>cr_connections := cr_connections db @ [c]\<rparr>))"

definition version_checks :: "version_row \<Rightarrow> bool" where
  "version_checks v \<longleftrightarrow>
     0 < vr_version v \<and> vr_provider v \<in> set PROVIDERS_STORED
     \<and> ps_ciphertext (vr_config v) \<noteq> [] \<and> ps_wrapped_data_key (vr_config v) \<noteq> []
     \<and> pg_trim (ps_master_key_version (vr_config v)) \<noteq> []
     \<and> (vr_active v \<longleftrightarrow> vr_lifecycle v = Active)"

definition insert_version :: "version_row \<Rightarrow> accounts \<Rightarrow> credentials \<Rightarrow> account_error + credentials" where
  "insert_version v acc db =
     (if \<not> version_checks v then Inl CheckViolation
      else if list_ex (\<lambda>w. vr_id w = vr_id v
                \<or> (vr_credential w = vr_credential v
                    \<and> (vr_version w = vr_version v \<or> vr_lifecycle w = Active \<and> vr_lifecycle v = Active)))
             (cr_versions db)
        then Inl UniqueViolation
      else if connection_of db v = None \<or> find_user acc (vr_created_by v) = None then Inl ForeignKeyViolation
      else Inr (db\<lparr>cr_versions := cr_versions db @ [v]\<rparr>))"

definition insert_event :: "credential_event \<Rightarrow> accounts \<Rightarrow> credentials \<Rightarrow> account_error + credentials" where
  "insert_event e acc db =
     (if 240 < length (ce_detail e) then Inl CheckViolation
      else if find_user acc (ce_actor e) = None \<or> \<not> list_ex (\<lambda>v. vr_id v = ce_version e) (cr_versions db)
        then Inl ForeignKeyViolation
      else Inr (db\<lparr>cr_events := cr_events db @ [e]\<rparr>))"

fun insert_events :: "credential_event list \<Rightarrow> accounts \<Rightarrow> credentials \<Rightarrow> account_error + credentials" where
  "insert_events [] acc db = Inr db"
| "insert_events (e # es) acc db = bind_res (insert_event e acc db) (insert_events es acc)"

text \<open>The highest version of a connection, or zero.\<close>

definition last_version :: "uuid \<Rightarrow> credentials \<Rightarrow> nat" where
  "last_version cid db = foldr max (map vr_version (filter (\<lambda>v. vr_credential v = cid) (cr_versions db))) 0"

definition VALIDATION_STARTED :: pystr where
  "VALIDATION_STARTED = ''validaci'' @ [char_of (243 :: nat)] @ ''n iniciada''"

definition VERSION_REPLACED :: pystr where
  "VERSION_REPLACED = ''reemplazada por una nueva versi'' @ [char_of (243 :: nat)] @ ''n''"

text \<open>The connection of a label, made or brought back from retirement. \<open>new_id\<close> is the fresh id.\<close>

definition connection_for_label ::
  "uuid \<Rightarrow> uuid \<Rightarrow> pystr \<Rightarrow> uuid \<Rightarrow> accounts \<Rightarrow> credentials \<Rightarrow> account_error + (uuid \<times> credentials)" where
  "connection_for_label new_id team_id label created_by acc db =
     (case List.find (\<lambda>c. cn_team c = team_id \<and> cn_label c = label) (cr_connections db) of
        None \<Rightarrow>
          bind_res
            (insert_connection
               \<lparr>cn_id = new_id, cn_team = team_id, cn_label = label, cn_created_by = created_by, cn_retired_at = None\<rparr>
               acc db) (\<lambda>db. Inr (new_id, db))
      | Some c \<Rightarrow>
          Inr (cn_id c, db\<lparr>cr_connections :=
             map (\<lambda>d. if cn_id d = cn_id c then d\<lparr>cn_retired_at := None\<rparr> else d) (cr_connections db)\<rparr>))"

definition start_credential_validation ::
  "uuid \<Rightarrow> uuid \<Rightarrow> uuid \<Rightarrow> pystr \<Rightarrow> pystr \<Rightarrow> protected_secret \<Rightarrow> uuid \<Rightarrow> accounts \<Rightarrow> credentials
     \<Rightarrow> account_error + (credential_version \<times> accounts \<times> credentials)" where
  "start_credential_validation new_cid new_vid team_id label provider config created_by acc db =
     (if find_team acc team_id = None then refuse NotFound TEAM_MISSING
      else
        bind_res (connection_for_label new_cid team_id label created_by acc db) (\<lambda>(cid, db).
          let v = \<lparr>vr_id = new_vid, vr_credential = cid, vr_team = team_id, vr_version = last_version cid db + 1,
                   vr_provider = provider, vr_config = config, vr_active = False, vr_lifecycle = Validating,
                   vr_validated_at = None, vr_failure_detail = None, vr_created_by = created_by\<rparr>
          in bind_res (insert_version v acc db) (\<lambda>db.
             bind_res (insert_event \<lparr>ce_version = new_vid, ce_from = Draft, ce_to = Validating,
                          ce_detail = VALIDATION_STARTED, ce_actor = created_by\<rparr> acc db) (\<lambda>db.
             Inr (\<lparr>cv_id = new_vid, cv_team = team_id, cv_credential = cid, cv_label = label,
                   cv_version = vr_version v, cv_active = False, cv_state = Validating, cv_provider = provider\<rparr>,
                  acc\<lparr>ac_history := ac_history acc @ [created_by]\<rparr>, db)))))"

text \<open>The version that is replaced, and the event that says so.\<close>

definition retire_version :: "version_row \<Rightarrow> version_row" where
  "retire_version v = v\<lparr>vr_lifecycle := Retired, vr_active := False\<rparr>"

definition replaced_event :: "uuid \<Rightarrow> version_row \<Rightarrow> credential_event" where
  "replaced_event actor_id v =
     \<lparr>ce_version = vr_id v, ce_from = Active, ce_to = Retired, ce_detail = VERSION_REPLACED, ce_actor = actor_id\<rparr>"

definition retire_active :: "uuid \<Rightarrow> uuid \<Rightarrow> accounts \<Rightarrow> credentials \<Rightarrow> account_error + credentials" where
  "retire_active cid actor_id acc db =
     (let hit = (\<lambda>v. vr_credential v = cid \<and> vr_lifecycle v = Active)
      in insert_events (map (replaced_event actor_id) (filter hit (cr_versions db))) acc
           (db\<lparr>cr_versions := map (\<lambda>v. if hit v then retire_version v else v) (cr_versions db)\<rparr>))"

definition finish_row :: "seconds \<Rightarrow> credential_state \<Rightarrow> pystr option \<Rightarrow> version_row \<Rightarrow> version_row" where
  "finish_row now state detail v =
     v\<lparr>vr_lifecycle := state, vr_active := (state = Active),
       vr_validated_at := (if state = Active then Some now else vr_validated_at v),
       vr_failure_detail := (if state = Failed_Validation then detail else None)\<rparr>"

definition finish_credential_validation ::
  "seconds \<Rightarrow> uuid \<Rightarrow> credential_state \<Rightarrow> pystr option \<Rightarrow> uuid \<Rightarrow> accounts \<Rightarrow> credentials
     \<Rightarrow> account_error + (credential_version \<times> credentials)" where
  "finish_credential_validation now vid state detail actor_id acc db =
     (if state \<noteq> Active \<and> state \<noteq> Failed_Validation
      then refuse CredentialConfigurationError CREDENTIAL_STATE_INVALID
      else
        (case joined_version vid db of
           None \<Rightarrow> refuse CredentialConfigurationError CREDENTIAL_NOT_PENDING
         | Some (c, row) \<Rightarrow>
             if vr_lifecycle row \<noteq> Validating then refuse CredentialConfigurationError CREDENTIAL_NOT_PENDING
             else
               bind_res (if state = Active then retire_active (cn_id c) actor_id acc db else Inr db) (\<lambda>db.
               let db = db\<lparr>cr_versions :=
                          map (\<lambda>v. if vr_id v = vid then finish_row now state detail v else v) (cr_versions db)\<rparr>
               in (case detail of
                     None \<Rightarrow> Inl NotNullViolation
                   | Some text \<Rightarrow>
                       bind_res (insert_event \<lparr>ce_version = vid, ce_from = Validating, ce_to = state,
                                    ce_detail = text, ce_actor = actor_id\<rparr> acc db) (\<lambda>db.
                       Inr (\<lparr>cv_id = vr_id row, cv_team = vr_team row, cv_credential = cn_id c, cv_label = cn_label c,
                             cv_version = vr_version row, cv_active = (state = Active), cv_state = state,
                             cv_provider = vr_provider row\<rparr>, db))))))"

section \<open>The life cycle and its log\<close>

inductive lifecycle_step :: "credential_state \<Rightarrow> credential_state \<Rightarrow> bool" where
  begins: "lifecycle_step Draft Validating"
| passes: "lifecycle_step Validating Active"
| fails: "lifecycle_step Validating Failed_Validation"
| replaced: "lifecycle_step Active Retired"

inductive lifecycle_path :: "credential_state \<Rightarrow> credential_event list \<Rightarrow> credential_state \<Rightarrow> bool" where
  stay: "lifecycle_path s [] s"
| go: "ce_from e = s \<Longrightarrow> lifecycle_step s (ce_to e) \<Longrightarrow> lifecycle_path (ce_to e) es t \<Longrightarrow> lifecycle_path s (e # es) t"

code_pred lifecycle_step .
code_pred lifecycle_path .

inductive_simps path_Nil [simp]: "lifecycle_path s [] t"
inductive_simps path_Cons [simp]: "lifecycle_path s (e # es) t"
inductive_simps step_from_Draft [simp]: "lifecycle_step Draft t"
inductive_simps step_from_Active [simp]: "lifecycle_step Active t"
inductive_simps step_from_Validating [simp]: "lifecycle_step Validating t"
inductive_cases no_step_from_Retired [elim!]: "lifecycle_step Retired t"
inductive_cases no_step_from_Failed [elim!]: "lifecycle_step Failed_Validation t"

lemma path_append: "lifecycle_path s (es @ fs) t \<longleftrightarrow> (\<exists>u. lifecycle_path s es u \<and> lifecycle_path u fs t)"
  by (induction es arbitrary: s) auto

definition events_of :: "uuid \<Rightarrow> credential_event list \<Rightarrow> credential_event list" where
  "events_of vid es = filter (\<lambda>e. ce_version e = vid) es"

definition logged :: "version_row list \<Rightarrow> credential_event list \<Rightarrow> bool" where
  "logged vs es \<longleftrightarrow>
     list_all (\<lambda>v. lifecycle_path Draft (events_of (vr_id v) es) (vr_lifecycle v)) vs
     \<and> list_all (\<lambda>e. ce_version e \<in> set (map vr_id vs)) es"

definition active_versions :: "uuid \<Rightarrow> version_row list \<Rightarrow> version_row list" where
  "active_versions cid vs = filter (\<lambda>v. vr_credential v = cid \<and> vr_lifecycle v = Active) vs"

definition connection_key :: "connection \<Rightarrow> uuid \<times> uuid" where
  "connection_key c = (cn_id c, cn_team c)"

definition credentials_sound :: "credentials \<Rightarrow> bool" where
  "credentials_sound db \<longleftrightarrow>
     distinct (map cn_id (cr_connections db)) \<and> distinct (map (\<lambda>c. (cn_team c, cn_label c)) (cr_connections db))
     \<and> distinct (map vr_id (cr_versions db))
     \<and> distinct (map (\<lambda>v. (vr_credential v, vr_version v)) (cr_versions db))
     \<and> list_all version_checks (cr_versions db)
     \<and> list_all (\<lambda>v. (vr_credential v, vr_team v) \<in> connection_key ` set (cr_connections db)) (cr_versions db)
     \<and> (\<forall>cid. length (active_versions cid (cr_versions db)) \<le> 1)
     \<and> logged (cr_versions db) (cr_events db)"

lemma events_of_simps [simp]:
  "events_of v [] = []"
  "events_of v (es @ fs) = events_of v es @ events_of v fs"
  "events_of v [e] = (if ce_version e = v then [e] else [])"
  by (simp_all add: events_of_def)

lemma events_of_map:
  assumes "distinct (map vr_id vs)" and "\<And>w. ce_version (ev w) = vr_id w" and "v \<in> set vs"
  shows "events_of (vr_id v) (map ev (filter hit vs)) = (if hit v then [ev v] else [])"
  using assms(1,3)
proof (induction vs)
  case (Cons w vs)
  have none: "events_of (vr_id w) (map ev (filter hit vs)) = []"
    using Cons.prems(1) by (auto simp: events_of_def filter_empty_conv assms(2)) (metis imageI)
  show ?case
  proof (cases "v = w")
    case True
    then show ?thesis using none assms(2) by (simp add: events_of_def)
  next
    case False
    then have "v \<in> set vs" and "vr_id v \<noteq> vr_id w"
      using Cons.prems by (auto, metis imageI)
    then show ?thesis
      using Cons.IH Cons.prems(1) assms(2) by (simp add: events_of_def)
  qed
qed simp

lemma logged_move:
  assumes "logged vs es" and "distinct (map vr_id vs)"
    and "\<And>v. vr_id (g v) = vr_id v" and "\<And>v. ce_version (ev v) = vr_id v"
    and "\<And>v. v \<in> set vs \<Longrightarrow> hit v \<Longrightarrow>
          ce_from (ev v) = vr_lifecycle v \<and> lifecycle_step (vr_lifecycle v) (ce_to (ev v)) \<and> vr_lifecycle (g v) = ce_to (ev v)"
  shows "logged (map (\<lambda>v. if hit v then g v else v) vs) (es @ map ev (filter hit vs))"
proof -
  have ids: "vr_id (if hit v then g v else v) = vr_id v" for v
    by (simp add: assms(3))
  have path: "lifecycle_path Draft (events_of (vr_id (if hit v then g v else v)) (es @ map ev (filter hit vs)))
                (vr_lifecycle (if hit v then g v else v))" if v: "v \<in> set vs" for v
  proof -
    have "lifecycle_path Draft (events_of (vr_id v) es) (vr_lifecycle v)"
      using assms(1) v by (simp add: logged_def list_all_iff)
    then show ?thesis
      using assms(5) [OF v] events_of_map [where ev = ev and hit = hit, OF assms(2,4) v]
      by (cases "hit v") (auto simp: path_append ids assms(3))
  qed
  have "map vr_id (map (\<lambda>v. if hit v then g v else v) vs) = map vr_id vs"
    by (simp add: ids)
  then have "list_all (\<lambda>e. ce_version e \<in> set (map vr_id (map (\<lambda>v. if hit v then g v else v) vs)))
               (es @ map ev (filter hit vs))"
    using assms(1) by (auto simp: logged_def list_all_iff assms(4))
  then show ?thesis
    using path unfolding logged_def by (auto simp only: list_all_iff set_map ball_simps)
qed

lemma logged_born:
  assumes "logged vs es" and "\<not> list_ex (\<lambda>w. vr_id w = vr_id v) vs"
    and "lifecycle_path Draft [e] (vr_lifecycle v)" and "ce_version e = vr_id v"
  shows "logged (vs @ [v]) (es @ [e])"
proof -
  have "events_of (vr_id v) es = []"
    using assms(1,2) by (auto simp: logged_def events_of_def filter_empty_conv list_all_iff list_ex_iff)
  then show ?thesis
    using assms by (auto simp: logged_def list_all_iff list_ex_iff path_append)
qed

section \<open>Every operation keeps the invariant\<close>

named_theorems credential_simps

lemma insert_event_Inr [credential_simps]:
  "insert_event e acc db = Inr db' \<Longrightarrow> db' = db\<lparr>cr_events := cr_events db @ [e]\<rparr>"
  by (simp add: insert_event_def split: if_splits)

lemma insert_events_Inr: "insert_events es acc db = Inr db' \<Longrightarrow> db' = db\<lparr>cr_events := cr_events db @ es\<rparr>"
  by (induction es arbitrary: db) (fastforce simp: bind_res_Inr_iff dest!: insert_event_Inr)+

lemma sound_connections:
  assumes "credentials_sound db" and "map cn_id cs = map cn_id (cr_connections db)"
    and "map connection_key cs = map connection_key (cr_connections db)"
    and "distinct (map (\<lambda>c. (cn_team c, cn_label c)) cs)"
  shows "credentials_sound (db\<lparr>cr_connections := cs\<rparr>)"
proof -
  have "connection_key ` set cs = connection_key ` set (cr_connections db)"
    using assms(3) by (metis list.set_map)
  then show ?thesis
    using assms by (simp add: credentials_sound_def)
qed

lemma sound_stamp:
  assumes "credentials_sound db"
  shows "credentials_sound (db\<lparr>cr_connections := map (\<lambda>c. if p c then c\<lparr>cn_retired_at := t\<rparr> else c) (cr_connections db)\<rparr>)"
proof -
  have f: "cn_id (if p c then c\<lparr>cn_retired_at := t\<rparr> else c) = cn_id c"
    "cn_team (if p c then c\<lparr>cn_retired_at := t\<rparr> else c) = cn_team c"
    "cn_label (if p c then c\<lparr>cn_retired_at := t\<rparr> else c) = cn_label c" for c
    by simp_all
  show ?thesis
    by (rule sound_connections) (use assms in \<open>simp_all add: comp_def f connection_key_def credentials_sound_def\<close>)
qed

lemma retire_sound: "credentials_sound db \<Longrightarrow> retire_credential now cid tid db = Inr db' \<Longrightarrow> credentials_sound db'"
  by (auto simp: retire_credential_def Let_def refuse_def sound_stamp split: if_splits)

lemma distinct_update_key:
  assumes "distinct (map k xs)" and "distinct (map i xs)"
    and "\<And>x. x \<in> set xs \<Longrightarrow> i x \<noteq> a \<Longrightarrow> k x \<noteq> b" and "\<And>x. i x = a \<Longrightarrow> k (f x) = b"
  shows "distinct (map (\<lambda>x. k (if i x = a then f x else x)) xs)"
  using assms
proof (induction xs)
  case (Cons x xs)
  have "k (if i x = a then f x else x) \<noteq> k (if i y = a then f y else y)" if "y \<in> set xs" for y
  proof (cases "i x = a \<or> i y = a")
    case True
    moreover have "i x \<noteq> i y"
      using that Cons.prems(2) by (metis distinct.simps(2) image_eqI list.simps(9) list.set_map)
    ultimately show ?thesis
      using that Cons.prems(3,4) by (metis list.set_intros)
  next
    case False
    then show ?thesis
      using that Cons.prems(1) by (auto simp: image_iff)
  qed
  then show ?case
    using Cons by (simp add: image_iff)
qed simp

lemma rename_sound:
  assumes "credentials_sound db" and "rename_credential cid tid label db = Inr db'"
  shows "credentials_sound db'"
proof -
  let ?hit = "\<lambda>c. cn_id c = cid \<and> cn_team c = tid"
  let ?f = "\<lambda>c. if ?hit c then c\<lparr>cn_label := label\<rparr> else c"
  have f: "cn_id (?f c) = cn_id c" "cn_team (?f c) = cn_team c" "connection_key (?f c) = connection_key c" for c
    by (simp_all add: connection_key_def)
  have free: "\<not> list_ex (\<lambda>c. \<not> ?hit c \<and> cn_team c = tid \<and> cn_label c = label) (cr_connections db)"
    and new: "db' = db\<lparr>cr_connections := map ?f (cr_connections db)\<rparr>"
    using assms(2) by (auto simp: rename_credential_def Let_def refuse_def split: if_splits)
  have ids: "distinct (map connection_key (cr_connections db))"
    using assms(1) by (auto simp: credentials_sound_def connection_key_def distinct_map inj_on_def)
  have "distinct (map (\<lambda>c. (\<lambda>c. (cn_team c, cn_label c)) (if connection_key c = (cid, tid) then c\<lparr>cn_label := label\<rparr> else c))
          (cr_connections db))"
    by (rule distinct_update_key [where b = "(tid, label)"])
      (use assms(1) free ids in \<open>simp_all add: credentials_sound_def connection_key_def [abs_def] list_ex_iff, blast\<close>)
  then have "distinct (map (\<lambda>c. (cn_team c, cn_label c)) (map ?f (cr_connections db)))"
    by (simp add: connection_key_def comp_def)
  then show ?thesis
    unfolding new by (intro sound_connections) (simp_all add: assms(1) comp_def f)
qed

lemma last_version_bound: "v \<in> set (cr_versions db) \<Longrightarrow> vr_credential v = cid \<Longrightarrow> vr_version v \<le> last_version cid db"
proof -
  have "x \<in> set xs \<Longrightarrow> x \<le> foldr max xs (0 :: nat)" for x xs
    by (induction xs) auto
  then show "v \<in> set (cr_versions db) \<Longrightarrow> vr_credential v = cid \<Longrightarrow> vr_version v \<le> last_version cid db"
    by (simp add: last_version_def)
qed

lemma connection_for_label_sound:
  assumes "credentials_sound db" and "connection_for_label new_id tid label by_id acc db = Inr (cid, db')"
  shows "credentials_sound db'" and "cr_versions db' = cr_versions db" and "cr_events db' = cr_events db"
proof -
  have "credentials_sound db' \<and> cr_versions db' = cr_versions db \<and> cr_events db' = cr_events db"
  proof (cases "List.find (\<lambda>c. cn_team c = tid \<and> cn_label c = label) (cr_connections db)")
    case None
    then show ?thesis
      using assms
      by (auto simp: connection_for_label_def bind_res_Inr_iff insert_connection_def credentials_sound_def
                 list_ex_iff list_all_iff split: if_splits)
  next
    case (Some c)
    then show ?thesis
      using assms by (auto simp: connection_for_label_def sound_stamp)
  qed
  then show "credentials_sound db'" and "cr_versions db' = cr_versions db" and "cr_events db' = cr_events db"
    by simp_all
qed

lemma find_key: "List.find P xs = Some x \<Longrightarrow> x \<in> set xs \<and> P x"
  by (auto simp: find_Some_iff)

lemma connection_of_None:
  "connection_of db v = None \<longleftrightarrow> (vr_credential v, vr_team v) \<notin> connection_key ` set (cr_connections db)"
  by (auto simp: connection_of_def find_None_iff connection_key_def image_iff)

lemma active_append: "vr_lifecycle v \<noteq> Active \<Longrightarrow> active_versions cid (vs @ [v]) = active_versions cid vs"
  by (simp add: active_versions_def)

lemma born_sound:
  assumes "credentials_sound db" and "insert_version v acc db = Inr db1" and "insert_event e acc db1 = Inr db2"
    and "vr_lifecycle v = Validating" and "ce_from e = Draft" and "ce_to e = Validating" and "ce_version e = vr_id v"
  shows "credentials_sound db2"
proof -
  have ins: "version_checks v" "db1 = db\<lparr>cr_versions := cr_versions db @ [v]\<rparr>" "connection_of db v \<noteq> None"
    "\<not> list_ex (\<lambda>w. vr_id w = vr_id v) (cr_versions db)"
    "\<not> list_ex (\<lambda>w. vr_credential w = vr_credential v \<and> vr_version w = vr_version v) (cr_versions db)"
    using assms(2) by (auto simp: insert_version_def list_ex_iff split: if_splits)
  have db2: "db2 = db1\<lparr>cr_events := cr_events db1 @ [e]\<rparr>"
    using assms(3) by (rule insert_event_Inr)
  have "logged (cr_versions db @ [v]) (cr_events db @ [e])"
    by (rule logged_born) (use assms ins in \<open>auto simp: credentials_sound_def stay\<close>)
  then show ?thesis
    using assms(1,4) ins unfolding db2
    by (auto simp: credentials_sound_def active_append connection_of_None list_ex_iff)
qed

lemma start_sound:
  assumes "credentials_sound db"
    and "start_credential_validation ncid nvid tid label provider config by_id acc db = Inr (r, acc', db')"
  shows "credentials_sound db'"
  using assms(2)
  by (auto simp: start_credential_validation_def refuse_def bind_res_Inr_iff Let_def split: if_splits
           intro: born_sound dest!: connection_for_label_sound(1) [OF assms(1)])

lemma move_sound:
  assumes "credentials_sound db"
    and "\<And>v. vr_id (g v) = vr_id v" "\<And>v. vr_credential (g v) = vr_credential v" "\<And>v. vr_team (g v) = vr_team v"
      "\<And>v. vr_version (g v) = vr_version v" "\<And>v. version_checks v \<Longrightarrow> version_checks (g v)"
    and "\<And>cid. length (active_versions cid (map (\<lambda>v. if hit v then g v else v) (cr_versions db))) \<le> 1"
    and "\<And>v. ce_version (ev v) = vr_id v"
    and "\<And>v. v \<in> set (cr_versions db) \<Longrightarrow> hit v \<Longrightarrow>
          ce_from (ev v) = vr_lifecycle v \<and> lifecycle_step (vr_lifecycle v) (ce_to (ev v)) \<and> vr_lifecycle (g v) = ce_to (ev v)"
  shows "credentials_sound (db\<lparr>cr_versions := map (\<lambda>v. if hit v then g v else v) (cr_versions db),
           cr_events := cr_events db @ map ev (filter hit (cr_versions db))\<rparr>)"
proof -
  have f: "vr_id (if p then g v else v) = vr_id v" "vr_credential (if p then g v else v) = vr_credential v"
    "vr_team (if p then g v else v) = vr_team v" "vr_version (if p then g v else v) = vr_version v" for p v
    by (simp_all add: assms(2-5))
  have "logged (map (\<lambda>v. if hit v then g v else v) (cr_versions db)) (cr_events db @ map ev (filter hit (cr_versions db)))"
    by (rule logged_move) (use assms in \<open>simp_all add: credentials_sound_def\<close>)
  moreover have "list_all version_checks (map (\<lambda>v. if hit v then g v else v) (cr_versions db))"
    using assms(1,6) by (auto simp: credentials_sound_def list.pred_map elim!: list.pred_mono_strong)
  moreover have "list_all (\<lambda>v. (vr_credential v, vr_team v) \<in> connection_key ` set (cr_connections db))
      (map (\<lambda>v. if hit v then g v else v) (cr_versions db))"
    using assms(1) by (simp add: credentials_sound_def list.pred_map comp_def f)
  ultimately show ?thesis
    using assms(1,7) by (simp add: credentials_sound_def comp_def f)
qed

lemma active_retired:
  "active_versions c (map (\<lambda>v. if vr_credential v = cid \<and> vr_lifecycle v = Active then retire_version v else v) vs)
     = (if c = cid then [] else active_versions c vs)"
  by (induction vs) (auto simp: active_versions_def retire_version_def)

lemma retire_active_sound:
  assumes "credentials_sound db" and "retire_active cid actor acc db = Inr db'"
  shows "credentials_sound db'" and "active_versions cid (cr_versions db') = []"
    and "cr_versions db' = map (\<lambda>v. if vr_credential v = cid \<and> vr_lifecycle v = Active then retire_version v else v) (cr_versions db)"
proof -
  let ?hit = "\<lambda>v. vr_credential v = cid \<and> vr_lifecycle v = Active"
  have db': "db' = db\<lparr>cr_versions := map (\<lambda>v. if ?hit v then retire_version v else v) (cr_versions db),
               cr_events := cr_events db @ map (replaced_event actor) (filter ?hit (cr_versions db))\<rparr>"
    using insert_events_Inr [OF assms(2) [unfolded retire_active_def Let_def]] by simp
  show "credentials_sound db'"
    unfolding db'
    by (rule move_sound)
      (use assms(1) in \<open>simp_all add: active_retired retire_version_def replaced_event_def version_checks_def
         credentials_sound_def\<close>)
  show "active_versions cid (cr_versions db') = []"
    and "cr_versions db' = map (\<lambda>v. if ?hit v then retire_version v else v) (cr_versions db)"
    by (simp_all add: db' active_retired)
qed

lemma joined_SomeD:
  "joined_version vid db = Some (c, v) \<Longrightarrow>
     v \<in> set (cr_versions db) \<and> vr_id v = vid \<and> cn_id c = vr_credential v \<and> cn_team c = vr_team v"
  by (auto simp: joined_version_def connection_of_def dest!: find_key split: option.splits)

lemma filter_one:
  assumes "distinct (map k xs)" and "x \<in> set xs"
  shows "filter (\<lambda>y. k y = k x) xs = [x]"
  using assms
proof (induction xs)
  case (Cons y xs)
  show ?case
  proof (cases "y = x")
    case True
    then show ?thesis
      using Cons.prems(1) by (auto simp: filter_empty_conv) (metis imageI)
  next
    case False
    then have x: "x \<in> set xs"
      using Cons.prems by simp
    then have "k y \<noteq> k x"
      using Cons.prems(1) by (metis distinct.simps(2) image_eqI list.simps(9) list.set_map)
    with x show ?thesis
      using Cons by simp
  qed
qed simp

lemma active_after_finish:
  assumes "distinct (map vr_id vs)" and "v \<in> set vs" and "vr_lifecycle v = Validating"
    and "\<And>cid. length (active_versions cid vs) \<le> 1" and "state = Active \<Longrightarrow> active_versions (vr_credential v) vs = []"
    and "state = Active \<or> state = Failed_Validation"
  shows "length (active_versions cid (map (\<lambda>w. if vr_id w = vr_id v then finish_row now state detail w else w) vs)) \<le> 1"
proof (cases "state = Active \<and> cid = vr_credential v")
  case True
  have "active_versions cid (map (\<lambda>w. if vr_id w = vr_id v then finish_row now state detail w else w) vs)
          = map (finish_row now state detail) (filter (\<lambda>w. vr_id w = vr_id v \<and> vr_credential w = cid) vs)"
    using True assms(5) by (induction vs) (auto simp: active_versions_def finish_row_def split: if_splits)
  moreover have "filter (\<lambda>w. vr_id w = vr_id v \<and> vr_credential w = cid) vs = [v]"
    using arg_cong [OF filter_one [OF assms(1,2)], of "filter (\<lambda>w. vr_credential w = cid)"] True by simp
  ultimately show ?thesis by simp
next
  case False
  have "active_versions cid (map (\<lambda>w. if vr_id w = vr_id v then finish_row now state detail w else w) ws)
          = active_versions cid ws" if "set ws \<subseteq> set vs" for ws
    using that
  proof (induction ws)
    case (Cons w ws)
    have "vr_id w = vr_id v \<Longrightarrow> w = v"
      using Cons.prems assms(1,2) by (auto simp: distinct_map inj_on_def)
    then show ?case
      using Cons False assms(3,6) by (auto simp: active_versions_def finish_row_def)
  qed (simp add: active_versions_def)
  then show ?thesis using assms(4) by simp
qed

lemma finish_sound:
  assumes sound: "credentials_sound db"
    and run: "finish_credential_validation now vid state detail actor acc db = Inr (r, db')"
  shows "credentials_sound db'"
proof -
  obtain c row db1 note_text where state: "state = Active \<or> state = Failed_Validation"
    and row: "joined_version vid db = Some (c, row)" "vr_lifecycle row = Validating"
    and db1: "(if state = Active then retire_active (cn_id c) actor acc db else Inr db) = Inr db1"
    and ev: "insert_event \<lparr>ce_version = vid, ce_from = Validating, ce_to = state, ce_detail = note_text, ce_actor = actor\<rparr> acc
               (db1\<lparr>cr_versions := map (\<lambda>v. if vr_id v = vid then finish_row now state detail v else v) (cr_versions db1)\<rparr>)
             = Inr db'"
    using run
    by (auto simp: finish_credential_validation_def refuse_def bind_res_Inr_iff Let_def
             split: if_splits option.splits prod.splits)
  note j = joined_SomeD [OF row(1)]
  have s1: "credentials_sound db1" and none: "state = Active \<Longrightarrow> active_versions (vr_credential row) (cr_versions db1) = []"
    and row1: "row \<in> set (cr_versions db1)"
    using sound db1 j row(2) by (auto simp: image_iff dest: retire_active_sound split: if_splits)
  let ?ev = "\<lambda>v. \<lparr>ce_version = vr_id v, ce_from = Validating, ce_to = state, ce_detail = note_text, ce_actor = actor\<rparr>"
  have only: "filter (\<lambda>v. vr_id v = vid) (cr_versions db1) = [row]"
    using filter_one [OF _ row1, of vr_id] s1 j by (simp add: credentials_sound_def)
  have "db' = db1\<lparr>cr_versions := map (\<lambda>v. if vr_id v = vid then finish_row now state detail v else v) (cr_versions db1),
                 cr_events := cr_events db1 @ map ?ev (filter (\<lambda>v. vr_id v = vid) (cr_versions db1))\<rparr>"
    using insert_event_Inr [OF ev] j by (simp add: only)
  moreover have "credentials_sound \<dots>"
  proof (rule move_sound [OF s1])
    show "length (active_versions cid (map (\<lambda>v. if vr_id v = vid then finish_row now state detail v else v) (cr_versions db1))) \<le> 1" for cid
      using active_after_finish [where now = now and detail = detail and cid = cid, OF _ row1 row(2) _ none state] s1 j
      by (simp add: credentials_sound_def)
    show "v \<in> set (cr_versions db1) \<Longrightarrow> vr_id v = vid \<Longrightarrow>
        ce_from (?ev v) = vr_lifecycle v \<and> lifecycle_step (vr_lifecycle v) (ce_to (?ev v))
        \<and> vr_lifecycle (finish_row now state detail v) = ce_to (?ev v)" for v
    proof -
      assume "v \<in> set (cr_versions db1)" and "vr_id v = vid"
      then have "v \<in> set (filter (\<lambda>v. vr_id v = vid) (cr_versions db1))" by simp
      then have "v = row" by (simp only: only) simp
      then show ?thesis using row(2) state by (auto simp: finish_row_def)
    qed
  qed (simp_all add: finish_row_def version_checks_def)
  ultimately show ?thesis by simp
qed

section \<open>Runs\<close>

text \<open>The operations, each with the accounts it finds; one that raises leaves the tables as they are.\<close>

datatype credential_op =
    StartValidation uuid uuid uuid pystr pystr protected_secret uuid
  | FinishValidation seconds uuid credential_state "pystr option" uuid
  | RenameCredential uuid uuid pystr
  | RetireCredential seconds uuid uuid

fun credential_step :: "credentials \<Rightarrow> accounts \<times> credential_op \<Rightarrow> credentials" where
  "credential_step db (acc, StartValidation ncid nvid tid label provider config by_id) =
     (case start_credential_validation ncid nvid tid label provider config by_id acc db of
        Inr (_, _, db') \<Rightarrow> db' | Inl _ \<Rightarrow> db)"
| "credential_step db (acc, FinishValidation now vid state detail actor) =
     (case finish_credential_validation now vid state detail actor acc db of Inr (_, db') \<Rightarrow> db' | Inl _ \<Rightarrow> db)"
| "credential_step db (acc, RenameCredential cid tid label) =
     (case rename_credential cid tid label db of Inr db' \<Rightarrow> db' | Inl _ \<Rightarrow> db)"
| "credential_step db (acc, RetireCredential now cid tid) =
     (case retire_credential now cid tid db of Inr db' \<Rightarrow> db' | Inl _ \<Rightarrow> db)"

definition no_credentials :: credentials where
  "no_credentials = \<lparr>cr_connections = [], cr_versions = [], cr_events = []\<rparr>"

definition credential_run :: "(accounts \<times> credential_op) list \<Rightarrow> credentials" where
  "credential_run ops = foldl credential_step no_credentials ops"

lemma step_sound: "credentials_sound db \<Longrightarrow> credentials_sound (credential_step db op)"
  by (cases "(db, op)" rule: credential_step.cases)
    (auto intro: start_sound finish_sound rename_sound retire_sound split: sum.splits)

lemma run_sound: "credentials_sound (credential_run ops)"
proof -
  have "credentials_sound db \<Longrightarrow> credentials_sound (foldl credential_step db ops)" for db
    by (induction ops arbitrary: db) (simp_all add: step_sound)
  moreover have "credentials_sound no_credentials"
    by (simp add: no_credentials_def credentials_sound_def logged_def active_versions_def)
  ultimately show ?thesis
    by (simp add: credential_run_def)
qed

text \<open>C34: Whatever sequence of the repository's operations runs, with whatever accounts, every version of a
  credential has a log of events that is a path of the life cycle (draft, validating, then active
  or failed, and active to retired) ending at its stored state, a connection has at most one
  active version, and a version is flagged active exactly when its state is.\<close>
theorem credential_lifecycle:
  "list_all (\<lambda>v. lifecycle_path Draft (events_of (vr_id v) (cr_events (credential_run ops))) (vr_lifecycle v)
      \<and> (vr_active v \<longleftrightarrow> vr_lifecycle v = Active)) (cr_versions (credential_run ops))
   \<and> (\<forall>cid. length (active_versions cid (cr_versions (credential_run ops))) \<le> 1)"
  using run_sound [of ops] by (simp add: credentials_sound_def logged_def list_all_iff version_checks_def)

section \<open>Validation and its result\<close>

lemma filter_active_map:
  "vr_lifecycle (f v) = Active \<Longrightarrow> vr_credential (f v) = cid \<Longrightarrow> v \<in> set vs \<Longrightarrow>
     f v \<in> set (active_versions cid (map f vs))"
  by (simp add: active_versions_def)

lemma insert_event_ok:
  "length (ce_detail e) \<le> 240 \<Longrightarrow> find_user acc (ce_actor e) \<noteq> None \<Longrightarrow> ce_version e \<in> vr_id ` set (cr_versions db) \<Longrightarrow>
     insert_event e acc db = Inr (db\<lparr>cr_events := cr_events db @ [e]\<rparr>)"
  by (auto simp: insert_event_def list_ex_iff)

lemma insert_events_ok:
  assumes "\<And>e. e \<in> set es \<Longrightarrow> length (ce_detail e) \<le> 240 \<and> find_user acc (ce_actor e) \<noteq> None
              \<and> ce_version e \<in> vr_id ` set (cr_versions db)"
  shows "insert_events es acc db = Inr (db\<lparr>cr_events := cr_events db @ es\<rparr>)"
  using assms by (induction es arbitrary: db) (simp_all add: insert_event_ok)

lemma VERSION_REPLACED_length: "length VERSION_REPLACED \<le> 240"
  by (simp add: VERSION_REPLACED_def)

lemma retire_active_ok:
  assumes "find_user acc actor \<noteq> None"
  shows "\<exists>db'. retire_active cid actor acc db = Inr db'"
proof -
  have "vr_id (if p then retire_version v else v) = vr_id v" for p v
    by (simp add: retire_version_def)
  then have ids: "vr_id ` set (map (\<lambda>v. if vr_credential v = cid \<and> vr_lifecycle v = Active then retire_version v else v) (cr_versions db))
               = vr_id ` set (cr_versions db)"
    by (simp add: image_image del: if_image_distrib)
  show ?thesis
    unfolding retire_active_def Let_def
    by (rule exI, rule insert_events_ok)
      (use assms ids in \<open>auto simp: replaced_event_def VERSION_REPLACED_length simp del: if_image_distrib\<close>)
qed

lemma retire_row_id [simp]: "vr_id (if p then retire_version v else v) = vr_id v"
  by (simp add: retire_version_def)

lemma finish_row_id [simp]: "vr_id (if p then finish_row now state detail v else v) = vr_id v"
  by (simp add: finish_row_def)

lemma active_ids_finish:
  assumes "distinct (map vr_id vs)" and "row \<in> set vs" and "active_versions (vr_credential row) vs = []"
  shows "map vr_id (active_versions cid (map (\<lambda>v. if vr_id v = vr_id row then finish_row now Active detail v else v) vs))
           = (if cid = vr_credential row then [vr_id row] else map vr_id (active_versions cid (filter (\<lambda>v. vr_id v \<noteq> vr_id row) vs)))"
  using assms
proof (induction vs)
  case (Cons v vs)
  show ?case
  proof (cases "v = row")
    case True
    have "\<And>w. w \<in> set vs \<Longrightarrow> vr_id w \<noteq> vr_id row"
      using Cons.prems(1) True by (metis distinct.simps(2) image_eqI list.simps(9) list.set_map)
    then have "map (\<lambda>v. if vr_id v = vr_id row then finish_row now Active detail v else v) vs = vs"
      and "filter (\<lambda>v. vr_id v \<noteq> vr_id row) vs = vs"
      by (auto simp: map_idI filter_id_conv)
    then show ?thesis
      using Cons.prems(3) True by (auto simp: active_versions_def finish_row_def split: if_splits)
  next
    case False
    then have "row \<in> set vs"
      using Cons.prems by simp
    moreover from this have "vr_id v \<noteq> vr_id row"
      using Cons.prems(1) by (metis distinct.simps(2) image_eqI list.simps(9) list.set_map)
    ultimately show ?thesis
      using Cons by (auto simp: active_versions_def split: if_splits)
  qed
qed simp

text \<open>A validation that succeeds for a version that is still validating always commits, whoever
  acts: afterwards the version is the only active one of its connection, the version that was
  active is retired, and the versions of every other connection are as they were.\<close>
theorem validated_version_replaces:
  assumes "credentials_sound db" and "joined_version vid db = Some (c, row)" and "vr_lifecycle row = Validating"
    and "find_user acc actor \<noteq> None"
  shows "\<exists>r db'. finish_credential_validation now vid Active (Some '''') actor acc db = Inr (r, db')
           \<and> cv_id r = vid \<and> cv_active r
           \<and> map vr_id (active_versions (cn_id c) (cr_versions db')) = [vid]
           \<and> filter (\<lambda>v. vr_credential v \<noteq> cn_id c) (cr_versions db') = filter (\<lambda>v. vr_credential v \<noteq> cn_id c) (cr_versions db)"
proof -
  note j = joined_SomeD [OF assms(2)]
  obtain db1 where db1: "retire_active (cn_id c) actor acc db = Inr db1"
    using retire_active_ok [OF assms(4)] by blast
  note r = retire_active_sound [OF assms(1) db1]
  have row1: "row \<in> set (cr_versions db1)"
    using j assms(3) by (auto simp: r(3) image_iff)
  let ?vs = "map (\<lambda>v. if vr_id v = vid then finish_row now Active (Some '''') v else v) (cr_versions db1)"
  have "vid \<in> vr_id ` set ?vs"
    using row1 j by (auto simp: image_image simp del: if_image_distrib intro: rev_image_eqI)
  then have "insert_event \<lparr>ce_version = vid, ce_from = Validating, ce_to = Active, ce_detail = '''', ce_actor = actor\<rparr> acc
               (db1\<lparr>cr_versions := ?vs\<rparr>)
             = Inr (db1\<lparr>cr_versions := ?vs, cr_events := cr_events db1 @
                 [\<lparr>ce_version = vid, ce_from = Validating, ce_to = Active, ce_detail = '''', ce_actor = actor\<rparr>]\<rparr>)"
    using assms(4) by (subst insert_event_ok) simp_all
  then have run: "\<exists>r db'. finish_credential_validation now vid Active (Some '''') actor acc db = Inr (r, db')
      \<and> cv_id r = vid \<and> cv_active r \<and> cr_versions db' = ?vs"
    using assms(2,3) j db1 by (simp add: finish_credential_validation_def)
  have "map vr_id (active_versions (cn_id c) ?vs) = [vid]"
    using active_ids_finish [OF _ row1] r(1,2) j by (simp add: credentials_sound_def)
  moreover have "filter (\<lambda>v. vr_credential v \<noteq> cn_id c) ?vs = filter (\<lambda>v. vr_credential v \<noteq> cn_id c) (cr_versions db)"
  proof -
    have "vr_credential v = cn_id c" if "v \<in> set (cr_versions db)" "vr_id v = vid" for v
      using that j assms(1) by (auto simp: credentials_sound_def distinct_map inj_on_def)
    then have "filter (\<lambda>v. vr_credential v \<noteq> cn_id c)
        (map (\<lambda>v. if vr_id v = vid then finish_row now Active (Some '''') v else v)
          (map (\<lambda>v. if vr_credential v = cn_id c \<and> vr_lifecycle v = Active then retire_version v else v) ws))
        = filter (\<lambda>v. vr_credential v \<noteq> cn_id c) ws" if "set ws \<subseteq> set (cr_versions db)" for ws
      using that by (induction ws) (auto simp: finish_row_def retire_version_def)
    then show ?thesis by (simp add: r(3))
  qed
  ultimately show ?thesis
    using run by metis
qed

section \<open>Examples\<close>

definition sealed :: protected_secret where
  "sealed = \<lparr>ps_ciphertext = ''c'', ps_wrapped_data_key = ''w'', ps_master_key_version = ''v1''\<rparr>"

text \<open>Two validations of one connection overlap and the older one ends last.\<close>

definition overlapping :: "(accounts \<times> credential_op) list" where
  "overlapping =
     [(duo, StartValidation 10 11 7 ''home'' ''geonode'' sealed 1),
      (duo, StartValidation 20 12 7 ''home'' ''geonode'' sealed 1),
      (duo, FinishValidation 5 12 Active (Some '''') 1),
      (duo, FinishValidation 6 11 Active (Some '''') 1)]"

lemma older_validation_wins:
  "map (\<lambda>v. (vr_id v, vr_version v, vr_lifecycle v)) (cr_versions (credential_run overlapping))
     = [(11, 1, Active), (12, 2, Retired)]"
  by code_simp

text \<open>Retiring the connection leaves its version active.\<close>

lemma retired_connection_stays_active:
  "map_option (\<lambda>v. (cv_active v, cv_state v))
     (credential 11 (credential_run (overlapping @ [(duo, RetireCredential 7 10 7)]))) = Some (True, Active)"
  by code_simp

theorem validated_version_replaces_witness:
  "\<exists>r db'. finish_credential_validation 5 12 Active (Some '''') 1 duo (credential_run (take 2 overlapping)) = Inr (r, db')
     \<and> cv_id r = 12 \<and> cv_active r \<and> map vr_id (active_versions 10 (cr_versions db')) = [12]"
proof -
  obtain c row where c: "joined_version 12 (credential_run (take 2 overlapping)) = Some (c, row)" and "cn_id c = 10"
    and "vr_lifecycle row = Validating"
  proof
    show "joined_version 12 (credential_run (take 2 overlapping)) =
       Some (\<lparr>cn_id = 10, cn_team = 7, cn_label = ''home'', cn_created_by = 1, cn_retired_at = None\<rparr>,
             \<lparr>vr_id = 12, vr_credential = 10, vr_team = 7, vr_version = 2, vr_provider = ''geonode'',
              vr_config = sealed, vr_active = False, vr_lifecycle = Validating, vr_validated_at = None,
              vr_failure_detail = None, vr_created_by = 1\<rparr>)"
      by code_simp
  qed simp_all
  moreover have "find_user duo 1 \<noteq> None"
    by code_simp
  ultimately show ?thesis
    using validated_version_replaces [OF run_sound c, of duo 1 5] by auto
qed

end
