(* ===== verification/Naming.thy ===== *)
theory Naming
  imports Credentials
begin

text \<open>
  How the portal cleans the texts an administrator types (the static methods at the end of
  \<open>portal/application/provisioning.py\<close>): team names, slugs, addresses and labels, and the search
  for a slug that is still free.
\<close>

section \<open>Cleaning\<close>

definition team_name :: "pystr \<Rightarrow> account_error + pystr" where
  "team_name v =
     (let name = py_strip v
      in if \<not> (1 \<le> length name \<and> length name \<le> 120) then refuse ProvisioningError TEAM_NAME_LENGTH else Inr name)"

definition clean_slug :: "pystr \<Rightarrow> account_error + pystr" where
  "clean_slug v =
     (let slug = py_lower (py_strip v)
      in if \<not> slug_ok slug then refuse ProvisioningError SLUG_INVALID else Inr slug)"

definition clean_label :: "pystr \<Rightarrow> account_error + pystr" where
  "clean_label v =
     (let label = py_strip v
      in if \<not> (1 \<le> length label \<and> length label \<le> 120) then refuse CredentialConfigurationError LABEL_LENGTH
         else Inr label)"

text \<open>
  The pattern \<open>[^@\s]+@[^@\s]+\.[^@\s]+\<close> on the whole text: one at sign, no white space, something
  before it, and behind it a dot with something on both sides.
\<close>

definition domain_ok :: "pystr \<Rightarrow> bool" where
  "domain_ok d \<longleftrightarrow> list_ex (\<lambda>i. 0 < i \<and> i + 1 < length d \<and> d ! i = CHR ''.'') [0..<length d]"

definition email_ok :: "pystr \<Rightarrow> bool" where
  "email_ok e \<longleftrightarrow>
     list_all (\<lambda>c. \<not> py_isspace_char c) e
     \<and> (case py_split CHR ''@'' e of [local, domain] \<Rightarrow> local \<noteq> [] \<and> domain_ok domain | _ \<Rightarrow> False)"

definition clean_email :: "pystr \<Rightarrow> account_error + pystr" where
  "clean_email v =
     (let email = py_strip (py_lower v)
      in if \<not> email_ok email then refuse ProvisioningError EMAIL_INVALID else Inr email)"

section \<open>Slugs of names\<close>

text \<open>\<open>re.sub("[^a-z0-9]+", "-", s)\<close>; the flag says that the last character belonged to a run.\<close>

fun dash_runs :: "bool \<Rightarrow> pystr \<Rightarrow> pystr" where
  "dash_runs b [] = []"
| "dash_runs b (c # s) =
     (if slug_char c then c # dash_runs False s
      else if b then dash_runs True s else CHR ''-'' # dash_runs True s)"

definition strip_dashes :: "pystr \<Rightarrow> pystr" where
  "strip_dashes s = rev (dropWhile (\<lambda>c. c = CHR ''-'') (rev (dropWhile (\<lambda>c. c = CHR ''-'') s)))"

definition slugify :: "pystr \<Rightarrow> pystr" where
  "slugify name =
     (let base = take 58 (strip_dashes (dash_runs False (py_lower (py_strip name))))
      in if length base < 2 then (if base \<noteq> [] then take 58 (base @ ''-equipo'') else ''equipo'') else base)"

text \<open>The loop of \<open>_unique_slug\<close>, which ends when a candidate is free.\<close>

definition numbered :: "pystr \<Rightarrow> nat \<Rightarrow> pystr" where
  "numbered base n = base @ ''-'' @ nat_str n"

partial_function (option) free_slug :: "accounts \<Rightarrow> pystr \<Rightarrow> pystr \<Rightarrow> nat \<Rightarrow> pystr option" where
  [code]: "free_slug db base candidate suffix =
     (if team_by_slug candidate db \<noteq> None then free_slug db base (numbered base suffix) (suffix + 1)
      else Some candidate)"

definition unique_slug :: "pystr \<Rightarrow> accounts \<Rightarrow> pystr option" where
  "unique_slug name db = free_slug db (slugify name) (slugify name) 2"

section \<open>A slug is always found\<close>

lemma dash_runs_chars: "c \<in> set (dash_runs b s) \<Longrightarrow> slug_char c \<or> c = CHR ''-''"
  by (induction b s rule: dash_runs.induct) (auto split: if_splits)

lemma strip_dashes_subset: "set (strip_dashes s) \<subseteq> set s"
proof -
  have "set (dropWhile P xs) \<subseteq> set xs" for P and xs :: pystr
    using set_dropWhileD by fastforce
  then show ?thesis
    unfolding strip_dashes_def by (metis set_rev subset_trans)
qed

lemma hd_strip_dashes: "strip_dashes s \<noteq> [] \<Longrightarrow> hd (strip_dashes s) \<noteq> CHR ''-''"
proof -
  let ?t = "dropWhile (\<lambda>c. c = CHR ''-'') s"
  assume ne: "strip_dashes s \<noteq> []"
  obtain u where u: "?t = strip_dashes s @ u"
    by (metis rev_append rev_rev_ident strip_dashes_def takeWhile_dropWhile_id)
  then have "?t \<noteq> []" and "hd ?t = hd (strip_dashes s)"
    using ne by auto
  then show ?thesis
    using hd_dropWhile [of "\<lambda>c. c = CHR ''-''" s] by auto
qed

lemma dash_not_slug: "\<not> slug_char CHR ''-''"
  by (simp add: slug_char_def is_decimal_char_def)

lemma slugify_shape:
  "\<exists>c r. slugify name = c # r \<and> slug_char c \<and> 1 \<le> length r \<and> length r \<le> 57 \<and> list_all (\<lambda>d. slug_char d \<or> d = CHR ''-'') r"
proof -
  let ?s = "strip_dashes (dash_runs False (py_lower (py_strip name)))"
  have chars: "d \<in> set ?s \<Longrightarrow> slug_char d \<or> d = CHR ''-''" for d
    using strip_dashes_subset dash_runs_chars by blast
  have suffix: "list_all (\<lambda>d. slug_char d \<or> d = CHR ''-'') ''-equipo''"
    and e: "slug_char CHR ''e''" and quipo: "list_all (\<lambda>d. slug_char d \<or> d = CHR ''-'') ''quipo''"
    by (simp_all add: slug_char_def is_decimal_char_def)
  show ?thesis
  proof (cases ?s)
    case Nil
    then show ?thesis
      using e quipo by (simp add: slugify_def)
  next
    case (Cons c r)
    have c: "slug_char c"
      using chars [of c] hd_strip_dashes [of "dash_runs False (py_lower (py_strip name))"] Cons by simp
    show ?thesis
    proof (cases r)
      case Nil
      then show ?thesis
        using Cons c suffix by (simp add: slugify_def)
    next
      case (Cons d r')
      then have "slugify name = c # take 57 r"
        using \<open>?s = c # r\<close> by (simp add: slugify_def)
      moreover have "list_all (\<lambda>d. slug_char d \<or> d = CHR ''-'') (take 57 r)"
        using chars \<open>?s = c # r\<close> by (auto simp: list_all_iff dest: in_set_takeD)
      ultimately show ?thesis
        using c Cons by simp
    qed
  qed
qed

lemma nat_str_inj: "nat_str m = nat_str n \<Longrightarrow> m = n"
  by (metis digits_value_nat_str)

lemma numbered_inj: "numbered b m = numbered b n \<longleftrightarrow> m = n"
  by (auto simp: numbered_def dest: nat_str_inj)

lemma length_nat_str: "n < 10 ^ Suc k \<Longrightarrow> length (nat_str n) \<le> Suc k"
proof (induction k arbitrary: n)
  case (Suc k)
  then show ?case
  proof (cases "n < 10")
    case False
    then have "n div 10 < 10 ^ Suc k"
      using Suc.prems by (simp add: less_mult_imp_div_less)
    then show ?thesis
      using False Suc.IH by (subst nat_str.simps) simp
  qed (simp add: nat_str.simps)
qed (simp add: nat_str.simps)

lemma numbered_ok:
  assumes "base = c # r" and "slug_char c" and "length r \<le> 57" and "list_all (\<lambda>d. slug_char d \<or> d = CHR ''-'') r"
    and "n < 10000"
  shows "slug_ok (numbered base n)"
proof -
  have "length (nat_str n) \<le> 4"
    using length_nat_str [of n 3] assms(5) by simp
  moreover have "list_all (\<lambda>d. slug_char d \<or> d = CHR ''-'') (nat_str n)"
    using nat_str_decimal [of n] by (auto simp: slug_char_def elim: list.pred_mono_strong)
  ultimately show ?thesis
    using assms by (simp add: slug_ok_def numbered_def)
qed

lemma taken_in: "team_by_slug s db \<noteq> None \<longleftrightarrow> s \<in> set (map tm_slug (ac_teams db))"
  by (auto simp: team_by_slug_def find_None_iff image_iff)

text \<open>Among as many numbers as there are teams, and one more, one is not taken.\<close>

lemma some_number_free:
  "\<exists>k. m \<le> k \<and> k \<le> m + length (ac_teams db) \<and> team_by_slug (numbered base k) db = None"
proof (rule ccontr)
  assume no: "\<not> ?thesis"
  let ?ks = "{m..m + length (ac_teams db)}"
  have "numbered base ` ?ks \<subseteq> set (map tm_slug (ac_teams db))"
    using no taken_in [of _ db] by auto
  then have "card (numbered base ` ?ks) \<le> length (ac_teams db)"
    by (metis card_length card_mono finite_set le_trans length_map)
  moreover have "card (numbered base ` ?ks) = Suc (length (ac_teams db))"
    by (subst card_image) (simp_all add: inj_on_def numbered_inj)
  ultimately show False by simp
qed

lemma free_slug_numbered:
  assumes "n \<le> k" and "team_by_slug (numbered base k) db = None"
  shows "\<exists>j. n \<le> j \<and> j \<le> k \<and> free_slug db base (numbered base n) (Suc n) = Some (numbered base j)
           \<and> team_by_slug (numbered base j) db = None"
  using assms(1)
proof (induction n rule: inc_induct)
  case base
  then show ?case using assms(2) by (subst free_slug.simps) auto
next
  case (step n)
  show ?case
  proof (cases "team_by_slug (numbered base n) db = None")
    case True
    then show ?thesis using step by (subst free_slug.simps) auto
  next
    case False
    then show ?thesis using step by (subst free_slug.simps) (auto dest: Suc_leD)
  qed
qed

text \<open>The search for a slug always ends: it finds a slug no team has, and while the portal has fewer than ten
  thousand teams the slug satisfies the check of the table, whatever name the administrator typed.\<close>
theorem unique_slug_found:
  assumes "length (ac_teams db) + 2 < 10000"
  shows "\<exists>s. unique_slug name db = Some s \<and> team_by_slug s db = None \<and> slug_ok s"
proof -
  obtain c r where b: "slugify name = c # r" "slug_char c" "1 \<le> length r" "length r \<le> 57"
    "list_all (\<lambda>d. slug_char d \<or> d = CHR ''-'') r"
    using slugify_shape by blast
  show ?thesis
  proof (cases "team_by_slug (slugify name) db = None")
    case True
    then show ?thesis
      using b by (simp add: unique_slug_def free_slug.simps slug_ok_def)
  next
    case False
    obtain k where "2 \<le> k" "k \<le> 2 + length (ac_teams db)" "team_by_slug (numbered (slugify name) k) db = None"
      using some_number_free by blast
    then obtain j where j: "j \<le> k" "free_slug db (slugify name) (numbered (slugify name) 2) (Suc 2) = Some (numbered (slugify name) j)"
      "team_by_slug (numbered (slugify name) j) db = None"
      using free_slug_numbered by blast
    have "slug_ok (numbered (slugify name) j)"
      by (rule numbered_ok [OF b(1,2,4,5)]) (use j(1) \<open>k \<le> _\<close> assms in simp)
    then show ?thesis
      using j False by (simp add: unique_slug_def free_slug.simps [of db _ "slugify name"] numeral_3_eq_3 numeral_2_eq_2)
  qed
qed

theorem unique_slug_found_witness:
  "\<exists>s. unique_slug ''Norte'' duo = Some s \<and> team_by_slug s duo = None \<and> slug_ok s"
proof -
  have "length (ac_teams duo) + 2 < 10000"
    by code_simp
  then show ?thesis
    by (rule unique_slug_found)
qed

end
