(* ===== verification/Sessions.thy ===== *)
theory Sessions
  imports Teams
begin

text \<open>
  Cookie sessions and one-time tokens (\<open>portal/application/sessions.py\<close>), with \<open>valid_csrf\<close> of
  \<open>portal/security.py\<close>. The hash of a token (\<open>hashlib.sha256\<close>) is a parameter, and the tokens
  drawn from \<open>secrets\<close> are arguments. \<open>one_time_store\<close> is the contract the tokens rely on; the
  ephemeral store provides it.
\<close>

section \<open>The contract of one-time tokens\<close>

locale one_time_store =
  fixes put :: "seconds \<Rightarrow> 'k \<Rightarrow> 'v \<Rightarrow> seconds \<Rightarrow> 's \<Rightarrow> bool \<times> 's"
    and take_out :: "seconds \<Rightarrow> 'k \<Rightarrow> 's \<Rightarrow> 'v option \<times> 's"
    and look :: "seconds \<Rightarrow> 'k \<Rightarrow> 's \<Rightarrow> 'v option"
  assumes take_value: "fst (take_out now k s) = look now k s"
    and take_gone: "now \<le> t \<Longrightarrow> look t k (snd (take_out now k s)) = None"
    and take_other: "k' \<noteq> k \<Longrightarrow> look t k' (snd (take_out now k s)) = look t k' s"
    and put_free: "fst (put now k v ttl s) \<longleftrightarrow> look now k s = None"
    and put_value: "look now k s = None \<Longrightarrow> look t k (snd (put now k v ttl s)) = (if t < now + ttl then Some v else None)"
    and put_other: "k' \<noteq> k \<Longrightarrow> look t k' (snd (put now k v ttl s)) = look t k' s"
begin

lemma spent_once:
  assumes "now \<le> t"
  shows "fst (take_out t k (snd (take_out now k s))) = None"
  by (simp add: take_value take_gone [OF assms])

lemma lifecycle:
  assumes "look now k s = None" and "t < now + ttl" and "t \<le> t'"
  shows "fst (take_out t k (snd (put now k v ttl s))) = Some v"
    and "fst (take_out t' k (snd (take_out t k (snd (put now k v ttl s))))) = None"
  using assms by (simp_all add: take_value put_value take_gone)

lemma expired: "look now k s = None \<Longrightarrow> now + ttl \<le> t \<Longrightarrow> fst (take_out t k (snd (put now k v ttl s))) = None"
  by (simp add: take_value put_value)

end

interpretation one_time: one_time_store put_new take_key read
  by unfold_locales
     (auto simp: put_new_def take_key_def read_def live_update live_delete live_mono split: option.splits)

section \<open>One-time tokens\<close>

definition LOGIN_CSRF :: pystr where "LOGIN_CSRF = ''login_csrf''"
definition PENDING_MFA :: pystr where "PENDING_MFA = ''pending_mfa''"
definition LOGIN_CSRF_TTL :: seconds where "LOGIN_CSRF_TTL = 600"
definition PENDING_MFA_TTL :: seconds where "PENDING_MFA_TTL = 300"
definition SESSION_IDLE :: seconds where "SESSION_IDLE = 43200"
definition SESSION_LIFETIME :: seconds where "SESSION_LIFETIME = 604800"

definition token_key :: "(pystr \<Rightarrow> pystr) \<Rightarrow> pystr \<Rightarrow> pystr \<Rightarrow> pystr" where
  "token_key token_hash purpose token = purpose @ '':'' @ token_hash token"

definition issue ::
  "(pystr \<Rightarrow> pystr) \<Rightarrow> seconds \<Rightarrow> pystr \<Rightarrow> stored \<Rightarrow> seconds \<Rightarrow> pystr \<Rightarrow> ephemeral \<Rightarrow> pystr \<times> ephemeral" where
  "issue token_hash now purpose payload ttl token s =
     (token, snd (put_new now (token_key token_hash purpose token) payload ttl s))"

definition consume ::
  "(pystr \<Rightarrow> pystr) \<Rightarrow> seconds \<Rightarrow> pystr \<Rightarrow> pystr option \<Rightarrow> ephemeral \<Rightarrow> stored option \<times> ephemeral" where
  "consume token_hash now purpose token s =
     (case token of
        None \<Rightarrow> (None, s)
      | Some t \<Rightarrow> if t = [] then (None, s) else take_key now (token_key token_hash purpose t) s)"

definition peek :: "(pystr \<Rightarrow> pystr) \<Rightarrow> seconds \<Rightarrow> pystr \<Rightarrow> pystr option \<Rightarrow> ephemeral \<Rightarrow> stored option" where
  "peek token_hash now purpose token s =
     (case token of
        None \<Rightarrow> None
      | Some t \<Rightarrow> if t = [] then None else read now (token_key token_hash purpose t) s)"

section \<open>Sessions\<close>

record browser_session =
  bs_user :: portal_user
  bs_csrf :: pystr
  bs_mfa_verified_at :: "seconds option"

definition session_key :: "(pystr \<Rightarrow> pystr) \<Rightarrow> pystr \<Rightarrow> pystr" where
  "session_key token_hash token = ''session:'' @ token_hash token"

definition mint ::
  "(pystr \<Rightarrow> pystr) \<Rightarrow> seconds \<Rightarrow> pystr \<Rightarrow> pystr \<Rightarrow> uuid \<Rightarrow> seconds option \<Rightarrow> ephemeral \<Rightarrow> pystr \<times> ephemeral" where
  "mint token_hash now token csrf user_id mfa_verified_at s =
     (token, snd (put_new now (session_key token_hash token)
        (SessionDoc \<lparr>rec_user = user_id, rec_csrf = csrf, rec_created = now, rec_mfa = mfa_verified_at\<rparr>)
        SESSION_IDLE s))"

text \<open>\<open>json.loads\<close> of a stored value as a session; another value is no session record.\<close>

definition session_record_of :: "stored \<Rightarrow> store_error + session_record" where
  "session_record_of v = (case v of SessionDoc r \<Rightarrow> Inr r | _ \<Rightarrow> Inl VALUE_ERROR)"

text \<open>
  \<open>load\<close> reads the record, and writes back the value it read with a new deadline. Between the two
  statements other requests may run, so they are two definitions, composed by \<open>load_session\<close>.
\<close>

definition load_finish ::
  "seconds \<Rightarrow> pystr \<Rightarrow> session_record \<Rightarrow> accounts \<Rightarrow> ephemeral \<Rightarrow> browser_session option \<times> ephemeral" where
  "load_finish now key r db s =
     (if SESSION_LIFETIME < now - rec_created r then (None, discard key s)
      else
        (case replace now key (SessionDoc r) SESSION_IDLE s of
           (False, s) \<Rightarrow> (None, s)
         | (True, s) \<Rightarrow>
             (case user_by_id (rec_user r) db of
                None \<Rightarrow> (None, discard key s)
              | Some u \<Rightarrow>
                  if pu_is_active u
                  then (Some \<lparr>bs_user = u, bs_csrf = rec_csrf r, bs_mfa_verified_at = rec_mfa r\<rparr>, s)
                  else (None, discard key s))))"

definition load_session ::
  "(pystr \<Rightarrow> pystr) \<Rightarrow> seconds \<Rightarrow> pystr option \<Rightarrow> accounts \<Rightarrow> ephemeral
     \<Rightarrow> (store_error + browser_session option) \<times> ephemeral" where
  "load_session token_hash now token db s =
     (case token of
        None \<Rightarrow> (Inr None, s)
      | Some t \<Rightarrow>
          if t = [] then (Inr None, s)
          else
            (case read now (session_key token_hash t) s of
               None \<Rightarrow> (Inr None, s)
             | Some v \<Rightarrow>
                 (case session_record_of v of
                    Inl e \<Rightarrow> (Inl e, s)
                  | Inr r \<Rightarrow>
                      (case load_finish now (session_key token_hash t) r db s of (b, s) \<Rightarrow> (Inr b, s)))))"

text \<open>\<open>hmac.compare_digest\<close> refuses a text that is not ASCII.\<close>

definition valid_csrf :: "pystr option \<Rightarrow> pystr \<Rightarrow> exn + bool" where
  "valid_csrf submitted expected =
     (case submitted of
        None \<Rightarrow> Inr False
      | Some t \<Rightarrow>
          if t = [] then Inr False
          else if list_all (\<lambda>c. code_point c < 128) (t @ expected) then Inr (t = expected)
          else Inl (raise_exn (BuiltinError ''TypeError'') ''comparing strings with non-ASCII characters is not supported''))"

datatype csrf_result = CsrfSession browser_session | CsrfDenied portal_error | CsrfRaised exn | CsrfStore store_error

definition verify_csrf ::
  "(pystr \<Rightarrow> pystr) \<Rightarrow> seconds \<Rightarrow> pystr option \<Rightarrow> pystr option \<Rightarrow> accounts \<Rightarrow> ephemeral \<Rightarrow> csrf_result \<times> ephemeral" where
  "verify_csrf token_hash now token submitted db s =
     (let denied = CsrfDenied \<lparr>pe_class = PermissionDenied, pe_reason = CSRF_INVALID, pe_params = []\<rparr>
      in case load_session token_hash now token db s of
           (Inl e, s) \<Rightarrow> (CsrfStore e, s)
         | (Inr None, s) \<Rightarrow> (denied, s)
         | (Inr (Some b), s) \<Rightarrow>
             ((case valid_csrf submitted (bs_csrf b) of
                 Inl e \<Rightarrow> CsrfRaised e
               | Inr ok \<Rightarrow> if ok then CsrfSession b else denied), s))"

definition destroy :: "(pystr \<Rightarrow> pystr) \<Rightarrow> pystr option \<Rightarrow> ephemeral \<Rightarrow> ephemeral" where
  "destroy token_hash token s =
     (case token of
        None \<Rightarrow> s
      | Some t \<Rightarrow> if t = [] then s else discard (session_key token_hash t) s)"

definition mark_step_up_verified ::
  "(pystr \<Rightarrow> pystr) \<Rightarrow> seconds \<Rightarrow> pystr option \<Rightarrow> ephemeral \<Rightarrow> (store_error + bool) \<times> ephemeral" where
  "mark_step_up_verified token_hash now token s =
     (case token of
        None \<Rightarrow> (Inr False, s)
      | Some t \<Rightarrow>
          if t = [] then (Inr False, s)
          else
            (case read now (session_key token_hash t) s of
               None \<Rightarrow> (Inr False, s)
             | Some v \<Rightarrow>
                 (case session_record_of v of
                    Inl e \<Rightarrow> (Inl e, s)
                  | Inr r \<Rightarrow>
                      (case replace now (session_key token_hash t) (SessionDoc (r\<lparr>rec_mfa := Some now\<rparr>)) SESSION_IDLE s of
                         (b, s) \<Rightarrow> (Inr b, s)))))"

section \<open>Histories of a session\<close>

datatype session_op =
    Mint pystr pystr uuid "seconds option"
  | Load "pystr option"
  | MarkStepUp "pystr option"
  | Destroy "pystr option"
  | SweepStore

text \<open>A request at an instant, with the accounts as they are then.\<close>

fun session_step :: "(pystr \<Rightarrow> pystr) \<Rightarrow> seconds \<times> accounts \<times> session_op \<Rightarrow> ephemeral \<Rightarrow> ephemeral" where
  "session_step h (now, db, Mint token csrf uid mfa) s = snd (mint h now token csrf uid mfa s)"
| "session_step h (now, db, Load token) s = snd (load_session h now token db s)"
| "session_step h (now, db, MarkStepUp token) s = snd (mark_step_up_verified h now token s)"
| "session_step h (now, db, Destroy token) s = destroy h token s"
| "session_step h (now, db, SweepStore) s = snd (sweep now s)"

definition mints :: "(pystr \<Rightarrow> pystr) \<Rightarrow> pystr \<Rightarrow> session_op \<Rightarrow> bool" where
  "mints h key c = (case c of Mint t _ _ _ \<Rightarrow> session_key h t = key | _ \<Rightarrow> False)"

text \<open>What the row of a session may be: none, or a record of the same user made at the same instant.\<close>

definition session_row :: "pystr \<Rightarrow> (session_record \<Rightarrow> bool) \<Rightarrow> ephemeral \<Rightarrow> bool" where
  "session_row key ok s \<longleftrightarrow>
     (\<forall>w. (key, w) \<in> set s \<longrightarrow> (\<exists>r. row_value w = SessionDoc r \<and> ok r))"

lemma session_row_live:
  "session_row key ok s \<Longrightarrow> live_row now key s = Some w \<Longrightarrow> \<exists>r. row_value w = SessionDoc r \<and> ok r"
  by (auto simp: session_row_def live_row_def dest!: map_of_SomeD split: option.splits if_splits)

lemma set_update: "(k, w) \<in> set (AList.update key v s) \<Longrightarrow> (k = key \<and> w = v) \<or> (k, w) \<in> set s"
  by (induction s) (auto split: if_splits)

lemma session_row_update:
  "session_row key ok s \<Longrightarrow> (k = key \<Longrightarrow> \<exists>r. row_value v = SessionDoc r \<and> ok r) \<Longrightarrow>
   session_row key ok (AList.update k v s)"
  unfolding session_row_def by (metis set_update)

lemma session_row_subset: "session_row key ok s \<Longrightarrow> set s' \<subseteq> set s \<Longrightarrow> session_row key ok s'"
  by (auto simp: session_row_def)

lemma session_row_replace:
  "session_row key ok s \<Longrightarrow> (k = key \<Longrightarrow> ok r) \<Longrightarrow>
   session_row key ok (snd (replace now k (SessionDoc r) ttl s))"
  by (auto simp: replace_def intro: session_row_update split: option.splits)

lemma session_row_discard: "session_row key ok s \<Longrightarrow> session_row key ok (discard k s)"
  by (auto simp: discard_def intro: session_row_subset [OF _ delete_subset])

lemma session_row_finish:
  assumes "session_row key ok s" and "k = key \<Longrightarrow> ok r"
  shows "session_row key ok (snd (load_finish now k r db s))"
proof -
  obtain b s1 where rep: "replace now k (SessionDoc r) SESSION_IDLE s = (b, s1)"
    by (cases "replace now k (SessionDoc r) SESSION_IDLE s")
  have "session_row key ok s1"
    using session_row_replace [OF assms(1), of k r now SESSION_IDLE] assms(2) rep by simp
  then show ?thesis
    using rep session_row_discard assms(1)
    by (auto simp: load_finish_def split: option.splits bool.splits)
qed

lemma read_session:
  "session_row key ok s \<Longrightarrow> read now key s = Some v \<Longrightarrow> session_record_of v = Inr r \<Longrightarrow> ok r"
  using session_row_live by (fastforce simp: read_def session_record_of_def)

lemma session_row_step:
  assumes "session_row key ok s" and "\<not> mints h key c" and "\<And>r t. ok r \<Longrightarrow> ok (r\<lparr>rec_mfa := t\<rparr>)"
  shows "session_row key ok (session_step h (now, db, c) s)"
proof (cases c)
  case (Mint token csrf uid mfa)
  then show ?thesis
    using assms(1,2)
    by (auto simp: mints_def mint_def put_new_def intro: session_row_update split: option.splits)
next
  case (Load token)
  then show ?thesis
    using assms(1) session_row_finish [OF assms(1)] read_session [OF assms(1)]
    by (auto simp: load_session_def split: option.splits sum.splits prod.splits) (metis snd_conv)
next
  case (MarkStepUp token)
  then show ?thesis
    using assms(1,3) session_row_replace [OF assms(1)] read_session [OF assms(1)]
    by (auto simp: mark_step_up_verified_def split: option.splits sum.splits prod.splits) (metis snd_conv)
next
  case (Destroy token)
  then show ?thesis
    using assms(1) session_row_discard by (auto simp: destroy_def split: option.splits)
next
  case SweepStore
  then show ?thesis
    using assms(1) by (auto simp: sweep_def intro: session_row_subset)
qed

fun session_run :: "(pystr \<Rightarrow> pystr) \<Rightarrow> (seconds \<times> accounts \<times> session_op) list \<Rightarrow> ephemeral \<Rightarrow> ephemeral" where
  "session_run h [] s = s"
| "session_run h (e # es) s = session_run h es (session_step h e s)"

lemma session_row_run:
  assumes "\<And>r t. ok r \<Longrightarrow> ok (r\<lparr>rec_mfa := t\<rparr>)"
  shows "session_row key ok s \<Longrightarrow> \<forall>(t, db, c)\<in>set es. \<not> mints h key c \<Longrightarrow> session_row key ok (session_run h es s)"
proof (induction es arbitrary: s)
  case (Cons e es)
  obtain now db c where e: "e = (now, db, c)" by (rule prod_cases3)
  have "session_row key ok (session_step h (now, db, c) s)"
    by (rule session_row_step [OF Cons.prems(1) _ assms]) (use Cons.prems(2) e in auto)
  then show ?case
    using Cons.IH Cons.prems(2) e by simp
qed simp

lemma load_none:
  assumes "session_row (session_key h token) ok s"
    and "\<And>r. ok r \<Longrightarrow> SESSION_LIFETIME < now - rec_created r"
  shows "fst (load_session h now (Some token) db s) = Inr None"
proof (cases "token = [] \<or> read now (session_key h token) s = None")
  case False
  then obtain w where w: "live_row now (session_key h token) s = Some w"
    by (auto simp: read_def)
  then obtain r where "row_value w = SessionDoc r" "ok r"
    using session_row_live [OF assms(1)] by blast
  then show ?thesis
    using w False assms(2) by (simp add: load_session_def read_def session_record_of_def load_finish_def)
qed (auto simp: load_session_def)

lemma load_some:
  assumes "load_session h now token db s = (Inr (Some b), s')"
  obtains t r w where "token = Some t" "t \<noteq> []" "live_row now (session_key h t) s = Some w"
    "row_value w = SessionDoc r" "now - rec_created r \<le> SESSION_LIFETIME"
    "user_by_id (rec_user r) db = Some (bs_user b)" "pu_is_active (bs_user b)" "bs_csrf b = rec_csrf r"
    "bs_mfa_verified_at b = rec_mfa r"
    "s' = AList.update (session_key h t) \<lparr>row_value = SessionDoc r, row_expires = now + SESSION_IDLE\<rparr> s"
proof -
  obtain t where t: "token = Some t" "t \<noteq> []"
    using assms by (auto simp: load_session_def split: option.splits if_splits)
  obtain w where w: "live_row now (session_key h t) s = Some w"
    using assms t by (auto simp: load_session_def read_def split: option.splits)
  obtain r where r: "row_value w = SessionDoc r"
    using assms t w by (auto simp: load_session_def read_def session_record_of_def split: stored.splits)
  have fin: "load_finish now (session_key h t) r db s = (Some b, s')"
    using assms t w r by (simp add: load_session_def read_def session_record_of_def split: prod.splits)
  then obtain u where u: "user_by_id (rec_user r) db = Some u" "pu_is_active u"
      "b = \<lparr>bs_user = u, bs_csrf = rec_csrf r, bs_mfa_verified_at = rec_mfa r\<rparr>"
      and age: "\<not> SESSION_LIFETIME < now - rec_created r"
      and s': "s' = AList.update (session_key h t) \<lparr>row_value = SessionDoc r, row_expires = now + SESSION_IDLE\<rparr> s"
    using w by (auto simp: load_finish_def replace_def split: if_splits option.splits)
  show thesis
    by (rule that [OF t w r]) (use u age s' in auto)
qed

section \<open>Properties\<close>

text \<open>A cookie opens a session only while its record is live and at most seven days old, and only for
  the user it was minted for, as the accounts hold that user now and only while the account is
  active.\<close>

theorem loaded_session_is_current:
  assumes "load_session h now token db s = (Inr (Some b), s')"
  shows "\<exists>t r. token = Some t \<and> read now (session_key h t) s = Some (SessionDoc r)
     \<and> now \<le> rec_created r + SESSION_LIFETIME
     \<and> user_by_id (rec_user r) db = Some (bs_user b) \<and> pu_is_active (bs_user b)
     \<and> bs_csrf b = rec_csrf r \<and> bs_mfa_verified_at b = rec_mfa r
     \<and> read now (session_key h t) s' = Some (SessionDoc r)"
proof (rule load_some [OF assms])
  fix t r w
  assume "token = Some t" "live_row now (session_key h t) s = Some w" "row_value w = SessionDoc r"
    "now - rec_created r \<le> SESSION_LIFETIME" "user_by_id (rec_user r) db = Some (bs_user b)"
    "pu_is_active (bs_user b)" "bs_csrf b = rec_csrf r" "bs_mfa_verified_at b = rec_mfa r"
    "s' = AList.update (session_key h t) \<lparr>row_value = SessionDoc r, row_expires = now + SESSION_IDLE\<rparr> s"
  then show ?thesis
    by (intro exI [of _ t] exI [of _ r]) (simp add: read_def live_update SESSION_IDLE_def)
qed

text \<open>C28: a session is capped at seven days however much it is used. After it was minted, no sequence of
  loads, step-ups, logouts, sweeps and logins of other tokens makes its cookie open a session
  later than that.\<close>

theorem session_capped:
  assumes "map_of s (session_key h token) = None"
    and "\<forall>(t, db, c)\<in>set es. \<not> mints h (session_key h token) c"
    and "minted + SESSION_LIFETIME < now"
  shows "fst (load_session h now (Some token) db (session_run h es (snd (mint h minted token csrf uid mfa s)))) = Inr None"
proof -
  let ?ok = "\<lambda>r. rec_created r = minted"
  have "session_row (session_key h token) ?ok s"
    using assms(1) by (auto simp: session_row_def map_of_eq_None_iff image_iff)
  then have "session_row (session_key h token) ?ok (snd (mint h minted token csrf uid mfa s))"
    by (auto simp: mint_def put_new_def intro: session_row_update split: option.splits)
  then have "session_row (session_key h token) ?ok (session_run h es (snd (mint h minted token csrf uid mfa s)))"
    by (intro session_row_run) (use assms(2) in auto)
  then show ?thesis
    by (rule load_none) (use assms(3) in auto)
qed

text \<open>A destroyed session stays dead. Once its row is discarded, no sequence of loads (which write back
  only a live row), step-ups, sweeps and logins of other tokens brings it back.\<close>

theorem destroyed_session_stays_dead:
  assumes "token \<noteq> []" and "\<forall>(t, db, c)\<in>set es. \<not> mints h (session_key h token) c"
  shows "fst (load_session h now (Some token) db (session_run h es (destroy h (Some token) s))) = Inr None"
proof -
  have "map_of (destroy h (Some token) s) (session_key h token) = None"
    using assms(1) by (simp add: destroy_def discard_def lookup_delete)
  then have "session_row (session_key h token) (\<lambda>_. False) (destroy h (Some token) s)"
    by (auto simp: session_row_def map_of_eq_None_iff image_iff)
  then have "session_row (session_key h token) (\<lambda>_. False) (session_run h es (destroy h (Some token) s))"
    by (intro session_row_run) (use assms(2) in auto)
  then show ?thesis
    by (rule load_none) auto
qed

text \<open>A one-time token gives its payload once, within its lifetime: the first redemption before the
  deadline gets it, every later one gets nothing, and after the deadline nobody gets it.\<close>

theorem one_time_token_lifecycle:
  assumes "token \<noteq> []" and "read now (token_key h purpose token) s = None"
    and "s1 = snd (issue h now purpose payload ttl token s)"
  shows "(t < now + ttl \<longrightarrow> fst (consume h t purpose (Some token) s1) = Some payload)
    \<and> (t \<le> t' \<longrightarrow> fst (consume h t' purpose (Some token) (snd (consume h t purpose (Some token) s1))) = None)
    \<and> (now + ttl \<le> t \<longrightarrow> fst (consume h t purpose (Some token) s1) = None)"
  using assms one_time.lifecycle(1) [OF assms(2), of t ttl t payload]
    one_time.expired [OF assms(2), of ttl t payload]
    one_time.spent_once [of t t' "token_key h purpose token" s1]
  by (simp add: consume_def issue_def)

text \<open>
  The loads of two requests interleave with a step-up between them: the load that read the record
  before the step-up writes it back without the stamp, although the step-up answered that it was
  recorded.
\<close>

theorem step_up_overwritten:
  assumes "token \<noteq> []" and "live_row now (session_key h token) s = Some w" and "row_value w = SessionDoc r"
    and "t \<le> rec_created r + SESSION_LIFETIME" and "now \<le> t" and "t < now + SESSION_IDLE"
    and "mark_step_up_verified h now (Some token) s = (m, s1)"
  shows "m = Inr True \<and> read t (session_key h token) (snd (load_finish t (session_key h token) r db s1)) \<in> {None, Some (SessionDoc r)}"
proof -
  have s1: "m = Inr True" "s1 = AList.update (session_key h token)
      \<lparr>row_value = SessionDoc (r\<lparr>rec_mfa := Some now\<rparr>), row_expires = now + SESSION_IDLE\<rparr> s"
    using assms(1,2,3,7) by (auto simp: mark_step_up_verified_def read_def session_record_of_def replace_def)
  then have "live_row t (session_key h token) s1 \<noteq> None"
    using assms(6) by (simp add: live_update)
  then show ?thesis
    using s1(1) assms(4)
    by (auto simp: load_finish_def replace_def read_def live_update discard_def live_delete split: option.splits)
qed

lemma csrf_not_ascii: "\<exists>e. valid_csrf (Some [CHR 0xF1]) expected = Inl e"
  by (simp add: valid_csrf_def)

definition no_hash :: "pystr \<Rightarrow> pystr" where
  "no_hash t = t"

definition one_session :: ephemeral where
  "one_session = snd (mint no_hash 0 ''tok'' ''csrf'' 1 None [])"

theorem loaded_session_is_current_witness:
  "\<exists>b s'. load_session no_hash 50 (Some ''tok'') two_admins one_session = (Inr (Some b), s')
     \<and> pu_id (bs_user b) = 1 \<and> pu_is_active (bs_user b)"
proof -
  define b where "b = \<lparr>bs_user = \<lparr>pu_id = 1, pu_email = ''ana@x.pe'', pu_is_site_admin = True, pu_mfa_enabled = True,
      pu_has_passkey = False, pu_is_active = True, pu_pending_site_admin = False\<rparr>, bs_csrf = ''csrf'',
      bs_mfa_verified_at = None\<rparr>"
  define s' where "s' = snd (load_session no_hash 50 (Some ''tok'') two_admins one_session)"
  have "fst (load_session no_hash 50 (Some ''tok'') two_admins one_session) = Inr (Some b)"
    unfolding b_def by code_simp
  then have l: "load_session no_hash 50 (Some ''tok'') two_admins one_session = (Inr (Some b), s')"
    by (simp add: s'_def prod_eq_iff)
  have "pu_is_active (bs_user b)"
    using loaded_session_is_current [OF l] by blast
  moreover have "pu_id (bs_user b) = 1"
    by (simp add: b_def)
  ultimately show ?thesis using l by blast
qed

theorem session_capped_witness:
  "fst (load_session no_hash 604000 (Some ''tok'') two_admins
      (session_run no_hash (map (\<lambda>n. (40000 * real n, two_admins, Load (Some ''tok''))) [1..<16]) one_session)) \<noteq> Inr None
   \<and> fst (load_session no_hash 604801 (Some ''tok'') two_admins
      (session_run no_hash (map (\<lambda>n. (40000 * real n, two_admins, Load (Some ''tok''))) [1..<16]) one_session)) = Inr None"
proof
  show "fst (load_session no_hash 604000 (Some ''tok'') two_admins
      (session_run no_hash (map (\<lambda>n. (40000 * real n, two_admins, Load (Some ''tok''))) [1..<16]) one_session)) \<noteq> Inr None"
    by code_simp
  show "fst (load_session no_hash 604801 (Some ''tok'') two_admins
      (session_run no_hash (map (\<lambda>n. (40000 * real n, two_admins, Load (Some ''tok''))) [1..<16]) one_session)) = Inr None"
    unfolding one_session_def
    by (rule session_capped) (auto simp: mints_def SESSION_LIFETIME_def)
qed

theorem destroyed_session_stays_dead_witness:
  "fst (load_session no_hash 30 (Some ''tok'') two_admins
      (session_run no_hash [(10, two_admins, Load (Some ''tok'')), (20, two_admins, Mint ''other'' ''c'' 2 None)]
        (destroy no_hash (Some ''tok'') one_session))) = Inr None"
  by (rule destroyed_session_stays_dead) (auto simp: mints_def session_key_def no_hash_def)

theorem one_time_token_lifecycle_witness:
  "fst (consume no_hash 8 PENDING_MFA (Some ''tok'') (snd (issue no_hash 0 PENDING_MFA (Text ''7'') 300 ''tok'' []))) = Some (Text ''7'')
   \<and> fst (consume no_hash 300 PENDING_MFA (Some ''tok'') (snd (issue no_hash 0 PENDING_MFA (Text ''7'') 300 ''tok'' []))) = None"
proof -
  have free: "read 0 (token_key no_hash PENDING_MFA ''tok'') [] = None"
    by (simp add: read_def live_row_def)
  show ?thesis
    using one_time_token_lifecycle [OF _ free refl, where t = 8 and ttl = 300]
      one_time_token_lifecycle [OF _ free refl, where t = 300 and ttl = 300] by simp
qed

theorem step_up_overwritten_witness:
  "case mark_step_up_verified no_hash 10 (Some ''tok'') one_session of
     (m, s1) \<Rightarrow> m = Inr True
       \<and> (case fst (load_session no_hash 12 (Some ''tok'') two_admins
             (snd (load_finish 11 (session_key no_hash ''tok'')
               \<lparr>rec_user = 1, rec_csrf = ''csrf'', rec_created = 0, rec_mfa = None\<rparr> two_admins s1))) of
            Inr (Some b) \<Rightarrow> bs_mfa_verified_at b = None | _ \<Rightarrow> False)"
  by code_simp

end
