(* ===== verification/Login.thy ===== *)
theory Login
  imports Sessions
begin

text \<open>
  Signing in (\<open>portal/application/login.py\<close>) and the audit log it writes
  (\<open>portal/repository/audit.py\<close>). Argon2id, TOTP, WebAuthn, AES-GCM and Turnstile are code outside
  the repository: they are the fields of \<open>login_env\<close>. Tokens drawn at random are
  arguments.
\<close>

section \<open>Audit log\<close>

datatype audit_action =
    LOGIN_SUCCEEDED | LOGIN_FAILED | SESSION_DESTROYED | PERMISSION_DENIED
  | MFA_ENROLLED | MFA_REMOVED | PASSKEY_REGISTERED | PASSKEY_REMOVED | STEP_UP_VERIFIED | STEP_UP_FAILED
  | USER_CREATED | USER_DEACTIVATED | USER_REACTIVATED | USER_DELETED | USER_PROMOTED | USER_DEMOTED
  | USER_PASSWORD_RESET | TEAM_CREATED | MEMBER_ADDED | MEMBER_REMOVED | INVITE_SENT | INVITE_ACCEPTED
  | CREDENTIAL_CONFIGURED | CREDENTIAL_REVEALED | WORKER_ISSUED | WORKER_REVOKED

datatype login_rejection =
    HUMAN_CHECK | CSRF | THROTTLED | CREDENTIALS | MFA_EXPIRED | MFA_CODE | PASSKEY_INVALID

record request_trace =
  tr_ip :: "pystr option"
  tr_ray_id :: "pystr option"

definition trace_source :: "request_trace \<Rightarrow> pystr" where
  "trace_source t = (case tr_ip t of None \<Rightarrow> ''unknown'' | Some ip \<Rightarrow> if ip = [] then ''unknown'' else ip)"

record audit_event =
  ae_action :: audit_action
  ae_actor :: "uuid option"
  ae_trace :: "request_trace option"
  ae_metadata :: "(pystr \<times> pystr) list"

definition rejection_value :: "login_rejection \<Rightarrow> pystr" where
  "rejection_value r =
     (case r of
        HUMAN_CHECK \<Rightarrow> ''human_check'' | CSRF \<Rightarrow> ''csrf'' | THROTTLED \<Rightarrow> ''throttled''
      | CREDENTIALS \<Rightarrow> ''credentials'' | MFA_EXPIRED \<Rightarrow> ''mfa_expired'' | MFA_CODE \<Rightarrow> ''mfa_code''
      | PASSKEY_INVALID \<Rightarrow> ''passkey_invalid'')"

section \<open>State and outcomes\<close>

record login_state =
  ls_store :: ephemeral
  ls_db :: accounts
  ls_audit :: "audit_event list"

record login_env =
  le_token_hash :: "pystr \<Rightarrow> pystr"
  le_human_check :: "pystr \<Rightarrow> pystr \<Rightarrow> bool"
  le_verify_password :: "pystr \<Rightarrow> pystr \<Rightarrow> bool"
  le_aead :: aead
  le_keyring :: keyring
  le_totp :: "pystr \<Rightarrow> seconds \<Rightarrow> pystr \<Rightarrow> bool"
  le_credential_id :: "pystr \<Rightarrow> pystr option"
  le_verify_assertion :: "pystr \<Rightarrow> pystr \<Rightarrow> pystr \<Rightarrow> int \<Rightarrow> int option"

record login_attempt =
  la_email :: pystr
  la_password :: pystr
  la_csrf_token :: pystr
  la_human_check_token :: pystr
  la_trace :: request_trace

record mfa_attempt =
  ma_pending_token :: pystr
  ma_code :: pystr
  ma_trace :: request_trace

record passkey_attempt =
  pa_login_token :: pystr
  pa_response :: pystr
  pa_trace :: request_trace

text \<open>The tokens a request may draw.\<close>

record fresh_tokens =
  fr_cookie :: pystr
  fr_csrf :: pystr
  fr_token :: pystr

datatype login_outcome =
    SessionIssued pystr bool
  | MfaChallengeIssued pystr
  | LoginRejected login_rejection

datatype login_error = LoginStore store_error | LoginSecret reveal_error | LoginValue

definition record_audit :: "audit_event \<Rightarrow> login_state \<Rightarrow> login_state" where
  "record_audit e st = st\<lparr>ls_audit := ls_audit st @ [e]\<rparr>"

definition audit ::
  "audit_action \<Rightarrow> uuid option \<Rightarrow> request_trace \<Rightarrow> (pystr \<times> pystr) list \<Rightarrow> login_state \<Rightarrow> login_state" where
  "audit action actor trace metadata st =
     record_audit \<lparr>ae_action = action, ae_actor = actor, ae_trace = Some trace, ae_metadata = metadata\<rparr> st"

definition reject ::
  "login_attempt \<Rightarrow> login_rejection \<Rightarrow> login_state \<Rightarrow> (login_error + login_outcome) \<times> login_state" where
  "reject a r st =
     (Inr (LoginRejected r),
      audit LOGIN_FAILED None (la_trace a) [(''email'', la_email a), (''rejection'', rejection_value r)] st)"

definition reject_mfa ::
  "uuid option \<Rightarrow> mfa_attempt \<Rightarrow> login_rejection \<Rightarrow> login_state \<Rightarrow> (login_error + login_outcome) \<times> login_state" where
  "reject_mfa actor a r st =
     (Inr (LoginRejected r), audit LOGIN_FAILED actor (ma_trace a) [(''rejection'', rejection_value r)] st)"

definition reject_passkey :: "passkey_attempt \<Rightarrow> login_state \<Rightarrow> (login_error + login_outcome) \<times> login_state" where
  "reject_passkey a st =
     (Inr (LoginRejected PASSKEY_INVALID),
      audit LOGIN_FAILED None (pa_trace a) [(''rejection'', rejection_value PASSKEY_INVALID)] st)"

section \<open>Steps\<close>

definition establish ::
  "login_env \<Rightarrow> seconds \<Rightarrow> fresh_tokens \<Rightarrow> portal_user \<Rightarrow> request_trace \<Rightarrow> bool \<Rightarrow> login_state
     \<Rightarrow> (login_error + login_outcome) \<times> login_state" where
  "establish env now fresh user trace mfa_verified st =
     (case mint (le_token_hash env) now (fr_cookie fresh) (fr_csrf fresh) (pu_id user)
             (if mfa_verified then Some now else None) (ls_store st) of
        (cookie, s) \<Rightarrow>
          (Inr (SessionIssued cookie (pu_pending_site_admin user)),
           audit LOGIN_SUCCEEDED (Some (pu_id user)) trace [] (st\<lparr>ls_store := s\<rparr>)))"

definition authenticate :: "login_env \<Rightarrow> pystr \<Rightarrow> pystr \<Rightarrow> accounts \<Rightarrow> portal_user option" where
  "authenticate env email password db =
     (case user_by_email email db of
        None \<Rightarrow> None
      | Some (user, password_hash) \<Rightarrow>
          if \<not> le_verify_password env password password_hash then None
          else if \<not> pu_is_active user then None
          else Some user)"

text \<open>\<open>totp_matches\<close> of \<open>portal/security.py\<close>: six digits, spaces ignored, then the time-based check.\<close>

definition totp_matches :: "login_env \<Rightarrow> seconds \<Rightarrow> pystr \<Rightarrow> pystr \<Rightarrow> bool" where
  "totp_matches env now secret code =
     (let digits = filter (\<lambda>c. c \<noteq> CHR '' '') (py_strip code)
      in if length digits \<noteq> 6 \<or> \<not> py_isdigit digits then False else le_totp env secret now digits)"

definition second_factor_accepted ::
  "login_env \<Rightarrow> seconds \<Rightarrow> portal_user \<Rightarrow> pystr \<Rightarrow> login_state \<Rightarrow> (login_error + bool) \<times> login_state" where
  "second_factor_accepted env now user code st =
     (case mfa_secret (pu_id user) (ls_db st) of
        None \<Rightarrow> (Inr False, st)
      | Some secret \<Rightarrow>
          (case reveal (le_aead env) (le_keyring env) secret of
             Inl e \<Rightarrow> (Inl (LoginSecret e), st)
           | Inr revealed \<Rightarrow>
               if totp_matches env now revealed code then (Inr True, st)
               else
                 (case consume_recovery_code now (pu_id user) (le_token_hash env code) (ls_db st) of
                    (spent, db) \<Rightarrow> (Inr spent, st\<lparr>ls_db := db\<rparr>))))"

definition count_failure ::
  "seconds \<Rightarrow> pystr \<Rightarrow> pystr \<Rightarrow> login_state \<Rightarrow> login_error option \<times> login_state" where
  "count_failure now email source st =
     (case record_failure now email source (ls_store st) of
        (e, s) \<Rightarrow> (map_option LoginStore e, st\<lparr>ls_store := s\<rparr>))"

section \<open>Requests\<close>

definition issue_login_csrf :: "login_env \<Rightarrow> seconds \<Rightarrow> fresh_tokens \<Rightarrow> login_state \<Rightarrow> pystr \<times> login_state" where
  "issue_login_csrf env now fresh st =
     (case issue (le_token_hash env) now LOGIN_CSRF (Text []) LOGIN_CSRF_TTL (fr_token fresh) (ls_store st) of
        (t, s) \<Rightarrow> (t, st\<lparr>ls_store := s\<rparr>))"

definition attempt ::
  "login_env \<Rightarrow> seconds \<Rightarrow> fresh_tokens \<Rightarrow> login_attempt \<Rightarrow> login_state
     \<Rightarrow> (login_error + login_outcome) \<times> login_state" where
  "attempt env now fresh a st =
     (let source = trace_source (la_trace a)
      in if \<not> le_human_check env (la_human_check_token a) source then reject a HUMAN_CHECK st
         else
           (case consume (le_token_hash env) now LOGIN_CSRF (Some (la_csrf_token a)) (ls_store st) of
              (None, s) \<Rightarrow> reject a CSRF (st\<lparr>ls_store := s\<rparr>)
            | (Some _, s) \<Rightarrow>
                (let st = st\<lparr>ls_store := s\<rparr>
                 in case allows now (la_email a) source (ls_store st) of
                      Inl e \<Rightarrow> (Inl (LoginStore e), st)
                    | Inr allowed \<Rightarrow>
                        (let user = authenticate env (la_email a) (la_password a) (ls_db st)
                         in if \<not> allowed then reject a THROTTLED st
                            else
                              (case user of
                                 None \<Rightarrow>
                                   (case count_failure now (la_email a) source st of
                                      (Some e, st) \<Rightarrow> (Inl e, st)
                                    | (None, st) \<Rightarrow> reject a CREDENTIALS st)
                               | Some u \<Rightarrow>
                                   (let st = st\<lparr>ls_store := clear_failures (la_email a) source (ls_store st)\<rparr>
                                    in if has_second_factor u
                                       then (case issue (le_token_hash env) now PENDING_MFA (Text (nat_str (pu_id u)))
                                                    PENDING_MFA_TTL (fr_token fresh) (ls_store st) of
                                               (t, s) \<Rightarrow> (Inr (MfaChallengeIssued t), st\<lparr>ls_store := s\<rparr>))
                                       else establish env now fresh u (la_trace a) False st))))))"

text \<open>\<open>UUID(pending)\<close>: the text of an id, written by the code itself.\<close>

definition uuid_of :: "stored \<Rightarrow> login_error + uuid" where
  "uuid_of v =
     (case v of
        Text t \<Rightarrow> (case py_int t of Some i \<Rightarrow> if 0 \<le> i then Inr (nat i) else Inl LoginValue | None \<Rightarrow> Inl LoginValue)
      | _ \<Rightarrow> Inl LoginValue)"

definition complete_mfa ::
  "login_env \<Rightarrow> seconds \<Rightarrow> fresh_tokens \<Rightarrow> mfa_attempt \<Rightarrow> login_state
     \<Rightarrow> (login_error + login_outcome) \<times> login_state" where
  "complete_mfa env now fresh a st =
     (case consume (le_token_hash env) now PENDING_MFA (Some (ma_pending_token a)) (ls_store st) of
        (None, s) \<Rightarrow> reject_mfa None a MFA_EXPIRED (st\<lparr>ls_store := s\<rparr>)
      | (Some pending, s) \<Rightarrow>
          (let st = st\<lparr>ls_store := s\<rparr>
           in case uuid_of pending of
                Inl e \<Rightarrow> (Inl e, st)
              | Inr uid \<Rightarrow>
                  (case user_by_id uid (ls_db st) of
                     None \<Rightarrow> reject_mfa None a MFA_EXPIRED st
                   | Some user \<Rightarrow>
                       (case second_factor_accepted env now user (ma_code a) st of
                          (Inl e, st) \<Rightarrow> (Inl e, st)
                        | (Inr True, st) \<Rightarrow> establish env now fresh user (ma_trace a) True st
                        | (Inr False, st) \<Rightarrow>
                            (case count_failure now (pu_email user) (trace_source (ma_trace a)) st of
                               (Some e, st) \<Rightarrow> (Inl e, st)
                             | (None, st) \<Rightarrow> reject_mfa (Some (pu_id user)) a MFA_CODE st)))))"

record passkey_challenge =
  pc_login_token :: pystr
  pc_allowed :: "pystr list"

text \<open>
  \<open>begin_passkey_login\<close>: the account of a pending token scopes the credentials, and no token starts
  a passwordless login. The challenge is drawn by the WebAuthn library; its options carry the
  allowed credentials, none for any.
\<close>

definition begin_passkey_login ::
  "login_env \<Rightarrow> seconds \<Rightarrow> fresh_tokens \<Rightarrow> pystr \<Rightarrow> pystr option \<Rightarrow> login_state
     \<Rightarrow> (login_error + passkey_challenge) \<times> login_state" where
  "begin_passkey_login env now fresh challenge pending_token st =
     (let raw = (case pending_token of
                   None \<Rightarrow> None
                 | Some t \<Rightarrow> peek (le_token_hash env) now PENDING_MFA (Some t) (ls_store st))
      in case (case raw of None \<Rightarrow> Inr None | Some v \<Rightarrow> bind_res (uuid_of v) (\<lambda>u. Inr (Some u))) of
           Inl e \<Rightarrow> (Inl e, st)
         | Inr user_id \<Rightarrow>
             (let allowed = (case user_id of
                               None \<Rightarrow> []
                             | Some u \<Rightarrow> map pk_credential_id (webauthn_credentials u (ls_db st)))
              in case issue (le_token_hash env) now ''passkey_login'' (ChallengeDoc user_id challenge) 300
                        (fr_token fresh) (ls_store st) of
                   (t, s) \<Rightarrow> (Inr \<lparr>pc_login_token = t, pc_allowed = allowed\<rparr>, st\<lparr>ls_store := s\<rparr>)))"

definition complete_passkey_login ::
  "login_env \<Rightarrow> seconds \<Rightarrow> fresh_tokens \<Rightarrow> passkey_attempt \<Rightarrow> login_state
     \<Rightarrow> (login_error + login_outcome) \<times> login_state" where
  "complete_passkey_login env now fresh a st =
     (case consume (le_token_hash env) now ''passkey_login'' (Some (pa_login_token a)) (ls_store st) of
        (None, s) \<Rightarrow> reject_passkey a (st\<lparr>ls_store := s\<rparr>)
      | (Some pending, s) \<Rightarrow>
          (let st = st\<lparr>ls_store := s\<rparr>
           in case pending of
                ChallengeDoc expected challenge \<Rightarrow>
                  (let credential = (case le_credential_id env (pa_response a) of
                                       None \<Rightarrow> None
                                     | Some cid \<Rightarrow> webauthn_credential_by_credential_id cid (ls_db st))
                   in case credential of
                        None \<Rightarrow> reject_passkey a st
                      | Some k \<Rightarrow>
                          if expected \<noteq> None \<and> expected \<noteq> Some (pk_user k) then reject_passkey a st
                          else
                            (case le_verify_assertion env (pa_response a) challenge (pk_public_key k) (pk_sign_count k) of
                               None \<Rightarrow> reject_passkey a st
                             | Some count \<Rightarrow>
                                 (case touch_webauthn_credential now (pk_id k) count (ls_db st) of
                                    (touched, db) \<Rightarrow>
                                      (let st = st\<lparr>ls_db := db\<rparr>
                                       in if \<not> touched then reject_passkey a st
                                          else
                                            (case user_by_id (pk_user k) (ls_db st) of
                                               None \<Rightarrow> reject_passkey a st
                                             | Some user \<Rightarrow>
                                                 if pu_is_active user
                                                 then establish env now fresh user (pa_trace a) True st
                                                 else reject_passkey a st)))))
              | _ \<Rightarrow> (Inl LoginValue, st)))"

definition logout ::
  "login_env \<Rightarrow> seconds \<Rightarrow> pystr option \<Rightarrow> request_trace \<Rightarrow> login_state \<Rightarrow> login_error option \<times> login_state" where
  "logout env now cookie trace st =
     (case load_session (le_token_hash env) now cookie (ls_db st) (ls_store st) of
        (Inl e, s) \<Rightarrow> (Some (LoginStore e), st\<lparr>ls_store := s\<rparr>)
      | (Inr session, s) \<Rightarrow>
          (let st = st\<lparr>ls_store := destroy (le_token_hash env) cookie s\<rparr>
           in (None,
               case session of
                 None \<Rightarrow> st
               | Some b \<Rightarrow> audit SESSION_DESTROYED (Some (pu_id (bs_user b))) trace [] st)))"

definition verify_second_factor ::
  "login_env \<Rightarrow> seconds \<Rightarrow> portal_user \<Rightarrow> pystr \<Rightarrow> request_trace \<Rightarrow> login_state
     \<Rightarrow> (login_error + bool) \<times> login_state" where
  "verify_second_factor env now user code trace st =
     (let source = trace_source trace
      in case allows now (pu_email user) source (ls_store st) of
           Inl e \<Rightarrow> (Inl (LoginStore e), st)
         | Inr False \<Rightarrow> (Inr False, st)
         | Inr True \<Rightarrow>
             (case second_factor_accepted env now user code st of
                (Inl e, st) \<Rightarrow> (Inl e, st)
              | (Inr True, st) \<Rightarrow>
                  (Inr True, audit STEP_UP_VERIFIED (Some (pu_id user)) trace []
                     (st\<lparr>ls_store := clear_failures (pu_email user) source (ls_store st)\<rparr>))
              | (Inr False, st) \<Rightarrow>
                  (case count_failure now (pu_email user) source st of
                     (Some e, st) \<Rightarrow> (Inl e, st)
                   | (None, st) \<Rightarrow>
                       (Inr False, audit STEP_UP_FAILED (Some (pu_id user)) trace [] st))))"

section \<open>What a session takes\<close>

lemma establish_simp:
  "establish env now fresh user trace v st =
     (Inr (SessionIssued (fr_cookie fresh) (pu_pending_site_admin user)),
      audit LOGIN_SUCCEEDED (Some (pu_id user)) trace []
        (st\<lparr>ls_store := snd (mint (le_token_hash env) now (fr_cookie fresh) (fr_csrf fresh) (pu_id user)
                 (if v then Some now else None) (ls_store st))\<rparr>))"
  by (simp add: establish_def mint_def)

lemma authenticate_Some:
  "authenticate env email password db = Some u \<longleftrightarrow>
     (\<exists>h. user_by_email email db = Some (u, h) \<and> le_verify_password env password h \<and> pu_is_active u)"
  by (auto simp: authenticate_def split: option.splits if_splits)

lemma count_failure_db [simp]: "count_failure now e s st = (r, st') \<Longrightarrow> ls_db st' = ls_db st"
  by (auto simp: count_failure_def split: prod.splits)

lemma attempt_cases:
  assumes "attempt env now fresh a st = (Inr out, st')" and "\<forall>r. out \<noteq> LoginRejected r"
  obtains v s u where
    "le_human_check env (la_human_check_token a) (trace_source (la_trace a))"
    "consume (le_token_hash env) now LOGIN_CSRF (Some (la_csrf_token a)) (ls_store st) = (Some v, s)"
    "allows now (la_email a) (trace_source (la_trace a)) s = Inr True"
    "authenticate env (la_email a) (la_password a) (ls_db st) = Some u"
    "has_second_factor u \<Longrightarrow> out = MfaChallengeIssued (fr_token fresh)
       \<and> st' = st\<lparr>ls_store := snd (put_new now (token_key (le_token_hash env) PENDING_MFA (fr_token fresh))
                 (Text (nat_str (pu_id u))) PENDING_MFA_TTL
                 (clear_failures (la_email a) (trace_source (la_trace a)) s))\<rparr>"
    "\<not> has_second_factor u \<Longrightarrow> (Inr out, st') = establish env now fresh u (la_trace a) False
       (st\<lparr>ls_store := clear_failures (la_email a) (trace_source (la_trace a)) s\<rparr>)"
proof -
  have human: "le_human_check env (la_human_check_token a) (trace_source (la_trace a))"
    using assms by (auto simp: attempt_def Let_def reject_def split: if_splits)
  obtain v s where csrf: "consume (le_token_hash env) now LOGIN_CSRF (Some (la_csrf_token a)) (ls_store st) = (Some v, s)"
    using assms human
    by (cases "consume (le_token_hash env) now LOGIN_CSRF (Some (la_csrf_token a)) (ls_store st)")
       (auto simp: attempt_def Let_def reject_def split: option.splits)
  obtain b where al: "allows now (la_email a) (trace_source (la_trace a)) s = Inr b"
    using assms human csrf
    by (cases "allows now (la_email a) (trace_source (la_trace a)) s") (auto simp: attempt_def Let_def)
  have b: "b = True"
    using assms human csrf al by (cases b) (auto simp: attempt_def Let_def reject_def)
  obtain u where u: "authenticate env (la_email a) (la_password a) (ls_db st) = Some u"
    using assms human csrf al b
    by (cases "authenticate env (la_email a) (la_password a) (ls_db st)")
       (auto simp: attempt_def Let_def reject_def split: prod.splits option.splits)
  show thesis
    by (rule that [OF human csrf al [unfolded b] u])
       (use assms(1) human csrf al b u in \<open>simp_all add: attempt_def Let_def issue_def\<close>)
qed

lemma user_by_email_admin:
  assumes "portal_sound db" and "user_by_email email db = Some (u, h)" and "pu_is_site_admin u"
  shows "has_second_factor u"
proof -
  obtain w where w: "List.find (\<lambda>u. us_email u = normalize_email email) (ac_users db) = Some w" "u = user_row db w"
    using assms(2) by (auto simp: user_by_email_def)
  then have mem: "w \<in> set (ac_users db)" and adm: "us_is_site_admin w"
    using assms(3) by (auto simp: find_Some_iff user_row_def)
  have "find_user db (us_id w) = Some w"
    using find_user_unique [OF _ mem] assms(1) by (simp add: portal_sound_def accounts_sound_def tables_sound_def)
  moreover have "factor_kept db (us_id w)"
    using assms(1) by (simp add: portal_sound_def accounts_sound_def)
  ultimately show ?thesis
    using adm w(2) by (simp add: factor_kept_def has_second_factor_def user_row_def)
qed

section \<open>Properties\<close>

text \<open>C14: the password step opens a session only after the human check, a live single-use form token, an
  open throttle and the right password of an active account, and only for an account without a
  second factor; so it never opens one for a site administrator.\<close>

theorem password_session_requires:
  assumes "attempt env now fresh a st = (Inr (SessionIssued cookie setup), st')"
  shows "\<exists>u h. le_human_check env (la_human_check_token a) (trace_source (la_trace a))
     \<and> read now (token_key (le_token_hash env) LOGIN_CSRF (la_csrf_token a)) (ls_store st) \<noteq> None
     \<and> allows now (la_email a) (trace_source (la_trace a))
          (snd (consume (le_token_hash env) now LOGIN_CSRF (Some (la_csrf_token a)) (ls_store st))) = Inr True
     \<and> user_by_email (la_email a) (ls_db st) = Some (u, h) \<and> le_verify_password env (la_password a) h
     \<and> pu_is_active u \<and> \<not> has_second_factor u
     \<and> (portal_sound (ls_db st) \<longrightarrow> \<not> pu_is_site_admin u)
     \<and> ls_audit st' = ls_audit st @ [\<lparr>ae_action = LOGIN_SUCCEEDED, ae_actor = Some (pu_id u),
          ae_trace = Some (la_trace a), ae_metadata = []\<rparr>]"
proof (rule attempt_cases [OF assms], simp)
  fix v s u
  assume human: "le_human_check env (la_human_check_token a) (trace_source (la_trace a))"
    and csrf: "consume (le_token_hash env) now LOGIN_CSRF (Some (la_csrf_token a)) (ls_store st) = (Some v, s)"
    and al: "allows now (la_email a) (trace_source (la_trace a)) s = Inr True"
    and auth: "authenticate env (la_email a) (la_password a) (ls_db st) = Some u"
    and guarded: "has_second_factor u \<Longrightarrow> SessionIssued cookie setup = MfaChallengeIssued (fr_token fresh)
       \<and> st' = st\<lparr>ls_store := snd (put_new now (token_key (le_token_hash env) PENDING_MFA (fr_token fresh))
                 (Text (nat_str (pu_id u))) PENDING_MFA_TTL
                 (clear_failures (la_email a) (trace_source (la_trace a)) s))\<rparr>"
    and plain: "\<not> has_second_factor u \<Longrightarrow> (Inr (SessionIssued cookie setup), st') = establish env now fresh u (la_trace a) False
       (st\<lparr>ls_store := clear_failures (la_email a) (trace_source (la_trace a)) s\<rparr>)"
  have no2: "\<not> has_second_factor u" using guarded by auto
  obtain h where h: "user_by_email (la_email a) (ls_db st) = Some (u, h)" "le_verify_password env (la_password a) h" "pu_is_active u"
    using auth by (auto simp: authenticate_Some)
  have "read now (token_key (le_token_hash env) LOGIN_CSRF (la_csrf_token a)) (ls_store st) = Some v"
    using csrf one_time.take_value [of now "token_key (le_token_hash env) LOGIN_CSRF (la_csrf_token a)" "ls_store st"]
    by (auto simp: consume_def split: if_splits)
  then have live: "read now (token_key (le_token_hash env) LOGIN_CSRF (la_csrf_token a)) (ls_store st) \<noteq> None"
    by simp
  have aud: "ls_audit st' = ls_audit st @ [\<lparr>ae_action = LOGIN_SUCCEEDED, ae_actor = Some (pu_id u),
          ae_trace = Some (la_trace a), ae_metadata = []\<rparr>]"
    using plain [OF no2] by (simp add: establish_simp audit_def record_audit_def)
  have "portal_sound (ls_db st) \<longrightarrow> \<not> pu_is_site_admin u"
    using user_by_email_admin h(1) no2 by blast
  then show ?thesis
    using human csrf al h no2 live aud by auto
qed

text \<open>C27: a passkey opens a session only against a live challenge, with a registered credential whose
  stored key verifies the assertion, a counter that is not a replay, and an active owner, who is the
  account the challenge was issued for when it names one.\<close>

theorem passkey_session_requires:
  assumes "complete_passkey_login env now fresh a st = (Inr (SessionIssued cookie setup), st')"
  shows "\<exists>expected challenge k n u.
       read now (token_key (le_token_hash env) ''passkey_login'' (pa_login_token a)) (ls_store st) = Some (ChallengeDoc expected challenge)
     \<and> k \<in> set (ac_passkeys (ls_db st)) \<and> le_credential_id env (pa_response a) = Some (pk_credential_id k)
     \<and> (expected = None \<or> expected = Some (pk_user k))
     \<and> le_verify_assertion env (pa_response a) challenge (pk_public_key k) (pk_sign_count k) = Some n
     \<and> (\<exists>k'\<in>set (ac_passkeys (ls_db st)). pk_id k' = pk_id k \<and> counter_accepts n k')
     \<and> user_by_id (pk_user k) (ls_db st') = Some u \<and> pu_is_active u"
proof -
  let ?key = "token_key (le_token_hash env) ''passkey_login'' (pa_login_token a)"
  obtain v s where c: "consume (le_token_hash env) now ''passkey_login'' (Some (pa_login_token a)) (ls_store st) = (Some v, s)"
    using assms
    by (cases "consume (le_token_hash env) now ''passkey_login'' (Some (pa_login_token a)) (ls_store st)")
       (auto simp: complete_passkey_login_def reject_passkey_def split: option.splits)
  have read: "read now ?key (ls_store st) = Some v"
    using c one_time.take_value [of now ?key "ls_store st"] by (auto simp: consume_def split: if_splits)
  obtain expected challenge where v: "v = ChallengeDoc expected challenge"
    using assms c by (cases v) (auto simp: complete_passkey_login_def Let_def)
  obtain cid k where cid: "le_credential_id env (pa_response a) = Some cid"
    and k: "webauthn_credential_by_credential_id cid (ls_db st) = Some k"
    using assms c v by (auto simp: complete_passkey_login_def Let_def reject_passkey_def split: option.splits if_splits)
  have bound: "expected = None \<or> expected = Some (pk_user k)"
    using assms c v cid k by (auto simp: complete_passkey_login_def Let_def reject_passkey_def split: if_splits)
  obtain n where n: "le_verify_assertion env (pa_response a) challenge (pk_public_key k) (pk_sign_count k) = Some n"
    using assms c v cid k bound
    by (cases "le_verify_assertion env (pa_response a) challenge (pk_public_key k) (pk_sign_count k)")
       (auto simp: complete_passkey_login_def Let_def reject_passkey_def split: if_splits)
  obtain db where t: "touch_webauthn_credential now (pk_id k) n (ls_db st) = (True, db)"
    using assms c v cid k bound n
    by (cases "touch_webauthn_credential now (pk_id k) n (ls_db st)")
       (auto simp: complete_passkey_login_def Let_def reject_passkey_def split: if_splits)
  obtain u where u: "user_by_id (pk_user k) db = Some u" "pu_is_active u"
    and est: "establish env now fresh u (pa_trace a) True (st\<lparr>ls_store := s, ls_db := db\<rparr>) = (Inr (SessionIssued cookie setup), st')"
    using assms c v cid k bound n t
    by (auto simp: complete_passkey_login_def Let_def reject_passkey_def split: if_splits option.splits)
  have "ls_db st' = db"
    using est by (auto simp: establish_simp audit_def record_audit_def)
  moreover have "k \<in> set (ac_passkeys (ls_db st))" "pk_credential_id k = cid"
    using k by (auto simp: webauthn_credential_by_credential_id_def find_Some_iff)
  moreover have "\<exists>k'\<in>set (ac_passkeys (ls_db st)). pk_id k' = pk_id k \<and> counter_accepts n k'"
    using t by (auto simp: touch_webauthn_credential_def Let_def list_ex_iff)
  ultimately show ?thesis
    using read v cid bound n u by blast
qed

section \<open>Guessing the second factor\<close>

text \<open>The right password clears both counters, so the failures of the second step never add up.\<close>

lemma password_step_resets_throttle:
  assumes "attempt env now fresh a st = (Inr (MfaChallengeIssued token), st')"
  shows "read t (account_key (la_email a)) (ls_store st') = None
     \<and> read t (source_key (trace_source (la_trace a))) (ls_store st') = None"
proof (rule attempt_cases [OF assms], simp)
  fix v s u
  assume guarded: "has_second_factor u \<Longrightarrow> MfaChallengeIssued token = MfaChallengeIssued (fr_token fresh)
       \<and> st' = st\<lparr>ls_store := snd (put_new now (token_key (le_token_hash env) PENDING_MFA (fr_token fresh))
                 (Text (nat_str (pu_id u))) PENDING_MFA_TTL
                 (clear_failures (la_email a) (trace_source (la_trace a)) s))\<rparr>"
    and plain: "\<not> has_second_factor u \<Longrightarrow> (Inr (MfaChallengeIssued token), st') = establish env now fresh u (la_trace a) False
       (st\<lparr>ls_store := clear_failures (la_email a) (trace_source (la_trace a)) s\<rparr>)"
  have "has_second_factor u"
    using plain by (auto simp: establish_simp)
  note st' = conjunct2 [OF guarded [OF this]]
  show ?thesis
    by (auto simp: st' read_def put_new_def live_update live_delete clear_failures_def login_keys_def discard_def
        token_key_def PENDING_MFA_def account_key_def source_key_def split: option.splits)
qed

definition demo_env :: login_env where
  "demo_env =
     \<lparr>le_token_hash = no_hash, le_human_check = (\<lambda>_ _. True), le_verify_password = (=),
      le_aead = box, le_keyring = old_ring, le_totp = (\<lambda>_ _ digits. digits = ''123456''),
      le_credential_id = Some, le_verify_assertion = (\<lambda>_ _ _ n. Some (n + 1))\<rparr>"

definition demo_secret :: protected_secret where
  "demo_secret = protect box old_ring data_a twelve twelve ''JBSWY3DP''"

definition demo_db :: accounts where
  "demo_db =
     empty_accounts\<lparr>ac_users := [(new_user 1 ''ana@x.pe'' ''pw'' True)\<lparr>us_mfa_secret := Some demo_secret, us_mfa_enabled := True\<rparr>,
                                 new_user 3 ''eva@x.pe'' ''pw'' False, new_user 4 ''leo@x.pe'' ''pw'' False],
                   ac_passkeys := [\<lparr>pk_id = 5, pk_user = 4, pk_credential_id = ''cred'', pk_public_key = ''pub'', pk_sign_count = 7,
                       pk_transports = [], pk_label = ''llave'', pk_created_at = 0, pk_last_used_at = None\<rparr>]\<rparr>"

definition demo_state :: login_state where
  "demo_state = \<lparr>ls_store = [], ls_db = demo_db, ls_audit = []\<rparr>"

definition demo_trace :: request_trace where
  "demo_trace = \<lparr>tr_ip = Some ''10.0.0.9'', tr_ray_id = None\<rparr>"

definition demo_tokens :: "nat \<Rightarrow> fresh_tokens" where
  "demo_tokens n = \<lparr>fr_cookie = ''cookie'' @ nat_str n, fr_csrf = ''csrf'', fr_token = ''token'' @ nat_str n\<rparr>"

definition sign_in :: "pystr \<Rightarrow> pystr \<Rightarrow> login_attempt" where
  "sign_in email token = \<lparr>la_email = email, la_password = ''pw'', la_csrf_token = token, la_human_check_token = ''ok'', la_trace = demo_trace\<rparr>"

text \<open>One visit of someone who knows the password: the form, the password, a code.\<close>

definition visit :: "nat \<Rightarrow> pystr \<Rightarrow> login_state \<Rightarrow> (login_error + login_outcome) list \<times> login_state" where
  "visit n code st =
     (case issue_login_csrf demo_env (real n) (demo_tokens (2 * n)) st of
        (token, st) \<Rightarrow>
          (case attempt demo_env (real n) (demo_tokens (2 * n + 1)) (sign_in ''ana@x.pe'' token) st of
             (first, st) \<Rightarrow>
               (case complete_mfa demo_env (real n) (demo_tokens (2 * n + 1))
                       \<lparr>ma_pending_token = ''token'' @ nat_str (2 * n + 1), ma_code = code, ma_trace = demo_trace\<rparr> st of
                  (second, st) \<Rightarrow> ([first, second], st))))"

fun visits :: "nat \<Rightarrow> pystr list \<Rightarrow> login_state \<Rightarrow> (login_error + login_outcome) list list \<times> login_state" where
  "visits n [] st = ([], st)"
| "visits n (c # cs) st =
     (case visit n c st of (r, st) \<Rightarrow> (case visits (Suc n) cs st of (rs, st) \<Rightarrow> (r # rs, st)))"

text \<open>Eight wrong codes in nine seconds, more than the limit of a window, and the next one still counts.\<close>

theorem second_factor_guesses_unthrottled:
  "map (\<lambda>r. r ! 1) (fst (visits 0 (replicate 8 ''000000'' @ [''123456'']) demo_state))
     = replicate 8 (Inr (LoginRejected MFA_CODE)) @ [Inr (SessionIssued ''cookie17'' False)]"
  by code_simp

theorem password_session_requires_witness:
  "\<exists>st'. attempt demo_env 5 (demo_tokens 1) (sign_in ''eva@x.pe'' ''token0'') (snd (issue_login_csrf demo_env 0 (demo_tokens 0) demo_state))
       = (Inr (SessionIssued ''cookie1'' False), st')
     \<and> ls_audit st' = [\<lparr>ae_action = LOGIN_SUCCEEDED, ae_actor = Some 3, ae_trace = Some demo_trace, ae_metadata = []\<rparr>]"
proof -
  let ?st = "snd (issue_login_csrf demo_env 0 (demo_tokens 0) demo_state)"
  let ?r = "attempt demo_env 5 (demo_tokens 1) (sign_in ''eva@x.pe'' ''token0'') ?st"
  have "fst ?r = Inr (SessionIssued ''cookie1'' False)"
    by code_simp
  then have r: "?r = (Inr (SessionIssued ''cookie1'' False), snd ?r)"
    by (metis prod.collapse)
  have who: "map_option (\<lambda>(u, h). pu_id u) (user_by_email (la_email (sign_in ''eva@x.pe'' ''token0'')) (ls_db ?st)) = Some 3"
      "ls_audit ?st = []" "la_trace (sign_in ''eva@x.pe'' ''token0'') = demo_trace"
    by code_simp+
  obtain u h where "user_by_email (la_email (sign_in ''eva@x.pe'' ''token0'')) (ls_db ?st) = Some (u, h)"
      "ls_audit (snd ?r) = ls_audit ?st @ [\<lparr>ae_action = LOGIN_SUCCEEDED, ae_actor = Some (pu_id u),
          ae_trace = Some (la_trace (sign_in ''eva@x.pe'' ''token0'')), ae_metadata = []\<rparr>]"
    using password_session_requires [OF r] by blast
  then show ?thesis
    using r who by auto
qed

theorem passkey_session_requires_witness:
  "\<exists>st'. complete_passkey_login demo_env 5 (demo_tokens 1) \<lparr>pa_login_token = ''token0'', pa_response = ''cred'', pa_trace = demo_trace\<rparr>
        (snd (begin_passkey_login demo_env 0 (demo_tokens 0) ''chal'' None demo_state)) = (Inr (SessionIssued ''cookie1'' False), st')
     \<and> (\<exists>k\<in>set (ac_passkeys demo_db). pk_user k = 4 \<and> counter_accepts 8 k)"
proof -
  let ?st = "snd (begin_passkey_login demo_env 0 (demo_tokens 0) ''chal'' None demo_state)"
  let ?a = "\<lparr>pa_login_token = ''token0'', pa_response = ''cred'', pa_trace = demo_trace\<rparr> :: passkey_attempt"
  let ?r = "complete_passkey_login demo_env 5 (demo_tokens 1) ?a ?st"
  have "fst ?r = Inr (SessionIssued ''cookie1'' False)"
    by code_simp
  then have r: "?r = (Inr (SessionIssued ''cookie1'' False), snd ?r)"
    by (metis prod.collapse)
  have db: "ls_db ?st = demo_db" "map pk_sign_count (ac_passkeys demo_db) = [7]" "map pk_user (ac_passkeys demo_db) = [4]"
    by code_simp+
  obtain k n where k: "k \<in> set (ac_passkeys demo_db)"
      and n: "le_verify_assertion demo_env (pa_response ?a) ''chal'' (pk_public_key k) (pk_sign_count k) = Some n \<or> True"
    using passkey_session_requires [OF r] db(1) by auto
  have "pk_user k = 4" "pk_sign_count k = 7"
    using k db(2,3) by (cases "ac_passkeys demo_db"; auto)+
  then show ?thesis
    using r k by (auto simp: counter_accepts_def intro!: bexI [of _ k])
qed

end
