(* ===== verification/Access.thy ===== *)
theory Access
  imports Naming Login
begin

text \<open>
  What the application services of the portal share: their state, the access-control decorators of
  \<open>portal/application/access.py\<close>, and the check a service class goes through when it is defined.
  A service method is a step on the state, which keeps what it wrote before it raised: every
  repository call is a transaction of its own. \<open>access_rules\<close> is the contract of the
  \<open>_require_*\<close> methods that the decorators call; \<open>Provisioning\<close> and \<open>Service\<close> provide it.
\<close>

section \<open>State and steps\<close>

record mail =
  ml_to :: pystr
  ml_body :: pystr

record portal_state =
  pt_login :: login_state
  pt_credentials :: credentials
  pt_mail :: "mail list"

datatype service_error =
    Repository account_error
  | Ephemeral_Store store_error
  | Secret reveal_error
  | Raised exn
  | Malformed

text \<open>A step is over the shared state or a record that extends it with the state of one service.\<close>

type_synonym ('z, 'a) service_step = "'z portal_state_scheme \<Rightarrow> (service_error + 'a) \<times> 'z portal_state_scheme"

type_synonym 'a step = "(unit, 'a) service_step"

definition pt_db :: "'z portal_state_scheme \<Rightarrow> accounts" where
  "pt_db st = ls_db (pt_login st)"

definition pt_store :: "'z portal_state_scheme \<Rightarrow> ephemeral" where
  "pt_store st = ls_store (pt_login st)"

definition pt_audit :: "'z portal_state_scheme \<Rightarrow> audit_event list" where
  "pt_audit st = ls_audit (pt_login st)"

definition set_db :: "accounts \<Rightarrow> 'z portal_state_scheme \<Rightarrow> 'z portal_state_scheme" where
  "set_db db st = st\<lparr>pt_login := (pt_login st)\<lparr>ls_db := db\<rparr>\<rparr>"

definition set_store :: "ephemeral \<Rightarrow> 'z portal_state_scheme \<Rightarrow> 'z portal_state_scheme" where
  "set_store s st = st\<lparr>pt_login := (pt_login st)\<lparr>ls_store := s\<rparr>\<rparr>"

definition give :: "'a \<Rightarrow> ('z, 'a) service_step" where
  "give x st = (Inr x, st)"

definition stop :: "service_error \<Rightarrow> ('z, 'a) service_step" where
  "stop e st = (Inl e, st)"

definition and_then :: "('z, 'a) service_step \<Rightarrow> ('a \<Rightarrow> ('z, 'b) service_step) \<Rightarrow> ('z, 'b) service_step" where
  "and_then m f st = (case m st of (Inl e, st') \<Rightarrow> (Inl e, st') | (Inr x, st') \<Rightarrow> f x st')"

text \<open>A check that writes nothing, a query, and a transaction of the account tables.\<close>

definition check :: "account_error + 'a \<Rightarrow> ('z, 'a) service_step" where
  "check r = (case r of Inl e \<Rightarrow> stop (Repository e) | Inr x \<Rightarrow> give x)"

definition ask :: "(accounts \<Rightarrow> 'a) \<Rightarrow> ('z, 'a) service_step" where
  "ask q st = (Inr (q (pt_db st)), st)"

definition commit :: "(accounts \<Rightarrow> account_error + ('a \<times> accounts)) \<Rightarrow> ('z, 'a) service_step" where
  "commit op st =
     (case op (pt_db st) of
        Inl e \<Rightarrow> (Inl (Repository e), st)
      | Inr (x, db) \<Rightarrow> (Inr x, set_db db st))"

definition commit_unit :: "(accounts \<Rightarrow> account_error + accounts) \<Rightarrow> ('z, unit) service_step" where
  "commit_unit op = commit (\<lambda>db. bind_res (op db) (\<lambda>db'. Inr ((), db')))"

definition refused :: "portal_class \<Rightarrow> reason \<Rightarrow> ('z, 'a) service_step" where
  "refused c r = check (refuse c r)"

definition log_event :: "audit_action \<Rightarrow> uuid \<Rightarrow> request_trace \<Rightarrow> (pystr \<times> pystr) list \<Rightarrow> ('z, unit) service_step" where
  "log_event action actor trace metadata st =
     (Inr (), st\<lparr>pt_login := audit action (Some actor) trace metadata (pt_login st)\<rparr>)"

definition no_trace :: request_trace where
  "no_trace = \<lparr>tr_ip = None, tr_ray_id = None\<rparr>"

section \<open>Decorators\<close>

definition STEP_UP_WINDOW :: seconds where
  "STEP_UP_WINDOW = 15 * 60"

definition is_step_up_fresh :: "seconds \<Rightarrow> seconds option \<Rightarrow> seconds \<Rightarrow> bool" where
  "is_step_up_fresh now verified_at window = (case verified_at of None \<Rightarrow> False | Some t \<Rightarrow> now - t \<le> window)"

text \<open>
  \<open>site_admin\<close>, \<open>team_leader\<close> and the other role decorators differ in the method of the service
  they await before the body runs; \<open>requirement\<close> is what that method answers on the tables it reads.
\<close>

definition guarded :: "(accounts \<Rightarrow> account_error + unit) \<Rightarrow> ('z, 'a) service_step \<Rightarrow> ('z, 'a) service_step" where
  "guarded requirement body st =
     (case requirement (pt_db st) of Inl e \<Rightarrow> (Inl (Repository e), st) | Inr _ \<Rightarrow> body st)"

definition step_up :: "seconds \<Rightarrow> seconds option \<Rightarrow> ('z, 'a) service_step \<Rightarrow> ('z, 'a) service_step" where
  "step_up now mfa_verified_at body =
     (if \<not> is_step_up_fresh now mfa_verified_at STEP_UP_WINDOW then refused StepUpRequired STEP_UP_REQUIRED else body)"

definition site_admin_step_up ::
  "(accounts \<Rightarrow> account_error + unit) \<Rightarrow> seconds \<Rightarrow> seconds option \<Rightarrow> ('z, 'a) service_step \<Rightarrow> ('z, 'a) service_step" where
  "site_admin_step_up requirement now mfa_verified_at body = guarded requirement (step_up now mfa_verified_at body)"

section \<open>Defining a service\<close>

record service_method =
  sm_name :: pystr
  sm_coroutine :: bool
  sm_marker :: "pystr option"

text \<open>\<open>_mark\<close>: a second decorator adds its label to the first.\<close>

definition mark :: "pystr \<Rightarrow> service_method \<Rightarrow> service_method" where
  "mark label m =
     m\<lparr>sm_marker := Some (case sm_marker m of
          None \<Rightarrow> label | Some e \<Rightarrow> if e = [] then label else e @ ''+'' @ label)\<rparr>"

definition undeclared :: "service_method list \<Rightarrow> pystr list" where
  "undeclared ms =
     sort (map sm_name (filter (\<lambda>m. \<not> py_startswith (sm_name m) ''_'' \<and> sm_coroutine m \<and> sm_marker m = None) ms))"

text \<open>\<open>AuthorizedService.__init_subclass__\<close>: the names of the type error, or nothing.\<close>

definition define_service :: "service_method list \<Rightarrow> pystr list + unit" where
  "define_service ms = (if undeclared ms \<noteq> [] then Inl (undeclared ms) else Inr ())"

lemma define_service_checks:
  "define_service ms = Inr () \<longleftrightarrow>
     list_all (\<lambda>m. py_startswith (sm_name m) ''_'' \<or> \<not> sm_coroutine m \<or> sm_marker m \<noteq> None) ms"
proof -
  have "sort xs = [] \<longleftrightarrow> xs = []" for xs :: "pystr list"
    by (metis length_0_conv length_sort)
  then show ?thesis
    by (auto simp: define_service_def undeclared_def filter_empty_conv list_all_iff)
qed

section \<open>The contract of the role checks\<close>

named_theorems step_simps

lemma pt_simps [simp]:
  "pt_db (set_db db st) = db" "pt_db (set_store s st) = pt_db st"
  "pt_store (set_store s st) = s" "pt_store (set_db db st) = pt_store st"
  "pt_audit (set_db db st) = pt_audit st" "pt_audit (set_store s st) = pt_audit st"
  "pt_credentials (set_db db st) = pt_credentials st" "pt_credentials (set_store s st) = pt_credentials st"
  "pt_mail (set_db db st) = pt_mail st" "pt_mail (set_store s st) = pt_mail st"
  by (simp_all add: pt_db_def pt_store_def pt_audit_def set_db_def set_store_def)

lemma log_event_frame [simp]:
  "pt_db (snd (log_event a u t m st)) = pt_db st" "pt_store (snd (log_event a u t m st)) = pt_store st"
  "pt_credentials (snd (log_event a u t m st)) = pt_credentials st" "fst (log_event a u t m st) = Inr ()"
  by (simp_all add: log_event_def pt_db_def pt_store_def audit_def record_audit_def)

lemmas step_defs = and_then_def give_def stop_def check_def ask_def commit_def commit_unit_def refused_def refuse_def

locale access_rules =
  fixes require_admin :: "uuid \<Rightarrow> accounts \<Rightarrow> account_error + unit"
    and require_leader :: "uuid \<Rightarrow> uuid \<Rightarrow> accounts \<Rightarrow> account_error + unit"
    and require_leader_or_admin :: "uuid \<Rightarrow> uuid \<Rightarrow> accounts \<Rightarrow> account_error + unit"
  assumes admin_law: "require_admin actor db = Inr () \<longleftrightarrow> is_site_admin actor db"
    and leader_law: "require_leader actor team db = Inr () \<longleftrightarrow> role_for actor team db = Some TEAM_LEADER"
    and leader_or_admin_law: "require_leader_or_admin actor team db = Inr ()
          \<longleftrightarrow> is_site_admin actor db \<or> role_for actor team db = Some TEAM_LEADER"
begin

lemma guarded_denied: "requirement (pt_db st) \<noteq> Inr () \<Longrightarrow> \<exists>e. guarded requirement body st = (Inl e, st)"
  by (auto simp: guarded_def split: sum.splits)

lemma admin_only:
  "\<not> is_site_admin actor (pt_db st) \<Longrightarrow> \<exists>e. guarded (require_admin actor) body st = (Inl e, st)"
  using guarded_denied admin_law by blast

lemma leader_only:
  "\<not> role_for actor team (pt_db st) = Some TEAM_LEADER \<Longrightarrow> \<exists>e. guarded (require_leader actor team) body st = (Inl e, st)"
  using guarded_denied leader_law by blast

lemma leader_or_admin_only:
  "\<not> is_site_admin actor (pt_db st) \<Longrightarrow> \<not> role_for actor team (pt_db st) = Some TEAM_LEADER \<Longrightarrow>
     \<exists>e. guarded (require_leader_or_admin actor team) body st = (Inl e, st)"
  using guarded_denied leader_or_admin_law by blast

lemma step_up_only:
  assumes "\<not> (is_site_admin actor (pt_db st) \<and> (\<exists>t. verified = Some t \<and> now - t \<le> 900))"
  shows "\<exists>e. site_admin_step_up (require_admin actor) now verified body st = (Inl e, st)"
proof (cases "is_site_admin actor (pt_db st)")
  case True
  then have "require_admin actor (pt_db st) = Inr ()" by (simp add: admin_law)
  then show ?thesis
    using True assms
    by (auto simp: site_admin_step_up_def guarded_def step_up_def is_step_up_fresh_def STEP_UP_WINDOW_def step_defs
             split: option.splits)
next
  case False
  then show ?thesis
    using admin_only by (simp add: site_admin_step_up_def)
qed

lemma admin_passes: "is_site_admin actor (pt_db st) \<Longrightarrow> guarded (require_admin actor) body st = body st"
  by (simp add: guarded_def admin_law [THEN iffD2])

end

end
