(* ===== verification/Provisioning.thy ===== *)
theory Provisioning
  imports Access
begin

text \<open>
  Administering accounts, teams, invitations and proxy connections
  (\<open>portal/application/provisioning.py\<close>). Password hashes, time-based codes, passkey
  registration and the mailer are code outside the repository and fields of \<open>provisioning_env\<close>;
  what a method draws at random is an argument (\<open>drawn\<close>).
\<close>

section \<open>Environment\<close>

record provisioning_env =
  pe_login :: login_env
  pe_hash_password :: "pystr \<Rightarrow> pystr \<Rightarrow> pystr"
  pe_verify_registration :: "pystr \<Rightarrow> pystr \<Rightarrow> (pystr \<times> pystr \<times> int \<times> pystr list) option"
  pe_enrollment_uri :: "pystr \<Rightarrow> pystr \<Rightarrow> pystr \<Rightarrow> pystr"
  pe_issuer :: pystr
  pe_public_origin :: pystr
  pe_mail_fails :: "mail \<Rightarrow> exn option"

record drawn =
  dr_id :: uuid
  dr_second_id :: uuid
  dr_salt :: pystr
  dr_token :: pystr
  dr_secret :: pystr
  dr_challenge :: pystr
  dr_codes :: "pystr list"
  dr_key :: pystr
  dr_key_nonce :: pystr
  dr_nonce :: pystr

definition MIN_PASSWORD :: nat where "MIN_PASSWORD = 12"
definition TOTP_SETUP :: pystr where "TOTP_SETUP = ''totp_setup''"
definition TOTP_SETUP_TTL :: seconds where "TOTP_SETUP_TTL = 600"
definition PASSKEY_SETUP :: pystr where "PASSKEY_SETUP = ''passkey_setup''"
definition PASSKEY_SETUP_TTL :: seconds where "PASSKEY_SETUP_TTL = 300"
definition INVITE_TTL :: seconds where "INVITE_TTL = 7 * 86400"

fun role_value :: "team_role \<Rightarrow> pystr" where
  "role_value TEAM_LEADER = ''team_leader''"
| "role_value TEAM_MEMBER = ''team_member''"

definition refused_with :: "portal_class \<Rightarrow> reason \<Rightarrow> (pystr \<times> pystr) list \<Rightarrow> 'a step" where
  "refused_with c r params = stop (Repository (Portal \<lparr>pe_class = c, pe_reason = r, pe_params = params\<rparr>))"

text \<open>One-time tokens of a set-up: \<open>json.dumps\<close> of an object with the account and a text.\<close>

definition issue_setup :: "provisioning_env \<Rightarrow> seconds \<Rightarrow> pystr \<Rightarrow> seconds \<Rightarrow> pystr \<Rightarrow> uuid \<Rightarrow> pystr \<Rightarrow> pystr step" where
  "issue_setup env now purpose ttl token uid content st =
     (case issue (le_token_hash (pe_login env)) now purpose (ChallengeDoc (Some uid) content) ttl token (pt_store st) of
        (t, s) \<Rightarrow> (Inr t, set_store s st))"

definition parse_setup :: "stored option \<Rightarrow> uuid \<Rightarrow> pystr step" where
  "parse_setup payload uid =
     (case payload of
        None \<Rightarrow> refused ProvisioningError SETUP_EXPIRED
      | Some (ChallengeDoc who content) \<Rightarrow>
          if who \<noteq> Some uid then refused ProvisioningError SETUP_EXPIRED else give content
      | Some _ \<Rightarrow> stop Malformed)"

definition consume_token :: "provisioning_env \<Rightarrow> seconds \<Rightarrow> pystr \<Rightarrow> pystr \<Rightarrow> stored option step" where
  "consume_token env now purpose token st =
     (case consume (le_token_hash (pe_login env)) now purpose (Some token) (pt_store st) of
        (v, s) \<Rightarrow> (Inr v, set_store s st))"

definition consume_setup :: "provisioning_env \<Rightarrow> seconds \<Rightarrow> pystr \<Rightarrow> pystr \<Rightarrow> uuid \<Rightarrow> pystr step" where
  "consume_setup env now purpose token uid =
     and_then (consume_token env now purpose token) (\<lambda>payload. parse_setup payload uid)"

definition peek_setup :: "provisioning_env \<Rightarrow> seconds \<Rightarrow> pystr \<Rightarrow> pystr \<Rightarrow> uuid \<Rightarrow> pystr step" where
  "peek_setup env now purpose token uid st =
     parse_setup (peek (le_token_hash (pe_login env)) now purpose (Some token) (pt_store st)) uid st"

section \<open>Role checks\<close>

definition require_site_admin :: "uuid \<Rightarrow> accounts \<Rightarrow> account_error + unit" where
  "require_site_admin actor_id db =
     (case user_by_id actor_id db of
        None \<Rightarrow> refuse PermissionDenied SITE_ADMIN_REQUIRED
      | Some u \<Rightarrow>
          if \<not> pu_is_site_admin u \<or> \<not> pu_is_active u then refuse PermissionDenied SITE_ADMIN_REQUIRED else Inr ())"

definition require_leader :: "uuid \<Rightarrow> uuid \<Rightarrow> accounts \<Rightarrow> account_error + unit" where
  "require_leader actor_id team_id db =
     (if role_for actor_id team_id db \<noteq> Some TEAM_LEADER then refuse PermissionDenied LEADER_REQUIRED else Inr ())"

definition require_leader_or_site_admin :: "uuid \<Rightarrow> uuid \<Rightarrow> accounts \<Rightarrow> account_error + unit" where
  "require_leader_or_site_admin actor_id team_id db =
     (case user_by_id actor_id db of
        Some u \<Rightarrow> if pu_is_site_admin u \<and> pu_is_active u then Inr () else require_leader actor_id team_id db
      | None \<Rightarrow> require_leader actor_id team_id db)"

interpretation provisioning_access: access_rules require_site_admin require_leader require_leader_or_site_admin
  by unfold_locales
     (auto simp: require_site_admin_def require_leader_def require_leader_or_site_admin_def refuse_def
        is_site_admin_def user_by_id_def user_row_def split: option.splits)

section \<open>Shared checks\<close>

definition reload :: "uuid \<Rightarrow> portal_user step" where
  "reload user_id =
     and_then (ask (user_by_id user_id)) (\<lambda>u. case u of None \<Rightarrow> refused NotFound USER_NOT_FOUND | Some user \<Rightarrow> give user)"

definition member_by_email :: "pystr \<Rightarrow> portal_user step" where
  "member_by_email email =
     and_then (check (clean_email email)) (\<lambda>clean.
     and_then (ask (user_by_email clean)) (\<lambda>found.
     case found of None \<Rightarrow> refused NotFound USER_NOT_FOUND | Some (user, _) \<Rightarrow> give user))"

definition guard_account_removal :: "uuid \<Rightarrow> uuid \<Rightarrow> portal_user step" where
  "guard_account_removal actor_id user_id =
     (if user_id = actor_id then refused ProvisioningError USER_CANNOT_DEACTIVATE_SELF
      else
        and_then (reload user_id) (\<lambda>target.
        and_then (ask (teams_where_sole_leader user_id)) (\<lambda>sole_leader_of.
        if sole_leader_of \<noteq> []
        then refused_with ProvisioningError USER_LAST_LEADER [(''teams'', py_join '', '' (map te_name sole_leader_of))]
        else give target)))"

text \<open>The slug the administrator gave, or a free one made of the name.\<close>

definition choose_slug :: "pystr option \<Rightarrow> pystr \<Rightarrow> pystr step" where
  "choose_slug slug name =
     (case slug of
        Some s \<Rightarrow>
          if s \<noteq> [] then check (clean_slug s)
          else and_then (ask (unique_slug name)) (\<lambda>r. case r of Some u \<Rightarrow> give u | None \<Rightarrow> stop Malformed)
      | None \<Rightarrow> and_then (ask (unique_slug name)) (\<lambda>r. case r of Some u \<Rightarrow> give u | None \<Rightarrow> stop Malformed))"

definition long_enough :: "pystr \<Rightarrow> unit step" where
  "long_enough password =
     (if length password < MIN_PASSWORD
      then refused_with ProvisioningError PASSWORD_TOO_SHORT [(''minimum'', nat_str MIN_PASSWORD)] else give ())"

section \<open>Installing\<close>

record installation_report =
  in_team_count :: nat
  in_initial_team :: "uuid option"
  in_can_create_first_team :: bool
  in_next_step :: pystr

definition require_site_admin_by :: "uuid \<Rightarrow> unit step" where
  "require_site_admin_by actor_id st = check (require_site_admin actor_id (pt_db st)) st"

definition installation_status_by :: "uuid \<Rightarrow> installation_report step" where
  "installation_status_by actor_id =
     guarded (require_site_admin actor_id)
       (and_then (ask installation_status) (\<lambda>(team_count, initial).
        let can_create = (team_count = 0 \<and> initial = None)
        in give \<lparr>in_team_count = team_count, in_initial_team = initial, in_can_create_first_team = can_create,
                 in_next_step = (if can_create then ''create_first_team'' else ''manage_site'')\<rparr>))"

definition ensure_site_admin :: "drawn \<Rightarrow> pystr \<Rightarrow> pystr \<Rightarrow> (portal_user \<times> bool) step" where
  "ensure_site_admin fresh email password_hash =
     and_then (commit (create_account (dr_id fresh) email password_hash)) (\<lambda>user.
     if has_second_factor user then give (user, False)
     else and_then (commit_unit (set_pending_site_admin (pu_id user) True)) (\<lambda>_.
          and_then (reload (pu_id user)) (\<lambda>u. give (u, True))))"

definition create_first_team_by :: "drawn \<Rightarrow> uuid \<Rightarrow> pystr \<Rightarrow> pystr option \<Rightarrow> request_trace \<Rightarrow> team step" where
  "create_first_team_by fresh actor_id name slug trace =
     guarded (require_site_admin actor_id)
       (and_then (check (team_name name)) (\<lambda>clean_name.
        and_then (choose_slug slug clean_name) (\<lambda>s.
        and_then (commit (create_first_team (dr_id fresh) s clean_name actor_id)) (\<lambda>team.
        and_then (log_event TEAM_CREATED actor_id trace [(''team'', nat_str (te_id team))]) (\<lambda>_.
        give team)))))"

definition ensure_first_team :: "drawn \<Rightarrow> uuid \<Rightarrow> pystr \<Rightarrow> pystr \<Rightarrow> (team \<times> bool) step" where
  "ensure_first_team fresh actor_id name slug =
     guarded (require_site_admin actor_id)
       (and_then (check (clean_slug slug)) (\<lambda>normalized_slug.
        and_then (ask installation_status) (\<lambda>(team_count, initial).
        if team_count = 0
        then and_then (create_first_team_by fresh actor_id name (Some normalized_slug) no_trace) (\<lambda>team. give (team, True))
        else
          and_then (ask (team_by_slug normalized_slug)) (\<lambda>existing.
          case existing of
            None \<Rightarrow> refused ProvisioningError INITIAL_TEAM_MISMATCH
          | Some team \<Rightarrow>
              if Some (te_id team) \<noteq> initial then refused ProvisioningError INITIAL_TEAM_MISMATCH
              else and_then (commit_unit (add_member (te_id team) actor_id TEAM_LEADER)) (\<lambda>_. give (team, False))))))"

section \<open>Teams and accounts\<close>

definition create_team_by ::
  "drawn \<Rightarrow> seconds \<Rightarrow> uuid \<Rightarrow> pystr \<Rightarrow> pystr option \<Rightarrow> pystr \<Rightarrow> seconds option \<Rightarrow> request_trace \<Rightarrow> team step" where
  "create_team_by fresh now actor_id name slug leader_email mfa_verified_at trace =
     site_admin_step_up (require_site_admin actor_id) now mfa_verified_at
       (and_then (member_by_email leader_email) (\<lambda>leader.
        and_then (check (team_name name)) (\<lambda>clean_name.
        and_then (choose_slug slug clean_name) (\<lambda>s.
        and_then (commit (create_team (dr_id fresh) s clean_name actor_id (pu_id leader))) (\<lambda>team.
        and_then (log_event TEAM_CREATED actor_id trace [(''team'', nat_str (te_id team))]) (\<lambda>_.
        give team))))))"

definition create_user_by ::
  "provisioning_env \<Rightarrow> drawn \<Rightarrow> seconds \<Rightarrow> uuid \<Rightarrow> pystr \<Rightarrow> pystr \<Rightarrow> seconds option \<Rightarrow> request_trace \<Rightarrow> portal_user step" where
  "create_user_by env fresh now actor_id email password mfa_verified_at trace =
     site_admin_step_up (require_site_admin actor_id) now mfa_verified_at
       (and_then (long_enough password) (\<lambda>_.
        and_then (check (clean_email email)) (\<lambda>clean.
        and_then (commit (create_user (dr_id fresh) clean (pe_hash_password env (dr_salt fresh) password) False)) (\<lambda>user.
        and_then (log_event USER_CREATED actor_id trace [(''user'', nat_str (pu_id user))]) (\<lambda>_.
        give user)))))"

definition users_by :: "uuid \<Rightarrow> portal_user list step" where
  "users_by actor_id = guarded (require_site_admin actor_id) (ask all_users)"

definition user_detail_by :: "uuid \<Rightarrow> uuid \<Rightarrow> portal_user step" where
  "user_detail_by actor_id user_id = guarded (require_site_admin actor_id) (reload user_id)"

definition teams_for_user_by :: "uuid \<Rightarrow> uuid \<Rightarrow> team list step" where
  "teams_for_user_by actor_id user_id = guarded (require_site_admin actor_id) (ask (teams_for_user_detail user_id))"

definition is_sole_active_admin_by :: "uuid \<Rightarrow> uuid \<Rightarrow> bool step" where
  "is_sole_active_admin_by actor_id user_id =
     guarded (require_site_admin actor_id)
       (and_then (ask (user_by_id user_id)) (\<lambda>user.
        case user of
          None \<Rightarrow> give False
        | Some u \<Rightarrow>
            if \<not> pu_is_site_admin u \<or> \<not> pu_is_active u then give False
            else and_then (ask count_active_site_admins) (\<lambda>n. give (n \<le> 1))))"

definition deactivate_user_by ::
  "seconds \<Rightarrow> uuid \<Rightarrow> uuid \<Rightarrow> seconds option \<Rightarrow> request_trace \<Rightarrow> portal_user step" where
  "deactivate_user_by now actor_id user_id mfa_verified_at trace =
     site_admin_step_up (require_site_admin actor_id) now mfa_verified_at
       (and_then (guard_account_removal actor_id user_id) (\<lambda>_.
        and_then (commit (deactivate now user_id actor_id)) (\<lambda>user.
        and_then (log_event USER_DEACTIVATED actor_id trace [(''user'', nat_str user_id)]) (\<lambda>_.
        give user))))"

definition reactivate_user_by ::
  "seconds \<Rightarrow> uuid \<Rightarrow> uuid \<Rightarrow> seconds option \<Rightarrow> request_trace \<Rightarrow> portal_user step" where
  "reactivate_user_by now actor_id user_id mfa_verified_at trace =
     site_admin_step_up (require_site_admin actor_id) now mfa_verified_at
       (and_then (commit (reactivate user_id)) (\<lambda>user.
        and_then (log_event USER_REACTIVATED actor_id trace [(''user'', nat_str user_id)]) (\<lambda>_.
        give user)))"

definition delete_user_by ::
  "seconds \<Rightarrow> uuid \<Rightarrow> uuid \<Rightarrow> seconds option \<Rightarrow> request_trace \<Rightarrow> unit step" where
  "delete_user_by now actor_id user_id mfa_verified_at trace =
     site_admin_step_up (require_site_admin actor_id) now mfa_verified_at
       (and_then (guard_account_removal actor_id user_id) (\<lambda>_.
        and_then (commit (delete_if_unused user_id)) (\<lambda>deleted.
        if \<not> deleted then refused ProvisioningError USER_HAS_HISTORY
        else log_event USER_DELETED actor_id trace [(''user'', nat_str user_id)])))"

text \<open>
  Every repository call of \<open>delete_user\<close> is a transaction of its own, and other requests commit between them.
  \<open>delete_user_among\<close> is the method with what they commit, on the tables of accounts and teams, at its four awaits:
  after the role check (\<open>g1\<close>), between the two reads of the guard (\<open>g2\<close>), between the guard and the \<open>DELETE\<close>
  (\<open>g3\<close>), and before the entry of the audit log (\<open>g4\<close>). \<open>NameUser\<close> is a commit elsewhere that refers to an account.
\<close>

datatype other_commit = OtherOp portal_op | NameUser uuid

fun other_done :: "other_commit \<Rightarrow> accounts \<Rightarrow> accounts" where
  "other_done (OtherOp c) db = attempt_portal c db"
| "other_done (NameUser uid) db = db\<lparr>ac_history := ac_history db @ [uid]\<rparr>"

definition others :: "other_commit list \<Rightarrow> unit step" where
  "others gap st = (Inr (), set_db (fold other_done gap (pt_db st)) st)"

definition guard_account_removal_among :: "other_commit list \<Rightarrow> uuid \<Rightarrow> uuid \<Rightarrow> portal_user step" where
  "guard_account_removal_among g2 actor_id user_id =
     (if user_id = actor_id then refused ProvisioningError USER_CANNOT_DEACTIVATE_SELF
      else
        and_then (reload user_id) (\<lambda>target.
        and_then (others g2) (\<lambda>_.
        and_then (ask (teams_where_sole_leader user_id)) (\<lambda>sole_leader_of.
        if sole_leader_of \<noteq> []
        then refused_with ProvisioningError USER_LAST_LEADER [(''teams'', py_join '', '' (map te_name sole_leader_of))]
        else give target))))"

definition delete_user_among ::
  "other_commit list \<Rightarrow> other_commit list \<Rightarrow> other_commit list \<Rightarrow> other_commit list \<Rightarrow>
   seconds \<Rightarrow> uuid \<Rightarrow> uuid \<Rightarrow> seconds option \<Rightarrow> request_trace \<Rightarrow> unit step" where
  "delete_user_among g1 g2 g3 g4 now actor_id user_id mfa_verified_at trace =
     site_admin_step_up (require_site_admin actor_id) now mfa_verified_at
       (and_then (others g1) (\<lambda>_.
        and_then (guard_account_removal_among g2 actor_id user_id) (\<lambda>_.
        and_then (others g3) (\<lambda>_.
        and_then (commit (delete_if_unused user_id)) (\<lambda>deleted.
        if \<not> deleted then refused ProvisioningError USER_HAS_HISTORY
        else
          and_then (others g4) (\<lambda>_.
          log_event USER_DELETED actor_id trace [(''user'', nat_str user_id)]))))))"

lemma others_nil [simp]: "and_then (others []) f = f ()"
  by (rule ext) (simp add: others_def and_then_def set_db_def pt_db_def)

text \<open>A request that nothing else runs beside.\<close>

lemma delete_user_alone: "delete_user_among [] [] [] [] = delete_user_by"
  by (intro ext)
    (simp add: delete_user_among_def delete_user_by_def guard_account_removal_among_def guard_account_removal_def cong: if_cong)

definition promote_to_site_admin_by ::
  "seconds \<Rightarrow> uuid \<Rightarrow> uuid \<Rightarrow> seconds option \<Rightarrow> request_trace \<Rightarrow> bool step" where
  "promote_to_site_admin_by now actor_id user_id mfa_verified_at trace =
     site_admin_step_up (require_site_admin actor_id) now mfa_verified_at
       (and_then (reload user_id) (\<lambda>user.
        if pu_is_site_admin user then give False
        else
          and_then
            (if has_second_factor user
             then and_then (commit (promote_now user_id)) (\<lambda>_. give False)
             else and_then (commit_unit (set_pending_site_admin user_id True)) (\<lambda>_. give True)) (\<lambda>needs_setup.
          and_then (log_event USER_PROMOTED actor_id trace [(''user'', nat_str user_id)]) (\<lambda>_.
          give needs_setup))))"

definition demote_site_admin_by ::
  "seconds \<Rightarrow> uuid \<Rightarrow> uuid \<Rightarrow> seconds option \<Rightarrow> request_trace \<Rightarrow> portal_user step" where
  "demote_site_admin_by now actor_id user_id mfa_verified_at trace =
     site_admin_step_up (require_site_admin actor_id) now mfa_verified_at
       (if user_id = actor_id then refused ProvisioningError USER_CANNOT_DEACTIVATE_SELF
        else
          and_then (commit (demote user_id)) (\<lambda>user.
          and_then (log_event USER_DEMOTED actor_id trace [(''user'', nat_str user_id)]) (\<lambda>_.
          give user)))"

definition reset_password_by ::
  "provisioning_env \<Rightarrow> drawn \<Rightarrow> seconds \<Rightarrow> uuid \<Rightarrow> uuid \<Rightarrow> pystr \<Rightarrow> seconds option \<Rightarrow> request_trace \<Rightarrow> unit step" where
  "reset_password_by env fresh now actor_id user_id password mfa_verified_at trace =
     site_admin_step_up (require_site_admin actor_id) now mfa_verified_at
       (and_then (long_enough password) (\<lambda>_.
        and_then (commit_unit (set_password user_id (pe_hash_password env (dr_salt fresh) password))) (\<lambda>_.
        log_event USER_PASSWORD_RESET actor_id trace [(''user'', nat_str user_id)])))"

section \<open>Second factors\<close>

record totp_setup =
  ts_token :: pystr
  ts_enrollment_uri :: pystr

text \<open>A registration challenge lists the credentials to exclude; its other options are the library's.\<close>

record passkey_setup =
  ks_token :: pystr
  ks_excluded :: "pystr list"

definition begin_totp_setup :: "provisioning_env \<Rightarrow> drawn \<Rightarrow> seconds \<Rightarrow> uuid \<Rightarrow> totp_setup step" where
  "begin_totp_setup env fresh now actor_id =
     and_then (reload actor_id) (\<lambda>user.
     and_then (issue_setup env now TOTP_SETUP TOTP_SETUP_TTL (dr_token fresh) (pu_id user) (dr_secret fresh)) (\<lambda>token.
     give \<lparr>ts_token = token, ts_enrollment_uri = pe_enrollment_uri env (dr_secret fresh) (pu_email user) (pe_issuer env)\<rparr>))"

text \<open>The recovery codes of a first factor.\<close>

definition codes_of :: "drawn \<Rightarrow> portal_user \<Rightarrow> pystr list option" where
  "codes_of fresh user = (if \<not> has_second_factor user then Some (dr_codes fresh) else None)"

definition hashes_of :: "provisioning_env \<Rightarrow> pystr list option \<Rightarrow> pystr list option" where
  "hashes_of env codes = map_option (map (le_token_hash (pe_login env))) codes"

definition seal :: "provisioning_env \<Rightarrow> drawn \<Rightarrow> pystr \<Rightarrow> protected_secret" where
  "seal env fresh payload =
     protect (le_aead (pe_login env)) (le_keyring (pe_login env)) (dr_key fresh) (dr_key_nonce fresh) (dr_nonce fresh) payload"

definition commit_totp :: "provisioning_env \<Rightarrow> drawn \<Rightarrow> portal_user \<Rightarrow> pystr \<Rightarrow> pystr list option step" where
  "commit_totp env fresh user secret =
     (let codes = codes_of fresh user
      in and_then (commit_unit (enable_totp (pu_id user) (seal env fresh secret) (hashes_of env codes) (pu_pending_site_admin user))) (\<lambda>_.
         and_then (log_event MFA_ENROLLED (pu_id user) no_trace []) (\<lambda>_.
         give codes)))"

definition confirm_totp_setup ::
  "provisioning_env \<Rightarrow> drawn \<Rightarrow> seconds \<Rightarrow> uuid \<Rightarrow> pystr \<Rightarrow> pystr \<Rightarrow> pystr list option step" where
  "confirm_totp_setup env fresh now actor_id setup_token code =
     and_then (reload actor_id) (\<lambda>user.
     and_then (peek_setup env now TOTP_SETUP setup_token (pu_id user)) (\<lambda>secret.
     if \<not> totp_matches (pe_login env) now secret code then refused ProvisioningError TOTP_CODE_INVALID
     else and_then (consume_token env now TOTP_SETUP setup_token) (\<lambda>_. commit_totp env fresh user secret)))"

definition disable_totp_by :: "uuid \<Rightarrow> unit step" where
  "disable_totp_by actor_id =
     and_then (commit_unit (disable_totp actor_id)) (\<lambda>_. log_event MFA_REMOVED actor_id no_trace [])"

definition begin_passkey_registration :: "provisioning_env \<Rightarrow> drawn \<Rightarrow> seconds \<Rightarrow> uuid \<Rightarrow> passkey_setup step" where
  "begin_passkey_registration env fresh now actor_id =
     and_then (reload actor_id) (\<lambda>user.
     and_then (ask (webauthn_credentials (pu_id user))) (\<lambda>existing.
     and_then (issue_setup env now PASSKEY_SETUP PASSKEY_SETUP_TTL (dr_token fresh) (pu_id user) (dr_challenge fresh)) (\<lambda>token.
     give \<lparr>ks_token = token, ks_excluded = map pk_credential_id existing\<rparr>)))"

definition confirm_passkey_registration ::
  "provisioning_env \<Rightarrow> drawn \<Rightarrow> seconds \<Rightarrow> uuid \<Rightarrow> pystr \<Rightarrow> pystr \<Rightarrow> pystr \<Rightarrow> pystr list option step" where
  "confirm_passkey_registration env fresh now actor_id setup_token response label =
     and_then (reload actor_id) (\<lambda>user.
     and_then (consume_setup env now PASSKEY_SETUP setup_token (pu_id user)) (\<lambda>challenge.
     case pe_verify_registration env response challenge of
       None \<Rightarrow> refused ProvisioningError WEBAUTHN_VERIFICATION_FAILED
     | Some (credential_id, public_key, sign_count, transports) \<Rightarrow>
         let codes = codes_of fresh user
         in and_then (if py_strip label \<noteq> [] then check (clean_label label) else give ''Clave de acceso'') (\<lambda>clean.
            and_then (commit_unit (add_webauthn_credential
                 \<lparr>pk_id = dr_id fresh, pk_user = pu_id user, pk_credential_id = credential_id, pk_public_key = public_key,
                  pk_sign_count = sign_count, pk_transports = transports, pk_label = clean, pk_created_at = now,
                  pk_last_used_at = None\<rparr> (hashes_of env codes) (pu_pending_site_admin user))) (\<lambda>_.
            and_then (log_event PASSKEY_REGISTERED (pu_id user) no_trace []) (\<lambda>_.
            give codes)))))"

definition passkeys_of :: "uuid \<Rightarrow> passkey list step" where
  "passkeys_of actor_id = ask (webauthn_credentials actor_id)"

definition remove_passkey :: "uuid \<Rightarrow> uuid \<Rightarrow> unit step" where
  "remove_passkey actor_id credential_id =
     and_then (commit_unit (remove_webauthn_credential actor_id credential_id)) (\<lambda>_.
     log_event PASSKEY_REMOVED actor_id no_trace [])"

section \<open>Members and invitations\<close>

definition teams_by :: "uuid \<Rightarrow> team list step" where
  "teams_by actor_id = guarded (require_site_admin actor_id) (ask all_teams)"

definition invitation_mail :: "provisioning_env \<Rightarrow> pystr \<Rightarrow> pystr \<Rightarrow> mail" where
  "invitation_mail env email token =
     \<lparr>ml_to = email,
      ml_body = ''Te invitaron a un equipo en docs.pe. Para unirte, abre este enlace y crea tu contrase''
                @ [char_of (241 :: nat)] @ ''a: '' @ pe_public_origin env @ ''/invite/'' @ token\<rparr>"

text \<open>Sending may raise; the invitation is committed by then.\<close>

definition send_mail :: "provisioning_env \<Rightarrow> mail \<Rightarrow> unit step" where
  "send_mail env m st =
     (case pe_mail_fails env m of
        Some e \<Rightarrow> (Inl (Raised e), st)
      | None \<Rightarrow> (Inr (), st\<lparr>pt_mail := pt_mail st @ [m]\<rparr>))"

definition send_invite ::
  "provisioning_env \<Rightarrow> drawn \<Rightarrow> seconds \<Rightarrow> uuid \<Rightarrow> uuid \<Rightarrow> pystr \<Rightarrow> team_role \<Rightarrow> request_trace \<Rightarrow> unit step" where
  "send_invite env fresh now actor_id team_id email role trace =
     and_then (commit (create_invite now
         \<lparr>iv_id = dr_id fresh, iv_team = team_id, iv_email = email, iv_role = role,
          iv_token_hash = le_token_hash (pe_login env) (dr_token fresh), iv_invited_by = actor_id,
          iv_created_at = now, iv_expires_at = now + INVITE_TTL, iv_accepted_at = None\<rparr>)) (\<lambda>_.
     and_then (send_mail env (invitation_mail env email (dr_token fresh))) (\<lambda>_.
     log_event INVITE_SENT actor_id trace
       [(''team'', nat_str team_id), (''email'', email), (''role'', role_value role)]))"

definition invite_or_add_member_by ::
  "provisioning_env \<Rightarrow> drawn \<Rightarrow> seconds \<Rightarrow> uuid \<Rightarrow> uuid \<Rightarrow> pystr \<Rightarrow> team_role \<Rightarrow> request_trace \<Rightarrow> unit step" where
  "invite_or_add_member_by env fresh now actor_id team_id email role trace =
     guarded (require_leader_or_site_admin actor_id team_id)
       (and_then (check (clean_email email)) (\<lambda>clean.
        and_then (ask (user_by_email clean)) (\<lambda>found.
        case found of
          Some (member, _) \<Rightarrow>
            and_then (commit_unit (add_member team_id (pu_id member) role)) (\<lambda>_.
            log_event MEMBER_ADDED actor_id trace
              [(''team'', nat_str team_id), (''user'', nat_str (pu_id member)), (''role'', role_value role)])
        | None \<Rightarrow> send_invite env fresh now actor_id team_id clean role trace)))"

definition resend_invite_by ::
  "provisioning_env \<Rightarrow> drawn \<Rightarrow> seconds \<Rightarrow> uuid \<Rightarrow> uuid \<Rightarrow> uuid \<Rightarrow> request_trace \<Rightarrow> unit step" where
  "resend_invite_by env fresh now actor_id team_id invite_id trace =
     guarded (require_leader_or_site_admin actor_id team_id)
       (and_then (ask (pending_invites_for_team team_id)) (\<lambda>invites.
        case List.find (\<lambda>i. iv_id i = invite_id) invites of
          None \<Rightarrow> refused NotFound INVITE_INVALID
        | Some i \<Rightarrow> send_invite env fresh now actor_id team_id (iv_email i) (iv_role i) trace))"

definition cancel_invite_by :: "uuid \<Rightarrow> uuid \<Rightarrow> uuid \<Rightarrow> unit step" where
  "cancel_invite_by actor_id team_id invite_id =
     guarded (require_leader_or_site_admin actor_id team_id)
       (commit (\<lambda>db. Inr ((), delete_invite team_id invite_id db)))"

definition pending_invites_by :: "uuid \<Rightarrow> uuid \<Rightarrow> invite list step" where
  "pending_invites_by actor_id team_id =
     guarded (require_leader_or_site_admin actor_id team_id) (ask (pending_invites_for_team team_id))"

definition valid_invite :: "provisioning_env \<Rightarrow> seconds \<Rightarrow> pystr \<Rightarrow> invite step" where
  "valid_invite env now token =
     and_then (ask (invite_by_token_hash (le_token_hash (pe_login env) token))) (\<lambda>found.
     case found of
       None \<Rightarrow> refused NotFound INVITE_INVALID
     | Some i \<Rightarrow>
         if iv_accepted_at i \<noteq> None \<or> iv_expires_at i \<le> now then refused NotFound INVITE_INVALID else give i)"

definition redeem_invite :: "provisioning_env \<Rightarrow> drawn \<Rightarrow> seconds \<Rightarrow> pystr \<Rightarrow> pystr \<Rightarrow> portal_user step" where
  "redeem_invite env fresh now token password =
     and_then (valid_invite env now token) (\<lambda>i.
     and_then (long_enough password) (\<lambda>_.
     and_then (ask (user_by_email (iv_email i))) (\<lambda>found.
     and_then
       (case found of
          Some (user, _) \<Rightarrow> give user
        | None \<Rightarrow> commit (create_user (dr_id fresh) (iv_email i) (pe_hash_password env (dr_salt fresh) password) False)) (\<lambda>user.
     and_then (commit_unit (add_member (iv_team i) (pu_id user) (iv_role i))) (\<lambda>_.
     and_then (commit (\<lambda>db. Inr ((), mark_invite_accepted now (iv_id i) db))) (\<lambda>_.
     and_then (log_event INVITE_ACCEPTED (pu_id user) no_trace [(''team'', nat_str (iv_team i))]) (\<lambda>_.
     give user)))))))"

definition remove_member_by :: "uuid \<Rightarrow> uuid \<Rightarrow> pystr \<Rightarrow> request_trace \<Rightarrow> unit step" where
  "remove_member_by actor_id team_id email trace =
     guarded (require_leader_or_site_admin actor_id team_id)
       (and_then (member_by_email email) (\<lambda>member.
        and_then (commit_unit (remove_member team_id (pu_id member))) (\<lambda>_.
        log_event MEMBER_REMOVED actor_id trace [(''team'', nat_str team_id), (''user'', nat_str (pu_id member))])))"

definition members_by :: "uuid \<Rightarrow> uuid \<Rightarrow> (portal_user \<times> team_role) list step" where
  "members_by actor_id team_id = guarded (require_leader_or_site_admin actor_id team_id) (ask (members_for_team team_id))"

section \<open>Proxy connections\<close>

record team_readiness =
  rd_has_active_credential :: bool
  rd_has_members_beyond_creator :: bool
  rd_next_step :: pystr

definition team_readiness_by :: "uuid \<Rightarrow> uuid \<Rightarrow> team_readiness step" where
  "team_readiness_by actor_id team_id =
     guarded (require_leader_or_site_admin actor_id team_id)
       (\<lambda>st.
          let has_active = list_ex (\<lambda>v. cv_active v \<and> cv_state v = Active) (credentials_for_team team_id (pt_credentials st));
              members = members_for_team team_id (pt_db st)
          in (Inr \<lparr>rd_has_active_credential = has_active, rd_has_members_beyond_creator = (1 < length members),
                   rd_next_step = (if has_active then ''submit_job'' else ''configure_proxy'')\<rparr>, st))"

text \<open>Transactions that write the credential tables too.\<close>

definition commit_start :: "(accounts \<Rightarrow> credentials \<Rightarrow> account_error + ('a \<times> accounts \<times> credentials)) \<Rightarrow> 'a step" where
  "commit_start op st =
     (case op (pt_db st) (pt_credentials st) of
        Inl e \<Rightarrow> (Inl (Repository e), st)
      | Inr (x, db, cs) \<Rightarrow> (Inr x, (set_db db st)\<lparr>pt_credentials := cs\<rparr>))"

definition commit_credentials :: "(accounts \<Rightarrow> credentials \<Rightarrow> account_error + ('a \<times> credentials)) \<Rightarrow> 'a step" where
  "commit_credentials op = commit_start (\<lambda>db cs. bind_res (op db cs) (\<lambda>(x, cs'). Inr (x, db, cs')))"

definition encode_config :: "(pystr \<times> pystr) list \<Rightarrow> pystr" where
  "encode_config vals = escape_ascii (dumps_compact (JObj (map (\<lambda>(k, v). (k, JStr v)) (sort_key fst vals))))"

definition normalized_config :: "pystr \<Rightarrow> raw_values \<Rightarrow> (pystr \<times> pystr) list step" where
  "normalized_config provider raw =
     (case bind_res (spec_for provider) (\<lambda>spec. sp_normalize spec raw) of
        Inr vals \<Rightarrow> give vals
      | Inl e \<Rightarrow>
          if isinstance e ProxyConfigurationError then refused CredentialConfigurationError PROXY_INVALID
          else stop (Raised e))"

text \<open>
  \<open>probe\<close> is what the preflight of the provider's session answers (\<open>Proxy.preflight\<close>), which runs
  between the two transactions.
\<close>

definition configure_proxy ::
  "provisioning_env \<Rightarrow> drawn \<Rightarrow> seconds \<Rightarrow> uuid \<Rightarrow> uuid \<Rightarrow> pystr \<Rightarrow> pystr \<Rightarrow> raw_values
     \<Rightarrow> ((pystr \<times> pystr) list \<Rightarrow> exn + pystr) \<Rightarrow> request_trace \<Rightarrow> credential_version step" where
  "configure_proxy env fresh now actor_id team_id label provider raw probe trace =
     guarded (require_leader_or_site_admin actor_id team_id)
       (if map_of PROVIDERS provider = None then refused CredentialConfigurationError PROXY_UNAVAILABLE
        else
          and_then (check (clean_label label)) (\<lambda>clean.
          and_then (normalized_config provider raw) (\<lambda>normalized.
          and_then (commit_start (start_credential_validation (dr_id fresh) (dr_second_id fresh) team_id clean provider
                      (seal env fresh (encode_config normalized)) actor_id)) (\<lambda>pending.
          case probe normalized of
            Inl e \<Rightarrow>
              if isinstance e ProxyConfigurationError
              then and_then (commit_credentials (finish_credential_validation now (cv_id pending) Failed_Validation
                               (Some ''proxy_preflight_failed'') actor_id)) (\<lambda>_.
                   refused CredentialConfigurationError PROXY_PREFLIGHT_FAILED)
              else stop (Raised e)
          | Inr _ \<Rightarrow>
              and_then (commit_credentials (finish_credential_validation now (cv_id pending) Active (Some '''') actor_id)) (\<lambda>credential.
              and_then (log_event CREDENTIAL_CONFIGURED actor_id trace
                 [(''team'', nat_str team_id), (''credential'', nat_str (cv_id credential)), (''provider'', provider)]) (\<lambda>_.
              give credential))))))"

definition provider_fields :: "pystr \<Rightarrow> account_error + field list" where
  "provider_fields provider =
     (case map_of PROVIDERS provider of
        None \<Rightarrow> refuse CredentialConfigurationError PROXY_UNAVAILABLE
      | Some spec \<Rightarrow> Inr (sp_fields spec))"

section \<open>The class\<close>

text \<open>The coroutines of the class by decorator.\<close>

definition decorated :: "pystr \<Rightarrow> pystr \<Rightarrow> service_method" where
  "decorated label name = mark label \<lparr>sm_name = name, sm_coroutine = True, sm_marker = None\<rparr>"

definition stepped_up :: "pystr \<Rightarrow> service_method" where
  "stepped_up name = mark ''site_admin'' (decorated ''step_up'' name)"

definition provisioning_methods :: "service_method list" where
  "provisioning_methods =
     map (decorated ''public'') [''require_site_admin'', ''ensure_site_admin'', ''begin_totp_setup'', ''confirm_totp_setup'',
       ''disable_totp'', ''begin_passkey_registration'', ''confirm_passkey_registration'', ''passkeys'', ''remove_passkey'',
       ''invite_preview'', ''redeem_invite'']
     @ map (decorated ''site_admin'') [''installation_status'', ''create_first_team'', ''ensure_first_team'', ''users'',
         ''user_detail'', ''teams_for_user'', ''is_sole_active_admin'', ''teams'']
     @ map stepped_up [''create_team'', ''create_user'', ''deactivate_user'', ''reactivate_user'', ''delete_user'',
         ''promote_to_site_admin'', ''demote_site_admin'', ''reset_password'']
     @ map (decorated ''site_admin_or_leader'') [''invite_or_add_member'', ''resend_invite'', ''cancel_invite'', ''pending_invites'',
         ''remove_member'', ''members'', ''team_readiness'', ''configure_proxy'']"

lemma provisioning_defined: "define_service provisioning_methods = Inr ()"
  by code_simp

end
