(* ===== verification/ProvisionProps.thy ===== *)
theory ProvisionProps
  imports Provisioning "HOL-Library.Sublist"
begin

text \<open>
  What the provisioning service promises: its sensitive actions need the role and a fresh second
  factor and write nothing when they are refused or raise; every method keeps the invariants of
  the account, team and credential tables; the guard of account removal covers the triggers when nothing commits after it; the
  set-up of a second factor and an invitation end as they should. Two flaws of the code are
  proved by runs: administrators that delete each other, and an invitation that signs in an
  existing account.
\<close>

section \<open>Steps that read, that never raise, that are all or nothing\<close>

named_theorems atomic_intros

definition reads :: "'a step \<Rightarrow> bool" where
  "reads m \<longleftrightarrow> (\<forall>st. snd (m st) = st)"

definition total :: "'a step \<Rightarrow> bool" where
  "total m \<longleftrightarrow> (\<forall>st. \<exists>x. fst (m st) = Inr x)"

definition atomic :: "'a step \<Rightarrow> bool" where
  "atomic m \<longleftrightarrow> (\<forall>st e. fst (m st) = Inl e \<longrightarrow> snd (m st) = st)"

lemma and_then_apply:
  "and_then m f st = (case fst (m st) of Inl e \<Rightarrow> (Inl e, snd (m st)) | Inr x \<Rightarrow> f x (snd (m st)))"
  by (cases "m st") (simp add: and_then_def split: sum.split)

lemma reads_basic [atomic_intros]:
  "reads (give x)" "reads (stop e)" "reads (check r)" "reads (ask q)" "reads (refused c y)" "reads (refused_with c y ps)"
  by (auto simp: reads_def step_defs refused_with_def split: sum.splits)

lemma reads_then [atomic_intros]: "reads m \<Longrightarrow> (\<And>x. reads (f x)) \<Longrightarrow> reads (and_then m f)"
  by (simp add: reads_def and_then_apply split: sum.split)

lemma reads_if [atomic_intros]: "(b \<Longrightarrow> reads m) \<Longrightarrow> (\<not> b \<Longrightarrow> reads n) \<Longrightarrow> reads (if b then m else n)"
  by simp

lemma reads_option [atomic_intros]:
  "reads m \<Longrightarrow> (\<And>x. reads (f x)) \<Longrightarrow> reads (case v of None \<Rightarrow> m | Some x \<Rightarrow> f x)"
  by (cases v) simp_all

lemma reads_parts [atomic_intros]:
  "reads (reload u)" "reads (member_by_email e)" "reads (guard_account_removal a u)" "reads (choose_slug s n)"
  "reads (long_enough p)"
  unfolding reload_def member_by_email_def guard_account_removal_def choose_slug_def long_enough_def
  by (auto intro!: atomic_intros split: option.splits prod.splits)

lemma total_give [atomic_intros]: "total (give x)" "total (log_event a u t ms)"
  by (simp_all add: total_def give_def log_event_def)

lemma total_then [atomic_intros]: "total m \<Longrightarrow> (\<And>x. total (f x)) \<Longrightarrow> total (and_then m f)"
proof -
  assume m: "total m" and f: "\<And>x. total (f x)"
  have "\<exists>y. fst (and_then m f st) = Inr y" for st
  proof -
    obtain x where "fst (m st) = Inr x"
      using m by (auto simp: total_def)
    then show ?thesis
      using f [of x] by (simp add: total_def and_then_apply)
  qed
  then show ?thesis by (simp add: total_def)
qed

lemma atomic_reads: "reads m \<Longrightarrow> atomic m"
  by (simp add: reads_def atomic_def)

lemma atomic_total: "total m \<Longrightarrow> atomic m"
  unfolding total_def atomic_def by (metis Inl_Inr_False)

lemma atomic_commit [atomic_intros]: "atomic (commit op)" "atomic (commit_unit op')"
  by (auto simp: atomic_def commit_def commit_unit_def split: sum.splits)

lemma atomic_then_reads: "reads m \<Longrightarrow> (\<And>x. atomic (f x)) \<Longrightarrow> atomic (and_then m f)"
  by (simp add: reads_def atomic_def and_then_apply split: sum.split)

lemma atomic_then_total: "atomic m \<Longrightarrow> (\<And>x. total (f x)) \<Longrightarrow> atomic (and_then m f)"
  unfolding total_def atomic_def and_then_apply
  by (auto split: sum.splits) (metis Inl_Inr_False)

lemma atomic_if [atomic_intros]: "(b \<Longrightarrow> atomic m) \<Longrightarrow> (\<not> b \<Longrightarrow> atomic n) \<Longrightarrow> atomic (if b then m else n)"
  by simp

lemmas atomic_then [atomic_intros] =
  atomic_then_reads [OF reads_basic(3)] atomic_then_reads [OF reads_basic(4)]
  atomic_then_reads [OF reads_parts(1)] atomic_then_reads [OF reads_parts(2)] atomic_then_reads [OF reads_parts(3)]
  atomic_then_reads [OF reads_parts(4)] atomic_then_reads [OF reads_parts(5)]
  atomic_then_total [OF atomic_commit(1)] atomic_then_total [OF atomic_commit(2)]

lemma atomic_basic [atomic_intros]:
  "atomic (give x)" "atomic (refused c y)" "atomic (log_event a u t ms)" "atomic (stop e)"
  by (auto intro: atomic_reads atomic_total atomic_intros)

section \<open>Sensitive actions\<close>

datatype sensitive_action =
    CreateTeamAction pystr "pystr option" pystr
  | CreateUserAction pystr pystr
  | DeactivateAction uuid
  | ReactivateAction uuid
  | DeleteAction uuid
  | PromoteAction uuid
  | DemoteAction uuid
  | ResetPasswordAction uuid pystr

definition quietly :: "'a step \<Rightarrow> unit step" where
  "quietly m = and_then m (\<lambda>_. give ())"

fun perform ::
  "provisioning_env \<Rightarrow> drawn \<Rightarrow> seconds \<Rightarrow> uuid \<Rightarrow> seconds option \<Rightarrow> request_trace \<Rightarrow> sensitive_action \<Rightarrow> unit step" where
  "perform env fresh now actor verified trace (CreateTeamAction name slug leader) =
     quietly (create_team_by fresh now actor name slug leader verified trace)"
| "perform env fresh now actor verified trace (CreateUserAction email password) =
     quietly (create_user_by env fresh now actor email password verified trace)"
| "perform env fresh now actor verified trace (DeactivateAction u) = quietly (deactivate_user_by now actor u verified trace)"
| "perform env fresh now actor verified trace (ReactivateAction u) = quietly (reactivate_user_by now actor u verified trace)"
| "perform env fresh now actor verified trace (DeleteAction u) = delete_user_by now actor u verified trace"
| "perform env fresh now actor verified trace (PromoteAction u) = quietly (promote_to_site_admin_by now actor u verified trace)"
| "perform env fresh now actor verified trace (DemoteAction u) = quietly (demote_site_admin_by now actor u verified trace)"
| "perform env fresh now actor verified trace (ResetPasswordAction u password) =
     reset_password_by env fresh now actor u password verified trace"

lemma atomic_step_up [atomic_intros]: "atomic m \<Longrightarrow> atomic (site_admin_step_up req now verified m)"
  using reads_basic(5) [of StepUpRequired STEP_UP_REQUIRED]
  by (auto simp: atomic_def site_admin_step_up_def guarded_def step_up_def reads_def split: sum.splits)

lemma quietly_atomic: "atomic m \<Longrightarrow> atomic (quietly m)"
  unfolding quietly_def by (rule atomic_then_total) (auto intro: atomic_intros)

lemma quietly_stopped: "\<exists>e. m st = (Inl e, st') \<Longrightarrow> \<exists>e. quietly m st = (Inl e, st')"
  by (auto simp: quietly_def and_then_def)

lemma set_db_same [simp]: "set_db (pt_db st) st = st"
  by (simp add: set_db_def pt_db_def)

lemma not_deleted: "delete_if_unused u db = Inr (False, db') \<Longrightarrow> db' = db"
  by (auto simp: delete_if_unused_def commit_if_def Let_def split: option.splits if_splits)

lemma perform_atomic: "atomic (perform env fresh now actor verified trace act)"
proof (cases act)
  case (PromoteAction u)
  have "atomic (if has_second_factor x then and_then (commit (promote_now u)) (\<lambda>_. give False)
                else and_then (commit_unit (set_pending_site_admin u True)) (\<lambda>_. give True))" for x
    by (intro atomic_intros)
  then have "atomic (and_then (if has_second_factor x then and_then (commit (promote_now u)) (\<lambda>_. give False)
                else and_then (commit_unit (set_pending_site_admin u True)) (\<lambda>_. give True))
              (\<lambda>needs. and_then (log_event USER_PROMOTED actor trace [(''user'', nat_str u)]) (\<lambda>_. give needs)))" for x
    by (rule atomic_then_total) (intro atomic_intros)
  then show ?thesis
    unfolding PromoteAction perform.simps promote_to_site_admin_by_def by (intro quietly_atomic atomic_intros)
next
  case (DemoteAction u)
  show ?thesis
    unfolding DemoteAction perform.simps demote_site_admin_by_def by (intro quietly_atomic atomic_intros)
next
  case (DeleteAction u)
  have del: "atomic (and_then (commit (delete_if_unused u))
           (\<lambda>deleted. if \<not> deleted then refused ProvisioningError USER_HAS_HISTORY
                      else log_event USER_DELETED actor trace [(''user'', nat_str u)]))"
    unfolding atomic_def
  proof (intro allI impI)
    fix st e
    assume raised: "fst (and_then (commit (delete_if_unused u))
           (\<lambda>deleted. if \<not> deleted then refused ProvisioningError USER_HAS_HISTORY
                      else log_event USER_DELETED actor trace [(''user'', nat_str u)]) st) = Inl e"
    show "snd (and_then (commit (delete_if_unused u))
           (\<lambda>deleted. if \<not> deleted then refused ProvisioningError USER_HAS_HISTORY
                      else log_event USER_DELETED actor trace [(''user'', nat_str u)]) st) = st"
    proof (cases "delete_if_unused u (pt_db st)")
      case (Inr r)
      then show ?thesis
        using raised
        by (cases r) (auto simp: and_then_apply commit_def refused_def check_def refuse_def stop_def dest!: not_deleted)
    qed (simp add: and_then_apply commit_def)
  qed
  show ?thesis
    unfolding DeleteAction perform.simps delete_user_by_def
    by (rule atomic_step_up, rule atomic_then_reads [OF reads_parts(3)], rule del)
qed (simp_all only: perform.simps create_team_by_def create_user_by_def deactivate_user_by_def reactivate_user_by_def
       reset_password_by_def, (intro quietly_atomic atomic_intros)+)

text \<open>C15: A sensitive action of the provisioning service (creating a team or an account, deactivating,
  reactivating, deleting, promoting, demoting, resetting a password) either raises and leaves every
  table, the audit log and the mailbox as they were, or its actor is an active site administrator
  whose second factor was proved within the last 15 minutes.\<close>
theorem sensitive_action_guarded:
  "case perform env fresh now actor verified trace act st of
     (Inl e, st') \<Rightarrow> st' = st
   | (Inr _, st') \<Rightarrow> is_site_admin actor (pt_db st) \<and> (\<exists>t. verified = Some t \<and> now - t \<le> 900)"
proof (cases "is_site_admin actor (pt_db st) \<and> (\<exists>t. verified = Some t \<and> now - t \<le> 900)")
  case True
  then show ?thesis
    using perform_atomic [of env fresh now actor verified trace act]
    by (auto simp: atomic_def split: prod.split sum.split) (metis fst_conv snd_conv)
next
  case False
  have "\<exists>e. perform env fresh now actor verified trace act st = (Inl e, st)"
    by (cases act)
      (simp_all add: create_team_by_def create_user_by_def deactivate_user_by_def reactivate_user_by_def delete_user_by_def
         promote_to_site_admin_by_def demote_site_admin_by_def reset_password_by_def quietly_stopped
         provisioning_access.step_up_only [OF False])
  then show ?thesis by auto
qed

section \<open>The tables stay sound\<close>

definition service_sound :: "portal_state \<Rightarrow> bool" where
  "service_sound st \<longleftrightarrow> portal_sound (pt_db st) \<and> credentials_sound (pt_credentials st)"

definition keeps :: "'a step \<Rightarrow> bool" where
  "keeps m \<longleftrightarrow> (\<forall>st. service_sound st \<longrightarrow> service_sound (snd (m st)))"

named_theorems keeps_intros

lemma keeps_reads: "reads m \<Longrightarrow> keeps m"
  by (simp add: reads_def keeps_def)

lemma keeps_then [keeps_intros]: "keeps m \<Longrightarrow> (\<And>x. keeps (f x)) \<Longrightarrow> keeps (and_then m f)"
  by (simp add: keeps_def and_then_apply split: sum.split)

lemma keeps_basic [keeps_intros]:
  "keeps (give x)" "keeps (stop e)" "keeps (check r)" "keeps (ask q)" "keeps (refused c y)" "keeps (refused_with c y ps)"
  "keeps (reload u)" "keeps (member_by_email e')" "keeps (guard_account_removal a u)" "keeps (choose_slug s n)"
  "keeps (long_enough p)"
  by (simp_all add: keeps_reads reads_basic reads_parts)

lemma keeps_log [keeps_intros]: "keeps (log_event a u t ms)"
  by (simp add: keeps_def service_sound_def)

lemma keeps_if [keeps_intros]: "(b \<Longrightarrow> keeps m) \<Longrightarrow> (\<not> b \<Longrightarrow> keeps n) \<Longrightarrow> keeps (if b then m else n)"
  by simp

lemma keeps_option [keeps_intros]: "keeps m \<Longrightarrow> (\<And>x. keeps (f x)) \<Longrightarrow> keeps (case v of None \<Rightarrow> m | Some x \<Rightarrow> f x)"
  by (cases v) simp_all

lemma keeps_pair [keeps_intros]: "(\<And>x y. keeps (f x y)) \<Longrightarrow> keeps (case v of (x, y) \<Rightarrow> f x y)"
  by (cases v) simp

lemma keeps_guarded [keeps_intros]:
  "keeps m \<Longrightarrow> keeps (guarded req m)" "keeps m \<Longrightarrow> keeps (site_admin_step_up req now v m)"
  using keeps_basic(5) [of StepUpRequired STEP_UP_REQUIRED]
  by (auto simp: keeps_def guarded_def site_admin_step_up_def step_up_def split: sum.split)

definition db_sound :: "(accounts \<Rightarrow> account_error + accounts) \<Rightarrow> bool" where
  "db_sound op \<longleftrightarrow> (\<forall>db db'. portal_sound db \<longrightarrow> op db = Inr db' \<longrightarrow> portal_sound db')"

lemma db_sound_portal: "db_sound (apply_portal c)"
proof -
  have "portal_sound db'" if "portal_sound db" "apply_portal c db = Inr db'" for db db'
    using attempt_portal_sound [OF that(1), of c] that(2) by (simp add: attempt_portal_def)
  then show ?thesis by (simp add: db_sound_def)
qed

lemma keeps_commit_unit: "db_sound op \<Longrightarrow> keeps (commit_unit op)"
  by (auto simp: keeps_def commit_unit_def commit_def db_sound_def service_sound_def bind_res_def split: sum.split)

lemma keeps_commit: "db_sound (\<lambda>db. written (op db)) \<Longrightarrow> keeps (commit op)"
  by (auto simp: keeps_def commit_def db_sound_def service_sound_def account_simps split: sum.split)

lemma keeps_account_op:
  "(\<And>db. apply_account c db = written (op db)) \<Longrightarrow> keeps (commit op)"
  "(\<And>db. apply_account c db = op' db) \<Longrightarrow> keeps (commit_unit op')"
  using db_sound_portal [of "AccountOp c"]
  by (auto intro!: keeps_commit keeps_commit_unit simp: db_sound_def)

lemma keeps_team_op:
  "(\<And>db. apply_team c db = written (op db)) \<Longrightarrow> keeps (commit op)"
  "(\<And>db. apply_team c db = op' db) \<Longrightarrow> keeps (commit_unit op')"
  "(\<And>db. apply_team c db = Inr (f db)) \<Longrightarrow> keeps (commit (\<lambda>db. Inr ((), f db)))"
  using db_sound_portal [of "TeamOp c"]
  by (auto intro!: keeps_commit keeps_commit_unit simp: db_sound_def written_def)

lemmas keeps_repository [keeps_intros] =
  keeps_account_op(1) [OF apply_account.simps(1)] keeps_account_op(1) [OF apply_account.simps(2)]
  keeps_account_op(2) [OF apply_account.simps(3)] keeps_account_op(2) [OF apply_account.simps(4)]
  keeps_account_op(2) [OF apply_account.simps(5)] keeps_account_op(2) [OF apply_account.simps(6)]
  keeps_account_op(1) [OF apply_account.simps(9)] keeps_account_op(2) [OF apply_account.simps(10)]
  keeps_account_op(1) [OF apply_account.simps(11)] keeps_account_op(1) [OF apply_account.simps(12)]
  keeps_account_op(1) [OF apply_account.simps(13)] keeps_account_op(2) [OF apply_account.simps(14)]
  keeps_account_op(1) [OF apply_account.simps(15)]
  keeps_team_op(1) [OF apply_team.simps(1)] keeps_team_op(1) [OF apply_team.simps(2)]
  keeps_team_op(2) [OF apply_team.simps(3)] keeps_team_op(2) [OF apply_team.simps(4)]
  keeps_team_op(1) [OF apply_team.simps(6)] keeps_team_op(3) [OF apply_team.simps(7)]
  keeps_team_op(3) [OF apply_team.simps(8)]

lemma keeps_store [keeps_intros]:
  "keeps (issue_setup env now p ttl t u c)" "keeps (consume_token env now p t)"
  by (auto simp: keeps_def issue_setup_def consume_token_def service_sound_def split: prod.split)

lemma keeps_setup [keeps_intros]:
  "keeps (parse_setup v u)" "keeps (peek_setup env now p t u)" "keeps (consume_setup env now p t u)"
proof -
  have "reads (parse_setup v u)" for v u
    by (auto simp: parse_setup_def intro: atomic_intros split: option.split stored.split)
  then show 1: "keeps (parse_setup v u)" for v u
    by (rule keeps_reads)
  then show "keeps (peek_setup env now p t u)"
    by (simp add: keeps_def peek_setup_def)
  show "keeps (consume_setup env now p t u)"
    unfolding consume_setup_def by (intro keeps_intros 1)
qed

lemma portal_sound_history:
  "portal_sound db \<Longrightarrow> portal_sound (db\<lparr>ac_history := h\<rparr>)"
  by (auto simp: portal_sound_def accounts_sound_cong [of "db\<lparr>ac_history := h\<rparr>" db] elim: teams_sound_frame)

lemma start_validation_db:
  "start_credential_validation c v t l p s u db cs = Inr (r, db', cs') \<Longrightarrow> \<exists>h. db' = db\<lparr>ac_history := h\<rparr>"
  by (auto simp: start_credential_validation_def bind_res_Inr_iff refuse_def Let_def split: if_splits)

lemma pt_db_credentials [simp]: "pt_db (st\<lparr>pt_credentials := cs\<rparr>) = pt_db st"
  by (simp add: pt_db_def)

lemma keeps_commit_start:
  assumes "\<And>db cs x db' cs'. op db cs = Inr (x, db', cs') \<Longrightarrow> credentials_sound cs \<Longrightarrow>
             (\<exists>h. db' = db\<lparr>ac_history := h\<rparr>) \<and> credentials_sound cs'"
  shows "keeps (commit_start op)"
  unfolding keeps_def
proof (intro allI impI)
  fix st assume st: "service_sound st"
  show "service_sound (snd (commit_start op st))"
  proof (cases "op (pt_db st) (pt_credentials st)")
    case (Inr r)
    obtain x db' cs' where r: "r = (x, db', cs')"
      by (cases r)
    then show ?thesis
      using st Inr assms [of "pt_db st" "pt_credentials st" x db' cs']
      by (auto simp: commit_start_def service_sound_def portal_sound_history)
  qed (use st in \<open>simp add: commit_start_def\<close>)
qed

lemma keep_history: "\<exists>h. db = db\<lparr>ac_history := h\<rparr>"
  by (rule exI [of _ "ac_history db"]) simp

lemma keeps_start [keeps_intros]: "keeps (commit_start (start_credential_validation c v t l p s u))"
  by (rule keeps_commit_start, rule conjI, erule start_validation_db, rule start_sound, assumption+)

lemma keeps_finish [keeps_intros]: "keeps (commit_credentials (finish_credential_validation now i state d a))"
  unfolding commit_credentials_def
  by (rule keeps_commit_start) (use finish_sound keep_history in \<open>auto simp: bind_res_Inr_iff\<close>)

lemma keeps_mail [keeps_intros]: "keeps (send_mail env m)"
  by (auto simp: keeps_def send_mail_def service_sound_def pt_db_def split: option.split)

lemma keeps_config [keeps_intros]: "keeps (normalized_config p raw)"
  by (rule keeps_reads) (auto simp: normalized_config_def intro: atomic_intros split: sum.split)


section \<open>Every method\<close>

text \<open>The methods of the service that write, with everything they take.\<close>

datatype provisioning_call =
    Sensitive "seconds option" sensitive_action
  | EnsureSiteAdmin pystr pystr
  | CreateFirstTeamCall pystr "pystr option"
  | EnsureFirstTeam pystr pystr
  | BeginTotp
  | ConfirmTotp pystr pystr
  | DisableTotpCall
  | BeginPasskey
  | ConfirmPasskey pystr pystr pystr
  | RemovePasskeyCall uuid
  | InviteOrAdd uuid pystr team_role
  | ResendInvite uuid uuid
  | CancelInvite uuid uuid
  | RedeemInvite pystr pystr
  | RemoveMemberCall uuid pystr
  | ConfigureProxy uuid pystr pystr raw_values "(pystr \<times> pystr) list \<Rightarrow> exn + pystr"

fun call ::
  "provisioning_env \<Rightarrow> drawn \<Rightarrow> seconds \<Rightarrow> uuid \<Rightarrow> request_trace \<Rightarrow> provisioning_call \<Rightarrow> unit step" where
  "call env fresh now actor trace (Sensitive verified act) = perform env fresh now actor verified trace act"
| "call env fresh now actor trace (EnsureSiteAdmin email h) = quietly (ensure_site_admin fresh email h)"
| "call env fresh now actor trace (CreateFirstTeamCall name slug) = quietly (create_first_team_by fresh actor name slug trace)"
| "call env fresh now actor trace (EnsureFirstTeam name slug) = quietly (ensure_first_team fresh actor name slug)"
| "call env fresh now actor trace BeginTotp = quietly (begin_totp_setup env fresh now actor)"
| "call env fresh now actor trace (ConfirmTotp token code) = quietly (confirm_totp_setup env fresh now actor token code)"
| "call env fresh now actor trace DisableTotpCall = disable_totp_by actor"
| "call env fresh now actor trace BeginPasskey = quietly (begin_passkey_registration env fresh now actor)"
| "call env fresh now actor trace (ConfirmPasskey token response label) =
     quietly (confirm_passkey_registration env fresh now actor token response label)"
| "call env fresh now actor trace (RemovePasskeyCall k) = remove_passkey actor k"
| "call env fresh now actor trace (InviteOrAdd team email role) =
     invite_or_add_member_by env fresh now actor team email role trace"
| "call env fresh now actor trace (ResendInvite team i) = resend_invite_by env fresh now actor team i trace"
| "call env fresh now actor trace (CancelInvite team i) = cancel_invite_by actor team i"
| "call env fresh now actor trace (RedeemInvite token password) = quietly (redeem_invite env fresh now token password)"
| "call env fresh now actor trace (RemoveMemberCall team email) = remove_member_by actor team email trace"
| "call env fresh now actor trace (ConfigureProxy team label provider raw probe) =
     quietly (configure_proxy env fresh now actor team label provider raw probe trace)"

lemma keeps_quietly [keeps_intros]: "keeps m \<Longrightarrow> keeps (quietly m)"
  unfolding quietly_def by (intro keeps_intros)

lemma keeps_sum [keeps_intros]: "(\<And>e. keeps (f e)) \<Longrightarrow> (\<And>x. keeps (g x)) \<Longrightarrow> keeps (case v of Inl e \<Rightarrow> f e | Inr x \<Rightarrow> g x)"
  by (cases v) simp_all

lemma keeps_perform [keeps_intros]: "keeps (perform env fresh now actor verified trace act)"
  by (cases act)
    (simp_all only: perform.simps create_team_by_def create_user_by_def deactivate_user_by_def reactivate_user_by_def
       delete_user_by_def promote_to_site_admin_by_def demote_site_admin_by_def reset_password_by_def, (intro keeps_intros)+)

lemma keeps_first_team [keeps_intros]: "keeps (create_first_team_by fresh actor name slug trace)"
  unfolding create_first_team_by_def by (intro keeps_intros)

lemma keeps_send_invite [keeps_intros]: "keeps (send_invite env fresh now actor team email role trace)"
  unfolding send_invite_def by (intro keeps_intros)

lemma keeps_commit_totp [keeps_intros]: "keeps (commit_totp env fresh user secret)"
  unfolding commit_totp_def Let_def by (intro keeps_intros)

lemma keeps_valid_invite [keeps_intros]: "keeps (valid_invite env now token)"
  unfolding valid_invite_def by (intro keeps_intros)

lemma keeps_call: "keeps (call env fresh now actor trace c)"
  by (cases c)
    (simp_all only: call.simps ensure_site_admin_def ensure_first_team_def begin_totp_setup_def confirm_totp_setup_def
       disable_totp_by_def begin_passkey_registration_def confirm_passkey_registration_def remove_passkey_def
       invite_or_add_member_by_def resend_invite_by_def cancel_invite_by_def redeem_invite_def remove_member_by_def
       configure_proxy_def Let_def, (intro keeps_intros)+)

definition empty_portal :: portal_state where
  "empty_portal =
     \<lparr>pt_login = \<lparr>ls_store = [], ls_db = empty_accounts, ls_audit = []\<rparr>, pt_credentials = no_credentials, pt_mail = []\<rparr>"

fun calls :: "(provisioning_env \<times> drawn \<times> seconds \<times> uuid \<times> request_trace \<times> provisioning_call) list \<Rightarrow> portal_state \<Rightarrow> portal_state" where
  "calls [] st = st"
| "calls ((env, fresh, now, actor, trace, c) # cs) st = calls cs (snd (call env fresh now actor trace c st))"

lemma calls_keep: "service_sound st \<Longrightarrow> service_sound (calls cs st)"
proof (induction cs st rule: calls.induct)
  case (2 env fresh now actor trace c cs st)
  then show ?case
    using keeps_call [of env fresh now actor trace c] by (simp add: keeps_def)
qed simp

lemma empty_sound: "service_sound empty_portal"
proof -
  have "factor_kept empty_accounts x" for x
    by (simp add: factor_kept_def empty_accounts_def find_user_def)
  moreover have "tables_sound empty_accounts" "teams_sound empty_accounts"
    by code_simp+
  ultimately show ?thesis
    using run_sound [of "[]"]
    by (simp add: service_sound_def portal_sound_def accounts_sound_def empty_portal_def pt_db_def credential_run_def)
qed

text \<open>From an empty installation, whatever calls of the provisioning service run, with whatever arguments,
  refused or raising in the middle or not, the tables stay sound: keys and references hold, every administrator
  has a second factor, every team a leader, every connection at most one active version and a log
  that is a path of the life cycle.\<close>
theorem provisioning_keeps_tables:
  "portal_sound (pt_db (calls cs empty_portal)) \<and> credentials_sound (pt_credentials (calls cs empty_portal))"
  using calls_keep [OF empty_sound, of cs] by (simp add: service_sound_def)

section \<open>Removing an account\<close>

lemma deleted_gone: "delete_if_unused u db = Inr (True, db') \<Longrightarrow> find_user db' u = None"
  by (auto simp: delete_if_unused_def commit_if_def Let_def find_user_None split: option.splits if_splits)

lemma deleted_other:
  assumes "delete_if_unused u db = Inr (b, db')" and "v \<noteq> u"
  shows "find_user db' v = find_user db v"
proof -
  have "List.find (\<lambda>w. us_id w = v) (filter (\<lambda>w. us_id w \<noteq> u) us) = List.find (\<lambda>w. us_id w = v) us" for us
    using assms(2) by (induction us) auto
  then show ?thesis
    using assms(1)
    by (auto simp: delete_if_unused_def commit_if_def Let_def find_user_def split: option.splits if_splits)
qed

lemma delete_raises: "delete_if_unused u db = Inl e \<Longrightarrow> e = CheckViolation"
  by (auto simp: delete_if_unused_def commit_if_def Let_def split: option.splits if_splits)

lemma guard_cases:
  "guard_account_removal actor u st = (r, st') \<Longrightarrow> st' = st \<and>
     (case r of Inl e \<Rightarrow> \<exists>p. e = Repository (Portal p)
              | Inr _ \<Rightarrow> u \<noteq> actor \<and> teams_where_sole_leader u (pt_db st) = [])"
  by (auto simp: guard_account_removal_def reload_def refused_with_def step_defs split: if_splits option.splits)

lemma other_done_sound: "portal_sound db \<Longrightarrow> portal_sound (other_done c db)"
  by (cases c) (simp_all add: attempt_portal_sound portal_sound_history)

lemma others_sound: "portal_sound db \<Longrightarrow> portal_sound (fold other_done gap db)"
  by (induction gap arbitrary: db) (simp_all add: other_done_sound)

lemma others_then: "and_then (others gap) f st = f () (set_db (fold other_done gap (pt_db st)) st)"
  by (simp add: others_def and_then_def)

lemma set_db_twice [simp]: "set_db db' (set_db db st) = set_db db' st"
  by (simp add: set_db_def)

text \<open>The guard of a removal refuses before the commits between its reads or after them, or the account leads no
  team alone at its second read.\<close>

lemma guard_among_refuses:
  assumes "u = actor \<or> user_by_id u (pt_db st) = None"
  shows "\<exists>p. guard_account_removal_among g2 actor u st = (Inl (Repository (Portal p)), st)"
  using assms by (auto simp: guard_account_removal_among_def reload_def step_defs)

lemma guard_among_passes:
  fixes g2 :: "other_commit list" and st :: portal_state
  assumes "u \<noteq> actor" and "user_by_id u (pt_db st) = Some x"
  defines "db \<equiv> fold other_done g2 (pt_db st)"
  shows "if teams_where_sole_leader u db = [] then guard_account_removal_among g2 actor u st = (Inr x, set_db db st)
         else \<exists>p. guard_account_removal_among g2 actor u st = (Inl (Repository (Portal p)), set_db db st)"
  using assms
  by (simp add: guard_account_removal_among_def reload_def others_def step_defs refused_with_def)

lemma guard_among_cases:
  obtains (refused) p gs where "prefix gs g2"
      "guard_account_removal_among g2 actor u st = (Inl (Repository (Portal p)), set_db (fold other_done gs (pt_db st)) st)"
    | (passed) x where "guard_account_removal_among g2 actor u st = (Inr x, set_db (fold other_done g2 (pt_db st)) st)"
      "u \<noteq> actor" "teams_where_sole_leader u (fold other_done g2 (pt_db st)) = []"
proof (cases "u = actor \<or> user_by_id u (pt_db st) = None")
  case True
  then show ?thesis
    using guard_among_refuses [of u actor st g2] refused [of "[]"] by auto
next
  case False
  then show ?thesis
    using guard_among_passes [of u actor st _ g2] refused [of g2] passed by (auto split: if_splits)
qed

text \<open>The delete and the entry of the audit log, after the guard.\<close>

definition removal :: "other_commit list \<Rightarrow> other_commit list \<Rightarrow> uuid \<Rightarrow> uuid \<Rightarrow> request_trace \<Rightarrow> unit step" where
  "removal g3 g4 actor u trace =
     and_then (others g3) (\<lambda>_.
     and_then (commit (delete_if_unused u)) (\<lambda>deleted.
     if \<not> deleted then refused ProvisioningError USER_HAS_HISTORY
     else and_then (others g4) (\<lambda>_. log_event USER_DELETED actor trace [(''user'', nat_str u)])))"

lemma commit_then:
  "and_then (commit op) f st =
     (case op (pt_db st) of Inl e \<Rightarrow> (Inl (Repository e), st) | Inr (x, db) \<Rightarrow> f x (set_db db st))"
  by (simp add: and_then_def commit_def split: sum.split prod.split)

lemma removal_eq:
  "removal g3 g4 actor u trace st =
     (let before = fold other_done g3 (pt_db st)
      in case delete_if_unused u before of
           Inl e \<Rightarrow> (Inl (Repository e), set_db before st)
         | Inr (deleted, db) \<Rightarrow>
             if \<not> deleted then refused ProvisioningError USER_HAS_HISTORY (set_db db st)
             else log_event USER_DELETED actor trace [(''user'', nat_str u)] (set_db (fold other_done g4 db) st))"
  by (simp add: removal_def others_then commit_then Let_def split: sum.split)

lemma removal_cases:
  fixes g3 :: "other_commit list" and st :: portal_state
  defines "before \<equiv> fold other_done g3 (pt_db st)"
  obtains (refused) p where "removal g3 g4 actor u trace st = (Inl (Repository (Portal p)), set_db before st)"
    | (raised) "removal g3 g4 actor u trace st = (Inl (Repository CheckViolation), set_db before st)"
        "delete_if_unused u before = Inl CheckViolation"
    | (deleted) db st' where "removal g3 g4 actor u trace st = (Inr (), st')" "delete_if_unused u before = Inr (True, db)"
        "pt_db st' = fold other_done g4 db"
proof (cases "delete_if_unused u before")
  case (Inl e)
  then show ?thesis
    using raised delete_raises [OF Inl] by (simp add: removal_eq before_def Let_def)
next
  case (Inr r)
  obtain gone db where r: "r = (gone, db)" by fastforce
  show ?thesis
  proof (cases gone)
    case True
    let ?r = "log_event USER_DELETED actor trace [(''user'', nat_str u)] (set_db (fold other_done g4 db) st)"
    have "removal g3 g4 actor u trace st = ?r"
      using Inr r True by (simp add: removal_eq before_def)
    moreover have "?r = (Inr (), snd ?r)" "pt_db (snd ?r) = fold other_done g4 db"
      by (simp_all add: prod_eq_iff)
    ultimately show ?thesis
      using deleted [of "snd ?r" db] Inr r True by simp
  next
    case False
    then show ?thesis
      using refused Inr r not_deleted [of u before db]
      by (auto simp: removal_eq before_def refused_def check_def refuse_def stop_def)
  qed
qed

lemma step_up_refuses:
  assumes "\<not> (is_site_admin actor (pt_db st) \<and> is_step_up_fresh now verified STEP_UP_WINDOW)"
  shows "\<exists>p. site_admin_step_up (require_site_admin actor) now verified body st = (Inl (Repository (Portal p)), st)"
  using assms
  by (auto simp: site_admin_step_up_def guarded_def step_up_def require_site_admin_def user_by_id_def
      user_row_def is_site_admin_def step_defs split: option.splits)

lemma delete_user_split:
  assumes "is_site_admin actor (pt_db st)" and "is_step_up_fresh now verified STEP_UP_WINDOW"
  shows "delete_user_among g1 g2 g3 g4 now actor u verified trace st =
     and_then (guard_account_removal_among g2 actor u) (\<lambda>_. removal g3 g4 actor u trace)
       (set_db (fold other_done g1 (pt_db st)) st)"
  using assms
  by (simp add: delete_user_among_def site_admin_step_up_def step_up_def provisioning_access.admin_passes others_then removal_def)

text \<open>C35: Whatever other requests commit to the account and team tables between the transactions of a deletion, a
  deletion that raises has changed nothing itself: the tables are what the others made them, and nothing was
  written elsewhere. It raises a refusal of the portal, or the database refuses the \<open>DELETE\<close> because a team would
  lose its last leader, which happens only if something committed after the guard. A deletion that returns was
  asked for by an account other than the deleted one, a site administrator when the role was checked; right after
  the \<open>DELETE\<close> the account is gone, and the actor is an active administrator if it was one right before, so it is
  one if nothing committed since the role check.\<close>
theorem delete_user_outcome:
  assumes "portal_sound (pt_db st)"
  shows "case delete_user_among g1 g2 g3 g4 now actor u verified trace st of
     (Inl e, st') \<Rightarrow>
        (\<exists>gs. prefix gs (g1 @ g2 @ g3) \<and> st' = set_db (fold other_done gs (pt_db st)) st) \<and>
        ((\<exists>p. e = Repository (Portal p)) \<or> e = Repository CheckViolation \<and> g3 \<noteq> [])
   | (Inr _, st') \<Rightarrow>
        u \<noteq> actor \<and> is_site_admin actor (pt_db st) \<and>
        (let before = fold other_done (g1 @ g2 @ g3) (pt_db st)
         in \<exists>after. delete_if_unused u before = Inr (True, after) \<and> find_user after u = None
              \<and> is_site_admin actor after = is_site_admin actor before
              \<and> (g1 @ g2 @ g3 = [] \<longrightarrow> is_site_admin actor after) \<and> pt_db st' = fold other_done g4 after)"
proof (cases "is_site_admin actor (pt_db st) \<and> is_step_up_fresh now verified STEP_UP_WINDOW")
  case False
  then obtain p where "delete_user_among g1 g2 g3 g4 now actor u verified trace st = (Inl (Repository (Portal p)), st)"
    unfolding delete_user_among_def using step_up_refuses by blast
  then show ?thesis by (auto intro!: exI [of _ "[]"])
next
  case True
  let ?db1 = "fold other_done g1 (pt_db st)"
  note split = delete_user_split [OF conjunct1 [OF True] conjunct2 [OF True]]
  show ?thesis
  proof (cases rule: guard_among_cases [of g2 actor u "set_db ?db1 st"])
    case (refused p gs)
    then have "delete_user_among g1 g2 g3 g4 now actor u verified trace st =
        (Inl (Repository (Portal p)), set_db (fold other_done (g1 @ gs) (pt_db st)) st)"
      by (simp add: split and_then_apply)
    moreover have "prefix (g1 @ gs) (g1 @ g2 @ g3)"
      using refused(1) by simp
    ultimately show ?thesis by (auto intro!: exI [of _ "g1 @ gs"])
  next
    case (passed x)
    let ?before = "fold other_done (g1 @ g2 @ g3) (pt_db st)"
    have raise: "g3 \<noteq> []" if "delete_if_unused u ?before = Inl CheckViolation"
      using that passed(3) sole_leader_guard [of ?before u] others_sound [OF assms, of "g1 @ g2"]
      by (auto simp: portal_sound_def)
    have kept: "is_site_admin actor db = is_site_admin actor ?before" "find_user db u = None"
      if "delete_if_unused u ?before = Inr (True, db)" for db
      using deleted_other [OF that, of actor] passed(2) deleted_gone [OF that] by (simp_all add: is_site_admin_def)
    have run: "delete_user_among g1 g2 g3 g4 now actor u verified trace st =
        removal g3 g4 actor u trace (set_db (fold other_done (g1 @ g2) (pt_db st)) st)"
      using passed(1) by (simp add: split and_then_apply)
    show ?thesis
    proof (cases rule: removal_cases [of g3 g4 actor u trace "set_db (fold other_done (g1 @ g2) (pt_db st)) st"])
      case (refused p)
      then show ?thesis using run by (auto intro!: exI [of _ "g1 @ g2 @ g3"])
    next
      case raised
      then show ?thesis using run raise by (auto intro!: exI [of _ "g1 @ g2 @ g3"])
    next
      case (deleted db st')
      then show ?thesis using run kept passed(2) True by (simp add: Let_def)
    qed
  qed
qed

definition portal_of :: "accounts \<Rightarrow> portal_state" where
  "portal_of db = \<lparr>pt_login = \<lparr>ls_store = [], ls_db = db, ls_audit = []\<rparr>, pt_credentials = no_credentials, pt_mail = []\<rparr>"

lemma pt_db_portal_of [simp]: "pt_db (portal_of db) = db"
  by (simp add: portal_of_def pt_db_def)

theorem delete_user_outcome_witness:
  "\<exists>st'. delete_user_among [] [OtherOp (AccountOp (Demote 1))] [NameUser 1] [] 5 1 2 (Some 0) no_trace (portal_of two_admins) = (Inr (), st')
     \<and> find_user (pt_db st') 2 = None \<and> \<not> is_site_admin 1 (pt_db st')"
proof -
  let ?g2 = "[OtherOp (AccountOp (Demote 1))]" and ?g3 = "[NameUser 1]"
  let ?r = "delete_user_among [] ?g2 ?g3 [] 5 1 2 (Some 0) no_trace (portal_of two_admins)"
  have "fst ?r = Inr ()"
    by code_simp
  then obtain st' where r: "?r = (Inr (), st')"
    by (cases ?r) simp
  have "portal_sound (pt_db (portal_of two_admins))"
    by (simp add: two_admins_sound)
  moreover have "\<not> is_site_admin 1 (fold other_done ([] @ ?g2 @ ?g3) two_admins)"
    by code_simp
  ultimately show ?thesis
    using delete_user_outcome [where ?g1.0 = "[]" and ?g2.0 = ?g2 and ?g3.0 = ?g3 and ?g4.0 = "[]" and now = 5 and actor = 1 and u = 2
        and verified = "Some 0" and trace = no_trace and st = "portal_of two_admins"]
    unfolding r by (auto simp: Let_def)
qed

text \<open>A commit between the guard and the \<open>DELETE\<close> can make the account the last leader of a team; then the
  trigger of the database refuses the delete and its error reaches the caller.\<close>

lemma removal_race_raises:
  "fst (delete_user_among [] [] [OtherOp (TeamOp (AddMember 7 2 TEAM_LEADER)), OtherOp (TeamOp (RemoveMember 7 1))] []
     5 1 2 (Some 0) no_trace (portal_of duo)) = Inl (Repository CheckViolation)"
proof -
  let ?r = "fst (delete_user_among [] [] [OtherOp (TeamOp (AddMember 7 2 TEAM_LEADER)), OtherOp (TeamOp (RemoveMember 7 1))] []
     5 1 2 (Some 0) no_trace (portal_of duo))"
  have "(case ?r of Inl (Repository CheckViolation) \<Rightarrow> True | _ \<Rightarrow> False)"
    by code_simp
  then show ?thesis by (auto split: sum.splits service_error.splits account_error.splits)
qed

text \<open>Two administrators that delete each other at the same time leave the installation without one, although
  the guard of each request passed and both transactions committed: the trigger that wants an
  active administrator fires on updates only, and the guard reads before it writes.
\<close>
theorem mutual_deletion_leaves_no_admin:
  "let st = portal_of two_admins;
       first = guard_account_removal 1 2 st; second = guard_account_removal 2 1 st;
       st1 = snd (commit (delete_if_unused 2) st); st2 = snd (commit (delete_if_unused 1) st1)
   in (\<exists>u v. fst first = Inr u \<and> fst second = Inr v) \<and> snd first = st \<and> snd second = st
      \<and> fst (commit (delete_if_unused 2) st) = Inr True \<and> fst (commit (delete_if_unused 1) st1) = Inr True
      \<and> admin_kept (pt_db st) \<and> count_active_site_admins (pt_db st2) = 0"
proof -
  let ?st = "portal_of two_admins"
  have "(case fst (guard_account_removal 1 2 ?st) of Inr u \<Rightarrow> pu_id u = 2 | _ \<Rightarrow> False)"
    "(case fst (guard_account_removal 2 1 ?st) of Inr u \<Rightarrow> pu_id u = 1 | _ \<Rightarrow> False)"
    by code_simp+
  then have "\<exists>u. fst (guard_account_removal 1 2 ?st) = Inr u" "\<exists>v. fst (guard_account_removal 2 1 ?st) = Inr v"
    by (auto split: sum.splits)
  moreover have "snd (guard_account_removal 1 2 ?st) = ?st" "snd (guard_account_removal 2 1 ?st) = ?st"
    by (metis guard_cases prod.collapse)+
  moreover have "fst (commit (delete_if_unused 2) ?st) = Inr True"
    "fst (commit (delete_if_unused 1) (snd (commit (delete_if_unused 2) ?st))) = Inr True"
    "admin_kept (pt_db ?st)"
    "count_active_site_admins (pt_db (snd (commit (delete_if_unused 1) (snd (commit (delete_if_unused 2) ?st))))) = 0"
    by code_simp+
  ultimately show ?thesis
    by (simp add: Let_def)
qed

end
