(* ===== verification/Enrollment.thy ===== *)
theory Enrollment
  imports ProvisionProps
begin

text \<open>
  How people come in: the set-up of a second factor, an invitation, and the pages that redeem one
  (\<open>portal/web/routes/invite.py\<close>). An invitation redeemed through the page signs in whoever holds
  its link, whatever account its address has by then; the last section is the run that shows it.
\<close>

section \<open>Setting up codes\<close>

lemma and_then_Inr:
  "and_then m f st = (Inr y, st') \<longleftrightarrow> (\<exists>x st1. m st = (Inr x, st1) \<and> f x st1 = (Inr y, st'))"
  by (cases "m st") (auto simp: and_then_def split: sum.splits)

lemma reload_Inr: "reload u st = (Inr x, st') \<longleftrightarrow> st' = st \<and> user_by_id u (pt_db st) = Some x"
  by (auto simp: reload_def step_defs split: option.splits)

lemma commit_Inr: "commit op st = (Inr x, st') \<longleftrightarrow> (\<exists>db. op (pt_db st) = Inr (x, db) \<and> st' = set_db db st)"
  by (auto simp: commit_def split: sum.splits)

lemma commit_unit_Inr: "commit_unit op st = (Inr x, st') \<longleftrightarrow> (\<exists>db. op (pt_db st) = Inr db \<and> st' = set_db db st)"
  by (auto simp: commit_unit_def commit_Inr bind_res_Inr_iff)

lemma give_Inr: "give x st = (Inr y, st') \<longleftrightarrow> y = x \<and> st' = st"
  by (auto simp: give_def)

lemma ask_Inr: "ask q st = (Inr x, st') \<longleftrightarrow> st' = st \<and> x = q (pt_db st)"
  by (auto simp: ask_def)

lemma refused_Inr: "refused c r st \<noteq> (Inr x, st')" "refused_with c r ps st \<noteq> (Inr x, st')" "stop e st \<noteq> (Inr x, st')"
  by (simp_all add: refused_with_def step_defs)

lemma log_Inr: "log_event a u t ms st = (Inr x, st') \<Longrightarrow>
    pt_db st' = pt_db st \<and> pt_store st' = pt_store st \<and> pt_credentials st' = pt_credentials st"
  by (auto simp: log_event_def pt_db_def pt_store_def audit_def record_audit_def)

lemma long_enough_Inr: "long_enough p st = (Inr x, st') \<longleftrightarrow> st' = st \<and> MIN_PASSWORD \<le> length p"
  by (auto simp: long_enough_def refused_Inr give_def)

lemmas step_Inr = and_then_Inr reload_Inr commit_Inr commit_unit_Inr give_Inr ask_Inr refused_Inr long_enough_Inr

lemma issue_setup_Inr:
  "issue_setup env now purpose ttl token u content st = (Inr t, st') \<longleftrightarrow>
     t = token \<and> st' = set_store (snd (put_new now (token_key (le_token_hash (pe_login env)) purpose token)
                        (ChallengeDoc (Some u) content) ttl (pt_store st))) st"
  by (auto simp: issue_setup_def issue_def)

lemma peek_setup_Inr:
  "peek_setup env now purpose token u st = (Inr c, st') \<longleftrightarrow>
     st' = st \<and> peek (le_token_hash (pe_login env)) now purpose (Some token) (pt_store st) = Some (ChallengeDoc (Some u) c)"
  by (auto simp: peek_setup_def parse_setup_def step_defs split: option.splits stored.splits if_splits)

lemma enable_totp_secret:
  assumes "enable_totp u s cs p db = Inr db'" and "find_user db u \<noteq> None"
  shows "mfa_secret u db' = Some s"
proof -
  obtain found db1 where up: "update_user u (\<lambda>r. r\<lparr>us_mfa_secret := Some s, us_mfa_enabled := True,
                 us_is_site_admin := us_is_site_admin r \<or> p,
                 us_pending_site_admin := us_pending_site_admin r \<and> \<not> p\<rparr>) db = Inr (found, db1)"
    and rep: "replace_if_given u cs db1 = Inr db'"
    using assms(1) by (auto simp: enable_totp_def bind_res_Inr_iff account_simps)
  have "find_user db1 u = map_option (\<lambda>r. r\<lparr>us_mfa_secret := Some s, us_mfa_enabled := True,
                 us_is_site_admin := us_is_site_admin r \<or> p,
                 us_pending_site_admin := us_pending_site_admin r \<and> \<not> p\<rparr>) (find_user db u)"
    using update_user_find [OF up] by auto
  moreover have "ac_users db' = ac_users db1"
    by (rule replace_keeps_users [OF rep])
  ultimately show ?thesis
    using assms(2) by (auto simp: mfa_secret_def find_user_def)
qed

text \<open>C33: Setting up codes is a round trip: whenever a confirmation with the token of a fresh set-up succeeds, the
  code matched the secret that was shown, it came within ten minutes, the secret the account now
  holds opens under the keyring to the one that was shown, recovery codes come with a first
  factor only, and the token is spent.\<close>
theorem totp_enrollment:
  assumes cipher: "opens (le_aead (pe_login env))" "keyring_ok (le_keyring (pe_login env))"
    and nonces: "length (dr_key_nonce fresh') = NONCE_BYTES" "length (dr_nonce fresh') = NONCE_BYTES"
    and token: "dr_token fresh \<noteq> []" "peek (le_token_hash (pe_login env)) now TOTP_SETUP (Some (dr_token fresh)) (pt_store st) = None"
    and begun: "begin_totp_setup env fresh now actor st = (Inr setup, st1)"
    and confirmed: "confirm_totp_setup env fresh' t actor (ts_token setup) code st1 = (Inr codes, st2)"
  shows "totp_matches (pe_login env) t (dr_secret fresh) code \<and> t < now + 600
    \<and> (\<exists>s. mfa_secret actor (pt_db st2) = Some s
           \<and> reveal (le_aead (pe_login env)) (le_keyring (pe_login env)) s = Inr (dr_secret fresh))
    \<and> (\<exists>user. user_by_id actor (pt_db st) = Some user
           \<and> codes = (if has_second_factor user then None else Some (dr_codes fresh')))
    \<and> (\<forall>t'. t \<le> t' \<longrightarrow>
           peek (le_token_hash (pe_login env)) t' TOTP_SETUP (Some (ts_token setup)) (pt_store st2) = None)"
proof -
  let ?h = "le_token_hash (pe_login env)"
  let ?k = "token_key ?h TOTP_SETUP (dr_token fresh)"
  have absent: "live_row now ?k (pt_store st) = None"
    using token by (simp add: peek_def read_def)
  obtain user where user: "user_by_id actor (pt_db st) = Some user" "ts_token setup = dr_token fresh"
    and st1: "st1 = set_store (snd (put_new now ?k (ChallengeDoc (Some (pu_id user)) (dr_secret fresh)) TOTP_SETUP_TTL (pt_store st))) st"
    using begun by (auto simp: begin_totp_setup_def step_Inr issue_setup_Inr)
  have found: "read x ?k (pt_store st1) = (if x < now + 600 then Some (ChallengeDoc (Some (pu_id user)) (dr_secret fresh)) else None)" for x
    using absent by (simp add: st1 put_new_def read_def live_update TOTP_SETUP_TTL_def)
  have db1: "pt_db st1 = pt_db st"
    by (simp add: st1)
  obtain secret v st3 where pk: "peek ?h t TOTP_SETUP (Some (dr_token fresh)) (pt_store st1) = Some (ChallengeDoc (Some (pu_id user)) secret)"
    and matches: "totp_matches (pe_login env) t secret code"
    and spent: "consume_token env t TOTP_SETUP (dr_token fresh) st1 = (Inr v, st3)"
    and committed: "commit_totp env fresh' user secret st3 = (Inr codes, st2)"
    using confirmed user db1
    by (auto simp: confirm_totp_setup_def step_Inr peek_setup_Inr split: if_splits)
  have secret: "secret = dr_secret fresh" and time: "t < now + 600"
    using pk found [of t] token(1) by (auto simp: peek_def split: if_splits)
  have st3: "pt_db st3 = pt_db st" "pt_store st3 = AList.delete ?k (pt_store st1)"
    using spent token(1) found [of t] time db1
    by (auto simp: consume_token_def consume_def take_key_def read_def split: option.splits prod.splits)
  obtain db where en: "enable_totp (pu_id user) (seal env fresh' secret) (hashes_of env (codes_of fresh' user))
        (pu_pending_site_admin user) (pt_db st3) = Inr db"
    and st2: "pt_db st2 = db" "pt_store st2 = pt_store st3" and codes: "codes = codes_of fresh' user"
    using committed by (auto simp: commit_totp_def Let_def step_Inr dest!: log_Inr)
  have "find_user (pt_db st) actor \<noteq> None" and "pu_id user = actor"
    using user(1) by (auto simp: user_by_id_def user_row_def dest: find_user_SomeD)
  then have "mfa_secret actor (pt_db st2) = Some (seal env fresh' secret)"
    using enable_totp_secret [OF en] st3(1) st2(1) by simp
  moreover have "reveal (le_aead (pe_login env)) (le_keyring (pe_login env)) (seal env fresh' secret) = Inr (dr_secret fresh)"
    unfolding seal_def secret by (rule reveal_protect [OF cipher nonces])
  moreover have "peek ?h t' TOTP_SETUP (Some (ts_token setup)) (pt_store st2) = None" if "t \<le> t'" for t'
    using token(1) by (simp add: peek_def user(2) st2(2) st3(2) read_def live_delete)
  ultimately show ?thesis
    using matches secret time user(1) codes by (auto simp: codes_of_def)
qed

definition demo_service :: provisioning_env where
  "demo_service =
     \<lparr>pe_login = demo_env, pe_hash_password = (\<lambda>salt p. p), pe_verify_registration = (\<lambda>_ _. None),
      pe_enrollment_uri = (\<lambda>s e i. s), pe_issuer = ''docs.pe'', pe_public_origin = ''https://docs.pe'', pe_mail_fails = (\<lambda>_. None)\<rparr>"

definition demo_drawn :: "nat \<Rightarrow> drawn" where
  "demo_drawn n =
     \<lparr>dr_id = 100 + n, dr_second_id = 200 + n, dr_salt = [], dr_token = replicate 63 CHR ''a'' @ [digit_char n], dr_secret = ''JBSWY3DP'',
      dr_challenge = [], dr_codes = [replicate 64 CHR ''b''], dr_key = data_a, dr_key_nonce = twelve, dr_nonce = twelve\<rparr>"

theorem totp_enrollment_witness:
  "\<exists>setup st1 st2 s. begin_totp_setup demo_service (demo_drawn 0) 0 3 (portal_of demo_db) = (Inr setup, st1)
     \<and> confirm_totp_setup demo_service (demo_drawn 1) 5 3 (ts_token setup) ''123456'' st1 = (Inr (Some [replicate 64 CHR ''b'']), st2)
     \<and> mfa_secret 3 (pt_db st2) = Some s \<and> reveal box old_ring s = Inr ''JBSWY3DP''"
proof -
  let ?b = "begin_totp_setup demo_service (demo_drawn 0) 0 3 (portal_of demo_db)"
  have "map_option ts_token (case fst ?b of Inr x \<Rightarrow> Some x | Inl e \<Rightarrow> None) = Some (dr_token (demo_drawn 0))"
    by code_simp
  then obtain su where su: "fst ?b = Inr su" "ts_token su = dr_token (demo_drawn 0)"
    by (auto split: sum.splits)
  obtain st1 where b: "?b = (Inr su, st1)"
    using su(1) by (cases ?b) simp
  let ?c = "confirm_totp_setup demo_service (demo_drawn 1) 5 3 (ts_token su) ''123456'' st1"
  have "fst (confirm_totp_setup demo_service (demo_drawn 1) 5 3 (dr_token (demo_drawn 0)) ''123456'' (snd ?b))
          = Inr (Some [replicate 64 CHR ''b''])"
    by code_simp
  then have "fst ?c = Inr (Some [replicate 64 CHR ''b''])"
    by (simp add: su(2) b)
  then obtain st2 where c: "?c = (Inr (Some [replicate 64 CHR ''b'']), st2)"
    by (cases ?c) simp
  have law: "opens (le_aead (pe_login demo_service))" "keyring_ok (le_keyring (pe_login demo_service))"
    by (simp_all add: demo_service_def demo_env_def box_opens from_lines_ok [OF files_read(1)])
  have rest: "length (dr_key_nonce (demo_drawn 1)) = NONCE_BYTES" "length (dr_nonce (demo_drawn 1)) = NONCE_BYTES"
    "dr_token (demo_drawn 0) \<noteq> []"
    "peek (le_token_hash (pe_login demo_service)) 0 TOTP_SETUP (Some (dr_token (demo_drawn 0))) (pt_store (portal_of demo_db)) = None"
    by code_simp+
  have "le_aead (pe_login demo_service) = box" "le_keyring (pe_login demo_service) = old_ring" "dr_secret (demo_drawn 0) = ''JBSWY3DP''"
    by (simp_all add: demo_service_def demo_env_def demo_drawn_def)
  then show ?thesis
    using totp_enrollment [OF law rest b c] b c by auto
qed

section \<open>Invitations\<close>

lemma valid_invite_Inr:
  "valid_invite env now token st = (Inr i, st') \<longleftrightarrow>
     st' = st \<and> invite_by_token_hash (le_token_hash (pe_login env) token) (pt_db st) = Some i
     \<and> iv_accepted_at i = None \<and> now < iv_expires_at i"
  by (auto simp: valid_invite_def step_Inr split: option.splits if_splits)

lemma invite_refused:
  "(\<And>i. invite_by_token_hash (le_token_hash (pe_login env) token) (pt_db st) = Some i \<Longrightarrow> iv_accepted_at i \<noteq> None) \<Longrightarrow>
   redeem_invite env fresh now token password st
     = (Inl (Repository (Portal \<lparr>pe_class = NotFound, pe_reason = INVITE_INVALID, pe_params = []\<rparr>)), st)"
  by (simp add: redeem_invite_def valid_invite_def and_then_apply ask_def refused_def check_def refuse_def stop_def
        split: option.split)

lemma accepted_by_hash:
  assumes "invite_by_token_hash h db = Some i"
  shows "\<exists>j. invite_by_token_hash h (mark_invite_accepted now (iv_id i) db) = Some j \<and> iv_accepted_at j = Some now"
proof -
  let ?g = "\<lambda>j. if iv_id j = iv_id i then j\<lparr>iv_accepted_at := Some now\<rparr> else j"
  have "List.find (\<lambda>j. iv_token_hash j = h) (map ?g xs) = map_option ?g (List.find (\<lambda>j. iv_token_hash j = h) xs)" for xs :: "invite list"
    by (induction xs) auto
  then show ?thesis
    using assms by (simp add: invite_by_token_hash_def mark_invite_accepted_def)
qed

lemma created_user:
  "create_user i e h a db = Inr (u, db') \<Longrightarrow>
     pu_id u = i \<and> pu_email u = normalize_email e \<and> find_user db' i \<noteq> None \<and> ac_invites db' = ac_invites db"
  by (auto simp: create_user_def bind_res_Inr_iff insert_user_def account_simps new_user_def find_user_def find_append
        split: if_splits option.splits)

lemma known_user: "user_by_email e db = Some (u, h) \<Longrightarrow> find_user db (pu_id u) \<noteq> None \<and> pu_email u = normalize_email e"
  by (auto simp: user_by_email_def user_row_def find_user_None dest!: find_key)

lemma add_member_invites: "add_member t u r db = Inr db' \<Longrightarrow> ac_invites db' = ac_invites db \<and> find_team db t \<noteq> None"
  by (auto simp: add_member_def bind_res_Inr_iff locked_role_def refuse_def upsert_member_def insert_member_def
        commit_if_def split: if_splits)

text \<open>C32: An invitation that is redeemed was pending and within its term, the account it answers for has its
  address and holds the role it named in its team, and the same link is refused from then on, whoever
  presents it, whenever, with whatever password.\<close>
theorem invitation_redeemed:
  assumes "portal_sound (pt_db st)" and "redeem_invite env fresh now token password st = (Inr user, st')"
  shows "\<exists>i. invite_by_token_hash (le_token_hash (pe_login env) token) (pt_db st) = Some i
      \<and> iv_accepted_at i = None \<and> now < iv_expires_at i
      \<and> pu_email user = normalize_email (iv_email i) \<and> role_for (pu_id user) (iv_team i) (pt_db st') = Some (iv_role i)
      \<and> (\<forall>fresh' now' password'. redeem_invite env fresh' now' token password' st'
           = (Inl (Repository (Portal \<lparr>pe_class = NotFound, pe_reason = INVITE_INVALID, pe_params = []\<rparr>)), st'))"
proof -
  let ?h = "le_token_hash (pe_login env) token"
  obtain i db1 db2 where i: "invite_by_token_hash ?h (pt_db st) = Some i" "iv_accepted_at i = None" "now < iv_expires_at i"
    and who: "(\<exists>p. user_by_email (iv_email i) (pt_db st) = Some (user, p)) \<and> db1 = pt_db st
        \<or> create_user (dr_id fresh) (iv_email i) (pe_hash_password env (dr_salt fresh) password) False (pt_db st) = Inr (user, db1)"
    and add: "add_member (iv_team i) (pu_id user) (iv_role i) db1 = Inr db2"
    and st': "pt_db st' = mark_invite_accepted now (iv_id i) db2"
  proof -
    obtain i where i: "invite_by_token_hash ?h (pt_db st) = Some i" "iv_accepted_at i = None" "now < iv_expires_at i"
      and rest: "and_then (case user_by_email (iv_email i) (pt_db st) of
          Some (user, _) \<Rightarrow> give user
        | None \<Rightarrow> commit (create_user (dr_id fresh) (iv_email i) (pe_hash_password env (dr_salt fresh) password) False)) (\<lambda>user.
     and_then (commit_unit (add_member (iv_team i) (pu_id user) (iv_role i))) (\<lambda>_.
     and_then (commit (\<lambda>db. Inr ((), mark_invite_accepted now (iv_id i) db))) (\<lambda>_.
     and_then (log_event INVITE_ACCEPTED (pu_id user) no_trace [(''team'', nat_str (iv_team i))]) (\<lambda>_.
     give user)))) st = (Inr user, st')"
      using assms(2) unfolding redeem_invite_def and_then_Inr valid_invite_Inr long_enough_Inr ask_Inr by blast
    show ?thesis
    proof (cases "user_by_email (iv_email i) (pt_db st)")
      case None
      with rest obtain db1 db2 where
        "create_user (dr_id fresh) (iv_email i) (pe_hash_password env (dr_salt fresh) password) False (pt_db st) = Inr (user, db1)"
        "add_member (iv_team i) (pu_id user) (iv_role i) db1 = Inr db2" "pt_db st' = mark_invite_accepted now (iv_id i) db2"
        by (auto simp: step_Inr dest!: log_Inr)
      then show ?thesis using that [OF i] by blast
    next
      case (Some a)
      with rest obtain db2 where "fst a = user"
        "add_member (iv_team i) (pu_id user) (iv_role i) (pt_db st) = Inr db2" "pt_db st' = mark_invite_accepted now (iv_id i) db2"
        by (cases a) (auto simp: step_Inr dest!: log_Inr)
      then show ?thesis using that [OF i] Some by (cases a) auto
    qed
  qed
  have sound: "portal_sound db1" and known: "find_user db1 (pu_id user) \<noteq> None"
    and mail: "pu_email user = normalize_email (iv_email i)" and invites: "ac_invites db1 = ac_invites (pt_db st)"
    using who assms(1) db_sound_portal [of "AccountOp (CreateUser (dr_id fresh) (iv_email i) (pe_hash_password env (dr_salt fresh) password) False)"]
    by (auto simp: db_sound_def account_simps dest: known_user created_user)
  have role: "role_for (pu_id user) (iv_team i) db2 = Some (iv_role i)"
    using add_member_outcome [OF sound _ known, of "iv_team i" "iv_role i"] add_member_invites [OF add] add by simp
  have "invite_by_token_hash ?h db2 = Some i"
    using i(1) add_member_invites [OF add] invites by (simp add: invite_by_token_hash_def)
  then obtain j where "invite_by_token_hash ?h (pt_db st') = Some j" "iv_accepted_at j = Some now"
    using accepted_by_hash [of ?h db2 i now] st' by auto
  then have "redeem_invite env fresh' now' token password' st'
           = (Inl (Repository (Portal \<lparr>pe_class = NotFound, pe_reason = INVITE_INVALID, pe_params = []\<rparr>)), st')" for fresh' now' password'
    by (intro invite_refused) simp
  moreover have "role_for (pu_id user) (iv_team i) (pt_db st') = Some (iv_role i)"
    using role by (simp add: st' mark_invite_accepted_def role_for_def)
  ultimately show ?thesis
    using i mail by blast
qed

definition demo_link :: pystr where
  "demo_link = dr_token (demo_drawn 2)"

definition invited :: "(provisioning_env \<times> drawn \<times> seconds \<times> uuid \<times> request_trace \<times> provisioning_call) list" where
  "invited =
     [(demo_service, demo_drawn 1, 0, 1, no_trace, CreateFirstTeamCall ''Norte'' None),
      (demo_service, demo_drawn 2, 1, 1, no_trace, InviteOrAdd 101 ''mia@x.pe'' TEAM_MEMBER)]"

theorem invitation_redeemed_witness:
  "\<exists>user st' i. redeem_invite demo_service (demo_drawn 3) 9 demo_link ''a long password'' (calls invited (portal_of demo_db)) = (Inr user, st')
     \<and> invite_by_token_hash demo_link (pt_db (calls invited (portal_of demo_db))) = Some i
     \<and> pu_email user = ''mia@x.pe'' \<and> role_for (pu_id user) (iv_team i) (pt_db st') = Some (iv_role i)"
proof -
  let ?st = "calls invited (portal_of demo_db)"
  let ?r = "redeem_invite demo_service (demo_drawn 3) 9 demo_link ''a long password'' ?st"
  have "(case fst ?r of Inr u \<Rightarrow> Some (pu_email u) | Inl e \<Rightarrow> None) = Some ''mia@x.pe''"
    by code_simp
  then obtain user st' where r: "?r = (Inr user, st')" and mail: "pu_email user = ''mia@x.pe''"
    by (cases ?r) (auto split: sum.splits)
  have "tables_sound demo_db" "teams_sound demo_db"
    by code_simp+
  moreover have "factor_kept demo_db x" for x
    by (auto simp: factor_kept_def demo_db_def new_user_def find_user_def empty_accounts_def)
  ultimately have "service_sound (portal_of demo_db)"
    using run_sound [of "[]"]
    by (simp add: service_sound_def portal_sound_def accounts_sound_def portal_of_def pt_db_def credential_run_def)
  then have "portal_sound (pt_db ?st)"
    using calls_keep [of "portal_of demo_db" invited] by (simp add: service_sound_def)
  moreover have "le_token_hash (pe_login demo_service) demo_link = demo_link"
    by code_simp
  ultimately show ?thesis
    using invitation_redeemed [OF _ r] r mail by auto
qed

section \<open>The invitation page\<close>

datatype invite_page =
    InviteForm pystr "portal_error option"
  | SignedIn pystr
  | PageRaised service_error

definition invite_get :: "provisioning_env \<Rightarrow> seconds \<Rightarrow> pystr \<Rightarrow> portal_state \<Rightarrow> invite_page" where
  "invite_get env now token st =
     (case fst (valid_invite env now token st) of Inl e \<Rightarrow> PageRaised e | Inr i \<Rightarrow> InviteForm (iv_email i) None)"

definition invite_post ::
  "provisioning_env \<Rightarrow> drawn \<Rightarrow> seconds \<Rightarrow> pystr \<Rightarrow> pystr \<Rightarrow> pystr \<Rightarrow> pystr \<Rightarrow> portal_state \<Rightarrow> invite_page \<times> portal_state" where
  "invite_post env fresh now cookie csrf token password st =
     (case redeem_invite env fresh now token password st of
        (Inr user, st) \<Rightarrow>
          (case mint (le_token_hash (pe_login env)) now cookie csrf (pu_id user) None (pt_store st) of
             (c, s) \<Rightarrow> (SignedIn c, set_store s st))
      | (Inl e, st) \<Rightarrow>
          (case e of
             Repository (Portal p) \<Rightarrow>
               if pe_class p = NotFound then (PageRaised e, st)
               else
                 (case fst (valid_invite env now token st) of
                    Inl e' \<Rightarrow> (PageRaised e', st)
                  | Inr i \<Rightarrow> (InviteForm (iv_email i) (Some p), st))
           | _ \<Rightarrow> (PageRaised e, st)))"

text \<open>
  The address that was invited gets an account in another way, sets up codes for it, and then
  somebody opens the link of the invitation: any password of twelve characters will do.
\<close>

definition enrolled :: portal_state where
  "enrolled =
     calls
       [(demo_service, demo_drawn 3, 2, 1, no_trace, Sensitive (Some 1) (CreateUserAction ''mia@x.pe'' ''her own password'')),
        (demo_service, demo_drawn 4, 3, 103, no_trace, BeginTotp),
        (demo_service, demo_drawn 5, 4, 103, no_trace, ConfirmTotp (dr_token (demo_drawn 4)) ''123456'')]
       (calls invited (portal_of demo_db))"

text \<open>An invitation link signs in an account that exists: after its owner set a password and a second factor, the
  page mints a session for her account on any password, asking for neither, and the session loads.\<close>
theorem invitation_link_signs_in:
  "map_option (\<lambda>u. (pu_email u, pu_mfa_enabled u)) (user_by_id 103 (pt_db enrolled)) = Some (''mia@x.pe'', True)
   \<and> (case invite_post demo_service (demo_drawn 6) 5 ''cookie'' ''csrf'' demo_link ''guessed at random'' enrolled of
        (SignedIn c, st) \<Rightarrow>
          c = ''cookie''
          \<and> (case fst (load_session (le_token_hash (pe_login demo_service)) 6 (Some c) (pt_db st) (pt_store st)) of
               Inr (Some b) \<Rightarrow> pu_id (bs_user b) = 103 | _ \<Rightarrow> False)
      | _ \<Rightarrow> False)"
proof
  show "map_option (\<lambda>u. (pu_email u, pu_mfa_enabled u)) (user_by_id 103 (pt_db enrolled)) = Some (''mia@x.pe'', True)"
    by code_simp
  show "case invite_post demo_service (demo_drawn 6) 5 ''cookie'' ''csrf'' demo_link ''guessed at random'' enrolled of
        (SignedIn c, st) \<Rightarrow>
          c = ''cookie''
          \<and> (case fst (load_session (le_token_hash (pe_login demo_service)) 6 (Some c) (pt_db st) (pt_store st)) of
               Inr (Some b) \<Rightarrow> pu_id (bs_user b) = 103 | _ \<Rightarrow> False)
      | _ \<Rightarrow> False"
    by code_simp
qed

end
