(* ===== verification/Entries.thy ===== *)
theory Entries
  imports JobQueue Teams "HOL-Library.Multiset"
begin

text \<open>
  The entry store as the portal reads it (\<open>portal/repository/entries.py\<close>) and the log of searches
  (\<open>portal/repository/search_log.py\<close>). Entries are rows of the queue's database, which
  \<open>JobQueue.publish\<close> writes; a team sees an entry through its own job items. The
  database leaves the order of rows that tie open: \<open>newest_order\<close> says what it promises of one query's
  order, and \<open>newest_first\<close>, where the newest insertion of a tie comes first, is one such order. Text the
  database cannot store (the character NUL) is left out.
\<close>

section \<open>Rows\<close>

record found_entry =
  fe_id :: uuid
  fe_document :: pystr
  fe_source :: pystr
  fe_status :: pystr
  fe_columns :: "pystr list"
  fe_rows :: "json list list"
  fe_error_code :: "pystr option"
  fe_first_seen :: seconds
  fe_confirmed :: seconds

text \<open>
  What a caller reads of a row. The queries below return the rows themselves; \<open>entry_row\<close> decodes the
  stored lines where they are used. \<open>json_tuple\<close> is \<open>tuple(value)\<close>, None when the value is no iterable.
\<close>

fun json_tuple :: "json \<Rightarrow> json list option" where
  "json_tuple (JList xs) = Some xs"
| "json_tuple (JStr s) = Some (map (\<lambda>c. JStr [c]) s)"
| "json_tuple (JObj kvs) = Some (map (JStr \<circ> fst) kvs)"
| "json_tuple _ = None"

definition those_rows :: "pystr \<Rightarrow> json list list option" where
  "those_rows text =
     (case loads text of
        None \<Rightarrow> None
      | Some v \<Rightarrow> (case json_tuple v of None \<Rightarrow> None | Some lines \<Rightarrow> those (map json_tuple lines)))"

definition entry_row :: "entry \<Rightarrow> found_entry option" where
  "entry_row e =
     map_option (\<lambda>rows.
       \<lparr>fe_id = en_id e, fe_document = en_document e, fe_source = en_source e, fe_status = en_status e,
        fe_columns = en_columns e, fe_rows = rows, fe_error_code = en_error_code e,
        fe_first_seen = en_first_seen e, fe_confirmed = en_confirmed e\<rparr>) (those_rows (en_rows e))"

section \<open>Pattern matching\<close>

text \<open>
  \<open>LIKE\<close>: a percent sign stands for any text, an underscore for any character, and a backslash
  takes the next character literally. The patterns of the program end in a percent sign, so no
  pattern ends in a lone backslash. \<open>ILIKE\<close> compares in lower case.
\<close>

fun like :: "pystr \<Rightarrow> pystr \<Rightarrow> bool" where
  "like [] s = (s = [])"
| "like (p # ps) s =
     (if p = CHR ''%'' then like ps s \<or> (case s of [] \<Rightarrow> False | _ # t \<Rightarrow> like (p # ps) t)
      else if p = CHR ''_'' then (case s of [] \<Rightarrow> False | _ # t \<Rightarrow> like ps t)
      else if p = CHR 0x5C then
        (case ps of [] \<Rightarrow> False
         | q # qs \<Rightarrow> (case s of [] \<Rightarrow> False | c # t \<Rightarrow> c = q \<and> like qs t))
      else (case s of [] \<Rightarrow> False | c # t \<Rightarrow> c = p \<and> like ps t))"

definition ilike :: "pystr \<Rightarrow> pystr \<Rightarrow> bool" where
  "ilike s pattern = like (py_lower pattern) (py_lower s)"

definition document_matches :: "pystr \<Rightarrow> entry \<Rightarrow> bool" where
  "document_matches needle e = ilike (en_document e) (''%'' @ needle @ ''%'')"

section \<open>Reading entries\<close>

definition confirmed_by :: "uuid \<Rightarrow> queue_db \<Rightarrow> entry \<Rightarrow> bool" where
  "confirmed_by team db e = list_ex (\<lambda>i. it_team i = team \<and> it_entry i = Some (en_id e)) (q_items db)"

definition newest_first :: "entry list \<Rightarrow> entry list" where
  "newest_first es = rev (sort_key en_confirmed es)"

text \<open>\<open>LIMIT\<close> and \<open>OFFSET\<close> are 64-bit parameters and must not be negative.\<close>

definition INT64_MAX :: int where "INT64_MAX = 2 ^ 63 - 1"

definition DATA_ERROR :: exn where
  "DATA_ERROR = raise_exn (BuiltinError ''DataError'') ''value out of int64 range''"

definition NEGATIVE_OFFSET :: exn where
  "NEGATIVE_OFFSET =
     raise_exn (BuiltinError ''InvalidRowCountInResultOffsetClauseError'') ''OFFSET must not be negative''"

definition NEGATIVE_LIMIT :: exn where
  "NEGATIVE_LIMIT =
     raise_exn (BuiltinError ''InvalidRowCountInLimitClauseError'') ''LIMIT must not be negative''"

definition window :: "int \<Rightarrow> int \<Rightarrow> 'a list \<Rightarrow> exn + 'a list" where
  "window limit offset rows =
     (if limit > INT64_MAX \<or> limit < - INT64_MAX - 1 \<or> offset > INT64_MAX \<or> offset < - INT64_MAX - 1
      then Inl DATA_ERROR
      else if offset < 0 then Inl NEGATIVE_OFFSET
      else if limit < 0 then Inl NEGATIVE_LIMIT
      else Inr (take (nat limit) (drop (nat offset) rows)))"

text \<open>One row more than asked for tells whether another page follows.\<close>

definition one_page :: "int \<Rightarrow> int \<Rightarrow> entry list \<Rightarrow> exn + entry list \<times> bool" where
  "one_page limit offset rows =
     bind_res (window (limit + 1) offset rows)
       (\<lambda>found. Inr (take (nat limit) found, int (length found) > limit))"

definition search_team :: "uuid \<Rightarrow> pystr \<Rightarrow> int \<Rightarrow> int \<Rightarrow> queue_db \<Rightarrow> exn + entry list \<times> bool" where
  "search_team team needle limit offset db =
     one_page limit offset
       (newest_first (filter (\<lambda>e. document_matches needle e \<and> confirmed_by team db e) (q_entries db)))"

text \<open>
  Every query runs on its own, so the rows that tie in \<open>last_confirmed_at\<close> may come in another order for every
  page: \<open>search_team_in\<close> is the query of one page with the order the database chose for it.
\<close>

definition newest_order :: "(entry list \<Rightarrow> entry list) \<Rightarrow> entry list \<Rightarrow> bool" where
  "newest_order order es \<longleftrightarrow>
     mset (order es) = mset es \<and> sorted_wrt (\<lambda>a b. en_confirmed b \<le> en_confirmed a) (order es)"

definition search_team_in ::
  "(entry list \<Rightarrow> entry list) \<Rightarrow> uuid \<Rightarrow> pystr \<Rightarrow> int \<Rightarrow> int \<Rightarrow> queue_db \<Rightarrow> exn + entry list \<times> bool" where
  "search_team_in order team needle limit offset db =
     one_page limit offset
       (order (filter (\<lambda>e. document_matches needle e \<and> confirmed_by team db e) (q_entries db)))"

lemma search_team_newest: "search_team = search_team_in newest_first"
  by (intro ext) (simp add: search_team_def search_team_in_def)

lemma newest_order_rev: "newest_order order es \<longleftrightarrow> mset (order es) = mset es \<and> sorted (map en_confirmed (rev (order es)))"
  by (simp add: newest_order_def sorted_wrt_rev sorted_map)

lemma newest_first_orders: "newest_order newest_first es"
  by (simp add: newest_order_rev newest_first_def)

text \<open>Without ties there is one order.\<close>

lemma newest_order_unique:
  assumes "newest_order order es" and "distinct (map en_confirmed es)"
  shows "order es = newest_first es"
proof -
  have "sort_key en_confirmed es = rev (order es)"
    using assms by (intro sort_key_inj_key_eq) (simp_all add: newest_order_rev distinct_map)
  then show ?thesis by (simp add: newest_first_def)
qed

text \<open>With a tie a page may repeat a row of the page before and leave another one out.\<close>

lemma tie_repeats_a_row:
  assumes "en_confirmed a = en_confirmed b"
  shows "newest_order (\<lambda>_. [a, b]) [a, b] \<and> newest_order (\<lambda>_. [b, a]) [a, b] \<and>
     one_page 1 0 [a, b] = Inr ([a], True) \<and> one_page 1 1 [b, a] = Inr ([a], False)"
  using assms by (simp add: newest_order_def one_page_def window_def INT64_MAX_def)

definition search_global :: "pystr \<Rightarrow> int \<Rightarrow> int \<Rightarrow> queue_db \<Rightarrow> exn + entry list \<times> bool" where
  "search_global needle limit offset db =
     one_page limit offset (newest_first (filter (document_matches needle) (q_entries db)))"

definition entry_for_team :: "uuid \<Rightarrow> uuid \<Rightarrow> queue_db \<Rightarrow> entry option" where
  "entry_for_team team eid db = List.find (\<lambda>e. en_id e = eid \<and> confirmed_by team db e) (q_entries db)"

definition entry_by_id :: "uuid \<Rightarrow> queue_db \<Rightarrow> entry option" where
  "entry_by_id eid db = List.find (\<lambda>e. en_id e = eid) (q_entries db)"

definition entries_by_ids :: "uuid list \<Rightarrow> queue_db \<Rightarrow> uuid \<Rightarrow> entry option" where
  "entries_by_ids ids db =
     (if ids = [] then (\<lambda>_. None)
      else map_of (rev (map (\<lambda>e. (en_id e, e)) (filter (\<lambda>e. en_id e \<in> set ids) (q_entries db)))))"

section \<open>Reuse\<close>

definition REUSABLE_STATUSES :: "pystr list" where
  "REUSABLE_STATUSES = [''ok'', ''not_found'']"

type_synonym pair = "pystr \<times> pystr"

record reuse_row =
  ru_document :: pystr
  ru_source :: pystr
  ru_entry :: uuid
  ru_status :: pystr
  ru_confirmed :: seconds

text \<open>The join of the team's published items with their entries.\<close>

definition reuse_rows :: "uuid \<Rightarrow> pystr list \<Rightarrow> pystr list \<Rightarrow> queue_db \<Rightarrow> reuse_row list" where
  "reuse_rows team documents sources db =
     concat (map (\<lambda>i. case it_source i of
         None \<Rightarrow> []
       | Some source \<Rightarrow>
           if it_team i = team \<and> it_state i = IPublished \<and> it_document i \<in> set documents \<and> source \<in> set sources
           then map (\<lambda>e. \<lparr>ru_document = it_document i, ru_source = source, ru_entry = en_id e,
                           ru_status = en_status e, ru_confirmed = en_confirmed e\<rparr>)
                  (filter (\<lambda>e. it_entry i = Some (en_id e)) (q_entries db))
           else []) (q_items db))"

definition row_reusable :: "seconds \<Rightarrow> pair list \<Rightarrow> (pystr \<times> seconds) list \<Rightarrow> reuse_row \<Rightarrow> bool" where
  "row_reusable now pairs freshness r \<longleftrightarrow>
     (ru_document r, ru_source r) \<in> set pairs \<and> ru_status r \<in> set REUSABLE_STATUSES \<and>
     (case map_of freshness (ru_source r) of None \<Rightarrow> False | Some age \<Rightarrow> now - ru_confirmed r \<le> age)"

text \<open>A later row of the join overwrites an earlier one of the same pair.\<close>

definition reusable_for_team ::
  "seconds \<Rightarrow> uuid \<Rightarrow> pair list \<Rightarrow> (pystr \<times> seconds) list \<Rightarrow> queue_db \<Rightarrow> (pair \<times> uuid) list" where
  "reusable_for_team now team pairs freshness db =
     (if pairs = [] then []
      else map (\<lambda>r. ((ru_document r, ru_source r), ru_entry r))
             (rev (filter (row_reusable now pairs freshness)
                (reuse_rows team (map fst pairs) (map snd pairs) db))))"

section \<open>Search log\<close>

record search_row =
  se_id :: uuid
  se_team :: uuid
  se_actor :: uuid
  se_query :: pystr
  se_count :: nat
  se_created_at :: seconds

record search_log_entry =
  sl_id :: uuid
  sl_query :: pystr
  sl_count :: nat
  sl_actor_email :: pystr
  sl_created_at :: seconds

record team_search_activity =
  ta_team :: uuid
  ta_name :: pystr
  ta_count :: nat
  ta_last :: "seconds option"

text \<open>The constraints of the table: the text is not blank, the team and the actor exist.\<close>

definition record_search :: "search_row \<Rightarrow> accounts \<Rightarrow> search_row list \<Rightarrow> account_error + search_row list" where
  "record_search row db past =
     (if pg_trim (se_query row) = [] then Inl CheckViolation
      else if find_team db (se_team row) = None \<or> find_user db (se_actor row) = None then Inl ForeignKeyViolation
      else Inr (past @ [row]))"

definition recent_for_team :: "uuid \<Rightarrow> nat \<Rightarrow> accounts \<Rightarrow> search_row list \<Rightarrow> search_log_entry list" where
  "recent_for_team team limit db past =
     take limit (concat (map (\<lambda>r. case find_user db (se_actor r) of
         None \<Rightarrow> []
       | Some u \<Rightarrow> [\<lparr>sl_id = se_id r, sl_query = se_query r, sl_count = se_count r,
                     sl_actor_email = us_email u, sl_created_at = se_created_at r\<rparr>])
       (rev (sort_key se_created_at (filter (\<lambda>r. se_team r = team) past)))))"

definition team_activity :: "seconds \<Rightarrow> nat \<Rightarrow> search_row list \<Rightarrow> team_entry \<Rightarrow> team_search_activity" where
  "team_activity now days past t =
     (let rows = filter (\<lambda>r. se_team r = tm_id t \<and> now - real days * 86400 \<le> se_created_at r) past
      in \<lparr>ta_team = tm_id t, ta_name = tm_name t, ta_count = length rows,
          ta_last = (if rows = [] then None else Some (Max (set (map se_created_at rows))))\<rparr>)"

definition team_totals :: "seconds \<Rightarrow> nat \<Rightarrow> accounts \<Rightarrow> search_row list \<Rightarrow> team_search_activity list" where
  "team_totals now days db past =
     sort_key (\<lambda>a. - int (ta_count a)) (sort_key ta_name (map (team_activity now days past) (ac_teams db)))"

end
