(* ===== verification/Storage.thy ===== *)
theory Storage
  imports WorkerApi Teams
begin

text \<open>
  Objects behind references: the immutable storage of \<open>portal/storage/s3.py\<close> and the table of
  references (\<open>add_object_reference\<close> and \<open>object_reference\<close> of \<open>portal/repository/jobs.py\<close>) with its
  constraints. The S3 endpoint is code outside the repository: a bucket maps keys to bodies, and
  \<open>net\<close> says which requests fail with an error other than a missing key.
\<close>

section \<open>Immutable objects\<close>

type_synonym bucket = "(pystr \<times> pystr) list"

datatype s3_request = GetObject pystr | PutObject pystr

type_synonym s3_net = "s3_request \<Rightarrow> exn option"

definition storage_key :: "object_reference \<Rightarrow> pystr" where
  "storage_key r = rf_container r @ ''/'' @ rf_key r"

definition get_object :: "s3_net \<Rightarrow> pystr \<Rightarrow> bucket \<Rightarrow> exn + pystr option" where
  "get_object net key b = (case net (GetObject key) of Some e \<Rightarrow> Inl e | None \<Rightarrow> Inr (map_of b key))"

definition put_object :: "s3_net \<Rightarrow> pystr \<Rightarrow> pystr \<Rightarrow> bucket \<Rightarrow> exn + bucket" where
  "put_object net key body b =
     (case net (PutObject key) of Some e \<Rightarrow> Inl e | None \<Rightarrow> Inr ((key, body) # filter (\<lambda>(k, _). k \<noteq> key) b))"

definition CONTENT_MISMATCH :: exn where
  "CONTENT_MISMATCH = raise_exn (BuiltinError ''ValueError'') ''el contenido no coincide con la referencia inmutable''"

definition ALREADY_STORED :: exn where
  "ALREADY_STORED = raise_exn (BuiltinError ''ValueError'') ''la referencia de objeto inmutable ya existe''"

definition NO_SUCH_KEY :: exn where
  "NO_SUCH_KEY = raise_exn (BuiltinError ''ClientError'') ''NoSuchKey''"

definition put_immutable ::
  "(pystr \<Rightarrow> pystr) \<Rightarrow> s3_net \<Rightarrow> object_reference \<Rightarrow> pystr \<Rightarrow> bucket \<Rightarrow> exn + bucket" where
  "put_immutable sha256 net reference content b =
     (if sha256 content \<noteq> rf_sha256 reference then Inl CONTENT_MISMATCH
      else
        (case get_object net (storage_key reference) b of
           Inl e \<Rightarrow> Inl e
         | Inr (Some body) \<Rightarrow> if body \<noteq> content then Inl ALREADY_STORED else Inr b
         | Inr None \<Rightarrow> put_object net (storage_key reference) content b))"

definition open_object :: "s3_net \<Rightarrow> object_reference \<Rightarrow> bucket \<Rightarrow> exn + pystr" where
  "open_object net reference b =
     bind_res (get_object net (storage_key reference) b)
       (\<lambda>body. case body of None \<Rightarrow> Inl NO_SUCH_KEY | Some content \<Rightarrow> Inr content)"

section \<open>References\<close>

definition hex_digest :: "pystr \<Rightarrow> bool" where
  "hex_digest s \<longleftrightarrow> length s = 64 \<and> set s \<subseteq> set ''0123456789abcdef''"

definition reference_key :: "object_reference \<Rightarrow> uuid \<times> pystr list" where
  "reference_key r = (rf_team r, [rf_provider r, rf_container r, rf_key r, rf_sha256 r])"

definition add_object_reference ::
  "object_reference \<Rightarrow> accounts \<Rightarrow> object_reference list \<Rightarrow> account_error + object_reference list" where
  "add_object_reference r db rows =
     (if list_ex (\<lambda>s. pg_trim s = []) [rf_provider r, rf_container r, rf_key r, rf_content_type r]
         \<or> \<not> hex_digest (rf_sha256 r) then Inl CheckViolation
      else if rf_id r \<in> set (map rf_id rows) \<or> reference_key r \<in> set (map reference_key rows) then Inl UniqueViolation
      else if find_team db (rf_team r) = None then Inl ForeignKeyViolation
      else Inr (rows @ [r]))"

definition object_reference_for :: "uuid \<Rightarrow> uuid \<Rightarrow> object_reference list \<Rightarrow> object_reference option" where
  "object_reference_for rid team rows = List.find (\<lambda>r. rf_id r = rid \<and> rf_team r = team) rows"

section \<open>A stored object never changes\<close>

lemma put_immutable_get:
  assumes "put_immutable sha256 net reference content b = Inr b'"
  shows "map_of b' (storage_key reference) = Some content"
    and "map_of b key = Some body \<Longrightarrow> map_of b' key = Some body"
  using assms
  by (auto simp: put_immutable_def get_object_def put_object_def map_of_filter_in split: if_splits option.splits sum.splits)

type_synonym put_call = "s3_net \<times> object_reference \<times> pystr"

text \<open>A call that raises leaves the bucket as it is.\<close>

definition put_step :: "(pystr \<Rightarrow> pystr) \<Rightarrow> bucket \<Rightarrow> put_call \<Rightarrow> bucket" where
  "put_step sha256 b c =
     (case c of (net, reference, content) \<Rightarrow>
        (case put_immutable sha256 net reference content b of Inl _ \<Rightarrow> b | Inr b' \<Rightarrow> b'))"

lemma put_steps_keep: "map_of b key = Some body \<Longrightarrow> map_of (foldl (put_step sha256) b calls) key = Some body"
  by (rule foldl_invariant [where P = "\<lambda>b. map_of b key = Some body"])
     (auto simp: put_step_def put_immutable_get(2) split: prod.splits sum.splits)

end
