(* ===== verification/Service.thy ===== *)
theory Service
  imports Access Entries Storage
begin

text \<open>
  The portal's application service (\<open>portal/application/service.py\<close>): submitting, watching and
  cancelling jobs, searching the entries, connections, health. Its state extends the shared portal
  state with the queue's database, the search log, the stored objects and the fleet's tables. Every
  method goes through a decorator of \<open>Access\<close>; the role checks of this service are interpreted in the
  contract \<open>access_rules\<close>, extended here by the checks only this service has. The references of the tables of
  jobs and of searches to the users that wrote them are left out of \<open>ac_history\<close>: an account that searched or
  submitted can be deleted here, where the database keeps it, so runs of the model are a superset.
\<close>

section \<open>State\<close>

record service_state = portal_state +
  sv_queue :: queue_db
  sv_searches :: "search_row list"
  sv_objects :: "object_reference list"
  sv_bucket :: bucket
  sv_workers :: "worker_row list"
  sv_breakers :: fleet_breakers

type_synonym 'a service_method = "service_state \<Rightarrow> (service_error + 'a) \<times> service_state"

text \<open>A query of the queue's database, a transaction on it, and a table update that may be refused.\<close>

definition ask_queue :: "(queue_db \<Rightarrow> 'a) \<Rightarrow> 'a service_method" where
  "ask_queue q st = (Inr (q (sv_queue st)), st)"

definition try_queue :: "(queue_db \<Rightarrow> exn + 'a) \<Rightarrow> 'a service_method" where
  "try_queue q st = (case q (sv_queue st) of Inl e \<Rightarrow> (Inl (service_error.Raised e), st) | Inr x \<Rightarrow> (Inr x, st))"

definition commit_queue :: "(queue_db \<Rightarrow> exn + 'a \<times> queue_db) \<Rightarrow> 'a service_method" where
  "commit_queue op st =
     (case op (sv_queue st) of
        Inl e \<Rightarrow> (Inl (service_error.Raised e), st)
      | Inr (x, db) \<Rightarrow> (Inr x, st\<lparr>sv_queue := db\<rparr>))"

definition commit_connections :: "(credentials \<Rightarrow> account_error + credentials) \<Rightarrow> unit service_method" where
  "commit_connections op st =
     (case op (pt_credentials st) of
        Inl e \<Rightarrow> (Inl (Repository e), st)
      | Inr db \<Rightarrow> (Inr (), st\<lparr>pt_credentials := db\<rparr>))"

definition found_or :: "reason \<Rightarrow> 'a option \<Rightarrow> 'a service_method" where
  "found_or r v = (case v of None \<Rightarrow> refused NotFound r | Some x \<Rightarrow> give x)"

section \<open>Role checks\<close>

definition require_site_admin_service :: "uuid \<Rightarrow> accounts \<Rightarrow> account_error + unit" where
  "require_site_admin_service actor_id db =
     (if \<not> is_site_admin actor_id db then refuse PermissionDenied SITE_ADMIN_REQUIRED else Inr ())"

definition require_reader :: "uuid \<Rightarrow> uuid \<Rightarrow> accounts \<Rightarrow> account_error + team_role" where
  "require_reader actor_id team_id db =
     (case role_for actor_id team_id db of None \<Rightarrow> refuse PermissionDenied NOT_A_MEMBER | Some role \<Rightarrow> Inr role)"

definition require_leader_service :: "uuid \<Rightarrow> uuid \<Rightarrow> accounts \<Rightarrow> account_error + team_role" where
  "require_leader_service actor_id team_id db =
     bind_res (require_reader actor_id team_id db)
       (\<lambda>role. if role \<noteq> TEAM_LEADER then refuse PermissionDenied LEADER_REQUIRED else Inr role)"

definition require_global_search :: "uuid \<Rightarrow> accounts \<Rightarrow> account_error + unit" where
  "require_global_search actor_id db =
     (if is_site_admin actor_id db then Inr ()
      else if any_team_has_global_search actor_id db then Inr ()
      else refuse PermissionDenied GLOBAL_SEARCH_REQUIRED)"

text \<open>The decorators await a check and drop its answer.\<close>

definition awaited :: "account_error + 'a \<Rightarrow> account_error + unit" where
  "awaited r = bind_res r (\<lambda>_. Inr ())"

definition require_reader_or_site_admin :: "uuid \<Rightarrow> uuid \<Rightarrow> accounts \<Rightarrow> account_error + unit" where
  "require_reader_or_site_admin actor_id team_id db =
     (if is_site_admin actor_id db then Inr () else awaited (require_reader actor_id team_id db))"

definition require_leader_or_site_admin_service :: "uuid \<Rightarrow> uuid \<Rightarrow> accounts \<Rightarrow> account_error + unit" where
  "require_leader_or_site_admin_service actor_id team_id db =
     (if is_site_admin actor_id db then Inr () else awaited (require_leader_service actor_id team_id db))"

definition leader_rule :: "uuid \<Rightarrow> uuid \<Rightarrow> accounts \<Rightarrow> account_error + unit" where
  "leader_rule actor_id team_id db = awaited (require_leader_service actor_id team_id db)"

definition reader_rule :: "uuid \<Rightarrow> uuid \<Rightarrow> accounts \<Rightarrow> account_error + unit" where
  "reader_rule actor_id team_id db = awaited (require_reader actor_id team_id db)"

locale search_rules = access_rules +
  fixes require_member :: "uuid \<Rightarrow> uuid \<Rightarrow> accounts \<Rightarrow> account_error + unit"
    and require_member_or_admin :: "uuid \<Rightarrow> uuid \<Rightarrow> accounts \<Rightarrow> account_error + unit"
    and require_everywhere :: "uuid \<Rightarrow> accounts \<Rightarrow> account_error + unit"
  assumes member_law: "require_member actor team db = Inr () \<longleftrightarrow> role_for actor team db \<noteq> None"
    and member_or_admin_law: "require_member_or_admin actor team db = Inr ()
          \<longleftrightarrow> is_site_admin actor db \<or> role_for actor team db \<noteq> None"
    and everywhere_law: "require_everywhere actor db = Inr ()
          \<longleftrightarrow> is_site_admin actor db \<or> any_team_has_global_search actor db"
begin

lemma member_only:
  "role_for actor team (pt_db st) = None \<Longrightarrow> \<exists>e. guarded (require_member actor team) body st = (Inl e, st)"
  using guarded_denied member_law by blast

lemma member_or_admin_only:
  "\<not> is_site_admin actor (pt_db st) \<Longrightarrow> role_for actor team (pt_db st) = None \<Longrightarrow>
     \<exists>e. guarded (require_member_or_admin actor team) body st = (Inl e, st)"
  using guarded_denied member_or_admin_law by blast

lemma everywhere_only:
  "\<not> is_site_admin actor (pt_db st) \<Longrightarrow> \<not> any_team_has_global_search actor (pt_db st) \<Longrightarrow>
     \<exists>e. guarded (require_everywhere actor) body st = (Inl e, st)"
  using guarded_denied everywhere_law by blast

lemma leader_passes:
  "role_for actor team (pt_db st) = Some TEAM_LEADER \<Longrightarrow> guarded (require_leader actor team) body st = body st"
  by (simp add: guarded_def leader_law [THEN iffD2])

lemma member_passes:
  "role_for actor team (pt_db st) \<noteq> None \<Longrightarrow> guarded (require_member actor team) body st = body st"
  by (simp add: guarded_def member_law [THEN iffD2])

end

interpretation service_access: search_rules require_site_admin_service leader_rule require_leader_or_site_admin_service
    reader_rule require_reader_or_site_admin require_global_search
  by unfold_locales
     (auto simp: require_site_admin_service_def leader_rule_def reader_rule_def awaited_def require_leader_service_def
        require_reader_def require_leader_or_site_admin_service_def require_reader_or_site_admin_def
        require_global_search_def refuse_def split: option.splits)

section \<open>Submitting\<close>

record submit_command = submit_job +
  sj_lines :: "input_line list"
  sj_reuse :: bool

definition require_active_credential :: "uuid \<Rightarrow> uuid \<Rightarrow> credential_version service_method" where
  "require_active_credential version_id team_id st =
     (case credential version_id (pt_credentials st) of
        None \<Rightarrow> refused PermissionDenied CREDENTIAL_WRONG_TEAM st
      | Some c \<Rightarrow>
          if cv_team c \<noteq> team_id then refused PermissionDenied CREDENTIAL_WRONG_TEAM st
          else if \<not> cv_active c \<or> cv_state c \<noteq> Active then refused PermissionDenied CREDENTIAL_REQUIRED st
          else give c st)"

definition planned :: "input_line list \<Rightarrow> pystr list \<Rightarrow> submission_plan service_method" where
  "planned lines sources =
     (case plan_submission lines sources of Inl e \<Rightarrow> stop (Repository (Portal e)) | Inr plan \<Rightarrow> give plan)"

definition plan_pairs :: "submission_plan \<Rightarrow> (pystr \<times> pystr) list" where
  "plan_pairs plan = map (\<lambda>i. (pi_document i, pi_source i)) (sp_items plan)"

definition team_reuse :: "seconds \<Rightarrow> uuid \<Rightarrow> submission_plan \<Rightarrow> ((pystr \<times> pystr) \<times> uuid) list service_method" where
  "team_reuse now team_id plan =
     ask_queue (\<lambda>db. reusable_for_team now team_id (plan_pairs plan) SOURCE_FRESHNESS db)"

text \<open>The clocks of the process and of the database transaction are two readings.\<close>

definition admit_command :: "seconds \<Rightarrow> seconds \<Rightarrow> submit_command \<Rightarrow> job service_method" where
  "admit_command now db_now cmd =
     and_then (planned (sj_lines cmd) (sj_sources cmd)) (\<lambda>plan.
     and_then (if sj_reuse cmd \<and> sp_items plan \<noteq> [] then team_reuse now (sj_team cmd) plan else give []) (\<lambda>reusable.
     commit_queue (admit_submission db_now (submit_job.truncate cmd) plan (map_of reusable))))"

definition submit :: "seconds \<Rightarrow> seconds \<Rightarrow> submit_command \<Rightarrow> job service_method" where
  "submit now db_now cmd =
     guarded (leader_rule (sj_actor cmd) (sj_team cmd))
       (and_then (require_active_credential (sj_credential cmd) (sj_team cmd)) (\<lambda>_. admit_command now db_now cmd))"

definition confirm_submission ::
  "seconds \<Rightarrow> seconds \<Rightarrow> uuid \<Rightarrow> uuid \<Rightarrow> uuid \<Rightarrow> pystr \<Rightarrow> uuid \<Rightarrow> input_line list \<Rightarrow> pystr list \<Rightarrow> bool \<Rightarrow> job service_method" where
  "confirm_submission now db_now actor_id team_id version_id filename input_object_id lines sources reuse =
     guarded (leader_rule actor_id team_id)
       (and_then (require_active_credential version_id team_id) (\<lambda>_.
          admit_command now db_now
            \<lparr>sj_actor = actor_id, sj_team = team_id, sj_credential = version_id, sj_input_object = input_object_id,
             sj_filename = filename, sj_sources = sources, sj_lines = lines, sj_reuse = reuse\<rparr>))"

definition preview_submission ::
  "seconds \<Rightarrow> uuid \<Rightarrow> uuid \<Rightarrow> input_line list \<Rightarrow> pystr list \<Rightarrow> submission_review service_method" where
  "preview_submission now actor_id team_id lines sources =
     guarded (leader_rule actor_id team_id)
       (and_then (planned lines sources) (\<lambda>plan.
          if sp_items plan = [] then give (build_review plan [])
          else
            and_then (team_reuse now team_id plan) (\<lambda>reusable. give (build_review plan (map fst reusable)))))"

text \<open>An upload: the reference is made of random identifiers and of the content.\<close>

record upload_env =
  up_id :: uuid
  up_name :: pystr
  up_sha256 :: "pystr \<Rightarrow> pystr"
  up_net :: s3_net

definition upload_reference :: "upload_env \<Rightarrow> uuid \<Rightarrow> pystr \<Rightarrow> pystr \<Rightarrow> object_reference" where
  "upload_reference env team_id content content_type =
     \<lparr>rf_id = up_id env, rf_team = team_id, rf_provider = ''portal-browser'', rf_container = ''submissions'',
      rf_key = nat_str team_id @ ''/'' @ up_name env, rf_sha256 = up_sha256 env content, rf_size = length content,
      rf_content_type = content_type\<rparr>"

definition store_upload ::
  "upload_env \<Rightarrow> uuid \<Rightarrow> uuid \<Rightarrow> pystr \<Rightarrow> pystr \<Rightarrow> object_reference service_method" where
  "store_upload env actor_id team_id content content_type =
     guarded (leader_rule actor_id team_id) (\<lambda>st.
       let reference = upload_reference env team_id content content_type
       in case put_immutable (up_sha256 env) (up_net env) reference content (sv_bucket st) of
            Inl e \<Rightarrow> (Inl (service_error.Raised e), st)
          | Inr b \<Rightarrow>
              let st = st\<lparr>sv_bucket := b\<rparr>
              in case add_object_reference reference (pt_db st) (sv_objects st) of
                   Inl e \<Rightarrow> (Inl (Repository e), st)
                 | Inr rows \<Rightarrow> (Inr reference, st\<lparr>sv_objects := rows\<rparr>))"

definition input_reference :: "uuid \<Rightarrow> uuid \<Rightarrow> uuid \<Rightarrow> object_reference service_method" where
  "input_reference actor_id team_id reference_id =
     guarded (leader_rule actor_id team_id)
       (\<lambda>st. found_or INPUT_NOT_FOUND (object_reference_for reference_id team_id (sv_objects st)) st)"

section \<open>Jobs\<close>

definition cancel_service :: "seconds \<Rightarrow> uuid \<Rightarrow> uuid \<Rightarrow> uuid \<Rightarrow> job service_method" where
  "cancel_service now actor_id team_id job_id =
     guarded (require_leader_or_site_admin_service actor_id team_id)
       (and_then (commit_queue (JobQueue.cancel now job_id team_id)) (found_or JOB_NOT_FOUND))"

definition published_results :: "uuid \<Rightarrow> uuid \<Rightarrow> job list service_method" where
  "published_results actor_id team_id = guarded (reader_rule actor_id team_id) (ask_queue (published_jobs team_id))"

definition jobs_service :: "uuid \<Rightarrow> uuid \<Rightarrow> nat \<Rightarrow> nat \<Rightarrow> (job list \<times> nat) service_method" where
  "jobs_service actor_id team_id page page_size =
     guarded (require_reader_or_site_admin actor_id team_id) (ask_queue (jobs_for_team team_id page page_size))"

definition job_service :: "uuid \<Rightarrow> uuid \<Rightarrow> uuid \<Rightarrow> (job \<times> item list \<times> excluded_input list) service_method" where
  "job_service actor_id team_id job_id =
     guarded (require_reader_or_site_admin actor_id team_id)
       (and_then (ask_queue (job_of job_id team_id)) (found_or JOB_NOT_FOUND))"

definition job_items :: "uuid \<Rightarrow> uuid \<Rightarrow> uuid \<Rightarrow> nat \<Rightarrow> nat \<Rightarrow> (item list \<times> nat) service_method" where
  "job_items actor_id team_id job_id page page_size =
     guarded (require_reader_or_site_admin actor_id team_id) (ask_queue (items_for_job job_id team_id page page_size))"

text \<open>Every item of the job with the entry it names.\<close>

definition with_entries :: "item list \<Rightarrow> queue_db \<Rightarrow> (item \<times> entry option) list" where
  "with_entries items db =
     (let entries = entries_by_ids (remdups (List.map_filter it_entry items)) db
      in map (\<lambda>i. (i, case it_entry i of None \<Rightarrow> None | Some e \<Rightarrow> entries e)) items)"

definition job_results ::
  "uuid \<Rightarrow> uuid \<Rightarrow> uuid \<Rightarrow> ((job \<times> item list \<times> excluded_input list) \<times> (item \<times> entry option) list) service_method" where
  "job_results actor_id team_id job_id =
     guarded (require_leader_or_site_admin_service actor_id team_id)
       (and_then (ask_queue (job_of job_id team_id)) (\<lambda>found.
        and_then (found_or JOB_NOT_FOUND found) (\<lambda>job.
        and_then (ask_queue (all_items_for_job job_id team_id)) (\<lambda>items.
        and_then (ask_queue (with_entries items)) (\<lambda>results. give (job, results))))))"

definition job_progress_counts :: "uuid \<Rightarrow> uuid \<Rightarrow> uuid \<Rightarrow> job_item_counts service_method" where
  "job_progress_counts actor_id team_id job_id =
     guarded (require_reader_or_site_admin actor_id team_id) (ask_queue (item_counts job_id team_id))"

definition job_events_after_service :: "uuid \<Rightarrow> uuid \<Rightarrow> uuid \<Rightarrow> nat \<Rightarrow> job_event list service_method" where
  "job_events_after_service actor_id team_id job_id sequence =
     guarded (require_reader_or_site_admin actor_id team_id)
       (and_then (job_service actor_id team_id job_id) (\<lambda>_. ask_queue (job_events_after job_id team_id sequence)))"

section \<open>Teams\<close>

definition teams :: "uuid \<Rightarrow> team list service_method" where
  "teams actor_id = ask (teams_for_user actor_id)"

definition team_service :: "uuid \<Rightarrow> uuid \<Rightarrow> team service_method" where
  "team_service actor_id team_id =
     guarded (require_reader_or_site_admin actor_id team_id)
       (and_then (ask (role_for actor_id team_id)) (\<lambda>role.
        and_then (ask (team_by_id team_id)) (\<lambda>found.
        and_then (found_or TEAM_NOT_FOUND found) (\<lambda>t. give (t\<lparr>te_role := role\<rparr>)))))"

definition set_global_search_service :: "uuid \<Rightarrow> uuid \<Rightarrow> bool \<Rightarrow> unit service_method" where
  "set_global_search_service actor_id team_id enabled =
     guarded (require_site_admin_service actor_id) (commit_unit (\<lambda>db. Inr (set_global_search team_id enabled db)))"

section \<open>Searching\<close>

text \<open>Every page of a search is logged, with the number of entries on it.\<close>

definition search :: "seconds \<Rightarrow> uuid \<Rightarrow> uuid \<Rightarrow> uuid \<Rightarrow> pystr \<Rightarrow> int \<Rightarrow> int \<Rightarrow> (entry list \<times> bool) service_method" where
  "search now fresh actor_id team_id query page page_size =
     guarded (reader_rule actor_id team_id)
       (let needle = py_strip query
        in if needle = [] then give ([], False)
           else
             and_then (try_queue (search_team team_id needle page_size ((page - 1) * page_size))) (\<lambda>(results, has_more) st.
               case record_search
                      \<lparr>se_id = fresh, se_team = team_id, se_actor = actor_id, se_query = needle,
                       se_count = length results, se_created_at = now\<rparr> (pt_db st) (sv_searches st) of
                 Inl e \<Rightarrow> (Inl (Repository e), st)
               | Inr rows \<Rightarrow> (Inr (results, has_more), st\<lparr>sv_searches := rows\<rparr>)))"

definition global_search :: "uuid \<Rightarrow> pystr \<Rightarrow> int \<Rightarrow> int \<Rightarrow> (entry list \<times> bool) service_method" where
  "global_search actor_id query page page_size =
     guarded (require_global_search actor_id)
       (let needle = py_strip query
        in if needle = [] then give ([], False)
           else try_queue (search_global needle page_size ((page - 1) * page_size)))"

definition entry_service :: "uuid \<Rightarrow> uuid \<Rightarrow> uuid \<Rightarrow> entry service_method" where
  "entry_service actor_id team_id entry_id =
     guarded (reader_rule actor_id team_id)
       (and_then (ask_queue (entry_for_team team_id entry_id)) (found_or ENTRY_NOT_FOUND))"

definition global_entry :: "uuid \<Rightarrow> uuid \<Rightarrow> entry service_method" where
  "global_entry actor_id entry_id =
     guarded (require_global_search actor_id)
       (and_then (ask_queue (entry_by_id entry_id)) (found_or ENTRY_NOT_FOUND))"

definition recent_searches :: "uuid \<Rightarrow> uuid \<Rightarrow> search_log_entry list service_method" where
  "recent_searches actor_id team_id =
     guarded (require_leader_or_site_admin_service actor_id team_id)
       (\<lambda>st. (Inr (recent_for_team team_id 50 (pt_db st) (sv_searches st)), st))"

definition team_search_activity :: "seconds \<Rightarrow> uuid \<Rightarrow> team_search_activity list service_method" where
  "team_search_activity now actor_id =
     guarded (require_site_admin_service actor_id) (\<lambda>st. (Inr (team_totals now 14 (pt_db st) (sv_searches st)), st))"

section \<open>Health and notifications\<close>

record health_report =
  sh_queue :: "nat \<times> nat \<times> nat"
  sh_workers :: "(worker_row \<times> bool) list"
  sh_breakers :: "((pystr \<times> pystr) \<times> fleet_breaker \<times> bool) list"

definition system_health :: "seconds \<Rightarrow> uuid \<Rightarrow> health_report service_method" where
  "system_health now actor_id =
     guarded (require_site_admin_service actor_id) (\<lambda>st.
       (Inr \<lparr>sh_queue = queue_health (sv_queue st), sh_workers = all_workers_with_status now (sv_workers st),
             sh_breakers = breaker_states now (sv_breakers st)\<rparr>, st))"

definition TERMINAL_JOB_EVENTS :: "pystr list" where
  "TERMINAL_JOB_EVENTS = [''job.completed'', ''job.failed'', ''job.cancelled'']"

definition notifications :: "uuid \<Rightarrow> job_event list service_method" where
  "notifications actor_id =
     and_then (ask (is_site_admin actor_id)) (\<lambda>admin.
     and_then (if admin then ask all_teams else teams actor_id) (\<lambda>ts.
     ask_queue (recent_job_events (map te_id ts) TERMINAL_JOB_EVENTS 100)))"

section \<open>Connections\<close>

definition credentials_service :: "uuid \<Rightarrow> uuid \<Rightarrow> credential_version list service_method" where
  "credentials_service actor_id team_id =
     guarded (require_leader_or_site_admin_service actor_id team_id)
       (\<lambda>st. (Inr (credentials_for_team team_id (pt_credentials st)), st))"

definition rename_credential_service :: "uuid \<Rightarrow> uuid \<Rightarrow> uuid \<Rightarrow> pystr \<Rightarrow> unit service_method" where
  "rename_credential_service actor_id team_id credential_id label =
     guarded (require_leader_or_site_admin_service actor_id team_id)
       (let clean = py_strip label
        in if \<not> (1 \<le> length clean \<and> length clean \<le> 120) then refused CredentialConfigurationError LABEL_LENGTH
           else commit_connections (rename_credential credential_id team_id clean))"

definition retire_credential_service :: "seconds \<Rightarrow> uuid \<Rightarrow> uuid \<Rightarrow> uuid \<Rightarrow> unit service_method" where
  "retire_credential_service now actor_id team_id credential_id =
     guarded (require_leader_or_site_admin_service actor_id team_id)
       (commit_connections (retire_credential now credential_id team_id))"

end
