(* ===== verification/ServiceProps.thy ===== *)
theory ServiceProps
  imports Service ProvisionProps QueueProps "HOL-Library.Sublist" "HOL-Library.Multiset"
begin

text \<open>
  What the application service promises: who may call what, the tables its calls keep sound, what a
  submission admits and reuses, what a search shows and how its pages fit together, and that an
  upload is read back as it was stored. Two runs show where a search pattern and a page number of a
  user reach the database unchecked.
\<close>

section \<open>Calls\<close>

datatype service_call =
    SubmitCall submit_command
  | ConfirmCall uuid uuid pystr uuid "input_line list" "pystr list" bool
  | PreviewCall uuid "input_line list" "pystr list"
  | UploadCall uuid pystr pystr
  | InputReferenceCall uuid uuid
  | CancelCall uuid uuid
  | PublishedResultsCall uuid
  | JobsCall uuid nat nat
  | JobCall uuid uuid
  | JobItemsCall uuid uuid nat nat
  | JobResultsCall uuid uuid
  | JobCountsCall uuid uuid
  | JobEventsCall uuid uuid nat
  | TeamsCall
  | TeamCall uuid
  | SetGlobalSearchCall uuid bool
  | SearchCall uuid pystr int int
  | GlobalSearchCall pystr int int
  | EntryCall uuid uuid
  | GlobalEntryCall uuid
  | RecentSearchesCall uuid
  | SearchActivityCall
  | HealthCall
  | NotificationsCall
  | CredentialsCall uuid
  | RenameCredentialCall uuid uuid pystr
  | RetireCredentialCall uuid uuid

text \<open>What a call draws from outside: the clocks, a random identifier, and what an upload needs.\<close>

record service_env =
  sx_now :: seconds
  sx_db_now :: seconds
  sx_fresh :: uuid
  sx_upload :: upload_env

definition silently :: "'a service_method \<Rightarrow> unit service_method" where
  "silently m = and_then m (\<lambda>_. give ())"

fun run_call :: "service_env \<Rightarrow> uuid \<Rightarrow> service_call \<Rightarrow> unit service_method" where
  "run_call env actor (SubmitCall cmd) = silently (submit (sx_now env) (sx_db_now env) (cmd\<lparr>sj_actor := actor\<rparr>))"
| "run_call env actor (ConfirmCall team version filename input lines sources reuse) =
     silently (confirm_submission (sx_now env) (sx_db_now env) actor team version filename input lines sources reuse)"
| "run_call env actor (PreviewCall team lines sources) = silently (preview_submission (sx_now env) actor team lines sources)"
| "run_call env actor (UploadCall team content ctype) = silently (store_upload (sx_upload env) actor team content ctype)"
| "run_call env actor (InputReferenceCall team r) = silently (input_reference actor team r)"
| "run_call env actor (CancelCall team j) = silently (cancel_service (sx_db_now env) actor team j)"
| "run_call env actor (PublishedResultsCall team) = silently (published_results actor team)"
| "run_call env actor (JobsCall team page per) = silently (jobs_service actor team page per)"
| "run_call env actor (JobCall team j) = silently (job_service actor team j)"
| "run_call env actor (JobItemsCall team j page per) = silently (job_items actor team j page per)"
| "run_call env actor (JobResultsCall team j) = silently (job_results actor team j)"
| "run_call env actor (JobCountsCall team j) = silently (job_progress_counts actor team j)"
| "run_call env actor (JobEventsCall team j sequence) = silently (job_events_after_service actor team j sequence)"
| "run_call env actor TeamsCall = silently (teams actor)"
| "run_call env actor (TeamCall team) = silently (team_service actor team)"
| "run_call env actor (SetGlobalSearchCall team enabled) = set_global_search_service actor team enabled"
| "run_call env actor (SearchCall team query page per) =
     silently (search (sx_db_now env) (sx_fresh env) actor team query page per)"
| "run_call env actor (GlobalSearchCall query page per) = silently (global_search actor query page per)"
| "run_call env actor (EntryCall team e) = silently (entry_service actor team e)"
| "run_call env actor (GlobalEntryCall e) = silently (global_entry actor e)"
| "run_call env actor (RecentSearchesCall team) = silently (recent_searches actor team)"
| "run_call env actor SearchActivityCall = silently (team_search_activity (sx_db_now env) actor)"
| "run_call env actor HealthCall = silently (system_health (sx_db_now env) actor)"
| "run_call env actor NotificationsCall = silently (notifications actor)"
| "run_call env actor (CredentialsCall team) = silently (credentials_service actor team)"
| "run_call env actor (RenameCredentialCall team c label) = rename_credential_service actor team c label"
| "run_call env actor (RetireCredentialCall team c) = retire_credential_service (sx_db_now env) actor team c"

section \<open>Authorization\<close>

datatype standing = Anyone | Admin | Leader uuid | LeaderOrAdmin uuid | Member uuid | MemberOrAdmin uuid | Everywhere

text \<open>The standing every call needs, as the product documents it.\<close>

fun needed :: "service_call \<Rightarrow> standing" where
  "needed (SubmitCall cmd) = Leader (sj_team cmd)"
| "needed (ConfirmCall team _ _ _ _ _ _) = Leader team"
| "needed (PreviewCall team _ _) = Leader team"
| "needed (UploadCall team _ _) = Leader team"
| "needed (InputReferenceCall team _) = Leader team"
| "needed (CancelCall team _) = LeaderOrAdmin team"
| "needed (PublishedResultsCall team) = Member team"
| "needed (JobsCall team _ _) = MemberOrAdmin team"
| "needed (JobCall team _) = MemberOrAdmin team"
| "needed (JobItemsCall team _ _ _) = MemberOrAdmin team"
| "needed (JobResultsCall team _) = LeaderOrAdmin team"
| "needed (JobCountsCall team _) = MemberOrAdmin team"
| "needed (JobEventsCall team _ _) = MemberOrAdmin team"
| "needed TeamsCall = Anyone"
| "needed (TeamCall team) = MemberOrAdmin team"
| "needed (SetGlobalSearchCall _ _) = Admin"
| "needed (SearchCall team _ _ _) = Member team"
| "needed (GlobalSearchCall _ _ _) = Everywhere"
| "needed (EntryCall team _) = Member team"
| "needed (GlobalEntryCall _) = Everywhere"
| "needed (RecentSearchesCall team) = LeaderOrAdmin team"
| "needed SearchActivityCall = Admin"
| "needed HealthCall = Admin"
| "needed NotificationsCall = Anyone"
| "needed (CredentialsCall team) = LeaderOrAdmin team"
| "needed (RenameCredentialCall team _ _) = LeaderOrAdmin team"
| "needed (RetireCredentialCall team _) = LeaderOrAdmin team"

fun stands :: "standing \<Rightarrow> uuid \<Rightarrow> accounts \<Rightarrow> bool" where
  "stands Anyone actor db = True"
| "stands Admin actor db = is_site_admin actor db"
| "stands (Leader team) actor db = (role_for actor team db = Some TEAM_LEADER)"
| "stands (LeaderOrAdmin team) actor db = (is_site_admin actor db \<or> role_for actor team db = Some TEAM_LEADER)"
| "stands (Member team) actor db = (role_for actor team db \<noteq> None)"
| "stands (MemberOrAdmin team) actor db = (is_site_admin actor db \<or> role_for actor team db \<noteq> None)"
| "stands Everywhere actor db = (is_site_admin actor db \<or> any_team_has_global_search actor db)"

lemma silently_stopped: "\<exists>e. m st = (Inl e, st') \<Longrightarrow> \<exists>e. silently m st = (Inl e, st')"
  by (auto simp: silently_def and_then_def)

lemmas rule_denials =
  service_access.admin_only service_access.leader_only service_access.leader_or_admin_only
  service_access.member_only service_access.member_or_admin_only service_access.everywhere_only

lemma guarded_standing:
  "\<not> stands (LeaderOrAdmin team) actor (pt_db st) \<Longrightarrow> \<exists>e. guarded (require_leader_or_site_admin_service actor team) m st = (Inl e, st)"
  "\<not> stands (MemberOrAdmin team) actor (pt_db st) \<Longrightarrow> \<exists>e. guarded (require_reader_or_site_admin actor team) n st = (Inl e, st)"
  "\<not> stands Everywhere actor (pt_db st) \<Longrightarrow> \<exists>e. guarded (require_global_search actor) k st = (Inl e, st)"
  "\<not> stands (Member team) actor (pt_db st) \<Longrightarrow> \<exists>e. guarded (reader_rule actor team) l st = (Inl e, st)"
  "\<not> stands (Leader team) actor (pt_db st) \<Longrightarrow> \<exists>e. guarded (leader_rule actor team) p st = (Inl e, st)"
  "\<not> stands Admin actor (pt_db st) \<Longrightarrow> \<exists>e. guarded (require_site_admin_service actor) q st = (Inl e, st)"
  using rule_denials by auto

lemmas method_defs =
  submit_def confirm_submission_def preview_submission_def store_upload_def input_reference_def cancel_service_def
  published_results_def jobs_service_def job_service_def job_items_def job_results_def job_progress_counts_def
  job_events_after_service_def team_service_def set_global_search_service_def search_def global_search_def
  entry_service_def global_entry_def recent_searches_def team_search_activity_def system_health_def
  credentials_service_def rename_credential_service_def retire_credential_service_def

text \<open>C6: A call of the application service whose actor lacks the standing it needs (leader of the team,
  member of it, site administrator, a team with the global search) is refused with an error and leaves the
  queue, the accounts, the connections, the search log and the stored objects as they were.\<close>
theorem calls_need_standing:
  assumes "\<not> stands (needed c) actor (pt_db st)"
  shows "\<exists>e. run_call env actor c st = (Inl e, st)"
proof (cases "\<exists>cmd. c = SubmitCall cmd")
  case True
  then show ?thesis
    using assms guarded_standing(5) by (auto simp: submit_def intro!: silently_stopped)
next
  case False
  show ?thesis
    using assms False
    by (cases c; simp only: needed.simps run_call.simps method_defs)
      (erule guarded_standing | (rule silently_stopped, erule guarded_standing) | (simp; fail))+
qed

section \<open>The tables stay sound\<close>

definition objects_sound :: "(pystr \<Rightarrow> pystr) \<Rightarrow> object_reference list \<Rightarrow> bucket \<Rightarrow> bool" where
  "objects_sound sha256 rows b \<longleftrightarrow>
     distinct (map rf_id rows) \<and>
     list_all (\<lambda>r. case map_of b (storage_key r) of
                    None \<Rightarrow> False | Some content \<Rightarrow> sha256 content = rf_sha256 r \<and> length content = rf_size r) rows"

definition installed :: "(pystr \<Rightarrow> pystr) \<Rightarrow> service_state \<Rightarrow> bool" where
  "installed sha256 st \<longleftrightarrow>
     portal_sound (pt_db st) \<and> credentials_sound (pt_credentials st) \<and> reachable (sv_queue st)
     \<and> objects_sound sha256 (sv_objects st) (sv_bucket st)"

definition stays :: "(pystr \<Rightarrow> pystr) \<Rightarrow> 'a service_method \<Rightarrow> bool" where
  "stays sha256 m \<longleftrightarrow> (\<forall>st. installed sha256 st \<longrightarrow> installed sha256 (snd (m st)))"

named_theorems stays_intros

lemma stays_then [stays_intros]: "stays h m \<Longrightarrow> (\<And>x. stays h (f x)) \<Longrightarrow> stays h (and_then m f)"
  by (simp add: stays_def and_then_def split: prod.split sum.split) (metis snd_conv)

lemma stays_same: "(\<And>st. snd (m st) = st) \<Longrightarrow> stays h m"
  by (simp add: stays_def)

lemma still_basic [stays_intros]:
  "stays h (give x)" "stays h (stop e)" "stays h (check r)" "stays h (refused c y)" "stays h (ask q)"
  "stays h (ask_queue k)" "stays h (try_queue t)" "stays h (found_or y v)"
  "stays h (require_active_credential w u)" "stays h (planned ls ss)" "stays h (team_reuse now u plan)"
  by (rule stays_same, simp add: step_defs ask_queue_def try_queue_def found_or_def require_active_credential_def
        planned_def team_reuse_def split: sum.split option.split)+

lemma stays_ask [stays_intros]: "stays h (\<lambda>st. (Inr (f st), st))" "stays h (\<lambda>st. found_or y (g st) st)"
  by (rule stays_same, simp add: found_or_def step_defs split: option.split)+

lemma stays_if [stays_intros]: "stays h m \<Longrightarrow> stays h n \<Longrightarrow> stays h (if b then m else n)"
  by simp

lemma stays_guarded [stays_intros]: "stays h m \<Longrightarrow> stays h (guarded req m)"
  by (auto simp: stays_def guarded_def split: sum.split)

lemma stays_silently [stays_intros]: "stays h m \<Longrightarrow> stays h (silently m)"
  unfolding silently_def by (intro stays_intros)

lemma state_parts [simp]:
  fixes st :: service_state
  shows "pt_db (st\<lparr>sv_queue := q\<rparr>) = pt_db st" "pt_db (st\<lparr>sv_searches := l\<rparr>) = pt_db st"
    "pt_db (st\<lparr>sv_bucket := b\<rparr>) = pt_db st" "pt_db (st\<lparr>sv_objects := os\<rparr>) = pt_db st"
    "pt_db (st\<lparr>pt_credentials := c\<rparr>) = pt_db st" "sv_queue (set_db db st) = sv_queue st"
    "sv_objects (set_db db st) = sv_objects st" "sv_bucket (set_db db st) = sv_bucket st"
    "sv_searches (set_db db st) = sv_searches st"
  by (simp_all add: pt_db_def set_db_def)

text \<open>A transaction of the queue is a step of its runs.\<close>

lemma stays_queue:
  assumes "\<And>db. \<exists>q. QueueRun.commit db (op db) = queue_step q db"
  shows "stays h (commit_queue op)"
proof -
  have "reachable db'" if "reachable db" "op db = Inr (x, db')" for db x db'
    using assms [of db] that reachable.step [of db] by (metis QueueRun.commit_simps(2))
  then show ?thesis
    by (auto simp: stays_def commit_queue_def installed_def split: sum.split)
qed

lemma stays_admit [stays_intros]: "stays h (commit_queue (admit_submission now cmd plan reusable))"
  by (rule stays_queue, rule exI [of _ "Admit now cmd plan reusable"]) simp

lemma stays_cancel [stays_intros]: "stays h (commit_queue (JobQueue.cancel now j team))"
  by (rule stays_queue, rule exI [of _ "QueueRun.Cancel now j team"]) simp

lemma stays_global_search [stays_intros]: "stays h (commit_unit (\<lambda>db. Inr (set_global_search team enabled db)))"
proof -
  have "portal_sound (set_global_search team enabled db)" if "portal_sound db" for db
    using attempt_portal_sound [OF that, of "TeamOp (SetGlobalSearch team enabled)"] by (simp add: attempt_portal_def)
  then show ?thesis
    by (simp add: stays_def commit_unit_def Access.commit_def installed_def)
qed

lemma stays_rename [stays_intros]: "stays h (commit_connections (rename_credential c team label))"
  using rename_sound by (auto simp: stays_def commit_connections_def installed_def split: sum.split)

lemma stays_retire [stays_intros]: "stays h (commit_connections (retire_credential now c team))"
  using retire_sound by (auto simp: stays_def commit_connections_def installed_def split: sum.split)

lemma stays_log [stays_intros]:
  "stays h (\<lambda>st. case record_search (row st) (pt_db st) (sv_searches st) of
                    Inl e \<Rightarrow> (Inl (Repository e), st)
                  | Inr rows \<Rightarrow> (Inr (y st), st\<lparr>sv_searches := rows\<rparr>))"
  by (auto simp: stays_def installed_def split: sum.split)

lemma put_immutable_digest: "put_immutable h net r content b = Inr b' \<Longrightarrow> h content = rf_sha256 r"
  by (simp add: put_immutable_def split: if_splits)

lemma objects_put:
  assumes "objects_sound h rows b" and "put_immutable h net r content b = Inr b'"
  shows "objects_sound h rows b'"
proof -
  have "case map_of b' (storage_key q) of None \<Rightarrow> False | Some c \<Rightarrow> h c = rf_sha256 q \<and> length c = rf_size q"
    if "case map_of b (storage_key q) of None \<Rightarrow> False | Some c \<Rightarrow> h c = rf_sha256 q \<and> length c = rf_size q" for q
    using that put_immutable_get(2) [OF assms(2), of "storage_key q"] by (auto split: option.splits)
  then show ?thesis
    using assms(1) by (auto simp: objects_sound_def list_all_iff)
qed

lemma objects_add:
  assumes "objects_sound h rows b" and "add_object_reference r db rows = Inr rows'"
    and "map_of b (storage_key r) = Some content" and "h content = rf_sha256 r" and "length content = rf_size r"
  shows "objects_sound h rows' b"
  using assms by (auto simp: add_object_reference_def objects_sound_def split: if_splits)

lemma upload_fields [simp]:
  "rf_sha256 (upload_reference env team content ctype) = up_sha256 env content"
  "rf_size (upload_reference env team content ctype) = length content"
  by (simp_all add: upload_reference_def)

lemma stays_upload [stays_intros]:
  assumes "up_sha256 env = h"
  shows "stays h (store_upload env actor team content ctype)"
proof -
  let ?r = "upload_reference env team content ctype"
  have "installed h (snd (case put_immutable (up_sha256 env) (up_net env) ?r content (sv_bucket st) of
            Inl e \<Rightarrow> (Inl (service_error.Raised e), st)
          | Inr b \<Rightarrow>
              let st = st\<lparr>sv_bucket := b\<rparr>
              in case add_object_reference ?r (pt_db st) (sv_objects st) of
                   Inl e \<Rightarrow> (Inl (Repository e), st)
                 | Inr rows \<Rightarrow> (Inr ?r, st\<lparr>sv_objects := rows\<rparr>)))"
    if st: "installed h st" for st :: service_state
  proof (cases "put_immutable (up_sha256 env) (up_net env) ?r content (sv_bucket st)")
    case (Inr b)
    have "objects_sound h (sv_objects st) b"
      using objects_put [of h] st Inr assms by (auto simp: installed_def)
    then show ?thesis
      using st Inr assms put_immutable_get(1) [OF Inr] objects_add [of h _ b]
      by (auto simp: installed_def Let_def split: sum.split)
  qed (use st in simp)
  then have "stays h (\<lambda>st. let reference = ?r
       in case put_immutable (up_sha256 env) (up_net env) reference content (sv_bucket st) of
            Inl e \<Rightarrow> (Inl (service_error.Raised e), st)
          | Inr b \<Rightarrow>
              let st = st\<lparr>sv_bucket := b\<rparr>
              in case add_object_reference reference (pt_db st) (sv_objects st) of
                   Inl e \<Rightarrow> (Inl (Repository e), st)
                 | Inr rows \<Rightarrow> (Inr reference, st\<lparr>sv_objects := rows\<rparr>))"
    by (simp add: stays_def Let_def)
  then show ?thesis
    unfolding store_upload_def by (rule stays_guarded)
qed

lemma stays_pair [stays_intros]: "(\<And>x y. stays h (f x y)) \<Longrightarrow> stays h (case v of (x, y) \<Rightarrow> f x y)"
  by (cases v) simp

lemma stays_search [stays_intros]: "stays h (search now fresh actor team query page per)"
  unfolding search_def Let_def by (intro stays_intros)

lemma stays_admit_command [stays_intros]: "stays h (admit_command now db_now cmd)"
  unfolding admit_command_def by (intro stays_intros)

lemma stays_teams [stays_intros]: "stays h (teams actor)" "stays h (job_service actor team j)"
  unfolding teams_def job_service_def by (intro stays_intros)+

lemma run_call_stays: "up_sha256 (sx_upload env) = h \<Longrightarrow> stays h (run_call env actor c)"
  by (cases c)
     (simp_all only: run_call.simps submit_def confirm_submission_def preview_submission_def input_reference_def
        cancel_service_def published_results_def jobs_service_def job_items_def job_results_def job_progress_counts_def
        job_events_after_service_def team_service_def set_global_search_service_def global_search_def notifications_def
        entry_service_def global_entry_def recent_searches_def team_search_activity_def system_health_def
        credentials_service_def rename_credential_service_def retire_credential_service_def Let_def,
      (intro stays_intros; simp?)+)

text \<open>
  The running portal: calls of this service, calls of the provisioning service on the state they share, and
  transactions of the workers on the queue, in any order. The digest function is one for all uploads.
\<close>

datatype portal_event =
    ServiceEvent service_env uuid service_call
  | ProvisioningEvent provisioning_env drawn seconds uuid request_trace provisioning_call
  | QueueEvent queue_op

definition on_shared :: "'a step \<Rightarrow> service_state \<Rightarrow> service_state" where
  "on_shared m st = portal_state.extend (snd (m (portal_state.truncate st))) (portal_state.more st)"

fun portal_event_step :: "(pystr \<Rightarrow> pystr) \<Rightarrow> portal_event \<Rightarrow> service_state \<Rightarrow> service_state" where
  "portal_event_step h (ServiceEvent env actor c) st =
     snd (run_call (env\<lparr>sx_upload := (sx_upload env)\<lparr>up_sha256 := h\<rparr>\<rparr>) actor c st)"
| "portal_event_step h (ProvisioningEvent env fresh now actor trace c) st = on_shared (call env fresh now actor trace c) st"
| "portal_event_step h (QueueEvent op) st = st\<lparr>sv_queue := queue_step op (sv_queue st)\<rparr>"

definition portal_run :: "(pystr \<Rightarrow> pystr) \<Rightarrow> portal_event list \<Rightarrow> service_state \<Rightarrow> service_state" where
  "portal_run h evs st = foldl (\<lambda>st ev. portal_event_step h ev st) st evs"

definition new_portal :: service_state where
  "new_portal =
     portal_state.extend empty_portal
       (service_state.fields empty_queue [] [] [] [] [])"

lemma shared_parts [simp]:
  fixes st :: service_state
  shows "pt_db (on_shared m st) = pt_db (snd (m (portal_state.truncate st)))"
    "pt_credentials (on_shared m st) = pt_credentials (snd (m (portal_state.truncate st)))"
    "sv_queue (on_shared m st) = sv_queue st" "sv_objects (on_shared m st) = sv_objects st"
    "sv_bucket (on_shared m st) = sv_bucket st"
  by (cases st; simp add: on_shared_def portal_state.defs pt_db_def)+

lemma truncate_parts [simp]:
  fixes st :: service_state
  shows "pt_db (portal_state.truncate st) = pt_db st" "pt_credentials (portal_state.truncate st) = pt_credentials st"
  by (simp_all add: portal_state.defs pt_db_def)

lemma new_portal_installed: "installed h new_portal"
  using empty_sound reachable.start
  by (simp add: installed_def new_portal_def portal_state.defs service_state.defs service_sound_def objects_sound_def pt_db_def)

lemma portal_event_installed: "installed h st \<Longrightarrow> installed h (portal_event_step h ev st)"
proof (cases ev)
  case (ServiceEvent env actor c)
  assume "installed h st"
  then show ?thesis
    using run_call_stays [of "env\<lparr>sx_upload := (sx_upload env)\<lparr>up_sha256 := h\<rparr>\<rparr>" h actor c] ServiceEvent
    by (simp add: stays_def)
next
  case (ProvisioningEvent env fresh now actor trace c)
  assume "installed h st"
  then show ?thesis
    using keeps_call [of env fresh now actor trace c] ProvisioningEvent
    by (simp add: keeps_def installed_def service_sound_def)
next
  case (QueueEvent op)
  assume "installed h st"
  then show ?thesis
    using QueueEvent reachable.step by (simp add: installed_def)
qed

text \<open>C7: From an empty installation, whatever calls of the application service and of the provisioning
  service and whatever transactions of the workers run, in any order and whether they succeed, are refused
  or raise, the portal stays sound: the account, team and connection tables keep their invariants, the queue
  keeps its own, and every reference to an upload names a stored object with its digest and length.\<close>
theorem portal_stays_installed:
  "let st = portal_run h evs new_portal
   in portal_sound (pt_db st) \<and> credentials_sound (pt_credentials st) \<and> queue_ok (sv_queue st)
      \<and> objects_sound h (sv_objects st) (sv_bucket st)"
proof -
  have "installed h (portal_run h evs new_portal)"
    unfolding portal_run_def
    by (rule foldl_invariant [where P = "installed h"]) (auto intro: portal_event_installed new_portal_installed)
  then show ?thesis
    using reachable_ok by (simp add: installed_def Let_def)
qed

section \<open>What a submission admits\<close>

text \<open>An answer the team itself already holds: an own published item with a usable entry that is fresh.\<close>

definition own_answer :: "seconds \<Rightarrow> uuid \<Rightarrow> queue_db \<Rightarrow> pystr \<Rightarrow> pystr \<Rightarrow> uuid \<Rightarrow> bool" where
  "own_answer now team db document source eid \<longleftrightarrow>
     (\<exists>i \<in> set (q_items db). it_team i = team \<and> it_state i = IPublished \<and> it_document i = document
        \<and> it_source i = Some source \<and> it_entry i = Some eid) \<and>
     (\<exists>e \<in> set (q_entries db). en_id e = eid \<and> en_status e \<in> {''ok'', ''not_found''}
        \<and> source = ''osiptel'' \<and> now - en_confirmed e \<le> 7 * 86400)"

lemma freshness_osiptel: "map_of SOURCE_FRESHNESS s = Some age \<longleftrightarrow> s = ''osiptel'' \<and> age = 7 * 86400"
  by (auto simp: SOURCE_FRESHNESS_def)

lemma reusable_own:
  assumes "map_of (reusable_for_team now team pairs SOURCE_FRESHNESS db) (d, s) = Some eid"
  shows "own_answer now team db d s eid"
proof -
  have "((d, s), eid) \<in> set (reusable_for_team now team pairs SOURCE_FRESHNESS db)"
    using assms by (rule map_of_SomeD)
  then obtain r where r: "r \<in> set (reuse_rows team (map fst pairs) (map snd pairs) db)"
      "row_reusable now pairs SOURCE_FRESHNESS r" "ru_document r = d" "ru_source r = s" "ru_entry r = eid"
    by (auto simp: reusable_for_team_def split: if_splits)
  then obtain i e where i: "i \<in> set (q_items db)" "it_team i = team" "it_state i = IPublished" "it_source i = Some s"
      "it_document i = d" and e: "e \<in> set (q_entries db)" "it_entry i = Some (en_id e)" "en_id e = eid"
      "ru_status r = en_status e" "ru_confirmed r = en_confirmed e"
    by (auto simp: reuse_rows_def split: option.splits if_splits)
  show ?thesis
    using r i e by (force simp: own_answer_def row_reusable_def REUSABLE_STATUSES_def freshness_osiptel split: option.splits)
qed

text \<open>An item of a plan, as its ordinal, document and source; an excluded line has no source.\<close>

definition item_line :: "item \<Rightarrow> nat \<times> pystr \<times> pystr option" where
  "item_line i = (it_ordinal i, it_document i, it_source i)"

definition plan_content :: "submission_plan \<Rightarrow> (nat \<times> pystr \<times> pystr option) multiset" where
  "plan_content plan =
     mset (map (\<lambda>p. (pi_ordinal p, pi_document p, Some (pi_source p))) (sp_items plan))
     + mset (map (\<lambda>e. (ei_ordinal e, ei_value e, None)) (sp_exclusions plan))"

lemma insert_items_rows:
  "q_items (insert_items mk xs db) = q_items db @ map (\<lambda>(n, x). mk n x) (enumerate (q_next_id db) xs)"
  by (simp add: insert_items_def)

lemma map_enumerate: "(\<And>n x. f (mk n x) = g x) \<Longrightarrow> map f (map (\<lambda>(n, x). mk n x) (enumerate k xs)) = map g xs"
  by (induction xs arbitrary: k) simp_all

lemma enumerated_item: "i \<in> set (map (\<lambda>(n, x). mk n x) (enumerate k xs)) \<Longrightarrow> \<exists>n. \<exists>x \<in> set xs. i = mk n x"
  by (force simp: enumerate_eq_zip dest: set_zip_rightD)

lemma blank_line [simp]:
  "item_line (pending_item j t n p) = (pi_ordinal p, pi_document p, Some (pi_source p))"
  "item_line (reused_item now r j t n p) = (pi_ordinal p, pi_document p, Some (pi_source p))"
  "item_line (excluded_item j t n e) = (ei_ordinal e, ei_value e, None)"
  by (simp_all add: item_line_def pending_item_def reused_item_def excluded_item_def blank_item_def)

lemma filter_parts: "mset (map f (filter (\<lambda>x. \<not> P x) xs)) + mset (map f (filter P xs)) = mset (map f xs)"
  by (induction xs) simp_all

lemma admitted_items:
  assumes "admit_submission now cmd plan reusable db = Inr (j, db')"
  obtains new where "q_items db' = q_items db @ new" and "mset (map item_line new) = plan_content plan"
    and "\<And>i. i \<in> set new \<Longrightarrow> it_job i = jb_id j \<and> it_team i = sj_team cmd \<and>
           (it_state i = IPending \<and> it_source i \<noteq> None \<and> reusable (it_document i, the (it_source i)) = None \<or>
            it_state i = IExcluded \<and> it_source i = None \<or>
            it_state i = IPublished \<and> it_source i \<noteq> None \<and> it_entry i \<noteq> None
              \<and> it_entry i = reusable (it_document i, the (it_source i)))"
proof -
  let ?old = "\<lambda>p. reusable (pi_document p, pi_source p) \<noteq> None"
  let ?fetch = "filter (\<lambda>p. \<not> ?old p) (sp_items plan)" and ?reuse = "filter ?old (sp_items plan)"
  let ?t = "sj_team cmd" and ?j = "jb_id j"
  obtain n1 n2 n3 where items: "q_items db' = q_items db
      @ map (\<lambda>(n, x). pending_item ?j ?t n x) (enumerate n1 ?fetch)
      @ map (\<lambda>(n, x). reused_item now reusable ?j ?t n x) (enumerate n2 ?reuse)
      @ map (\<lambda>(n, x). excluded_item ?j ?t n x) (enumerate n3 (sp_exclusions plan))" (is "_ = _ @ ?a @ ?b @ ?c")
    using assms
    by (auto simp: admit_submission_def bind_res_Inr_iff Let_def insert_items_rows new_job_def add_event_fields split: if_splits)
  let ?line = "\<lambda>p. (pi_ordinal p, pi_document p, Some (pi_source p))"
  have "map item_line ?a = map ?line ?fetch" "map item_line ?b = map ?line ?reuse"
    "map item_line ?c = map (\<lambda>e. (ei_ordinal e, ei_value e, None)) (sp_exclusions plan)"
    by (rule map_enumerate, simp)+
  then have "mset (map item_line (?a @ ?b @ ?c)) = plan_content plan"
    using filter_parts [of ?line ?old "sp_items plan"] by (simp only: plan_content_def map_append mset_append add.assoc) simp
  moreover have "it_job i = ?j \<and> it_team i = ?t \<and>
           (it_state i = IPending \<and> it_source i \<noteq> None \<and> reusable (it_document i, the (it_source i)) = None \<or>
            it_state i = IExcluded \<and> it_source i = None \<or>
            it_state i = IPublished \<and> it_source i \<noteq> None \<and> it_entry i \<noteq> None
              \<and> it_entry i = reusable (it_document i, the (it_source i)))" if i: "i \<in> set (?a @ ?b @ ?c)" for i
  proof -
    consider "i \<in> set ?a" | "i \<in> set ?b" | "i \<in> set ?c" using i unfolding set_append by blast
    then show ?thesis
    proof cases
      case 1
      from enumerated_item [OF 1] show ?thesis by (auto simp: pending_item_def blank_item_def)
    next
      case 2
      from enumerated_item [OF 2] show ?thesis by (auto simp: reused_item_def blank_item_def)
    next
      case 3
      from enumerated_item [OF 3] show ?thesis by (auto simp: excluded_item_def blank_item_def)
    qed
  qed
  ultimately show thesis using items that by blast
qed

lemma then_done: "and_then m f st = (Inr x, st'') \<longleftrightarrow> (\<exists>y st'. m st = (Inr y, st') \<and> f y st' = (Inr x, st''))"
  by (auto simp: and_then_def split: prod.splits sum.splits)

lemma guarded_done: "guarded req m st = (Inr x, st') \<longleftrightarrow> req (pt_db st) = Inr () \<and> m st = (Inr x, st')"
  by (auto simp: guarded_def split: sum.splits)

lemma active_done:
  "require_active_credential version team st = (Inr c, st') \<longleftrightarrow>
     st' = st \<and> credential version (pt_credentials st) = Some c \<and> cv_team c = team \<and> cv_active c \<and> cv_state c = Active"
  by (auto simp: require_active_credential_def step_defs split: option.splits)

lemma planned_done: "planned lines sources st = (Inr plan, st') \<longleftrightarrow> st' = st \<and> plan_submission lines sources = Inr plan"
  by (auto simp: planned_def step_defs split: sum.splits)

lemma commit_queue_done:
  "commit_queue op st = (Inr x, st') \<longleftrightarrow> (\<exists>db. op (sv_queue st) = Inr (x, db) \<and> st' = st\<lparr>sv_queue := db\<rparr>)"
  by (auto simp: commit_queue_def split: sum.splits)

lemma admit_command_done:
  "admit_command now db_now cmd st = (Inr j, st') \<longleftrightarrow>
     (\<exists>plan db. plan_submission (sj_lines cmd) (sj_sources cmd) = Inr plan \<and>
        admit_submission db_now (submit_job.truncate cmd) plan
          (map_of (if sj_reuse cmd \<and> sp_items plan \<noteq> []
                   then reusable_for_team now (sj_team cmd) (plan_pairs plan) SOURCE_FRESHNESS (sv_queue st) else []))
          (sv_queue st) = Inr (j, db) \<and> st' = st\<lparr>sv_queue := db\<rparr>)"
  by (auto simp: admit_command_def then_done planned_done commit_queue_done team_reuse_def ask_queue_def give_def split: if_splits)

text \<open>An item of a new job: pending, excluded, or published with an answer the team holds.\<close>

definition admitted_as :: "seconds \<Rightarrow> uuid \<Rightarrow> bool \<Rightarrow> queue_db \<Rightarrow> item \<Rightarrow> bool" where
  "admitted_as now team reuse db i \<longleftrightarrow>
     it_state i = IPending \<and> it_source i \<noteq> None \<or> it_state i = IExcluded \<and> it_source i = None \<or>
     it_state i = IPublished \<and> reuse \<and>
     (\<exists>s e. it_source i = Some s \<and> it_entry i = Some e \<and> own_answer now team db (it_document i) s e)"

lemma admitted_job:
  "admit_submission now cmd plan reusable db = Inr (j, db') \<Longrightarrow>
     jb_team j = sj_team cmd \<and> jb_submitted_by j = sj_actor cmd \<and> jb_credential j = sj_credential cmd"
  by (auto simp: admit_submission_def bind_res_Inr_iff Let_def new_job_def)

text \<open>C8: A confirmed submission comes from a leader of the team and uses an active connection of that
  team. It appends to the queue exactly the items of the plan of the uploaded lines: every accepted pair of
  document and source once, every excluded line once, all in the new job. An item that is published at once
  reuses an answer the team itself already holds for the same document and source, found or not found and not
  older than the source's freshness; without the reuse option there is none. Every other accepted pair is pending.\<close>
theorem submission_outcome:
  assumes "confirm_submission now db_now actor team version filename input lines sources reuse st = (Inr j, st')"
  shows "role_for actor team (pt_db st) = Some TEAM_LEADER \<and>
     (\<exists>c. credential version (pt_credentials st) = Some c \<and> cv_team c = team \<and> cv_active c \<and> cv_state c = Active) \<and>
     jb_team j = team \<and> jb_submitted_by j = actor \<and> jb_credential j = version \<and>
     (\<exists>plan new. plan_submission lines sources = Inr plan \<and> q_items (sv_queue st') = q_items (sv_queue st) @ new \<and>
        mset (map item_line new) = plan_content plan \<and>
        (\<forall>i \<in> set new. it_job i = jb_id j \<and> it_team i = team \<and> admitted_as now team reuse (sv_queue st) i))"
proof -
  let ?cmd = "\<lparr>sj_actor = actor, sj_team = team, sj_credential = version, sj_input_object = input,
     sj_filename = filename, sj_sources = sources, sj_lines = lines, sj_reuse = reuse\<rparr>"
  obtain plan db where role: "leader_rule actor team (pt_db st) = Inr ()"
    and cred: "\<exists>c. credential version (pt_credentials st) = Some c \<and> cv_team c = team \<and> cv_active c \<and> cv_state c = Active"
    and plan: "plan_submission lines sources = Inr plan"
    and raw: "admit_submission db_now (submit_job.truncate ?cmd) plan
          (map_of (if reuse \<and> sp_items plan \<noteq> []
                   then reusable_for_team now team (plan_pairs plan) SOURCE_FRESHNESS (sv_queue st) else []))
          (sv_queue st) = Inr (j, db)" and st': "st' = st\<lparr>sv_queue := db\<rparr>"
    using assms by (auto simp: confirm_submission_def guarded_done then_done active_done admit_command_done cong: if_cong)
  define reusable where "reusable = (if reuse \<and> sp_items plan \<noteq> []
     then reusable_for_team now team (plan_pairs plan) SOURCE_FRESHNESS (sv_queue st) else [])"
  have admit: "admit_submission db_now (submit_job.truncate ?cmd) plan (map_of reusable) (sv_queue st) = Inr (j, db)"
    using raw by (simp only: reusable_def)
  obtain new where new: "q_items db = q_items (sv_queue st) @ new" "mset (map item_line new) = plan_content plan"
    and each: "\<And>i. i \<in> set new \<Longrightarrow> it_job i = jb_id j \<and> it_team i = sj_team (submit_job.truncate ?cmd) \<and>
           (it_state i = IPending \<and> it_source i \<noteq> None \<and> map_of reusable (it_document i, the (it_source i)) = None \<or>
            it_state i = IExcluded \<and> it_source i = None \<or>
            it_state i = IPublished \<and> it_source i \<noteq> None \<and> it_entry i \<noteq> None
              \<and> it_entry i = map_of reusable (it_document i, the (it_source i)))"
    using admitted_items [OF admit] by blast
  have own: "reuse \<and> (\<exists>s e. it_source i = Some s \<and> it_entry i = Some e \<and> own_answer now team (sv_queue st) (it_document i) s e)"
    if i: "i \<in> set new" and published: "it_state i = IPublished" for i
  proof -
    obtain s e where "it_source i = Some s" "it_entry i = Some e" "map_of reusable (it_document i, s) = Some e"
      using each [OF i] published by fastforce
    then show ?thesis
      using reusable_own [of now team "plan_pairs plan" "sv_queue st" "it_document i" s e] by (auto simp: reusable_def split: if_splits)
  qed
  have "\<forall>i \<in> set new. it_job i = jb_id j \<and> it_team i = team \<and> admitted_as now team reuse (sv_queue st) i"
  proof
    fix i
    assume i: "i \<in> set new"
    show "it_job i = jb_id j \<and> it_team i = team \<and> admitted_as now team reuse (sv_queue st) i"
      using each [OF i] own [OF i] by (auto simp: submit_job.defs admitted_as_def)
  qed
  then have "\<exists>plan new. plan_submission lines sources = Inr plan \<and> q_items (sv_queue st') = q_items (sv_queue st) @ new \<and>
        mset (map item_line new) = plan_content plan \<and>
        (\<forall>i \<in> set new. it_job i = jb_id j \<and> it_team i = team \<and> admitted_as now team reuse (sv_queue st) i)"
    using plan new st' by (intro exI [of _ plan] exI [of _ new]) simp
  moreover have "jb_team j = team \<and> jb_submitted_by j = actor \<and> jb_credential j = version"
    using admitted_job [OF admit] by (simp add: submit_job.defs)
  moreover have "role_for actor team (pt_db st) = Some TEAM_LEADER"
    using role service_access.leader_law by blast
  ultimately show ?thesis
    using cred by blast
qed

definition team_queue :: queue_db where
  "team_queue =
     run_queue
       [Outside [(102, ''dataimpulse'')] [], Admit 0 (sample_submit\<lparr>sj_team := 7\<rparr>) sample_plan (\<lambda>_. None),
        ClaimMany 10 ''w1'' [''osiptel''] 2 None, Publish 20 (sample_publication 2)] empty_queue"

text \<open>A team with a leader (account 1), a member (account 2), an active connection and one stored answer.\<close>

definition sample_portal :: service_state where
  "sample_portal =
     portal_state.extend ((portal_of duo)\<lparr>pt_credentials := credential_run (take 3 overlapping)\<rparr>)
       (service_state.fields team_queue [] [] [] [] [])"

definition sample_confirmation :: "(service_error + job) \<times> service_state" where
  "sample_confirmation =
     confirm_submission 100 100 1 7 12 ''a.csv'' 103
       [\<lparr>il_ordinal = 1, il_value = ''12345678''\<rparr>, \<lparr>il_ordinal = 2, il_value = ''x''\<rparr>] [''osiptel''] True sample_portal"

lemma sample_confirmation_states:
  "map it_state (q_items (sv_queue (snd sample_confirmation))) = [IPublished, IRunning, IPublished, IExcluded]"
  by code_simp

theorem submission_outcome_witness:
  "\<exists>j st'. sample_confirmation = (Inr j, st') \<and> jb_team j = 7 \<and>
     (\<exists>new. q_items (sv_queue st') = q_items (sv_queue sample_portal) @ new
        \<and> (\<forall>i \<in> set new. it_job i = jb_id j \<and> admitted_as 100 7 True (sv_queue sample_portal) i))"
proof -
  have "case fst sample_confirmation of Inl _ \<Rightarrow> False | Inr _ \<Rightarrow> True"
    by code_simp
  then have "\<exists>j. fst sample_confirmation = Inr j"
    by (cases "fst sample_confirmation") auto
  then obtain j st' where r: "sample_confirmation = (Inr j, st')"
    by (metis prod.collapse)
  from submission_outcome [OF r [unfolded sample_confirmation_def]] r show ?thesis
    by auto
qed

section \<open>Searching\<close>

definition wildcards :: "char set" where
  "wildcards = {CHR ''%'', CHR ''_'', CHR 0x5C}"

lemma like_any: "like [CHR ''%''] s"
  by (induction s) auto

lemma like_prefix: "like (CHR ''%'' # ps) s \<longleftrightarrow> (\<exists>pre post. s = pre @ post \<and> like ps post)"
proof (induction s)
  case Nil
  then show ?case by simp
next
  case (Cons c s)
  have "(\<exists>pre post. c # s = pre @ post \<and> like ps post) \<longleftrightarrow> like ps (c # s) \<or> (\<exists>pre post. s = pre @ post \<and> like ps post)"
    by (auto simp: Cons_eq_append_conv)
  then show ?case using Cons by simp
qed

lemma like_literal: "set n \<inter> wildcards = {} \<Longrightarrow> like (n @ ps) s \<longleftrightarrow> (\<exists>t. s = n @ t \<and> like ps t)"
proof (induction n arbitrary: s)
  case (Cons c n)
  then have "c \<notin> wildcards" "set n \<inter> wildcards = {}" by auto
  then show ?case
    using Cons.IH by (cases s) (auto simp: wildcards_def)
qed simp

lemma like_contains: "set n \<inter> wildcards = {} \<Longrightarrow> like (''%'' @ n @ ''%'') s \<longleftrightarrow> sublist n s"
proof -
  assume n: "set n \<inter> wildcards = {}"
  have "like (''%'' @ n @ ''%'') s \<longleftrightarrow> (\<exists>pre post. s = pre @ post \<and> like (n @ ''%'') post)"
    using like_prefix [of "n @ ''%''" s] by simp
  also have "\<dots> \<longleftrightarrow> (\<exists>pre t. s = pre @ n @ t)"
    using like_literal [OF n] like_any by auto
  finally show ?thesis by (simp add: sublist_def)
qed

lemma lower_wildcard: "lower_char c \<in> wildcards \<Longrightarrow> c \<in> wildcards"
proof -
  assume c: "lower_char c \<in> wildcards"
  show ?thesis
  proof (rule ccontr)
    assume "c \<notin> wildcards"
    then obtain n where n: "n = code_point c" "lower_char c = char_of (n + 32)"
        "(65 \<le> n \<and> n \<le> 90) \<or> (192 \<le> n \<and> n \<le> 222)"
      using c by (auto simp: lower_char_def Let_def split: if_splits)
    have "code_point (lower_char c) = n + 32"
      using n(2,3) by auto
    moreover have "code_point (lower_char c) \<in> code_point ` wildcards"
      using c by blast
    then have "code_point (lower_char c) \<in> {37, 95, 92}"
      by (simp add: wildcards_def)
    ultimately show False
      using n(3) by auto
  qed
qed

lemma matches_contains:
  assumes "set needle \<inter> wildcards = {}"
  shows "document_matches needle e \<longleftrightarrow> sublist (py_lower needle) (py_lower (en_document e))"
proof -
  have "set (py_lower needle) \<inter> wildcards = {}"
    using assms lower_wildcard by (auto simp: py_lower_def)
  moreover have "py_lower (''%'' @ needle @ ''%'') = ''%'' @ py_lower needle @ ''%''"
    by (simp add: py_lower_def lower_char_def)
  ultimately show ?thesis
    using like_contains by (simp add: document_matches_def ilike_def)
qed

lemma set_newest_first [simp]: "set (newest_first es) = set es"
  by (simp add: newest_first_def)

lemma window_Inr: "window limit offset rows = Inr found \<Longrightarrow> found = take (nat limit) (drop (nat offset) rows)"
  by (simp add: window_def split: if_splits)

lemma one_page_Inr:
  assumes "one_page limit offset rows = Inr (found, further)"
  shows "set found \<subseteq> set rows" "length found \<le> nat limit"
proof -
  obtain w where "window (limit + 1) offset rows = Inr w" "found = take (nat limit) w"
    using assms by (auto simp: one_page_def bind_res_Inr_iff)
  then show "set found \<subseteq> set rows" "length found \<le> nat limit"
    using window_Inr [of "limit + 1" offset rows w] by (auto dest: in_set_takeD in_set_dropD)
qed

lemma try_queue_done: "try_queue q st = (Inr x, st') \<longleftrightarrow> st' = st \<and> q (sv_queue st) = Inr x"
  by (auto simp: try_queue_def split: sum.splits)

lemma recorded_done:
  "(case r of Inl e \<Rightarrow> (Inl (Repository e), st) | Inr rows \<Rightarrow> (Inr x, f rows)) = (Inr y, st')
     \<longleftrightarrow> (\<exists>rows. r = Inr rows \<and> x = y \<and> st' = f rows)"
  by (cases r) auto

lemma search_done:
  assumes "search now fresh actor team query page per st = (Inr (found, further), st')" and "py_strip query \<noteq> []"
  shows "one_page per ((page - 1) * per)
      (newest_first (filter (\<lambda>e. document_matches (py_strip query) e \<and> confirmed_by team (sv_queue st) e)
        (q_entries (sv_queue st)))) = Inr (found, further)"
    and "st' = st\<lparr>sv_searches := sv_searches st @ [\<lparr>se_id = fresh, se_team = team, se_actor = actor,
      se_query = py_strip query, se_count = length found, se_created_at = now\<rparr>]\<rparr>"
  using assms
  by (auto simp: search_def guarded_done then_done try_queue_done search_team_def Let_def recorded_done record_search_def
        split: if_splits)

text \<open>C16: A search answers only members of the team and shows only entries that an item of that team names,
  at most a page of them, whose document contains the text searched for (when that has no pattern
  character). Its one effect is a line of the search log with the team, the member, the text and the
  number of entries shown, and a blank text leaves no line.\<close>
theorem search_sees_own_answers:
  assumes "search now fresh actor team query page per st = (Inr (found, further), st')"
  shows "role_for actor team (pt_db st) \<noteq> None \<and>
     (\<forall>e \<in> set found. e \<in> set (q_entries (sv_queue st)) \<and>
        (\<exists>i \<in> set (q_items (sv_queue st)). it_team i = team \<and> it_entry i = Some (en_id e)) \<and>
        (set (py_strip query) \<inter> wildcards = {} \<longrightarrow> sublist (py_lower (py_strip query)) (py_lower (en_document e)))) \<and>
     length found \<le> nat per \<and>
     st' = st\<lparr>sv_searches := sv_searches st @
             (if py_strip query = [] then []
              else [\<lparr>se_id = fresh, se_team = team, se_actor = actor, se_query = py_strip query,
                     se_count = length found, se_created_at = now\<rparr>])\<rparr>"
proof -
  have role: "role_for actor team (pt_db st) \<noteq> None"
    using assms service_access.member_law by (auto simp: search_def guarded_done)
  show ?thesis
  proof (cases "py_strip query = []")
    case True
    then show ?thesis
      using assms role by (auto simp: search_def guarded_done give_def)
  next
    case False
    note page = search_done(1) [OF assms False] and st' = search_done(2) [OF assms False]
    have "e \<in> set (q_entries (sv_queue st)) \<and> confirmed_by team (sv_queue st) e \<and> document_matches (py_strip query) e"
      if "e \<in> set found" for e
      using one_page_Inr(1) [OF page] that by auto
    then show ?thesis
      using st' False role one_page_Inr(2) [OF page] by (auto simp: confirmed_by_def list_ex_iff matches_contains)
  qed
qed

theorem search_sees_own_answers_witness:
  "\<exists>e st'. search 100 5 2 7 '' 1234'' 1 20 sample_portal = (Inr ([e], False), st') \<and> en_document e = ''12345678''
     \<and> sublist ''1234'' (py_lower (en_document e)) \<and> map se_count (sv_searches st') = [1]"
proof -
  have one: "case fst (search 100 5 2 7 '' 1234'' 1 20 sample_portal) of
      Inr ([e], False) \<Rightarrow> en_document e = ''12345678'' | _ \<Rightarrow> False"
    by code_simp
  then obtain e where "fst (search 100 5 2 7 '' 1234'' 1 20 sample_portal) = Inr ([e], False)" and d: "en_document e = ''12345678''"
    by (auto split: sum.splits prod.splits list.splits bool.splits)
  then obtain st' where r: "search 100 5 2 7 '' 1234'' 1 20 sample_portal = (Inr ([e], False), st')"
    by (metis prod.collapse)
  have q: "py_strip '' 1234'' = ''1234''" "py_lower ''1234'' = ''1234''" and none: "sv_searches sample_portal = []"
    by code_simp+
  show ?thesis
    using search_sees_own_answers [OF r] r d q none by (auto simp: wildcards_def)
qed

definition own_matches :: "uuid \<Rightarrow> pystr \<Rightarrow> queue_db \<Rightarrow> entry list" where
  "own_matches team needle db =
     newest_first (filter (\<lambda>e. document_matches needle e \<and> confirmed_by team db e) (q_entries db))"

lemma one_page_slice:
  assumes "1 \<le> p" and "int (p * per) < INT64_MAX"
  shows "one_page (int per) ((int p - 1) * int per) rows
     = Inr (take per (drop ((p - 1) * per) rows), p * per < length rows)"
proof -
  have off: "(int p - 1) * int per = int ((p - 1) * per)"
    using assms(1) by (simp add: of_nat_diff)
  have "per \<le> p * per" "(p - 1) * per \<le> p * per"
    using assms(1) by (cases p; simp)+
  then have bounds: "int per + 1 \<le> INT64_MAX" "int ((p - 1) * per) \<le> INT64_MAX"
    using assms(2) by linarith+
  have size: "length (take (Suc per) (drop ((p - 1) * per) rows)) > per \<longleftrightarrow> p * per < length rows"
    using assms(1) by (cases p) (auto simp: min_def)
  have "nat (int per + 1) = Suc per" by simp
  then have w: "window (int per + 1) (int ((p - 1) * per)) rows = Inr (take (Suc per) (drop ((p - 1) * per) rows))"
    using bounds by (simp add: window_def INT64_MAX_def del: of_nat_mult)
  show ?thesis
    unfolding off one_page_def w bind_res_simps using size by (simp add: min_def)
qed

lemma slices_concat: "concat (map (\<lambda>p. take per (drop ((p - 1) * per) rows)) [1..<n + 1]) = take (n * per) rows"
proof (induction n)
  case (Suc n)
  then show ?case
    by (simp add: take_add [symmetric] add.commute)
qed simp

lemma own_matches_size:
  assumes "newest_order order (filter (\<lambda>e. document_matches needle e \<and> confirmed_by team db e) (q_entries db))"
  shows "length (order (filter (\<lambda>e. document_matches needle e \<and> confirmed_by team db e) (q_entries db)))
     = length (own_matches team needle db)"
  using assms newest_first_orders by (metis mset_eq_length newest_order_def own_matches_def)

lemma search_team_slice:
  assumes "1 \<le> p" and "int (p * per) < INT64_MAX"
    and "newest_order order (filter (\<lambda>e. document_matches needle e \<and> confirmed_by team db e) (q_entries db))"
  shows "search_team_in order team needle (int per) ((int p - 1) * int per) db
     = Inr (take per (drop ((p - 1) * per) (order (filter (\<lambda>e. document_matches needle e \<and> confirmed_by team db e) (q_entries db)))),
            p * per < length (own_matches team needle db))"
  using one_page_slice [OF assms(1,2)] own_matches_size [OF assms(3)] by (simp add: search_team_in_def)

text \<open>C36: The pages of a search over one state of the database, with any size and as many of them as hold all
  matches and keep the offset inside the range of the database's integers: whatever order the database gives
  rows that tie, anew for every page, no page fails, each has its share of the number of matches, and a page
  announces a next one exactly when matches are left. If no two matches were confirmed at the same instant, the
  pages put one after the other are exactly the entries of the team that match, the most recently confirmed
  first.\<close>
theorem search_pages_complete:
  assumes "int (n * per) < INT64_MAX" and "length (own_matches team needle db) \<le> n * per"
    and "\<forall>p. newest_order (order p) (filter (\<lambda>e. document_matches needle e \<and> confirmed_by team db e) (q_entries db))"
  shows "\<exists>pages. map (\<lambda>p. search_team_in (order p) team needle (int per) ((int p - 1) * int per) db) [1..<n + 1] = map Inr pages
     \<and> map (\<lambda>page. length (fst page)) pages = map (\<lambda>p. min per (length (own_matches team needle db) - (p - 1) * per)) [1..<n + 1]
     \<and> map snd pages = map (\<lambda>p. p * per < length (own_matches team needle db)) [1..<n + 1]
     \<and> (distinct (map en_confirmed (own_matches team needle db)) \<longrightarrow> concat (map fst pages) = own_matches team needle db)"
proof -
  let ?es = "filter (\<lambda>e. document_matches needle e \<and> confirmed_by team db e) (q_entries db)"
  let ?ms = "own_matches team needle db"
  let ?pages = "map (\<lambda>p. (take per (drop ((p - 1) * per) (order p ?es)), p * per < length ?ms)) [1..<n + 1]"
  have "search_team_in (order p) team needle (int per) ((int p - 1) * int per) db
      = Inr (take per (drop ((p - 1) * per) (order p ?es)), p * per < length ?ms)" if "p \<in> set [1..<n + 1]" for p
  proof -
    have "p * per \<le> n * per" using that by (auto intro: mult_le_mono1)
    then have "int (p * per) < INT64_MAX" using assms(1) by linarith
    moreover have "1 \<le> p" using that by (simp only: set_upt atLeastLessThan_iff)
    ultimately show ?thesis
      using search_team_slice assms(3) by blast
  qed
  then have run: "map (\<lambda>p. search_team_in (order p) team needle (int per) ((int p - 1) * int per) db) [1..<n + 1] = map Inr ?pages"
    by (simp only: map_map comp_def) (rule map_cong; simp)
  have sizes: "map (\<lambda>page. length (fst page)) ?pages = map (\<lambda>p. min per (length ?ms - (p - 1) * per)) [1..<n + 1]"
    using own_matches_size assms(3) by (simp add: min.commute)
  have all: "concat (map fst ?pages) = ?ms" if "distinct (map en_confirmed ?ms)"
  proof -
    have "distinct (map en_confirmed ?es)"
      using that newest_first_orders [of ?es] unfolding own_matches_def newest_order_def
      by (metis mset_eq_imp_distinct_iff mset_map)
    then have "order p ?es = ?ms" for p
      using newest_order_unique assms(3) by (simp add: own_matches_def)
    then show ?thesis
      using slices_concat [of per ?ms n] assms(2) by (simp only: map_map comp_def fst_conv take_all)
  qed
  have "map snd ?pages = map (\<lambda>p. p * per < length ?ms) [1..<n + 1]"
    by (simp only: map_map comp_def snd_conv)
  then show ?thesis
    using run sizes all by (intro exI [of _ ?pages] conjI impI)
qed

theorem search_pages_complete_witness:
  "\<exists>pages. map (\<lambda>p. search_team_in newest_first 7 ''1234'' (int 1) ((int p - 1) * int 1) team_queue) [1..<2 + 1] = map Inr pages
     \<and> map snd pages = [False, False] \<and> length (concat (map fst pages)) = 1"
proof -
  have one: "length (own_matches 7 ''1234'' team_queue) = 1"
    by code_simp
  then have "distinct (map en_confirmed (own_matches 7 ''1234'' team_queue))"
    by (auto simp: length_Suc_conv)
  then obtain pages where "map (\<lambda>p. search_team_in newest_first 7 ''1234'' (int 1) ((int p - 1) * int 1) team_queue) [1..<2 + 1] = map Inr pages"
    and "concat (map fst pages) = own_matches 7 ''1234'' team_queue"
    and "map snd pages = map (\<lambda>p. p * 1 < length (own_matches 7 ''1234'' team_queue)) [1..<2 + 1]"
    using search_pages_complete [of 2 1 7 "''1234''" team_queue "\<lambda>_. newest_first"] one newest_first_orders
    by (auto simp: INT64_MAX_def)
  then show ?thesis
    using one by (intro exI [of _ pages]) (simp add: upt_rec)
qed

text \<open>
  The text of a user goes into the pattern as it is: a percent sign or an underscore matches every document.
  A page number past the range of the database's integers is an error of the driver, not an empty page.
\<close>

lemma percent_lists_everything: "document_matches ''%'' e"
proof -
  have "like ''%%%'' s" for s
    using like_prefix [of "''%%''" s] like_prefix [of "''%''" s] like_any by (metis append_Nil)
  moreover have "py_lower ''%%%'' = ''%%%''"
    by (simp add: py_lower_def lower_char_def)
  ultimately show ?thesis
    by (simp only: document_matches_def ilike_def append.simps)
qed

lemma huge_page_raises: "search_team team needle 20 ((10 ^ 18 - 1) * 20) db = Inl DATA_ERROR"
  by (simp add: search_team_def one_page_def window_def INT64_MAX_def)

section \<open>Uploads\<close>

lemma find_snoc: "\<forall>x \<in> set xs. \<not> P x \<Longrightarrow> List.find P (xs @ [y]) = (if P y then Some y else None)"
  by (induction xs) auto

text \<open>C37: A stored upload is there for the leaders of its team and of no other: its reference is found under the
  team, and whatever is stored afterwards, in whatever order and with whatever failures of the storage,
  opening it gives the bytes that were uploaded.\<close>
theorem upload_read_back:
  assumes "store_upload env actor team content ctype st = (Inr r, st')" and "net (GetObject (storage_key r)) = None"
  shows "role_for actor team (pt_db st) = Some TEAM_LEADER \<and>
     object_reference_for (rf_id r) team (sv_objects st') = Some r \<and>
     (\<forall>other. other \<noteq> team \<longrightarrow> object_reference_for (rf_id r) other (sv_objects st') = None) \<and>
     open_object net r (foldl (put_step sha256) (sv_bucket st') later) = Inr content"
proof -
  let ?r = "upload_reference env team content ctype"
  have role: "role_for actor team (pt_db st) = Some TEAM_LEADER"
    using assms(1) service_access.leader_law by (auto simp: store_upload_def guarded_done)
  obtain b rows where put: "put_immutable (up_sha256 env) (up_net env) ?r content (sv_bucket st) = Inr b"
    and add: "add_object_reference ?r (pt_db st) (sv_objects st) = Inr rows"
    and r: "r = ?r" and st': "sv_bucket st' = b" "sv_objects st' = rows"
    using assms(1) by (auto simp: store_upload_def guarded_done Let_def split: sum.splits)
  have "rows = sv_objects st @ [?r]" and "rf_id ?r \<notin> rf_id ` set (sv_objects st)"
    using add by (auto simp: add_object_reference_def split: if_splits)
  then have rows: "rows = sv_objects st @ [?r]" "\<forall>q \<in> set (sv_objects st). rf_id q \<noteq> rf_id ?r"
    by (metis image_eqI)+
  have "map_of (foldl (put_step sha256) b later) (storage_key ?r) = Some content"
    by (rule put_steps_keep) (rule put_immutable_get(1) [OF put])
  moreover have "rf_team ?r = team"
    by (simp add: upload_reference_def)
  ultimately show ?thesis
    using role rows assms(2) unfolding r st' by (simp add: object_reference_for_def find_snoc open_object_def get_object_def)
qed

definition sample_upload :: upload_env where
  "sample_upload = \<lparr>up_id = 55, up_name = ''u'', up_sha256 = (\<lambda>_. replicate 64 CHR ''0''), up_net = (\<lambda>_. None)\<rparr>"

theorem upload_read_back_witness:
  "\<exists>r st'. store_upload sample_upload 1 7 ''12345678'' ''text/csv'' sample_portal = (Inr r, st')
     \<and> open_object (\<lambda>_. None) r (foldl (put_step (\<lambda>_. [])) (sv_bucket st') []) = Inr ''12345678''"
proof -
  have "case fst (store_upload sample_upload 1 7 ''12345678'' ''text/csv'' sample_portal) of Inl _ \<Rightarrow> False | Inr _ \<Rightarrow> True"
    by code_simp
  then have "\<exists>r. fst (store_upload sample_upload 1 7 ''12345678'' ''text/csv'' sample_portal) = Inr r"
    by (auto split: sum.splits)
  then obtain r st' where r: "store_upload sample_upload 1 7 ''12345678'' ''text/csv'' sample_portal = (Inr r, st')"
    by (metis prod.collapse)
  from upload_read_back [OF r, of "\<lambda>_. None" "\<lambda>_. []" "[]"] r show ?thesis by auto
qed

theorem calls_need_standing_witness:
  "\<forall>env. (\<exists>e. run_call env 3 (CancelCall 7 1) sample_portal = (Inl e, sample_portal)) \<and>
     (\<exists>e. run_call env 3 HealthCall sample_portal = (Inl e, sample_portal))"
proof -
  have "\<not> stands (needed (CancelCall 7 1)) 3 (pt_db sample_portal)" "\<not> stands (needed HealthCall) 3 (pt_db sample_portal)"
    by code_simp+
  then show ?thesis using calls_need_standing by blast
qed

end
