(* ===== verification/JobPages.thy ===== *)
theory JobPages
  imports Service
begin

text \<open>
  What the job pages compute (\<open>portal/web/routes/jobs.py\<close>): the download of a job's results as a CSV, its
  file name, and the review of a submission by source. Cells of a stored row are texts, integers and
  booleans, which is what a worker may publish; a null is written as an empty field.
\<close>

section \<open>Labels\<close>

fun item_state_label :: "item_state \<Rightarrow> pystr" where
  "item_state_label IPending = ''Pendiente''"
| "item_state_label IRunning = ''En ejecuci'' @ [CHR 0xF3] @ ''n''"
| "item_state_label IPublished = ''Publicado''"
| "item_state_label IExcluded = ''Excluido''"
| "item_state_label IFailed = ''Con error''"
| "item_state_label ICancelled = ''Cancelado''"

definition entry_status_label :: "pystr \<Rightarrow> pystr" where
  "entry_status_label status =
     (if status = ''ok'' then ''Encontrado'' else if status = ''not_found'' then ''No encontrado''
      else if status = ''failed'' then ''Con error'' else status)"

section \<open>Results\<close>

type_synonym result = "item \<times> found_entry option"

definition RESULT_HEADER :: "pystr list" where
  "RESULT_HEADER = [''Documento'', ''Fuente'', ''Estado'', ''Resultado'']"

text \<open>The rows of the database as the page gets them, None when a stored row cannot be decoded.\<close>

definition read_results :: "(item \<times> entry option) list \<Rightarrow> result list option" where
  "read_results rows =
     those (map (\<lambda>(i, e). case e of None \<Rightarrow> Some (i, None) | Some e \<Rightarrow> map_option (\<lambda>f. (i, Some f)) (entry_row e)) rows)"

definition add_column :: "pystr list \<Rightarrow> pystr \<Rightarrow> pystr list" where
  "add_column columns c = (if c \<in> set columns then columns else columns @ [c])"

definition entry_columns :: "result \<Rightarrow> pystr list" where
  "entry_columns r = (case snd r of None \<Rightarrow> [] | Some e \<Rightarrow> fe_columns e)"

text \<open>The columns of all entries, in the order they are first seen.\<close>

definition result_columns :: "result list \<Rightarrow> pystr list" where
  "result_columns results = foldl add_column [] (concat (map entry_columns results))"

definition cell_text :: "json \<Rightarrow> pystr" where
  "cell_text v = (case json_cell v of None \<Rightarrow> [] | Some c \<Rightarrow> cell_str c)"

definition STRICT_ZIP :: exn where
  "STRICT_ZIP = raise_exn (BuiltinError ''ValueError'') ''zip() arguments have different lengths''"

text \<open>\<open>dict(zip(columns, row, strict=True))\<close>: a repeated column keeps its last cell.\<close>

definition row_values :: "pystr list \<Rightarrow> json list \<Rightarrow> exn + (pystr \<Rightarrow> json option)" where
  "row_values columns row =
     (if length columns \<noteq> length row then Inl STRICT_ZIP else Inr (map_of (rev (zip columns row))))"

definition result_prefix :: "item \<Rightarrow> pystr list" where
  "result_prefix i = [it_document i, source_text i, item_state_label (it_state i)]"

definition result_lines :: "pystr list \<Rightarrow> result \<Rightarrow> exn + pystr list list" where
  "result_lines columns r =
     (case r of
        (i, None) \<Rightarrow> Inr [result_prefix i @ [] # map (\<lambda>_. []) columns]
      | (i, Some e) \<Rightarrow>
          if fe_rows e = [] then Inr [result_prefix i @ [] # map (\<lambda>_. []) columns]
          else
            map_res (\<lambda>row. bind_res (row_values (fe_columns e) row) (\<lambda>values.
              Inr (result_prefix i @ entry_status_label (fe_status e)
                   # map (\<lambda>c. case values c of None \<Rightarrow> [] | Some v \<Rightarrow> cell_text v) columns))) (fe_rows e))"

definition result_table :: "result list \<Rightarrow> exn + pystr list list" where
  "result_table results =
     (let columns = result_columns results
      in bind_res (map_res (result_lines columns) results)
           (\<lambda>tables. Inr ((RESULT_HEADER @ columns) # concat tables)))"

text \<open>\<open>csv.writer\<close> with its default line terminator.\<close>

definition csv_line :: "pystr list \<Rightarrow> pystr" where
  "csv_line r = (if r = [[]] then [dquote, dquote] else py_join '','' (map write_field r)) @ [carriage, newline]"

definition results_csv :: "result list \<Rightarrow> exn + pystr" where
  "results_csv results = bind_res (result_table results) (\<lambda>rows. Inr (concat (map csv_line rows)))"

section \<open>File name\<close>

definition safe_char :: "char \<Rightarrow> bool" where
  "safe_char c \<longleftrightarrow> (let n = code_point c in (65 \<le> n \<and> n \<le> 90) \<or> (97 \<le> n \<and> n \<le> 122) \<or> (48 \<le> n \<and> n \<le> 57))
     \<or> c = CHR ''.'' \<or> c = CHR ''_'' \<or> c = CHR ''-''"

text \<open>Every longest run of unsafe characters becomes one underscore; the flag says whether a run goes on.\<close>

fun sub_unsafe :: "bool \<Rightarrow> pystr \<Rightarrow> pystr" where
  "sub_unsafe run [] = []"
| "sub_unsafe run (c # s) =
     (if safe_char c then c # sub_unsafe False s
      else if run then sub_unsafe True s else CHR ''_'' # sub_unsafe True s)"

definition strip_underscores :: "pystr \<Rightarrow> pystr" where
  "strip_underscores s = rev (dropWhile (\<lambda>c. c = CHR ''_'') (rev (dropWhile (\<lambda>c. c = CHR ''_'') s)))"

definition or_task :: "pystr \<Rightarrow> pystr" where
  "or_task s = (if s = [] then ''tarea'' else s)"

definition download_filename :: "pystr \<Rightarrow> pystr" where
  "download_filename job_filename =
     (let stem = or_task (fst (split_suffix (path_name job_filename)));
          safe = or_task (strip_underscores (sub_unsafe False stem))
      in take 80 safe @ ''-resultados.csv'')"

section \<open>Review by source\<close>

definition SOURCE_NAMES :: "(pystr \<times> pystr) list" where
  "SOURCE_NAMES = [(''osiptel'', ''L'' @ [CHR 0xED] @ ''neas m'' @ [CHR 0xF3] @ ''viles'')]"

record source_review =
  rv_source :: pystr
  rv_name :: pystr
  rv_total :: nat
  rv_reusable :: nat

definition review_by_source :: "submission_review \<Rightarrow> source_review list" where
  "review_by_source review =
     (let reusable = map item_pair (sr_reusable review);
          count = (\<lambda>P s. length (filter (\<lambda>i. pi_source i = s \<and> P i) (sr_items review)))
      in map (\<lambda>s. \<lparr>rv_source = s, rv_name = (case map_of SOURCE_NAMES s of None \<Rightarrow> s | Some n \<Rightarrow> n),
                    rv_total = count (\<lambda>_. True) s, rv_reusable = count (\<lambda>i. item_pair i \<in> set reusable) s\<rparr>)
           (foldl add_column [] (map pi_source (sr_items review))))"

section \<open>What a download holds\<close>

lemma csv_parse_field_end:
  assumes "st = START_FIELD \<or> (st = START_RECORD \<and> fs = [] \<and> g \<noteq> [])"
  shows "csv_parse st fs [] (write_field g @ carriage # newline # s) = (fs @ [g]) # csv_reader s"
proof (cases "needs_quotes g")
  case True
  have "csv_parse st fs [] (quote_field g @ carriage # newline # s)
      = csv_parse QUOTE_IN_QUOTED_FIELD fs g (carriage # newline # s)"
    using assms csv_parse_quoted_body [of fs "[]" g "carriage # newline # s"] by (auto simp: quote_field_def Let_def)
  then show ?thesis using True by (simp add: write_field_def csv_reader_def Let_def)
next
  case False
  then show ?thesis
    using assms csv_parse_plain [of "tl g" fs "[hd g]" "carriage # newline # s"]
    by (cases g) (auto simp: write_field_def needs_quotes_def csv_reader_def Let_def)
qed

lemma csv_parse_line:
  assumes "r \<noteq> []" "st = START_FIELD \<or> (st = START_RECORD \<and> fs = [] \<and> r \<noteq> [[]])"
  shows "csv_parse st fs [] (py_join '','' (map write_field r) @ carriage # newline # s) = (fs @ r) # csv_reader s"
  using assms
proof (induction r arbitrary: st fs)
  case (Cons g r)
  show ?case
  proof (cases r)
    case Nil
    then show ?thesis using Cons.prems csv_parse_field_end [of st fs g s] by auto
  next
    case (Cons h r')
    then show ?thesis
      using Cons.IH [of START_FIELD "fs @ [g]"] Cons.prems csv_parse_field_comma [of st fs g] by auto
  qed
qed simp

lemma csv_reader_line: "csv_reader (csv_line r @ s) = r # csv_reader s"
proof -
  consider "r = []" | "r = [[]]" | "r \<noteq> []" "r \<noteq> [[]]" by blast
  then show ?thesis
  proof cases
    case 3
    then show ?thesis
      using csv_parse_line [of r START_RECORD "[]" s] by (simp add: csv_line_def csv_reader_def)
  qed (simp_all add: csv_line_def csv_reader_def Let_def)
qed

lemma csv_reader_lines: "csv_reader (concat (map csv_line rows)) = rows"
  by (induction rows) (simp_all add: csv_reader_line, simp add: csv_reader_def)

lemma add_columns: "distinct acc \<Longrightarrow> distinct (foldl add_column acc cs) \<and> set (foldl add_column acc cs) = set acc \<union> set cs"
proof (induction cs arbitrary: acc)
  case (Cons c cs)
  then have "distinct (add_column acc c)" by (auto simp: add_column_def)
  from Cons.IH [OF this] show ?case by (auto simp: add_column_def)
qed simp

lemma result_columns_set: "distinct (result_columns results)"
  "set (result_columns results) = (\<Union>r \<in> set results. set (entry_columns r))"
  using add_columns [of "[]" "concat (map entry_columns results)"] by (simp_all add: result_columns_def)

text \<open>A line of the download, read by the header, shows a stored row of an entry.\<close>

definition shows_row :: "pystr list \<Rightarrow> found_entry \<Rightarrow> json list \<Rightarrow> pystr list \<Rightarrow> bool" where
  "shows_row columns e row l \<longleftrightarrow>
     l ! 3 = entry_status_label (fe_status e) \<and> length row = length (fe_columns e) \<and>
     (distinct (fe_columns e) \<longrightarrow>
        (\<forall>(c, v) \<in> set (zip (fe_columns e) row). map_of (zip columns (drop 4 l)) c = Some (cell_text v)))"

definition shows_result :: "pystr list \<Rightarrow> result \<Rightarrow> pystr list list \<Rightarrow> bool" where
  "shows_result columns r lines \<longleftrightarrow>
     (\<forall>l \<in> set lines. length l = 4 + length columns \<and> take 3 l = result_prefix (fst r)) \<and>
     (case snd r of
        None \<Rightarrow> length lines = 1
      | Some e \<Rightarrow> if fe_rows e = [] then length lines = 1 else list_all2 (shows_row columns e) (fe_rows e) lines)"

lemma map_of_zip_map: "c \<in> set cs \<Longrightarrow> map_of (zip cs (map f cs)) c = Some (f c)"
  by (induction cs) auto

lemma map_of_rev_zip:
  assumes "distinct cs" and "length cs = length vs" and "(c, v) \<in> set (zip cs vs)"
  shows "map_of (rev (zip cs vs)) c = Some v"
proof -
  have "distinct (map fst (rev (zip cs vs)))"
    using assms(1,2) by (simp add: rev_map [symmetric] distinct_rev)
  then show ?thesis
    using assms(3) by (simp add: map_of_is_SomeI)
qed

lemma result_lines_show:
  assumes "result_lines columns r = Inr lines" and "set (entry_columns r) \<subseteq> set columns"
  shows "shows_result columns r lines"
proof (cases r)
  case (Pair i found)
  show ?thesis
  proof (cases found)
    case None
    then show ?thesis using assms(1) Pair by (auto simp: result_lines_def shows_result_def result_prefix_def)
  next
    case (Some e)
    show ?thesis
    proof (cases "fe_rows e = []")
      case True
      then show ?thesis using assms(1) Pair Some by (auto simp: result_lines_def shows_result_def result_prefix_def)
    next
      case False
      let ?line = "\<lambda>vals. result_prefix i @ entry_status_label (fe_status e)
                   # map (\<lambda>c. case vals c of None \<Rightarrow> [] | Some v \<Rightarrow> cell_text v) columns"
      have each: "list_all2 (\<lambda>row l. \<exists>vals. row_values (fe_columns e) row = Inr vals \<and> l = ?line vals) (fe_rows e) lines"
        using assms(1) Pair Some False
        by (auto simp: result_lines_def map_res_Inr_iff bind_res_Inr_iff elim!: list_all2_mono)
      have cols: "set (fe_columns e) \<subseteq> set columns"
        using assms(2) Pair Some by (simp add: entry_columns_def)
      have "shows_row columns e row l" if r: "row_values (fe_columns e) row = Inr vals" and l: "l = ?line vals" for row l vals
      proof -
        have len: "length (fe_columns e) = length row" and v: "vals = map_of (rev (zip (fe_columns e) row))"
          using r by (auto simp: row_values_def split: if_splits)
        have "map_of (zip columns (drop 4 l)) c = Some (cell_text x)"
          if "distinct (fe_columns e)" and "(c, x) \<in> set (zip (fe_columns e) row)" for c x
        proof -
          have "vals c = Some x" using map_of_rev_zip [OF that(1) len that(2)] v by simp
          moreover have "c \<in> set columns" using that(2) cols by (auto dest: set_zip_leftD)
          ultimately show ?thesis
            by (simp add: l result_prefix_def map_of_zip_map)
        qed
        then show ?thesis
          using len by (auto simp: shows_row_def l result_prefix_def)
      qed
      then have "list_all2 (shows_row columns e) (fe_rows e) lines"
        using each by (auto elim!: list_all2_mono)
      moreover have "length l = 4 + length columns \<and> take 3 l = result_prefix i" if "l \<in> set lines" for l
        using each that by (auto simp: list_all2_conv_all_nth in_set_conv_nth result_prefix_def)
      ultimately show ?thesis
        using Pair Some False by (simp add: shows_result_def)
    qed
  qed
qed

text \<open>C38: The downloaded CSV reads back as a table: a header with the columns of all entries, each once, and
  for every item of the job, in order, lines that start with its document, source and state. An item without an
  answer has one line, an item with stored rows one line per row, in which each cell stands under its column;
  all lines have the width of the header.\<close>
theorem results_csv_readable:
  assumes "results_csv results = Inr content"
  shows "\<exists>tables. csv_reader content = (RESULT_HEADER @ result_columns results) # concat tables
     \<and> distinct (result_columns results)
     \<and> list_all2 (shows_result (result_columns results)) results tables"
proof -
  obtain tables where tables: "map_res (result_lines (result_columns results)) results = Inr tables"
    and content: "content = concat (map csv_line ((RESULT_HEADER @ result_columns results) # concat tables))"
    using assms by (auto simp: results_csv_def result_table_def bind_res_Inr_iff Let_def)
  have "list_all2 (shows_result (result_columns results)) results tables"
    using tables result_columns_set(2) [of results]
    by (auto simp: map_res_Inr_iff list_all2_conv_all_nth intro!: result_lines_show)
  then show ?thesis
    using csv_reader_lines result_columns_set(1) content by metis
qed

definition sample_results :: "result list" where
  "sample_results =
     [((blank_item 1 2 3 1 ''12345678'')\<lparr>it_source := Some ''osiptel'', it_state := IPublished\<rparr>,
       Some \<lparr>fe_id = 9, fe_document = ''12345678'', fe_source = ''osiptel'', fe_status = ''ok'',
             fe_columns = [''modalidad'', ''operador''],
             fe_rows = [[JStr ''Postpago'', JStr ''A,B''], [JStr ''Prepago'', JInt 7]], fe_error_code = None,
             fe_first_seen = 0, fe_confirmed = 0\<rparr>),
      ((blank_item 4 2 3 2 ''87654321'')\<lparr>it_source := Some ''osiptel'', it_state := IPending\<rparr>, None)]"

theorem results_csv_readable_witness:
  "\<exists>content tables. results_csv sample_results = Inr content
     \<and> csv_reader content = (RESULT_HEADER @ [''modalidad'', ''operador'']) # concat tables \<and> map length tables = [2, 1]"
proof -
  have "case results_csv sample_results of Inl _ \<Rightarrow> False | Inr _ \<Rightarrow> True"
    by code_simp
  then obtain content where c: "results_csv sample_results = Inr content"
    by (auto split: sum.splits)
  have cols: "result_columns sample_results = [''modalidad'', ''operador'']"
    by code_simp
  obtain tables where "csv_reader content = (RESULT_HEADER @ result_columns sample_results) # concat tables"
    and "list_all2 (shows_result (result_columns sample_results)) sample_results tables"
    using results_csv_readable [OF c] by blast
  moreover from this(2) have "map length tables = [2, 1]"
    by (auto simp: sample_results_def list_all2_Cons1 shows_result_def dest: list_all2_lengthD)
  ultimately show ?thesis
    using c cols by auto
qed

section \<open>File names\<close>

lemma sub_unsafe_safe: "c \<in> set (sub_unsafe run s) \<Longrightarrow> safe_char c"
  by (induction run s rule: sub_unsafe.induct) (auto simp: safe_char_def split: if_splits)

lemma strip_underscores_subset: "set (strip_underscores s) \<subseteq> set s"
proof -
  have "set (dropWhile P xs) \<subseteq> set xs" for P :: "char \<Rightarrow> bool" and xs
    by (auto dest: set_dropWhileD)
  then show ?thesis
    unfolding strip_underscores_def set_rev by (metis order_trans set_rev)
qed

text \<open>The file name of a download has only ASCII letters, digits, dots, underscores and hyphens, whatever
  the name of the uploaded file was, at least one before its fixed ending and at most 95 in all: it cannot
  break out of the quotes of the response header.\<close>
theorem download_filename_safe:
  "\<exists>name. download_filename f = name @ ''-resultados.csv'' \<and> name \<noteq> [] \<and> length name \<le> 80 \<and> list_all safe_char name"
proof -
  let ?safe = "or_task (strip_underscores (sub_unsafe False (or_task (fst (split_suffix (path_name f))))))"
  have "list_all safe_char ?safe"
    using sub_unsafe_safe strip_underscores_subset by (fastforce simp: or_task_def list_all_iff safe_char_def)
  then have "list_all safe_char (take 80 ?safe)"
    by (auto simp: list_all_iff dest: in_set_takeD)
  moreover have "take 80 ?safe \<noteq> []"
    by (simp add: or_task_def)
  ultimately show ?thesis
    by (intro exI [of _ "take 80 ?safe"]) (simp add: download_filename_def Let_def)
qed

end
