(* ===== verification/Observations.thy ===== *)
theory Observations
  imports Domain Csv Json Wire
begin

text \<open>
  The table of observations a browser or capture run keeps (\<open>browser/store.py\<close>; \<open>capture/store.py\<close> has the
  same table with its subject column named \<open>ruc\<close>). Rows are only ever appended, so a new identifier is the
  number of rows plus one. The payload of a success is the compact JSON of its columns.
\<close>

type_synonym columns = "(pystr \<times> pystr) list"

record observation =
  os_id :: nat
  os_run :: pystr
  os_site :: pystr
  os_subject :: pystr
  os_status :: pystr
  os_payload :: pystr
  os_detail :: pystr
  os_at :: pystr

type_synonym observations = "observation list"

definition columns_text :: "columns \<Rightarrow> pystr" where
  "columns_text cols = dumps_compact (JObj (map (\<lambda>(k, v). (k, JStr v)) cols))"

definition text_columns :: "pystr \<Rightarrow> columns option" where
  "text_columns payload =
     (case loads payload of
        Some (JObj kvs) \<Rightarrow> those (map (\<lambda>(k, v). case v of JStr s \<Rightarrow> Some (k, s) | _ \<Rightarrow> None) kvs)
      | _ \<Rightarrow> None)"

definition record_success ::
  "pystr \<Rightarrow> pystr \<Rightarrow> pystr \<Rightarrow> columns \<Rightarrow> pystr \<Rightarrow> observations \<Rightarrow> observations" where
  "record_success run_id site subject cols now db =
     db @ [\<lparr>os_id = length db + 1, os_run = run_id, os_site = site, os_subject = subject, os_status = ''ok'',
            os_payload = columns_text cols, os_detail = [], os_at = now\<rparr>]"

definition record_failure ::
  "pystr \<Rightarrow> pystr \<Rightarrow> pystr \<Rightarrow> pystr \<Rightarrow> pystr \<Rightarrow> pystr \<Rightarrow> observations \<Rightarrow> exn + observations" where
  "record_failure run_id site subject status detail now db =
     (if status \<notin> {''rejected'', ''failed''} then Inl (raise_exn ValueError (''invalid failure status: '' @ status))
      else Inr (db @ [\<lparr>os_id = length db + 1, os_run = run_id, os_site = site, os_subject = subject,
            os_status = status, os_payload = ''{}'', os_detail = detail, os_at = now\<rparr>]))"

definition success_of :: "pystr \<Rightarrow> observation \<Rightarrow> bool" where
  "success_of site r \<longleftrightarrow> os_site r = site \<and> os_status r = ''ok''"

definition done_subjects :: "pystr \<Rightarrow> observations \<Rightarrow> pystr list" where
  "done_subjects site db = remdups (map os_subject (filter (success_of site) db))"

definition latest_row :: "pystr \<Rightarrow> pystr \<Rightarrow> observations \<Rightarrow> observation option" where
  "latest_row site subject db = List.find (\<lambda>r. success_of site r \<and> os_subject r = subject) (rev (sort_key os_id db))"

text \<open>None when no success is stored; the inner option is None when its payload does not decode.\<close>

definition latest :: "pystr \<Rightarrow> pystr \<Rightarrow> observations \<Rightarrow> columns option option" where
  "latest site subject db = map_option (\<lambda>r. text_columns (os_payload r)) (latest_row site subject db)"

text \<open>The newest success of every subject, ordered by subject.\<close>

definition latest_success :: "pystr \<Rightarrow> observations \<Rightarrow> observation list" where
  "latest_success site db =
     sort_key os_subject (filter (\<lambda>r. success_of site r \<and>
        list_all (\<lambda>q. success_of site q \<and> os_subject q = os_subject r \<longrightarrow> os_id q \<le> os_id r) db) db)"

text \<open>The file a run leaves: None when a payload or a row cannot be made.\<close>

definition export_current ::
  "pystr \<Rightarrow> pystr list \<Rightarrow> (pystr \<Rightarrow> columns \<Rightarrow> pystr \<Rightarrow> pystr list list option) \<Rightarrow> observations \<Rightarrow> pystr option" where
  "export_current site header project db =
     map_option (\<lambda>tables. csv_writerows (header # concat tables))
       (those (map (\<lambda>r. case text_columns (os_payload r) of
                          None \<Rightarrow> None
                        | Some cols \<Rightarrow> project (os_subject r) cols (os_at r)) (latest_success site db)))"

text \<open>What leaves an export that finds a stored row without a column it needs.\<close>

definition EXPORT_ERROR :: exn where
  "EXPORT_ERROR = raise_exn (BuiltinError ''KeyError'') []"

definition observation_count :: "observations \<Rightarrow> nat" where
  "observation_count db = length db"

section \<open>Facts\<close>

lemma done_subjects_set: "set (done_subjects site db) = os_subject ` {r \<in> set db. success_of site r}"
  by (auto simp: done_subjects_def)

lemma done_after_success [simp]:
  "set (done_subjects site (record_success run site subject cols now db)) = insert subject (set (done_subjects site db))"
  by (simp add: done_subjects_def record_success_def success_of_def)

lemma done_after_failure:
  "record_failure run site' subject st detail now db = Inr db' \<Longrightarrow> set (done_subjects site db') = set (done_subjects site db)"
  by (auto simp: done_subjects_def record_failure_def success_of_def split: if_splits)

lemma latest_none: "latest site subject db = None \<longleftrightarrow> subject \<notin> set (done_subjects site db)"
  by (auto simp: latest_def latest_row_def find_None_iff done_subjects_set)

end
