(* ===== verification/BrowserRun.thy ===== *)
theory BrowserRun
  imports Observations
begin

text \<open>
  The browser collector (\<open>src/packages/browser\<close>): subjects and their file, the sites' choices of subjects and
  rows, the proxy provider, and the driver of a run with its retries, rejections and session restarts.
  The browser itself and the pages are code outside: an environment says how each opening of a
  session and each lookup ends. Printing is left out.
\<close>

section \<open>Subjects\<close>

datatype subject_kind = Phone | Dni | Ruc

record subject =
  sj_text :: pystr
  sj_kind :: subject_kind

text \<open>The pattern \<open>^9\d{8}$\<close>.\<close>

definition matches_phone :: "pystr \<Rightarrow> bool" where
  "matches_phone s \<longleftrightarrow> s \<noteq> [] \<and> hd s = CHR ''9'' \<and> matches_digits 9 9 s"

definition parse_subject :: "pystr \<Rightarrow> exn + subject" where
  "parse_subject value =
     (let normalized = py_strip value
      in if matches_digits 11 11 normalized then Inr \<lparr>sj_text = normalized, sj_kind = Ruc\<rparr>
         else if matches_phone normalized then Inr \<lparr>sj_text = normalized, sj_kind = Phone\<rparr>
         else if matches_digits 7 8 normalized then Inr \<lparr>sj_text = py_zfill 8 normalized, sj_kind = Dni\<rparr>
         else Inl (raise_exn ValueError
                (''invalid subject '' @ py_repr value @
                 '': expected a 9-digit phone, 7-8 digit DNI, or 11-digit RUC'')))"

record subject_counts =
  sk_rows_read :: nat
  sk_valid :: nat
  sk_ignored :: nat
  sk_duplicates :: nat

fun read_subject_rows ::
  "bool \<Rightarrow> pystr list list \<Rightarrow> pystr list \<Rightarrow> subject list \<Rightarrow> subject_counts \<Rightarrow> subject list \<times> subject_counts" where
  "read_subject_rows dedupe [] seen subjects c = (subjects, c)"
| "read_subject_rows dedupe (row # rows) seen subjects c =
     (let c = c\<lparr>sk_rows_read := sk_rows_read c + 1\<rparr>
      in if row = [] \<or> py_strip (hd row) = []
         then read_subject_rows dedupe rows seen subjects (c\<lparr>sk_ignored := sk_ignored c + 1\<rparr>)
         else
           (case parse_subject (hd row) of
              Inl _ \<Rightarrow> read_subject_rows dedupe rows seen subjects (c\<lparr>sk_ignored := sk_ignored c + 1\<rparr>)
            | Inr s \<Rightarrow>
                if dedupe \<and> sj_text s \<in> set seen
                then read_subject_rows dedupe rows seen subjects (c\<lparr>sk_duplicates := sk_duplicates c + 1\<rparr>)
                else read_subject_rows dedupe rows (sj_text s # seen) (subjects @ [s]) (c\<lparr>sk_valid := sk_valid c + 1\<rparr>)))"

text \<open>The file's text without its byte order mark.\<close>

definition read_subjects :: "pystr \<Rightarrow> bool \<Rightarrow> subject list \<times> subject_counts" where
  "read_subjects content dedupe =
     read_subject_rows dedupe (csv_reader content) [] []
       \<lparr>sk_rows_read = 0, sk_valid = 0, sk_ignored = 0, sk_duplicates = 0\<rparr>"

section \<open>Sites\<close>

record browser_site =
  bs_name :: pystr
  bs_header :: "pystr list"
  bs_accepts :: "subject \<Rightarrow> bool"
  bs_rows :: "pystr \<Rightarrow> columns \<Rightarrow> pystr \<Rightarrow> pystr list list option"

text \<open>Cells by column name; None is the \<open>KeyError\<close>.\<close>

definition cells :: "columns \<Rightarrow> pystr list \<Rightarrow> pystr list option" where
  "cells cols names = those (map (map_of (rev cols)) names)"

definition cell_or :: "columns \<Rightarrow> pystr \<Rightarrow> pystr" where
  "cell_or cols name = (case map_of (rev cols) name of None \<Rightarrow> [] | Some v \<Rightarrow> v)"

definition ENTEL_BROWSER :: browser_site where
  "ENTEL_BROWSER =
     \<lparr>bs_name = ''entel'', bs_header = [''subject'', ''debt_total'', ''has_punishment'', ''observed_at''],
      bs_accepts = (\<lambda>s. sj_kind s \<in> {Dni, Ruc}),
      bs_rows = (\<lambda>subject cols seen_at. map_option (\<lambda>cs. [subject # cs @ [seen_at]]) (cells cols [''debt_total'', ''has_punishment'']))\<rparr>"

definition PORTABILIDAD :: browser_site where
  "PORTABILIDAD =
     \<lparr>bs_name = ''portabilidad'',
      bs_header = [''subject'', ''receptor'', ''cedente'', ''asignatario_original'', ''fecha_ventana'', ''estado'',
                   ''current_carrier'', ''observed_at''],
      bs_accepts = (\<lambda>s. sj_kind s = Phone),
      bs_rows = (\<lambda>subject cols seen_at.
        map_option (\<lambda>cs. [[subject, cs ! 0, cell_or cols ''cedente'', cs ! 1, cell_or cols ''fecha_ventana'', cs ! 2, cs ! 3, seen_at]])
          (cells cols [''receptor'', ''asignatario_original'', ''estado'', ''current_carrier'']))\<rparr>"

definition is_juridica :: "subject \<Rightarrow> bool" where
  "is_juridica s \<longleftrightarrow> sj_kind s = Ruc \<and> py_startswith (sj_text s) ''20''"

definition is_natural :: "subject \<Rightarrow> bool" where
  "is_natural s \<longleftrightarrow> sj_kind s = Ruc \<and> \<not> py_startswith (sj_text s) ''20''"

definition identity_rows :: "pystr \<Rightarrow> columns \<Rightarrow> pystr \<Rightarrow> pystr list list option" where
  "identity_rows subject cols seen_at =
     (if cols = [] then Some []
      else map_option (\<lambda>cs. [subject # cs @ [seen_at]]) (cells cols [''tipo_doc'', ''num_doc'', ''nombre'', ''tipo_contribuyente'']))"

definition json_texts :: "json \<Rightarrow> pystr list option" where
  "json_texts v = (case v of JList xs \<Rightarrow> those (map (\<lambda>x. case x of JStr s \<Rightarrow> Some s | _ \<Rightarrow> None) xs) | _ \<Rightarrow> None)"

definition reps_rows :: "pystr \<Rightarrow> columns \<Rightarrow> pystr \<Rightarrow> pystr list list option" where
  "reps_rows subject cols seen_at =
     (if cols = [] then Some []
      else
        (case cells cols [''razon_social'', ''representantes''] of
           None \<Rightarrow> None
         | Some cs \<Rightarrow>
             (case loads (cs ! 1) of
                Some (JList reps) \<Rightarrow>
                  map_option (map (\<lambda>rep. subject # cs ! 0 # rep @ [seen_at])) (those (map json_texts reps))
              | _ \<Rightarrow> None)))"

definition SUNAT :: browser_site where
  "SUNAT =
     \<lparr>bs_name = ''sunat'',
      bs_header = [''subject'', ''tipo_doc'', ''num_doc'', ''nombre'', ''tipo_contribuyente'', ''observed_at''],
      bs_accepts = is_natural, bs_rows = identity_rows\<rparr>"

definition SUNAT_REPS :: browser_site where
  "SUNAT_REPS =
     \<lparr>bs_name = ''sunat_reps'',
      bs_header = [''subject'', ''razon_social'', ''doc_type'', ''num_doc'', ''nombre'', ''cargo'', ''fecha_desde'', ''observed_at''],
      bs_accepts = is_juridica, bs_rows = reps_rows\<rparr>"

definition BROWSER_SITES :: "(pystr \<times> browser_site) list" where
  "BROWSER_SITES = map (\<lambda>s. (bs_name s, s)) [PORTABILIDAD, ENTEL_BROWSER, SUNAT, SUNAT_REPS]"

section \<open>Driver\<close>

record browser_config =
  bc_max_session_restarts :: nat
  bc_reject_retries :: nat
  bc_reject_restart_threshold :: nat

datatype session_start = Opened | OpenFailed pystr | OpenCrashed exn

datatype reply = Found columns | Rejected pystr | Broken pystr | Crashed_Lookup exn

text \<open>How the nth session opens, what the nth lookup answers, and the clock of the nth record.\<close>

record browser_env =
  be_open :: "nat \<Rightarrow> session_start"
  be_reply :: "nat \<Rightarrow> pystr \<Rightarrow> reply"
  be_clock :: "nat \<Rightarrow> pystr"

record driver =
  dv_store :: observations
  dv_index :: nat
  dv_succeeded :: nat
  dv_rejected :: nat
  dv_failed :: nat
  dv_unresolved :: "pystr list"
  dv_lookups :: nat
  dv_sessions :: nat

text \<open>\<open>retries + 1\<close> lookups at most; the last rejection is the one that counts.\<close>

fun lookup_with_retries :: "browser_env \<Rightarrow> nat \<Rightarrow> pystr \<Rightarrow> nat \<Rightarrow> nat \<times> reply" where
  "lookup_with_retries env 0 subject n = (n + 1, be_reply env n subject)"
| "lookup_with_retries env (Suc k) subject n =
     (case be_reply env n subject of
        Rejected _ \<Rightarrow> lookup_with_retries env k subject (n + 1)
      | r \<Rightarrow> (n + 1, r))"

datatype driver_end = Going nat | Restart pystr | Aborted exn

definition add_unresolved :: "pystr \<Rightarrow> driver \<Rightarrow> driver" where
  "add_unresolved s d = d\<lparr>dv_unresolved := List.insert s (dv_unresolved d)\<rparr>"

definition note_failure :: "browser_env \<Rightarrow> pystr \<Rightarrow> pystr \<Rightarrow> pystr \<Rightarrow> pystr \<Rightarrow> pystr \<Rightarrow> driver \<Rightarrow> driver" where
  "note_failure env run_id site subject status detail d =
     (case record_failure run_id site subject status detail (be_clock env (length (dv_store d))) (dv_store d) of
        Inl _ \<Rightarrow> d | Inr db \<Rightarrow> d\<lparr>dv_store := db\<rparr>)"

definition on_success :: "browser_env \<Rightarrow> pystr \<Rightarrow> pystr \<Rightarrow> pystr \<Rightarrow> columns \<Rightarrow> driver \<Rightarrow> driver" where
  "on_success env run_id site subject cols d =
     d\<lparr>dv_store := record_success run_id site subject cols (be_clock env (length (dv_store d))) (dv_store d),
       dv_succeeded := dv_succeeded d + 1, dv_unresolved := removeAll subject (dv_unresolved d),
       dv_index := dv_index d + 1\<rparr>"

definition on_reject :: "browser_env \<Rightarrow> pystr \<Rightarrow> pystr \<Rightarrow> pystr \<Rightarrow> pystr \<Rightarrow> driver \<Rightarrow> driver" where
  "on_reject env run_id site subject detail d =
     (let d = note_failure env run_id site subject ''rejected'' detail d
      in add_unresolved subject (d\<lparr>dv_rejected := dv_rejected d + 1, dv_index := dv_index d + 1\<rparr>))"

definition on_failure :: "browser_env \<Rightarrow> pystr \<Rightarrow> pystr \<Rightarrow> pystr \<Rightarrow> pystr \<Rightarrow> driver \<Rightarrow> driver" where
  "on_failure env run_id site subject detail d =
     (let d = note_failure env run_id site subject ''failed'' detail d
      in add_unresolved subject (d\<lparr>dv_failed := dv_failed d + 1\<rparr>))"

definition threshold_text :: "nat \<Rightarrow> pystr" where
  "threshold_text n = nat_str n @ '' subjects in a row exhausted retries; restarting session''"

definition process ::
  "browser_env \<Rightarrow> browser_config \<Rightarrow> pystr \<Rightarrow> pystr \<Rightarrow> pystr \<Rightarrow> nat \<Rightarrow> driver \<Rightarrow> driver \<times> driver_end" where
  "process env cfg run_id site subject consecutive d =
     (case lookup_with_retries env (bc_reject_retries cfg) subject (dv_lookups d) of
        (n, r) \<Rightarrow>
          let d = d\<lparr>dv_lookups := n\<rparr>
          in case r of
               Found cols \<Rightarrow> (on_success env run_id site subject cols d, Going 0)
             | Rejected detail \<Rightarrow>
                 (on_reject env run_id site subject detail d,
                  if bc_reject_restart_threshold cfg \<le> consecutive + 1 then Restart (threshold_text (consecutive + 1))
                  else Going (consecutive + 1))
             | Broken detail \<Rightarrow> (on_failure env run_id site subject detail d, Restart detail)
             | Crashed_Lookup e \<Rightarrow> (d, Aborted e))"

text \<open>Whether a stored success differs from the new one: what the run prints as changed.\<close>

definition changed :: "pystr \<Rightarrow> pystr \<Rightarrow> columns \<Rightarrow> observations \<Rightarrow> bool" where
  "changed site subject cols db =
     (case latest site subject db of None \<Rightarrow> False | Some previous \<Rightarrow> previous \<noteq> Some cols)"

text \<open>The subjects from the current one on, in one session.\<close>

fun work_session ::
  "browser_env \<Rightarrow> browser_config \<Rightarrow> pystr \<Rightarrow> pystr \<Rightarrow> pystr list \<Rightarrow> nat \<Rightarrow> driver \<Rightarrow> driver \<times> driver_end" where
  "work_session env cfg run_id site [] consecutive d = (d, Going consecutive)"
| "work_session env cfg run_id site (s # ss) consecutive d =
     (case process env cfg run_id site s consecutive d of
        (d, Going c) \<Rightarrow> work_session env cfg run_id site ss c d
      | (d, e) \<Rightarrow> (d, e))"

definition drive_session ::
  "browser_env \<Rightarrow> browser_config \<Rightarrow> pystr \<Rightarrow> pystr \<Rightarrow> pystr list \<Rightarrow> driver \<Rightarrow> driver \<times> driver_end" where
  "drive_session env cfg run_id site subjects d =
     (let opened = be_open env (dv_sessions d); d = d\<lparr>dv_sessions := dv_sessions d + 1\<rparr>
      in case opened of
           OpenFailed m \<Rightarrow> (d, Restart m)
         | OpenCrashed e \<Rightarrow> (d, Aborted e)
         | Opened \<Rightarrow> work_session env cfg run_id site (drop (dv_index d) subjects) 0 d)"

text \<open>The restarts left; an exception that is no browser error leaves the loop.\<close>

fun run_all ::
  "browser_env \<Rightarrow> browser_config \<Rightarrow> pystr \<Rightarrow> pystr \<Rightarrow> pystr list \<Rightarrow> nat \<Rightarrow> driver \<Rightarrow> driver \<times> exn option" where
  "run_all env cfg run_id site subjects restarts d =
     (if length subjects \<le> dv_index d then (d, None)
      else
        (case drive_session env cfg run_id site subjects d of
           (d, Going _) \<Rightarrow> (d, None)
         | (d, Aborted e) \<Rightarrow> (d, Some e)
         | (d, Restart _) \<Rightarrow> (case restarts of 0 \<Rightarrow> (d, None) | Suc k \<Rightarrow> run_all env cfg run_id site subjects k d)))"

definition new_driver :: "observations \<Rightarrow> driver" where
  "new_driver db =
     \<lparr>dv_store = db, dv_index = 0, dv_succeeded = 0, dv_rejected = 0, dv_failed = 0, dv_unresolved = [],
      dv_lookups = 0, dv_sessions = 0\<rparr>"

definition pending_subjects :: "browser_site \<Rightarrow> subject list \<Rightarrow> observations \<Rightarrow> pystr list" where
  "pending_subjects site subjects db =
     filter (\<lambda>s. s \<notin> set (done_subjects (bs_name site) db)) (map sj_text (filter (bs_accepts site) subjects))"

text \<open>A run: the driver at its end, the exported file, and the exit code or the exception that left it.\<close>

definition browser_run ::
  "browser_env \<Rightarrow> browser_config \<Rightarrow> pystr \<Rightarrow> browser_site \<Rightarrow> pystr \<Rightarrow> observations
     \<Rightarrow> driver \<times> pystr option \<times> (exn + nat)" where
  "browser_run env cfg run_id site content db =
     (let subjects = fst (read_subjects content True)
      in if subjects = [] then (new_driver db, None, Inr 2)
         else
           let pending = pending_subjects site subjects db
           in case run_all env cfg run_id (bs_name site) pending (bc_max_session_restarts cfg) (new_driver db) of
                (d, failure) \<Rightarrow>
                  let exported = export_current (bs_name site) (bs_header site) (bs_rows site) (dv_store d)
                  in (d, exported,
                      if exported = None then Inl EXPORT_ERROR
                      else
                        case failure of
                          Some e \<Rightarrow> Inl e
                        | None \<Rightarrow> Inr (if length pending - dv_index d = 0 \<and> dv_unresolved d = [] then 0 else 1)))"

section \<open>What a run leaves\<close>

declare run_all.simps [simp del]

lemma run_all_steps [simp]:
  "run_all env cfg run_id site ps 0 d =
     (if length ps \<le> dv_index d then (d, None)
      else (case drive_session env cfg run_id site ps d of
              (d, Going _) \<Rightarrow> (d, None) | (d, Aborted e) \<Rightarrow> (d, Some e) | (d, Restart _) \<Rightarrow> (d, None)))"
  "run_all env cfg run_id site ps (Suc k) d =
     (if length ps \<le> dv_index d then (d, None)
      else (case drive_session env cfg run_id site ps d of
              (d, Going _) \<Rightarrow> (d, None) | (d, Aborted e) \<Rightarrow> (d, Some e)
            | (d, Restart _) \<Rightarrow> run_all env cfg run_id site ps k d))"
  by (subst run_all.simps, simp split: prod.split driver_end.split)+

definition settled :: "pystr \<Rightarrow> driver \<Rightarrow> pystr set" where
  "settled site d = set (done_subjects site (dv_store d))"

text \<open>
  In the middle of a run: the subjects before the current one are answered or unresolved, none from
  the current one on is answered, and only subjects of the plan without an answer are unresolved.
\<close>

definition driver_ok :: "pystr \<Rightarrow> pystr list \<Rightarrow> driver \<Rightarrow> bool" where
  "driver_ok site ps d \<longleftrightarrow>
     dv_index d \<le> length ps \<and> dv_succeeded d + dv_rejected d = dv_index d \<and>
     (\<forall>s \<in> set (take (dv_index d) ps). s \<in> settled site d \<or> s \<in> set (dv_unresolved d)) \<and>
     set (drop (dv_index d) ps) \<inter> settled site d = {} \<and>
     set (dv_unresolved d) \<subseteq> set ps - settled site d"

lemma note_failure_fields:
  "st \<in> {''rejected'', ''failed''} \<Longrightarrow> settled s (note_failure env run site subject st detail d) = settled s d"
  "dv_index (note_failure env run site subject st detail d) = dv_index d"
  "dv_succeeded (note_failure env run site subject st detail d) = dv_succeeded d"
  "dv_rejected (note_failure env run site subject st detail d) = dv_rejected d"
  "dv_failed (note_failure env run site subject st detail d) = dv_failed d"
  "dv_unresolved (note_failure env run site subject st detail d) = dv_unresolved d"
  "dv_lookups (note_failure env run site subject st detail d) = dv_lookups d"
  "dv_sessions (note_failure env run site subject st detail d) = dv_sessions d"
  by (auto simp: note_failure_def settled_def done_after_failure split: sum.split)

lemmas driver_steps = on_success_def on_reject_def on_failure_def add_unresolved_def note_failure_fields Let_def

lemma lookup_count: "lookup_with_retries env k subject n = (m, r) \<Longrightarrow> n < m \<and> m \<le> n + k + 1"
proof (induction env k subject n rule: lookup_with_retries.induct)
  case (2 env k subject n)
  then show ?case by (auto split: reply.splits)
qed auto

lemma settled_simps [simp]:
  "settled site (d\<lparr>dv_lookups := n\<rparr>) = settled site d" "settled site (d\<lparr>dv_index := i\<rparr>) = settled site d"
  "settled site (d\<lparr>dv_rejected := r\<rparr>) = settled site d" "settled site (d\<lparr>dv_failed := f\<rparr>) = settled site d"
  "settled site (d\<lparr>dv_unresolved := u\<rparr>) = settled site d" "settled site (d\<lparr>dv_sessions := z\<rparr>) = settled site d"
  "settled site (d\<lparr>dv_succeeded := c\<rparr>) = settled site d"
  by (simp_all add: settled_def)

lemma settled_success: "settled site (on_success env run site subject cols d) = insert subject (settled site d)"
  by (simp add: settled_def on_success_def)

lemma settled_failure:
  "settled site (on_reject env run site' subject detail d) = settled site d"
  "settled site (on_failure env run site' subject detail d) = settled site d"
  by (simp_all add: driver_steps)

text \<open>One subject: the counters of the run, and what they say of lookups.\<close>

lemma process_ok:
  assumes "distinct ps" and "driver_ok site ps d" and "drop (dv_index d) ps = s # ss"
    and "process env cfg run_id site s c d = (d', e)"
  shows "driver_ok site ps d'" and "dv_sessions d' = dv_sessions d"
    and "dv_lookups d' \<le> dv_lookups d + bc_reject_retries cfg + 1"
    and "case e of Going _ \<Rightarrow> dv_index d' = dv_index d + 1 \<and> dv_failed d' = dv_failed d
       | Restart _ \<Rightarrow> dv_index d' + dv_failed d' = dv_index d + dv_failed d + 1 \<and> dv_failed d' \<le> dv_failed d + 1
       | Aborted _ \<Rightarrow> dv_index d' = dv_index d \<and> dv_failed d' = dv_failed d"
proof -
  obtain n r where l: "lookup_with_retries env (bc_reject_retries cfg) s (dv_lookups d) = (n, r)" by fastforce
  have lt: "dv_index d < length ps"
    using assms(3) by (metis drop_eq_Nil leI list.distinct(1))
  have tk: "take (Suc (dv_index d)) ps = take (dv_index d) ps @ [s]" and dr: "drop (Suc (dv_index d)) ps = ss"
    using assms(3) lt by (auto simp: take_Suc_conv_app_nth Cons_nth_drop_Suc [symmetric])
  have ps: "take (dv_index d) ps @ s # ss = ps"
    using assms(3) by (metis append_take_drop_id)
  then have "distinct (take (dv_index d) ps @ s # ss)" and "s \<in> set ps"
    using assms(1) by (simp, metis in_set_conv_decomp)
  then have s: "s \<in> set ps" "s \<notin> set ss" "s \<notin> set (take (dv_index d) ps)"
    by simp_all
  have ok: "s \<notin> settled site d" "set ss \<inter> settled site d = {}"
    using assms(2,3) by (auto simp: driver_ok_def)
  have n: "n \<le> dv_lookups d + bc_reject_retries cfg + 1"
    using lookup_count [OF l] by simp
  show "driver_ok site ps d'"
  proof (cases r)
    case (Found cols)
    then have "d' = on_success env run_id site s cols (d\<lparr>dv_lookups := n\<rparr>)"
      using assms(4) l by (simp add: process_def)
    then show ?thesis
      using assms(2) lt tk dr s ok by (auto simp: driver_ok_def settled_success) (auto simp: on_success_def)
  next
    case (Rejected detail)
    then have "d' = on_reject env run_id site s detail (d\<lparr>dv_lookups := n\<rparr>)"
      using assms(4) l by (simp add: process_def Let_def split: if_splits)
    then show ?thesis
      using assms(2) lt tk dr s ok by (auto simp: driver_ok_def settled_failure) (auto simp: driver_steps)
  next
    case (Broken detail)
    then have "d' = on_failure env run_id site s detail (d\<lparr>dv_lookups := n\<rparr>)"
      using assms(4) l by (simp add: process_def)
    then show ?thesis
      using assms(2) lt tk dr s ok by (auto simp: driver_ok_def settled_failure) (auto simp: driver_steps)
  next
    case (Crashed_Lookup e)
    then show ?thesis
      using assms(2,4) l by (auto simp: process_def driver_ok_def)
  qed
  show "dv_sessions d' = dv_sessions d" "dv_lookups d' \<le> dv_lookups d + bc_reject_retries cfg + 1"
    using assms(4) l n by (cases r; auto simp: process_def driver_steps split: if_splits)+
  show "case e of Going _ \<Rightarrow> dv_index d' = dv_index d + 1 \<and> dv_failed d' = dv_failed d
       | Restart _ \<Rightarrow> dv_index d' + dv_failed d' = dv_index d + dv_failed d + 1 \<and> dv_failed d' \<le> dv_failed d + 1
       | Aborted _ \<Rightarrow> dv_index d' = dv_index d \<and> dv_failed d' = dv_failed d"
    using assms(4) l by (cases r) (auto simp: process_def driver_steps split: if_splits)
qed

definition lookups_paid :: "browser_config \<Rightarrow> nat \<Rightarrow> driver \<Rightarrow> bool" where
  "lookups_paid cfg extra d \<longleftrightarrow> dv_lookups d \<le> (bc_reject_retries cfg + 1) * (dv_index d + dv_failed d + extra)"

lemma paid_step: "m \<le> n + k + 1 \<Longrightarrow> n \<le> (k + 1) * a \<Longrightarrow> a + 1 \<le> b \<Longrightarrow> m \<le> (k + 1) * (b :: nat)"
proof -
  assume m: "m \<le> n + k + 1" and n: "n \<le> (k + 1) * a" and b: "a + 1 \<le> b"
  have "(k + 1) * (a + 1) \<le> (k + 1) * b" using b by (rule mult_le_mono2)
  then show "m \<le> (k + 1) * b" using m n by simp
qed

lemma work_session_ok:
  assumes "distinct ps" and "driver_ok site ps d" and "drop (dv_index d) ps = ss" and "lookups_paid cfg 0 d"
    and "work_session env cfg run_id site ss c d = (d', e)"
  shows "driver_ok site ps d' \<and> dv_sessions d' = dv_sessions d \<and>
     (case e of Going _ \<Rightarrow> dv_index d' = length ps \<and> dv_failed d' = dv_failed d \<and> lookups_paid cfg 0 d'
       | Restart _ \<Rightarrow> dv_failed d' \<le> dv_failed d + 1 \<and> lookups_paid cfg 0 d'
       | Aborted _ \<Rightarrow> dv_failed d' = dv_failed d \<and> lookups_paid cfg 1 d')"
  using assms(2-)
proof (induction ss arbitrary: c d)
  case Nil
  then show ?case by (auto simp: driver_ok_def)
next
  case (Cons s ss)
  obtain d1 e1 where p: "process env cfg run_id site s c d = (d1, e1)" by fastforce
  note step = process_ok [OF assms(1) Cons.prems(1,2) p]
  have l: "dv_lookups d \<le> (bc_reject_retries cfg + 1) * (dv_index d + dv_failed d)"
    using Cons.prems(3) by (simp add: lookups_paid_def)
  have paid: "lookups_paid cfg extra d1" if "dv_index d + dv_failed d + 1 \<le> dv_index d1 + dv_failed d1 + extra" for extra
    unfolding lookups_paid_def by (rule paid_step [OF step(3) l that])
  show ?case
  proof (cases e1)
    case (Going c')
    then have "drop (dv_index d1) ps = ss"
      using step(4) Cons.prems(2) by (simp add: drop_Suc) (metis drop_Suc list.sel(3) tl_drop)
    moreover have "lookups_paid cfg 0 d1"
      using paid [of 0] step(4) Going by simp
    moreover have "work_session env cfg run_id site ss c' d1 = (d', e)"
      using Cons.prems(4) p Going by simp
    ultimately show ?thesis
      using Cons.IH [OF step(1)] step(2,4) Going by (auto split: driver_end.splits)
  next
    case (Restart m)
    then show ?thesis
      using Cons.prems(4) p step paid [of 0] by auto
  next
    case (Aborted x)
    then show ?thesis
      using Cons.prems(4) p step paid [of 1] by auto
  qed
qed

lemma opened_session [simp]:
  "driver_ok site ps (d\<lparr>dv_sessions := n\<rparr>) = driver_ok site ps d"
  "lookups_paid cfg x (d\<lparr>dv_sessions := n\<rparr>) = lookups_paid cfg x d"
  by (simp_all add: driver_ok_def lookups_paid_def)

lemma paid_more: "lookups_paid cfg 0 d \<Longrightarrow> lookups_paid cfg 1 d"
  by (simp add: lookups_paid_def)

lemma drive_session_ok:
  assumes "distinct ps" and "driver_ok site ps d" and "lookups_paid cfg 0 d"
    and "drive_session env cfg run_id site ps d = (d', e)"
  shows "driver_ok site ps d' \<and> dv_sessions d' = dv_sessions d + 1 \<and>
     (case e of Going _ \<Rightarrow> dv_index d' = length ps \<and> dv_failed d' = dv_failed d \<and> lookups_paid cfg 0 d'
       | Restart _ \<Rightarrow> dv_failed d' \<le> dv_failed d + 1 \<and> lookups_paid cfg 0 d'
       | Aborted _ \<Rightarrow> dv_failed d' = dv_failed d \<and> lookups_paid cfg 1 d')"
proof -
  let ?d = "d\<lparr>dv_sessions := dv_sessions d + 1\<rparr>"
  have d: "driver_ok site ps ?d" "lookups_paid cfg 0 ?d"
    using assms(2,3) by simp_all
  show ?thesis
  proof (cases "be_open env (dv_sessions d)")
    case Opened
    then have "work_session env cfg run_id site (drop (dv_index ?d) ps) 0 ?d = (d', e)"
      using assms(4) by (simp add: drive_session_def)
    from work_session_ok [OF assms(1) d(1) refl d(2) this] show ?thesis
      by (cases e) simp_all
  next
    case (OpenFailed m)
    then have "d' = ?d" "e = Restart m"
      using assms(4) by (simp_all add: drive_session_def)
    then show ?thesis using assms(2,3) by simp
  next
    case (OpenCrashed x)
    then have "d' = ?d" "e = Aborted x"
      using assms(4) by (simp_all add: drive_session_def)
    then show ?thesis using assms(2,3) paid_more by simp
  qed
qed

lemma lookups_total:
  assumes "driver_ok site ps d" and "lookups_paid cfg x d" and "dv_failed d + x \<le> dv_sessions d"
  shows "dv_lookups d \<le> (bc_reject_retries cfg + 1) * (length ps + dv_sessions d)"
proof -
  have "dv_index d + dv_failed d + x \<le> length ps + dv_sessions d"
    using assms(1,3) by (simp add: driver_ok_def)
  then show ?thesis
    using assms(2) mult_le_mono2 unfolding lookups_paid_def by (meson order_trans)
qed

lemma run_all_ok:
  assumes "distinct ps" and "driver_ok site ps d" and "lookups_paid cfg 0 d" and "dv_failed d \<le> dv_sessions d"
    and "run_all env cfg run_id site ps k d = (d', r)"
  shows "driver_ok site ps d' \<and> dv_sessions d' \<le> dv_sessions d + k + 1
     \<and> dv_lookups d' \<le> (bc_reject_retries cfg + 1) * (length ps + dv_sessions d')"
  using assms(2-)
proof (induction k arbitrary: d)
  case (0 d)
  show ?case
  proof (cases "length ps \<le> dv_index d")
    case True
    then show ?thesis using "0.prems" lookups_total [of site ps d cfg 0] by simp
  next
    case False
    obtain d1 e1 where s: "drive_session env cfg run_id site ps d = (d1, e1)" by fastforce
    have "d' = d1" using "0.prems"(4) False s by (auto split: driver_end.splits)
    then show ?thesis
      using drive_session_ok [OF assms(1) "0.prems"(1,2) s] "0.prems"(3) lookups_total [of site ps d1 cfg 0]
        lookups_total [of site ps d1 cfg 1]
      by (cases e1) simp_all
  qed
next
  case (Suc k d)
  show ?case
  proof (cases "length ps \<le> dv_index d")
    case True
    then show ?thesis using Suc.prems lookups_total [of site ps d cfg 0] by simp
  next
    case False
    obtain d1 e1 where s: "drive_session env cfg run_id site ps d = (d1, e1)" by fastforce
    note ok = drive_session_ok [OF assms(1) Suc.prems(1,2) s]
    show ?thesis
    proof (cases e1)
      case (Restart m)
      then have "run_all env cfg run_id site ps k d1 = (d', r)"
        using Suc.prems(4) False s by simp
      then show ?thesis
        using Suc.IH [of d1] ok Restart Suc.prems(3) by auto
    qed (use Suc.prems(3,4) False s ok lookups_total [of site ps d1 cfg 0] lookups_total [of site ps d1 cfg 1] in simp_all)
  qed
qed

lemma read_subject_rows_distinct:
  "distinct (map sj_text subjects) \<Longrightarrow> set seen = sj_text ` set subjects \<Longrightarrow>
     distinct (map sj_text (fst (read_subject_rows True rows seen subjects c)))"
proof (induction rows arbitrary: seen subjects c)
  case (Cons row rows)
  then show ?case
    by (auto simp: Let_def split: sum.splits)
qed simp

lemma pending_distinct: "distinct (pending_subjects site (fst (read_subjects content True)) db)"
proof -
  have "distinct (map sj_text (fst (read_subjects content True)))"
    unfolding read_subjects_def by (rule read_subject_rows_distinct) simp_all
  then show ?thesis
    unfolding pending_subjects_def by (intro distinct_filter distinct_map_filter)
qed

lemma new_driver_ok: "driver_ok (bs_name site) (pending_subjects site subjects db) (new_driver db)"
  by (auto simp: driver_ok_def new_driver_def settled_def pending_subjects_def)

lemma run_all_new:
  assumes "run_all env cfg run_id (bs_name site) (pending_subjects site (fst (read_subjects content True)) db)
     (bc_max_session_restarts cfg) (new_driver db) = (d, r)"
  shows "driver_ok (bs_name site) (pending_subjects site (fst (read_subjects content True)) db) d"
    and "dv_sessions d \<le> bc_max_session_restarts cfg + 1"
    and "dv_lookups d \<le> (bc_reject_retries cfg + 1)
           * (length (pending_subjects site (fst (read_subjects content True)) db) + dv_sessions d)"
  using run_all_ok [OF pending_distinct new_driver_ok _ _ assms]
  by (simp_all add: new_driver_def lookups_paid_def)

lemma settled_grows: "set (done_subjects site db) \<subseteq> settled site (new_driver db)"
  by (simp add: settled_def new_driver_def)

lemma process_settles: "process env cfg run site s c d = (d', e) \<Longrightarrow> settled site d \<subseteq> settled site d'"
  by (auto simp: process_def Let_def settled_success settled_failure split: prod.splits reply.splits)

lemma work_session_settles: "work_session env cfg run site ss c d = (d', e) \<Longrightarrow> settled site d \<subseteq> settled site d'"
proof (induction ss arbitrary: c d)
  case (Cons s ss)
  then show ?case
    using process_settles [of env cfg run site s c d]
    by (fastforce split: prod.splits driver_end.splits)
qed simp

lemma drive_session_settles: "drive_session env cfg run site ps d = (d', e) \<Longrightarrow> settled site d \<subseteq> settled site d'"
  using work_session_settles [of env cfg run site]
  by (fastforce simp: drive_session_def Let_def split: session_start.splits)

lemma run_all_settles: "run_all env cfg run site ps k d = (d', r) \<Longrightarrow> settled site d \<subseteq> settled site d'"
proof (induction k arbitrary: d)
  case (0 d)
  then show ?case
    using drive_session_settles [of env cfg run site ps d]
    by (auto split: if_splits prod.splits driver_end.splits)
next
  case (Suc k d)
  then show ?case
    using drive_session_settles [of env cfg run site ps d]
    by (fastforce split: if_splits prod.splits driver_end.splits)
qed

text \<open>C17: A browser run that ends with an exit code ends with 2 when the input has no valid subject. Otherwise it
  ends with 0 when every subject of the input that the site serves has a stored success, from this run or an
  earlier one, and with 1 when one has none. Nothing that was stored as a success before is lost.\<close>
theorem browser_exit_code:
  assumes "browser_run env cfg run_id site content db = (d, exported, Inr code)"
  shows "code =
       (if fst (read_subjects content True) = [] then 2
        else if \<forall>s \<in> set (fst (read_subjects content True)). bs_accepts site s
             \<longrightarrow> sj_text s \<in> set (done_subjects (bs_name site) (dv_store d)) then 0
        else 1) \<and>
     set (done_subjects (bs_name site) db) \<subseteq> set (done_subjects (bs_name site) (dv_store d))"
proof (cases "fst (read_subjects content True) = []")
  case True
  then show ?thesis
    using assms by (auto simp: browser_run_def new_driver_def)
next
  case False
  let ?subjects = "fst (read_subjects content True)" and ?site = "bs_name site"
  let ?ps = "pending_subjects site ?subjects db"
  obtain r where run: "run_all env cfg run_id ?site ?ps (bc_max_session_restarts cfg) (new_driver db) = (d, r)"
    and code: "code = (if length ?ps - dv_index d = 0 \<and> dv_unresolved d = [] then 0 else 1)"
    using assms False by (auto simp: browser_run_def Let_def split: prod.splits option.splits if_splits)
  have ok: "driver_ok ?site ?ps d" by (rule run_all_new(1) [OF run])
  have grows: "set (done_subjects ?site db) \<subseteq> set (done_subjects ?site (dv_store d))"
    using run_all_settles [OF run] by (simp add: settled_def new_driver_def)
  have "(length ?ps - dv_index d = 0 \<and> dv_unresolved d = []) \<longleftrightarrow> set ?ps \<subseteq> settled ?site d"
  proof
    assume "length ?ps - dv_index d = 0 \<and> dv_unresolved d = []"
    then show "set ?ps \<subseteq> settled ?site d" using ok by (auto simp: driver_ok_def)
  next
    assume "set ?ps \<subseteq> settled ?site d"
    moreover have "set (dv_unresolved d) \<subseteq> set ?ps - settled ?site d"
      "set (drop (dv_index d) ?ps) \<inter> settled ?site d = {}" "set (drop (dv_index d) ?ps) \<subseteq> set ?ps"
      using ok set_drop_subset by (simp_all add: driver_ok_def)
    ultimately have "set (dv_unresolved d) \<subseteq> {}" "set (drop (dv_index d) ?ps) \<subseteq> {}"
      by (simp_all add: Diff_eq_empty_iff [THEN iffD2] Int_absorb2 subset_trans [of "set (drop (dv_index d) ?ps)" "set ?ps"])
    then show "length ?ps - dv_index d = 0 \<and> dv_unresolved d = []" by simp
  qed
  moreover have "set ?ps \<subseteq> settled ?site d \<longleftrightarrow>
      (\<forall>s \<in> set ?subjects. bs_accepts site s \<longrightarrow> sj_text s \<in> set (done_subjects ?site (dv_store d)))"
    using grows by (auto simp: pending_subjects_def settled_def)
  ultimately show ?thesis
    using code grows False by simp
qed

text \<open>C39: However sessions open and lookups answer, a browser run opens at most one session more than the
  restarts allowed and makes at most one lookup and its retries for every pending subject and every session.\<close>
theorem browser_run_bounded:
  "let d = fst (browser_run env cfg run_id site content db)
   in dv_sessions d \<le> bc_max_session_restarts cfg + 1 \<and>
      dv_lookups d \<le> (bc_reject_retries cfg + 1)
        * (length (pending_subjects site (fst (read_subjects content True)) db) + bc_max_session_restarts cfg + 1)"
proof -
  let ?subjects = "fst (read_subjects content True)"
  let ?ps = "pending_subjects site ?subjects db" and ?R = "bc_reject_retries cfg + 1"
  obtain d r where run: "run_all env cfg run_id (bs_name site) ?ps (bc_max_session_restarts cfg) (new_driver db) = (d, r)"
    by fastforce
  note new = run_all_new [OF run]
  have "?R * (length ?ps + dv_sessions d) \<le> ?R * (length ?ps + bc_max_session_restarts cfg + 1)"
    using new(2) by (intro mult_le_mono2) simp
  then have "dv_lookups d \<le> ?R * (length ?ps + bc_max_session_restarts cfg + 1)"
    using new(3) by (rule order_trans [rotated])
  moreover have "fst (browser_run env cfg run_id site content db) = (if ?subjects = [] then new_driver db else d)"
    using run by (simp add: browser_run_def Let_def)
  ultimately show ?thesis
    using new(2) by (simp add: new_driver_def)
qed

text \<open>
  A subject that is looked up has no stored success of the site yet, so a run never finds an answer to compare with
  and never prints that one changed.
\<close>

lemma changed_never_shown:
  assumes "driver_ok (bs_name site) ps d" and "dv_index d < length ps"
  shows "\<not> changed (bs_name site) (ps ! dv_index d) cols (dv_store d)"
proof -
  have "ps ! dv_index d \<in> set (drop (dv_index d) ps)"
    using assms(2) by (metis Cons_nth_drop_Suc list.set_intros(1))
  then have "ps ! dv_index d \<notin> settled (bs_name site) d"
    using assms(1) by (auto simp: driver_ok_def)
  then have "latest (bs_name site) (ps ! dv_index d) (dv_store d) = None"
    by (simp add: latest_none settled_def)
  then show ?thesis by (simp add: changed_def)
qed

definition sample_browser :: browser_env where
  "sample_browser =
     \<lparr>be_open = (\<lambda>_. Opened),
      be_reply = (\<lambda>n s. if n = 0 then Rejected ''no'' else if n = 1 then Broken ''gone''
                        else Found [(''debt_total'', ''1.00''), (''has_punishment'', ''False'')]),
      be_clock = (\<lambda>_. ''t'')\<rparr>"

definition sample_input :: pystr where
  "sample_input = ''20123456789'' @ [newline] @ ''x'' @ [newline] @ ''912345678'' @ [newline] @ ''1234567''"

theorem browser_exit_code_witness:
  "\<exists>d exported. browser_run sample_browser \<lparr>bc_max_session_restarts = 1, bc_reject_retries = 1,
       bc_reject_restart_threshold = 2\<rparr> ''r'' ENTEL_BROWSER sample_input [] = (d, exported, Inr 0)
     \<and> {''20123456789'', ''01234567''} \<subseteq> set (done_subjects ''entel'' (dv_store d))"
proof -
  let ?run = "browser_run sample_browser \<lparr>bc_max_session_restarts = 1, bc_reject_retries = 1,
       bc_reject_restart_threshold = 2\<rparr> ''r'' ENTEL_BROWSER sample_input []"
  have "snd (snd ?run) = Inr 0"
    by code_simp
  then obtain d exported where r: "?run = (d, exported, Inr 0)"
    by (metis prod.collapse)
  have subjects: "map (\<lambda>s. (sj_text s, bs_accepts ENTEL_BROWSER s)) (fst (read_subjects sample_input True))
      = [(''20123456789'', True), (''912345678'', False), (''01234567'', True)]" and name: "bs_name ENTEL_BROWSER = ''entel''"
    by code_simp+
  from browser_exit_code [OF r] subjects name r show ?thesis
    by (auto simp: map_eq_Cons_conv split: if_splits)
qed

section \<open>Proxy provider\<close>

type_synonym environ = "pystr \<Rightarrow> pystr option"

definition getenv :: "environ \<Rightarrow> pystr \<Rightarrow> pystr \<Rightarrow> pystr" where
  "getenv env name fallback = (case env name of None \<Rightarrow> fallback | Some v \<Rightarrow> v)"

definition runtime_error :: "pystr \<Rightarrow> exn + 'a" where
  "runtime_error m = Inl (raise_exn (BuiltinError ''RuntimeError'') m)"

record proxy_endpoint =
  ep_host :: pystr
  ep_port :: pystr
  ep_username :: pystr
  ep_password :: pystr

definition GEONODE_GATEWAY_HOST :: "(pystr \<times> pystr) list" where
  "GEONODE_GATEWAY_HOST =
     [(''fr'', ''proxy.geonode.io''), (''fr_whitelist'', ''prod-proxy.geonode.io''), (''us'', ''us.proxy.geonode.io''),
      (''sg'', ''sg.proxy.geonode.io'')]"

record geonode_config =
  gc_user :: pystr
  gc_password :: pystr
  gc_host :: pystr
  gc_proxy_type :: pystr
  gc_country :: pystr
  gc_lifetime :: int

record dataimpulse_config =
  dc_user :: pystr
  dc_password :: pystr
  dc_country :: pystr
  dc_session_minutes :: int

datatype proxy_provider = GeoNode geonode_config | DataImpulse dataimpulse_config

fun provider_name :: "proxy_provider \<Rightarrow> pystr" where
  "provider_name (GeoNode _) = ''geonode''"
| "provider_name (DataImpulse _) = ''dataimpulse''"

text \<open>The session part is random.\<close>

fun new_endpoint :: "pystr \<Rightarrow> proxy_provider \<Rightarrow> proxy_endpoint" where
  "new_endpoint session (GeoNode c) =
     \<lparr>ep_host = gc_host c, ep_port = ''10000'',
      ep_username = gc_user c @ ''-session-'' @ session @ ''-type-'' @ gc_proxy_type c @ ''-country-'' @ gc_country c
        @ ''-lifetime-'' @ int_str (gc_lifetime c),
      ep_password = gc_password c\<rparr>"
| "new_endpoint session (DataImpulse c) =
     \<lparr>ep_host = ''gw.dataimpulse.com'', ep_port = ''823'',
      ep_username = dc_user c @ ''__cr.'' @ dc_country c @ '';sessid.'' @ session @ '';sessttl.'' @ int_str (dc_session_minutes c),
      ep_password = dc_password c\<rparr>"

definition whole_number_env :: "environ \<Rightarrow> pystr \<Rightarrow> int \<Rightarrow> exn + int" where
  "whole_number_env env name fallback =
     (let raw = py_strip (getenv env name [])
      in if raw = [] then Inr fallback
         else (case py_int raw of None \<Rightarrow> runtime_error (name @ '' must be a whole number'') | Some n \<Rightarrow> Inr n))"

definition load_geonode_config :: "environ \<Rightarrow> exn + geonode_config" where
  "load_geonode_config env =
     (let user = getenv env ''GEONODE_USERNAME'' []; password = getenv env ''GEONODE_PASSWORD'' [];
          gateway = py_lower (py_strip (getenv env ''GEONODE_GATEWAY'' ''fr''));
          proxy_type = py_lower (py_strip (getenv env ''GEONODE_PROXY_TYPE'' ''residential''));
          country = py_upper (py_strip (getenv env ''GEONODE_COUNTRY'' []))
      in bind_res (whole_number_env env ''GEONODE_LIFETIME_MINUTES'' 10) (\<lambda>lifetime.
           if user = [] \<or> password = [] then runtime_error ''missing GEONODE_USERNAME or GEONODE_PASSWORD''
           else if country = [] then runtime_error ''GEONODE_COUNTRY must be set (Peru exits, e.g. PE)''
           else
             (case map_of GEONODE_GATEWAY_HOST gateway of
                None \<Rightarrow> runtime_error (''GEONODE_GATEWAY must be one of '' @ py_join ''|'' (sort (map fst GEONODE_GATEWAY_HOST)))
              | Some host \<Rightarrow>
                  if proxy_type \<notin> {''residential'', ''datacenter'', ''mix''}
                  then runtime_error ''GEONODE_PROXY_TYPE must be one of residential|datacenter|mix''
                  else if \<not> (3 \<le> lifetime \<and> lifetime \<le> 1440)
                  then runtime_error ''GEONODE_LIFETIME_MINUTES must be between 3 and 1440 minutes''
                  else Inr \<lparr>gc_user = user, gc_password = password, gc_host = host, gc_proxy_type = proxy_type,
                            gc_country = country, gc_lifetime = lifetime\<rparr>)))"

definition load_dataimpulse_config :: "environ \<Rightarrow> exn + dataimpulse_config" where
  "load_dataimpulse_config env =
     (let user = getenv env ''DATAIMPULSE_USERNAME'' []; password = getenv env ''DATAIMPULSE_PASSWORD'' [];
          country = py_lower (py_strip (getenv env ''DATAIMPULSE_COUNTRY'' []))
      in bind_res (whole_number_env env ''DATAIMPULSE_SESSION_MINUTES'' 3) (\<lambda>minutes.
           if user = [] \<or> password = [] then runtime_error ''missing DATAIMPULSE_USERNAME or DATAIMPULSE_PASSWORD''
           else if country = [] then runtime_error ''DATAIMPULSE_COUNTRY must be set (Peru exits, e.g. pe)''
           else if minutes < 1 then runtime_error ''DATAIMPULSE_SESSION_MINUTES must be >= 1 minute''
           else Inr \<lparr>dc_user = user, dc_password = password, dc_country = country, dc_session_minutes = minutes\<rparr>))"

text \<open>The first entry of the list decides; a lane count after a colon is dropped.\<close>

definition load_proxy_provider :: "environ \<Rightarrow> exn + proxy_provider" where
  "load_proxy_provider env =
     (let raw = py_strip (getenv env ''PROXY_PROVIDER'' [])
      in if raw = [] then runtime_error ''PROXY_PROVIDER must be set (geonode or dataimpulse), or pass --no-proxy''
         else
           let entries = filter (\<lambda>e. e \<noteq> []) (map py_strip (py_split CHR '','' raw));
               first_entry = (if entries = [] then [] else hd entries);
               name = py_lower (fst (py_partition CHR '':'' first_entry))
           in if name = ''geonode'' then bind_res (load_geonode_config env) (\<lambda>c. Inr (GeoNode c))
              else if name = ''dataimpulse'' then bind_res (load_dataimpulse_config env) (\<lambda>c. Inr (DataImpulse c))
              else runtime_error (''PROXY_PROVIDER entry '' @ py_repr name @ '' is not one of geonode|dataimpulse''))"

section \<open>Command line\<close>

record browser_args =
  ba_site :: browser_site
  ba_input_exists :: bool
  ba_max_session_restarts :: int
  ba_reject_retries :: int
  ba_reject_restart_threshold :: int
  ba_control :: "pystr option"

definition control_errors :: "browser_args \<Rightarrow> pystr list" where
  "control_errors a =
     (case ba_control a of
        None \<Rightarrow> []
      | Some c \<Rightarrow>
          (case parse_subject c of
             Inl e \<Rightarrow> [''--control is not a valid identifier: '' @ exn_text e]
           | Inr s \<Rightarrow> if bs_accepts (ba_site a) s then [] else [''--control is not served by site '' @ bs_name (ba_site a)]))"

text \<open>The configuration, or the messages the parser exits with; the path of the input is left out of its message.\<close>

definition parse_browser_args :: "browser_args \<Rightarrow> pystr list + browser_config" where
  "parse_browser_args a =
     (let errors =
        (if ba_input_exists a then [] else [''--input file not found''])
        @ (if ba_max_session_restarts a < 0 then [''--max-session-restarts must be >= 0''] else [])
        @ (if ba_reject_retries a < 0 then [''--reject-retries must be >= 0''] else [])
        @ (if ba_reject_restart_threshold a < 1 then [''--reject-restart-threshold must be >= 1''] else [])
        @ control_errors a
      in if errors \<noteq> [] then Inl errors
         else Inr \<lparr>bc_max_session_restarts = nat (ba_max_session_restarts a), bc_reject_retries = nat (ba_reject_retries a),
                   bc_reject_restart_threshold = nat (ba_reject_restart_threshold a)\<rparr>)"

lemma loaded_provider_valid:
  assumes "load_proxy_provider env = Inr p"
  shows "case p of GeoNode c \<Rightarrow> 3 \<le> gc_lifetime c \<and> gc_lifetime c \<le> 1440 \<and> gc_user c \<noteq> [] \<and> gc_country c \<noteq> []
     | DataImpulse c \<Rightarrow> 1 \<le> dc_session_minutes c \<and> dc_user c \<noteq> [] \<and> dc_country c \<noteq> []"
  using assms
  by (auto simp: load_proxy_provider_def load_geonode_config_def load_dataimpulse_config_def runtime_error_def
        bind_res_Inr_iff Let_def split: if_splits option.splits)

end
