(* ===== verification/Capture.thy ===== *)
theory Capture
  imports Observations
begin

text \<open>
  The capture relay (\<open>src/packages/capture\<close>): a script in the operator's own browser asks a local server for
  the next RUC and posts what the site answered. Here are the input file, the reading of an Entel answer, the
  state of the relay with its HTTP handler, and a run as the requests it serves. The text of a JSON number
  with a fraction is read as the decimal it shows, which is what the float shows again for up to 15
  significant digits inside the float range. The text that answers a body that is not JSON stands for the
  JSON library's own. Diagnostics and printing are left out.
\<close>

section \<open>Input\<close>

definition parse_ruc :: "pystr \<Rightarrow> exn + pystr" where
  "parse_ruc value =
     (let normalized = py_strip value
      in if length normalized = 11 \<and> list_all is_decimal_char normalized then Inr normalized
         else Inl (raise_exn ValueError (''invalid RUC '' @ py_repr value @ '': must be 11 digits'')))"

record ruc_counts =
  rk_rows_read :: nat
  rk_valid :: nat
  rk_ignored :: nat
  rk_duplicates :: nat

fun read_ruc_rows ::
  "bool \<Rightarrow> pystr list list \<Rightarrow> pystr list \<Rightarrow> pystr list \<Rightarrow> ruc_counts \<Rightarrow> pystr list \<times> ruc_counts" where
  "read_ruc_rows dedupe [] seen rucs c = (rucs, c)"
| "read_ruc_rows dedupe (row # rows) seen rucs c =
     (let c = c\<lparr>rk_rows_read := rk_rows_read c + 1\<rparr>;
          ignored = read_ruc_rows dedupe rows seen rucs (c\<lparr>rk_ignored := rk_ignored c + 1\<rparr>)
      in if row = [] then ignored
         else
           let raw = py_strip (hd row)
           in if raw = [] then ignored
              else
                (case parse_ruc raw of
                   Inl _ \<Rightarrow> ignored
                 | Inr ruc \<Rightarrow>
                     if dedupe \<and> ruc \<in> set seen
                     then read_ruc_rows dedupe rows seen rucs (c\<lparr>rk_duplicates := rk_duplicates c + 1\<rparr>)
                     else read_ruc_rows dedupe rows (ruc # seen) (rucs @ [ruc]) (c\<lparr>rk_valid := rk_valid c + 1\<rparr>)))"

definition read_rucs :: "pystr \<Rightarrow> bool \<Rightarrow> pystr list \<times> ruc_counts" where
  "read_rucs content dedupe =
     read_ruc_rows dedupe (csv_reader content) [] []
       \<lparr>rk_rows_read = 0, rk_valid = 0, rk_ignored = 0, rk_duplicates = 0\<rparr>"

section \<open>Decimals\<close>

text \<open>A decimal: its sign, its digits as a number, and its exponent; or one that is not finite.\<close>

datatype decimal = Finite bool nat int | NotFinite

definition exponent_of :: "pystr \<Rightarrow> int option" where
  "exponent_of s =
     (let ds = (if s \<noteq> [] \<and> (hd s = CHR ''-'' \<or> hd s = CHR ''+'') then tl s else s)
      in if ds = [] \<or> \<not> list_all is_decimal_char ds then None
         else Some ((if hd s = CHR ''-'' then -1 else 1) * int (digits_value ds)))"

definition decimal_number :: "bool \<Rightarrow> pystr \<Rightarrow> decimal option" where
  "decimal_number negative s =
     (let m = takeWhile (\<lambda>c. c \<noteq> CHR ''e'') s; x = dropWhile (\<lambda>c. c \<noteq> CHR ''e'') s
      in case py_partition CHR ''.'' m of
           (whole, _, rest) \<Rightarrow>
             if whole @ rest = [] \<or> \<not> list_all is_decimal_char (whole @ rest) then None
             else
               (case (if x = [] then Some 0 else exponent_of (tl x)) of
                  None \<Rightarrow> None
                | Some e \<Rightarrow> Some (Finite negative (digits_value (whole @ rest)) (e - int (length rest)))))"

text \<open>\<open>Decimal(text)\<close>: None is the \<open>InvalidOperation\<close>.\<close>

definition decimal_of :: "pystr \<Rightarrow> decimal option" where
  "decimal_of text =
     (let s = py_lower (filter (\<lambda>c. c \<noteq> CHR ''_'') (py_strip text));
          negative = (s \<noteq> [] \<and> hd s = CHR ''-'');
          t = (if s \<noteq> [] \<and> (hd s = CHR ''-'' \<or> hd s = CHR ''+'') then tl s else s)
      in if t = ''inf'' \<or> t = ''infinity'' then Some NotFinite
         else if py_startswith t ''nan'' \<and> list_all is_decimal_char (drop 3 t) then Some NotFinite
         else if py_startswith t ''snan'' \<and> list_all is_decimal_char (drop 4 t) then Some NotFinite
         else decimal_number negative t)"

text \<open>Two places, a tie to the even digit.\<close>

definition half_even :: "nat \<Rightarrow> nat \<Rightarrow> nat" where
  "half_even n d =
     (let q = n div d; r = n mod d
      in if 2 * r < d then q else if d < 2 * r then q + 1 else if even q then q else q + 1)"

definition hundredths :: "nat \<Rightarrow> int \<Rightarrow> nat" where
  "hundredths digits e =
     (if 0 \<le> e + 2 then digits * 10 ^ nat (e + 2) else half_even digits (10 ^ nat (- (e + 2))))"

definition two_places :: "bool \<Rightarrow> nat \<Rightarrow> int \<Rightarrow> pystr" where
  "two_places negative digits e =
     (let h = hundredths digits e
      in (if negative then ''-'' else []) @ nat_str (h div 100) @ ''.'' @ py_zfill 2 (nat_str (h mod 100)))"

section \<open>An Entel answer\<close>

text \<open>\<open>str(value)\<close> of a parsed value; containers only ever reach an error message.\<close>

definition json_str :: "json \<Rightarrow> pystr" where
  "json_str v =
     (case v of JStr s \<Rightarrow> s | JInt i \<Rightarrow> int_str i | JFloat s \<Rightarrow> s | JBool b \<Rightarrow> (if b then ''True'' else ''False'')
      | JNull \<Rightarrow> ''None'' | _ \<Rightarrow> dumps v)"

datatype lookup_answer = Answered columns | SiteRejected pystr | CaptureFailed pystr

definition parse_debt_fields :: "(pystr \<times> json) list \<Rightarrow> pystr + (pystr \<times> bool)" where
  "parse_debt_fields debt =
     (case decimal_of (json_str (json_get debt ''DebtTotal'')) of
        None \<Rightarrow> Inl ''Entel debt total is invalid''
      | Some NotFinite \<Rightarrow> Inl ''Entel debt total is invalid''
      | Some (Finite negative digits e) \<Rightarrow>
          if negative \<and> digits \<noteq> 0 then Inl ''Entel debt total is invalid''
          else
            (case json_get debt ''HasPunishment'' of
               JBool b \<Rightarrow> Inr (two_places negative digits e, b)
             | _ \<Rightarrow> Inl ''Entel debt data omitted HasPunishment''))"

definition parse_lookup_result :: "json \<Rightarrow> pystr \<Rightarrow> lookup_answer" where
  "parse_lookup_result payload expected_ruc =
     (case payload of
        JObj obj \<Rightarrow>
          if json_truthy (json_get obj ''exception'')
          then CaptureFailed (''Entel lookup script failed: '' @ json_str (json_get obj ''exception''))
          else if json_get obj ''ruc'' \<noteq> JStr expected_ruc
          then CaptureFailed ''Entel lookup returned a response for another RUC''
          else if json_get obj ''hasError'' = JBool True
          then SiteRejected (''Entel rejected lookup for RUC '' @ expected_ruc)
          else if json_get obj ''hasError'' \<noteq> JBool False then CaptureFailed ''Entel lookup omitted HasErrorDebt''
          else
            (case json_get obj ''debt'' of
               JObj debt \<Rightarrow>
                 if json_get debt ''DocumentNumber'' \<noteq> JStr expected_ruc
                 then CaptureFailed ''Entel debt data contains another document number''
                 else
                   (case parse_debt_fields debt of
                      Inl m \<Rightarrow> CaptureFailed m
                    | Inr (amount, punished) \<Rightarrow>
                        Answered [(''debt_total'', amount), (''has_punishment'', if punished then ''True'' else ''False'')])
             | _ \<Rightarrow> CaptureFailed ''Entel lookup omitted debt data'')
      | _ \<Rightarrow> CaptureFailed ''Entel lookup returned an unsupported payload'')"

section \<open>Relay\<close>

record relay_config =
  rc_rucs :: "pystr list"
  rc_run :: pystr
  rc_token :: pystr
  rc_site :: pystr
  rc_origin :: pystr

record relay =
  rl_store :: observations
  rl_index :: nat
  rl_succeeded :: nat
  rl_rejected :: nat
  rl_failed :: nat
  rl_complete :: bool

definition current_ruc :: "relay_config \<Rightarrow> relay \<Rightarrow> pystr option" where
  "current_ruc cfg r = (if length (rc_rucs cfg) \<le> rl_index r then None else Some (rc_rucs cfg ! rl_index r))"

definition value_error :: "pystr \<Rightarrow> exn" where
  "value_error m = raise_exn ValueError m"

definition stored_failure :: "relay_config \<Rightarrow> pystr \<Rightarrow> pystr \<Rightarrow> pystr \<Rightarrow> pystr \<Rightarrow> observations \<Rightarrow> observations" where
  "stored_failure cfg ruc status detail now db =
     (case record_failure (rc_run cfg) (rc_site cfg) ruc status detail now db of Inl _ \<Rightarrow> db | Inr db' \<Rightarrow> db')"

definition record_payload :: "relay_config \<Rightarrow> pystr \<Rightarrow> json \<Rightarrow> relay \<Rightarrow> exn + relay" where
  "record_payload cfg now payload r =
     (case current_ruc cfg r of
        None \<Rightarrow> Inl (value_error ''the relay has no pending RUC'')
      | Some ruc \<Rightarrow>
          (case payload of
             JObj obj \<Rightarrow>
               if json_get obj ''ruc'' \<noteq> JStr ruc then Inl (value_error ''the browser returned an unexpected RUC'')
               else
                 (case parse_lookup_result payload ruc of
                    SiteRejected m \<Rightarrow>
                      Inr (r\<lparr>rl_store := stored_failure cfg ruc ''rejected'' m now (rl_store r),
                             rl_rejected := rl_rejected r + 1, rl_index := rl_index r + 1\<rparr>)
                  | CaptureFailed m \<Rightarrow>
                      Inr (r\<lparr>rl_store := stored_failure cfg ruc ''failed'' m now (rl_store r),
                             rl_failed := rl_failed r + 1, rl_index := rl_index r + 1\<rparr>)
                  | Answered cols \<Rightarrow>
                      Inr (r\<lparr>rl_store := record_success (rc_run cfg) (rc_site cfg) ruc cols now (rl_store r),
                             rl_succeeded := rl_succeeded r + 1, rl_index := rl_index r + 1\<rparr>))
           | _ \<Rightarrow> Inl (value_error ''the browser returned an unexpected RUC'')))"

section \<open>Requests\<close>

datatype http_method = GET | POST | OPTIONS

text \<open>
  A request: the headers the relay reads, and its body, as the text that \<open>json.loads\<close> decodes from what a read of
  so many bytes gives (it detects UTF-8, UTF-16 and UTF-32), None when the bytes do not decode.
\<close>

record http_request =
  rq_method :: http_method
  rq_path :: pystr
  rq_origin :: "pystr option"
  rq_token :: "pystr option"
  rq_length :: "pystr option"
  rq_body :: "nat \<Rightarrow> pystr option"

text \<open>An answer: its status with the JSON of its body, or the exception that ends the request.\<close>

datatype http_answer = Status nat "json option" | RequestCrashed exn

definition origin_allowed :: "relay_config \<Rightarrow> http_request \<Rightarrow> bool" where
  "origin_allowed cfg q \<longleftrightarrow> rq_origin q = Some (rc_origin cfg)"

text \<open>None when the request may go on.\<close>

definition unauthorized :: "relay_config \<Rightarrow> http_request \<Rightarrow> http_answer option" where
  "unauthorized cfg q =
     (if \<not> origin_allowed cfg q then Some (Status 403 None)
      else
        let supplied = (case rq_token q of None \<Rightarrow> [] | Some t \<Rightarrow> t)
        in if \<not> list_all (\<lambda>c. code_point c < 128) (supplied @ rc_token cfg)
           then Some (RequestCrashed (raise_exn (BuiltinError ''TypeError'')
                  ''comparing strings with non-ASCII characters is not supported''))
           else if supplied \<noteq> rc_token cfg then Some (Status 401 None) else None)"

definition read_payload :: "http_request \<Rightarrow> exn + json" where
  "read_payload q =
     (case py_int (case rq_length q of None \<Rightarrow> ''0'' | Some l \<Rightarrow> l) of
        None \<Rightarrow> Inl (value_error ''invalid literal for int() with base 10'')
      | Some n \<Rightarrow>
          if n < 1 \<or> 1000000 < n then Inl (value_error ''invalid result size'')
          else
            (case rq_body q (nat n) of
               None \<Rightarrow> Inl (value_error ''undecodable body'')
             | Some text \<Rightarrow> (case loads text of None \<Rightarrow> Inl (value_error ''invalid json'') | Some v \<Rightarrow> Inr v)))"

definition do_OPTIONS :: "relay_config \<Rightarrow> http_request \<Rightarrow> relay \<Rightarrow> relay \<times> http_answer" where
  "do_OPTIONS cfg q r = (r, if origin_allowed cfg q then Status 204 None else Status 403 None)"

definition do_GET :: "relay_config \<Rightarrow> http_request \<Rightarrow> relay \<Rightarrow> relay \<times> http_answer" where
  "do_GET cfg q r =
     (if rq_path q \<noteq> ''/next'' then (r, Status 404 None)
      else
        (case unauthorized cfg q of
           Some a \<Rightarrow> (r, a)
         | None \<Rightarrow>
             (case current_ruc cfg r of
                None \<Rightarrow> (r\<lparr>rl_complete := True\<rparr>, Status 200 (Some (JObj [(''done'', JBool True), (''ruc'', JNull)])))
              | Some ruc \<Rightarrow> (r, Status 200 (Some (JObj [(''done'', JBool False), (''ruc'', JStr ruc)]))))))"

definition do_POST :: "relay_config \<Rightarrow> pystr \<Rightarrow> http_request \<Rightarrow> relay \<Rightarrow> relay \<times> http_answer" where
  "do_POST cfg now q r =
     (if rq_path q \<noteq> ''/result'' then (r, Status 404 None)
      else
        (case unauthorized cfg q of
           Some a \<Rightarrow> (r, a)
         | None \<Rightarrow>
             (case bind_res (read_payload q) (\<lambda>payload. record_payload cfg now payload r) of
                Inl e \<Rightarrow> (r, Status 400 (Some (JObj [(''error'', JStr (exn_text e))])))
              | Inr r' \<Rightarrow> (r', Status 200 (Some (JObj [(''ok'', JBool True)]))))))"

definition handle_request :: "relay_config \<Rightarrow> pystr \<times> http_request \<Rightarrow> relay \<Rightarrow> relay \<times> http_answer" where
  "handle_request cfg nq r =
     (case nq of (now, q) \<Rightarrow>
        case rq_method q of
          GET \<Rightarrow> do_GET cfg q r | POST \<Rightarrow> do_POST cfg now q r | OPTIONS \<Rightarrow> do_OPTIONS cfg q r)"

section \<open>Run\<close>

text \<open>The server answers one request after the other until the relay is complete or the operator stops it.\<close>

fun serve :: "relay_config \<Rightarrow> (pystr \<times> http_request) list \<Rightarrow> relay \<Rightarrow> relay" where
  "serve cfg [] r = r"
| "serve cfg (q # qs) r = (if rl_complete r then r else serve cfg qs (fst (handle_request cfg q r)))"

definition new_relay :: "observations \<Rightarrow> relay" where
  "new_relay db =
     \<lparr>rl_store = db, rl_index = 0, rl_succeeded = 0, rl_rejected = 0, rl_failed = 0, rl_complete = False\<rparr>"

definition entel_row :: "pystr \<Rightarrow> columns \<Rightarrow> pystr \<Rightarrow> pystr list list option" where
  "entel_row ruc cols seen_at =
     map_option (\<lambda>cs. [ruc # cs @ [seen_at]]) (those (map (map_of (rev cols)) [''debt_total'', ''has_punishment'']))"

text \<open>The relay at the end, the exported file, and the exit code or the exception that left the run.\<close>

definition capture_run ::
  "relay_config \<Rightarrow> (pystr \<times> http_request) list \<Rightarrow> observations \<Rightarrow> relay \<times> pystr option \<times> (exn + nat)" where
  "capture_run cfg requests db =
     (if rc_rucs cfg = [] then (new_relay db, None, Inr 2)
      else
        let r = serve cfg requests (new_relay db);
            exported = export_current (rc_site cfg) [''ruc'', ''debt_total'', ''has_punishment'', ''observed_at''] entel_row (rl_store r)
        in (r, exported,
            if exported = None then Inl EXPORT_ERROR
            else Inr (if length (rc_rucs cfg) - rl_index r = 0 \<and> rl_rejected r = 0 \<and> rl_failed r = 0 then 0 else 1)))"

section \<open>Every request keeps the relay's books\<close>

definition new_rows :: "observations \<Rightarrow> relay \<Rightarrow> observation list" where
  "new_rows db r = drop (length db) (rl_store r)"

definition with_status :: "pystr \<Rightarrow> observation list \<Rightarrow> nat" where
  "with_status st rows = length (filter (\<lambda>x. os_status x = st) rows)"

definition relay_books :: "relay_config \<Rightarrow> observations \<Rightarrow> relay \<Rightarrow> bool" where
  "relay_books cfg db r \<longleftrightarrow>
     rl_store r = db @ new_rows db r \<and>
     map os_subject (new_rows db r) = take (rl_index r) (rc_rucs cfg) \<and>
     rl_index r \<le> length (rc_rucs cfg) \<and>
     list_all (\<lambda>x. os_run x = rc_run cfg \<and> os_site x = rc_site cfg \<and>
                   (os_status x = ''ok'' \<or> os_status x = ''rejected'' \<or> os_status x = ''failed'')) (new_rows db r) \<and>
     rl_succeeded r = with_status ''ok'' (new_rows db r) \<and>
     rl_rejected r = with_status ''rejected'' (new_rows db r) \<and>
     rl_failed r = with_status ''failed'' (new_rows db r)"

lemma with_status_append [simp]: "with_status st (xs @ ys) = with_status st xs + with_status st ys"
  by (simp add: with_status_def)

lemma with_status_one [simp]: "with_status st [x] = (if os_status x = st then 1 else 0)"
  by (simp add: with_status_def)

lemma books_row:
  assumes books: "relay_books cfg db r" and ruc: "current_ruc cfg r = Some u"
    and row: "rl_store r' = rl_store r @ [x]" "os_subject x = u" "os_run x = rc_run cfg" "os_site x = rc_site cfg"
      "os_status x = ''ok'' \<or> os_status x = ''rejected'' \<or> os_status x = ''failed''"
    and counts: "rl_index r' = rl_index r + 1"
      "rl_succeeded r' = rl_succeeded r + (if os_status x = ''ok'' then 1 else 0)"
      "rl_rejected r' = rl_rejected r + (if os_status x = ''rejected'' then 1 else 0)"
      "rl_failed r' = rl_failed r + (if os_status x = ''failed'' then 1 else 0)"
  shows "relay_books cfg db r'"
proof -
  have rows: "new_rows db r' = new_rows db r @ [x]"
  proof -
    have "rl_store r' = db @ new_rows db r @ [x]" using books row(1) by (simp add: relay_books_def)
    then show ?thesis by (simp add: new_rows_def)
  qed
  have "rl_index r < length (rc_rucs cfg)" "rc_rucs cfg ! rl_index r = u"
    using ruc by (auto simp: current_ruc_def split: if_splits)
  then show ?thesis
    using books row counts by (auto simp: relay_books_def rows take_Suc_conv_app_nth)
qed

lemma record_books:
  assumes "relay_books cfg db r" "record_payload cfg now v r = Inr r'"
  shows "relay_books cfg db r'"
proof -
  obtain u where u: "current_ruc cfg r = Some u"
    using assms(2) by (auto simp: record_payload_def split: option.splits)
  show ?thesis
    by (rule books_row [OF assms(1) u, where x = "last (rl_store r')"]; use assms(2) u in
        \<open>auto simp: record_payload_def stored_failure_def record_failure_def record_success_def
              split: json.splits lookup_answer.splits if_splits\<close>)
qed

lemma handle_books:
  assumes "relay_books cfg db r"
  shows "relay_books cfg db (fst (handle_request cfg nq r))"
proof -
  obtain now q where nq: "nq = (now, q)" by (cases nq)
  have "relay_books cfg db (r\<lparr>rl_complete := True\<rparr>)"
    using assms by (simp add: relay_books_def new_rows_def)
  then have get: "relay_books cfg db (fst (do_GET cfg q r))"
    using assms by (auto simp: do_GET_def split: option.splits)
  have post: "relay_books cfg db (fst (do_POST cfg now q r))"
    using assms record_books by (auto simp: do_POST_def bind_res_def split: option.splits sum.splits)
  show ?thesis
    using assms get post by (simp add: handle_request_def nq do_OPTIONS_def split: http_method.split)
qed

lemma serve_books: "relay_books cfg db r \<Longrightarrow> relay_books cfg db (serve cfg qs r)"
  by (induction cfg qs r rule: serve.induct) (simp_all add: handle_books)

lemma all_of_status:
  "list_all (\<lambda>x. os_status x = ''ok'' \<or> os_status x = ''rejected'' \<or> os_status x = ''failed'') xs \<Longrightarrow>
     with_status ''rejected'' xs = 0 \<Longrightarrow> with_status ''failed'' xs = 0 \<Longrightarrow> list_all (\<lambda>x. os_status x = ''ok'') xs"
  by (induction xs) (auto simp: with_status_def split: if_splits)

lemma capture_books: "relay_books cfg db (fst (capture_run cfg qs db))"
proof -
  have "relay_books cfg db (new_relay db)" by (simp add: relay_books_def new_relay_def new_rows_def with_status_def)
  then show ?thesis by (simp add: capture_run_def Let_def serve_books)
qed

text \<open>C18: A capture run keeps complete books. Whatever requests the relay serves, the table holds what it held
  before and one row per processed RUC, in the order of the input, and the counters of the summary are the
  numbers of rows of each status. The run exits with 0 exactly when the input has RUCs, every one of them
  has an \<open>ok\<close> row, and the export was written.\<close>

theorem capture_accounts:
  "case capture_run cfg requests db of
     (r, exported, code) \<Rightarrow>
       rl_store r = db @ new_rows db r \<and>
       map os_subject (new_rows db r) = take (rl_index r) (rc_rucs cfg) \<and>
       (rl_succeeded r, rl_rejected r, rl_failed r) =
         (with_status ''ok'' (new_rows db r), with_status ''rejected'' (new_rows db r),
          with_status ''failed'' (new_rows db r)) \<and>
       (code = Inr 0 \<longleftrightarrow>
          rc_rucs cfg \<noteq> [] \<and> exported \<noteq> None \<and>
          map (\<lambda>x. (os_subject x, os_status x)) (new_rows db r) = map (\<lambda>u. (u, ''ok'')) (rc_rucs cfg))"
proof -
  obtain r out code where run: "capture_run cfg requests db = (r, out, code)" by (metis prod_cases3)
  have books: "relay_books cfg db r" using capture_books [of cfg db requests] by (simp add: run)
  have code: "code = Inr 0 \<longleftrightarrow> rc_rucs cfg \<noteq> [] \<and> out \<noteq> None \<and> length (rc_rucs cfg) \<le> rl_index r \<and> rl_rejected r = 0 \<and> rl_failed r = 0"
    using run by (auto simp: capture_run_def Let_def split: if_splits)
  have ok: "list_all (\<lambda>x. os_status x = ''ok'') (new_rows db r) \<longleftrightarrow> rl_rejected r = 0 \<and> rl_failed r = 0"
  proof
    assume "list_all (\<lambda>x. os_status x = ''ok'') (new_rows db r)"
    then show "rl_rejected r = 0 \<and> rl_failed r = 0"
      using books by (auto simp: relay_books_def with_status_def list_all_iff filter_empty_conv)
  next
    assume "rl_rejected r = 0 \<and> rl_failed r = 0"
    then show "list_all (\<lambda>x. os_status x = ''ok'') (new_rows db r)"
      using books by (intro all_of_status) (auto simp: relay_books_def list_all_iff)
  qed
  have pairs: "map (\<lambda>x. (os_subject x, os_status x)) xs = map (\<lambda>u. (u, ''ok'')) us \<longleftrightarrow>
      map os_subject xs = us \<and> list_all (\<lambda>x. os_status x = ''ok'') xs" for xs us
    by (induction xs arbitrary: us) (auto simp: Cons_eq_map_conv map_eq_Cons_conv)
  have "take (rl_index r) (rc_rucs cfg) = rc_rucs cfg \<longleftrightarrow> length (rc_rucs cfg) \<le> rl_index r" by simp
  then show ?thesis
    using books by (auto simp: run code pairs ok relay_books_def)
qed

lemma payload_read:
  assumes "read_payload q = Inr v"
  shows "\<exists>size n text. rq_length q = Some size \<and> py_int size = Some (int n) \<and> 1 \<le> n \<and> n \<le> 1000000 \<and>
     rq_body q n = Some text \<and> loads text = Some v"
proof -
  obtain n where n: "py_int (case rq_length q of None \<Rightarrow> ''0'' | Some l \<Rightarrow> l) = Some n" "1 \<le> n" "n \<le> 1000000"
    using assms by (auto simp: read_payload_def split: option.splits if_splits)
  obtain body where "rq_body q (nat n) = Some body" "loads body = Some v"
    using assms n by (auto simp: read_payload_def split: option.splits if_splits)
  moreover have "py_int ''0'' = Some 0"
    by code_simp
  then have "rq_length q \<noteq> None"
    using n(1,2) by (auto split: option.splits)
  then obtain size where "rq_length q = Some size" by blast
  ultimately show ?thesis
    using n by - (rule exI [of _ size], rule exI [of _ "nat n"], rule exI [of _ body], simp add: nat_le_iff Suc_le_eq)
qed

text \<open>C40: Only the operator's own page moves the relay. When a request changes it, the request came from the
  site's origin with the token of the run, and either asked for the next RUC when none was left, or posted to
  \<open>/result\<close> with a \<open>Content-Length\<close> between one and a million, and that many bytes of its body are a JSON object
  that names the RUC the relay is waiting for.\<close>
theorem relay_moved_by_its_page:
  assumes "rc_token cfg \<noteq> []" "fst (handle_request cfg (now, q) r) \<noteq> r"
  shows "rq_origin q = Some (rc_origin cfg) \<and> rq_token q = Some (rc_token cfg) \<and>
    (rq_method q = GET \<and> rq_path q = ''/next'' \<and> current_ruc cfg r = None \<or>
     rq_method q = POST \<and> rq_path q = ''/result'' \<and>
     (\<exists>size n text obj u. rq_length q = Some size \<and> py_int size = Some (int n) \<and> 1 \<le> n \<and> n \<le> 1000000 \<and>
        rq_body q n = Some text \<and> loads text = Some (JObj obj) \<and>
        current_ruc cfg r = Some u \<and> json_get obj ''ruc'' = JStr u))"
proof -
  have allowed: "rq_origin q = Some (rc_origin cfg) \<and> rq_token q = Some (rc_token cfg)"
    if "unauthorized cfg q = None"
    using that assms(1) by (auto simp: unauthorized_def origin_allowed_def Let_def split: if_splits option.splits)
  consider "rq_method q = GET" | "rq_method q = POST" | "rq_method q = OPTIONS" by (cases "rq_method q") auto
  then show ?thesis
  proof cases
    case 1
    then show ?thesis using assms(2) allowed
      by (auto simp: handle_request_def do_GET_def split: if_splits option.splits)
  next
    case 2
    obtain payload where post: "rq_path q = ''/result''" "unauthorized cfg q = None" "read_payload q = Inr payload"
      and moved: "record_payload cfg now payload r \<noteq> Inr r" "\<exists>r'. record_payload cfg now payload r = Inr r'"
      using 2 assms(2)
      by (auto simp: handle_request_def do_POST_def bind_res_def split: if_splits option.splits sum.splits)
    obtain obj u where "payload = JObj obj" "current_ruc cfg r = Some u" "json_get obj ''ruc'' = JStr u"
      using moved(2) by (auto simp: record_payload_def split: option.splits json.splits if_splits)
    then show ?thesis
      using 2 post(1) allowed [OF post(2)] payload_read [OF post(3)] by blast
  next
    case 3
    then show ?thesis using assms(2) by (simp add: handle_request_def do_OPTIONS_def)
  qed
qed

definition sample_relay_config :: relay_config where
  "sample_relay_config =
     \<lparr>rc_rucs = [''20123456789'', ''20987654321''], rc_run = ''r1'', rc_token = ''secret'', rc_site = ''entel'',
      rc_origin = ''https://miperfil.entel.pe''\<rparr>"

definition sample_post :: "pystr \<Rightarrow> http_request" where
  "sample_post text =
     \<lparr>rq_method = POST, rq_path = ''/result'', rq_origin = Some ''https://miperfil.entel.pe'',
      rq_token = Some ''secret'', rq_length = Some (nat_str (length text)), rq_body = (\<lambda>n. Some (take n text))\<rparr>"

definition sample_answer :: pystr where
  "sample_answer = dumps (JObj
     [(''ruc'', JStr ''20123456789''), (''hasError'', JBool False),
      (''debt'', JObj [(''DocumentNumber'', JStr ''20123456789''), (''DebtTotal'', JStr ''2.5''),
                     (''HasPunishment'', JBool False)])])"

lemma sample_relay_moves:
  "map (\<lambda>x. (os_status x, os_payload x))
     (rl_store (fst (handle_request sample_relay_config (''t'', sample_post sample_answer) (new_relay []))))
   = [(''ok'', columns_text [(''debt_total'', ''2.50''), (''has_punishment'', ''False'')])]"
  by code_simp

theorem relay_moved_by_its_page_witness:
  "fst (handle_request sample_relay_config (''t'', sample_post sample_answer) (new_relay [])) \<noteq> new_relay [] \<and>
   (\<exists>n text obj. 1 \<le> n \<and> n \<le> 1000000 \<and> rq_body (sample_post sample_answer) n = Some text \<and>
     loads text = Some (JObj obj) \<and> json_get obj ''ruc'' = JStr ''20123456789'')"
proof -
  have moved: "fst (handle_request sample_relay_config (''t'', sample_post sample_answer) (new_relay [])) \<noteq> new_relay []"
    using sample_relay_moves by (auto simp: new_relay_def)
  have "rc_token sample_relay_config \<noteq> []" by (simp add: sample_relay_config_def)
  moreover have "current_ruc sample_relay_config (new_relay []) = Some ''20123456789''" by code_simp
  moreover have "rq_method (sample_post sample_answer) = POST" by (simp add: sample_post_def)
  ultimately show ?thesis
    using relay_moved_by_its_page [of sample_relay_config "''t''" "sample_post sample_answer" "new_relay []"] moved
    by auto
qed

end
