(* ===== verification/Spec2Isabelle.thy ===== *)
theory Spec2Isabelle
  imports CliRun Fleet QueueFifo WorkerRound WorkerLanes Enrollment ServiceProps JobPages BrowserRun Capture
begin

text \<open>
  A model of the programs that look documents up at public sites through rotating proxies: the
  shared library (\<open>src/packages/core\<close>), the command line (\<open>src/packages/cli\<close>), the portal
  (\<open>src/packages/portal\<close>: its queue, its workers, its accounts and its application service), and the two
  collectors that need a browser (\<open>src/packages/browser\<close>, \<open>src/packages/capture\<close>).

  A document goes through the parts as follows. The command line reads it from a CSV
  (\<open>Outcomes.read_docs\<close>), plans the pairs of site and document that are still open
  (\<open>plan_pending\<close>) and hands them to lanes (\<open>CliRun.run_lanes\<close>). A lane takes a document from its
  site's queue (\<open>CliRun.work_step\<close>), opens a session on a proxy slot (\<open>Fetch.ensure_session\<close>,
  \<open>Proxy.new_session\<close>) when the breaker of its source and provider lets it (\<open>Breaker.acquire\<close>),
  looks the document up (\<open>Osiptel.lookup\<close>), retries by the policy (\<open>Domain.classify_exception\<close>,
  \<open>Fetch.fetch_one\<close>) and writes the result to the store (\<open>Outcomes.store_success\<close> and its
  companions), from which the exports are made. Several stores of one job are merged by
  \<open>Fleet.fleet_merge\<close>. The portal plans an upload (\<open>Planning.plan_submission\<close>), admits it as a job of
  a queue with five active jobs (\<open>JobQueue.admit_submission\<close>), leases items to workers
  (\<open>JobQueue.claim\<close>) and takes their answers under a fence (\<open>JobQueue.publish\<close>).

  Theories, in the order of imports:
  \<^item> \<open>Prelude\<close>: texts as character lists with Python's operations on them, results as
    \<open>exn + 'a\<close> with \<open>bind_res\<close> and \<open>map_res\<close>, clocks, the collections of simplification rules.
  \<^item> \<open>Domain\<close> (\<open>core/domain\<close>): exceptions, retry policy, documents, results.
  \<^item> \<open>Gate\<close>: the interfaces a failure breaker keeps, as locales.
  \<^item> \<open>Breaker\<close> (\<open>core/pipeline/breaker.py\<close>), an interpretation of \<open>Gate\<close>.
  \<^item> \<open>Json\<close>, \<open>Csv\<close>: the parts of Python's \<open>json\<close> and \<open>csv\<close> modules the code uses, with their
    round trips.
  \<^item> \<open>Proxy\<close> (\<open>core/proxy\<close>): configuration schemas, sessions, egress probe.
  \<^item> \<open>Fetch\<close> (\<open>core/pipeline/session.py\<close>, \<open>fetch.py\<close>): session life cycle and the attempt loop.
  \<^item> \<open>Osiptel\<close> (\<open>core/sites\<close>): the paging client of the one stable site, and the site registry.
  \<^item> \<open>Outcomes\<close> (\<open>cli/store\<close>): the store of outcomes, planning, exports, import.
  \<^item> \<open>Fleet\<close> (\<open>cli/fleet.py\<close>), \<open>CliRun\<close> (\<open>cli/config.py\<close>, \<open>cli/main.py\<close>, \<open>cli/pipeline\<close>).
  \<^item> \<open>Planning\<close> (\<open>portal/domain/planning.py\<close>, \<open>portal/web/uploads.py\<close>).
  \<^item> \<open>JobQueue\<close> (\<open>portal/repository/jobs.py\<close> over \<open>migrations/001_portal.sql\<close>): tables and
    transactions. \<open>QueueInv\<close>: its invariant, preserved by every transaction. \<open>QueueRun\<close>: runs as
    sequences of transactions, reachable databases, finished rows. \<open>QueueProps\<close>: fence, leases and
    the race of two last publications. \<open>QueueFifo\<close>: the refinement of a first-come-first-served queue.
  \<^item> \<open>Slots\<close> (\<open>portal/repository/slots.py\<close>): the leased proxy slots behind the interface
    \<open>lease_pool\<close>, and a fleet of lanes over them. \<open>FleetBreaker\<close> (\<open>portal/repository/breakers.py\<close>): the
    second provider of \<open>failure_gate\<close>, compared with the in-process breaker through \<open>gate_pair\<close>.
  \<^item> \<open>Wire\<close>: the parts of Python's \<open>base64\<close> and compact \<open>json\<close> the worker packs results with.
  \<^item> \<open>WorkerAgent\<close> (\<open>portal/worker/agent.py\<close>), \<open>WorkerApi\<close> (\<open>portal/worker/routes.py\<close>,
    \<open>portal/repository/workers.py\<close>): the two ends of the worker protocol. \<open>WorkerDispatch\<close>: claimed
    items against queued items. \<open>WorkerRound\<close>: claim, adopt, execute and publish composed.
    \<open>WorkerLanes\<close>: the credential cache and the tasks of a worker as a step relation.
  \<^item> \<open>Ephemeral\<close> (\<open>portal/ephemeral.py\<close>, \<open>application/throttle.py\<close>): the store of short-lived values,
    its typed states, the attempt counters of the login and recovery throttles.
  \<^item> \<open>Vault\<close> (\<open>portal/credentials\<close>, \<open>admin/keys.py\<close>, \<open>admin/rewrap.py\<close>): the master keyring and its
    file, the envelope of a secret, rotation and re-wrapping.
  \<^item> \<open>Accounts\<close> (\<open>repository/auth.py\<close>), \<open>Teams\<close> (\<open>repository/teams.py\<close>): the tables of users,
    second factors, teams, memberships and invitations, with the constraints and triggers of the
    schema; \<open>portal_sound\<close> is their common invariant.
  \<^item> \<open>Sessions\<close> (\<open>application/sessions.py\<close>): browser sessions and one-time tokens over the ephemeral
    store, through the interface \<open>one_time_store\<close>. \<open>Login\<close> (\<open>application/login.py\<close>): every way to a
    session.
  \<^item> \<open>Credentials\<close> (\<open>repository/credentials.py\<close>): proxy connections and the life cycle of their versions.
  \<^item> \<open>Access\<close> (\<open>application/access.py\<close>): methods of a service as steps that answer or fail, and the
    decorators that guard them, behind the interface \<open>access_rules\<close>.
  \<^item> \<open>Naming\<close>, \<open>Provisioning\<close> (\<open>application/provisioning.py\<close>): teams, accounts, second factors,
    invitations, connections. \<open>ProvisionProps\<close>: the invariant of the tables and the guarded actions.
    \<open>Enrollment\<close> (\<open>web/routes/invite.py\<close>): invitations from sending to sign-in, TOTP set-up.
  \<^item> \<open>Entries\<close> (\<open>repository/entries.py\<close>, \<open>search_log.py\<close>), \<open>Storage\<close> (\<open>storage/s3.py\<close>): stored answers and
    their search, uploaded objects.
  \<^item> \<open>Service\<close> (\<open>application/service.py\<close>): every method over one state that extends the state of
    \<open>Provisioning\<close> by the queue, the log, the objects and the fleet. \<open>ServiceProps\<close>: what standing each
    call needs, the invariant of the whole portal under both services, submissions, searches, uploads.
  \<^item> \<open>JobPages\<close> (\<open>web/routes/jobs.py\<close>): the downloads.
  \<^item> \<open>Observations\<close> (\<open>browser/store.py\<close>), \<open>BrowserRun\<close> (\<open>browser/run.py\<close>, \<open>subject.py\<close>, \<open>proxy.py\<close>, the sites'
    rows): the browser collector. \<open>Capture\<close> (\<open>capture/relay.py\<close>, \<open>cli.py\<close>): the relay and a run of it.

  Conventions. A Python exception is a value \<open>exn\<close> of its class and text. A clock reading is an
  argument of the operation that reads it; a float of seconds is a rational. What the network, a
  random source or another task supplies is an argument (replies of HTTP requests, hexadecimal
  text, the breaker calls other lanes make while one awaits). A SQL table is the list of its rows, a
  statement a function on it, a transaction one step. A method of a service that makes several
  transactions is run without other requests between them, except where that matters most:
  \<open>Provisioning.delete_user_among\<close> deletes an account with other commits at each of its awaits,
  \<open>Ephemeral\<close> interleaves single statements, and \<open>QueueProps.publish_race_strands\<close>,
  \<open>Vault.rewrap_races_enrollment\<close> and \<open>ProvisionProps.mutual_deletion_leaves_no_admin\<close> are races that end badly. Where a query leaves the order of
  rows open, \<open>Entries.newest_order\<close> says what it promises.

  Fuel. \<open>Osiptel.lookup\<close> counts the requests it may make; \<open>lookup_complete\<close> gives the exact number for a
  server that serves the lines, \<open>lookup_ends\<close> one that is enough for any server
  that claims a bounded number of records. The attempt loop consumes one environment an attempt and \<open>fetch_one_ends\<close>
  shows that four are enough.

  Code of others is a parameter: the authenticated cipher of the vault (with the law that opening
  undoes sealing), password hashes, TOTP codes, passkey verification, SHA-256, the challenge of the
  sign-in page, the S3 endpoint, what a browser page answers.

  Not modelled: the portal's routing, forms and HTML, its SMTP client, settings and start-up; the
  automation of browser pages and the parsing of their markup, which follow third-party pages; the
  sockets of the proxies and of the relay; logging and metrics; the operation scripts under
  \<open>src/ops\<close>, which run commands on servers. They hold no state of their own, or one that only the
  outside defines. \<open>capture/store.py\<close> repeats the table of \<open>browser/store.py\<close> and has no definitions of its own.
\<close>

end
